(* ===== verification/Prelude.thy ===== *)
theory Prelude
  imports Main "HOL-Library.Word" "HOL-Library.FSet" "HOL-Library.Finite_Map"
begin

text \<open>
  Shared vocabulary of the development.

  \<^item> machine integers: Rust's \<open>u8 \<dots> u64\<close> and \<open>i32\<close>, \<open>i64\<close> are words of that width (\<open>unat\<close> reads a
    \<open>u64\<close>, \<open>sint\<close> an \<open>i64\<close>), with \<open>checked_add\<close>, \<open>checked_sub\<close>, \<open>saturating_add\<close> and
    \<open>saturating_sub\<close> of \<open>core::num\<close> written out;
  \<^item> \<open>std::time::Duration\<close> as a number of nanoseconds, and the \<open>u64\<close> microsecond clock;
  \<^item> methods that take \<open>&mut self\<close> and return \<open>Result\<close>: state passing functions whose error
    keeps the state reached so far, sequenced by \<open>try_then\<close> (Rust's \<open>?\<close>);
  \<^item> \<open>BTreeSet\<close> and \<open>BTreeMap\<close> as \<open>fset\<close> and \<open>fmap\<close>, iterated in key order by
    \<open>sorted_list_of_fset\<close> and \<open>sorted_list_of_fmap\<close>;
  \<^item> press and release edges of held controls (keys, buttons), their replay on a set of held
    controls, and the interface \<open>edge_machine\<close> of a component that emits such edges.
\<close>

section \<open>Machine integers\<close>

type_synonym u8 = "8 word"
type_synonym u16 = "16 word"
type_synonym u32 = "32 word"
type_synonym u64 = "64 word"
type_synonym i32 = "32 word"
type_synonym i64 = "64 word"

abbreviation U64_MAX :: u64 where
  "U64_MAX \<equiv> - 1"

definition checked_add_u64 :: "u64 \<Rightarrow> u64 \<Rightarrow> u64 option" where
  "checked_add_u64 a b = (if unat a + unat b < 2 ^ 64 then Some (a + b) else None)"

definition checked_sub_u64 :: "u64 \<Rightarrow> u64 \<Rightarrow> u64 option" where
  "checked_sub_u64 a b = (if b \<le> a then Some (a - b) else None)"

definition saturating_add_u64 :: "u64 \<Rightarrow> u64 \<Rightarrow> u64" where
  "saturating_add_u64 a b = (if unat a + unat b < 2 ^ 64 then a + b else U64_MAX)"

definition saturating_sub_u64 :: "u64 \<Rightarrow> u64 \<Rightarrow> u64" where
  "saturating_sub_u64 a b = (if b \<le> a then a - b else 0)"

definition saturating_mul_u64 :: "u64 \<Rightarrow> u64 \<Rightarrow> u64" where
  "saturating_mul_u64 a b = (if unat a * unat b < 2 ^ 64 then a * b else U64_MAX)"

text \<open>\<open>u64::div_ceil\<close>; the callers exclude a zero divisor.\<close>

definition div_ceil_u64 :: "u64 \<Rightarrow> u64 \<Rightarrow> u64" where
  "div_ceil_u64 a b = (if a mod b = 0 then a div b else a div b + 1)"

definition in_i64 :: "int \<Rightarrow> bool" where
  "in_i64 i \<longleftrightarrow> - (2 ^ 63) \<le> i \<and> i < 2 ^ 63"

definition checked_add_i64 :: "i64 \<Rightarrow> i64 \<Rightarrow> i64 option" where
  "checked_add_i64 a b = (if in_i64 (sint a + sint b) then Some (a + b) else None)"

definition checked_sub_i64 :: "i64 \<Rightarrow> i64 \<Rightarrow> i64 option" where
  "checked_sub_i64 a b = (if in_i64 (sint a - sint b) then Some (a - b) else None)"

text \<open>\<open>u64::try_from(n).unwrap_or(u64::MAX)\<close> on a wider unsigned value.\<close>

definition u64_of_u128_or_max :: "nat \<Rightarrow> u64" where
  "u64_of_u128_or_max n = (if n < 2 ^ 64 then of_nat n else U64_MAX)"

lemma unat_u64_max [simp]: "unat U64_MAX = 2 ^ 64 - 1"
  by (simp add: unsigned_minus_1_eq_mask mask_eq_exp_minus_1)

lemma unat_u64_less: "unat (a :: u64) < 2 ^ 64"
  using unsigned_less [of a, where 'a = nat] by simp

lemma unat_saturating_add: "unat (saturating_add_u64 a b) = min (unat a + unat b) (2 ^ 64 - 1)"
  by (auto simp: saturating_add_u64_def unat_word_ariths)

lemma saturating_add_ge [simp]: "a \<le> saturating_add_u64 a b"
  using unat_u64_less [of a] by (simp add: word_le_nat_alt unat_saturating_add)

lemma saturating_add_mono: "a \<le> a' \<Longrightarrow> saturating_add_u64 a b \<le> saturating_add_u64 a' b"
  by (auto simp: word_le_nat_alt unat_saturating_add)

lemma checked_add_u64_Some:
  "checked_add_u64 a b = Some c \<longleftrightarrow> unat c = unat a + unat b"
  using unat_u64_less [of c]
  by (auto simp: checked_add_u64_def unat_word_ariths word_unat_eq_iff)

lemma checked_sub_u64_Some:
  "checked_sub_u64 a b = Some c \<longleftrightarrow> unat a = unat b + unat c"
proof -
  have "b \<le> a \<Longrightarrow> unat (a - b) = unat a - unat b"
    by (rule unat_sub)
  then show ?thesis
    by (auto simp: checked_sub_u64_def word_unat_eq_iff word_le_nat_alt)
qed

lemma unat_saturating_sub: "unat (saturating_sub_u64 a b) = unat a - unat b"
  by (auto simp: saturating_sub_u64_def unat_sub word_le_nat_alt)

lemma checked_succ_u64:
  "checked_add_u64 a 1 = Some c \<longleftrightarrow> unat c = Suc (unat a)"
  by (simp add: checked_add_u64_Some)

lemma i64_eq_iff: "a = b \<longleftrightarrow> sint a = sint (b :: i64)"
  by (auto intro: signed_word_eqI)

lemma sint_add_i64: "in_i64 (sint a + sint b) \<Longrightarrow> sint (a + b :: i64) = sint a + sint b"
  by (simp add: in_i64_def sint_word_ariths signed_take_bit_int_eq_self)

lemma sint_sub_i64: "in_i64 (sint a - sint b) \<Longrightarrow> sint (a - b :: i64) = sint a - sint b"
  by (simp add: in_i64_def sint_word_ariths signed_take_bit_int_eq_self)

lemma in_i64_sint [simp]: "in_i64 (sint (a :: i64))"
  using sint_ge [of a] sint_less [of a] by (simp add: in_i64_def)

lemma checked_add_i64_Some:
  "checked_add_i64 a b = Some c \<longleftrightarrow> sint c = sint a + sint b"
  by (auto simp: checked_add_i64_def sint_add_i64 i64_eq_iff) (metis in_i64_sint)

lemma checked_sub_i64_Some:
  "checked_sub_i64 a b = Some c \<longleftrightarrow> sint a = sint b + sint c"
  by (auto simp: checked_sub_i64_def sint_sub_i64 i64_eq_iff)

lemma checked_sub_i64_None: "checked_sub_i64 a b = None \<longleftrightarrow> \<not> in_i64 (sint a - sint b)"
  by (simp add: checked_sub_i64_def)

lemma checked_add_i64_None: "checked_add_i64 a b = None \<longleftrightarrow> \<not> in_i64 (sint a + sint b)"
  by (simp add: checked_add_i64_def)

section \<open>Durations and the microsecond clock\<close>

type_synonym duration = nat \<comment> \<open>nanoseconds, the resolution of \<open>std::time::Duration\<close>\<close>
type_synonym monotonic_time_micros = u64
type_synonym instant = nat \<comment> \<open>nanoseconds, a reading of \<open>Instant::now()\<close>\<close>

definition as_micros :: "duration \<Rightarrow> nat" where
  "as_micros d = d div 1000"

definition from_micros :: "nat \<Rightarrow> duration" where
  "from_micros n = n * 1000"

definition from_millis :: "nat \<Rightarrow> duration" where
  "from_millis n = n * 1000000"

definition from_secs :: "nat \<Rightarrow> duration" where
  "from_secs n = n * 1000000000"

lemma as_micros_from_micros [simp]: "as_micros (from_micros n) = n"
  by (simp add: as_micros_def from_micros_def)

section \<open>Results and state passing\<close>

text \<open>
  \<open>try_then m f\<close> is \<open>let a = m?; f\<close>: an error of \<open>m\<close> is returned at once, with the state
  that \<open>m\<close> left behind. \<open>result_then\<close> is the same for code that only reads the state.
\<close>

definition try_then ::
  "('s \<Rightarrow> ('e + 'a) \<times> 's) \<Rightarrow> ('a \<Rightarrow> 's \<Rightarrow> ('e + 'b) \<times> 's) \<Rightarrow> 's \<Rightarrow> ('e + 'b) \<times> 's"
where
  "try_then m f s = (case m s of (Inl e, s') \<Rightarrow> (Inl e, s') | (Inr a, s') \<Rightarrow> f a s')"

definition result_then :: "'e + 'a \<Rightarrow> ('a \<Rightarrow> 'e + 'b) \<Rightarrow> 'e + 'b" where
  "result_then r f = (case r of Inl e \<Rightarrow> Inl e | Inr a \<Rightarrow> f a)"

definition is_ok :: "'e + 'a \<Rightarrow> bool" where
  "is_ok r = (case r of Inl _ \<Rightarrow> False | Inr _ \<Rightarrow> True)"

definition ok_or :: "'a option \<Rightarrow> 'e \<Rightarrow> 'e + 'a" where
  "ok_or x e = (case x of None \<Rightarrow> Inl e | Some a \<Rightarrow> Inr a)"

text \<open>\<open>map_err\<close>, and a computation that only reads the state, used in a method that changes it.\<close>

definition map_err :: "('e \<Rightarrow> 'f) \<Rightarrow> 'e + 'a \<Rightarrow> 'f + 'a" where
  "map_err f r = (case r of Inl e \<Rightarrow> Inl (f e) | Inr a \<Rightarrow> Inr a)"

definition reading :: "('s \<Rightarrow> 'e + 'a) \<Rightarrow> 's \<Rightarrow> ('e + 'a) \<times> 's" where
  "reading f s = (f s, s)"

text \<open>\<open>collect::<Result<Vec<_>, _>>()\<close>: the values, or the first error.\<close>

fun collect_results :: "('e + 'a) list \<Rightarrow> 'e + 'a list" where
  "collect_results [] = Inr []"
| "collect_results (r # rs) =
     (case r of Inl e \<Rightarrow> Inl e
      | Inr a \<Rightarrow> (case collect_results rs of Inl e \<Rightarrow> Inl e | Inr as \<Rightarrow> Inr (a # as)))"

lemma map_err_Inr [simp]: "map_err f r = Inr a \<longleftrightarrow> r = Inr a"
  by (cases r) (auto simp: map_err_def)

lemma map_err_Inl: "map_err f r = Inl e \<longleftrightarrow> (\<exists>e'. r = Inl e' \<and> e = f e')"
  by (cases r) (auto simp: map_err_def)

lemma collect_results_map [simp]: "collect_results (map Inr as) = Inr as"
  by (induction "as") auto

lemma collect_results_Inr: "collect_results rs = Inr as \<longleftrightarrow> rs = map Inr as"
proof
  show "collect_results rs = Inr as \<Longrightarrow> rs = map Inr as"
    by (induction rs arbitrary: "as") (auto split: sum.splits)
qed simp

lemma try_then_Inr:
  "try_then m f s = (Inr b, s'') \<longleftrightarrow> (\<exists>a s'. m s = (Inr a, s') \<and> f a s' = (Inr b, s''))"
  by (auto simp: try_then_def split: prod.splits sum.splits)

lemma try_then_Inl:
  "try_then m f s = (Inl e, s'') \<longleftrightarrow>
     m s = (Inl e, s'') \<or> (\<exists>a s'. m s = (Inr a, s') \<and> f a s' = (Inl e, s''))"
  by (auto simp: try_then_def split: prod.splits sum.splits)

lemma try_then_invar:
  assumes "I (snd (m s))" and "\<And>a s'. m s = (Inr a, s') \<Longrightarrow> I (snd (f a s'))"
  shows "I (snd (try_then m f s))"
  using assms by (auto simp: try_then_def split: prod.splits sum.splits)

text \<open>Operations that keep a part of the state, with rules to prove it by following the program.\<close>

named_theorems keeps_rules

definition keeps :: "('s \<Rightarrow> 'a) \<Rightarrow> ('s \<Rightarrow> 'r \<times> 's) \<Rightarrow> bool" where
  "keeps g m \<longleftrightarrow> (\<forall>s. g (snd (m s)) = g s)"

lemma keepsD: "keeps g m \<Longrightarrow> g (snd (m s)) = g s"
  by (simp add: keeps_def)

lemma keeps_try_then [keeps_rules]: "keeps g m \<Longrightarrow> (\<And>a. keeps g (f a)) \<Longrightarrow> keeps g (try_then m f)"
  unfolding keeps_def try_then_def by (auto split: prod.split sum.split) (metis snd_conv)+

lemma keeps_reading [keeps_rules]: "keeps g (reading f)"
  by (simp add: keeps_def reading_def)

lemma keeps_return [keeps_rules]: "keeps g (\<lambda>s. (r, s))"
  by (simp add: keeps_def)

lemma keeps_if [keeps_rules]: "keeps g m \<Longrightarrow> keeps g m' \<Longrightarrow> keeps g (\<lambda>s. if b s then m s else m' s)"
  by (simp add: keeps_def)

lemma keeps_if_const [keeps_rules]: "keeps g m \<Longrightarrow> keeps g m' \<Longrightarrow> keeps g (if b then m else m')"
  by simp

lemma try_then_reading: "try_then (reading f) g p = (case f p of Inl e \<Rightarrow> (Inl e, p) | Inr a \<Rightarrow> g a p)"
  by (simp add: try_then_def reading_def split: sum.splits)

lemma result_then_Inr:
  "result_then r f = Inr b \<longleftrightarrow> (\<exists>a. r = Inr a \<and> f a = Inr b)"
  by (auto simp: result_then_def split: sum.splits)

lemma result_then_simps [simp]:
  "result_then (Inl e) f = Inl e" "result_then (Inr a) f = f a"
  by (simp_all add: result_then_def)

lemma ok_or_simps [simp]:
  "ok_or None e = Inl e" "ok_or (Some a) e = Inr a"
  "ok_or x e = Inr b \<longleftrightarrow> x = Some b" "ok_or x e = Inl e' \<longleftrightarrow> x = None \<and> e' = e"
  by (auto simp: ok_or_def split: option.splits)

lemma is_ok_simps [simp]: "\<not> is_ok (Inl e)" "is_ok (Inr a)"
  by (simp_all add: is_ok_def)

lemma is_ok_iff: "is_ok r \<longleftrightarrow> (\<exists>a. r = Inr a)"
  by (cases r) auto

text \<open>A loop of calls: the outputs of all steps, in order.\<close>

fun run_steps :: "('i \<Rightarrow> 's \<Rightarrow> 's \<times> 'o list) \<Rightarrow> 'i list \<Rightarrow> 's \<Rightarrow> 's \<times> 'o list" where
  "run_steps step [] s = (s, [])"
| "run_steps step (i # is) s =
     (let (s', os) = step i s; (s'', os') = run_steps step is s' in (s'', os @ os'))"

lemma run_steps_append:
  "run_steps step (is @ js) s =
     (let (s', os) = run_steps step is s; (s'', os') = run_steps step js s' in (s'', os @ os'))"
  by (induction "is" arbitrary: s) (auto split: prod.splits)

section \<open>Checks\<close>

text \<open>\<open>ensure!\<close>: return the error unless the condition holds.\<close>

definition ensure :: "bool \<Rightarrow> 'e \<Rightarrow> 'e + unit" where
  "ensure cond e = (if cond then Inr () else Inl e)"

text \<open>A \<open>for\<close> loop whose body ends in \<open>?\<close>.\<close>

fun for_each :: "('a \<Rightarrow> 'e + unit) \<Rightarrow> 'a list \<Rightarrow> 'e + unit" where
  "for_each f [] = Inr ()"
| "for_each f (x # xs) = result_then (f x) (\<lambda>_. for_each f xs)"

lemma ensure_Inr [simp]: "ensure P e = Inr u \<longleftrightarrow> P"
  by (simp add: ensure_def)

lemma for_each_Inr: "for_each f xs = Inr u \<longleftrightarrow> (\<forall>x \<in> set xs. f x = Inr ())"
  by (induction xs) (auto simp: result_then_Inr)

section \<open>Ordered containers\<close>

text \<open>\<open>Iterator::min\<close>.\<close>

fun iter_min :: "'a :: linorder list \<Rightarrow> 'a option" where
  "iter_min [] = None"
| "iter_min (x # xs) = Some (fold min xs x)"

lemma fold_min_less: "y < fold min xs (x :: 'a :: linorder) \<longleftrightarrow> y < x \<and> (\<forall>z \<in> set xs. y < z)"
  by (induction xs arbitrary: x) auto

lemma iter_min_less:
  "iter_min xs = Some m \<Longrightarrow> y < m \<longleftrightarrow> (\<forall>z \<in> set xs. y < (z :: 'a :: linorder))"
  by (cases xs) (auto simp: fold_min_less)

lemma iter_min_eq_None [simp]: "iter_min xs = None \<longleftrightarrow> xs = []"
  by (cases xs) auto

lemma set_flatten: "set (List.map_filter id xs) = {v. Some v \<in> set xs}"
  by (induction xs) (auto simp: map_filter_def split: option.splits)

lemma iter_min_flatten_less:
  "iter_min (List.map_filter id xs) = Some m \<Longrightarrow>
     y < m \<longleftrightarrow> (\<forall>v. Some v \<in> set xs \<longrightarrow> y < (v :: 'a :: linorder))"
  by (simp add: iter_min_less set_flatten)

text \<open>\<open>BTreeMap::values\<close>: in key order.\<close>

definition fm_values :: "('k :: linorder, 'v) fmap \<Rightarrow> 'v list" where
  "fm_values m = map snd (sorted_list_of_fmap m)"

lemma set_sorted_list_of_fmap: "set (sorted_list_of_fmap m) = {(k, v). fmlookup m k = Some v}"
  by (auto simp: sorted_list_of_fmap_def fmlookup_dom_iff)

lemma set_fm_values: "set (fm_values m) = {v. \<exists>k. fmlookup m k = Some v}"
  by (force simp: fm_values_def set_sorted_list_of_fmap)

lemma distinct_sorted_list_of_fset [simp]: "distinct (sorted_list_of_fset A)"
  by (simp add: sorted_list_of_fset.rep_eq)

lemma sorted_list_of_fset_empty [simp]: "sorted_list_of_fset {||} = []"
  by (simp add: sorted_list_of_fset.rep_eq)

lemma sorted_list_of_fset_finsert:
  "sorted_list_of_fset (finsert x A) = insort x (sorted_list_of_fset (A |-| {|x|}))"
  by (simp add: sorted_list_of_fset.rep_eq)

lemma fcard_fempty [simp]: "fcard {||} = 0"
  by (simp add: fcard.rep_eq)

lemma fset_of_list_sort_key [simp]: "fset_of_list (sort_key f xs) = fset_of_list xs"
  by (simp add: fset_eq_iff fset_of_list.rep_eq)

lemma fset_diff_simps [simp]:
  "A |-| (A |-| B) = A |\<inter>| B" "B |-| (A |\<inter>| B) = B |-| A" "(B |-| A) |\<union>| (A |\<inter>| B) = B"
  "B |\<union>| (A |\<inter>| B) = B" "(A |-| B) |-| (B |-| A) = A |-| B"
  by (auto simp: fset_eq_iff)

lemma set_diff_disjoint [simp]: "(B - A) \<inter> (A \<inter> B) = {}"
  by auto

lemma sort_key_bool: "sort_key P xs = filter (\<lambda>x. \<not> P x) xs @ filter (P :: 'a \<Rightarrow> bool) xs"
proof (induction xs)
  case (Cons x xs)
  have "insort_key P x (filter (\<lambda>x. \<not> P x) ys @ filter P zs) =
          (if P x then filter (\<lambda>x. \<not> P x) ys @ x # filter P zs
           else x # filter (\<lambda>x. \<not> P x) ys @ filter P zs)" for ys zs
  proof (induction ys)
    case Nil
    show ?case by (cases "filter P zs") (auto dest: filter_eq_ConsD)
  qed auto
  with Cons show ?case by simp
qed simp

lemma sorted_map_const: "(\<And>x. x \<in> set xs \<Longrightarrow> f x = c) \<Longrightarrow> sorted (map f xs)"
  by (induction xs) auto

lemma distinct_singleton_list: "set xs = {x} \<Longrightarrow> distinct xs \<Longrightarrow> xs = [x]"
proof (cases xs)
  case (Cons y ys)
  assume "set xs = {x}" "distinct xs"
  with Cons show ?thesis by (cases ys) auto
qed simp

section \<open>Press and release edges\<close>

text \<open>
  A held control (a key or a button) goes down and up. An edge is the control with \<open>True\<close> for a
  press. A backend that replays edges must never see a press of a control that is already down
  or a release of one that is up: \<open>replay_edges\<close> is \<open>None\<close> then.
\<close>

type_synonym 'k edge = "'k \<times> bool"

fun replay_edges :: "'k edge list \<Rightarrow> 'k fset \<Rightarrow> 'k fset option" where
  "replay_edges [] A = Some A"
| "replay_edges ((k, pressed) # es) A =
     (if pressed
      then (if k |\<in>| A then None else replay_edges es (finsert k A))
      else (if k |\<in>| A then replay_edges es (A |-| {|k|}) else None))"

lemma replay_append:
  "replay_edges (es @ fs) A = Option.bind (replay_edges es A) (replay_edges fs)"
  by (induction es A rule: replay_edges.induct) auto

lemma replay_presses:
  "distinct ks \<Longrightarrow> set ks \<inter> fset A = {} \<Longrightarrow>
     replay_edges (map (\<lambda>k. (k, True)) ks) A = Some (fset_of_list ks |\<union>| A)"
  by (induction ks arbitrary: A) auto

lemma replay_releases:
  "distinct ks \<Longrightarrow> set ks \<subseteq> fset A \<Longrightarrow>
     replay_edges (map (\<lambda>k. (k, False)) ks) A = Some (A |-| fset_of_list ks)"
proof (induction ks arbitrary: A)
  case (Cons k ks)
  from Cons.prems have "set ks \<subseteq> fset (A |-| {|k|})" by auto
  with Cons.IH Cons.prems
  have "replay_edges (map (\<lambda>k. (k, False)) ks) (A |-| {|k|}) = Some ((A |-| {|k|}) |-| fset_of_list ks)"
    by simp
  moreover have "(A |-| {|k|}) |-| fset_of_list ks = A |-| finsert k (fset_of_list ks)"
    by (auto simp: fset_eq_iff)
  ultimately show ?case using Cons.prems by simp
qed simp

text \<open>Every press is matched by a release, but for what was and what is still held.\<close>

lemma replay_balance:
  "replay_edges es A = Some B \<Longrightarrow>
     count_list es (k, True) + (if k |\<in>| A then 1 else 0) =
     count_list es (k, False) + (if k |\<in>| B then 1 else 0)"
proof (induction es A rule: replay_edges.induct)
  case (2 k' pressed es A)
  then show ?case by (cases "k = k'") (auto split: if_splits)
qed simp

text \<open>
  The interface of a component that emits edges: its state knows which controls it holds down,
  and the edges of one call take a backend from what was held before to what is held after.
\<close>

locale edge_machine =
  fixes held :: "'s \<Rightarrow> 'k fset"
    and step :: "'i \<Rightarrow> 's \<Rightarrow> 's \<times> 'k edge list"
    and invar :: "'s \<Rightarrow> bool"
  assumes step_invar: "invar s \<Longrightarrow> invar (fst (step i s))"
    and step_replay: "invar s \<Longrightarrow> replay_edges (snd (step i s)) (held s) = Some (held (fst (step i s)))"
begin

lemma run_invar: "invar s \<Longrightarrow> invar (fst (run_steps step is s))"
  by (induction "is" arbitrary: s) (auto simp: case_prod_beta Let_def step_invar)

lemma run_replay:
  "invar s \<Longrightarrow>
     replay_edges (snd (run_steps step is s)) (held s) = Some (held (fst (run_steps step is s)))"
proof (induction "is" arbitrary: s)
  case (Cons i "is")
  then show ?case
    by (simp add: case_prod_beta Let_def replay_append step_replay step_invar)
qed simp

lemma run_balance:
  assumes "invar s" and "held s = {||}" and "held (fst (run_steps step is s)) = {||}"
  shows "count_list (snd (run_steps step is s)) (k, True) =
         count_list (snd (run_steps step is s)) (k, False)"
  using replay_balance [OF run_replay [OF assms(1)], of "is" k] assms(2,3) by simp

end

text \<open>
  The interface of a component that is driven by a monotonic clock: every call names the time, a
  call that succeeds has moved the component's clock to that time, and no call moves it back.
\<close>

locale timed_machine =
  fixes last_time :: "'s \<Rightarrow> u64 option"
    and step :: "'i \<Rightarrow> u64 \<Rightarrow> 's \<Rightarrow> ('e + 'o) \<times> 's"
  assumes step_ok: "step i now s = (Inr out, s') \<Longrightarrow>
      last_time s' = Some now \<and> (\<forall>t. last_time s = Some t \<longrightarrow> t \<le> now)"
    and step_error: "step i now s = (Inl e, s') \<Longrightarrow>
      last_time s' = last_time s \<or>
      last_time s' = Some now \<and> (\<forall>t. last_time s = Some t \<longrightarrow> t \<le> now)"
begin

lemma step_mono:
  assumes "last_time s = Some t"
  shows "\<exists>t'. last_time (snd (step i now s)) = Some t' \<and> t \<le> t'"
  using assms step_ok [of i now s] step_error [of i now s]
  by (cases "step i now s"; cases "fst (step i now s)") fastforce+

lemma steps_mono:
  assumes "last_time s = Some t"
  shows "\<exists>t'. last_time (fold (\<lambda>(i, now) s. snd (step i now s)) is s) = Some t' \<and> t \<le> t'"
  using assms
proof (induction "is" arbitrary: s t)
  case (Cons x "is")
  obtain i now where x: "x = (i, now)" by (cases x)
  from step_mono [OF Cons.prems, of i now] obtain t1
    where t1: "last_time (snd (step i now s)) = Some t1" and le: "t \<le> t1" by blast
  from Cons.IH [OF t1] le show ?case by (force simp: x)
qed auto

lemma step_back_refused:
  assumes "last_time s = Some t" and "now < t"
  shows "\<exists>e. fst (step i now s) = Inl e"
  using assms step_ok [of i now s]
  by (cases "step i now s"; cases "fst (step i now s)") (auto simp: not_le [symmetric])

end

end
