(* ===== verification/Model.thy ===== *)
theory Model
  imports Prelude
begin

text \<open>
  The domain types of \<open>src/src/core/model.rs\<close>: session context, HID usages, held state, touch
  state, cumulative motion with its overflow-checked arithmetic, motion anchors, the reliable
  control messages, motion frames, probes and the session negotiation with its validation.

  Newtypes over integers (\<open>ControlSequence\<close>, \<open>MonotonicTimeMicros\<close>, \<dots>) are synonyms of their
  word; structs are records whose fields carry a short prefix where two structs share a field
  name; enums are datatypes. A \<open>BTreeSet\<close> is an \<open>fset\<close>, a \<open>BTreeMap\<close> an \<open>fmap\<close>.
\<close>

section \<open>Identifiers, time and HID usages\<close>

type_synonym SessionEpoch = "u8 list" \<comment> \<open>\<open>[u8; 16]\<close>, only compared\<close>
type_synonym TransportGeneration = u64
type_synonym ActivationId = u64
type_synonym ControlSequence = u64
type_synonym MotionSequence = u64
type_synonym ProbeSequence = u64
type_synonym ContactId = u32
type_synonym MonotonicTimeMicros = u64
type_synonym PointerButton = u16

definition time_saturating_add :: "MonotonicTimeMicros \<Rightarrow> duration \<Rightarrow> MonotonicTimeMicros" where
  "time_saturating_add t d = saturating_add_u64 t (u64_of_u128_or_max (as_micros d))"

record SessionContext =
  session_epoch :: SessionEpoch
  transport_generation :: TransportGeneration
  activation_id :: ActivationId

datatype HidUsage = HidUsage (page: u16) (usage: u16)

text \<open>\<open>derive(Ord)\<close>: by page, then by usage.\<close>

instantiation HidUsage :: linorder
begin

definition less_eq_HidUsage :: "HidUsage \<Rightarrow> HidUsage \<Rightarrow> bool" where
  "less_eq_HidUsage a b \<longleftrightarrow> page a < page b \<or> page a = page b \<and> usage a \<le> usage b"

definition less_HidUsage :: "HidUsage \<Rightarrow> HidUsage \<Rightarrow> bool" where
  "less_HidUsage a b \<longleftrightarrow> page a < page b \<or> page a = page b \<and> usage a < usage b"

instance
  by standard (auto simp: less_eq_HidUsage_def less_HidUsage_def HidUsage.expand)

end

definition KEYBOARD_KEYPAD :: u16 where
  "KEYBOARD_KEYPAD = 0x07"

definition CONSUMER :: u16 where
  "CONSUMER = 0x0c"

definition keyboard :: "u16 \<Rightarrow> HidUsage" where
  "keyboard u = HidUsage KEYBOARD_KEYPAD u"

definition consumer :: "u16 \<Rightarrow> HidUsage" where
  "consumer u = HidUsage CONSUMER u"

lemma keyboard_inject [simp]: "keyboard a = keyboard b \<longleftrightarrow> a = b"
  by (simp add: keyboard_def)

section \<open>Capabilities and negotiable features\<close>

datatype InputCapability = Keyboard | ConsumerControls | Pointer | Scroll | Touch

type_synonym InputCapabilities = "InputCapability fset"

datatype PointerUnit = DeviceUnaccelerated | DesktopAccelerated

text \<open>\<open>derive(Ord)\<close>: by the order of the variants.\<close>

instantiation PointerUnit :: linorder
begin

definition less_eq_PointerUnit :: "PointerUnit \<Rightarrow> PointerUnit \<Rightarrow> bool" where
  "less_eq_PointerUnit a b \<longleftrightarrow> a = DeviceUnaccelerated \<or> b = DesktopAccelerated"

definition less_PointerUnit :: "PointerUnit \<Rightarrow> PointerUnit \<Rightarrow> bool" where
  "less_PointerUnit a b \<longleftrightarrow> a = DeviceUnaccelerated \<and> b = DesktopAccelerated"

instance
  by standard (auto simp: less_eq_PointerUnit_def less_PointerUnit_def intro: PointerUnit.exhaust)

end

record ScrollFields =
  high_resolution :: bool
  source_unit :: bool
  source_resolution :: bool
  discrete_steps :: bool
  phase :: bool
  momentum_phase :: bool

definition is_subset_of :: "ScrollFields \<Rightarrow> ScrollFields \<Rightarrow> bool" where
  "is_subset_of self supported \<longleftrightarrow>
     (\<not> high_resolution self \<or> high_resolution supported) \<and>
     (\<not> source_unit self \<or> source_unit supported) \<and>
     (\<not> source_resolution self \<or> source_resolution supported) \<and>
     (\<not> discrete_steps self \<or> discrete_steps supported) \<and>
     (\<not> phase self \<or> phase supported) \<and>
     (\<not> momentum_phase self \<or> momentum_phase supported)"

section \<open>Touch state\<close>

datatype TouchTool = Finger | Stylus | Eraser | Palm | UnknownTool

record SourceDimensions =
  dim_width :: u32
  dim_height :: u32

record TouchContact =
  tc_id :: ContactId
  tc_x :: i32
  tc_y :: i32
  tc_pressure :: "u16 option"
  tc_major :: "u32 option"
  tc_minor :: "u32 option"
  tc_orientation_millidegrees :: "i32 option"
  tc_tool :: TouchTool
  tc_source_dimensions :: "SourceDimensions option"

type_synonym TouchState = "(ContactId, TouchContact) fmap"

abbreviation touch_default :: TouchState where
  "touch_default \<equiv> fmempty"

definition touch_is_empty :: "TouchState \<Rightarrow> bool" where
  "touch_is_empty t \<longleftrightarrow> t = fmempty"

definition touch_len :: "TouchState \<Rightarrow> nat" where
  "touch_len t = fcard (fmdom t)"

definition touch_iter :: "TouchState \<Rightarrow> TouchContact list" where
  "touch_iter t = map snd (sorted_list_of_fmap t)"

text \<open>\<open>TouchState::new\<close>: the loop that inserts each contact and stops at a repeated id.\<close>

fun touch_new_from :: "TouchState \<Rightarrow> TouchContact list \<Rightarrow> ContactId + TouchState" where
  "touch_new_from state [] = Inr state"
| "touch_new_from state (contact # contacts) =
     (case fmlookup state (tc_id contact) of
        Some _ \<Rightarrow> Inl (tc_id contact)
      | None \<Rightarrow> touch_new_from (fmupd (tc_id contact) contact state) contacts)"

definition touch_new :: "TouchContact list \<Rightarrow> ContactId + TouchState" where
  "touch_new contacts = touch_new_from fmempty contacts"

text \<open>
  The \<open>visit_seq\<close> of the deserializer: the successive results of \<open>seq.next_element\<close>, an error of
  the format or a contact.
\<close>

datatype 'e de_error = FormatError 'e | RepeatedContact

fun touch_visit_from :: "TouchState \<Rightarrow> ('e + TouchContact) list \<Rightarrow> 'e de_error + TouchState" where
  "touch_visit_from state [] = Inr state"
| "touch_visit_from state (Inl e # rest) = Inl (FormatError e)"
| "touch_visit_from state (Inr contact # rest) =
     (case fmlookup state (tc_id contact) of
        Some _ \<Rightarrow> Inl RepeatedContact
      | None \<Rightarrow> touch_visit_from (fmupd (tc_id contact) contact state) rest)"

definition touch_visit_seq :: "('e + TouchContact) list \<Rightarrow> 'e de_error + TouchState" where
  "touch_visit_seq elements = touch_visit_from fmempty elements"

text \<open>The type invariant of the private map: a contact is stored under its own id.\<close>

definition touch_wf :: "TouchState \<Rightarrow> bool" where
  "touch_wf t \<longleftrightarrow> (\<forall>i c. fmlookup t i = Some c \<longrightarrow> tc_id c = i)"

section \<open>Held state\<close>

record HeldState =
  pressed_keys :: "HidUsage fset"
  pressed_buttons :: "PointerButton fset"
  active_touch :: TouchState

definition held_default :: HeldState where
  "held_default = \<lparr>pressed_keys = {||}, pressed_buttons = {||}, active_touch = touch_default\<rparr>"

definition is_neutral :: "HeldState \<Rightarrow> bool" where
  "is_neutral h \<longleftrightarrow> pressed_keys h = {||} \<and> pressed_buttons h = {||} \<and> touch_is_empty (active_touch h)"

definition press_key :: "HidUsage \<Rightarrow> HeldState \<Rightarrow> bool \<times> HeldState" where
  "press_key k h = (k |\<notin>| pressed_keys h, h\<lparr>pressed_keys := finsert k (pressed_keys h)\<rparr>)"

definition release_key :: "HidUsage \<Rightarrow> HeldState \<Rightarrow> bool \<times> HeldState" where
  "release_key k h = (k |\<in>| pressed_keys h, h\<lparr>pressed_keys := pressed_keys h |-| {|k|}\<rparr>)"

definition press_button :: "PointerButton \<Rightarrow> HeldState \<Rightarrow> bool \<times> HeldState" where
  "press_button b h = (b |\<notin>| pressed_buttons h, h\<lparr>pressed_buttons := finsert b (pressed_buttons h)\<rparr>)"

definition release_button :: "PointerButton \<Rightarrow> HeldState \<Rightarrow> bool \<times> HeldState" where
  "release_button b h = (b |\<in>| pressed_buttons h, h\<lparr>pressed_buttons := pressed_buttons h |-| {|b|}\<rparr>)"

definition replace_touch :: "TouchState \<Rightarrow> HeldState \<Rightarrow> TouchState \<times> HeldState" where
  "replace_touch t h = (active_touch h, h\<lparr>active_touch := t\<rparr>)"

definition clear_touch :: "HeldState \<Rightarrow> TouchState \<times> HeldState" where
  "clear_touch h = (active_touch h, h\<lparr>active_touch := touch_default\<rparr>)"

definition held_release_all :: "HeldState \<Rightarrow> HeldState" where
  "held_release_all h = held_default"

lemmas held_ops = press_key_def release_key_def press_button_def release_button_def
  replace_touch_def clear_touch_def held_release_all_def

lemma held_default_simps [simp]:
  "pressed_keys held_default = {||}" "pressed_buttons held_default = {||}"
  "active_touch held_default = fmempty" "is_neutral held_default"
  by (simp_all add: held_default_def is_neutral_def touch_is_empty_def)

lemma is_neutral_iff: "is_neutral h \<longleftrightarrow> h = held_default"
  by (cases h) (auto simp: is_neutral_def held_default_def touch_is_empty_def)

section \<open>Cumulative motion\<close>

record MotionDelta =
  dx :: i64
  dy :: i64
  scroll_x :: i64
  scroll_y :: i64

definition delta_default :: MotionDelta where
  "delta_default = \<lparr>dx = 0, dy = 0, scroll_x = 0, scroll_y = 0\<rparr>"

record CumulativeMotion =
  total_dx :: i64
  total_dy :: i64
  total_scroll_x :: i64
  total_scroll_y :: i64

definition motion_ZERO :: CumulativeMotion where
  "motion_ZERO = \<lparr>total_dx = 0, total_dy = 0, total_scroll_x = 0, total_scroll_y = 0\<rparr>"

datatype MotionAxis = PointerX | PointerY | ScrollX | ScrollY

datatype MotionOverflow = MotionOverflow (axis: MotionAxis)

definition checked_add_axis :: "i64 \<Rightarrow> i64 \<Rightarrow> MotionAxis \<Rightarrow> MotionOverflow + i64" where
  "checked_add_axis left right ax = ok_or (checked_add_i64 left right) (MotionOverflow ax)"

definition checked_sub_axis :: "i64 \<Rightarrow> i64 \<Rightarrow> MotionAxis \<Rightarrow> MotionOverflow + i64" where
  "checked_sub_axis left right ax = ok_or (checked_sub_i64 left right) (MotionOverflow ax)"

definition motion_checked_add :: "CumulativeMotion \<Rightarrow> MotionDelta \<Rightarrow> MotionOverflow + CumulativeMotion" where
  "motion_checked_add self delta =
     result_then (checked_add_axis (total_dx self) (dx delta) PointerX) (\<lambda>x.
     result_then (checked_add_axis (total_dy self) (dy delta) PointerY) (\<lambda>y.
     result_then (checked_add_axis (total_scroll_x self) (scroll_x delta) ScrollX) (\<lambda>sx.
     result_then (checked_add_axis (total_scroll_y self) (scroll_y delta) ScrollY) (\<lambda>sy.
     Inr \<lparr>total_dx = x, total_dy = y, total_scroll_x = sx, total_scroll_y = sy\<rparr>))))"

definition checked_delta_from :: "CumulativeMotion \<Rightarrow> CumulativeMotion \<Rightarrow> MotionOverflow + MotionDelta" where
  "checked_delta_from self previous =
     result_then (checked_sub_axis (total_dx self) (total_dx previous) PointerX) (\<lambda>x.
     result_then (checked_sub_axis (total_dy self) (total_dy previous) PointerY) (\<lambda>y.
     result_then (checked_sub_axis (total_scroll_x self) (total_scroll_x previous) ScrollX) (\<lambda>sx.
     result_then (checked_sub_axis (total_scroll_y self) (total_scroll_y previous) ScrollY) (\<lambda>sy.
     Inr \<lparr>dx = x, dy = y, scroll_x = sx, scroll_y = sy\<rparr>))))"

section \<open>Anchors, snapshots and control messages\<close>

datatype AnchorKind = Checkpoint | Terminal

record MotionAnchor =
  an_activation_id :: ActivationId
  an_through_motion_sequence :: MotionSequence
  an_sender_capture_time :: MonotonicTimeMicros
  an_totals :: CumulativeMotion
  an_final_touch_state :: TouchState
  an_kind :: AnchorKind

record StateSnapshot =
  sn_held :: HeldState
  sn_motion_anchor :: MotionAnchor

record SnapshotAck =
  snapshot_sequence :: ControlSequence
  accepted_generation :: TransportGeneration

datatype SessionCloseReason =
    CloseLocalRelease | CloseLeaseExpired | CloseSuperseded | ClosePermissionRevoked
  | CloseProtocolViolation | CloseMotionOverflow | CloseBackendUnavailable | CloseSuspend

datatype ReliableControl =
    Enter
  | KeyDown HidUsage
  | KeyUp HidUsage
  | ButtonDown PointerButton MotionAnchor
  | ButtonUp PointerButton MotionAnchor
  | TouchBegin TouchState
  | TouchEnd MotionAnchor
  | TouchCancel MotionAnchor
  | CtlStateSnapshot StateSnapshot
  | CtlSnapshotAck SnapshotAck
  | SessionClose SessionCloseReason "MotionAnchor option"

fun motion_anchor :: "ReliableControl \<Rightarrow> MotionAnchor option" where
  "motion_anchor (ButtonDown _ anchor) = Some anchor"
| "motion_anchor (ButtonUp _ anchor) = Some anchor"
| "motion_anchor (TouchEnd anchor) = Some anchor"
| "motion_anchor (TouchCancel anchor) = Some anchor"
| "motion_anchor (CtlStateSnapshot snapshot) = Some (sn_motion_anchor snapshot)"
| "motion_anchor (SessionClose _ (Some anchor)) = Some anchor"
| "motion_anchor _ = None"

record ReliableControlMessage =
  m_session :: SessionContext
  m_sequence :: ControlSequence
  m_payload :: ReliableControl

record MotionFrame =
  f_session :: SessionContext
  f_motion_sequence :: MotionSequence
  f_control_watermark :: ControlSequence
  f_sender_capture_time :: MonotonicTimeMicros
  f_totals :: CumulativeMotion
  f_touch_snapshot :: "TouchState option"

text \<open>One playout operation, as the playout (\<open>playout.rs\<close>) hands it to the receiver.\<close>

record PlayoutStep =
  ps_mapped_capture_time :: MonotonicTimeMicros
  ps_through_sequence :: MotionSequence
  ps_delta :: MotionDelta
  ps_touch_snapshot :: "TouchState option"
  ps_target_reached :: bool
  ps_pointer_catch_up_limited :: bool
  ps_scroll_catch_up_limited :: bool

datatype ProbePayload =
    Probe ProbeSequence MonotonicTimeMicros
  | ProbeEcho ProbeSequence MonotonicTimeMicros MonotonicTimeMicros MonotonicTimeMicros

record ProbeMessage =
  pm_session :: SessionContext
  pm_payload :: ProbePayload

section \<open>Negotiation\<close>

record NegotiationOffer =
  of_maximum_datagram_size :: u32
  of_supported_capabilities :: InputCapabilities
  of_required_capabilities :: InputCapabilities
  of_pointer_units :: "PointerUnit fset"
  of_scroll_fields :: ScrollFields
  of_maximum_contacts :: u16
  of_maximum_receiver_lease_ms :: u32
  of_maximum_checkpoint_bound_ms :: u32

record NegotiatedSession =
  ns_maximum_datagram_size :: u32
  ns_capabilities :: InputCapabilities
  ns_pointer_unit :: "PointerUnit option"
  ns_scroll_fields :: ScrollFields
  ns_contact_limit :: u16
  ns_receiver_lease_ms :: u32
  ns_checkpoint_bound_ms :: u32

datatype NegotiationError =
    InvalidDatagramSize | UnsupportedCapability | MissingRequiredCapability
  | UnsupportedPointerUnit | UnsupportedScrollFields | InvalidContactLimit
  | NegInvalidReceiverLease | InvalidCheckpointBound

definition MAX_RECEIVER_LEASE_MS :: u32 where
  "MAX_RECEIVER_LEASE_MS = 1000"

definition MAX_CHECKPOINT_BOUND_MS :: u32 where
  "MAX_CHECKPOINT_BOUND_MS = 250"

definition validate_for :: "NegotiatedSession \<Rightarrow> NegotiationOffer \<Rightarrow> NegotiationError + unit" where
  "validate_for self offer =
     (if ns_maximum_datagram_size self = 0
         \<or> ns_maximum_datagram_size self > of_maximum_datagram_size offer
      then Inl InvalidDatagramSize
      else if \<not> ns_capabilities self |\<subseteq>| of_supported_capabilities offer
      then Inl UnsupportedCapability
      else if \<not> of_required_capabilities offer |\<subseteq>| ns_capabilities self
      then Inl MissingRequiredCapability
      else if \<not> (case (Pointer |\<in>| ns_capabilities self, ns_pointer_unit self) of
                   (True, Some unit) \<Rightarrow> unit |\<in>| of_pointer_units offer
                 | (False, None) \<Rightarrow> True
                 | _ \<Rightarrow> False)
      then Inl UnsupportedPointerUnit
      else if \<not> is_subset_of (ns_scroll_fields self) (of_scroll_fields offer)
      then Inl UnsupportedScrollFields
      else if ns_contact_limit self > of_maximum_contacts offer
         \<or> (Touch |\<in>| ns_capabilities self \<and> ns_contact_limit self = 0)
         \<or> (Touch |\<notin>| ns_capabilities self \<and> ns_contact_limit self \<noteq> 0)
      then Inl InvalidContactLimit
      else if ns_receiver_lease_ms self = 0
         \<or> ns_receiver_lease_ms self > MAX_RECEIVER_LEASE_MS
         \<or> ns_receiver_lease_ms self > of_maximum_receiver_lease_ms offer
      then Inl NegInvalidReceiverLease
      else if ns_checkpoint_bound_ms self = 0
         \<or> ns_checkpoint_bound_ms self > MAX_CHECKPOINT_BOUND_MS
         \<or> ns_checkpoint_bound_ms self > of_maximum_checkpoint_bound_ms offer
      then Inl InvalidCheckpointBound
      else Inr ())"

section \<open>Facts about cumulative motion\<close>

text \<open>The totals as integers, axis by axis: what the words mean.\<close>

definition motion_ints :: "CumulativeMotion \<Rightarrow> int \<times> int \<times> int \<times> int" where
  "motion_ints t = (sint (total_dx t), sint (total_dy t), sint (total_scroll_x t), sint (total_scroll_y t))"

definition delta_ints :: "MotionDelta \<Rightarrow> int \<times> int \<times> int \<times> int" where
  "delta_ints d = (sint (dx d), sint (dy d), sint (scroll_x d), sint (scroll_y d))"

definition ints_in_range :: "int \<times> int \<times> int \<times> int \<Rightarrow> bool" where
  "ints_in_range v = (case v of (a, b, c, d) \<Rightarrow> in_i64 a \<and> in_i64 b \<and> in_i64 c \<and> in_i64 d)"

fun ints_add :: "int \<times> int \<times> int \<times> int \<Rightarrow> int \<times> int \<times> int \<times> int \<Rightarrow> int \<times> int \<times> int \<times> int" where
  "ints_add (a, b, c, d) (a', b', c', d') = (a + a', b + b', c + c', d + d')"

lemma motion_ints_eq_iff: "motion_ints a = motion_ints b \<longleftrightarrow> a = b"
  by (cases a; cases b) (simp add: motion_ints_def i64_eq_iff [symmetric])

lemma delta_ints_eq_iff: "delta_ints a = delta_ints b \<longleftrightarrow> a = b"
  by (cases a; cases b) (simp add: delta_ints_def i64_eq_iff [symmetric])

lemma ints_add_zero [simp]: "ints_add (0, 0, 0, 0) v = v" "ints_add v (0, 0, 0, 0) = v"
  by (cases v; simp)+

lemma ints_add_assoc: "ints_add (ints_add u v) w = ints_add u (ints_add v w)"
  by (cases u; cases v; cases w) simp

lemma motion_ints_zero [simp]: "motion_ints motion_ZERO = (0, 0, 0, 0)"
  by (simp add: motion_ints_def motion_ZERO_def)

lemma delta_ints_default [simp]: "delta_ints delta_default = (0, 0, 0, 0)"
  by (simp add: delta_ints_def delta_default_def)

lemma motion_checked_add_Inr:
  "motion_checked_add t d = Inr t' \<longleftrightarrow>
     sint (total_dx t') = sint (total_dx t) + sint (dx d) \<and>
     sint (total_dy t') = sint (total_dy t) + sint (dy d) \<and>
     sint (total_scroll_x t') = sint (total_scroll_x t) + sint (scroll_x d) \<and>
     sint (total_scroll_y t') = sint (total_scroll_y t) + sint (scroll_y d)"
  by (cases t')
    (auto simp: motion_checked_add_def checked_add_axis_def result_then_Inr
      simp flip: checked_add_i64_Some)

lemma checked_delta_from_Inr:
  "checked_delta_from t' t = Inr d \<longleftrightarrow> motion_checked_add t d = Inr t'"
  unfolding motion_checked_add_Inr
  by (cases d)
    (auto simp: checked_delta_from_def checked_sub_axis_def result_then_Inr checked_sub_i64_Some)

lemma motion_checked_add_ints:
  "motion_checked_add t d = Inr t' \<longleftrightarrow> motion_ints t' = ints_add (motion_ints t) (delta_ints d)"
  by (simp add: motion_checked_add_Inr motion_ints_def delta_ints_def)

lemma motion_checked_add_default [simp]: "motion_checked_add t delta_default = Inr t"
  by (simp add: motion_checked_add_Inr delta_default_def)

lemma checked_delta_from_self [simp]: "checked_delta_from t t = Inr delta_default"
  by (simp add: checked_delta_from_Inr)

lemma checked_delta_from_default: "checked_delta_from t' t = Inr delta_default \<longleftrightarrow> t' = t"
  by (auto simp: checked_delta_from_Inr)

lemma motion_checked_add_ok:
  "is_ok (motion_checked_add t d) \<longleftrightarrow>
     in_i64 (sint (total_dx t) + sint (dx d)) \<and> in_i64 (sint (total_dy t) + sint (dy d)) \<and>
     in_i64 (sint (total_scroll_x t) + sint (scroll_x d)) \<and>
     in_i64 (sint (total_scroll_y t) + sint (scroll_y d))"
  by (auto simp: motion_checked_add_def checked_add_axis_def result_then_def ok_or_def
      checked_add_i64_def split: option.splits)

lemma checked_delta_from_ok:
  "is_ok (checked_delta_from t' t) \<longleftrightarrow>
     in_i64 (sint (total_dx t') - sint (total_dx t)) \<and> in_i64 (sint (total_dy t') - sint (total_dy t)) \<and>
     in_i64 (sint (total_scroll_x t') - sint (total_scroll_x t)) \<and>
     in_i64 (sint (total_scroll_y t') - sint (total_scroll_y t))"
  by (auto simp: checked_delta_from_def checked_sub_axis_def result_then_def ok_or_def
      checked_sub_i64_def split: option.splits)

text \<open>
  The cumulative motion arithmetic is exact: \<open>checked_add\<close> refines addition of unbounded
  integers on every axis. It succeeds exactly when all four sums fit in 64 signed bits, and then
  the new totals are those sums; \<open>checked_delta_from\<close> is its inverse, so the displacement it
  computes takes the previous totals back to the new ones.
\<close>

theorem motion_add_refines_integers:
  "(is_ok (motion_checked_add t d) \<longleftrightarrow> ints_in_range (ints_add (motion_ints t) (delta_ints d))) \<and>
   (motion_checked_add t d = Inr t' \<longleftrightarrow> motion_ints t' = ints_add (motion_ints t) (delta_ints d)) \<and>
   (checked_delta_from t' t = Inr d \<longleftrightarrow> motion_checked_add t d = Inr t')"
  by (simp add: motion_checked_add_ok ints_in_range_def motion_ints_def delta_ints_def
      motion_checked_add_Inr checked_delta_from_Inr)

section \<open>Facts about touch states\<close>

lemma touch_wf_empty [simp]: "touch_wf fmempty"
  by (simp add: touch_wf_def)

lemma touch_wf_fmupd: "touch_wf t \<Longrightarrow> touch_wf (fmupd (tc_id c) c t)"
  by (auto simp: touch_wf_def)

lemma touch_new_from_wf: "touch_wf t \<Longrightarrow> touch_new_from t cs = Inr t' \<Longrightarrow> touch_wf t'"
  by (induction t cs rule: touch_new_from.induct) (auto split: option.splits intro: touch_wf_fmupd)

lemma touch_new_from_ok:
  "distinct (map tc_id cs) \<Longrightarrow> set (map tc_id cs) \<inter> fset (fmdom t) = {} \<Longrightarrow>
     touch_new_from t cs = Inr (t ++\<^sub>f fmap_of_list (map (\<lambda>c. (tc_id c, c)) cs))"
proof (induction t cs rule: touch_new_from.induct)
  case (2 t c cs)
  then have None: "fmlookup t (tc_id c) = None" by (simp add: fmlookup_dom_iff)
  let ?rest = "fmap_of_list (map (\<lambda>c. (tc_id c, c)) cs)"
  have "fmupd (tc_id c) c t ++\<^sub>f ?rest = t ++\<^sub>f fmupd (tc_id c) c ?rest"
  proof (rule fmap_ext)
    fix i
    have "tc_id c |\<notin>| fmdom ?rest" using "2.prems" by (auto simp: fset_of_list.rep_eq)
    then show "fmlookup (fmupd (tc_id c) c t ++\<^sub>f ?rest) i = fmlookup (t ++\<^sub>f fmupd (tc_id c) c ?rest) i"
      by auto
  qed
  with None 2 show ?case by simp
qed simp

lemma touch_new_from_error:
  "touch_new_from t cs = Inl i \<Longrightarrow> i \<in> set (map tc_id cs) \<and>
     (\<not> distinct (map tc_id cs) \<or> set (map tc_id cs) \<inter> fset (fmdom t) \<noteq> {})"
  by (induction t cs rule: touch_new_from.induct) (auto split: option.splits simp: fmlookup_dom_iff)

lemma touch_visit_from_Inr:
  "touch_visit_from t (map Inr cs) =
     (case touch_new_from t cs of Inl _ \<Rightarrow> Inl RepeatedContact | Inr t' \<Rightarrow> Inr t')"
  by (induction t cs rule: touch_new_from.induct) (auto split: option.splits)

lemma touch_iter_ids: "touch_wf t \<Longrightarrow> map tc_id (touch_iter t) = sorted_list_of_fset (fmdom t)"
  by (auto simp: touch_iter_def sorted_list_of_fmap_def touch_wf_def fmlookup_dom_iff intro!: map_idI)

lemma touch_iter_pairs: "touch_wf t \<Longrightarrow> map (\<lambda>c. (tc_id c, c)) (touch_iter t) = sorted_list_of_fmap t"
  by (auto simp: touch_iter_def sorted_list_of_fmap_def touch_wf_def fmlookup_dom_iff)

lemma fmap_of_sorted_list [simp]: "fmap_of_list (sorted_list_of_fmap m) = m"
  by (rule fmap_ext) (simp add: fmlookup_of_list)

text \<open>
  A touch state survives its encoding: the contacts that \<open>Serialize\<close> writes (\<open>iter\<close>, in id
  order, each id once) rebuild the same state through the \<open>visit_seq\<close> of \<open>Deserialize\<close> and through
  \<open>TouchState::new\<close>. The hypothesis is the type invariant of the private map, which
  \<open>TouchState::new\<close> establishes.
\<close>

theorem touch_state_roundtrip:
  assumes "touch_wf t"
  shows "touch_new (touch_iter t) = Inr t \<and> touch_visit_seq (map Inr (touch_iter t)) = Inr t"
proof -
  have "touch_new_from fmempty (touch_iter t) = Inr t"
    using assms by (subst touch_new_from_ok) (simp_all add: touch_iter_ids touch_iter_pairs)
  then show ?thesis
    by (simp add: touch_new_def touch_visit_seq_def touch_visit_from_Inr)
qed

definition sample_contact :: TouchContact where
  "sample_contact =
     \<lparr>tc_id = 7, tc_x = 100, tc_y = -3, tc_pressure = Some 9, tc_major = None, tc_minor = None,
      tc_orientation_millidegrees = None, tc_tool = Finger, tc_source_dimensions = None\<rparr>"

theorem touch_state_roundtrip_witness:
  "touch_wf (fmupd 7 sample_contact fmempty) \<and>
   touch_new (touch_iter (fmupd 7 sample_contact fmempty)) = Inr (fmupd 7 sample_contact fmempty)"
proof -
  have wf: "touch_wf (fmupd 7 sample_contact fmempty)"
    by (simp add: touch_wf_def sample_contact_def)
  from touch_state_roundtrip [OF wf] wf show ?thesis by blast
qed

definition sample_session :: SessionContext where
  "sample_session = \<lparr>session_epoch = replicate 16 1, transport_generation = 1, activation_id = 1\<rparr>"

end
