(* ===== verification/Sender.thy ===== *)
theory Sender
  imports Model
begin

text \<open>
  The sender of one activation (\<open>src/src/core/sender.rs\<close>): it numbers control messages and motion
  frames, accumulates motion, tracks what is held, emits checkpoint snapshots by deadline and
  gives the activation up when a snapshot is not acknowledged within the receiver's lease.

  Every public method is a definition \<open>Sender \<Rightarrow> (SenderError + result) \<times> Sender\<close>; an error keeps
  whatever the method changed before it failed, as the Rust code does. \<open>sender_step\<close> collects the
  methods that take the time.
\<close>

section \<open>Configuration, errors and state\<close>

record SenderConfig =
  checkpoint_interval :: duration
  receiver_lease :: duration

datatype SenderExitReason = ExitLocalRelease | SnapshotAckTimedOut | ExitMotionOverflow

datatype SenderTick =
    TickIdle
  | TickCheckpoint ReliableControlMessage
  | TickExitRemote SenderExitReason ReliableControlMessage

datatype SenderError =
    SInvalidCheckpointInterval | SInvalidReceiverLease | SNotRemote | SAlreadyRemote
  | SClosedActivation | SInvalidTransition | SClockMovedBackwards | SSequenceExhausted
  | SWrongAckGeneration | SUnknownSnapshotAck | SPendingSnapshotLimit
  | SMotionOverflow MotionOverflow

definition MAX_PENDING_SNAPSHOTS :: nat where
  "MAX_PENDING_SNAPSHOTS = 64"

definition MAX_CHECKPOINT_INTERVAL :: duration where
  "MAX_CHECKPOINT_INTERVAL = from_millis 250"

definition MAX_RECEIVER_LEASE :: duration where
  "MAX_RECEIVER_LEASE = from_secs 1"

definition config_validate :: "SenderConfig \<Rightarrow> SenderError + unit" where
  "config_validate c =
     (if checkpoint_interval c = 0 \<or> checkpoint_interval c > MAX_CHECKPOINT_INTERVAL
      then Inl SInvalidCheckpointInterval
      else if receiver_lease c = 0 \<or> receiver_lease c > MAX_RECEIVER_LEASE
      then Inl SInvalidReceiverLease
      else Inr ())"

definition sender_config_new :: "duration \<Rightarrow> duration \<Rightarrow> SenderError + SenderConfig" where
  "sender_config_new interval lease =
     (let config = \<lparr>checkpoint_interval = interval, receiver_lease = lease\<rparr>
      in result_then (config_validate config) (\<lambda>_. Inr config))"

record PendingSnapshot =
  pend_snapshot :: StateSnapshot
  ack_deadline :: MonotonicTimeMicros

record Sender =
  s_config :: SenderConfig
  s_session :: SessionContext
  s_started :: bool
  s_remote :: bool
  s_held :: HeldState
  s_totals :: CumulativeMotion
  s_last_control_sequence :: ControlSequence
  s_last_motion_sequence :: MotionSequence
  s_last_observed_time :: MonotonicTimeMicros
  s_last_snapshot_at :: MonotonicTimeMicros
  s_dirty_since :: "MonotonicTimeMicros option"
  s_pending_snapshots :: "(ControlSequence, PendingSnapshot) fmap"
  s_last_acknowledged :: "(ControlSequence \<times> StateSnapshot) option"

definition sender_new ::
  "SenderConfig \<Rightarrow> SessionContext \<Rightarrow> MonotonicTimeMicros \<Rightarrow> SenderError + Sender"
where
  "sender_new config session now =
     result_then (config_validate config) (\<lambda>_. Inr
       \<lparr>s_config = config, s_session = session, s_started = False, s_remote = False,
        s_held = held_default, s_totals = motion_ZERO,
        s_last_control_sequence = 0, s_last_motion_sequence = 0,
        s_last_observed_time = now, s_last_snapshot_at = now, s_dirty_since = None,
        s_pending_snapshots = fmempty, s_last_acknowledged = None\<rparr>)"

section \<open>Private helpers\<close>

definition require_remote :: "Sender \<Rightarrow> (SenderError + unit) \<times> Sender" where
  "require_remote s = (if s_remote s then Inr () else Inl SNotRemote, s)"

definition observe_time :: "MonotonicTimeMicros \<Rightarrow> Sender \<Rightarrow> (SenderError + unit) \<times> Sender" where
  "observe_time now s =
     (if now < s_last_observed_time s then (Inl SClockMovedBackwards, s)
      else (Inr (), s\<lparr>s_last_observed_time := now\<rparr>))"

definition before_control :: "MonotonicTimeMicros \<Rightarrow> Sender \<Rightarrow> (SenderError + unit) \<times> Sender" where
  "before_control now = try_then require_remote (\<lambda>_. observe_time now)"

definition next_control_sequence :: "Sender \<Rightarrow> SenderError + ControlSequence" where
  "next_control_sequence s = ok_or (checked_add_u64 (s_last_control_sequence s) 1) SSequenceExhausted"

definition next_motion_sequence :: "Sender \<Rightarrow> SenderError + MotionSequence" where
  "next_motion_sequence s = ok_or (checked_add_u64 (s_last_motion_sequence s) 1) SSequenceExhausted"

definition control :: "ReliableControl \<Rightarrow> Sender \<Rightarrow> (SenderError + ReliableControlMessage) \<times> Sender" where
  "control payload s =
     (case next_control_sequence s of
        Inl e \<Rightarrow> (Inl e, s)
      | Inr sequence \<Rightarrow>
          (Inr \<lparr>m_session = s_session s, m_sequence = sequence, m_payload = payload\<rparr>,
           s\<lparr>s_last_control_sequence := sequence\<rparr>))"

definition anchor :: "MonotonicTimeMicros \<Rightarrow> AnchorKind \<Rightarrow> Sender \<Rightarrow> MotionAnchor" where
  "anchor now kind s =
     \<lparr>an_activation_id = activation_id (s_session s),
      an_through_motion_sequence = s_last_motion_sequence s,
      an_sender_capture_time = now,
      an_totals = s_totals s,
      an_final_touch_state = active_touch (s_held s),
      an_kind = kind\<rparr>"

definition one_third_rounded_down :: "duration \<Rightarrow> duration" where
  "one_third_rounded_down d = from_micros (unat (max (u64_of_u128_or_max ((as_micros d - 1) div 3)) 1))"

section \<open>Public methods\<close>

definition enter :: "MonotonicTimeMicros \<Rightarrow> Sender \<Rightarrow> (SenderError + ReliableControlMessage) \<times> Sender" where
  "enter now = try_then (observe_time now) (\<lambda>_ s.
     if s_remote s then (Inl SAlreadyRemote, s)
     else if s_started s then (Inl SClosedActivation, s)
     else control Enter
       (s\<lparr>s_started := True, s_remote := True, s_held := held_release_all (s_held s),
          s_totals := motion_ZERO, s_last_motion_sequence := 0, s_last_snapshot_at := now,
          s_dirty_since := None, s_pending_snapshots := fmempty\<rparr>))"

definition capture_motion ::
  "MotionDelta \<Rightarrow> TouchState option \<Rightarrow> MonotonicTimeMicros \<Rightarrow> Sender \<Rightarrow> (SenderError + MotionFrame) \<times> Sender"
where
  "capture_motion delta touch_snapshot now =
     try_then require_remote (\<lambda>_. try_then (observe_time now) (\<lambda>_ s.
       case motion_checked_add (s_totals s) delta of
         Inl e \<Rightarrow> (Inl (SMotionOverflow e),
                   s\<lparr>s_remote := False, s_held := held_release_all (s_held s)\<rparr>)
       | Inr next_totals \<Rightarrow>
          (case next_motion_sequence s of
             Inl e \<Rightarrow> (Inl e, s)
           | Inr next_sequence \<Rightarrow>
              (let s1 = s\<lparr>s_totals := next_totals, s_last_motion_sequence := next_sequence\<rparr>;
                   s2 = (case touch_snapshot of
                           None \<Rightarrow> s1
                         | Some touch \<Rightarrow> s1\<lparr>s_held := snd (replace_touch touch (s_held s1))\<rparr>);
                   s3 = (if delta \<noteq> delta_default \<or> touch_snapshot \<noteq> None
                         then s2\<lparr>s_dirty_since :=
                                 Some (case s_dirty_since s2 of None \<Rightarrow> now | Some t \<Rightarrow> t)\<rparr>
                         else s2)
               in (Inr \<lparr>f_session = s_session s3, f_motion_sequence = next_sequence,
                        f_control_watermark = s_last_control_sequence s3,
                        f_sender_capture_time = now, f_totals = s_totals s3,
                        f_touch_snapshot = touch_snapshot\<rparr>, s3)))))"

definition key_down ::
  "HidUsage \<Rightarrow> MonotonicTimeMicros \<Rightarrow> Sender \<Rightarrow> (SenderError + ReliableControlMessage) \<times> Sender"
where
  "key_down key now = try_then (before_control now) (\<lambda>_ s.
     let (fresh, held') = press_key key (s_held s); s' = s\<lparr>s_held := held'\<rparr>
     in if \<not> fresh then (Inl SInvalidTransition, s') else control (KeyDown key) s')"

definition key_up ::
  "HidUsage \<Rightarrow> MonotonicTimeMicros \<Rightarrow> Sender \<Rightarrow> (SenderError + ReliableControlMessage) \<times> Sender"
where
  "key_up key now = try_then (before_control now) (\<lambda>_ s.
     let (was, held') = release_key key (s_held s); s' = s\<lparr>s_held := held'\<rparr>
     in if \<not> was then (Inl SInvalidTransition, s') else control (KeyUp key) s')"

definition button_down ::
  "PointerButton \<Rightarrow> MonotonicTimeMicros \<Rightarrow> Sender \<Rightarrow> (SenderError + ReliableControlMessage) \<times> Sender"
where
  "button_down button now = try_then (before_control now) (\<lambda>_ s.
     let an = anchor now Checkpoint s;
         (fresh, held') = press_button button (s_held s); s' = s\<lparr>s_held := held'\<rparr>
     in if \<not> fresh then (Inl SInvalidTransition, s') else control (ButtonDown button an) s')"

definition button_up ::
  "PointerButton \<Rightarrow> MonotonicTimeMicros \<Rightarrow> Sender \<Rightarrow> (SenderError + ReliableControlMessage) \<times> Sender"
where
  "button_up button now = try_then (before_control now) (\<lambda>_ s.
     let an = anchor now Checkpoint s;
         (was, held') = release_button button (s_held s); s' = s\<lparr>s_held := held'\<rparr>
     in if \<not> was then (Inl SInvalidTransition, s') else control (ButtonUp button an) s')"

definition touch_begin ::
  "TouchState \<Rightarrow> MonotonicTimeMicros \<Rightarrow> Sender \<Rightarrow> (SenderError + ReliableControlMessage) \<times> Sender"
where
  "touch_begin initial_state now = try_then (before_control now) (\<lambda>_ s.
     if \<not> touch_is_empty (active_touch (s_held s)) \<or> touch_is_empty initial_state
     then (Inl SInvalidTransition, s)
     else control (TouchBegin initial_state) (s\<lparr>s_held := snd (replace_touch initial_state (s_held s))\<rparr>))"

definition touch_end ::
  "bool \<Rightarrow> MonotonicTimeMicros \<Rightarrow> Sender \<Rightarrow> (SenderError + ReliableControlMessage) \<times> Sender"
where
  "touch_end cancelled now = try_then (before_control now) (\<lambda>_ s.
     if touch_is_empty (active_touch (s_held s)) then (Inl SInvalidTransition, s)
     else
       let an = anchor now Checkpoint s; s' = s\<lparr>s_held := snd (clear_touch (s_held s))\<rparr>
       in control (if cancelled then TouchCancel an else TouchEnd an) s')"

definition snapshot :: "MonotonicTimeMicros \<Rightarrow> Sender \<Rightarrow> (SenderError + ReliableControlMessage) \<times> Sender" where
  "snapshot now = try_then require_remote (\<lambda>_. try_then (observe_time now) (\<lambda>_ s.
     if fcard (fmdom (s_pending_snapshots s)) \<ge> MAX_PENDING_SNAPSHOTS then (Inl SPendingSnapshotLimit, s)
     else
       let snap = \<lparr>sn_held = s_held s, sn_motion_anchor = anchor now Checkpoint s\<rparr>
       in try_then (control (CtlStateSnapshot snap)) (\<lambda>message s.
            (Inr message,
             s\<lparr>s_pending_snapshots :=
                 fmupd (m_sequence message)
                   \<lparr>pend_snapshot = snap,
                    ack_deadline = time_saturating_add now (receiver_lease (s_config s))\<rparr>
                   (s_pending_snapshots s),
               s_last_snapshot_at := now, s_dirty_since := None\<rparr>)) s))"

definition sender_next_deadline :: "Sender \<Rightarrow> MonotonicTimeMicros option" where
  "sender_next_deadline s =
     (if \<not> s_remote s then None
      else
        let interval = checkpoint_interval (s_config s);
            periodic = time_saturating_add (s_last_snapshot_at s) interval;
            dirty = map_option (\<lambda>since. time_saturating_add since interval) (s_dirty_since s);
            renewal = (if \<not> is_neutral (s_held s)
                       then Some (time_saturating_add (s_last_snapshot_at s)
                                    (one_third_rounded_down (receiver_lease (s_config s))))
                       else None);
            ack_timeout = iter_min (map ack_deadline (fm_values (s_pending_snapshots s)))
        in iter_min (List.map_filter id [Some periodic, dirty, renewal, ack_timeout]))"

definition sender_tick :: "MonotonicTimeMicros \<Rightarrow> Sender \<Rightarrow> (SenderError + SenderTick) \<times> Sender" where
  "sender_tick now = try_then require_remote (\<lambda>_. try_then (observe_time now) (\<lambda>_ s.
     if list_ex (\<lambda>pending. ack_deadline pending \<le> now) (fm_values (s_pending_snapshots s))
     then try_then (control (SessionClose CloseLeaseExpired None)) (\<lambda>close s.
            (Inr (TickExitRemote SnapshotAckTimedOut close),
             s\<lparr>s_remote := False, s_held := held_release_all (s_held s),
               s_pending_snapshots := fmempty\<rparr>)) s
     else
       let interval = checkpoint_interval (s_config s);
           periodic_due = (time_saturating_add (s_last_snapshot_at s) interval \<le> now);
           dirty_due = (case s_dirty_since s of
                          None \<Rightarrow> False
                        | Some since \<Rightarrow> time_saturating_add since interval \<le> now);
           renewal_due = (\<not> is_neutral (s_held s) \<and>
             time_saturating_add (s_last_snapshot_at s)
               (one_third_rounded_down (receiver_lease (s_config s))) \<le> now)
       in if periodic_due \<or> dirty_due \<or> renewal_due
          then try_then (snapshot now) (\<lambda>message s. (Inr (TickCheckpoint message), s)) s
          else (Inr TickIdle, s)))"

definition acknowledge_snapshot :: "SnapshotAck \<Rightarrow> Sender \<Rightarrow> (SenderError + unit) \<times> Sender" where
  "acknowledge_snapshot ack s =
     (if accepted_generation ack \<noteq> transport_generation (s_session s)
      then (Inl SWrongAckGeneration, s)
      else
        case fmlookup (s_pending_snapshots s) (snapshot_sequence ack) of
          None \<Rightarrow>
            (if (case s_last_acknowledged s of
                   None \<Rightarrow> False
                 | Some (sequence, _) \<Rightarrow> snapshot_sequence ack \<le> sequence)
             then (Inr (), s)
             else (Inl SUnknownSnapshotAck, s))
        | Some pending \<Rightarrow>
            (Inr (),
             s\<lparr>s_last_acknowledged := Some (snapshot_sequence ack, pend_snapshot pending),
               s_pending_snapshots :=
                 fmfilter (\<lambda>sequence. sequence > snapshot_sequence ack) (s_pending_snapshots s)\<rparr>))"

definition leave ::
  "SessionCloseReason \<Rightarrow> MonotonicTimeMicros \<Rightarrow> Sender \<Rightarrow> (SenderError + ReliableControlMessage) \<times> Sender"
where
  "leave reason now = try_then (before_control now) (\<lambda>_ s.
     let final_anchor = anchor now Terminal s
     in try_then (control (SessionClose reason (Some final_anchor))) (\<lambda>message s.
          (Inr message,
           s\<lparr>s_remote := False, s_held := held_release_all (s_held s),
             s_pending_snapshots := fmempty\<rparr>)) s)"

section \<open>The methods as one step function\<close>

datatype SenderOp =
    OpEnter
  | OpCaptureMotion MotionDelta "TouchState option"
  | OpKeyDown HidUsage
  | OpKeyUp HidUsage
  | OpButtonDown PointerButton
  | OpButtonUp PointerButton
  | OpTouchBegin TouchState
  | OpTouchEnd bool
  | OpSnapshot
  | OpTick
  | OpLeave SessionCloseReason

datatype SenderOut = OutControl ReliableControlMessage | OutMotion MotionFrame | OutIdle

definition map_out :: "('a \<Rightarrow> 'b) \<Rightarrow> ('e + 'a) \<times> 's \<Rightarrow> ('e + 'b) \<times> 's" where
  "map_out f r = (case r of (Inl e, s) \<Rightarrow> (Inl e, s) | (Inr a, s) \<Rightarrow> (Inr (f a), s))"

fun tick_out :: "SenderTick \<Rightarrow> SenderOut" where
  "tick_out TickIdle = OutIdle"
| "tick_out (TickCheckpoint m) = OutControl m"
| "tick_out (TickExitRemote _ m) = OutControl m"

fun sender_step :: "SenderOp \<Rightarrow> MonotonicTimeMicros \<Rightarrow> Sender \<Rightarrow> (SenderError + SenderOut) \<times> Sender" where
  "sender_step OpEnter now s = map_out OutControl (enter now s)"
| "sender_step (OpCaptureMotion delta touch) now s = map_out OutMotion (capture_motion delta touch now s)"
| "sender_step (OpKeyDown k) now s = map_out OutControl (key_down k now s)"
| "sender_step (OpKeyUp k) now s = map_out OutControl (key_up k now s)"
| "sender_step (OpButtonDown b) now s = map_out OutControl (button_down b now s)"
| "sender_step (OpButtonUp b) now s = map_out OutControl (button_up b now s)"
| "sender_step (OpTouchBegin t) now s = map_out OutControl (touch_begin t now s)"
| "sender_step (OpTouchEnd c) now s = map_out OutControl (touch_end c now s)"
| "sender_step OpSnapshot now s = map_out OutControl (snapshot now s)"
| "sender_step OpTick now s = map_out tick_out (sender_tick now s)"
| "sender_step (OpLeave r) now s = map_out OutControl (leave r now s)"

section \<open>Invariant\<close>

lemmas sender_ops = enter_def capture_motion_def key_down_def key_up_def button_down_def
  button_up_def touch_begin_def touch_end_def snapshot_def sender_tick_def leave_def
  before_control_def require_remote_def observe_time_def control_def
  next_control_sequence_def next_motion_sequence_def held_ops

lemmas sender_splits = if_splits prod.splits sum.splits option.splits SenderTick.splits

lemma map_out_Inr: "map_out f r = (Inr b, s') \<longleftrightarrow> (\<exists>a. r = (Inr a, s') \<and> b = f a)"
  by (auto simp: map_out_def split: prod.splits sum.splits)

lemma map_out_Inl: "map_out f r = (Inl e, s') \<longleftrightarrow> r = (Inl e, s')"
  by (auto simp: map_out_def split: prod.splits sum.splits)

lemma snd_map_out [simp]: "snd (map_out f r) = snd r"
  by (auto simp: map_out_def split: prod.splits sum.splits)

lemma tick_out_control:
  "OutControl m = tick_out t \<longleftrightarrow> t = TickCheckpoint m \<or> (\<exists>r. t = TickExitRemote r m)"
  by (cases t) auto

lemma tick_out_not_motion [simp]: "OutMotion f \<noteq> tick_out t"
  by (cases t) auto

text \<open>
  What the methods keep true between the fields. A sender that is not remote holds nothing; pending
  snapshots carry sequence numbers that were issued and are newer than the last acknowledged one,
  and there are at most 64 of them; the remembered times lie in the past.
\<close>

type_synonym pending_map = "(ControlSequence, PendingSnapshot) fmap"

definition pending_ok ::
  "pending_map \<Rightarrow> ControlSequence \<Rightarrow> (ControlSequence \<times> StateSnapshot) option \<Rightarrow> bool"
where
  "pending_ok pend issued acked \<longleftrightarrow>
     fcard (fmdom pend) \<le> MAX_PENDING_SNAPSHOTS \<and>
     (\<forall>q |\<in>| fmdom pend. q \<le> issued) \<and>
     (\<forall>a snap. acked = Some (a, snap) \<longrightarrow> a \<le> issued \<and> (\<forall>q |\<in>| fmdom pend. a < q))"

definition sender_wf :: "Sender \<Rightarrow> bool" where
  "sender_wf s \<longleftrightarrow>
     config_validate (s_config s) = Inr () \<and>
     (s_remote s \<longrightarrow> s_started s) \<and>
     (\<not> s_remote s \<longrightarrow> is_neutral (s_held s)) \<and>
     s_last_snapshot_at s \<le> s_last_observed_time s \<and>
     (\<forall>t. s_dirty_since s = Some t \<longrightarrow> t \<le> s_last_observed_time s) \<and>
     pending_ok (s_pending_snapshots s) (s_last_control_sequence s) (s_last_acknowledged s)"

lemma pending_ok_empty: "pending_ok pend issued acked \<Longrightarrow> pending_ok fmempty issued acked"
  by (simp add: pending_ok_def)

lemma pending_ok_issue:
  assumes "pending_ok pend issued acked" and "checked_add_u64 issued 1 = Some q"
  shows "pending_ok pend q acked"
  using assms
  by (fastforce simp: pending_ok_def word_le_nat_alt checked_succ_u64)

lemma pending_ok_push:
  assumes "pending_ok pend issued acked" and "fcard (fmdom pend) < MAX_PENDING_SNAPSHOTS"
    and "checked_add_u64 issued 1 = Some q"
  shows "pending_ok (fmupd q v pend) q acked"
  using assms
  by (fastforce simp: pending_ok_def word_le_nat_alt word_less_nat_alt checked_succ_u64 fcard_finsert_if)

lemma pending_ok_ack:
  assumes "pending_ok pend issued acked" and "fmlookup pend a = Some p"
  shows "pending_ok (fmfilter (\<lambda>q. q > a) pend) issued (Some (a, snap))"
proof -
  have "fcard (fmdom (fmfilter (\<lambda>q. q > a) pend)) \<le> fcard (fmdom pend)"
    by (intro fcard_mono) auto
  with assms show ?thesis
    by (auto simp: pending_ok_def fmlookup_dom_iff)
qed

lemma sender_new_wf: "sender_new config session now = Inr s \<Longrightarrow> sender_wf s"
  by (auto simp: sender_new_def result_then_Inr sender_wf_def pending_ok_def)

lemma sender_step_wf:
  assumes "sender_wf s" shows "sender_wf (snd (sender_step op now s))"
  using assms
  by (cases op)
    (auto simp: sender_wf_def map_out_def sender_ops try_then_def Let_def is_neutral_iff
      split: sender_splits
      intro: pending_ok_empty pending_ok_issue pending_ok_push)

lemma acknowledge_wf: "sender_wf s \<Longrightarrow> sender_wf (snd (acknowledge_snapshot ack s))"
  by (auto simp: sender_wf_def acknowledge_snapshot_def split: option.splits intro: pending_ok_ack)

section \<open>Frames and sequence numbers\<close>

lemma sender_step_session [simp]:
  "s_session (snd (sender_step op now s)) = s_session s"
  by (cases op) (auto simp: map_out_def sender_ops try_then_def Let_def split: sender_splits)

lemma sender_step_control:
  "sender_step op now s = (Inr (OutControl m), s') \<Longrightarrow>
     m_session m = s_session s \<and>
     checked_add_u64 (s_last_control_sequence s) 1 = Some (m_sequence m) \<and>
     s_last_control_sequence s' = m_sequence m"
  by (cases op)
    (auto simp: map_out_Inr tick_out_control sender_ops try_then_def Let_def split: sender_splits)

fun is_control_out :: "SenderError + SenderOut \<Rightarrow> bool" where
  "is_control_out (Inr (OutControl _)) = True"
| "is_control_out _ = False"

fun is_motion_out :: "SenderError + SenderOut \<Rightarrow> bool" where
  "is_motion_out (Inr (OutMotion _)) = True"
| "is_motion_out _ = False"

lemma is_control_out_iff: "is_control_out r \<longleftrightarrow> (\<exists>m. r = Inr (OutControl m))"
  by (cases r rule: is_control_out.cases) auto

lemma is_motion_out_iff: "is_motion_out r \<longleftrightarrow> (\<exists>f. r = Inr (OutMotion f))"
  by (cases r rule: is_motion_out.cases) auto

lemma sender_step_no_control:
  assumes "\<not> is_control_out (fst (sender_step op now s))"
  shows "s_last_control_sequence (snd (sender_step op now s)) = s_last_control_sequence s"
  using assms
  by (cases op)
    (auto simp: map_out_def sender_ops try_then_def Let_def split: sender_splits)

lemma capture_motion_Inr:
  "capture_motion delta touch now s = (Inr f, s') \<Longrightarrow>
     s_remote s \<and> s_last_observed_time s \<le> now \<and>
     motion_checked_add (s_totals s) delta = Inr (s_totals s') \<and> f_totals f = s_totals s' \<and>
     checked_add_u64 (s_last_motion_sequence s) 1 = Some (f_motion_sequence f) \<and>
     s_last_motion_sequence s' = f_motion_sequence f \<and>
     f_control_watermark f = s_last_control_sequence s \<and> f_session f = s_session s \<and>
     f_touch_snapshot f = touch \<and> s_remote s' \<and>
     s_held s' = (case touch of None \<Rightarrow> s_held s | Some t \<Rightarrow> (s_held s)\<lparr>active_touch := t\<rparr>) \<and>
     s_last_control_sequence s' = s_last_control_sequence s"
  by (auto simp: sender_ops try_then_def Let_def split: sender_splits)

lemma sender_step_totals:
  assumes "op \<noteq> OpEnter" and "\<not> is_motion_out (fst (sender_step op now s))"
  shows "s_totals (snd (sender_step op now s)) = s_totals s \<and>
         s_last_motion_sequence (snd (sender_step op now s)) = s_last_motion_sequence s"
  using assms
  by (cases op)
    (auto simp: map_out_def sender_ops try_then_def Let_def split: sender_splits)

text \<open>A sequence of calls and what each returned.\<close>

fun sender_run :: "(SenderOp \<times> MonotonicTimeMicros) list \<Rightarrow> Sender \<Rightarrow> (SenderError + SenderOut) list \<times> Sender" where
  "sender_run [] s = ([], s)"
| "sender_run ((op, now) # ops) s =
     (let (r, s') = sender_step op now s; (rs, s'') = sender_run ops s' in (r # rs, s''))"

fun control_messages :: "(SenderError + SenderOut) list \<Rightarrow> ReliableControlMessage list" where
  "control_messages [] = []"
| "control_messages (Inr (OutControl m) # rs) = m # control_messages rs"
| "control_messages (_ # rs) = control_messages rs"

fun motion_frames :: "(SenderError + SenderOut) list \<Rightarrow> MotionFrame list" where
  "motion_frames [] = []"
| "motion_frames (Inr (OutMotion f) # rs) = f # motion_frames rs"
| "motion_frames (_ # rs) = motion_frames rs"

text \<open>
  Control messages are numbered without a gap. Whatever methods are called, in whatever order
  and with whatever errors in between, the control messages the sender hands out carry the
  sequence numbers that follow the last one it had issued, one by one, all under the sender's own
  session; a call that fails never consumes a number. This is what the receiver's gap check relies
  on.
\<close>

theorem control_sequences_consecutive:
  "map (unat \<circ> m_sequence) (control_messages (fst (sender_run ops s))) =
     [Suc (unat (s_last_control_sequence s))..<
       Suc (unat (s_last_control_sequence s) + length (control_messages (fst (sender_run ops s))))] \<and>
   list_all (\<lambda>m. m_session m = s_session s) (control_messages (fst (sender_run ops s)))"
proof (induction ops s rule: sender_run.induct)
  case (2 op now ops s)
  let ?n = "unat (s_last_control_sequence s)"
  obtain r s' where st: "sender_step op now s = (r, s')" by (cases "sender_step op now s")
  obtain rs s'' where run: "sender_run ops s' = (rs, s'')" by (cases "sender_run ops s'")
  from sender_step_session [of op now s] st have ses: "s_session s' = s_session s" by simp
  note IH = "2.IH" [OF st [symmetric] refl]
  show ?case
  proof (cases "is_control_out r")
    case True
    then obtain m where r: "r = Inr (OutControl m)" by (auto simp: is_control_out_iff)
    with sender_step_control [of op now s m s'] st
    have "m_session m = s_session s" "unat (m_sequence m) = Suc ?n"
      "s_last_control_sequence s' = m_sequence m" by (auto simp: checked_succ_u64)
    with IH r st run ses show ?thesis by (auto simp: upt_conv_Cons simp del: upt_Suc)
  next
    case False
    with sender_step_no_control [of op now s] st
    have "s_last_control_sequence s' = s_last_control_sequence s" by auto
    moreover from False have "control_messages (r # rs) = control_messages rs"
      by (cases r rule: is_control_out.cases) auto
    ultimately show ?thesis using IH st run ses by simp
  qed
qed simp

section \<open>Time\<close>

interpretation sender_clock: timed_machine "\<lambda>s. Some (s_last_observed_time s)" sender_step
proof
  fix op now s out s'
  assume "sender_step op now s = (Inr out, s')"
  then show "Some (s_last_observed_time s') = Some now \<and>
      (\<forall>t. Some (s_last_observed_time s) = Some t \<longrightarrow> t \<le> now)"
    by (cases op) (auto simp: map_out_Inr sender_ops try_then_def Let_def split: sender_splits)
next
  fix op now s e s'
  assume "sender_step op now s = (Inl e, s')"
  then show "Some (s_last_observed_time s') = Some (s_last_observed_time s) \<or>
      Some (s_last_observed_time s') = Some now \<and>
      (\<forall>t. Some (s_last_observed_time s) = Some t \<longrightarrow> t \<le> now)"
    by (cases op) (auto simp: map_out_Inl sender_ops try_then_def Let_def split: sender_splits)
qed

section \<open>Deadlines\<close>

text \<open>The instants at which a tick has something to do.\<close>

definition due_times :: "Sender \<Rightarrow> MonotonicTimeMicros option list" where
  "due_times s =
     [Some (time_saturating_add (s_last_snapshot_at s) (checkpoint_interval (s_config s))),
      map_option (\<lambda>since. time_saturating_add since (checkpoint_interval (s_config s))) (s_dirty_since s),
      if \<not> is_neutral (s_held s)
      then Some (time_saturating_add (s_last_snapshot_at s)
                   (one_third_rounded_down (receiver_lease (s_config s))))
      else None,
      iter_min (map ack_deadline (fm_values (s_pending_snapshots s)))]"

lemma next_deadline_due:
  "s_remote s \<Longrightarrow> sender_next_deadline s = iter_min (List.map_filter id (due_times s))"
  by (simp add: sender_next_deadline_def due_times_def Let_def)

lemma next_deadline_Some: "s_remote s \<longleftrightarrow> (\<exists>d. sender_next_deadline s = Some d)"
  by (auto simp: sender_next_deadline_def Let_def map_filter_def)

lemma next_deadline_less:
  assumes "sender_next_deadline s = Some d"
  shows "now < d \<longleftrightarrow> (\<forall>v. Some v \<in> set (due_times s) \<longrightarrow> now < v)"
proof -
  from assms have "s_remote s" by (auto simp: sender_next_deadline_def split: if_splits)
  with assms have "iter_min (List.map_filter id (due_times s)) = Some d"
    by (simp add: next_deadline_due)
  then show ?thesis by (rule iter_min_flatten_less)
qed

lemma ack_due: "(\<forall>v. iter_min (map ack_deadline ps) = Some v \<longrightarrow> now < v) \<longleftrightarrow> (\<forall>p \<in> set ps. now < ack_deadline p)"
  by (cases "iter_min (map ack_deadline ps)") (auto simp: iter_min_less)

lemma due_times_less:
  "(\<forall>v. Some v \<in> set (due_times s) \<longrightarrow> now < v) \<longleftrightarrow>
        now < time_saturating_add (s_last_snapshot_at s) (checkpoint_interval (s_config s)) \<and>
        (\<forall>since. s_dirty_since s = Some since \<longrightarrow>
           now < time_saturating_add since (checkpoint_interval (s_config s))) \<and>
        (is_neutral (s_held s) \<or>
           now < time_saturating_add (s_last_snapshot_at s)
                   (one_third_rounded_down (receiver_lease (s_config s)))) \<and>
        (\<forall>p \<in> set (fm_values (s_pending_snapshots s)). now < ack_deadline p)"
  unfolding ack_due [symmetric] due_times_def
  by (cases "s_dirty_since s") (auto split: if_splits)

lemma sender_tick_unfold:
  assumes "s_remote s" and "s_last_observed_time s \<le> now"
  shows "sender_tick now s =
    (if \<not> (\<forall>p \<in> set (fm_values (s_pending_snapshots s)). now < ack_deadline p)
     then try_then (control (SessionClose CloseLeaseExpired None)) (\<lambda>close s.
            (Inr (TickExitRemote SnapshotAckTimedOut close),
             s\<lparr>s_remote := False, s_held := held_release_all (s_held s),
               s_pending_snapshots := fmempty\<rparr>)) (s\<lparr>s_last_observed_time := now\<rparr>)
     else if \<forall>v. Some v \<in> set (due_times s) \<longrightarrow> now < v
     then (Inr TickIdle, s\<lparr>s_last_observed_time := now\<rparr>)
     else try_then (snapshot now) (\<lambda>message s. (Inr (TickCheckpoint message), s))
            (s\<lparr>s_last_observed_time := now\<rparr>))"
  using assms unfolding due_times_less
  by (auto simp: sender_tick_def try_then_def [of require_remote] try_then_def [of "observe_time now"]
      require_remote_def observe_time_def Let_def list_ex_iff not_less not_le split: option.splits)

lemma tick_result:
  assumes "s_remote s" and "s_last_observed_time s \<le> now"
  shows "fst (sender_tick now s) = Inr TickIdle \<longleftrightarrow> (\<forall>v. Some v \<in> set (due_times s) \<longrightarrow> now < v)"
  unfolding sender_tick_unfold [OF assms]
  by (auto simp: try_then_def due_times_less split: prod.splits sum.splits)


text \<open>
  \<open>next_deadline\<close> is exact. While the activation is remote there is a deadline, and a tick (at
  a time that does not run backwards) is idle exactly when it comes before that deadline: a caller
  that sleeps until the deadline misses nothing and wakes for nothing. While anything is held, the
  deadline is at most a third of the receiver's lease after the last snapshot.
\<close>

theorem tick_exactly_at_deadline:
  assumes "s_remote s" and "s_last_observed_time s \<le> now"
  shows "\<exists>d. sender_next_deadline s = Some d \<and>
           (fst (sender_tick now s) = Inr TickIdle \<longleftrightarrow> now < d) \<and>
           (is_neutral (s_held s) \<or>
            d \<le> time_saturating_add (s_last_snapshot_at s)
                  (one_third_rounded_down (receiver_lease (s_config s))))"
proof -
  from assms(1) obtain d where d: "sender_next_deadline s = Some d"
    by (auto simp: next_deadline_Some)
  let ?r = "time_saturating_add (s_last_snapshot_at s) (one_third_rounded_down (receiver_lease (s_config s)))"
  have "is_neutral (s_held s) \<or> d \<le> ?r"
    using next_deadline_less [OF d, of ?r] by (auto simp: due_times_less not_less [symmetric])
  with d tick_result [OF assms] next_deadline_less [OF d, of now] show ?thesis by auto
qed

text \<open>
  An unacknowledged snapshot ends the activation. Once the deadline of a pending snapshot has
  passed, the next tick gives the receiver up: it emits \<open>SessionClose\<close> with reason \<open>LeaseExpired\<close>
  under the next sequence number, and the sender is no longer remote, holds nothing and waits for
  no acknowledgement. The only way around it is the exhausted 64-bit control sequence.
\<close>

theorem unacknowledged_snapshot_exits:
  assumes "s_remote s" and "s_last_observed_time s \<le> now"
    and "fmlookup (s_pending_snapshots s) q = Some p" and "ack_deadline p \<le> now"
    and "s_last_control_sequence s \<noteq> U64_MAX"
  shows "\<exists>m s'. sender_tick now s = (Inr (TickExitRemote SnapshotAckTimedOut m), s') \<and>
           m_payload m = SessionClose CloseLeaseExpired None \<and>
           m_sequence m = s_last_control_sequence s + 1 \<and>
           \<not> s_remote s' \<and> is_neutral (s_held s') \<and> s_pending_snapshots s' = fmempty"
proof -
  from assms(3,4) have "\<not> (\<forall>p \<in> set (fm_values (s_pending_snapshots s)). now < ack_deadline p)"
    by (auto simp: set_fm_values not_less)
  moreover have "checked_add_u64 (s_last_control_sequence s) 1 = Some (s_last_control_sequence s + 1)"
  proof -
    have "unat (s_last_control_sequence s) \<noteq> unat U64_MAX"
      using assms(5) by (metis word_unat_eq_iff)
    then have "unat (s_last_control_sequence s) + 1 < 2 ^ 64"
      using unat_u64_less [of "s_last_control_sequence s"] by (simp add: unsigned_minus_1_eq_mask mask_eq_exp_minus_1)
    then show ?thesis by (simp add: checked_add_u64_def)
  qed
  ultimately show ?thesis
    by (simp add: sender_tick_unfold [OF assms(1,2)] try_then_def control_def
        next_control_sequence_def held_release_all_def)
qed

text \<open>
  Acknowledgements are cumulative and idempotent. Acknowledging a pending snapshot forgets
  exactly the snapshots up to it and remembers it; acknowledging again anything up to there
  changes nothing and is no error; an acknowledgement for another transport generation or for a
  snapshot that was never emitted is refused and changes nothing.
\<close>

theorem acknowledge_snapshot_cumulative:
  assumes "acknowledge_snapshot ack s = (r, s')"
  shows "(r = Inr () \<and> fmlookup (s_pending_snapshots s) (snapshot_sequence ack) \<noteq> None \<and>
            s_pending_snapshots s' = fmfilter (\<lambda>q. q > snapshot_sequence ack) (s_pending_snapshots s) \<and>
            map_option fst (s_last_acknowledged s') = Some (snapshot_sequence ack) \<and>
            (\<forall>again. acknowledge_snapshot
                \<lparr>snapshot_sequence = min again (snapshot_sequence ack),
                 accepted_generation = transport_generation (s_session s)\<rparr> s' = (Inr (), s'))) \<or>
         (s' = s \<and> (is_ok r \<longleftrightarrow> accepted_generation ack = transport_generation (s_session s) \<and>
            (\<exists>a snap. s_last_acknowledged s = Some (a, snap) \<and> snapshot_sequence ack \<le> a)))"
proof -
  let ?q = "snapshot_sequence ack"
  show ?thesis
  proof (cases "fmlookup (s_pending_snapshots s) ?q")
    case None
    with assms show ?thesis
      by (auto simp: acknowledge_snapshot_def split: if_splits option.splits)
  next
    case (Some p)
    show ?thesis
    proof (cases "accepted_generation ack = transport_generation (s_session s)")
      case True
      with Some assms have r: "r = Inr ()"
        and s': "s' = s\<lparr>s_last_acknowledged := Some (?q, pend_snapshot p),
                      s_pending_snapshots := fmfilter (\<lambda>q. q > ?q) (s_pending_snapshots s)\<rparr>"
        by (simp_all add: acknowledge_snapshot_def)
      have "acknowledge_snapshot \<lparr>snapshot_sequence = min again ?q,
              accepted_generation = transport_generation (s_session s)\<rparr> s' = (Inr (), s')" for again
        by (simp add: acknowledge_snapshot_def s')
      then show ?thesis using Some by (simp add: r s')
    next
      case False
      with assms show ?thesis by (auto simp: acknowledge_snapshot_def)
    qed
  qed
qed

section \<open>Motion totals\<close>

fun captured_deltas :: "(SenderOp \<times> MonotonicTimeMicros) list \<Rightarrow> (SenderError + SenderOut) list \<Rightarrow> MotionDelta list" where
  "captured_deltas ((OpCaptureMotion delta _, _) # ops) (Inr (OutMotion _) # rs) = delta # captured_deltas ops rs"
| "captured_deltas (_ # ops) (_ # rs) = captured_deltas ops rs"
| "captured_deltas _ _ = []"

fun prefix_sums :: "int \<times> int \<times> int \<times> int \<Rightarrow> MotionDelta list \<Rightarrow> (int \<times> int \<times> int \<times> int) list" where
  "prefix_sums v [] = []"
| "prefix_sums v (d # ds) = ints_add v (delta_ints d) # prefix_sums (ints_add v (delta_ints d)) ds"

lemma sender_step_motion:
  assumes "sender_step op now s = (Inr (OutMotion f), s')"
  obtains delta touch where "op = OpCaptureMotion delta touch" and "capture_motion delta touch now s = (Inr f, s')"
  using assms by (cases op) (auto simp: map_out_Inr)

text \<open>
  Motion is captured exactly. In any run of calls (after the activation was entered), the
  motion frames handed out carry as totals the running integer sums of the captured
  displacements, counted from the totals before the run, with no rounding, loss or wrap-around;
  the frames are numbered consecutively, and the sender's own totals end at the last sum.
\<close>

theorem captured_motion_is_exact:
  assumes "list_all (\<lambda>(op, _). op \<noteq> OpEnter) ops" and "sender_run ops s = (rs, s')"
  shows "map (motion_ints \<circ> f_totals) (motion_frames rs) =
           prefix_sums (motion_ints (s_totals s)) (captured_deltas ops rs) \<and>
         map (unat \<circ> f_motion_sequence) (motion_frames rs) =
           [Suc (unat (s_last_motion_sequence s))..<
             Suc (unat (s_last_motion_sequence s) + length (motion_frames rs))] \<and>
         motion_ints (s_totals s') =
           last (motion_ints (s_totals s) # prefix_sums (motion_ints (s_totals s)) (captured_deltas ops rs))"
  using assms
proof (induction ops s arbitrary: rs s' rule: sender_run.induct)
  case (2 op now ops s)
  obtain r s1 where st: "sender_step op now s = (r, s1)" by (cases "sender_step op now s")
  obtain rs1 where run: "sender_run ops s1 = (rs1, s')" and rs: "rs = r # rs1"
    using "2.prems"(2) st by (auto split: prod.splits)
  note IH = "2.IH" [OF st [symmetric] refl _ run]
  show ?case
  proof (cases "is_motion_out r")
    case True
    then obtain f where r: "r = Inr (OutMotion f)" by (auto simp: is_motion_out_iff)
    with st obtain delta touch where op: "op = OpCaptureMotion delta touch"
      and cap: "capture_motion delta touch now s = (Inr f, s1)"
      by (auto elim: sender_step_motion)
    from capture_motion_Inr [OF cap] have "motion_ints (s_totals s1) = ints_add (motion_ints (s_totals s)) (delta_ints delta)"
      "f_totals f = s_totals s1" "unat (f_motion_sequence f) = Suc (unat (s_last_motion_sequence s))"
      "s_last_motion_sequence s1 = f_motion_sequence f"
      by (simp_all add: motion_checked_add_ints checked_succ_u64)
    with IH r op rs "2.prems"(1) show ?thesis by (auto simp: upt_conv_Cons simp del: upt_Suc)
  next
    case False
    with sender_step_totals [of op now s] st "2.prems"(1)
    have "s_totals s1 = s_totals s" "s_last_motion_sequence s1 = s_last_motion_sequence s" by auto
    moreover from False have "motion_frames rs = motion_frames rs1"
      "captured_deltas ((op, now) # ops) rs = captured_deltas ops rs1"
      by (cases r rule: is_motion_out.cases; cases op; auto simp: rs)+
    ultimately show ?thesis using IH "2.prems"(1) by simp
  qed
qed simp

section \<open>A sample run, at which the theorems above apply\<close>

definition sample_sender_start :: Sender where
  "sample_sender_start =
     (case sender_new \<lparr>checkpoint_interval = from_millis 100, receiver_lease = from_millis 900\<rparr>
             sample_session 0 of Inr s \<Rightarrow> s)"

definition sample_sender_ops :: "(SenderOp \<times> MonotonicTimeMicros) list" where
  "sample_sender_ops =
     [(OpCaptureMotion \<lparr>dx = 5, dy = -3, scroll_x = 0, scroll_y = 0\<rparr> None, 15),
      (OpKeyDown (keyboard 4), 10), (OpKeyDown (keyboard 5), 20), (OpSnapshot, 30)]"

definition sample_sender :: Sender where
  "sample_sender = snd (sender_run sample_sender_ops (snd (enter 5 sample_sender_start)))"


lemmas sample_sender_eval = sample_sender_def sample_sender_start_def sample_sender_ops_def sample_session_def
  sender_new_def config_validate_def from_millis_def from_secs_def MAX_CHECKPOINT_INTERVAL_def
  MAX_RECEIVER_LEASE_def sender_ops try_then_def Let_def map_out_def anchor_def checked_add_u64_def
  checked_add_i64_def in_i64_def motion_checked_add_def checked_add_axis_def motion_ZERO_def
  time_saturating_add_def as_micros_def u64_of_u128_or_max_def saturating_add_u64_def MAX_PENDING_SNAPSHOTS_def
  keyboard_def delta_default_def

lemma sample_sender_facts:
  "s_remote sample_sender" "s_last_observed_time sample_sender = 30"
  "map_option ack_deadline (fmlookup (s_pending_snapshots sample_sender) 3) = Some 900030"
  "s_last_control_sequence sample_sender = 3"
  by (simp_all add: sample_sender_eval)

theorem tick_exactly_at_deadline_witness:
  "s_remote sample_sender \<and> s_last_observed_time sample_sender \<le> 40 \<and>
   (\<exists>d. sender_next_deadline sample_sender = Some d \<and>
      (fst (sender_tick 40 sample_sender) = Inr TickIdle \<longleftrightarrow> 40 < d))"
  using tick_exactly_at_deadline [of sample_sender 40] sample_sender_facts by auto

theorem unacknowledged_snapshot_exits_witness:
  "\<exists>m s'. sender_tick 900030 sample_sender = (Inr (TickExitRemote SnapshotAckTimedOut m), s') \<and>
     m_sequence m = 4 \<and> \<not> s_remote s'"
proof -
  obtain p where p: "fmlookup (s_pending_snapshots sample_sender) 3 = Some p" and "ack_deadline p = 900030"
    using sample_sender_facts(3) by auto
  then show ?thesis
    using unacknowledged_snapshot_exits [of sample_sender 900030 3 p] sample_sender_facts by auto
qed

theorem acknowledge_snapshot_cumulative_witness:
  "acknowledge_snapshot \<lparr>snapshot_sequence = 9, accepted_generation = 1\<rparr> sample_sender_start =
     (Inl SUnknownSnapshotAck, sample_sender_start) \<and> \<not> is_ok (Inl SUnknownSnapshotAck :: SenderError + unit)"
proof -
  have ack: "acknowledge_snapshot \<lparr>snapshot_sequence = 9, accepted_generation = 1\<rparr> sample_sender_start =
     (Inl SUnknownSnapshotAck, sample_sender_start)"
    by (simp add: acknowledge_snapshot_def sample_sender_eval)
  from acknowledge_snapshot_cumulative [OF ack] ack show ?thesis by auto
qed

theorem captured_motion_is_exact_witness:
  "map (motion_ints \<circ> f_totals)
     (motion_frames (fst (sender_run sample_sender_ops (snd (enter 5 sample_sender_start))))) =
     [(5, -3, 0, 0)]"
proof -
  let ?s = "snd (enter 5 sample_sender_start)"
  obtain rs s' where run: "sender_run sample_sender_ops ?s = (rs, s')"
    by (cases "sender_run sample_sender_ops ?s")
  have ne: "list_all (\<lambda>(op, _). op \<noteq> OpEnter) sample_sender_ops"
    by (simp add: sample_sender_ops_def)
  have "s_totals ?s = motion_ZERO" by (simp add: sample_sender_eval)
  moreover have "captured_deltas sample_sender_ops (fst (sender_run sample_sender_ops ?s)) =
      [\<lparr>dx = 5, dy = -3, scroll_x = 0, scroll_y = 0\<rparr>]"
    by (simp add: sample_sender_eval)
  ultimately show ?thesis
    using captured_motion_is_exact [OF ne run] run by (simp add: delta_ints_def)
qed

end
