(* ===== verification/Outbound.thy ===== *)
theory Outbound
  imports Sender
begin

text \<open>
  The send side of an input session (\<open>src/src/session.rs\<close>, \<open>src/src/capture.rs\<close>): captured frames of several
  devices are merged into the presses and releases of their union, and go to the sender as touch, motion
  and transitions.

  \<open>Outbound\<close> holds the variables of \<open>run_session\<close> that belong to the send side. \<open>o_sent\<close> is the log of what went
  to the channels; whether a channel takes a message is the argument \<open>taken\<close>. A device path is a string.
\<close>

section \<open>Captured frames\<close>

datatype KeyState = KeyReleased | KeyPressed | KeyRepeat

datatype CaptureTransition = TransKey HidUsage KeyState | TransButton PointerButton KeyState

record PointerFrame =
  pf_transitions :: "CaptureTransition list"
  pf_motion :: MotionDelta

record CaptureFrame =
  cf_transitions :: "CaptureTransition list"
  cf_motion :: MotionDelta
  cf_touch_snapshot :: "TouchState option"
  cf_as_pointer :: "PointerFrame option"
  cf_event_count :: u64

definition frame_is_empty :: "CaptureFrame \<Rightarrow> bool" where
  "frame_is_empty f \<longleftrightarrow>
     cf_transitions f = [] \<and> cf_motion f = delta_default \<and> cf_touch_snapshot f = None \<and>
     (case cf_as_pointer f of
        None \<Rightarrow> True
      | Some pointer \<Rightarrow> pf_transitions pointer = [] \<and> pf_motion pointer = delta_default)"

definition for_target :: "bool \<Rightarrow> CaptureFrame \<Rightarrow> CaptureFrame" where
  "for_target takes_contacts f =
     (case cf_as_pointer f of
        None \<Rightarrow> f
      | Some pointer \<Rightarrow>
         (let f1 = f\<lparr>cf_as_pointer := None\<rparr>
          in if takes_contacts then f1
             else f1\<lparr>cf_transitions := pf_transitions pointer, cf_motion := pf_motion pointer,
                     cf_touch_snapshot := None\<rparr>))"

record CapturedDeviceFrame =
  cd_device_path :: string
  cd_frame :: CaptureFrame
  cd_captured_at :: MonotonicTimeMicros

section \<open>The union of all devices\<close>

datatype CaptureMember = MemKey HidUsage | MemButton PointerButton

record CaptureMerger =
  held_by_device :: "(string, CaptureMember fset) fmap"

definition merger_default :: CaptureMerger where
  "merger_default = \<lparr>held_by_device = fmempty\<rparr>"

definition held_by_any :: "CaptureMerger \<Rightarrow> CaptureMember fset" where
  "held_by_any m = ffUnion (fmran (held_by_device m))"

fun transition_member :: "CaptureTransition \<Rightarrow> CaptureMember \<times> KeyState" where
  "transition_member (TransKey key state) = (MemKey key, state)"
| "transition_member (TransButton button state) = (MemButton button, state)"

fun key_state_pressed :: "KeyState \<Rightarrow> bool option" where
  "key_state_pressed KeyPressed = Some True"
| "key_state_pressed KeyReleased = Some False"
| "key_state_pressed KeyRepeat = None"

text \<open>One round of the loop in \<open>merge\<close>: the device's own set changes, and the edge of the union, if it has one.\<close>

definition merge_transition ::
  "string \<Rightarrow> CaptureTransition \<Rightarrow> CaptureMerger \<Rightarrow> CaptureMerger \<times> (CaptureMember \<times> bool) list"
where
  "merge_transition path transition m =
     (case transition_member transition of (member, state) \<Rightarrow>
       (case key_state_pressed state of
          None \<Rightarrow> (m, [])
        | Some pressed \<Rightarrow>
           (let held_before = (member |\<in>| held_by_any m);
                device = (case fmlookup (held_by_device m) path of None \<Rightarrow> {||} | Some held \<Rightarrow> held);
                changed = (if pressed then member |\<notin>| device else member |\<in>| device);
                device' = (if pressed then finsert member device else device |-| {|member|});
                m' = m\<lparr>held_by_device := fmupd path device' (held_by_device m)\<rparr>
            in if \<not> changed then (m', [])
               else
                 let held_after = (member |\<in>| held_by_any m')
                 in (m', if held_before \<noteq> held_after then [(member, pressed)] else []))))"

fun merge_transitions ::
  "string \<Rightarrow> CaptureTransition list \<Rightarrow> CaptureMerger \<Rightarrow> CaptureMerger \<times> (CaptureMember \<times> bool) list"
where
  "merge_transitions path [] m = (m, [])"
| "merge_transitions path (transition # transitions) m =
     (let (m1, e1) = merge_transition path transition m;
          (m2, e2) = merge_transitions path transitions m1
      in (m2, e1 @ e2))"

definition merge ::
  "CapturedDeviceFrame \<Rightarrow> CaptureMerger \<Rightarrow> CaptureMerger \<times> (CaptureMember \<times> bool) list"
where
  "merge captured m =
     (let (m1, aggregate) = merge_transitions (cd_device_path captured) (cf_transitions (cd_frame captured)) m
      in (m1\<lparr>held_by_device := fmfilter (\<lambda>path. fmlookup (held_by_device m1) path \<noteq> Some {||}) (held_by_device m1)\<rparr>,
          aggregate))"

section \<open>Sending\<close>

datatype OutboundError =
    OSender SenderError
  | OChannelClosed
  | OAlreadyOpen

record Outbound =
  o_sender :: "Sender option"
  o_capture_merge :: CaptureMerger
  o_sent :: "SenderOut list"

type_synonym outbound_op = "Sender \<times> SenderOut list \<Rightarrow> (OutboundError + unit) \<times> Sender \<times> SenderOut list"

text \<open>A call of the sender whose message goes to its channel.\<close>

definition send_op :: "(SenderOut \<Rightarrow> bool) \<Rightarrow> SenderOp \<Rightarrow> MonotonicTimeMicros \<Rightarrow> outbound_op" where
  "send_op taken op now = (\<lambda>(s, sent).
     case sender_step op now s of
       (Inl e, s') \<Rightarrow> (Inl (OSender e), (s', sent))
     | (Inr out, s') \<Rightarrow>
         if out = OutIdle then (Inr (), (s', sent))
         else if taken out then (Inr (), (s', sent @ [out])) else (Inl OChannelClosed, (s', sent)))"

fun member_op :: "CaptureMember \<times> bool \<Rightarrow> SenderOp" where
  "member_op (MemKey key, True) = OpKeyDown key"
| "member_op (MemKey key, False) = OpKeyUp key"
| "member_op (MemButton button, True) = OpButtonDown button"
| "member_op (MemButton button, False) = OpButtonUp button"

fun send_ops :: "(SenderOut \<Rightarrow> bool) \<Rightarrow> SenderOp list \<Rightarrow> MonotonicTimeMicros \<Rightarrow> outbound_op" where
  "send_ops taken [] now st = (Inr (), st)"
| "send_ops taken (op # ops) now st = try_then (send_op taken op now) (\<lambda>_. send_ops taken ops now) st"

text \<open>The calls for the touch and the motion of a frame, from what the sender holds at the start.\<close>

definition touch_and_motion :: "TouchState option \<Rightarrow> MotionDelta \<Rightarrow> Sender \<Rightarrow> SenderOp list" where
  "touch_and_motion touch motion s =
     (let moved = (if motion \<noteq> delta_default then [OpCaptureMotion motion None] else []);
          untouched = touch_is_empty (active_touch (s_held s))
      in case touch of
           None \<Rightarrow> moved
         | Some state \<Rightarrow>
            if untouched \<and> \<not> touch_is_empty state then OpTouchBegin state # moved
            else if \<not> untouched \<and> touch_is_empty state then moved @ [OpTouchEnd False]
            else if \<not> touch_is_empty state then [OpCaptureMotion motion (Some state)]
            else moved)"

definition send_capture ::
  "(SenderOut \<Rightarrow> bool) \<Rightarrow> bool \<Rightarrow> CaptureFrame \<Rightarrow> (CaptureMember \<times> bool) list \<Rightarrow> MonotonicTimeMicros \<Rightarrow> outbound_op"
where
  "send_capture taken touch_negotiated frame transitions now = (\<lambda>(s, sent).
     let touch = (if touch_negotiated then cf_touch_snapshot frame else None)
     in send_ops taken (touch_and_motion touch (cf_motion frame) s @ map member_op transitions) now (s, sent))"

section \<open>The send side of the session loop\<close>

text \<open>
  The stamp of a captured frame: when it was captured, but never later than now and never before the
  sender's clock.
\<close>

definition capture_time :: "MonotonicTimeMicros \<Rightarrow> MonotonicTimeMicros \<Rightarrow> Sender \<Rightarrow> MonotonicTimeMicros" where
  "capture_time captured_at now s = max (min captured_at now) (s_last_observed_time s)"

datatype OutboundCommand =
    BeginOutbound SessionContext
  | Capture CapturedDeviceFrame
  | EndOutbound SessionCloseReason
  | SnapshotAcked SessionContext SnapshotAck
  | OutboundTick

record OutboundSettings =
  os_sender_config :: SenderConfig
  os_touch_negotiated :: bool
  os_takes_contacts :: bool

definition begin_outbound ::
  "OutboundSettings \<Rightarrow> (SenderOut \<Rightarrow> bool) \<Rightarrow> SessionContext \<Rightarrow> MonotonicTimeMicros \<Rightarrow> Outbound \<Rightarrow> (OutboundError + unit) \<times> Outbound"
where
  "begin_outbound settings taken context now ob =
     (if o_sender ob \<noteq> None then (Inl OAlreadyOpen, ob)
      else
        let o1 = ob\<lparr>o_capture_merge := merger_default\<rparr>
        in case sender_new (os_sender_config settings) context now of
             Inl e \<Rightarrow> (Inl (OSender e), o1)
           | Inr next \<Rightarrow>
              (case send_op taken OpEnter now (next, o_sent o1) of
                 (Inl e, (s, sent)) \<Rightarrow> (Inl e, o1\<lparr>o_sent := sent\<rparr>)
               | (Inr _, (s, sent)) \<Rightarrow> (Inr (), o1\<lparr>o_sender := Some s, o_sent := sent\<rparr>)))"

definition capture ::
  "OutboundSettings \<Rightarrow> (SenderOut \<Rightarrow> bool) \<Rightarrow> CapturedDeviceFrame \<Rightarrow> MonotonicTimeMicros \<Rightarrow> Outbound \<Rightarrow> (OutboundError + unit) \<times> Outbound"
where
  "capture settings taken captured now ob =
     (case o_sender ob of
        None \<Rightarrow> (Inr (), ob)
      | Some s \<Rightarrow>
         (let at_time = capture_time (cd_captured_at captured) now s;
              frame = for_target (os_takes_contacts settings) (cd_frame captured);
              (m, transitions) = merge (captured\<lparr>cd_frame := frame\<rparr>) (o_capture_merge ob);
              (r, (s', sent)) = send_capture taken (os_touch_negotiated settings) frame transitions at_time (s, o_sent ob)
          in (r, ob\<lparr>o_sender := Some s', o_capture_merge := m, o_sent := sent\<rparr>)))"

definition end_outbound ::
  "(SenderOut \<Rightarrow> bool) \<Rightarrow> SessionCloseReason \<Rightarrow> MonotonicTimeMicros \<Rightarrow> Outbound \<Rightarrow> (OutboundError + unit) \<times> Outbound"
where
  "end_outbound taken reason now ob =
     (let o1 = ob\<lparr>o_sender := None\<rparr>
      in case o_sender ob of
           Some s \<Rightarrow>
             if s_remote s
             then (case send_op taken (OpLeave reason) now (s, o_sent ob) of
                     (Inl e, (_, sent)) \<Rightarrow> (Inl e, o1\<lparr>o_sent := sent\<rparr>)
                   | (Inr _, (_, sent)) \<Rightarrow> (Inr (), o1\<lparr>o_sent := sent, o_capture_merge := merger_default\<rparr>))
             else (Inr (), o1\<lparr>o_capture_merge := merger_default\<rparr>)
         | None \<Rightarrow> (Inr (), o1\<lparr>o_capture_merge := merger_default\<rparr>))"

definition snapshot_acked ::
  "SessionContext \<Rightarrow> SnapshotAck \<Rightarrow> Outbound \<Rightarrow> (OutboundError + unit) \<times> Outbound"
where
  "snapshot_acked session ack ob =
     (case o_sender ob of
        None \<Rightarrow> (Inr (), ob)
      | Some s \<Rightarrow>
         if s_session s \<noteq> session then (Inr (), ob)
         else case acknowledge_snapshot ack s of
                (Inl e, s') \<Rightarrow> (Inl (OSender e), ob\<lparr>o_sender := Some s'\<rparr>)
              | (Inr _, s') \<Rightarrow> (Inr (), ob\<lparr>o_sender := Some s'\<rparr>))"

text \<open>The send side of the deadline: after an \<open>ExitRemote\<close> the sender is gone, even if the close cannot be sent.\<close>

definition outbound_tick ::
  "(SenderOut \<Rightarrow> bool) \<Rightarrow> MonotonicTimeMicros \<Rightarrow> Outbound \<Rightarrow> (OutboundError + unit) \<times> Outbound"
where
  "outbound_tick taken now ob =
     (case o_sender ob of
        None \<Rightarrow> (Inr (), ob)
      | Some s \<Rightarrow>
         (case sender_tick now s of
            (Inl e, s') \<Rightarrow> (Inl (OSender e), ob\<lparr>o_sender := Some s'\<rparr>)
          | (Inr TickIdle, s') \<Rightarrow> (Inr (), ob\<lparr>o_sender := Some s'\<rparr>)
          | (Inr (TickCheckpoint checkpoint), s') \<Rightarrow>
              if taken (OutControl checkpoint)
              then (Inr (), ob\<lparr>o_sender := Some s', o_sent := o_sent ob @ [OutControl checkpoint]\<rparr>)
              else (Inl OChannelClosed, ob\<lparr>o_sender := Some s'\<rparr>)
          | (Inr (TickExitRemote _ close), s') \<Rightarrow>
              if taken (OutControl close)
              then (Inr (), ob\<lparr>o_sender := None, o_sent := o_sent ob @ [OutControl close]\<rparr>)
              else (Inl OChannelClosed, ob\<lparr>o_sender := None\<rparr>)))"

fun outbound_step ::
  "OutboundSettings \<Rightarrow> (SenderOut \<Rightarrow> bool) \<Rightarrow> OutboundCommand \<Rightarrow> MonotonicTimeMicros \<Rightarrow> Outbound \<Rightarrow> (OutboundError + unit) \<times> Outbound"
where
  "outbound_step settings taken (BeginOutbound context) now ob = begin_outbound settings taken context now ob"
| "outbound_step settings taken (Capture captured) now ob = capture settings taken captured now ob"
| "outbound_step settings taken (EndOutbound reason) now ob = end_outbound taken reason now ob"
| "outbound_step settings taken (SnapshotAcked session ack) now ob = snapshot_acked session ack ob"
| "outbound_step settings taken OutboundTick now ob = outbound_tick taken now ob"

section \<open>Limits on the peer\<close>

text \<open>\<open>EventRate\<close>; the time since the window started is the argument \<open>elapsed\<close>.\<close>

record EventRate =
  er_count :: u32
  er_maximum :: u32

definition rate_observe :: "duration \<Rightarrow> EventRate \<Rightarrow> bool \<times> EventRate" where
  "rate_observe elapsed rate =
     (let rate1 = (if elapsed \<ge> from_secs 1 then rate\<lparr>er_count := 0\<rparr> else rate);
          count = (if er_count rate1 = 0xffffffff then er_count rate1 else er_count rate1 + 1)
      in (count \<le> er_maximum rate1, rate1\<lparr>er_count := count\<rparr>))"

section \<open>The merged edges\<close>

lemma held_by_any_iff:
  "x |\<in>| held_by_any m \<longleftrightarrow> (\<exists>path held. fmlookup (held_by_device m) path = Some held \<and> x |\<in>| held)"
  by (force simp: held_by_any_def ffUnion.rep_eq fmlookup_ran_iff)

lemma held_by_any_retain:
  "held_by_any (m\<lparr>held_by_device := fmfilter (\<lambda>path. fmlookup (held_by_device m) path \<noteq> Some {||}) (held_by_device m)\<rparr>) =
   held_by_any m"
  by (auto simp: fset_eq_iff held_by_any_iff)

lemma merge_transition_replay:
  "replay_edges (snd (merge_transition path t m)) (held_by_any m) = Some (held_by_any (fst (merge_transition path t m)))"
proof -
  obtain member state where t: "transition_member t = (member, state)" by fastforce
  show ?thesis
  proof (cases "key_state_pressed state")
    case None
    then show ?thesis by (simp add: merge_transition_def t)
  next
    case (Some pressed)
    define device where "device = (case fmlookup (held_by_device m) path of None \<Rightarrow> {||} | Some held \<Rightarrow> held)"
    define device' where "device' = (if pressed then finsert member device else device |-| {|member|})"
    define m' where "m' = m\<lparr>held_by_device := fmupd path device' (held_by_device m)\<rparr>"
    have m': "x |\<in>| held_by_any m' \<longleftrightarrow> (if x = member then (\<exists>p held. p \<noteq> path \<and> fmlookup (held_by_device m) p = Some held \<and> x |\<in>| held) \<or> pressed
        else x |\<in>| held_by_any m)" for x
      by (auto simp: m'_def held_by_any_iff device'_def device_def split: option.splits if_splits)
    have before: "member |\<in>| held_by_any m \<longleftrightarrow> (\<exists>p held. p \<noteq> path \<and> fmlookup (held_by_device m) p = Some held \<and> member |\<in>| held) \<or> member |\<in>| device"
      unfolding held_by_any_iff device_def by (cases "fmlookup (held_by_device m) path") (simp, metis option.distinct(1), simp, metis option.inject)
    have "merge_transition path t m = (m',
        if (if pressed then member |\<notin>| device else member |\<in>| device) \<and> (member |\<in>| held_by_any m) \<noteq> (member |\<in>| held_by_any m')
        then [(member, pressed)] else [])"
      by (simp add: merge_transition_def t Some Let_def m'_def device'_def device_def)
    moreover have "held_by_any m' = (if member |\<in>| held_by_any m' then finsert member (held_by_any m) else held_by_any m |-| {|member|})"
      using m' by (auto simp: fset_eq_iff)
    ultimately show ?thesis using before m' [of member]
      by (auto simp: fset_eq_iff split: if_splits)
  qed
qed

lemma merge_transitions_replay:
  "replay_edges (snd (merge_transitions path ts m)) (held_by_any m) = Some (held_by_any (fst (merge_transitions path ts m)))"
proof (induction path ts m rule: merge_transitions.induct)
  case (2 path t ts m)
  from 2 [OF refl prod.collapse] merge_transition_replay [of path t m] show ?case
    by (simp add: case_prod_beta Let_def replay_append)
qed simp

lemma merge_replay: "replay_edges (snd (merge captured m)) (held_by_any m) = Some (held_by_any (fst (merge captured m)))"
  using merge_transitions_replay [of "cd_device_path captured" "cf_transitions (cd_frame captured)" m]
  by (simp add: merge_def case_prod_beta Let_def held_by_any_retain)

interpretation merger: edge_machine held_by_any merge "\<lambda>_. True"
  by unfold_locales (simp_all add: merge_replay)

section \<open>The sender holds the union\<close>

definition members :: "HeldState \<Rightarrow> CaptureMember fset" where
  "members h = MemKey |`| pressed_keys h |\<union>| MemButton |`| pressed_buttons h"

definition forced_error :: "OutboundError \<Rightarrow> bool" where
  "forced_error e \<longleftrightarrow> e = OChannelClosed \<or> e = OSender SSequenceExhausted \<or> (\<exists>x. e = OSender (SMotionOverflow x))"

lemma members_iff [simp]:
  "MemKey k |\<in>| members h \<longleftrightarrow> k |\<in>| pressed_keys h" "MemButton b |\<in>| members h \<longleftrightarrow> b |\<in>| pressed_buttons h"
  by (auto simp: members_def)

lemma members_update:
  "members (h\<lparr>pressed_keys := finsert k (pressed_keys h)\<rparr>) = finsert (MemKey k) (members h)"
  "members (h\<lparr>pressed_keys := pressed_keys h |-| {|k|}\<rparr>) = members h |-| {|MemKey k|}"
  "members (h\<lparr>pressed_buttons := finsert b (pressed_buttons h)\<rparr>) = finsert (MemButton b) (members h)"
  "members (h\<lparr>pressed_buttons := pressed_buttons h |-| {|b|}\<rparr>) = members h |-| {|MemButton b|}"
  "members (h\<lparr>active_touch := t\<rparr>) = members h"
  by (auto simp: members_def)

text \<open>What a call may do to the members: a forced error, or the edge of the call.\<close>

lemma member_op_step:
  assumes "s_remote s" "s_last_observed_time s \<le> now" "replay_edges [(mem, pressed)] (members (s_held s)) = Some B"
  shows "case sender_step (member_op (mem, pressed)) now s of
     (Inl e, _) \<Rightarrow> e = SSequenceExhausted
   | (Inr out, s') \<Rightarrow> s_remote s' \<and> s_last_observed_time s' = now \<and> members (s_held s') = B"
  using assms
  by (cases mem; cases pressed)
    (auto simp: map_out_def sender_ops try_then_def Let_def ok_or_def members_update split: sender_splits)


lemma send_op_result:
  assumes "case sender_step op now s of (Inl e, _) \<Rightarrow> E e | (Inr out, s') \<Rightarrow> P s'"
  shows "case send_op taken op now (s, sent) of
     (Inl e, (s', sent')) \<Rightarrow> (\<exists>x. e = OSender x \<and> E x) \<or> e = OChannelClosed
   | (Inr _, (s', sent')) \<Rightarrow> P s'"
  using assms by (auto simp: send_op_def split: prod.splits sum.splits if_splits)

text \<open>The outcome of a send that may only fail for a reason the session cannot help.\<close>

definition sends ::
  "(Sender \<Rightarrow> bool) \<Rightarrow> (OutboundError + unit) \<times> Sender \<times> SenderOut list \<Rightarrow> bool"
where
  "sends P r \<longleftrightarrow> (case r of (Inl e, _) \<Rightarrow> forced_error e | (Inr _, (s', _)) \<Rightarrow> P s')"

definition live :: "MonotonicTimeMicros \<Rightarrow> Sender \<Rightarrow> bool" where
  "live now s \<longleftrightarrow> s_remote s \<and> s_last_observed_time s \<le> now"

lemma sends_try_then:
  assumes "sends P (m st)" and "\<And>st'. P (fst st') \<Longrightarrow> sends Q (f () st')"
  shows "sends Q (try_then m f st)"
proof -
  obtain r st' where Pair: "m st = (r, st')" by (rule prod.exhaust)
  show ?thesis
  proof (cases r)
    case (Inr u)
    then have "P (fst st')" using assms(1) Pair by (simp add: sends_def case_prod_beta)
    then show ?thesis using assms(2) by (simp add: try_then_def Pair Inr)
  qed (use assms(1) Pair in \<open>simp add: sends_def try_then_def case_prod_beta\<close>)
qed

lemma sends_step:
  assumes "case sender_step op now s of
     (Inl e, _) \<Rightarrow> e = SSequenceExhausted \<or> (\<exists>x. e = SMotionOverflow x) | (Inr out, s') \<Rightarrow> P s'"
  shows "sends P (send_op taken op now (s, sent))"
  using send_op_result [OF assms, of taken sent]
  by (auto simp: sends_def forced_error_def split: prod.splits sum.splits)

lemma sends_member:
  assumes "live now s" "replay_edges [edge] (members (s_held s)) = Some B"
  shows "sends (\<lambda>s'. live now s' \<and> members (s_held s') = B) (send_op taken (member_op edge) now (s, sent))"
proof -
  obtain mem pressed where e: "edge = (mem, pressed)" by (cases edge)
  show ?thesis unfolding e
    by (rule sends_step) (use member_op_step [of s now mem pressed B] assms e in \<open>auto simp: live_def split: prod.splits sum.splits\<close>)
qed

lemma sends_members:
  assumes "live now s" "replay_edges edges (members (s_held s)) = Some B"
  shows "sends (\<lambda>s'. live now s' \<and> members (s_held s') = B) (send_ops taken (map member_op edges) now (s, sent))"
  using assms
proof (induction edges arbitrary: s sent)
  case (Cons edge edges)
  obtain C where C: "replay_edges [edge] (members (s_held s)) = Some C" "replay_edges edges C = Some B"
    using Cons.prems(2) by (cases edge) (auto split: if_splits)
  from sends_member [OF Cons.prems(1) C(1), of taken sent]
  show ?case using Cons.IH C(2) by (auto intro!: sends_try_then)
qed (simp add: sends_def)

lemma sends_motion:
  "live now s \<Longrightarrow> sends (\<lambda>s'. live now s' \<and> members (s_held s') = members (s_held s) \<and>
     (t = None \<longrightarrow> active_touch (s_held s') = active_touch (s_held s))) (send_op taken (OpCaptureMotion motion t) now (s, sent))"
  by (rule sends_step)
    (auto simp: live_def map_out_def sender_ops try_then_def Let_def ok_or_def members_update split: sender_splits)

lemma sends_touch_begin:
  "live now s \<Longrightarrow> touch_is_empty (active_touch (s_held s)) \<Longrightarrow> \<not> touch_is_empty state \<Longrightarrow>
     sends (\<lambda>s'. live now s' \<and> members (s_held s') = members (s_held s)) (send_op taken (OpTouchBegin state) now (s, sent))"
  by (rule sends_step)
    (auto simp: live_def map_out_def sender_ops try_then_def Let_def ok_or_def members_update split: sender_splits)

lemma sends_touch_end:
  "live now s \<Longrightarrow> \<not> touch_is_empty (active_touch (s_held s)) \<Longrightarrow>
     sends (\<lambda>s'. live now s' \<and> members (s_held s') = members (s_held s)) (send_op taken (OpTouchEnd c) now (s, sent))"
  by (rule sends_step)
    (auto simp: live_def map_out_def sender_ops try_then_def Let_def ok_or_def members_update split: sender_splits)

lemma sends_mono: "sends P r \<Longrightarrow> (\<And>s. P s \<Longrightarrow> Q s) \<Longrightarrow> sends Q r"
  by (auto simp: sends_def split: prod.splits sum.splits)

lemma sends_one: "sends P (send_op taken op now st) \<Longrightarrow> sends P (send_ops taken [op] now st)"
  by (simp, erule sends_try_then) (simp add: sends_def case_prod_beta)

lemma sends_two:
  assumes "sends P (send_op taken op now st)" "\<And>st'. P (fst st') \<Longrightarrow> sends Q (send_op taken op' now st')"
  shows "sends Q (send_ops taken [op, op'] now st)"
  by (subst send_ops.simps(2), rule sends_try_then [where m = "send_op taken op now", OF assms(1)])
    (rule sends_one [OF assms(2)])

lemma sends_touch_and_motion:
  assumes "live now s"
  shows "sends (\<lambda>s'. live now s' \<and> members (s_held s') = members (s_held s))
     (send_ops taken (touch_and_motion touch motion s) now (s, sent))"
proof -
  let ?P = "\<lambda>s'. live now s' \<and> members (s_held s') = members (s_held s)"
  have nil: "sends ?P (send_ops taken [] now (s, sent))" using assms by (simp add: sends_def)
  have motion: "sends ?P (send_ops taken [OpCaptureMotion motion t] now (s, sent))" for t
    by (rule sends_one, rule sends_mono [OF sends_motion [OF assms]]) simp
  have begun: "sends ?P (send_ops taken [OpTouchBegin state] now (s, sent))"
      "sends ?P (send_ops taken [OpTouchBegin state, OpCaptureMotion motion None] now (s, sent))"
    if "touch_is_empty (active_touch (s_held s))" "\<not> touch_is_empty state" for state
  proof -
    note b = sends_touch_begin [OF assms that, of taken sent]
    show "sends ?P (send_ops taken [OpTouchBegin state] now (s, sent))" by (rule sends_one [OF b])
    show "sends ?P (send_ops taken [OpTouchBegin state, OpCaptureMotion motion None] now (s, sent))"
      by (rule sends_two [OF b]) (use sends_motion [THEN sends_mono] in fastforce)
  qed
  have ended: "sends ?P (send_ops taken [OpTouchEnd False] now (s, sent))"
      "sends ?P (send_ops taken [OpCaptureMotion motion None, OpTouchEnd False] now (s, sent))"
    if "\<not> touch_is_empty (active_touch (s_held s))"
  proof -
    show "sends ?P (send_ops taken [OpTouchEnd False] now (s, sent))" by (rule sends_one [OF sends_touch_end [OF assms that]])
    show "sends ?P (send_ops taken [OpCaptureMotion motion None, OpTouchEnd False] now (s, sent))"
      by (rule sends_two [OF sends_motion [OF assms]]) (use sends_touch_end [THEN sends_mono] that in fastforce)
  qed
  show ?thesis using nil motion begun ended by (auto simp: touch_and_motion_def Let_def split: option.split)
qed

lemma send_ops_append: "send_ops taken (ops @ ops') now st = try_then (send_ops taken ops now) (\<lambda>_. send_ops taken ops' now) st"
  by (induction ops arbitrary: st) (auto simp: try_then_def split: prod.split sum.split)

lemma sends_capture:
  assumes "live now s" "replay_edges edges (members (s_held s)) = Some B"
  shows "sends (\<lambda>s'. live now s' \<and> members (s_held s') = B) (send_capture taken touch frame edges now (s, sent))"
  unfolding send_capture_def Let_def prod.case send_ops_append
  by (rule sends_try_then [where m = "send_ops taken _ now", OF sends_touch_and_motion [OF assms(1)]])
    (use sends_members assms(2) in \<open>auto simp: case_prod_beta\<close>)

definition outbound_ok :: "Outbound \<Rightarrow> bool" where
  "outbound_ok ob \<longleftrightarrow>
     (\<forall>s. o_sender ob = Some s \<longrightarrow> s_remote s \<and> members (s_held s) = held_by_any (o_capture_merge ob))"

lemma held_by_any_default [simp]: "held_by_any merger_default = {||}"
  by (simp add: held_by_any_def merger_default_def)

lemma capture_live: "s_remote s \<Longrightarrow> live (capture_time t now s) s"
  by (simp add: live_def capture_time_def)

lemma capture_sends:
  assumes "outbound_ok ob" "o_sender ob = Some s" "capture settings taken captured now ob = (r, ob')"
  shows "case r of Inl e \<Rightarrow> forced_error e | Inr _ \<Rightarrow> outbound_ok ob'"
proof -
  define f where "f = captured\<lparr>cd_frame := for_target (os_takes_contacts settings) (cd_frame captured)\<rparr>"
  obtain m edges where m: "merge f (o_capture_merge ob) = (m, edges)" by fastforce
  have replay: "replay_edges edges (members (s_held s)) = Some (held_by_any m)"
    using merge_replay [of f "o_capture_merge ob"] assms(1,2) m by (simp add: outbound_ok_def)
  define res where "res = send_capture taken (os_touch_negotiated settings) (cd_frame f) edges
    (capture_time (cd_captured_at captured) now s) (s, o_sent ob)"
  have "live (capture_time (cd_captured_at captured) now s) s" using assms(1,2) by (simp add: outbound_ok_def capture_live)
  from sends_capture [OF this replay, of taken "os_touch_negotiated settings" "cd_frame f" "o_sent ob"]
  have "sends (\<lambda>s'. live (capture_time (cd_captured_at captured) now s) s' \<and> members (s_held s') = held_by_any m) res"
    by (simp add: res_def)
  moreover have "(r, ob') = (case res of (r, (s', sent)) \<Rightarrow> (r, ob\<lparr>o_sender := Some s', o_capture_merge := m, o_sent := sent\<rparr>))"
    using assms(2,3) m by (simp add: capture_def Let_def res_def f_def case_prod_beta)
  ultimately show ?thesis
    by (auto simp: sends_def live_def outbound_ok_def split: prod.splits sum.splits)
qed

lemma enter_ok:
  "sender_step OpEnter now s = (Inr out, s') \<Longrightarrow> s_remote s' \<and> members (s_held s') = {||}"
  by (auto simp: map_out_def sender_ops try_then_def ok_or_def members_def held_release_all_def split: sender_splits)

lemma tick_ok:
  assumes "sender_tick now s = (Inr t, s')" "s_remote s" "\<nexists>reason m. t = TickExitRemote reason m"
  shows "s_remote s' \<and> s_held s' = s_held s"
  using assms by (auto simp: sender_ops try_then_def ok_or_def Let_def split: sender_splits)

lemma acknowledge_keeps: "s_remote (snd (acknowledge_snapshot ack s)) = s_remote s" "s_held (snd (acknowledge_snapshot ack s)) = s_held s"
  by (simp_all add: acknowledge_snapshot_def split: option.split)

lemma outbound_step_ok:
  assumes "outbound_ok ob" "outbound_step settings taken cmd now ob = (Inr (), ob')"
  shows "outbound_ok ob'"
proof (cases cmd)
  case (BeginOutbound ctx)
  then show ?thesis using assms
    by (auto simp: begin_outbound_def Let_def send_op_def outbound_ok_def dest!: enter_ok simp del: sender_step.simps
        split: if_splits sum.splits prod.splits)
next
  case (Capture captured)
  show ?thesis
  proof (cases "o_sender ob")
    case None
    then show ?thesis using assms Capture by (auto simp: capture_def)
  next
    case (Some s)
    then show ?thesis using capture_sends [OF assms(1) Some] assms(2) Capture by fastforce
  qed
next
  case (EndOutbound reason)
  then show ?thesis using assms by (auto simp: end_outbound_def Let_def outbound_ok_def split: option.splits if_splits prod.splits sum.splits)
next
  case (SnapshotAcked session ack)
  then show ?thesis using assms acknowledge_keeps
    by (auto simp: snapshot_acked_def outbound_ok_def split: option.splits if_splits prod.splits sum.splits) (metis snd_conv)+
next
  case OutboundTick
  then show ?thesis using assms tick_ok
    by (auto simp: outbound_tick_def outbound_ok_def split: option.splits if_splits prod.splits sum.splits SenderTick.splits)
qed

fun outbound_run ::
  "OutboundSettings \<Rightarrow> (SenderOut \<Rightarrow> bool) \<Rightarrow> (OutboundCommand \<times> MonotonicTimeMicros) list \<Rightarrow> Outbound \<Rightarrow> (OutboundError + unit) \<times> Outbound"
where
  "outbound_run settings taken [] ob = (Inr (), ob)"
| "outbound_run settings taken ((cmd, now) # cmds) ob =
     try_then (outbound_step settings taken cmd now) (\<lambda>_. outbound_run settings taken cmds) ob"

definition outbound_new :: Outbound where
  "outbound_new = \<lparr>o_sender = None, o_capture_merge = merger_default, o_sent = []\<rparr>"

lemma outbound_run_ok:
  assumes "outbound_ok ob" "outbound_run settings taken cmds ob = (Inr (), ob')"
  shows "outbound_ok ob'"
  using assms
proof (induction cmds arbitrary: ob)
  case (Cons c cmds)
  obtain cmd now where c: "c = (cmd, now)" by (cases c)
  with Cons.prems(2) obtain ob1 where "outbound_step settings taken cmd now ob = (Inr (), ob1)"
    "outbound_run settings taken cmds ob1 = (Inr (), ob')" by (auto simp: try_then_Inr)
  then show ?case using Cons.IH outbound_step_ok [OF Cons.prems(1)] by blast
qed simp

lemma outbound_new_ok: "outbound_ok outbound_new"
  by (simp add: outbound_ok_def outbound_new_def)

section \<open>Properties\<close>

text \<open>
  C22: What the sender holds is the union of all devices. After any commands of the session loop that
  succeeded, an open sender is remote and holds exactly the keys and buttons that some captured device
  holds; and capturing another frame, of whatever device and with whatever transitions, touch and time,
  can only fail because a channel is closed, the sequence numbers are used up or the totals overflow:
  never as an invalid transition or for its time.
\<close>

theorem sender_holds_union_of_devices:
  assumes "outbound_run settings taken cmds outbound_new = (Inr (), ob)" and "o_sender ob = Some s"
  shows "s_remote s \<and>
     MemKey |`| pressed_keys (s_held s) |\<union>| MemButton |`| pressed_buttons (s_held s) = held_by_any (o_capture_merge ob) \<and>
     (\<forall>captured now e. fst (capture settings taken captured now ob) = Inl e \<longrightarrow>
        e = OChannelClosed \<or> e = OSender SSequenceExhausted \<or> (\<exists>x. e = OSender (SMotionOverflow x)))"
proof -
  have ok: "outbound_ok ob" by (rule outbound_run_ok [OF outbound_new_ok assms(1)])
  have "forced_error e" if "fst (capture settings taken captured now ob) = Inl e" for captured now e
    using capture_sends [OF ok assms(2), of settings taken captured now "fst (capture settings taken captured now ob)"] that
    by (metis prod.collapse old.sum.simps(5))
  then show ?thesis using ok assms(2) by (auto simp: outbound_ok_def members_def forced_error_def)
qed

text \<open>
  C23: The merged edges are those of the union. Over any frames of any devices, replaying the edges that
  \<open>merge\<close> returns never presses what is down or releases what is up, and ends with exactly what some device
  still holds; so when no device holds a key any more, it was released as often as it was pressed.
\<close>

theorem merged_edges_are_the_union:
  "case run_steps merge frames merger_default of (m, edges) \<Rightarrow>
     replay_edges edges {||} = Some (held_by_any m) \<and>
     (k |\<notin>| held_by_any m \<longrightarrow> count_list edges (k, True) = count_list edges (k, False))"
proof -
  obtain m edges where run: "run_steps merge frames merger_default = (m, edges)" by fastforce
  then have replay: "replay_edges edges {||} = Some (held_by_any m)"
    using merger.run_replay [of frames merger_default] by simp
  then show ?thesis using replay_balance [OF replay, of k] by (simp add: run)
qed


section \<open>A sample run\<close>

definition sample_settings :: OutboundSettings where
  "sample_settings = \<lparr>os_sender_config = \<lparr>checkpoint_interval = from_millis 250, receiver_lease = from_secs 1\<rparr>,
     os_touch_negotiated = True, os_takes_contacts = True\<rparr>"

definition sample_key_frame :: "string \<Rightarrow> KeyState \<Rightarrow> CapturedDeviceFrame" where
  "sample_key_frame path state = \<lparr>cd_device_path = path,
     cd_frame = \<lparr>cf_transitions = [TransKey (keyboard 4) state], cf_motion = delta_default, cf_touch_snapshot = None,
                cf_as_pointer = None, cf_event_count = 1\<rparr>,
     cd_captured_at = 7\<rparr>"

lemmas sample_outbound_eval = sample_settings_def sample_key_frame_def sample_session_def outbound_new_def merger_default_def
  begin_outbound_def capture_def send_op_def send_capture_def capture_time_def for_target_def merge_def merge_transition_def
  touch_and_motion_def held_by_any_iff sample_sender_eval

lemma sample_outbound_run:
  "\<exists>ob s. outbound_run sample_settings (\<lambda>_. True) [(BeginOutbound sample_session, 5), (Capture (sample_key_frame ''a'' KeyPressed), 9)]
     outbound_new = (Inr (), ob) \<and> o_sender ob = Some s \<and> pressed_keys (s_held s) = {|keyboard 4|}"
  by (simp add: sample_outbound_eval Let_def)


theorem sender_holds_union_of_devices_witness:
  "\<exists>ob s. outbound_run sample_settings (\<lambda>_. True) [(BeginOutbound sample_session, 5), (Capture (sample_key_frame ''a'' KeyPressed), 9)]
     outbound_new = (Inr (), ob) \<and> o_sender ob = Some s \<and> s_remote s \<and>
     held_by_any (o_capture_merge ob) = {|MemKey (keyboard 4)|} |\<union>| MemButton |`| pressed_buttons (s_held s)"
proof -
  obtain ob s where run: "outbound_run sample_settings (\<lambda>_. True)
      [(BeginOutbound sample_session, 5), (Capture (sample_key_frame ''a'' KeyPressed), 9)] outbound_new = (Inr (), ob)"
      "o_sender ob = Some s" "pressed_keys (s_held s) = {|keyboard 4|}"
    using sample_outbound_run by blast
  show ?thesis using sender_holds_union_of_devices [OF run(1,2)] run by (metis fimage_finsert fimage_fempty)
qed

lemma sample_merges:
  "merge (sample_key_frame path KeyPressed) merger_default =
     (\<lparr>held_by_device = fmupd path {|MemKey (keyboard 4)|} fmempty\<rparr>, [(MemKey (keyboard 4), True)])"
  "merge (sample_key_frame path KeyReleased) \<lparr>held_by_device = fmupd path {|MemKey (keyboard 4)|} fmempty\<rparr> =
     (merger_default, [(MemKey (keyboard 4), False)])"
  by (auto simp: merge_def merge_transition_def sample_key_frame_def merger_default_def held_by_any_iff Let_def
      intro!: fmap_ext)

theorem merged_edges_are_the_union_witness:
  "replay_edges [(MemKey (keyboard 4), True), (MemKey (keyboard 4), False)] {||} = Some {||} \<and>
   MemKey (keyboard 4) |\<notin>| held_by_any merger_default"
  using merged_edges_are_the_union [where frames = "[sample_key_frame ''a'' KeyPressed, sample_key_frame ''a'' KeyReleased]"
      and k = "MemKey (keyboard 4)"]
  by (simp add: sample_merges)

end
