(* ===== verification/Receiver.thy ===== *)
theory Receiver
  imports Model
begin

text \<open>
  The receiver of one connection (\<open>src/src/core/receiver.rs\<close>): it orders control messages,
  reconciles motion against anchors and held state against snapshots, and releases everything it
  holds when the activation closes, when its lease expires or when the connection is lost.

  Methods return the effects they push, in order, next to the new state. \<open>RPanic\<close> stands for the
  \<open>expect\<close> and \<open>unreachable!\<close> of \<open>receive_control\<close>; that it never occurs is proved below.
\<close>

section \<open>Effects, errors and state\<close>

record ReceiverConfig =
  held_state_lease :: duration

datatype RejectionReason =
    ClosedActivation | StaleActivation | NoOpenActivation | DuplicateControl | ControlGap
  | DuplicateOrReorderedMotion | AnchorActivationMismatch | AnchorMovedBackwards
  | InvalidTransition | WrongDirection

datatype ReceiverEffect =
    ActivationOpened SessionContext
  | EffMotion MotionDelta MotionSequence
  | EffKey HidUsage bool bool
  | EffButton PointerButton bool bool
  | EffTouchReplaced TouchState bool
  | EffSnapshotAck SessionContext SnapshotAck
  | ActivationClosed SessionContext SessionCloseReason
  | Rejected SessionContext RejectionReason

fun is_injection :: "ReceiverEffect \<Rightarrow> bool" where
  "is_injection (EffMotion _ _) = True"
| "is_injection (EffKey _ _ _) = True"
| "is_injection (EffButton _ _ _) = True"
| "is_injection (EffTouchReplaced _ _) = True"
| "is_injection _ = False"

datatype ReceiverError = RInvalidLease | RClockMovedBackwards | RContextChanged | RPanic

definition MAX_HELD_STATE_LEASE :: duration where
  "MAX_HELD_STATE_LEASE = from_secs 1"

definition receiver_config_new :: "duration \<Rightarrow> ReceiverError + ReceiverConfig" where
  "receiver_config_new lease =
     (if lease = 0 \<or> lease > MAX_HELD_STATE_LEASE then Inl RInvalidLease
      else Inr \<lparr>held_state_lease = lease\<rparr>)"

record ActivationState =
  a_session :: SessionContext
  a_last_control_sequence :: ControlSequence
  a_held :: HeldState
  a_last_injected_motion :: MotionSequence
  a_injected_totals :: CumulativeMotion
  a_lease_deadline :: "MonotonicTimeMicros option"

definition activation_new :: "SessionContext \<Rightarrow> ActivationState" where
  "activation_new session =
     \<lparr>a_session = session, a_last_control_sequence = 0, a_held = held_default,
      a_last_injected_motion = 0, a_injected_totals = motion_ZERO, a_lease_deadline = None\<rparr>"

record Receiver =
  r_config :: ReceiverConfig
  r_context :: "(SessionEpoch \<times> TransportGeneration) option"
  r_highest_activation :: "ActivationId option"
  r_activation :: "ActivationState option"
  r_last_observed_time :: MonotonicTimeMicros

definition receiver_new :: "ReceiverConfig \<Rightarrow> MonotonicTimeMicros \<Rightarrow> ReceiverError + Receiver" where
  "receiver_new config now =
     result_then (receiver_config_new (held_state_lease config)) (\<lambda>config. Inr
       \<lparr>r_config = config, r_context = None, r_highest_activation = None, r_activation = None,
        r_last_observed_time = now\<rparr>)"

definition active_context :: "Receiver \<Rightarrow> SessionContext option" where
  "active_context r = map_option a_session (r_activation r)"

definition lease_deadline :: "Receiver \<Rightarrow> MonotonicTimeMicros option" where
  "lease_deadline r = Option.bind (r_activation r) a_lease_deadline"

section \<open>Free functions\<close>

definition is_modifier_usage :: "HidUsage \<Rightarrow> bool" where
  "is_modifier_usage key \<longleftrightarrow> page key = KEYBOARD_KEYPAD \<and> 0xe0 \<le> usage key \<and> usage key \<le> 0xe7"

text \<open>The \<open>for key in \<dots>\<close> and \<open>for button in \<dots>\<close> loops of \<open>reconcile_held\<close>.\<close>

fun set_keys :: "bool \<Rightarrow> HidUsage list \<Rightarrow> HeldState \<Rightarrow> HeldState \<times> ReceiverEffect list" where
  "set_keys pressed [] h = (h, [])"
| "set_keys pressed (key # keys) h =
     (let h' = snd ((if pressed then press_key else release_key) key h);
          (h'', effects) = set_keys pressed keys h'
      in (h'', EffKey key pressed True # effects))"

fun set_buttons :: "bool \<Rightarrow> PointerButton list \<Rightarrow> HeldState \<Rightarrow> HeldState \<times> ReceiverEffect list" where
  "set_buttons pressed [] h = (h, [])"
| "set_buttons pressed (button # buttons) h =
     (let h' = snd ((if pressed then press_button else release_button) button h);
          (h'', effects) = set_buttons pressed buttons h'
      in (h'', EffButton button pressed True # effects))"

definition reconcile_held ::
  "ActivationState \<Rightarrow> HeldState \<Rightarrow> ActivationState \<times> ReceiverEffect list"
where
  "reconcile_held state authoritative =
     (let h0 = a_held state;
          released = sort_key is_modifier_usage
            (sorted_list_of_fset (pressed_keys h0 |-| pressed_keys authoritative));
          (h1, e1) = set_keys False released h0;
          pressed = sort_key (\<lambda>key. \<not> is_modifier_usage key)
            (sorted_list_of_fset (pressed_keys authoritative |-| pressed_keys h1));
          (h2, e2) = set_keys True pressed h1;
          (h3, e3) = set_buttons False
            (sorted_list_of_fset (pressed_buttons h2 |-| pressed_buttons authoritative)) h2;
          (h4, e4) = set_buttons True
            (sorted_list_of_fset (pressed_buttons authoritative |-| pressed_buttons h3)) h3;
          (h5, e5) = (if active_touch h4 \<noteq> active_touch authoritative
                      then (snd (replace_touch (active_touch authoritative) h4),
                            [EffTouchReplaced (active_touch authoritative) True])
                      else (h4, []))
      in (state\<lparr>a_held := h5\<rparr>, e1 @ e2 @ e3 @ e4 @ e5))"

definition release_all :: "ActivationState \<Rightarrow> ActivationState \<times> ReceiverEffect list" where
  "release_all state =
     (let (state', effects) = reconcile_held state held_default
      in (state'\<lparr>a_lease_deadline := None\<rparr>, effects))"

definition sequence_rejection :: "ControlSequence \<Rightarrow> ControlSequence \<Rightarrow> RejectionReason option" where
  "sequence_rejection previous received =
     (if received \<le> previous then Some DuplicateControl
      else if checked_add_u64 previous 1 \<noteq> Some received then Some ControlGap
      else None)"

definition refresh_lease :: "MonotonicTimeMicros \<Rightarrow> duration \<Rightarrow> ActivationState \<Rightarrow> ActivationState" where
  "refresh_lease now lease state =
     state\<lparr>a_lease_deadline :=
       (if \<not> is_neutral (a_held state) then Some (time_saturating_add now lease) else None)\<rparr>"

datatype AnchorFailure = AnchorRejected RejectionReason | AnchorMotionOverflow

definition validate_anchor :: "ActivationState \<Rightarrow> MotionAnchor \<Rightarrow> AnchorFailure + MotionDelta" where
  "validate_anchor state an =
     (if an_activation_id an \<noteq> activation_id (a_session state)
      then Inl (AnchorRejected AnchorActivationMismatch)
      else if an_through_motion_sequence an < a_last_injected_motion state
      then Inl (AnchorRejected AnchorMovedBackwards)
      else case checked_delta_from (an_totals an) (a_injected_totals state) of
             Inl _ \<Rightarrow> Inl AnchorMotionOverflow
           | Inr delta \<Rightarrow> Inr delta)"

definition apply_anchor ::
  "MotionAnchor \<Rightarrow> MotionDelta \<Rightarrow> ActivationState \<Rightarrow> ActivationState \<times> ReceiverEffect list"
where
  "apply_anchor an delta state =
     (let s1 = state\<lparr>a_last_injected_motion := an_through_motion_sequence an,
                      a_injected_totals := an_totals an\<rparr>;
          e1 = (if delta \<noteq> delta_default then [EffMotion delta (an_through_motion_sequence an)] else [])
      in if active_touch (a_held s1) \<noteq> an_final_touch_state an
         then (s1\<lparr>a_held := snd (replace_touch (an_final_touch_state an) (a_held s1))\<rparr>,
               e1 @ [EffTouchReplaced (an_final_touch_state an) True])
         else (s1, e1))"

section \<open>Methods\<close>

definition r_observe_time :: "MonotonicTimeMicros \<Rightarrow> Receiver \<Rightarrow> (ReceiverError + unit) \<times> Receiver" where
  "r_observe_time now r =
     (if now < r_last_observed_time r then (Inl RClockMovedBackwards, r)
      else (Inr (), r\<lparr>r_last_observed_time := now\<rparr>))"

definition close_activation :: "SessionCloseReason \<Rightarrow> Receiver \<Rightarrow> Receiver \<times> ReceiverEffect list" where
  "close_activation reason r =
     (case r_activation r of
        None \<Rightarrow> (r, [])
      | Some state \<Rightarrow>
          (let (state', effects) = release_all state
           in (r\<lparr>r_activation := None\<rparr>, effects @ [ActivationClosed (a_session state') reason])))"

definition expire_lease :: "MonotonicTimeMicros \<Rightarrow> Receiver \<Rightarrow> Receiver \<times> ReceiverEffect list" where
  "expire_lease now r =
     (case Option.bind (r_activation r) a_lease_deadline of
        Some deadline \<Rightarrow> if deadline \<le> now then close_activation CloseLeaseExpired r else (r, [])
      | None \<Rightarrow> (r, []))"

definition is_closed :: "Receiver \<Rightarrow> ActivationId \<Rightarrow> bool" where
  "is_closed r activation \<longleftrightarrow>
     (case r_highest_activation r of None \<Rightarrow> False | Some highest \<Rightarrow> activation \<le> highest) \<and>
     (case r_activation r of None \<Rightarrow> True | Some opened \<Rightarrow> activation_id (a_session opened) \<noteq> activation)"

definition check_context :: "SessionContext \<Rightarrow> Receiver \<Rightarrow> (ReceiverError + unit) \<times> Receiver" where
  "check_context session r =
     (let context = (session_epoch session, transport_generation session)
      in case r_context r of
           None \<Rightarrow> (Inr (), r\<lparr>r_context := Some context\<rparr>)
         | Some pinned \<Rightarrow> if pinned \<noteq> context then (Inl RContextChanged, r) else (Inr (), r))"

fun payload_valid :: "HeldState \<Rightarrow> ReliableControl \<Rightarrow> bool" where
  "payload_valid held (KeyDown key) = (key |\<notin>| pressed_keys held)"
| "payload_valid held (KeyUp key) = (key |\<in>| pressed_keys held)"
| "payload_valid held (ButtonDown button an) =
     (an_kind an = Checkpoint \<and> button |\<notin>| pressed_buttons held)"
| "payload_valid held (ButtonUp button an) =
     (an_kind an = Checkpoint \<and> button |\<in>| pressed_buttons held)"
| "payload_valid held (TouchBegin initial_state) =
     (touch_is_empty (active_touch held) \<and> \<not> touch_is_empty initial_state)"
| "payload_valid held (TouchEnd an) = (an_kind an = Checkpoint \<and> \<not> touch_is_empty (active_touch held))"
| "payload_valid held (TouchCancel an) = (an_kind an = Checkpoint \<and> \<not> touch_is_empty (active_touch held))"
| "payload_valid held (CtlStateSnapshot snap) =
     (an_kind (sn_motion_anchor snap) = Checkpoint \<and>
      an_final_touch_state (sn_motion_anchor snap) = active_touch (sn_held snap))"
| "payload_valid held (SessionClose _ final_anchor) =
     (case final_anchor of None \<Rightarrow> True | Some an \<Rightarrow> an_kind an = Terminal)"
| "payload_valid held Enter = False"
| "payload_valid held (CtlSnapshotAck _) = False"

definition validate_transition :: "Receiver \<Rightarrow> ReliableControl \<Rightarrow> bool" where
  "validate_transition r payload =
     (case r_activation r of None \<Rightarrow> False | Some state \<Rightarrow> payload_valid (a_held state) payload)"

definition receive_enter ::
  "ReliableControlMessage \<Rightarrow> MonotonicTimeMicros \<Rightarrow> Receiver \<Rightarrow> Receiver \<times> ReceiverEffect list"
where
  "receive_enter message now r =
     (let session = m_session message in
      if is_closed r (activation_id session) then (r, [Rejected session ClosedActivation])
      else if (case r_highest_activation r of
                 None \<Rightarrow> False
               | Some highest \<Rightarrow> activation_id session \<le> highest)
      then (r, [Rejected session StaleActivation])
      else if m_sequence message \<noteq> 1 then (r, [Rejected session ControlGap])
      else
        let (r1, e1) = (if r_activation r \<noteq> None then close_activation CloseSuperseded r else (r, []));
            state = (activation_new session)\<lparr>a_last_control_sequence := m_sequence message\<rparr>;
            state' = refresh_lease now (held_state_lease (r_config r1)) state
        in (r1\<lparr>r_highest_activation := Some (activation_id session), r_activation := Some state'\<rparr>,
            e1 @ [ActivationOpened session]))"

text \<open>
  The \<open>match\<close> on the payload, after the anchor was applied: the new activation state, the effects
  and the reason to close, or the early return of the wrong-direction arm, or the unreachable arm.
\<close>

datatype Applied =
    Applied ActivationState "ReceiverEffect list" "SessionCloseReason option"
  | AppliedReturn "ReceiverEffect list"
  | AppliedUnreachable

fun apply_payload :: "ReliableControlMessage \<Rightarrow> ReliableControl \<Rightarrow> ActivationState \<Rightarrow> Applied" where
  "apply_payload message (KeyDown key) state =
     Applied (state\<lparr>a_held := snd (press_key key (a_held state))\<rparr>) [EffKey key True False] None"
| "apply_payload message (KeyUp key) state =
     Applied (state\<lparr>a_held := snd (release_key key (a_held state))\<rparr>) [EffKey key False False] None"
| "apply_payload message (ButtonDown button _) state =
     Applied (state\<lparr>a_held := snd (press_button button (a_held state))\<rparr>) [EffButton button True False] None"
| "apply_payload message (ButtonUp button _) state =
     Applied (state\<lparr>a_held := snd (release_button button (a_held state))\<rparr>) [EffButton button False False] None"
| "apply_payload message (TouchBegin initial_state) state =
     Applied (state\<lparr>a_held := snd (replace_touch initial_state (a_held state))\<rparr>)
       [EffTouchReplaced initial_state False] None"
| "apply_payload message (TouchEnd _) state =
     Applied (state\<lparr>a_held := snd (clear_touch (a_held state))\<rparr>) [EffTouchReplaced touch_default False] None"
| "apply_payload message (TouchCancel _) state =
     Applied (state\<lparr>a_held := snd (clear_touch (a_held state))\<rparr>) [EffTouchReplaced touch_default False] None"
| "apply_payload message (CtlStateSnapshot snap) state =
     (let (state', effects) = reconcile_held state (sn_held snap)
      in Applied state'
           (effects @ [EffSnapshotAck (a_session state')
              \<lparr>snapshot_sequence = m_sequence message,
               accepted_generation = transport_generation (a_session state')\<rparr>]) None)"
| "apply_payload message (SessionClose reason _) state = Applied state [] (Some reason)"
| "apply_payload message (CtlSnapshotAck _) state =
     AppliedReturn [Rejected (m_session message) WrongDirection]"
| "apply_payload message Enter state = AppliedUnreachable"

text \<open>The anchor of the message, checked against the activation and applied to it.\<close>

definition anchor_stage ::
  "ReliableControl \<Rightarrow> ActivationState \<Rightarrow> AnchorFailure + ActivationState \<times> ReceiverEffect list"
where
  "anchor_stage payload state =
     (case motion_anchor payload of
        None \<Rightarrow> Inr (state, [])
      | Some an \<Rightarrow> result_then (validate_anchor state an) (\<lambda>delta. Inr (apply_anchor an delta state)))"

text \<open>The close that the message asked for, after everything else was applied.\<close>

definition finish_control ::
  "SessionCloseReason option \<Rightarrow> ReceiverEffect list \<Rightarrow> Receiver \<Rightarrow> (ReceiverError + ReceiverEffect list) \<times> Receiver"
where
  "finish_control close effects r =
     (case close of
        None \<Rightarrow> (Inr effects, r)
      | Some reason \<Rightarrow> (let (r', closing) = close_activation reason r in (Inr (effects @ closing), r')))"

text \<open>
  The part of \<open>receive_control\<close> after the sequence check, in the order of the code: transition,
  anchor, application, sequence number and lease, and at last the close the message asked for.
\<close>

definition apply_control ::
  "ReliableControlMessage \<Rightarrow> MonotonicTimeMicros \<Rightarrow> Receiver \<Rightarrow> (ReceiverError + ReceiverEffect list) \<times> Receiver"
where
  "apply_control message now r =
     (if \<not> validate_transition r (m_payload message)
      then (Inr [Rejected (m_session message) InvalidTransition], r)
      else case r_activation r of
        None \<Rightarrow> (Inl RPanic, r)
      | Some state \<Rightarrow>
        (case anchor_stage (m_payload message) state of
           Inl (AnchorRejected reason) \<Rightarrow> (Inr [Rejected (m_session message) reason], r)
         | Inl AnchorMotionOverflow \<Rightarrow>
             (let (r', effects) = close_activation CloseMotionOverflow r in (Inr effects, r'))
         | Inr (state1, effects1) \<Rightarrow>
            (case apply_payload message (m_payload message) state1 of
               AppliedUnreachable \<Rightarrow> (Inl RPanic, r\<lparr>r_activation := Some state1\<rparr>)
             | AppliedReturn effects2 \<Rightarrow> (Inr (effects1 @ effects2), r\<lparr>r_activation := Some state1\<rparr>)
             | Applied state2 effects2 close \<Rightarrow>
                finish_control close (effects1 @ effects2)
                  (r\<lparr>r_activation := Some
                       (refresh_lease now (held_state_lease (r_config r))
                         (state2\<lparr>a_last_control_sequence := m_sequence message\<rparr>))\<rparr>))))"

text \<open>The body of \<open>receive_control\<close> once the time and the context are accepted.\<close>

definition control_body ::
  "ReliableControlMessage \<Rightarrow> MonotonicTimeMicros \<Rightarrow> Receiver \<Rightarrow> (ReceiverError + ReceiverEffect list) \<times> Receiver"
where
  "control_body message now r =
     (let session = m_session message;
          (r1, e1) = expire_lease now r
      in if m_payload message = Enter
         then let (r2, e2) = receive_enter message now r1 in (Inr (e1 @ e2), r2)
         else if is_closed r1 (activation_id session)
         then (Inr (e1 @ [Rejected session ClosedActivation]), r1)
         else
           (case r_activation r1 of
              None \<Rightarrow> (Inr (e1 @ [Rejected session NoOpenActivation]), r1)
            | Some state \<Rightarrow>
               (if activation_id (a_session state) \<noteq> activation_id session
                then (Inr (e1 @ [Rejected session StaleActivation]), r1)
                else
                  (case sequence_rejection (a_last_control_sequence state) (m_sequence message) of
                     Some reason \<Rightarrow> (Inr (e1 @ [Rejected session reason]), r1)
                   | None \<Rightarrow>
                      (case apply_control message now r1 of
                         (Inl e, r2) \<Rightarrow> (Inl e, r2)
                       | (Inr e2, r2) \<Rightarrow> (Inr (e1 @ e2), r2))))))"

definition receive_control ::
  "ReliableControlMessage \<Rightarrow> MonotonicTimeMicros \<Rightarrow> Receiver \<Rightarrow> (ReceiverError + ReceiverEffect list) \<times> Receiver"
where
  "receive_control message now =
     try_then (r_observe_time now) (\<lambda>_.
     try_then (check_context (m_session message)) (\<lambda>_. control_body message now))"

text \<open>The end of \<open>receive_playout_step\<close>: the step is accepted and the new totals are known.\<close>

definition apply_playout ::
  "PlayoutStep \<Rightarrow> CumulativeMotion \<Rightarrow> ActivationState \<Rightarrow> ActivationState \<times> ReceiverEffect list"
where
  "apply_playout step totals state =
     (let s1 = state\<lparr>a_injected_totals := totals\<rparr>;
          e1 = (if ps_delta step \<noteq> delta_default
                then [EffMotion (ps_delta step) (ps_through_sequence step)] else []);
          (s2, e2) = (case ps_touch_snapshot step of
                        None \<Rightarrow> (s1, [])
                      | Some touch \<Rightarrow>
                         if active_touch (a_held s1) \<noteq> touch
                         then (s1\<lparr>a_held := snd (replace_touch touch (a_held s1))\<rparr>,
                               [EffTouchReplaced touch False])
                         else (s1, []));
          s3 = (if ps_target_reached step
                then s2\<lparr>a_last_injected_motion := ps_through_sequence step\<rparr> else s2)
      in (s3, e1 @ e2))"

definition receive_playout_step ::
  "SessionContext \<Rightarrow> PlayoutStep \<Rightarrow> MonotonicTimeMicros \<Rightarrow> Receiver
     \<Rightarrow> (ReceiverError + ReceiverEffect list) \<times> Receiver"
where
  "receive_playout_step session step now = try_then (r_observe_time now) (\<lambda>_ r.
     let (r1, e1) = expire_lease now r in
     if is_closed r1 (activation_id session) then (Inr (e1 @ [Rejected session ClosedActivation]), r1)
     else
      (case r_activation r1 of
         None \<Rightarrow> (Inr (e1 @ [Rejected session NoOpenActivation]), r1)
       | Some state \<Rightarrow>
         (if a_session state \<noteq> session then (Inr (e1 @ [Rejected session StaleActivation]), r1)
          else if ps_through_sequence step \<le> a_last_injected_motion state
          then (Inr (e1 @ [Rejected session DuplicateOrReorderedMotion]), r1)
          else if (case ps_touch_snapshot step of
                     None \<Rightarrow> False
                   | Some touch \<Rightarrow> touch_is_empty (active_touch (a_held state)) \<and> \<not> touch_is_empty touch)
          then let (r2, e2) = close_activation CloseProtocolViolation r1 in (Inr (e1 @ e2), r2)
          else
           (case motion_checked_add (a_injected_totals state) (ps_delta step) of
              Inl _ \<Rightarrow> (let (r2, e2) = close_activation CloseMotionOverflow r1 in (Inr (e1 @ e2), r2))
            | Inr totals \<Rightarrow>
               (let (state', e2) = apply_playout step totals state
                in (Inr (e1 @ e2), r1\<lparr>r_activation := Some state'\<rparr>))))))"

definition receiver_tick ::
  "MonotonicTimeMicros \<Rightarrow> Receiver \<Rightarrow> (ReceiverError + ReceiverEffect list) \<times> Receiver"
where
  "receiver_tick now = try_then (r_observe_time now) (\<lambda>_ r.
     let (r', effects) = expire_lease now r in (Inr effects, r'))"

definition connection_lost ::
  "MonotonicTimeMicros \<Rightarrow> Receiver \<Rightarrow> (ReceiverError + ReceiverEffect list) \<times> Receiver"
where
  "connection_lost now = try_then (r_observe_time now) (\<lambda>_ r.
     let (r', effects) = close_activation CloseLeaseExpired r in (Inr effects, r'))"

text \<open>Every public call that takes the time, as one step function.\<close>

datatype ReceiverOp =
    RControl ReliableControlMessage
  | RPlayout SessionContext PlayoutStep
  | RTick
  | RConnectionLost

fun receiver_step ::
  "ReceiverOp \<Rightarrow> MonotonicTimeMicros \<Rightarrow> Receiver \<Rightarrow> (ReceiverError + ReceiverEffect list) \<times> Receiver"
where
  "receiver_step (RControl message) now r = receive_control message now r"
| "receiver_step (RPlayout session step) now r = receive_playout_step session step now r"
| "receiver_step RTick now r = receiver_tick now r"
| "receiver_step RConnectionLost now r = connection_lost now r"

section \<open>Reconciliation in closed form\<close>

lemma set_keys_eq:
  "set_keys pressed keys h =
     (h\<lparr>pressed_keys := (if pressed then fset_of_list keys |\<union>| pressed_keys h
                         else pressed_keys h |-| fset_of_list keys)\<rparr>,
      map (\<lambda>key. EffKey key pressed True) keys)"
  by (induction keys arbitrary: h) (auto simp: press_key_def release_key_def fset_eq_iff)

lemma set_buttons_eq:
  "set_buttons pressed buttons h =
     (h\<lparr>pressed_buttons := (if pressed then fset_of_list buttons |\<union>| pressed_buttons h
                            else pressed_buttons h |-| fset_of_list buttons)\<rparr>,
      map (\<lambda>button. EffButton button pressed True) buttons)"
  by (induction buttons arbitrary: h) (auto simp: press_button_def release_button_def fset_eq_iff)

definition reconcile_effects :: "HeldState \<Rightarrow> HeldState \<Rightarrow> ReceiverEffect list" where
  "reconcile_effects h h' =
     map (\<lambda>key. EffKey key False True)
       (sort_key is_modifier_usage (sorted_list_of_fset (pressed_keys h |-| pressed_keys h'))) @
     map (\<lambda>key. EffKey key True True)
       (sort_key (\<lambda>key. \<not> is_modifier_usage key) (sorted_list_of_fset (pressed_keys h' |-| pressed_keys h))) @
     map (\<lambda>button. EffButton button False True)
       (sorted_list_of_fset (pressed_buttons h |-| pressed_buttons h')) @
     map (\<lambda>button. EffButton button True True)
       (sorted_list_of_fset (pressed_buttons h' |-| pressed_buttons h)) @
     (if active_touch h \<noteq> active_touch h' then [EffTouchReplaced (active_touch h') True] else [])"

lemma reconcile_held_eq:
  "reconcile_held state h' = (state\<lparr>a_held := h'\<rparr>, reconcile_effects (a_held state) h')"
  by (cases h'; cases "a_held state")
    (auto simp: reconcile_held_def reconcile_effects_def set_keys_eq set_buttons_eq Let_def
      replace_touch_def)

lemma release_all_eq:
  "release_all state =
     (state\<lparr>a_held := held_default, a_lease_deadline := None\<rparr>, reconcile_effects (a_held state) held_default)"
  by (simp add: release_all_def reconcile_held_eq)

lemma close_activation_eq:
  "close_activation reason r =
     (r\<lparr>r_activation := None\<rparr>,
      case r_activation r of
        None \<Rightarrow> []
      | Some state \<Rightarrow> reconcile_effects (a_held state) held_default @ [ActivationClosed (a_session state) reason])"
  by (auto simp: close_activation_def release_all_eq split: option.splits)

section \<open>The abstract backend\<close>

text \<open>
  What an input backend has down, and what one effect does to it. A press of something that is
  already down or a release of something that is up is an error of the caller: \<open>None\<close>.
\<close>

fun backend_apply :: "ReceiverEffect \<Rightarrow> HeldState \<Rightarrow> HeldState option" where
  "backend_apply (EffKey key pressed _) h =
     (if pressed = (key |\<in>| pressed_keys h) then None
      else Some (h\<lparr>pressed_keys := (if pressed then finsert key (pressed_keys h) else pressed_keys h |-| {|key|})\<rparr>))"
| "backend_apply (EffButton button pressed _) h =
     (if pressed = (button |\<in>| pressed_buttons h) then None
      else Some (h\<lparr>pressed_buttons :=
                   (if pressed then finsert button (pressed_buttons h) else pressed_buttons h |-| {|button|})\<rparr>))"
| "backend_apply (EffTouchReplaced touch _) h = Some (h\<lparr>active_touch := touch\<rparr>)"
| "backend_apply _ h = Some h"

fun backend_run :: "ReceiverEffect list \<Rightarrow> HeldState \<Rightarrow> HeldState option" where
  "backend_run [] h = Some h"
| "backend_run (e # es) h = Option.bind (backend_apply e h) (backend_run es)"

lemma backend_run_append: "backend_run (es @ fs) h = Option.bind (backend_run es h) (backend_run fs)"
  by (induction es arbitrary: h) (auto split: bind_splits)

lemma backend_run_key_presses:
  "distinct keys \<Longrightarrow> set keys \<inter> fset (pressed_keys h) = {} \<Longrightarrow>
     backend_run (map (\<lambda>key. EffKey key True b) keys) h =
       Some (h\<lparr>pressed_keys := fset_of_list keys |\<union>| pressed_keys h\<rparr>)"
  by (induction keys arbitrary: h) auto

lemma backend_run_key_releases:
  "distinct keys \<Longrightarrow> set keys \<subseteq> fset (pressed_keys h) \<Longrightarrow>
     backend_run (map (\<lambda>key. EffKey key False b) keys) h =
       Some (h\<lparr>pressed_keys := pressed_keys h |-| fset_of_list keys\<rparr>)"
proof (induction keys arbitrary: h)
  case (Cons k ks)
  then have "set ks \<subseteq> fset (pressed_keys (h\<lparr>pressed_keys := pressed_keys h |-| {|k|}\<rparr>))" by auto
  with Cons show ?case by (simp add: fset_eq_iff)
qed simp

lemma backend_run_button_presses:
  "distinct buttons \<Longrightarrow> set buttons \<inter> fset (pressed_buttons h) = {} \<Longrightarrow>
     backend_run (map (\<lambda>button. EffButton button True b) buttons) h =
       Some (h\<lparr>pressed_buttons := fset_of_list buttons |\<union>| pressed_buttons h\<rparr>)"
  by (induction buttons arbitrary: h) auto

lemma backend_run_button_releases:
  "distinct buttons \<Longrightarrow> set buttons \<subseteq> fset (pressed_buttons h) \<Longrightarrow>
     backend_run (map (\<lambda>button. EffButton button False b) buttons) h =
       Some (h\<lparr>pressed_buttons := pressed_buttons h |-| fset_of_list buttons\<rparr>)"
proof (induction buttons arbitrary: h)
  case (Cons b bs)
  then have "set bs \<subseteq> fset (pressed_buttons (h\<lparr>pressed_buttons := pressed_buttons h |-| {|b|}\<rparr>))" by auto
  with Cons show ?case by (simp add: fset_eq_iff)
qed simp

lemma backend_run_reconcile: "backend_run (reconcile_effects h h') h = Some h'"
  by (cases h; cases h')
    (auto simp: reconcile_effects_def backend_run_append backend_run_key_presses
      backend_run_key_releases backend_run_button_presses backend_run_button_releases)

lemma backend_run_rejected [simp]: "backend_run [Rejected session reason] h = Some h"
  by simp

text \<open>What the receiver believes to be down.\<close>

definition receiver_held :: "Receiver \<Rightarrow> HeldState" where
  "receiver_held r = (case r_activation r of None \<Rightarrow> held_default | Some state \<Rightarrow> a_held state)"

definition tracks :: "Receiver \<Rightarrow> Receiver \<times> ReceiverEffect list \<Rightarrow> bool" where
  "tracks r res = (backend_run (snd res) (receiver_held r) = Some (receiver_held (fst res)))"

lemma tracks_close: "tracks r (close_activation reason r)"
  by (auto simp: tracks_def close_activation_eq receiver_held_def backend_run_append
      backend_run_reconcile split: option.splits)

lemma tracks_expire: "tracks r (expire_lease now r)"
  by (auto simp: expire_lease_def tracks_close split: option.splits) (simp_all add: tracks_def)

lemma tracks_refl: "tracks r (r, [])"
  by (simp add: tracks_def)

lemma tracks_trans:
  "tracks r (r1, e1) \<Longrightarrow> tracks r1 (r2, e2) \<Longrightarrow> tracks r (r2, e1 @ e2)"
  by (simp add: tracks_def backend_run_append)

lemma tracks_reject: "tracks r (r, [Rejected session reason])"
  by (simp add: tracks_def)

lemma tracks_enter: "tracks r (receive_enter message now r)"
proof -
  obtain r1 e1 where cl: "close_activation CloseSuperseded r = (r1, e1)"
    by (cases "close_activation CloseSuperseded r")
  have t1: "tracks r (r1, e1)" using tracks_close [of r CloseSuperseded] cl by simp
  have held1: "receiver_held r1 = held_default"
    using cl by (auto simp: close_activation_eq receiver_held_def)
  show ?thesis
    using t1 held1 cl
    by (auto simp: receive_enter_def Let_def tracks_def backend_run_append receiver_held_def
        refresh_lease_def activation_new_def)
qed

lemma backend_run_anchor:
  assumes "validate_anchor state an = Inr delta"
  shows "backend_run (snd (apply_anchor an delta state)) (a_held state) =
           Some (a_held (fst (apply_anchor an delta state)))"
    and "pressed_keys (a_held (fst (apply_anchor an delta state))) = pressed_keys (a_held state)"
    and "pressed_buttons (a_held (fst (apply_anchor an delta state))) = pressed_buttons (a_held state)"
  by (auto simp: apply_anchor_def Let_def replace_touch_def)

lemma backend_run_payload:
  assumes "apply_payload message payload state = Applied state' effects close"
    and "payload_valid h payload" and "pressed_keys (a_held state) = pressed_keys h"
    and "pressed_buttons (a_held state) = pressed_buttons h"
  shows "backend_run effects (a_held state) = Some (a_held state')"
  using assms
  by (induction payload)
    (clarsimp simp: held_ops reconcile_held_eq backend_run_append backend_run_reconcile)+

lemma anchor_stage_held:
  assumes "anchor_stage payload state = Inr (state1, e1)"
  shows "backend_run e1 (a_held state) = Some (a_held state1)"
    and "pressed_keys (a_held state1) = pressed_keys (a_held state)"
    and "pressed_buttons (a_held state1) = pressed_buttons (a_held state)"
    and "a_session state1 = a_session state"
  using assms
  by (auto simp: anchor_stage_def result_then_Inr apply_anchor_def Let_def replace_touch_def
      split: option.splits if_splits)

text \<open>The four ways in which a message in sequence ends.\<close>

lemma apply_control_cases:
  assumes "apply_control message now r = (res, r')"
  obtains (invalid) "\<not> validate_transition r (m_payload message)"
      "res = Inr [Rejected (m_session message) InvalidTransition]" "r' = r"
  | (rejected) reason where "res = Inr [Rejected (m_session message) reason]" "r' = r"
  | (overflow) "res = Inr (snd (close_activation CloseMotionOverflow r))"
      "r' = fst (close_activation CloseMotionOverflow r)"
  | (applied) state state1 e1 state2 e2 close where
      "r_activation r = Some state" "payload_valid (a_held state) (m_payload message)"
      "anchor_stage (m_payload message) state = Inr (state1, e1)"
      "apply_payload message (m_payload message) state1 = Applied state2 e2 close"
      "finish_control close (e1 @ e2)
         (r\<lparr>r_activation := Some (refresh_lease now (held_state_lease (r_config r))
              (state2\<lparr>a_last_control_sequence := m_sequence message\<rparr>))\<rparr>) = (res, r')"
proof (cases "validate_transition r (m_payload message)")
  case False
  with assms show ?thesis by (intro invalid) (auto simp: apply_control_def)
next
  case True
  then obtain state where state: "r_activation r = Some state"
    and valid: "payload_valid (a_held state) (m_payload message)"
    by (auto simp: validate_transition_def split: option.splits)
  show ?thesis
  proof (cases "anchor_stage (m_payload message) state")
    case (Inl failure)
    show ?thesis
    proof (cases failure)
      case (AnchorRejected reason)
      with Inl assms True state show ?thesis by (intro rejected [of reason]) (simp_all add: apply_control_def)
    next
      case AnchorMotionOverflow
      with Inl assms True state show ?thesis
        by (intro overflow) (simp_all add: apply_control_def case_prod_beta)
    qed
  next
    case (Inr p)
    then obtain state1 e1 where anchored: "anchor_stage (m_payload message) state = Inr (state1, e1)"
      by (cases p) auto
    from valid obtain state2 e2 close
      where payload: "apply_payload message (m_payload message) state1 = Applied state2 e2 close"
      by (cases "m_payload message") (auto simp: reconcile_held_eq)
    from assms True state anchored payload show ?thesis
      by (intro applied [OF state valid anchored payload]) (simp add: apply_control_def)
  qed
qed

lemma tracks_activation:
  "r_activation r = Some state \<Longrightarrow> backend_run es (a_held state) = Some (a_held state') \<Longrightarrow>
     tracks r (r\<lparr>r_activation := Some state'\<rparr>, es)"
  by (simp add: tracks_def receiver_held_def)

lemma tracks_finish:
  assumes "tracks r (r1, es)" and "finish_control close es r1 = (Inr effects, r')"
  shows "tracks r (r', effects)"
proof (cases close)
  case (Some reason)
  obtain r2 e2 where cl: "close_activation reason r1 = (r2, e2)" by (cases "close_activation reason r1")
  with tracks_close [of r1 reason] have "tracks r1 (r2, e2)" by simp
  from tracks_trans [OF assms(1) this] assms(2) Some cl show ?thesis
    by (simp add: finish_control_def)
qed (use assms in \<open>simp add: finish_control_def\<close>)

lemma tracks_apply_control:
  assumes "apply_control message now r = (Inr effects, r')"
  shows "tracks r (r', effects)"
  using assms
proof (cases rule: apply_control_cases)
  case overflow
  then show ?thesis using tracks_close [of r CloseMotionOverflow] by simp
next
  case (applied state state1 e1 state2 e2 close)
  from applied(2-4) anchor_stage_held [OF applied(3)]
  have "backend_run e2 (a_held state1) = Some (a_held state2)"
    by (intro backend_run_payload) auto
  with anchor_stage_held(1) [OF applied(3)] applied(1,5) show ?thesis
    by (intro tracks_finish [OF _ applied(5)] tracks_activation [OF applied(1)])
      (simp add: backend_run_append refresh_lease_def)
qed (auto simp: tracks_reject)

text \<open>The ways in which the body of \<open>receive_control\<close> ends.\<close>

lemma control_body_cases:
  assumes "control_body message now r = (res, r')" and "expire_lease now r = (r1, e1)"
  obtains (entered) e2 where "m_payload message = Enter" "receive_enter message now r1 = (r', e2)"
      "res = Inr (e1 @ e2)"
  | (rejected) reason where "r' = r1" "res = Inr (e1 @ [Rejected (m_session message) reason])"
  | (in_sequence) state e2 where "m_payload message \<noteq> Enter" "r_activation r1 = Some state"
      "activation_id (a_session state) = activation_id (m_session message)"
      "checked_add_u64 (a_last_control_sequence state) 1 = Some (m_sequence message)"
      "apply_control message now r1 = (Inr e2, r')" "res = Inr (e1 @ e2)"
proof (cases "m_payload message = Enter")
  case True
  obtain r2 e2 where "receive_enter message now r1 = (r2, e2)" by (cases "receive_enter message now r1")
  with True assms show ?thesis by (intro entered) (auto simp: control_body_def)
next
  case False
  show ?thesis
  proof (cases "\<exists>state. r_activation r1 = Some state \<and> \<not> is_closed r1 (activation_id (m_session message)) \<and>
      activation_id (a_session state) = activation_id (m_session message) \<and>
      sequence_rejection (a_last_control_sequence state) (m_sequence message) = None")
    case True
    then obtain state where st: "r_activation r1 = Some state" "\<not> is_closed r1 (activation_id (m_session message))"
      "activation_id (a_session state) = activation_id (m_session message)"
      "sequence_rejection (a_last_control_sequence state) (m_sequence message) = None" by blast
    obtain res2 r2 where ap: "apply_control message now r1 = (res2, r2)" by (cases "apply_control message now r1")
    then obtain e2 where res2: "res2 = Inr e2"
      by (cases rule: apply_control_cases) (auto simp: finish_control_def split: option.splits prod.splits)
    from st(4) have "checked_add_u64 (a_last_control_sequence state) 1 = Some (m_sequence message)"
      by (simp add: sequence_rejection_def split: if_splits)
    with False st ap res2 assms show ?thesis
      by (intro in_sequence [of state e2]) (simp_all add: control_body_def)
  next
    case no: False
    with False assms rejected show ?thesis
      by (auto simp: control_body_def Let_def split: option.splits if_splits prod.splits)
  qed
qed

lemma receive_control_cases:
  assumes "receive_control message now r = (res, r')"
  obtains (error) e where "res = Inl e" "e \<noteq> RPanic" "r' = r \<or> r' = r\<lparr>r_last_observed_time := now\<rparr>"
      "e = RClockMovedBackwards \<longleftrightarrow> now < r_last_observed_time r"
  | (accepted) r0 where "r_last_observed_time r \<le> now"
      "r0 = r\<lparr>r_last_observed_time := now,
              r_context := Some (session_epoch (m_session message), transport_generation (m_session message))\<rparr>"
      "r_context r = None \<or> r_context r = r_context r0" "control_body message now r0 = (res, r')"
proof -
  let ?c = "(session_epoch (m_session message), transport_generation (m_session message))"
  show ?thesis
  proof (cases "now < r_last_observed_time r")
    case True
    with assms show ?thesis
      by (intro error [of RClockMovedBackwards]) (auto simp: receive_control_def try_then_def r_observe_time_def)
  next
    case time: False
    show ?thesis
    proof (cases "r_context r = None \<or> r_context r = Some ?c")
      case True
      then have "check_context (m_session message) (r\<lparr>r_last_observed_time := now\<rparr>) =
              (Inr (), r\<lparr>r_last_observed_time := now, r_context := Some ?c\<rparr>)"
        by (cases r) (auto simp: check_context_def Let_def)
      with assms time True show ?thesis
        by (intro accepted [OF _ refl]) (auto simp: receive_control_def try_then_def r_observe_time_def)
    next
      case False
      then obtain p where "r_context r = Some p" "p \<noteq> ?c" by auto
      with assms time show ?thesis
        by (intro error [of RContextChanged])
          (auto simp: receive_control_def try_then_def r_observe_time_def check_context_def)
    qed
  qed
qed

section \<open>Every call, against the abstract backend\<close>

lemma expire_lease_simps [simp]:
  "r_last_observed_time (fst (expire_lease now r)) = r_last_observed_time r"
  "r_config (fst (expire_lease now r)) = r_config r"
  "r_context (fst (expire_lease now r)) = r_context r"
  "r_highest_activation (fst (expire_lease now r)) = r_highest_activation r"
  by (auto simp: expire_lease_def close_activation_eq split: option.splits)

lemma tracks_cong: "receiver_held r = receiver_held r0 \<Longrightarrow> tracks r0 res \<Longrightarrow> tracks r res"
  by (simp add: tracks_def)

lemma tracks_receive_control:
  assumes "receive_control message now r = (Inr effects, r')"
  shows "tracks r (r', effects)"
  using assms
proof (cases rule: receive_control_cases)
  case (accepted r0)
  obtain r1 e1 where ex: "expire_lease now r0 = (r1, e1)" by (cases "expire_lease now r0")
  then have t0: "tracks r (r1, e1)"
    using tracks_expire [of r0 now] accepted(2)
    by (intro tracks_cong [of r r0]) (simp_all add: receiver_held_def)
  from accepted(4) ex show ?thesis
  proof (cases rule: control_body_cases)
    case (entered e2)
    with tracks_enter [of r1 message now] show ?thesis by (auto intro: tracks_trans [OF t0])
  next
    case (rejected reason)
    then show ?thesis by (auto intro: tracks_trans [OF t0] tracks_reject)
  next
    case (in_sequence state e2)
    then show ?thesis by (auto intro: tracks_trans [OF t0] tracks_apply_control)
  qed
qed simp

text \<open>The ways in which a playout step ends.\<close>

lemma receive_playout_step_cases:
  assumes "receive_playout_step session step now r = (res, r')"
  obtains (error) "now < r_last_observed_time r" "res = Inl RClockMovedBackwards" "r' = r"
  | (rejected) r1 e1 reason where "r_last_observed_time r \<le> now"
      "expire_lease now (r\<lparr>r_last_observed_time := now\<rparr>) = (r1, e1)" "r' = r1"
      "res = Inr (e1 @ [Rejected session reason])"
  | (closed) r1 e1 reason where "r_last_observed_time r \<le> now"
      "expire_lease now (r\<lparr>r_last_observed_time := now\<rparr>) = (r1, e1)"
      "r' = fst (close_activation reason r1)" "res = Inr (e1 @ snd (close_activation reason r1))"
  | (applied) r1 e1 state totals where "r_last_observed_time r \<le> now"
      "expire_lease now (r\<lparr>r_last_observed_time := now\<rparr>) = (r1, e1)"
      "r_activation r1 = Some state" "a_session state = session"
      "a_last_injected_motion state < ps_through_sequence step"
      "\<forall>touch. ps_touch_snapshot step = Some touch \<longrightarrow>
         touch_is_empty (active_touch (a_held state)) \<longrightarrow> touch_is_empty touch"
      "motion_checked_add (a_injected_totals state) (ps_delta step) = Inr totals"
      "r' = r1\<lparr>r_activation := Some (fst (apply_playout step totals state))\<rparr>"
      "res = Inr (e1 @ snd (apply_playout step totals state))"
proof (cases "now < r_last_observed_time r")
  case True
  with assms show ?thesis
    by (intro error) (auto simp: receive_playout_step_def try_then_def r_observe_time_def)
next
  case time: False
  obtain r1 e1 where ex: "expire_lease now (r\<lparr>r_last_observed_time := now\<rparr>) = (r1, e1)"
    by (cases "expire_lease now (r\<lparr>r_last_observed_time := now\<rparr>)")
  have le: "r_last_observed_time r \<le> now" using time by simp
  note rej = rejected [OF le ex] and cl = closed [OF le ex] and ap = applied [OF le ex]
  from assms time ex show ?thesis
    by (auto simp: receive_playout_step_def try_then_def r_observe_time_def case_prod_beta not_le
        split: if_splits option.splits sum.splits intro: rej cl ap)
qed

lemma backend_run_apply_playout:
  "backend_run (snd (apply_playout step totals state)) (a_held state) =
     Some (a_held (fst (apply_playout step totals state)))"
  by (auto simp: apply_playout_def Let_def replace_touch_def split: option.splits)

lemma tracks_receive_playout_step:
  assumes "receive_playout_step session step now r = (Inr effects, r')"
  shows "tracks r (r', effects)"
proof -
  have t0: "tracks r (r1, e1)" if "expire_lease now (r\<lparr>r_last_observed_time := now\<rparr>) = (r1, e1)" for r1 e1
    using tracks_expire [of "r\<lparr>r_last_observed_time := now\<rparr>" now] that
    by (simp add: tracks_def receiver_held_def)
  show ?thesis
    using assms
  proof (cases rule: receive_playout_step_cases)
    case (rejected r1 e1 reason)
    then show ?thesis by (auto intro: tracks_trans [OF t0] tracks_reject)
  next
    case (closed r1 e1 reason)
    then show ?thesis
      using tracks_trans [OF t0 [OF closed(2)], of "fst (close_activation reason r1)"] tracks_close [of r1 reason]
      by simp
  next
    case (applied r1 e1 state totals)
    from tracks_trans [OF t0 [OF applied(2)] tracks_activation [OF applied(3) backend_run_apply_playout]]
      applied(8,9) show ?thesis by simp
  qed simp
qed

lemma receive_control_no_panic: "receive_control message now r \<noteq> (Inl RPanic, r')"
proof
  assume eq: "receive_control message now r = (Inl RPanic, r')"
  then show False
  proof (cases rule: receive_control_cases)
    case (accepted r0)
    obtain r1 e1 where ex: "expire_lease now r0 = (r1, e1)" by (cases "expire_lease now r0")
    from accepted(4) ex show False by (cases rule: control_body_cases) auto
  qed simp
qed

lemma receiver_step_tracks:
  "receiver_step op now r = (Inr effects, r') \<Longrightarrow> tracks r (r', effects)"
proof (cases op)
  case RTick
  assume "receiver_step op now r = (Inr effects, r')"
  with RTick tracks_expire [of "r\<lparr>r_last_observed_time := now\<rparr>" now] show ?thesis
    by (auto simp: receiver_tick_def try_then_def r_observe_time_def tracks_def receiver_held_def
        split: if_splits prod.splits)
next
  case RConnectionLost
  assume "receiver_step op now r = (Inr effects, r')"
  with RConnectionLost tracks_close [of "r\<lparr>r_last_observed_time := now\<rparr>" CloseLeaseExpired] show ?thesis
    by (auto simp: connection_lost_def try_then_def r_observe_time_def tracks_def receiver_held_def
        split: if_splits prod.splits)
qed (auto intro: tracks_receive_control tracks_receive_playout_step)

lemma receiver_step_error:
  assumes "receiver_step op now r = (Inl e, r')"
  shows "e \<noteq> RPanic \<and> (r' = r \<or> r' = r\<lparr>r_last_observed_time := now\<rparr> \<and> r_last_observed_time r \<le> now)"
proof (cases op)
  case (RControl message)
  with assms have eq: "receive_control message now r = (Inl e, r')" by simp
  then show ?thesis
  proof (cases rule: receive_control_cases)
    case (error e')
    then show ?thesis by (cases "now < r_last_observed_time r")
      (use eq in \<open>auto simp: receive_control_def try_then_def r_observe_time_def split: prod.splits\<close>)
  next
    case (accepted r0)
    obtain r1 e1 where ex: "expire_lease now r0 = (r1, e1)" by (cases "expire_lease now r0")
    from accepted(4) ex show ?thesis by (cases rule: control_body_cases) auto
  qed
next
  case (RPlayout session step)
  with assms have "receive_playout_step session step now r = (Inl e, r')" by simp
  then show ?thesis by (cases rule: receive_playout_step_cases) auto
qed (use assms in \<open>auto simp: receiver_tick_def connection_lost_def try_then_def r_observe_time_def
      split: if_splits prod.splits\<close>)

text \<open>
  C6: The receiver refines an abstract backend. For every call (a control message, a playout step,
  a tick, a lost connection) from any state, the emitted effects, replayed in order on a backend
  that has down what the receiver believed to be down, never press what is down or release what is
  up, and leave the backend with exactly what the receiver believes to be down afterwards. A call
  that returns an error emits nothing and changes nothing that is held, and no call reaches the
  \<open>expect\<close> or \<open>unreachable!\<close> of the code.
\<close>

theorem receiver_refines_backend:
  "case receiver_step op now r of
     (Inr effects, r') \<Rightarrow> backend_run effects (receiver_held r) = Some (receiver_held r')
   | (Inl e, r') \<Rightarrow> e \<noteq> RPanic \<and> receiver_held r' = receiver_held r"
  using receiver_step_tracks [of op now r] receiver_step_error [of op now r]
  by (auto simp: tracks_def receiver_held_def split: prod.splits sum.splits)

section \<open>Key and button edges\<close>

fun key_edge :: "ReceiverEffect \<Rightarrow> HidUsage edge option" where
  "key_edge (EffKey key pressed _) = Some (key, pressed)"
| "key_edge _ = None"

fun button_edge :: "ReceiverEffect \<Rightarrow> PointerButton edge option" where
  "button_edge (EffButton button pressed _) = Some (button, pressed)"
| "button_edge _ = None"

definition key_edges :: "ReceiverEffect list \<Rightarrow> HidUsage edge list" where
  "key_edges = List.map_filter key_edge"

definition button_edges :: "ReceiverEffect list \<Rightarrow> PointerButton edge list" where
  "button_edges = List.map_filter button_edge"

lemma key_edges_simps [simp]:
  "key_edges [] = []"
  "key_edges (e # es) = (case key_edge e of None \<Rightarrow> key_edges es | Some x \<Rightarrow> x # key_edges es)"
  by (simp_all add: key_edges_def List.map_filter_def split: option.splits)

lemma button_edges_simps [simp]:
  "button_edges [] = []"
  "button_edges (e # es) = (case button_edge e of None \<Rightarrow> button_edges es | Some x \<Rightarrow> x # button_edges es)"
  by (simp_all add: button_edges_def List.map_filter_def split: option.splits)

lemma key_edges_replay:
  "backend_run es h = Some h' \<Longrightarrow> replay_edges (key_edges es) (pressed_keys h) = Some (pressed_keys h')"
proof (induction es arbitrary: h)
  case (Cons e es)
  then obtain h1 where ap: "backend_apply e h = Some h1" and run: "backend_run es h1 = Some h'"
    by (auto simp: bind_eq_Some_conv)
  from Cons.IH [OF run] ap show ?case by (cases e) (auto simp: held_ops split: if_splits)
qed simp

lemma button_edges_replay:
  "backend_run es h = Some h' \<Longrightarrow> replay_edges (button_edges es) (pressed_buttons h) = Some (pressed_buttons h')"
proof (induction es arbitrary: h)
  case (Cons e es)
  then obtain h1 where ap: "backend_apply e h = Some h1" and run: "backend_run es h1 = Some h'"
    by (auto simp: bind_eq_Some_conv)
  from Cons.IH [OF run] ap show ?case by (cases e) (auto simp: held_ops split: if_splits)
qed simp

text \<open>A call with its time, as a step of the interface \<open>edge_machine\<close>.\<close>

fun receiver_effects :: "ReceiverOp \<times> MonotonicTimeMicros \<Rightarrow> Receiver \<Rightarrow> Receiver \<times> ReceiverEffect list" where
  "receiver_effects (op, now) r =
     (case receiver_step op now r of (Inl e, r') \<Rightarrow> (r', []) | (Inr effects, r') \<Rightarrow> (r', effects))"

definition receiver_key_step :: "ReceiverOp \<times> MonotonicTimeMicros \<Rightarrow> Receiver \<Rightarrow> Receiver \<times> HidUsage edge list" where
  "receiver_key_step i r = map_prod id key_edges (receiver_effects i r)"

definition receiver_button_step ::
  "ReceiverOp \<times> MonotonicTimeMicros \<Rightarrow> Receiver \<Rightarrow> Receiver \<times> PointerButton edge list"
where
  "receiver_button_step i r = map_prod id button_edges (receiver_effects i r)"

lemma receiver_effects_run:
  "backend_run (snd (receiver_effects i r)) (receiver_held r) = Some (receiver_held (fst (receiver_effects i r)))"
  using receiver_step_tracks [of "fst i" "snd i" r] receiver_step_error [of "fst i" "snd i" r]
  by (cases i) (auto simp: tracks_def receiver_held_def split: prod.splits sum.splits)

interpretation receiver_keys: edge_machine
  "\<lambda>r. pressed_keys (receiver_held r)" receiver_key_step "\<lambda>_. True"
  by unfold_locales (auto simp: receiver_key_step_def intro: key_edges_replay [OF receiver_effects_run])

interpretation receiver_buttons: edge_machine
  "\<lambda>r. pressed_buttons (receiver_held r)" receiver_button_step "\<lambda>_. True"
  by unfold_locales (auto simp: receiver_button_step_def intro: button_edges_replay [OF receiver_effects_run])

end
