(* ===== verification/Receiver_Safety.thy ===== *)
theory Receiver_Safety
  imports Receiver
begin

text \<open>
  What the receiver guarantees over whole runs: the order of a reconciliation, the invariant of
  every reachable receiver, the outcome of a call on the open activation, and from these the
  properties of the lease, of closed activations, of repeated control messages, of the injected
  motion and of checkpoint snapshots.
\<close>

section \<open>The invariant\<close>

text \<open>
  What holds of every receiver: the lease is within its limits; an open activation is the highest
  one and belongs to the pinned context; while it holds anything, its lease has a deadline, at most
  one lease after the last observed time.
\<close>

definition activation_wf :: "Receiver \<Rightarrow> ActivationState \<Rightarrow> bool" where
  "activation_wf r state \<longleftrightarrow>
     r_highest_activation r = Some (activation_id (a_session state)) \<and>
     r_context r = Some (session_epoch (a_session state), transport_generation (a_session state)) \<and>
     (is_neutral (a_held state) \<or> a_lease_deadline state \<noteq> None) \<and>
     (\<forall>d. a_lease_deadline state = Some d \<longrightarrow>
        d \<le> time_saturating_add (r_last_observed_time r) (held_state_lease (r_config r)))"

definition receiver_wf :: "Receiver \<Rightarrow> bool" where
  "receiver_wf r \<longleftrightarrow>
     0 < held_state_lease (r_config r) \<and> held_state_lease (r_config r) \<le> MAX_HELD_STATE_LEASE \<and>
     (\<forall>state. r_activation r = Some state \<longrightarrow> activation_wf r state)"

lemma receiver_new_wf: "receiver_new config now = Inr r \<Longrightarrow> receiver_wf r"
  by (auto simp: receiver_new_def receiver_config_new_def receiver_wf_def split: if_splits)

lemma time_saturating_add_mono: "t \<le> t' \<Longrightarrow> time_saturating_add t d \<le> time_saturating_add t' d"
  by (simp add: time_saturating_add_def saturating_add_mono)

lemma receiver_wf_time:
  assumes "receiver_wf r" and "r_last_observed_time r \<le> now"
  shows "receiver_wf (r\<lparr>r_last_observed_time := now\<rparr>)"
  using assms order_trans [OF _ time_saturating_add_mono [OF assms(2)]]
  by (fastforce simp: receiver_wf_def activation_wf_def)

lemma receiver_wf_context:
  assumes "receiver_wf r" and "r_context r = None \<or> r_context r = Some c"
  shows "receiver_wf (r\<lparr>r_context := Some c\<rparr>)"
  using assms by (auto simp: receiver_wf_def activation_wf_def)

lemma receiver_wf_close: "receiver_wf r \<Longrightarrow> receiver_wf (fst (close_activation reason r))"
  by (auto simp: close_activation_eq receiver_wf_def split: option.splits)

lemma receiver_wf_expire: "receiver_wf r \<Longrightarrow> receiver_wf (fst (expire_lease now r))"
  by (auto simp: expire_lease_def receiver_wf_close split: option.splits)

lemma receiver_wf_refresh:
  assumes "receiver_wf r" and "r_last_observed_time r = now"
    and "r_highest_activation r = Some (activation_id (a_session state))"
    and "r_context r = Some (session_epoch (a_session state), transport_generation (a_session state))"
  shows "receiver_wf (r\<lparr>r_activation := Some (refresh_lease now (held_state_lease (r_config r)) state)\<rparr>)"
  using assms by (auto simp: receiver_wf_def activation_wf_def refresh_lease_def)

lemma close_activation_simps [simp]:
  "r_activation (fst (close_activation reason r)) = None"
  "r_last_observed_time (fst (close_activation reason r)) = r_last_observed_time r"
  "r_config (fst (close_activation reason r)) = r_config r"
  "r_context (fst (close_activation reason r)) = r_context r"
  "r_highest_activation (fst (close_activation reason r)) = r_highest_activation r"
  by (auto simp: close_activation_eq split: option.splits)

lemma receiver_wf_enter:
  assumes "receiver_wf r" and "r_last_observed_time r = now"
    and "r_context r = Some (session_epoch (m_session message), transport_generation (m_session message))"
  shows "receiver_wf (fst (receive_enter message now r))"
proof -
  let ?new = "\<lambda>r1. r1\<lparr>r_highest_activation := Some (activation_id (m_session message)),
    r_activation := Some (refresh_lease now (held_state_lease (r_config r1))
      ((activation_new (m_session message))\<lparr>a_last_control_sequence := m_sequence message\<rparr>))\<rparr>"
  have new: "receiver_wf (?new r1)" if "receiver_wf r1" "r_context r1 = r_context r" for r1
    using that assms by (auto simp: receiver_wf_def activation_wf_def refresh_lease_def activation_new_def)
  show ?thesis
    using assms new [of r] new [OF receiver_wf_close [OF assms(1), of CloseSuperseded]]
    by (auto simp: receive_enter_def Let_def case_prod_beta)
qed

lemma apply_payload_session:
  "apply_payload message payload state = Applied state' effects close \<Longrightarrow> a_session state' = a_session state"
  by (induction payload) (clarsimp simp: reconcile_held_eq)+

lemma receiver_wf_apply_control:
  assumes "receiver_wf r" and "r_last_observed_time r = now" and "apply_control message now r = (res, r')"
  shows "receiver_wf r'"
  using assms(3)
proof (cases rule: apply_control_cases)
  case (applied state state1 e1 state2 e2 close)
  let ?r = "r\<lparr>r_activation := Some (refresh_lease now (held_state_lease (r_config r))
              (state2\<lparr>a_last_control_sequence := m_sequence message\<rparr>))\<rparr>"
  have "a_session state2 = a_session state"
    using anchor_stage_held(4) [OF applied(3)] apply_payload_session [OF applied(4)] by simp
  then have "receiver_wf ?r"
    using assms(1,2) applied(1) by (intro receiver_wf_refresh) (auto simp: receiver_wf_def activation_wf_def)
  with applied(5) show ?thesis
    using receiver_wf_close [of ?r] by (auto simp: finish_control_def case_prod_beta split: option.splits)
qed (use assms(1) in \<open>auto intro: receiver_wf_close\<close>)

lemma apply_playout_simps:
  "a_session (fst (apply_playout step totals state)) = a_session state"
  "a_lease_deadline (fst (apply_playout step totals state)) = a_lease_deadline state"
  "pressed_keys (a_held (fst (apply_playout step totals state))) = pressed_keys (a_held state)"
  "pressed_buttons (a_held (fst (apply_playout step totals state))) = pressed_buttons (a_held state)"
  "active_touch (a_held (fst (apply_playout step totals state))) =
     (case ps_touch_snapshot step of None \<Rightarrow> active_touch (a_held state) | Some touch \<Rightarrow> touch)"
  by (auto simp: apply_playout_def Let_def replace_touch_def split: option.splits)

lemma receiver_wf_playout:
  assumes "receiver_wf r" and "r_activation r = Some state"
    and "\<forall>touch. ps_touch_snapshot step = Some touch \<longrightarrow>
         touch_is_empty (active_touch (a_held state)) \<longrightarrow> touch_is_empty touch"
  shows "receiver_wf (r\<lparr>r_activation := Some (fst (apply_playout step totals state))\<rparr>)"
  using assms
  by (auto simp: receiver_wf_def activation_wf_def apply_playout_simps is_neutral_def split: option.splits)

lemma receive_control_wf:
  assumes "receiver_wf r" and "receive_control message now r = (res, r')"
  shows "receiver_wf r'"
proof -
  from assms(2) show ?thesis
  proof (cases rule: receive_control_cases)
    case (error e)
    with receiver_step_error [of "RControl message" now r e r'] assms show ?thesis
      by (auto intro: receiver_wf_time)
  next
    case (accepted r0)
    have wf0: "receiver_wf r0" and c0: "r_last_observed_time r0 = now"
      unfolding accepted(2)
      using receiver_wf_context [OF receiver_wf_time [OF assms(1) accepted(1)]] accepted(2,3) by auto
    obtain r1 e1 where ex: "expire_lease now r0 = (r1, e1)" by (cases "expire_lease now r0")
    have wf1: "receiver_wf r1" and t1: "r_last_observed_time r1 = now" and c1: "r_context r1 = r_context r0"
      using receiver_wf_expire [OF wf0, of now] expire_lease_simps [of now r0] ex c0 by auto
    from accepted(4) ex show ?thesis
    proof (cases rule: control_body_cases)
      case (entered e2)
      with receiver_wf_enter [OF wf1 t1, of message] c1 accepted(2) show ?thesis by simp
    next
      case (in_sequence state e2)
      with receiver_wf_apply_control [OF wf1 t1] show ?thesis by blast
    qed (use wf1 in simp)
  qed
qed

lemma receiver_step_wf:
  assumes "receiver_wf r" and "receiver_step op now r = (res, r')"
  shows "receiver_wf r'"
proof (cases "fst (receiver_step op now r)")
  case (Inl e)
  with receiver_step_error [of op now r e r'] assms show ?thesis by (auto intro: receiver_wf_time)
next
  case (Inr effects)
  show ?thesis
  proof (cases op)
    case (RControl message)
    with assms receive_control_wf show ?thesis by simp
  next
    case (RPlayout session step)
    with assms(2) have "receive_playout_step session step now r = (res, r')" by simp
    then show ?thesis
    proof (cases rule: receive_playout_step_cases)
      case (applied r1 e1 state totals)
      with receiver_wf_expire [OF receiver_wf_time [OF assms(1) applied(1)], of now] show ?thesis
        by (auto intro: receiver_wf_playout)
    next
      case (rejected r1 e1 reason)
      with receiver_wf_expire [OF receiver_wf_time [OF assms(1) rejected(1)], of now] show ?thesis by simp
    next
      case (closed r1 e1 reason)
      with receiver_wf_expire [OF receiver_wf_time [OF assms(1) closed(1)], of now] show ?thesis
        by (auto intro: receiver_wf_close)
    qed (use assms(1) in simp)
  next
    case RTick
    with assms receiver_wf_expire [OF receiver_wf_time [OF assms(1)], of now now] show ?thesis
      by (auto simp: receiver_tick_def try_then_def r_observe_time_def case_prod_beta split: if_splits)
  next
    case RConnectionLost
    with assms receiver_wf_close [OF receiver_wf_time [OF assms(1)], of now CloseLeaseExpired] show ?thesis
      by (auto simp: connection_lost_def try_then_def r_observe_time_def case_prod_beta split: if_splits)
  qed
qed

section \<open>The order of a reconciliation\<close>

definition effect_phase :: "ReceiverEffect \<Rightarrow> nat" where
  "effect_phase e =
     (case e of
        EffKey key pressed _ \<Rightarrow>
          if pressed then (if is_modifier_usage key then 2 else 3)
          else (if is_modifier_usage key then 1 else 0)
      | EffButton _ pressed _ \<Rightarrow> if pressed then 5 else 4
      | _ \<Rightarrow> 6)"

text \<open>
  Reconciliation goes through its edges in a safe order. Bringing what is held to an
  authoritative state releases ordinary keys before modifiers, then presses modifiers before
  ordinary keys (so no shortcut changes its meaning on the way), then buttons up, buttons down and
  the touch state; no edge occurs twice, and replayed on a backend the edges end exactly at the
  authoritative state.
\<close>

theorem reconcile_order:
  "sorted (map effect_phase (snd (reconcile_held state authoritative))) \<and>
   distinct (snd (reconcile_held state authoritative)) \<and>
   a_held (fst (reconcile_held state authoritative)) = authoritative \<and>
   backend_run (snd (reconcile_held state authoritative)) (a_held state) = Some authoritative"
proof -
  have "sorted (map effect_phase (reconcile_effects h h'))" for h h'
    by (auto simp: reconcile_effects_def sort_key_bool sorted_append effect_phase_def comp_def
        intro: sorted_map_const [where c = 0] sorted_map_const [where c = 1] sorted_map_const [where c = 2]
          sorted_map_const [where c = 3] sorted_map_const [where c = 4] sorted_map_const [where c = 5])
  moreover have "distinct (reconcile_effects h h')" for h h'
    by (auto simp: reconcile_effects_def sort_key_bool distinct_map inj_on_def)
  ultimately show ?thesis by (simp add: reconcile_held_eq backend_run_reconcile)
qed

section \<open>What a call does to the open activation\<close>

fun injected_motion :: "ReceiverEffect list \<Rightarrow> int \<times> int \<times> int \<times> int" where
  "injected_motion [] = (0, 0, 0, 0)"
| "injected_motion (EffMotion delta _ # es) = ints_add (delta_ints delta) (injected_motion es)"
| "injected_motion (_ # es) = injected_motion es"

lemma injected_motion_append [simp]:
  "injected_motion (es @ fs) = ints_add (injected_motion es) (injected_motion fs)"
  by (induction es rule: injected_motion.induct) (simp_all add: ints_add_assoc)

lemma injected_motion_keys [simp]:
  "injected_motion (map (\<lambda>k. EffKey k pressed syn) ks) = (0, 0, 0, 0)"
  "injected_motion (map (\<lambda>b. EffButton b pressed syn) bs) = (0, 0, 0, 0)"
  by (induction ks) (auto intro: list.induct [of _ bs])

lemma injected_motion_reconcile [simp]: "injected_motion (reconcile_effects h h') = (0, 0, 0, 0)"
  by (simp add: reconcile_effects_def)

text \<open>An activation that advances: same session, motion exactly as injected, never backwards.\<close>

definition advances :: "ActivationState \<Rightarrow> ReceiverEffect list \<Rightarrow> ActivationState \<Rightarrow> bool" where
  "advances state effects state' \<longleftrightarrow>
     a_session state' = a_session state \<and>
     motion_ints (a_injected_totals state') = ints_add (motion_ints (a_injected_totals state)) (injected_motion effects) \<and>
     a_last_injected_motion state \<le> a_last_injected_motion state' \<and>
     a_last_control_sequence state \<le> a_last_control_sequence state'"

lemma advances_refl: "advances state [] state"
  by (simp add: advances_def)

lemma advances_rejected: "advances state [Rejected session reason] state"
  by (simp add: advances_def)

lemma advances_anchor:
  assumes "anchor_stage payload state = Inr (state1, e1)"
  shows "motion_ints (a_injected_totals state1) = ints_add (motion_ints (a_injected_totals state)) (injected_motion e1)"
    and "a_last_injected_motion state \<le> a_last_injected_motion state1"
    and "a_last_control_sequence state1 = a_last_control_sequence state"
  using assms
  by (auto simp: anchor_stage_def result_then_Inr apply_anchor_def Let_def validate_anchor_def not_less
      checked_delta_from_Inr motion_checked_add_ints split: option.splits if_splits sum.splits)

lemma apply_payload_motion:
  "apply_payload message payload state = Applied state' effects close \<Longrightarrow>
     a_injected_totals state' = a_injected_totals state \<and>
     a_last_injected_motion state' = a_last_injected_motion state \<and> injected_motion effects = (0, 0, 0, 0)"
  by (induction payload) (clarsimp simp: reconcile_held_eq)+

lemma advances_playout:
  assumes "motion_checked_add (a_injected_totals state) (ps_delta step) = Inr totals"
    and "a_last_injected_motion state < ps_through_sequence step"
  shows "advances state (snd (apply_playout step totals state)) (fst (apply_playout step totals state))"
  using assms
  by (auto simp: advances_def apply_playout_def Let_def replace_touch_def motion_checked_add_ints
      split: option.splits)

lemma expire_lease_cases:
  "expire_lease now r = (r1, e1) \<Longrightarrow> r1 = r \<and> e1 = [] \<or> r_activation r1 = None"
  by (auto simp: expire_lease_def close_activation_eq split: option.splits if_splits)

text \<open>
  Every successful call ends in one of three ways: no activation is open, the open activation
  advanced, or a fresh one was opened.
\<close>

definition highest_grows :: "Receiver \<Rightarrow> Receiver \<Rightarrow> bool" where
  "highest_grows r r' \<longleftrightarrow>
     (\<forall>h. r_highest_activation r = Some h \<longrightarrow> (\<exists>h'. r_highest_activation r' = Some h' \<and> h \<le> h'))"

definition outcome :: "Receiver \<Rightarrow> ReceiverEffect list \<Rightarrow> Receiver \<Rightarrow> bool" where
  "outcome r effects r' \<longleftrightarrow>
     highest_grows r r' \<and>
     (r_activation r' = None \<or>
      (\<exists>state state'. r_activation r = Some state \<and> r_activation r' = Some state' \<and>
         r_highest_activation r' = r_highest_activation r \<and> advances state effects state') \<or>
      (\<exists>state'. r_activation r' = Some state' \<and> r_highest_activation r' = Some (activation_id (a_session state')) \<and>
         (\<forall>h. r_highest_activation r = Some h \<longrightarrow> h < activation_id (a_session state'))))"

lemma outcome_closed:
  "r_highest_activation r' = r_highest_activation r \<Longrightarrow> r_activation r' = None \<Longrightarrow> outcome r effects r'"
  by (simp add: outcome_def highest_grows_def)

lemma outcome_advances:
  "r_highest_activation r' = r_highest_activation r \<Longrightarrow> r_activation r = Some state \<Longrightarrow>
     r_activation r' = Some state' \<Longrightarrow> advances state effects state' \<Longrightarrow> outcome r effects r'"
  by (auto simp: outcome_def highest_grows_def)

lemma outcome_rejected: "outcome r [Rejected session reason] r"
  by (cases "r_activation r") (auto simp: outcome_def highest_grows_def advances_rejected)

lemma outcome_opened:
  "r_activation r' = Some state' \<Longrightarrow> r_highest_activation r' = Some (activation_id (a_session state')) \<Longrightarrow>
     (\<And>h. r_highest_activation r = Some h \<Longrightarrow> h < activation_id (a_session state')) \<Longrightarrow> outcome r e r'"
  by (auto simp: outcome_def highest_grows_def less_imp_le)

lemma outcome_enter: "receive_enter message now r = (r', e) \<Longrightarrow> outcome r e r'"
  by (auto simp: receive_enter_def Let_def refresh_lease_def activation_new_def not_le
      split: if_splits option.splits prod.splits intro: outcome_rejected outcome_opened)

lemma outcome_apply_control:
  assumes "apply_control message now r = (Inr e, r')" and "r_activation r = Some state"
    and "checked_add_u64 (a_last_control_sequence state) 1 = Some (m_sequence message)"
  shows "outcome r e r'"
  using assms(1)
proof (cases rule: apply_control_cases)
  case (applied state0 state1 e1 state2 e2 close)
  from applied(1) assms(2) have [simp]: "state0 = state" by simp
  have "advances state (e1 @ e2) (refresh_lease now (held_state_lease (r_config r))
              (state2\<lparr>a_last_control_sequence := m_sequence message\<rparr>))"
    using advances_anchor [OF applied(3)] anchor_stage_held(4) [OF applied(3)]
      apply_payload_motion [OF applied(4)] apply_payload_session [OF applied(4)] assms(3)
    by (auto simp: advances_def refresh_lease_def checked_succ_u64 word_le_nat_alt)
  with applied(5) assms(2) show ?thesis
    by (auto simp: finish_control_def close_activation_eq split: option.splits
        intro: outcome_advances outcome_closed)
qed (auto intro: outcome_rejected outcome_closed)

lemma outcome_after_lease:
  assumes "expire_lease now r0 = (r1, e1)" and "outcome r1 e r'"
    and "r_activation r0 = r_activation r" and "r_highest_activation r0 = r_highest_activation r"
  shows "outcome r (e1 @ e) r'"
  using expire_lease_cases [OF assms(1)] assms expire_lease_simps(4) [of now r0]
  by (auto simp: outcome_def highest_grows_def)

lemma receiver_step_outcome:
  assumes "receiver_step op now r = (Inr effects, r')"
  shows "outcome r effects r'"
proof (cases op)
  case (RControl message)
  with assms have "receive_control message now r = (Inr effects, r')" by simp
  then show ?thesis
  proof (cases rule: receive_control_cases)
    case (accepted r0)
    obtain r1 e1 where ex: "expire_lease now r0 = (r1, e1)" by (cases "expire_lease now r0")
    have keep: "r_activation r0 = r_activation r" "r_highest_activation r0 = r_highest_activation r"
      by (simp_all add: accepted(2))
    from accepted(4) ex show ?thesis
      by (cases rule: control_body_cases)
        (auto intro!: outcome_after_lease [OF ex _ keep] intro: outcome_rejected outcome_enter outcome_apply_control)
  qed simp
next
  case (RPlayout session step)
  with assms have "receive_playout_step session step now r = (Inr effects, r')" by simp
  then show ?thesis
    by (cases rule: receive_playout_step_cases)
      (auto intro!: outcome_after_lease [of now "r\<lparr>r_last_observed_time := now\<rparr>"]
        intro: outcome_rejected outcome_closed outcome_advances advances_playout)
next
  case RTick
  obtain r1 e1 where ex: "expire_lease now (r\<lparr>r_last_observed_time := now\<rparr>) = (r1, e1)"
    by (cases "expire_lease now (r\<lparr>r_last_observed_time := now\<rparr>)")
  have "outcome r1 [] r1" by (cases "r_activation r1") (auto simp: outcome_def highest_grows_def advances_refl)
  from outcome_after_lease [OF ex this, of r] RTick assms ex show ?thesis
    by (auto simp: receiver_tick_def try_then_def r_observe_time_def split: if_splits)
next
  case RConnectionLost
  with assms show ?thesis
    by (auto simp: connection_lost_def try_then_def r_observe_time_def case_prod_beta
        split: if_splits intro!: outcome_closed)
qed

lemma control_body_time:
  assumes "control_body message now r = (Inr e, r')"
  shows "r_last_observed_time r' = r_last_observed_time r"
proof -
  obtain r1 e1 where ex: "expire_lease now r = (r1, e1)" by (cases "expire_lease now r")
  have t1: "r_last_observed_time r1 = r_last_observed_time r" using expire_lease_simps(1) [of now r] ex by simp
  from assms ex show ?thesis
  proof (cases rule: control_body_cases)
    case (entered e2)
    then show ?thesis
      using t1 by (auto simp: receive_enter_def Let_def case_prod_beta split: if_splits)
  next
    case (in_sequence state e2)
    from in_sequence(5) show ?thesis
      by (cases rule: apply_control_cases)
        (auto simp: t1 finish_control_def close_activation_eq split: option.splits)
  qed (simp add: t1)
qed

lemma receiver_step_time:
  assumes "receiver_step op now r = (Inr out, r')"
  shows "r_last_observed_time r' = now \<and> r_last_observed_time r \<le> now"
proof (cases op)
  case (RControl message)
  with assms have "receive_control message now r = (Inr out, r')" by simp
  then show ?thesis by (cases rule: receive_control_cases) (auto dest: control_body_time)
next
  case (RPlayout session step)
  with assms have "receive_playout_step session step now r = (Inr out, r')" by simp
  then show ?thesis
    using expire_lease_simps(1) [of now "r\<lparr>r_last_observed_time := now\<rparr>"]
    by (cases rule: receive_playout_step_cases) auto
qed (use assms in \<open>auto simp: receiver_tick_def connection_lost_def try_then_def r_observe_time_def
      case_prod_beta split: if_splits\<close>)

interpretation receiver_clock: timed_machine "\<lambda>r. Some (r_last_observed_time r)" receiver_step
  by unfold_locales (auto dest: receiver_step_time receiver_step_error)

lemma advances_trans: "advances s e s' \<Longrightarrow> advances s' e' s'' \<Longrightarrow> advances s (e @ e') s''"
  by (auto simp: advances_def ints_add_assoc)

lemma highest_grows_trans: "highest_grows r r1 \<Longrightarrow> highest_grows r1 r2 \<Longrightarrow> highest_grows r r2"
  unfolding highest_grows_def by (meson order_trans)

lemma highest_grows_less:
  "highest_grows r r1 \<Longrightarrow> (\<forall>h. r_highest_activation r1 = Some h \<longrightarrow> h < a) \<Longrightarrow>
     r_highest_activation r = Some h \<Longrightarrow> h < a"
  by (force simp: highest_grows_def)

lemma outcome_refl: "outcome r [] r"
  by (cases "r_activation r") (auto simp: outcome_def highest_grows_def advances_refl)

lemma outcome_cases:
  assumes "outcome r effects r'"
  obtains (none) "r_activation r' = None"
  | (advanced) state state' where "r_activation r = Some state" "r_activation r' = Some state'"
      "r_highest_activation r' = r_highest_activation r" "advances state effects state'"
  | (opened) state' where "r_activation r' = Some state'"
      "r_highest_activation r' = Some (activation_id (a_session state'))"
      "\<forall>h. r_highest_activation r = Some h \<longrightarrow> h < activation_id (a_session state')"
  using assms by (auto simp: outcome_def)

lemma outcome_trans:
  assumes "outcome r e r1" and "outcome r1 e' r2"
  shows "outcome r (e @ e') r2"
proof -
  have grows1: "highest_grows r r1" using assms(1) by (simp add: outcome_def)
  have grows: "highest_grows r r2"
    using highest_grows_trans [OF grows1] assms(2) by (simp add: outcome_def)
  from assms(2) show ?thesis
  proof (cases rule: outcome_cases)
    case none
    with grows show ?thesis by (simp add: outcome_def)
  next
    case later: (advanced state1 state2)
    from assms(1) show ?thesis
    proof (cases rule: outcome_cases)
      case (advanced state state1')
      with later grows show ?thesis by (auto simp: outcome_def intro: advances_trans)
    next
      case (opened state1')
      with later grows show ?thesis by (auto simp: outcome_def advances_def)
    qed (use later in simp)
  next
    case (opened state2)
    have "\<forall>h. r_highest_activation r = Some h \<longrightarrow> h < activation_id (a_session state2)"
      using highest_grows_less [OF grows1 opened(3)] by blast
    with opened grows show ?thesis by (simp add: outcome_def)
  qed
qed

lemma receiver_effects_outcome: "outcome r (snd (receiver_effects i r)) (fst (receiver_effects i r))"
proof -
  obtain op now where i: "i = (op, now)" by (cases i)
  show ?thesis
  proof (cases "receiver_step op now r")
    case (Pair res r')
    show ?thesis
    proof (cases res)
      case (Inl e)
      with receiver_step_error [of op now r e r'] outcome_refl [of r] Pair i show ?thesis
        by (auto simp: outcome_def highest_grows_def)
    qed (use Pair i receiver_step_outcome in simp)
  qed
qed

abbreviation receiver_run ::
  "(ReceiverOp \<times> MonotonicTimeMicros) list \<Rightarrow> Receiver \<Rightarrow> Receiver \<times> ReceiverEffect list"
where
  "receiver_run \<equiv> run_steps receiver_effects"

lemma receiver_run_outcome: "outcome r (snd (receiver_run ops r)) (fst (receiver_run ops r))"
proof (induction ops arbitrary: r)
  case (Cons i ops)
  from outcome_trans [OF receiver_effects_outcome [of r i] Cons.IH] show ?case
    by (simp add: case_prod_beta Let_def)
qed (simp add: outcome_refl)

section \<open>Reachable receivers\<close>

inductive receiver_reachable :: "Receiver \<Rightarrow> bool" where
  start: "receiver_new config now = Inr r \<Longrightarrow> receiver_reachable r"
| step: "receiver_reachable r \<Longrightarrow> receiver_step op now r = (res, r') \<Longrightarrow> receiver_reachable r'"

lemma receiver_reachable_wf: "receiver_reachable r \<Longrightarrow> receiver_wf r"
  by (induction rule: receiver_reachable.induct) (auto intro: receiver_new_wf receiver_step_wf)

lemma receiver_run_reachable: "receiver_reachable r \<Longrightarrow> receiver_reachable (fst (receiver_run ops r))"
proof (induction ops arbitrary: r)
  case (Cons i ops)
  obtain op now where i: "i = (op, now)" by (cases i)
  obtain res r1 where st: "receiver_step op now r = (res, r1)" by (cases "receiver_step op now r")
  from Cons.IH [OF receiver_reachable.step [OF Cons.prems st]] show ?case
    using st i by (cases res) (simp_all add: case_prod_beta Let_def)
qed simp

lemma tick_exact:
  assumes "r_last_observed_time r \<le> now"
  shows "receiver_tick now r =
    (case lease_deadline r of
       Some d \<Rightarrow> if d \<le> now
         then (Inr (snd (close_activation CloseLeaseExpired r)), r\<lparr>r_last_observed_time := now, r_activation := None\<rparr>)
         else (Inr [], r\<lparr>r_last_observed_time := now\<rparr>)
     | None \<Rightarrow> (Inr [], r\<lparr>r_last_observed_time := now\<rparr>))"
  using assms
  by (auto simp: receiver_tick_def try_then_def r_observe_time_def expire_lease_def lease_deadline_def
      close_activation_eq Let_def split: option.splits)

text \<open>
  C7: Nothing stays down longer than the lease. In every reachable state, while anything is held
  there is a lease deadline, never later than one lease after the last call. A tick does nothing
  before the deadline; at the deadline or later it releases everything that is down, exactly once
  and in a legal order, reports the activation as closed with reason \<open>LeaseExpired\<close> and leaves no
  activation open.
\<close>

theorem lease_bounds_held_state:
  assumes "receiver_reachable r" and "r_last_observed_time r \<le> now"
  shows "case lease_deadline r of
      None \<Rightarrow> is_neutral (receiver_held r) \<and> receiver_tick now r = (Inr [], r\<lparr>r_last_observed_time := now\<rparr>)
    | Some d \<Rightarrow>
        d \<le> time_saturating_add (r_last_observed_time r) (held_state_lease (r_config r)) \<and>
        (if now < d then receiver_tick now r = (Inr [], r\<lparr>r_last_observed_time := now\<rparr>)
         else \<exists>effects session r'.
           receiver_tick now r = (Inr (effects @ [ActivationClosed session CloseLeaseExpired]), r') \<and>
           active_context r = Some session \<and> r_activation r' = None \<and>
           backend_run effects (receiver_held r) = Some held_default)"
proof -
  from receiver_reachable_wf [OF assms(1)] show ?thesis
    by (auto simp: tick_exact [OF assms(2)] receiver_wf_def activation_wf_def lease_deadline_def
        receiver_held_def active_context_def close_activation_eq backend_run_reconcile split: option.splits)
qed

lemma is_closed_outcome: "outcome r e r' \<Longrightarrow> is_closed r a \<Longrightarrow> is_closed r' a"
  by (auto simp: outcome_def highest_grows_def is_closed_def advances_def split: option.splits)

lemma is_closed_time [simp]:
  "is_closed (r\<lparr>r_last_observed_time := t\<rparr>) a = is_closed r a"
  "is_closed (r\<lparr>r_context := c\<rparr>) a = is_closed r a"
  by (simp_all add: is_closed_def)

lemma expire_lease_time:
  "expire_lease now (r\<lparr>r_last_observed_time := t\<rparr>) = (fst (expire_lease now r)\<lparr>r_last_observed_time := t\<rparr>, snd (expire_lease now r))"
  "expire_lease now (r\<lparr>r_context := c\<rparr>) = (fst (expire_lease now r)\<lparr>r_context := c\<rparr>, snd (expire_lease now r))"
  by (auto simp: expire_lease_def close_activation_eq split: option.splits)

text \<open>
  A message or playout step that must not be applied: its activation is closed, or it is the open
  one and has already gone past the message's sequence number.
\<close>

definition superseded :: "Receiver \<Rightarrow> ReliableControlMessage \<Rightarrow> bool" where
  "superseded r message \<longleftrightarrow>
     is_closed r (activation_id (m_session message)) \<or>
     (\<exists>state. r_activation r = Some state \<and>
        r_highest_activation r = Some (activation_id (m_session message)) \<and>
        activation_id (a_session state) = activation_id (m_session message) \<and>
        m_sequence message \<le> a_last_control_sequence state)"

lemma superseded_outcome: "outcome r e r' \<Longrightarrow> superseded r m \<Longrightarrow> superseded r' m"
  unfolding superseded_def
proof (elim disjE exE conjE)
  fix state
  assume out: "outcome r e r'" and st: "r_activation r = Some state"
    "r_highest_activation r = Some (activation_id (m_session m))"
    "activation_id (a_session state) = activation_id (m_session m)" "m_sequence m \<le> a_last_control_sequence state"
  from out show "is_closed r' (activation_id (m_session m)) \<or>
     (\<exists>state. r_activation r' = Some state \<and> r_highest_activation r' = Some (activation_id (m_session m)) \<and>
        activation_id (a_session state) = activation_id (m_session m) \<and> m_sequence m \<le> a_last_control_sequence state)"
  proof (cases rule: outcome_cases)
    case none
    with out st show ?thesis by (auto simp: outcome_def highest_grows_def is_closed_def)
  next
    case (advanced s s')
    with st show ?thesis by (auto simp: advances_def)
  next
    case (opened s')
    with st show ?thesis by (auto simp: is_closed_def)
  qed
qed (auto intro: is_closed_outcome)

lemma superseded_time [simp]:
  "superseded (r\<lparr>r_last_observed_time := t\<rparr>) m = superseded r m"
  "superseded (r\<lparr>r_context := c\<rparr>) m = superseded r m"
  by (simp_all add: superseded_def is_closed_def)

lemma superseded_expire: "superseded r m \<Longrightarrow> superseded (fst (expire_lease now r)) m"
  by (auto simp: superseded_def is_closed_def expire_lease_def close_activation_eq split: option.splits)

lemma superseded_body:
  assumes "superseded r message"
  shows "\<exists>reason. control_body message now r =
      (Inr (snd (expire_lease now r) @ [Rejected (m_session message) reason]), fst (expire_lease now r))"
  using superseded_expire [OF assms, of now]
  by (auto simp: superseded_def control_body_def receive_enter_def Let_def case_prod_beta sequence_rejection_def
      is_closed_def split: option.splits)

lemma superseded_refused:
  assumes "superseded r message" and "receive_control message now r = (Inr effects, r')"
  shows "\<exists>reason. effects = snd (expire_lease now r) @ [Rejected (m_session message) reason]"
  using assms(2)
proof (cases rule: receive_control_cases)
  case (accepted r0)
  with superseded_body [of r0 message now] assms(1) show ?thesis by (auto simp: expire_lease_time)
qed simp

text \<open>
  C9: A closed activation never comes back. Once an activation is closed (a higher one was seen, or
  it was open and has been closed for any reason), it is closed after every further sequence of
  calls, and any control message or playout step that names it is answered by a rejection and
  nothing else, apart from the releases of another activation whose lease runs out.
\<close>

theorem closed_activation_stays_closed:
  assumes "is_closed r a" and "r' = fst (receiver_run ops r)"
  shows "is_closed r' a \<and>
     (\<forall>message now. activation_id (m_session message) = a \<longrightarrow>
        (case receive_control message now r' of
           (Inl _, _) \<Rightarrow> True
         | (Inr effects, _) \<Rightarrow>
             effects = snd (expire_lease now r') @ [Rejected (m_session message) ClosedActivation])) \<and>
     (\<forall>session step now. activation_id session = a \<longrightarrow>
        (case receive_playout_step session step now r' of
           (Inl _, _) \<Rightarrow> True
         | (Inr effects, _) \<Rightarrow> effects = snd (expire_lease now r') @ [Rejected session ClosedActivation]))"
proof -
  have cl: "is_closed r' a"
    using assms receiver_run_outcome is_closed_outcome by blast
  have cl1: "is_closed (fst (expire_lease now r')) a" for now
    using cl by (auto simp: is_closed_def expire_lease_def close_activation_eq split: option.splits)
  have "effects = snd (expire_lease now r') @ [Rejected (m_session message) ClosedActivation]"
    if "receive_control message now r' = (Inr effects, r'')" "activation_id (m_session message) = a"
    for message now effects r''
    using that(1)
  proof (cases rule: receive_control_cases)
    case (accepted r0)
    with cl1 [of now] that(2) show ?thesis
      by (auto simp: control_body_def receive_enter_def Let_def case_prod_beta expire_lease_time is_closed_time
          split: if_splits)
  qed simp
  moreover have "effects = snd (expire_lease now r') @ [Rejected session ClosedActivation]"
    if "receive_playout_step session step now r' = (Inr effects, r'')" "activation_id session = a"
    for session step now effects r''
    using that cl1 [of now]
    by (auto simp: receive_playout_step_def try_then_def r_observe_time_def expire_lease_time is_closed_time
        split: if_splits)
  ultimately show ?thesis using cl by (fastforce split: prod.splits sum.splits)
qed

fun is_rejection :: "ReceiverEffect \<Rightarrow> bool" where
  "is_rejection (Rejected _ _) = True"
| "is_rejection _ = False"

lemma receiver_wf_accepted:
  assumes "receiver_wf r" and "r_last_observed_time r \<le> now"
    and "r0 = r\<lparr>r_last_observed_time := now, r_context := Some c\<rparr>"
    and "r_context r = None \<or> r_context r = r_context r0" and "expire_lease now r0 = (r1, e1)"
  shows "receiver_wf r1" "r_last_observed_time r1 = now" "r_context r1 = Some c"
proof -
  have "receiver_wf r0"
    unfolding assms(3) using receiver_wf_context [OF receiver_wf_time [OF assms(1,2)]] assms(3,4) by auto
  then show "receiver_wf r1" using receiver_wf_expire [of r0 now] assms(5) by simp
qed (use assms(3,5) expire_lease_simps [of now r0] in auto)

lemma finish_control_superseded:
  assumes "finish_control close es (r\<lparr>r_activation := Some state\<rparr>) = (Inr effects, r')"
    and "r_highest_activation r = Some (activation_id (m_session message))"
    and "activation_id (a_session state) = activation_id (m_session message)"
    and "a_last_control_sequence state = m_sequence message"
  shows "superseded r' message"
  using assms
  by (auto simp: finish_control_def close_activation_eq superseded_def is_closed_def split: option.splits)

lemma accepted_superseded:
  assumes "receiver_wf r" and "receive_control message now r = (Inr effects, r')"
    and "\<not> list_ex is_rejection effects"
  shows "superseded r' message"
  using assms(2)
proof (cases rule: receive_control_cases)
  case (accepted r0)
  obtain r1 e1 where ex: "expire_lease now r0 = (r1, e1)" by (cases "expire_lease now r0")
  note wf1 = receiver_wf_accepted [OF assms(1) accepted(1-3) ex]
  from accepted(4) ex show ?thesis
  proof (cases rule: control_body_cases)
    case (entered e2)
    with assms(3) show ?thesis
      by (auto simp: receive_enter_def Let_def superseded_def refresh_lease_def activation_new_def
          split: if_splits prod.splits)
  next
    case (in_sequence state e2)
    from in_sequence(5) show ?thesis
    proof (cases rule: apply_control_cases)
      case overflow
      with in_sequence wf1 show ?thesis
        by (auto simp: superseded_def is_closed_def close_activation_eq receiver_wf_def activation_wf_def)
    next
      case (applied state0 state1 e1 state2 e2' close)
      have "a_session state2 = a_session state0"
        using anchor_stage_held(4) [OF applied(3)] apply_payload_session [OF applied(4)] by simp
      with applied(1) in_sequence(2,3) wf1 show ?thesis
        by (intro finish_control_superseded [OF applied(5)])
          (auto simp: receiver_wf_def activation_wf_def refresh_lease_def)
    qed (use in_sequence assms(3) in auto)
  qed (use assms(3) in auto)
qed simp

text \<open>
  C10: A control message is applied at most once. If a reachable receiver takes a message without
  rejecting it, then after any further sequence of calls a second delivery of the same message is
  answered by a rejection and nothing else, apart from the releases of a lease that runs out.
\<close>

theorem control_applied_at_most_once:
  assumes "receiver_reachable r" and "receive_control message now r = (Inr effects, r')"
    and "\<not> list_ex is_rejection effects"
    and "receive_control message later (fst (receiver_run ops r')) = (Inr effects', r'')"
  shows "\<exists>reason. effects' = snd (expire_lease later (fst (receiver_run ops r'))) @
           [Rejected (m_session message) reason]"
  using superseded_refused [OF superseded_outcome [OF receiver_run_outcome] assms(4)]
    accepted_superseded [OF receiver_reachable_wf [OF assms(1)] assms(2,3)] by blast

text \<open>
  C11: Motion is injected exactly. Over any sequence of calls during which the same activation stays
  open, the receiver's injected totals move by exactly the integer sum of the motion effects it
  emitted (playout steps and anchor corrections together), and the motion sequence number it has
  reached and its control sequence number never move back.
\<close>

theorem injected_motion_is_exact:
  assumes "receiver_reachable r" and "receiver_run ops r = (r', effects)"
    and "r_activation r = Some state" and "r_activation r' = Some state'"
    and "a_session state' = a_session state"
  shows "motion_ints (a_injected_totals state') =
           ints_add (motion_ints (a_injected_totals state)) (injected_motion effects) \<and>
         a_last_injected_motion state \<le> a_last_injected_motion state' \<and>
         a_last_control_sequence state \<le> a_last_control_sequence state'"
proof -
  have "outcome r effects r'" using receiver_run_outcome [of r ops] assms(2) by simp
  then show ?thesis
  proof (cases rule: outcome_cases)
    case (opened s')
    with receiver_reachable_wf [OF assms(1)] assms(3-5) show ?thesis
      by (auto simp: receiver_wf_def activation_wf_def)
  qed (use assms(3,4) in \<open>auto simp: advances_def\<close>)
qed

text \<open>
  C8: A checkpoint snapshot makes the receiver agree with the sender. A snapshot that is next in
  sequence for the open activation, consistent with itself and not behind what was injected, is
  accepted: afterwards exactly the snapshot's controls are down (and the effects take a backend
  there legally), the injected totals are the anchor's, the lease is renewed from now, and the
  last effect acknowledges the snapshot under its sequence number and generation.
\<close>

theorem snapshot_reconciles:
  assumes "receiver_reachable r" and "r_activation r = Some state" and "m_session message = a_session state"
    and "r_last_observed_time r \<le> now" and "\<forall>d. lease_deadline r = Some d \<longrightarrow> now < d"
    and "checked_add_u64 (a_last_control_sequence state) 1 = Some (m_sequence message)"
    and "m_payload message = CtlStateSnapshot snap"
    and "an_kind (sn_motion_anchor snap) = Checkpoint"
    and "an_final_touch_state (sn_motion_anchor snap) = active_touch (sn_held snap)"
    and "an_activation_id (sn_motion_anchor snap) = activation_id (a_session state)"
    and "a_last_injected_motion state \<le> an_through_motion_sequence (sn_motion_anchor snap)"
    and "is_ok (checked_delta_from (an_totals (sn_motion_anchor snap)) (a_injected_totals state))"
  shows "\<exists>effects r' state'.
    receive_control message now r =
      (Inr (effects @ [EffSnapshotAck (a_session state)
         \<lparr>snapshot_sequence = m_sequence message,
          accepted_generation = transport_generation (a_session state)\<rparr>]), r') \<and>
    r_activation r' = Some state' \<and> a_session state' = a_session state \<and>
    a_held state' = sn_held snap \<and> backend_run effects (a_held state) = Some (sn_held snap) \<and>
    a_injected_totals state' = an_totals (sn_motion_anchor snap) \<and>
    a_last_injected_motion state' = an_through_motion_sequence (sn_motion_anchor snap) \<and>
    a_last_control_sequence state' = m_sequence message \<and>
    a_lease_deadline state' =
      (if is_neutral (sn_held snap) then None
       else Some (time_saturating_add now (held_state_lease (r_config r))))"
proof -
  let ?an = "sn_motion_anchor snap"
  from assms(12) obtain delta where delta: "checked_delta_from (an_totals ?an) (a_injected_totals state) = Inr delta"
    by (auto simp: is_ok_iff)
  have anchored: "anchor_stage (m_payload message) state = Inr (apply_anchor ?an delta state)"
    using assms(7,10,11) delta by (simp add: anchor_stage_def validate_anchor_def)
  obtain state1 e1 where ap: "apply_anchor ?an delta state = (state1, e1)" by (cases "apply_anchor ?an delta state")
  have state1: "a_session state1 = a_session state" "a_injected_totals state1 = an_totals ?an"
    "a_last_injected_motion state1 = an_through_motion_sequence ?an"
    using ap by (auto simp: apply_anchor_def Let_def split: if_splits)
  have run: "backend_run (e1 @ reconcile_effects (a_held state1) (sn_held snap)) (a_held state) = Some (sn_held snap)"
    using anchor_stage_held(1) [OF anchored [unfolded ap]] by (simp add: backend_run_append backend_run_reconcile)
  have wf: "activation_wf r state" using receiver_reachable_wf [OF assms(1)] assms(2) by (simp add: receiver_wf_def)
  have open_: "\<not> is_closed r (activation_id (m_session message))"
    using assms(2,3) by (simp add: is_closed_def)
  have seq: "sequence_rejection (a_last_control_sequence state) (m_sequence message) = None"
    using assms(6) by (auto simp: sequence_rejection_def checked_succ_u64 word_le_nat_alt)
  let ?r = "r\<lparr>r_last_observed_time := now\<rparr>"
  have ex: "expire_lease now ?r = (?r, [])"
    using assms(2,5) by (auto simp: expire_lease_def lease_deadline_def split: option.splits)
  have "receive_control message now r = control_body message now ?r"
    using assms(3,4) wf
    by (auto simp: receive_control_def try_then_def r_observe_time_def check_context_def activation_wf_def)
  also have "\<dots> = apply_control message now ?r"
    using assms(2,3,7) open_ seq ex
    by (auto simp: control_body_def split: prod.splits sum.splits)
  finally show ?thesis
    using assms(2,3,7-9) anchored ap state1 run
    by (auto simp: apply_control_def validate_transition_def reconcile_held_eq finish_control_def refresh_lease_def)
qed

section \<open>A sample run, at which the theorems above apply\<close>

definition sample_receiver_start :: Receiver where
  "sample_receiver_start = (case receiver_new \<lparr>held_state_lease = from_millis 900\<rparr> 0 of Inr r \<Rightarrow> r)"

definition sample_control :: "ControlSequence \<Rightarrow> ReliableControl \<Rightarrow> ReliableControlMessage" where
  "sample_control sequence payload = \<lparr>m_session = sample_session, m_sequence = sequence, m_payload = payload\<rparr>"

definition sample_receiver_ops :: "(ReceiverOp \<times> MonotonicTimeMicros) list" where
  "sample_receiver_ops = [(RControl (sample_control 1 Enter), 5), (RControl (sample_control 2 (KeyDown (keyboard 4))), 10)]"

definition sample_receiver :: Receiver where
  "sample_receiver = fst (receiver_run sample_receiver_ops sample_receiver_start)"

definition sample_playout :: PlayoutStep where
  "sample_playout =
     \<lparr>ps_mapped_capture_time = 12, ps_through_sequence = 3, ps_delta = \<lparr>dx = 5, dy = -2, scroll_x = 0, scroll_y = 0\<rparr>,
      ps_touch_snapshot = None, ps_target_reached = True, ps_pointer_catch_up_limited = False,
      ps_scroll_catch_up_limited = False\<rparr>"

definition sample_anchor :: MotionAnchor where
  "sample_anchor =
     \<lparr>an_activation_id = 1, an_through_motion_sequence = 3, an_sender_capture_time = 15,
      an_totals = \<lparr>total_dx = 5, total_dy = -2, total_scroll_x = 0, total_scroll_y = 0\<rparr>,
      an_final_touch_state = fmempty, an_kind = Checkpoint\<rparr>"

definition sample_snapshot :: StateSnapshot where
  "sample_snapshot =
     \<lparr>sn_held = held_default\<lparr>pressed_keys := {|keyboard 5|}\<rparr>, sn_motion_anchor = sample_anchor\<rparr>"

lemmas receiver_eval = sample_receiver_start_def sample_control_def sample_receiver_ops_def sample_session_def
  sample_playout_def sample_anchor_def sample_snapshot_def receiver_new_def receiver_config_new_def
  MAX_HELD_STATE_LEASE_def from_millis_def from_secs_def receive_control_def try_then_def r_observe_time_def
  check_context_def control_body_def expire_lease_def receive_enter_def is_closed_def activation_new_def
  refresh_lease_def sequence_rejection_def apply_control_def validate_transition_def anchor_stage_def
  finish_control_def receive_playout_step_def apply_playout_def checked_add_u64_def press_key_def
  time_saturating_add_def as_micros_def u64_of_u128_or_max_def saturating_add_u64_def is_neutral_def
  Let_def

lemma sample_receiver_eq:
  "sample_receiver =
     \<lparr>r_config = \<lparr>held_state_lease = 900000000\<rparr>, r_context = Some (replicate 16 1, 1),
      r_highest_activation = Some 1,
      r_activation = Some
        \<lparr>a_session = sample_session, a_last_control_sequence = 2,
         a_held = held_default\<lparr>pressed_keys := {|keyboard 4|}\<rparr>,
         a_last_injected_motion = 0, a_injected_totals = motion_ZERO, a_lease_deadline = Some 900010\<rparr>,
      r_last_observed_time = 10\<rparr>"
  by (simp add: sample_receiver_def receiver_eval) (simp add: word_le_nat_alt)

lemma sample_receiver_reachable: "receiver_reachable sample_receiver"
proof -
  have "receiver_new \<lparr>held_state_lease = from_millis 900\<rparr> 0 = Inr sample_receiver_start"
    by (simp add: receiver_eval)
  from receiver_run_reachable [OF receiver_reachable.start [OF this]] show ?thesis
    by (simp add: sample_receiver_def)
qed

theorem lease_bounds_held_state_witness:
  "lease_deadline sample_receiver = Some 900010 \<and>
   (\<exists>effects r'. receiver_tick 900010 sample_receiver =
      (Inr (effects @ [ActivationClosed sample_session CloseLeaseExpired]), r') \<and> r_activation r' = None)"
  using lease_bounds_held_state [OF sample_receiver_reachable, of 900010]
  by (auto simp: sample_receiver_eq lease_deadline_def active_context_def)

theorem closed_activation_stays_closed_witness:
  "is_closed sample_receiver 0 \<and>
   is_closed (fst (receiver_run [(RConnectionLost, 20)] sample_receiver)) 0"
  using closed_activation_stays_closed [of sample_receiver 0 _ "[(RConnectionLost, 20)]", OF _ refl]
  by (simp add: sample_receiver_eq is_closed_def sample_session_def)

theorem control_applied_at_most_once_witness:
  "\<exists>reason r''. receive_control (sample_control 3 (KeyUp (keyboard 4))) 30
      (snd (receive_control (sample_control 3 (KeyUp (keyboard 4))) 20 sample_receiver)) =
     (Inr [Rejected sample_session reason], r'')"
proof -
  let ?m = "sample_control 3 (KeyUp (keyboard 4))"
  let ?r' = "snd (receive_control ?m 20 sample_receiver)"
  have first: "receive_control ?m 20 sample_receiver = (Inr [EffKey (keyboard 4) False False], ?r')"
    and ex: "snd (expire_lease 30 ?r') = []" and ok: "is_ok (fst (receive_control ?m 30 ?r'))"
    by (simp_all add: sample_receiver_eq receiver_eval release_key_def)
  then obtain es r'' where again: "receive_control ?m 30 ?r' = (Inr es, r'')"
    by (metis is_ok_iff prod.collapse)
  from control_applied_at_most_once [OF sample_receiver_reachable first, of 30 "[]" es r''] again ex
  show ?thesis by (auto simp: sample_control_def)
qed

theorem injected_motion_is_exact_witness:
  "\<exists>state'. r_activation (fst (receiver_run [(RPlayout sample_session sample_playout, 20)] sample_receiver)) = Some state' \<and>
     motion_ints (a_injected_totals state') = (5, -2, 0, 0)"
proof -
  obtain r' effects where run: "receiver_run [(RPlayout sample_session sample_playout, 20)] sample_receiver = (r', effects)"
    by (cases "receiver_run [(RPlayout sample_session sample_playout, 20)] sample_receiver")
  have ev: "injected_motion (snd (receiver_run [(RPlayout sample_session sample_playout, 20)] sample_receiver)) = (5, -2, 0, 0)"
    "\<exists>state'. r_activation (fst (receiver_run [(RPlayout sample_session sample_playout, 20)] sample_receiver)) = Some state' \<and>
       a_session state' = sample_session"
    by (simp_all add: sample_receiver_eq receiver_eval motion_checked_add_def checked_add_axis_def
        checked_add_i64_def in_i64_def motion_ZERO_def delta_default_def delta_ints_def)
  then obtain state' where st: "r_activation r' = Some state'" "a_session state' = sample_session" using run by auto
  have "r_activation sample_receiver \<noteq> None" by (simp add: sample_receiver_eq)
  then obtain state where s: "r_activation sample_receiver = Some state" by blast
  then have "a_session state = sample_session" "a_injected_totals state = motion_ZERO"
    by (auto simp: sample_receiver_eq)
  with injected_motion_is_exact [OF sample_receiver_reachable run s st(1)] st ev run show ?thesis by simp
qed

theorem snapshot_reconciles_witness:
  "\<exists>effects r' state'. receive_control (sample_control 3 (CtlStateSnapshot sample_snapshot)) 20 sample_receiver = (Inr effects, r') \<and>
     r_activation r' = Some state' \<and> pressed_keys (a_held state') = {|keyboard 5|}"
proof -
  obtain state where s: "r_activation sample_receiver = Some state" "a_session state = sample_session"
    "a_last_control_sequence state = 2" "a_last_injected_motion state = 0" "a_injected_totals state = motion_ZERO"
    by (simp add: sample_receiver_eq)
  have "is_ok (checked_delta_from (an_totals (sn_motion_anchor sample_snapshot)) motion_ZERO)"
    by (simp add: checked_delta_from_ok sample_snapshot_def sample_anchor_def motion_ZERO_def in_i64_def)
  with snapshot_reconciles [OF sample_receiver_reachable s(1),
      of "sample_control 3 (CtlStateSnapshot sample_snapshot)" 20 sample_snapshot] s
  show ?thesis
    by (auto simp: sample_control_def checked_add_u64_def sample_receiver_eq lease_deadline_def
        sample_snapshot_def sample_anchor_def sample_session_def)
qed

end
