(* ===== verification/F64.thy ===== *)
theory F64
  imports Prelude "HOL-Library.Log_Nat"
begin

text \<open>
  Rust's \<open>f64\<close>: IEEE 754 binary64 with rounding to nearest, ties to even.

  A finite value is the rational number it stands for; every operation computes the exact result and
  rounds it once (\<open>round_f64\<close>), with 53 significant bits, gradual underflow below \<open>2 ^ -1022\<close> and
  overflow to infinity from \<open>2 ^ 1024\<close>. There is one zero: the code that is modelled never divides by a
  zero and never reads the sign of one. The lemmas that the components use are that rounding is
  monotonic and that it keeps integers up to \<open>2 ^ 53\<close>; \<open>hypot\<close>, which the platform's mathematical library
  computes to an unspecified precision, is a parameter of the definitions that call it.
\<close>

section \<open>Rounding to nearest, ties to even\<close>

definition half_even :: "rat \<Rightarrow> int" where
  "half_even x =
     (let n = \<lfloor>x\<rfloor>; d = x - of_int n
      in if d < 1 / 2 then n else if d > 1 / 2 then n + 1 else if even n then n else n + 1)"

text \<open>The exponent of a positive number: \<open>2 powi e \<le> x < 2 powi (e + 1)\<close>.\<close>

definition log2_floor :: "rat \<Rightarrow> int" where
  "log2_floor x = (if 1 \<le> x then bitlen \<lfloor>x\<rfloor> - 1 else - bitlen (\<lceil>1 / x\<rceil> - 1))"

definition ulp_exp :: "rat \<Rightarrow> int" where
  "ulp_exp x = max (log2_floor x - 52) (- 1074)"

definition round_at :: "int \<Rightarrow> rat \<Rightarrow> rat" where
  "round_at q x = of_int (half_even (x / 2 powi q)) * 2 powi q"

definition round_f64 :: "rat \<Rightarrow> rat" where
  "round_f64 x =
     (if x = 0 then 0 else if x < 0 then - round_at (ulp_exp (- x)) (- x) else round_at (ulp_exp x) x)"

lemma half_even_of_int [simp]: "half_even (of_int n) = n"
  by (simp add: half_even_def)

lemma half_even_bounds: "\<lfloor>x\<rfloor> \<le> half_even x" "half_even x \<le> \<lfloor>x\<rfloor> + 1"
  by (simp_all add: half_even_def Let_def)

lemma half_even_mono:
  assumes "x \<le> y"
  shows "half_even x \<le> half_even y"
proof (cases "\<lfloor>x\<rfloor> = \<lfloor>y\<rfloor>")
  case True
  then show ?thesis using assms by (auto simp: half_even_def Let_def)
next
  case False
  then have "\<lfloor>x\<rfloor> + 1 \<le> \<lfloor>y\<rfloor>" using floor_mono [OF assms] by linarith
  then show ?thesis using half_even_bounds(2) [of x] half_even_bounds(1) [of y] by linarith
qed

lemma round_at_mono: "x \<le> y \<Longrightarrow> round_at q x \<le> round_at q y"
  by (simp add: round_at_def half_even_mono divide_right_mono mult_right_mono)

lemma round_at_grid: "round_at q (of_int n * 2 powi q) = of_int n * 2 powi q"
  by (simp add: round_at_def)

lemma powi_grid: "q \<le> e \<Longrightarrow> (2 :: rat) powi e = of_int (2 ^ nat (e - q)) * 2 powi q"
proof -
  assume "q \<le> e"
  then have "(2 :: rat) powi e = 2 powi (int (nat (e - q)) + q)" by simp
  also have "\<dots> = 2 powi int (nat (e - q)) * 2 powi q" by (rule power_int_add) simp
  finally show ?thesis by (simp only: power_int_of_nat of_int_power of_int_numeral)
qed

lemma round_at_powi: "q \<le> e \<Longrightarrow> round_at q (2 powi e) = 2 powi e"
  using round_at_grid [of q "2 ^ nat (e - q)"] powi_grid [of q e] by simp

lemma log2_floor_bounds:
  assumes "0 < x"
  shows "2 powi log2_floor x \<le> x" "x < 2 powi (log2_floor x + 1)"
proof -
  have "2 powi log2_floor x \<le> x \<and> x < 2 powi (log2_floor x + 1)"
  proof (cases "1 \<le> x")
    case True
    then have pos: "0 < \<lfloor>x\<rfloor>" by linarith
    define k where "k = nat (bitlen \<lfloor>x\<rfloor> - 1)"
    have b: "bitlen \<lfloor>x\<rfloor> = int k + 1"
      using pos bitlen_nonneg [of "\<lfloor>x\<rfloor>"] bitlen_eq_zero_iff [of "\<lfloor>x\<rfloor>"] by (simp add: k_def)
    have "(2 :: int) ^ k \<le> \<lfloor>x\<rfloor>" "\<lfloor>x\<rfloor> < 2 ^ (k + 1)"
      using bitlen_bounds [OF pos] b by (auto simp: nat_add_distrib)
    then have "2 ^ k \<le> x" "x < 2 ^ (k + 1)"
      by (auto simp: le_floor_iff floor_less_iff simp del: power_Suc)
    moreover have "log2_floor x = int k" "log2_floor x + 1 = int (k + 1)"
      using True b by (auto simp: log2_floor_def)
    ultimately show ?thesis by (simp only: power_int_of_nat)
  next
    case False
    define n where "n = \<lceil>1 / x\<rceil> - 1"
    have "1 < 1 / x" using assms False by simp
    then have pos: "0 < n" by (simp add: n_def less_ceiling_iff)
    define k where "k = nat (bitlen n - 1)"
    have b: "bitlen n = int k + 1"
      using pos bitlen_nonneg [of n] bitlen_eq_zero_iff [of n] by (simp add: k_def)
    have "(2 :: int) ^ k \<le> n" "n < 2 ^ (k + 1)"
      using bitlen_bounds [OF pos] b by (auto simp: nat_add_distrib)
    then have "2 ^ k < \<lceil>1 / x\<rceil>" "\<lceil>1 / x\<rceil> \<le> 2 ^ (k + 1)" by (auto simp: n_def)
    then have lo: "2 ^ k < 1 / x" and hi: "1 / x \<le> 2 ^ (k + 1)"
      by (auto simp: less_ceiling_iff ceiling_le_iff simp del: power_Suc)
    from hi have "1 / 2 ^ (k + 1) \<le> x" using assms by (simp add: field_simps)
    moreover from lo have "x < 1 / 2 ^ k" using assms by (simp add: field_simps)
    moreover have e: "log2_floor x = - int (k + 1)" "log2_floor x + 1 = - int k"
      using False b by (auto simp: log2_floor_def n_def)
    ultimately show ?thesis
      by (simp only: e power_int_minus power_int_of_nat) (simp add: field_simps)
  qed
  then show "2 powi log2_floor x \<le> x" "x < 2 powi (log2_floor x + 1)" by auto
qed

lemma log2_floor_mono:
  assumes "0 < x" "x \<le> y"
  shows "log2_floor x \<le> log2_floor y"
proof (rule ccontr)
  assume "\<not> ?thesis"
  then have "log2_floor y + 1 \<le> log2_floor x" by simp
  then have "(2 :: rat) powi (log2_floor y + 1) \<le> 2 powi log2_floor x" by (simp add: power_int_increasing)
  then show False
    using log2_floor_bounds(2) [of y] log2_floor_bounds(1) [of x] assms by linarith
qed

lemma round_pos_mono:
  assumes "0 < x" "x \<le> y"
  shows "round_at (ulp_exp x) x \<le> round_at (ulp_exp y) y"
proof (cases "ulp_exp x = ulp_exp y")
  case True
  then show ?thesis using round_at_mono [OF assms(2)] by simp
next
  case False
  let ?e = "log2_floor y"
  have le: "log2_floor x \<le> ?e" by (rule log2_floor_mono [OF assms])
  with False have q: "ulp_exp y = ?e - 52" and less: "log2_floor x < ?e" and qx: "ulp_exp x \<le> ?e"
    by (auto simp: ulp_exp_def max_def split: if_splits)
  have "x \<le> 2 powi (log2_floor x + 1)" using log2_floor_bounds(2) [OF assms(1)] by simp
  also have "\<dots> \<le> 2 powi ?e" using less by (simp add: power_int_increasing)
  finally have "round_at (ulp_exp x) x \<le> round_at (ulp_exp x) (2 powi ?e)" by (rule round_at_mono)
  also have "\<dots> = 2 powi ?e" by (rule round_at_powi [OF qx])
  also have "\<dots> = round_at (ulp_exp y) (2 powi ?e)" using q by (simp add: round_at_powi)
  also have "\<dots> \<le> round_at (ulp_exp y) y"
    using log2_floor_bounds(1) [of y] assms by (intro round_at_mono) simp
  finally show ?thesis .
qed

lemma round_at_nonneg: "0 \<le> x \<Longrightarrow> 0 \<le> round_at q x"
  using round_at_mono [of 0 x q] round_at_grid [of q 0] by simp

lemma round_f64_0 [simp]: "round_f64 0 = 0"
  by (simp add: round_f64_def)

lemma round_f64_minus [simp]: "round_f64 (- x) = - round_f64 x"
  by (auto simp: round_f64_def)

lemma round_f64_nonneg: "0 \<le> x \<Longrightarrow> 0 \<le> round_f64 x"
  by (simp add: round_f64_def round_at_nonneg)

lemma round_f64_mono:
  assumes "x \<le> y"
  shows "round_f64 x \<le> round_f64 y"
proof -
  consider "0 < x" | "x \<le> 0" "0 \<le> y" | "y < 0" by linarith
  then show ?thesis
  proof cases
    case 1
    then show ?thesis using round_pos_mono [OF 1 assms] assms by (simp add: round_f64_def)
  next
    case 2
    then show ?thesis using round_f64_nonneg [of y] round_f64_nonneg [of "- x"] by simp
  next
    case 3
    then show ?thesis using round_pos_mono [of "- y" "- x"] assms by (simp add: round_f64_def)
  qed
qed

lemma round_f64_grid:
  assumes "x = of_int m * 2 powi q" and "0 < x" and "ulp_exp x \<le> q"
  shows "round_f64 x = x"
proof -
  have "x = of_int (m * 2 ^ nat (q - ulp_exp x)) * 2 powi ulp_exp x"
    using assms(1) powi_grid [OF assms(3)] by simp
  then show ?thesis using round_at_grid [of "ulp_exp x" "m * 2 ^ nat (q - ulp_exp x)"] assms(2)
    by (simp add: round_f64_def)
qed

lemma round_f64_powi: "- 1074 \<le> e \<Longrightarrow> round_f64 (2 powi e) = 2 powi e"
proof (rule round_f64_grid [of _ 1 e])
  assume e: "- 1074 \<le> e"
  have "log2_floor (2 powi e) \<le> e"
  proof (rule ccontr)
    assume "\<not> ?thesis"
    then have "(2 :: rat) powi (e + 1) \<le> 2 powi log2_floor (2 powi e)" by (simp add: power_int_increasing)
    also have "\<dots> \<le> 2 powi e" by (rule log2_floor_bounds) simp
    finally show False by (simp add: power_int_add)
  qed
  with e show "ulp_exp (2 powi e) \<le> e" by (simp add: ulp_exp_def)
qed simp_all

lemma round_f64_pos_int:
  assumes "0 < n" "n \<le> 2 ^ 53"
  shows "round_f64 (of_int n) = of_int n"
proof (cases "n = 2 ^ 53")
  case True
  then show ?thesis using round_f64_powi [of 53] by simp
next
  case False
  have "log2_floor (of_int n) \<le> 52"
  proof (rule ccontr)
    assume "\<not> ?thesis"
    then have "(2 :: rat) powi 53 \<le> 2 powi log2_floor (of_int n)" by (intro power_int_increasing) auto
    also have "\<dots> \<le> of_int n" using assms(1) by (intro log2_floor_bounds) simp
    finally have "(2 ^ 53 :: int) \<le> n" by simp
    with assms False show False by simp
  qed
  then have "ulp_exp (of_int n) \<le> 0" by (simp add: ulp_exp_def)
  then show ?thesis using assms(1) by (intro round_f64_grid [of _ n 0]) simp_all
qed

lemma round_f64_of_int:
  assumes "\<bar>n\<bar> \<le> 2 ^ 53"
  shows "round_f64 (of_int n) = of_int n"
proof -
  consider "0 < n" | "n = 0" | "0 < - n" by linarith
  then show ?thesis
  proof cases
    case 3
    then have "round_f64 (of_int (- n)) = of_int (- n)" using assms by (intro round_f64_pos_int) auto
    then show ?thesis by simp
  qed (use assms in \<open>auto simp: round_f64_pos_int\<close>)
qed

lemma round_f64_1 [simp]: "round_f64 1 = 1"
  using round_f64_of_int [of 1] by simp

lemma round_f64_le_double:
  assumes "2 powi - 1022 \<le> x"
  shows "round_f64 x \<le> 2 * x"
proof -
  have pos: "0 < x" using assms by (rule less_le_trans [rotated]) simp
  let ?e = "log2_floor x"
  have "- 1022 \<le> ?e"
  proof (rule ccontr)
    assume "\<not> ?thesis"
    then have "(2 :: rat) powi (?e + 1) \<le> 2 powi - 1022" by (intro power_int_increasing) auto
    with log2_floor_bounds(2) [OF pos] assms show False by linarith
  qed
  then have "ulp_exp x \<le> ?e + 1" by (simp add: ulp_exp_def)
  then have "round_at (ulp_exp x) x \<le> 2 powi (?e + 1)"
    using round_at_mono [of x "2 powi (?e + 1)" "ulp_exp x"] log2_floor_bounds(2) [OF pos]
    by (simp add: round_at_powi)
  also have "\<dots> = 2 * 2 powi ?e" by (simp add: power_int_add)
  finally show ?thesis using log2_floor_bounds(1) [OF pos] pos by (simp add: round_f64_def)
qed

section \<open>The values and their operations\<close>

datatype f64 = Finite rat | Infinite bool \<comment> \<open>whether it is negative\<close> | NaN

definition F64_LIMIT :: rat where
  "F64_LIMIT = 2 ^ 1024"

definition rounded :: "rat \<Rightarrow> f64" where
  "rounded x =
     (let r = round_f64 x
      in if F64_LIMIT \<le> r then Infinite False else if r \<le> - F64_LIMIT then Infinite True else Finite r)"

fun f_neg :: "f64 \<Rightarrow> f64" where
  "f_neg (Finite a) = Finite (- a)"
| "f_neg (Infinite s) = Infinite (\<not> s)"
| "f_neg NaN = NaN"

fun f_add :: "f64 \<Rightarrow> f64 \<Rightarrow> f64" where
  "f_add (Finite a) (Finite b) = rounded (a + b)"
| "f_add (Infinite s) (Finite b) = Infinite s"
| "f_add (Finite a) (Infinite s) = Infinite s"
| "f_add (Infinite s) (Infinite t) = (if s = t then Infinite s else NaN)"
| "f_add NaN b = NaN"
| "f_add a NaN = NaN"

definition f_sub :: "f64 \<Rightarrow> f64 \<Rightarrow> f64" where
  "f_sub a b = f_add a (f_neg b)"

fun f_mul :: "f64 \<Rightarrow> f64 \<Rightarrow> f64" where
  "f_mul (Finite a) (Finite b) = rounded (a * b)"
| "f_mul (Infinite s) (Finite b) = (if b = 0 then NaN else Infinite (s \<noteq> (b < 0)))"
| "f_mul (Finite a) (Infinite s) = (if a = 0 then NaN else Infinite ((a < 0) \<noteq> s))"
| "f_mul (Infinite s) (Infinite t) = Infinite (s \<noteq> t)"
| "f_mul NaN b = NaN"
| "f_mul a NaN = NaN"

fun f_div :: "f64 \<Rightarrow> f64 \<Rightarrow> f64" where
  "f_div (Finite a) (Finite b) =
     (if b = 0 then if a = 0 then NaN else Infinite (a < 0) else rounded (a / b))"
| "f_div (Infinite s) (Finite b) = Infinite (s \<noteq> (b < 0))"
| "f_div (Finite a) (Infinite s) = Finite 0"
| "f_div (Infinite s) (Infinite t) = NaN"
| "f_div NaN b = NaN"
| "f_div a NaN = NaN"

fun f_le :: "f64 \<Rightarrow> f64 \<Rightarrow> bool" where
  "f_le (Finite a) (Finite b) = (a \<le> b)"
| "f_le (Infinite s) (Finite b) = s"
| "f_le (Finite a) (Infinite s) = (\<not> s)"
| "f_le (Infinite s) (Infinite t) = (s \<or> \<not> t)"
| "f_le NaN b = False"
| "f_le a NaN = False"

fun f_lt :: "f64 \<Rightarrow> f64 \<Rightarrow> bool" where
  "f_lt (Finite a) (Finite b) = (a < b)"
| "f_lt (Infinite s) (Finite b) = s"
| "f_lt (Finite a) (Infinite s) = (\<not> s)"
| "f_lt (Infinite s) (Infinite t) = (s \<and> \<not> t)"
| "f_lt NaN b = False"
| "f_lt a NaN = False"

fun is_finite :: "f64 \<Rightarrow> bool" where
  "is_finite (Finite a) = True"
| "is_finite (Infinite s) = False"
| "is_finite NaN = False"

text \<open>\<open>f64::clamp\<close>, which asserts that the bounds are in order: the callers pass such bounds.\<close>

definition f_clamp :: "f64 \<Rightarrow> f64 \<Rightarrow> f64 \<Rightarrow> f64" where
  "f_clamp x lo hi = (if f_lt x lo then lo else if f_lt hi x then hi else x)"

text \<open>\<open>f64::round\<close> rounds halves away from zero.\<close>

definition round_half_away :: "rat \<Rightarrow> int" where
  "round_half_away x = (if 0 \<le> x then \<lfloor>x + 1 / 2\<rfloor> else - \<lfloor>1 / 2 - x\<rfloor>)"

fun f_round :: "f64 \<Rightarrow> f64" where
  "f_round (Finite a) = Finite (of_int (round_half_away a))"
| "f_round x = x"

fun f_ceil :: "f64 \<Rightarrow> f64" where
  "f_ceil (Finite a) = Finite (of_int \<lceil>a\<rceil>)"
| "f_ceil x = x"

text \<open>Conversions with \<open>as\<close>: to the nearest value, and back towards zero with saturation.\<close>

definition f_of_int :: "int \<Rightarrow> f64" where
  "f_of_int n = rounded (of_int n)"

definition truncate :: "rat \<Rightarrow> int" where
  "truncate x = (if 0 \<le> x then \<lfloor>x\<rfloor> else \<lceil>x\<rceil>)"

fun f_as_u64 :: "f64 \<Rightarrow> u64" where
  "f_as_u64 (Finite a) = word_of_int (max 0 (min (2 ^ 64 - 1) (truncate a)))"
| "f_as_u64 (Infinite s) = (if s then 0 else U64_MAX)"
| "f_as_u64 NaN = 0"

fun f_as_u8 :: "f64 \<Rightarrow> u8" where
  "f_as_u8 (Finite a) = word_of_int (max 0 (min 255 (truncate a)))"
| "f_as_u8 (Infinite s) = (if s then 0 else 255)"
| "f_as_u8 NaN = 0"

fun f_as_i64 :: "f64 \<Rightarrow> i64" where
  "f_as_i64 (Finite a) = word_of_int (max (- (2 ^ 63)) (min (2 ^ 63 - 1) (truncate a)))"
| "f_as_i64 (Infinite s) = (if s then word_of_int (- (2 ^ 63)) else word_of_int (2 ^ 63 - 1))"
| "f_as_i64 NaN = 0"

text \<open>
  The square root, correctly rounded: the integer square root of the number scaled to the last place of
  the result, rounded to nearest. The square root of a representable number is never half way between
  two representable numbers.
\<close>

fun isqrt :: "nat \<Rightarrow> nat" where
  "isqrt n = (if n = 0 then 0 else let r = 2 * isqrt (n div 4) in if (r + 1) ^ 2 \<le> n then r + 1 else r)"

declare isqrt.simps [simp del]

definition sqrt_rat :: "rat \<Rightarrow> rat" where
  "sqrt_rat x =
     (if x \<le> 0 then 0
      else let q = log2_floor x div 2 - 52; y = x / 4 powi q; r = isqrt (nat \<lfloor>y\<rfloor>);
               n = (if (of_nat r + 1 / 2) ^ 2 \<le> y then r + 1 else r)
           in of_nat n * 2 powi q)"

fun f_sqrt :: "f64 \<Rightarrow> f64" where
  "f_sqrt (Finite a) = (if a < 0 then NaN else Finite (sqrt_rat a))"
| "f_sqrt (Infinite s) = (if s then NaN else Infinite s)"
| "f_sqrt NaN = NaN"

lemma isqrt_spec: "isqrt n ^ 2 \<le> n \<and> n < (isqrt n + 1) ^ 2"
proof (induction n rule: isqrt.induct)
  case (1 n)
  show ?case
  proof (cases "n = 0")
    case False
    define r where "r = isqrt (n div 4)"
    have "r ^ 2 \<le> n div 4" "n div 4 < (r + 1) ^ 2" using 1 False by (auto simp: r_def)
    then have "4 * r ^ 2 \<le> n" "n < 4 * (r + 1) ^ 2" by auto
    moreover have "isqrt n = (if (2 * r + 1) ^ 2 \<le> n then 2 * r + 1 else 2 * r)"
      using False by (simp add: isqrt.simps [of n] r_def Let_def)
    ultimately show ?thesis by (auto simp: power2_eq_square algebra_simps)
  qed (simp add: isqrt.simps)
qed

section \<open>Order and exactness\<close>

lemma F64_LIMIT_gt: "2 ^ 64 < F64_LIMIT"
  unfolding F64_LIMIT_def by (rule power_strict_increasing) simp_all

lemma F64_LIMIT_pos [simp]: "0 < F64_LIMIT" "\<not> F64_LIMIT \<le> 0"
  using F64_LIMIT_gt by (auto simp: not_le)

lemma f_le_refl: "x \<noteq> NaN \<Longrightarrow> f_le x x"
  by (cases x) auto

lemma f_le_trans: "f_le x y \<Longrightarrow> f_le y z \<Longrightarrow> f_le x z"
  by (cases x; cases y; cases z) auto

lemma f_le_not_nan: "f_le x y \<Longrightarrow> x \<noteq> NaN \<and> y \<noteq> NaN"
  by (cases x; cases y) auto

lemma f_lt_iff: "f_lt x y \<longleftrightarrow> x \<noteq> NaN \<and> y \<noteq> NaN \<and> \<not> f_le y x"
  by (cases x; cases y) auto

lemma f_le_Finite: "f_le (Finite a) x \<Longrightarrow> f_le x (Finite b) \<Longrightarrow> \<exists>c. x = Finite c \<and> a \<le> c \<and> c \<le> b"
  by (cases x) auto

lemma rounded_not_nan [simp]: "rounded x \<noteq> NaN"
  by (simp add: rounded_def Let_def)

lemma rounded_mono:
  assumes "x \<le> y"
  shows "f_le (rounded x) (rounded y)"
  using round_f64_mono [OF assms] F64_LIMIT_pos by (auto simp: rounded_def Let_def)

lemma rounded_bounded: "\<bar>round_f64 x\<bar> < F64_LIMIT \<Longrightarrow> rounded x = Finite (round_f64 x)"
  by (auto simp: rounded_def Let_def)

lemma rounded_0 [simp]: "rounded 0 = Finite 0"
  by (simp add: rounded_def Let_def)

lemma rounded_int:
  assumes "\<bar>n\<bar> \<le> 2 ^ 53"
  shows "rounded (of_int n) = Finite (of_int n)"
proof -
  have "\<bar>of_int n\<bar> \<le> (2 ^ 53 :: rat)" using assms by (metis of_int_abs of_int_le_iff of_int_numeral of_int_power)
  also have "\<dots> < F64_LIMIT" by (rule less_trans [OF _ F64_LIMIT_gt]) simp
  finally show ?thesis using round_f64_of_int [OF assms] by (simp add: rounded_bounded)
qed

lemma f_of_int_exact: "\<bar>n\<bar> \<le> 2 ^ 53 \<Longrightarrow> f_of_int n = Finite (of_int n)"
  by (simp add: f_of_int_def rounded_int)

lemma f_of_int_mono: "m \<le> n \<Longrightarrow> f_le (f_of_int m) (f_of_int n)"
  by (simp add: f_of_int_def rounded_mono)

lemma f_add_mono:
  "f_le a b \<Longrightarrow> f_add c a \<noteq> NaN \<Longrightarrow> f_add c b \<noteq> NaN \<Longrightarrow> f_le (f_add c a) (f_add c b)"
  by (cases a; cases b; cases c) (auto simp: rounded_mono split: if_splits, auto simp: rounded_def Let_def)

lemma f_mul_mono:
  "f_le a b \<Longrightarrow> 0 < k \<Longrightarrow> f_le (f_mul (Finite k) a) (f_mul (Finite k) b)"
  by (cases a; cases b) (auto simp: rounded_mono, auto simp: rounded_def Let_def)

lemma round_half_away_mono: "x \<le> y \<Longrightarrow> round_half_away x \<le> round_half_away y"
proof -
  assume le: "x \<le> y"
  show ?thesis
  proof (cases "0 \<le> x \<or> y < 0")
    case True
    then show ?thesis using le by (auto simp: round_half_away_def intro!: floor_mono)
  next
    case False
    then have "0 \<le> \<lfloor>1 / 2 - x\<rfloor>" and "0 \<le> \<lfloor>y + 1 / 2\<rfloor>" by auto
    then have "- \<lfloor>1 / 2 - x\<rfloor> \<le> \<lfloor>y + 1 / 2\<rfloor>" by linarith
    with False show ?thesis by (simp add: round_half_away_def)
  qed
qed

lemma round_half_away_of_int [simp]: "round_half_away (of_int n) = n"
  unfolding round_half_away_def by (simp, linarith)

lemma truncate_of_int [simp]: "truncate (of_int n) = n"
  by (simp add: truncate_def)

lemma truncate_nonneg: "0 \<le> x \<Longrightarrow> truncate x = \<lfloor>x\<rfloor>"
  by (simp add: truncate_def)

lemma rounded_half [simp]: "rounded (1 / 2) = Finite (1 / 2)"
proof -
  have "round_f64 (1 / 2) = 1 / 2" using round_f64_powi [of "- 1"] by (simp add: power_int_minus)
  moreover have "(1 / 2 :: rat) < F64_LIMIT" by (rule less_trans [OF _ F64_LIMIT_gt]) simp
  ultimately show ?thesis by (simp add: rounded_def Let_def)
qed

lemma f_clamp_bounds:
  "f_le lo hi \<Longrightarrow> f_clamp x lo hi = NaN \<or> f_le lo (f_clamp x lo hi) \<and> f_le (f_clamp x lo hi) hi"
  by (auto simp: f_clamp_def f_lt_iff f_le_refl dest: f_le_not_nan)

lemma f_neg_mono: "f_le x y \<Longrightarrow> f_le (f_neg y) (f_neg x)"
  by (cases x; cases y) auto

lemma f_of_int_not_nan [simp]: "f_of_int n \<noteq> NaN"
  by (simp add: f_of_int_def)

lemma f_of_int_minus: "f_neg (f_of_int n) = f_of_int (- n)"
  by (simp add: f_of_int_def rounded_def Let_def, use F64_LIMIT_pos(1) in linarith)

lemma f_add_NaN [simp]: "f_add x NaN = NaN"
  by (cases x) auto

lemma f_mul_NaN [simp]: "f_mul x NaN = NaN"
  by (cases x) auto

lemma f_as_u64_round_mono:
  assumes "f_le (Finite 0) x" "f_le x y" "is_finite y"
  shows "f_as_u64 (f_round x) \<le> f_as_u64 (f_round y)"
proof -
  obtain a b where xy: "x = Finite a" "y = Finite b" and ab: "0 \<le> a" "a \<le> b"
    using assms by (cases x; cases y) auto
  have "0 \<le> round_half_away a" "round_half_away a \<le> round_half_away b"
    using ab round_half_away_mono [of a b] round_half_away_mono [of 0 a] round_half_away_of_int [of 0] by auto
  then show ?thesis by (auto simp: xy word_le_def uint_word_of_int min_def)
qed

end
