(* ===== verification/Clock.thy ===== *)
theory Clock
  imports Model F64
begin

text \<open>
  The clock mapping (\<open>src/src/core/clock.rs\<close>): a weighted affine fit of the sender's monotonic clock to the
  receiver's over a window of probe observations, and the mapping of sender timestamps with it. The
  arithmetic is that of \<open>f64\<close> (theory \<open>F64\<close>). The times and the \<open>checked_sub\<close> of the probe exchange are
  \<open>u64\<close> words; the capacity of the sample window (\<open>usize\<close>) is a natural number.
\<close>

section \<open>Configuration, samples and state\<close>

record ClockConfig =
  maximum_skew_ppm :: u32
  sample_window :: nat

datatype ClockError =
    ClockInvalidConfig string
  | ClockInvalidSample string
  | ClockNotReady
  | MappedTimeOutOfRange

definition DEFAULT_SAMPLE_WINDOW :: nat where
  "DEFAULT_SAMPLE_WINDOW = 64"

definition DEFAULT_MAXIMUM_SKEW_PPM :: u32 where
  "DEFAULT_MAXIMUM_SKEW_PPM = 1000"

definition clock_config_default :: ClockConfig where
  "clock_config_default =
     \<lparr>maximum_skew_ppm = DEFAULT_MAXIMUM_SKEW_PPM, sample_window = DEFAULT_SAMPLE_WINDOW\<rparr>"

definition clock_config_validate :: "ClockConfig \<Rightarrow> ClockError + ClockConfig" where
  "clock_config_validate c =
     (if sample_window c < 2
      then Inl (ClockInvalidConfig ''clock sample window must contain at least two observations'')
      else if maximum_skew_ppm c > 100000
      then Inl (ClockInvalidConfig ''maximum clock skew must not exceed 100000 ppm'')
      else Inr c)"

record ClockSample =
  cs_sender_time :: MonotonicTimeMicros
  cs_receiver_time :: MonotonicTimeMicros
  cs_uncertainty :: duration

definition sample_exact :: "MonotonicTimeMicros \<Rightarrow> MonotonicTimeMicros \<Rightarrow> ClockSample" where
  "sample_exact sender_time receiver_time =
     \<lparr>cs_sender_time = sender_time, cs_receiver_time = receiver_time, cs_uncertainty = 0\<rparr>"

record ProbeExchange =
  receiver_sent_at :: MonotonicTimeMicros
  sender_received_at :: MonotonicTimeMicros
  sender_echoed_at :: MonotonicTimeMicros
  receiver_received_at :: MonotonicTimeMicros

record ClockStats =
  offset_micros :: "f64 option"
  st_skew :: "f64 option"
  skew_ppm :: "f64 option"
  st_residual_error_micros :: "f64 option"

record Fit =
  sender_origin :: MonotonicTimeMicros
  receiver_origin :: MonotonicTimeMicros
  centered_intercept :: f64
  fit_skew :: f64
  residual_error_micros :: f64

record ClockMapper =
  cm_config :: ClockConfig
  cm_samples :: "ClockSample list"
  cm_fit :: "Fit option"
  cm_arrival_bootstrap :: bool

definition clock_new :: "ClockConfig \<Rightarrow> ClockError + ClockMapper" where
  "clock_new config =
     result_then (clock_config_validate config) (\<lambda>config. Inr
       \<lparr>cm_config = config, cm_samples = [], cm_fit = None, cm_arrival_bootstrap = False\<rparr>)"

definition is_ready :: "ClockMapper \<Rightarrow> bool" where
  "is_ready m \<longleftrightarrow> cm_fit m \<noteq> None"

section \<open>Free functions\<close>

definition midpoint :: "u64 \<Rightarrow> u64 \<Rightarrow> u64" where
  "midpoint start end' = start + (end' - start) div 2"

definition signed_difference :: "u64 \<Rightarrow> u64 \<Rightarrow> f64" where
  "signed_difference v origin =
     (if origin \<le> v then f_of_int (uint (v - origin)) else f_neg (f_of_int (uint (origin - v))))"

definition mapped_micros :: "Fit \<Rightarrow> MonotonicTimeMicros \<Rightarrow> f64" where
  "mapped_micros fit sender_time =
     f_add (f_add (f_of_int (uint (receiver_origin fit))) (centered_intercept fit))
       (f_mul (fit_skew fit) (signed_difference sender_time (sender_origin fit)))"

section \<open>The fit\<close>

definition F64_EPSILON :: f64 where
  "F64_EPSILON = Finite (1 / 2 ^ 52)"

definition weight :: "ClockSample \<Rightarrow> f64" where
  "weight sample =
     (let uncertainty = f_of_int (int (max (as_micros (cs_uncertainty sample)) 1))
      in f_div (Finite 1) (f_mul uncertainty uncertainty))"

text \<open>The first fold of \<open>refit\<close>: the sums of the weights and of the weighted coordinates.\<close>

definition weighted_sums :: "ClockSample \<Rightarrow> ClockSample list \<Rightarrow> f64 \<times> f64 \<times> f64" where
  "weighted_sums first samples =
     fold (\<lambda>sample (total, x, y).
         (f_add total (weight sample),
          f_add x (f_mul (weight sample) (signed_difference (cs_sender_time sample) (cs_sender_time first))),
          f_add y (f_mul (weight sample)
            (signed_difference (cs_receiver_time sample) (cs_receiver_time first)))))
       samples (Finite 0, Finite 0, Finite 0)"

text \<open>The second fold: the weighted variance and covariance about the means.\<close>

definition variances :: "ClockSample \<Rightarrow> f64 \<Rightarrow> f64 \<Rightarrow> ClockSample list \<Rightarrow> f64 \<times> f64" where
  "variances first mean_x mean_y samples =
     fold (\<lambda>sample (variance, covariance).
         let x = f_sub (signed_difference (cs_sender_time sample) (cs_sender_time first)) mean_x;
             y = f_sub (signed_difference (cs_receiver_time sample) (cs_receiver_time first)) mean_y
         in (f_add variance (f_mul (f_mul (weight sample) x) x),
             f_add covariance (f_mul (f_mul (weight sample) x) y)))
       samples (Finite 0, Finite 0)"

definition maximum_skew :: "ClockConfig \<Rightarrow> f64" where
  "maximum_skew config = f_div (f_of_int (uint (maximum_skew_ppm config))) (Finite 1000000)"

definition fitted_skew :: "ClockConfig \<Rightarrow> f64 \<Rightarrow> f64 \<Rightarrow> f64" where
  "fitted_skew config variance covariance =
     (if f_lt F64_EPSILON variance
      then f_clamp (f_div covariance variance)
             (f_sub (Finite 1) (maximum_skew config)) (f_add (Finite 1) (maximum_skew config))
      else Finite 1)"

text \<open>The loop over the residuals.\<close>

definition residual_squared :: "ClockSample \<Rightarrow> f64 \<Rightarrow> f64 \<Rightarrow> ClockSample list \<Rightarrow> f64" where
  "residual_squared first intercept skew samples =
     fold (\<lambda>sample acc.
         let x = signed_difference (cs_sender_time sample) (cs_sender_time first);
             observed = signed_difference (cs_receiver_time sample) (cs_receiver_time first);
             residual = f_sub observed (f_add intercept (f_mul skew x))
         in f_add acc (f_mul residual residual))
       samples (Finite 0)"

definition fit_of :: "ClockConfig \<Rightarrow> ClockSample \<Rightarrow> ClockSample list \<Rightarrow> Fit" where
  "fit_of config first samples =
     (let count = f_of_int (int (length samples));
          (total_weight, sum_x, sum_y) = weighted_sums first samples;
          mean_x = f_div sum_x total_weight;
          mean_y = f_div sum_y total_weight;
          (variance, covariance) = variances first mean_x mean_y samples;
          skew = fitted_skew config variance covariance;
          intercept = f_sub mean_y (f_mul skew mean_x)
      in \<lparr>sender_origin = cs_sender_time first, receiver_origin = cs_receiver_time first,
          centered_intercept = intercept, fit_skew = skew,
          residual_error_micros = f_sqrt (f_div (residual_squared first intercept skew samples) count)\<rparr>)"

definition refit :: "ClockMapper \<Rightarrow> ClockMapper" where
  "refit m =
     (case cm_samples m of
        [] \<Rightarrow> m\<lparr>cm_fit := None\<rparr>
      | first # _ \<Rightarrow> m\<lparr>cm_fit := Some (fit_of (cm_config m) first (cm_samples m))\<rparr>)"

section \<open>Methods\<close>

definition ingest_sample :: "ClockSample \<Rightarrow> ClockMapper \<Rightarrow> (ClockError + unit) \<times> ClockMapper" where
  "ingest_sample sample m =
     (if as_micros (cs_uncertainty sample) > 2 ^ 64 - 1
      then (Inl (ClockInvalidSample ''clock sample uncertainty does not fit in microseconds''), m)
      else
        let samples = (if length (cm_samples m) = sample_window (cm_config m)
                       then tl (cm_samples m) else cm_samples m) @ [sample]
        in (Inr (), refit (m\<lparr>cm_samples := samples, cm_arrival_bootstrap := False\<rparr>)))"

definition bootstrap_from_arrival ::
  "MonotonicTimeMicros \<Rightarrow> MonotonicTimeMicros \<Rightarrow> ClockMapper \<Rightarrow> (ClockError + unit) \<times> ClockMapper"
where
  "bootstrap_from_arrival sender_time receiver_time m =
     (if is_ready m then (Inl (ClockInvalidSample ''arrival bootstrap requires an empty clock fit''), m)
      else try_then (ingest_sample (sample_exact sender_time receiver_time))
             (\<lambda>_ m. (Inr (), m\<lparr>cm_arrival_bootstrap := True\<rparr>)) m)"

definition ingest_probe :: "ProbeExchange \<Rightarrow> ClockMapper \<Rightarrow> (ClockError + unit) \<times> ClockMapper" where
  "ingest_probe probe m =
     (case checked_sub_u64 (receiver_received_at probe) (receiver_sent_at probe) of
        None \<Rightarrow> (Inl (ClockInvalidSample ''receiver probe clock moved backwards''), m)
      | Some receiver_round_trip \<Rightarrow>
        (case checked_sub_u64 (sender_echoed_at probe) (sender_received_at probe) of
           None \<Rightarrow> (Inl (ClockInvalidSample ''sender probe clock moved backwards''), m)
         | Some sender_processing \<Rightarrow>
            if sender_processing > receiver_round_trip
            then (Inl (ClockInvalidSample ''sender processing exceeded receiver round trip''), m)
            else
              let sample =
                \<lparr>cs_sender_time = midpoint (sender_received_at probe) (sender_echoed_at probe),
                 cs_receiver_time = midpoint (receiver_sent_at probe) (receiver_received_at probe),
                 cs_uncertainty = from_micros (unat ((receiver_round_trip - sender_processing) div 2))\<rparr>;
                m' = (if cm_arrival_bootstrap m then m\<lparr>cm_samples := [], cm_fit := None\<rparr> else m)
              in ingest_sample sample m'))"

definition clock_map :: "ClockMapper \<Rightarrow> MonotonicTimeMicros \<Rightarrow> ClockError + MonotonicTimeMicros" where
  "clock_map m sender_time =
     (case cm_fit m of
        None \<Rightarrow> Inl ClockNotReady
      | Some fit \<Rightarrow>
          (let mapped = mapped_micros fit sender_time
           in if \<not> is_finite mapped \<or> \<not> (f_le (Finite 0) mapped \<and> f_le mapped (f_of_int (2 ^ 64 - 1)))
              then Inl MappedTimeOutOfRange
              else Inr (f_as_u64 (f_round mapped))))"

definition clock_stats :: "ClockMapper \<Rightarrow> ClockStats" where
  "clock_stats m =
     \<lparr>offset_micros = map_option (\<lambda>fit. f_sub
          (f_add (f_of_int (uint (receiver_origin fit))) (centered_intercept fit))
          (f_mul (fit_skew fit) (f_of_int (uint (sender_origin fit))))) (cm_fit m),
      st_skew = map_option fit_skew (cm_fit m),
      skew_ppm = map_option (\<lambda>fit. f_mul (f_sub (fit_skew fit) (Finite 1)) (Finite 1000000)) (cm_fit m),
      st_residual_error_micros = map_option residual_error_micros (cm_fit m)\<rparr>"

text \<open>The calls that change the mapper, as one step function.\<close>

datatype ClockOp =
    ClockBootstrap MonotonicTimeMicros MonotonicTimeMicros
  | ClockIngestSample ClockSample
  | ClockIngestProbe ProbeExchange

fun clock_step :: "ClockOp \<Rightarrow> ClockMapper \<Rightarrow> (ClockError + unit) \<times> ClockMapper" where
  "clock_step (ClockBootstrap s r) m = bootstrap_from_arrival s r m"
| "clock_step (ClockIngestSample sample) m = ingest_sample sample m"
| "clock_step (ClockIngestProbe probe) m = ingest_probe probe m"

section \<open>Invariant\<close>

definition skew_low :: "ClockConfig \<Rightarrow> f64" where
  "skew_low config = f_sub (Finite 1) (maximum_skew config)"

definition skew_high :: "ClockConfig \<Rightarrow> f64" where
  "skew_high config = f_add (Finite 1) (maximum_skew config)"

text \<open>
  What every call keeps: the window is bounded, there is a fit exactly if there is a sample, and its
  skew is within the configured bounds (or not a number, in which case nothing can be mapped).
\<close>

definition clock_wf :: "ClockMapper \<Rightarrow> bool" where
  "clock_wf m \<longleftrightarrow>
     is_ok (clock_config_validate (cm_config m)) \<and>
     length (cm_samples m) \<le> sample_window (cm_config m) \<and>
     (cm_fit m = None \<longleftrightarrow> cm_samples m = []) \<and>
     (\<forall>fit. cm_fit m = Some fit \<longrightarrow> fit_skew fit = NaN \<or>
        f_le (skew_low (cm_config m)) (fit_skew fit) \<and> f_le (fit_skew fit) (skew_high (cm_config m)))"

lemma maximum_skew_bounds:
  assumes "is_ok (clock_config_validate config)"
  shows "\<exists>s. maximum_skew config = Finite s \<and> 0 \<le> s \<and> s \<le> 1 / 2"
proof -
  define n where "n = uint (maximum_skew_ppm config)"
  have "maximum_skew_ppm config \<le> 100000"
    using assms by (auto simp: clock_config_validate_def split: if_splits)
  then have n: "0 \<le> n" "n \<le> 100000" by (simp_all add: word_le_def n_def)
  then have e: "maximum_skew config = rounded (of_int n / 1000000)"
    by (simp add: maximum_skew_def f_of_int_exact flip: n_def)
  have "of_int n / 1000000 \<le> (1 / 2 :: rat)" "(0 :: rat) \<le> of_int n / 1000000"
    using n by (auto simp: field_simps)
  then have "f_le (Finite 0) (maximum_skew config)" "f_le (maximum_skew config) (Finite (1 / 2))"
    unfolding e using rounded_mono rounded_0 rounded_half by metis+
  then show ?thesis using f_le_Finite by blast
qed

lemma skew_low_pos:
  assumes "is_ok (clock_config_validate config)"
  shows "f_le (Finite (1 / 2)) (skew_low config)" "f_le (skew_low config) (Finite 1)"
    "f_le (Finite 1) (skew_high config)" "f_le (skew_high config) (Finite 2)"
proof -
  obtain s where s: "maximum_skew config = Finite s" "0 \<le> s" "s \<le> 1 / 2"
    using maximum_skew_bounds [OF assms] by blast
  have "f_le (rounded (1 / 2)) (rounded (1 - s))" "f_le (rounded (1 - s)) (rounded 1)"
    "f_le (rounded 1) (rounded (1 + s))" "f_le (rounded (1 + s)) (rounded 2)"
    by (rule rounded_mono, use s in linarith)+
  moreover have "rounded 1 = Finite 1" "rounded 2 = Finite 2"
    using rounded_int [of 1] rounded_int [of 2] by simp_all
  ultimately show "f_le (Finite (1 / 2)) (skew_low config)" "f_le (skew_low config) (Finite 1)"
    "f_le (Finite 1) (skew_high config)" "f_le (skew_high config) (Finite 2)"
    by (simp_all add: skew_low_def skew_high_def f_sub_def s)
qed

lemma fitted_skew_bounds:
  assumes "is_ok (clock_config_validate config)"
  shows "fitted_skew config v c = NaN \<or>
    f_le (skew_low config) (fitted_skew config v c) \<and> f_le (fitted_skew config v c) (skew_high config)"
  using f_clamp_bounds [of "skew_low config" "skew_high config" "f_div c v"]
    skew_low_pos [OF assms] f_le_trans [of "skew_low config" "Finite 1" "skew_high config"]
  by (auto simp: fitted_skew_def skew_low_def skew_high_def)

lemma fit_of_skew: "\<exists>v c. fit_skew (fit_of config first samples) = fitted_skew config v c"
  by (auto simp: fit_of_def Let_def split: prod.splits)

lemma fit_of_origins [simp]:
  "sender_origin (fit_of config first samples) = cs_sender_time first"
  "receiver_origin (fit_of config first samples) = cs_receiver_time first"
  by (auto simp: fit_of_def Let_def split: prod.splits)

lemma clock_new_wf: "clock_new config = Inr m \<Longrightarrow> clock_wf m"
  by (auto simp: clock_new_def clock_wf_def result_then_Inr clock_config_validate_def split: if_splits)

lemma refit_wf:
  assumes "is_ok (clock_config_validate (cm_config m))" "length (cm_samples m) \<le> sample_window (cm_config m)"
  shows "clock_wf (refit m)"
proof (cases "cm_samples m")
  case Nil
  then show ?thesis using assms by (simp add: refit_def clock_wf_def)
next
  case (Cons first rest)
  obtain v c where "fit_skew (fit_of (cm_config m) first (cm_samples m)) = fitted_skew (cm_config m) v c"
    using fit_of_skew by blast
  with fitted_skew_bounds [OF assms(1), of v c] show ?thesis
    using assms Cons by (simp add: refit_def clock_wf_def)
qed

lemma ingest_sample_wf: "clock_wf m \<Longrightarrow> clock_wf (snd (ingest_sample sample m))"
  by (auto simp: ingest_sample_def Let_def clock_config_validate_def clock_wf_def [of m]
      intro!: refit_wf split: if_splits)

lemma clock_wf_bootstrap_flag [simp]: "clock_wf (m\<lparr>cm_arrival_bootstrap := b\<rparr>) = clock_wf m"
  by (simp add: clock_wf_def)

lemma clock_step_wf: "clock_wf m \<Longrightarrow> clock_wf (snd (clock_step op m))"
proof (cases op)
  case (ClockIngestProbe probe)
  assume wf: "clock_wf m"
  then have "clock_wf (m\<lparr>cm_samples := [], cm_fit := None\<rparr>)" by (simp add: clock_wf_def)
  with wf show ?thesis
    by (simp add: ClockIngestProbe ingest_probe_def Let_def ingest_sample_wf split: option.splits)
next
  case (ClockBootstrap s r)
  assume "clock_wf m"
  then have "clock_wf (snd (ingest_sample (sample_exact s r) m))" by (rule ingest_sample_wf)
  with \<open>clock_wf m\<close> show ?thesis
    by (auto simp: ClockBootstrap bootstrap_from_arrival_def try_then_def split: prod.splits sum.splits)
qed (simp add: ingest_sample_wf)

lemma clock_steps_wf: "clock_wf m \<Longrightarrow> clock_wf (fold (\<lambda>op. snd \<circ> clock_step op) ops m)"
  by (induction ops arbitrary: m) (auto simp: clock_step_wf)

section \<open>Mapping\<close>

lemma signed_difference_eq: "signed_difference v origin = f_of_int (uint v - uint origin)"
  by (auto simp: signed_difference_def f_of_int_minus uint_sub_lem [THEN iffD1] word_le_def)

lemma signed_difference_mono: "u \<le> v \<Longrightarrow> f_le (signed_difference u origin) (signed_difference v origin)"
  by (simp add: signed_difference_eq f_of_int_mono word_le_def)

lemma mapped_micros_mono:
  assumes "t \<le> t'" and "fit_skew fit = Finite k" and "0 < k"
    and "mapped_micros fit t \<noteq> NaN" and "mapped_micros fit t' \<noteq> NaN"
  shows "f_le (mapped_micros fit t) (mapped_micros fit t')"
proof -
  have "f_le (f_mul (fit_skew fit) (signed_difference t (sender_origin fit)))
             (f_mul (fit_skew fit) (signed_difference t' (sender_origin fit)))"
    using assms signed_difference_mono by (simp add: f_mul_mono)
  then show ?thesis using assms(4,5) unfolding mapped_micros_def by (rule f_add_mono)
qed

lemma clock_map_Inr:
  "clock_map m t = Inr r \<longleftrightarrow>
     (\<exists>fit. cm_fit m = Some fit \<and> is_finite (mapped_micros fit t) \<and> f_le (Finite 0) (mapped_micros fit t) \<and>
        f_le (mapped_micros fit t) (f_of_int (2 ^ 64 - 1)) \<and> r = f_as_u64 (f_round (mapped_micros fit t)))"
  by (auto simp: clock_map_def Let_def split: option.splits)

lemma wf_skew_finite:
  assumes "clock_wf m" and "cm_fit m = Some fit" and "fit_skew fit \<noteq> NaN"
  shows "\<exists>k. fit_skew fit = Finite k \<and> 1 / 2 \<le> k \<and> k \<le> 2"
proof -
  have ok: "is_ok (clock_config_validate (cm_config m))" using assms(1) by (simp add: clock_wf_def)
  have "f_le (skew_low (cm_config m)) (fit_skew fit)" "f_le (fit_skew fit) (skew_high (cm_config m))"
    using assms by (auto simp: clock_wf_def)
  then have "f_le (Finite (1 / 2)) (fit_skew fit)" "f_le (fit_skew fit) (Finite 2)"
    using skew_low_pos [OF ok] f_le_trans by blast+
  then show ?thesis using f_le_Finite by blast
qed

lemma clock_map_mono:
  assumes wf: "clock_wf m" and "clock_map m t = Inr r" and "clock_map m t' = Inr r'" and "t \<le> t'"
  shows "r \<le> r'"
proof -
  obtain fit where fit: "cm_fit m = Some fit"
    and f: "is_finite (mapped_micros fit t)" "f_le (Finite 0) (mapped_micros fit t)"
      "r = f_as_u64 (f_round (mapped_micros fit t))"
    and f': "is_finite (mapped_micros fit t')" "r' = f_as_u64 (f_round (mapped_micros fit t'))"
    using assms(2,3) by (auto simp: clock_map_Inr)
  have nan: "mapped_micros fit t \<noteq> NaN" "mapped_micros fit t' \<noteq> NaN" using f f' by auto
  then have "fit_skew fit \<noteq> NaN" by (auto simp: mapped_micros_def)
  then obtain k where "fit_skew fit = Finite k" "0 < k"
    using wf_skew_finite [OF wf fit] by force
  then show ?thesis
    using mapped_micros_mono [OF assms(4)] nan f f' by (auto intro!: f_as_u64_round_mono)
qed

section \<open>Properties\<close>

lemma rounded_1 [simp]: "rounded 1 = Finite 1"
  using rounded_int [of 1] by simp

lemma f_of_int_simps [simp]: "f_of_int 0 = Finite 0" "f_of_int 1 = Finite 1"
  using f_of_int_exact [of 0] f_of_int_exact [of 1] by simp_all

lemma fit_of_single:
  "fit_of config (sample_exact s r) [sample_exact s r] =
     \<lparr>sender_origin = s, receiver_origin = r, centered_intercept = Finite 0, fit_skew = Finite 1,
      residual_error_micros = Finite 0\<rparr>"
proof -
  have w: "weight (sample_exact s r) = Finite 1"
    by (simp add: weight_def sample_exact_def as_micros_def)
  have d: "signed_difference v v = Finite 0" for v by (simp add: signed_difference_eq)
  show ?thesis
    by (simp add: fit_of_def weighted_sums_def variances_def residual_squared_def w d f_sub_def fitted_skew_def
        F64_EPSILON_def sqrt_rat_def Let_def) (simp add: sample_exact_def)
qed

lemma bootstrap_fit:
  assumes "\<not> is_ready m" and "clock_wf m"
  shows "cm_fit (snd (bootstrap_from_arrival s r m)) =
     Some \<lparr>sender_origin = s, receiver_origin = r, centered_intercept = Finite 0, fit_skew = Finite 1,
           residual_error_micros = Finite 0\<rparr>"
proof -
  have "cm_samples m = []" using assms by (auto simp: clock_wf_def is_ready_def)
  moreover have "0 < sample_window (cm_config m)"
    using assms(2) by (auto simp: clock_wf_def clock_config_validate_def split: if_splits)
  moreover have "as_micros (cs_uncertainty (sample_exact s r)) = 0"
    by (simp add: sample_exact_def as_micros_def)
  ultimately show ?thesis
    using assms(1) fit_of_single [of "cm_config m" s r]
    by (simp add: bootstrap_from_arrival_def try_then_def ingest_sample_def refit_def)
qed

lemma bootstrap_exact:
  assumes "clock_wf m" and "\<not> is_ready m" and "uint r \<le> 2 ^ 52"
    and "\<bar>uint t - uint s\<bar> \<le> 2 ^ 52" and "0 \<le> uint r + (uint t - uint s)"
  shows "fst (bootstrap_from_arrival s r m) = Inr () \<and>
         clock_map (snd (bootstrap_from_arrival s r m)) t = Inr (r + (t - s))"
proof -
  define a d where "a = uint r" and "d = uint t - uint s"
  have a: "0 \<le> a" "a \<le> 2 ^ 52" and d: "\<bar>d\<bar> \<le> 2 ^ 52" and n: "0 \<le> a + d" "a + d \<le> 2 ^ 53"
    using assms(3-5) by (auto simp: a_def d_def)
  have exact: "rounded (of_int a) = Finite (of_int a)" "rounded (of_int d) = Finite (of_int d)"
    "rounded (of_int (a + d)) = Finite (of_int (a + d))"
    using a d n by (auto intro!: rounded_int simp del: of_int_add)
  obtain fit where fit: "cm_fit (snd (bootstrap_from_arrival s r m)) = Some fit"
    and parts: "receiver_origin fit = r" "sender_origin fit = s" "centered_intercept fit = Finite 0"
      "fit_skew fit = Finite 1"
    using bootstrap_fit [OF assms(2,1), of s r] by auto
  have mapped: "mapped_micros fit t = Finite (of_int (a + d))"
    using exact by (simp add: mapped_micros_def signed_difference_eq parts f_of_int_def flip: a_def d_def)
  have "f_le (f_of_int (a + d)) (f_of_int (2 ^ 64 - 1))" using n by (intro f_of_int_mono) simp
  then have "f_le (Finite (of_int (a + d))) (f_of_int (2 ^ 64 - 1))"
    using exact(3) by (simp only: f_of_int_def)
  moreover have "f_as_u64 (f_round (Finite (of_int (a + d)))) = word_of_int (a + d)"
    using n by (simp del: of_int_add add: min_def max_def)
  moreover have "word_of_int (a + d) = r + (t - s)"
    by (simp add: a_def d_def flip: wi_hom_syms)
  moreover have "fst (bootstrap_from_arrival s r m) = Inr ()"
    using assms(2) by (simp add: bootstrap_from_arrival_def try_then_def ingest_sample_def sample_exact_def
        as_micros_def Let_def)
  ultimately show ?thesis using fit mapped n by (simp add: clock_map_def Let_def del: of_int_add)
qed


text \<open>A mapper on which the properties are evaluated.\<close>

definition sample_clock :: ClockMapper where
  "sample_clock = \<lparr>cm_config = clock_config_default, cm_samples = [], cm_fit = None, cm_arrival_bootstrap = False\<rparr>"

lemma sample_clock_new: "clock_new clock_config_default = Inr sample_clock"
  by (simp add: clock_new_def clock_config_validate_def clock_config_default_def sample_clock_def
      DEFAULT_SAMPLE_WINDOW_def DEFAULT_MAXIMUM_SKEW_PPM_def word_less_def)

lemma sample_clock_ready: "\<not> is_ready sample_clock"
  by (simp add: is_ready_def sample_clock_def)

text \<open>
  C21: The clock mapping never reorders times and its memory is bounded. From a fresh mapper, after any
  sequence of bootstraps, samples and probes, at most \<open>sample_window\<close> observations are kept, and two sender
  times that both map do so in order, whatever the rounding of the fit did: an event captured later is
  never scheduled before an earlier one by the same fit.
\<close>

theorem clock_mapping_is_monotone:
  assumes "clock_new config = Inr fresh" and "m = fold (\<lambda>op. snd \<circ> clock_step op) ops fresh"
  shows "length (cm_samples m) \<le> sample_window (cm_config m) \<and>
         (\<forall>t t' r r'. clock_map m t = Inr r \<and> clock_map m t' = Inr r' \<and> t \<le> t' \<longrightarrow> r \<le> r')"
proof -
  have "clock_wf m" using clock_steps_wf [OF clock_new_wf [OF assms(1)]] assms(2) by simp
  moreover from this have "length (cm_samples m) \<le> sample_window (cm_config m)"
    by (simp add: clock_wf_def)
  ultimately show ?thesis using clock_map_mono by blast
qed

theorem clock_mapping_is_monotone_witness:
  "let m = fold (\<lambda>op. snd \<circ> clock_step op) [ClockBootstrap 1000 5000] sample_clock in
     length (cm_samples m) \<le> sample_window (cm_config m) \<and>
     clock_map m 1500 = Inr 5500 \<and> clock_map m 2500 = Inr 6500 \<and> (5500 :: u64) \<le> 6500"
  using clock_mapping_is_monotone [OF sample_clock_new refl, of "[ClockBootstrap 1000 5000]"]
    bootstrap_exact [OF clock_new_wf [OF sample_clock_new] sample_clock_ready, of 5000 1500 1000]
    bootstrap_exact [OF clock_new_wf [OF sample_clock_new] sample_clock_ready, of 5000 2500 1000]
  by (simp add: Let_def)

text \<open>
  The first motion arrival gives an exact mapping. A mapper without a fit that is bootstrapped with a
  sender time and a receiver time accepts it, and from then on (until the first probe) maps every sender
  time to the receiver time shifted by the exact difference, as long as the times are below \<open>2 ^ 52\<close>
  microseconds (over 140 years), where \<open>f64\<close> holds every integer.
\<close>

theorem bootstrap_mapping_is_exact:
  assumes "clock_wf m" and "\<not> is_ready m" and "uint r \<le> 2 ^ 52"
    and "\<bar>uint t - uint s\<bar> \<le> 2 ^ 52" and "0 \<le> uint r + (uint t - uint s)"
  shows "fst (bootstrap_from_arrival s r m) = Inr () \<and>
         clock_map (snd (bootstrap_from_arrival s r m)) t = Inr (r + (t - s))"
  using assms by (rule bootstrap_exact)

theorem bootstrap_mapping_is_exact_witness:
  "fst (bootstrap_from_arrival 1000 5000 sample_clock) = Inr () \<and>
   clock_map (snd (bootstrap_from_arrival 1000 5000 sample_clock)) 1500 = Inr 5500"
  using bootstrap_mapping_is_exact [OF clock_new_wf [OF sample_clock_new] sample_clock_ready, of 5000 1500 1000]
  by simp

end
