(* ===== verification/Playout.thy ===== *)
theory Playout
  imports Clock
begin

text \<open>
  The receiver's playout (\<open>src/src/core/playout.rs\<close>): a queue of cumulative motion frames, the adaptive
  delay, the choice of the newest mature target and the bounded steps towards it.

  Every public method is a definition \<open>ReceiverPlayout \<Rightarrow> (PlayoutError + result) \<times> ReceiverPlayout\<close>; an
  error keeps what the method changed before it failed. \<open>f64::hypot\<close>, whose precision the platform
  leaves open, is the parameter \<open>hyp\<close>; sums of \<open>i64\<close> wrap, as in a release build. Counts (\<open>usize\<close>) are
  natural numbers.
\<close>

section \<open>Configuration and errors\<close>

datatype PlayoutDelayMode = Fixed | Adaptive

record CatchUpConfig =
  speedup :: f64
  minimum_step :: u64
  maximum_step :: u64
  velocity_sample_weight :: f64

definition catch_up_default :: CatchUpConfig where
  "catch_up_default = \<lparr>speedup = Finite 3, minimum_step = 5, maximum_step = 60,
     velocity_sample_weight = rounded (1 / 10)\<rparr>"

record PlayoutConfig =
  delay_mode :: PlayoutDelayMode
  fixed_delay :: duration
  adaptive_percentile :: u8
  minimum_delay :: duration
  maximum_delay :: duration
  scheduler_margin :: duration
  delay_sample_window :: nat
  delay_sample_max_age :: duration
  growth_divisor :: u32
  contraction_divisor :: u32
  scheduler_tick :: duration
  maximum_queued_frames :: nat
  catch_up :: CatchUpConfig

definition DEFAULT_FIXED_DELAY :: duration where
  "DEFAULT_FIXED_DELAY = from_millis 8"

definition DEFAULT_MINIMUM_DELAY :: duration where
  "DEFAULT_MINIMUM_DELAY = from_millis 3"

definition DEFAULT_MAXIMUM_DELAY :: duration where
  "DEFAULT_MAXIMUM_DELAY = from_millis 35"

definition DEFAULT_SCHEDULER_MARGIN :: duration where
  "DEFAULT_SCHEDULER_MARGIN = from_millis 2"

definition DEFAULT_DELAY_SAMPLE_AGE :: duration where
  "DEFAULT_DELAY_SAMPLE_AGE = from_secs 3"

definition DEFAULT_SCHEDULER_TICK :: duration where
  "DEFAULT_SCHEDULER_TICK = from_millis 1"

definition playout_config_default :: PlayoutConfig where
  "playout_config_default =
     \<lparr>delay_mode = Adaptive, fixed_delay = DEFAULT_FIXED_DELAY, adaptive_percentile = 80,
      minimum_delay = DEFAULT_MINIMUM_DELAY, maximum_delay = DEFAULT_MAXIMUM_DELAY,
      scheduler_margin = DEFAULT_SCHEDULER_MARGIN, delay_sample_window = 256,
      delay_sample_max_age = DEFAULT_DELAY_SAMPLE_AGE, growth_divisor = 1, contraction_divisor = 16,
      scheduler_tick = DEFAULT_SCHEDULER_TICK, maximum_queued_frames = 4096, catch_up = catch_up_default\<rparr>"

datatype PlayoutError =
    PInvalidConfig string
  | PClock ClockError
  | PMotionOverflow MotionOverflow
  | PSessionMismatch
  | PReceiverClockMovedBackwards
  | PControlWatermarkMovedBackwards
  | PCaptureTimeMovedBackwards
  | PConflictingMotionSequence
  | PQueueFull
  | PRebaseMovedBackwards

definition duration_micros :: "duration \<Rightarrow> PlayoutError + u64" where
  "duration_micros d =
     (if as_micros d < 2 ^ 64 then Inr (of_nat (as_micros d))
      else Inl (PInvalidConfig ''duration does not fit in microseconds''))"

definition playout_config_validate :: "PlayoutConfig \<Rightarrow> PlayoutError + PlayoutConfig" where
  "playout_config_validate c =
     (if \<not> (1 \<le> adaptive_percentile c \<and> adaptive_percentile c \<le> 100)
      then Inl (PInvalidConfig ''adaptive percentile must be in 1..=100'')
      else if minimum_delay c > maximum_delay c
      then Inl (PInvalidConfig ''minimum playout delay exceeds maximum delay'')
      else if delay_sample_window c = 0 \<or> maximum_queued_frames c = 0
      then Inl (PInvalidConfig ''playout windows and queues must not be empty'')
      else if delay_sample_max_age c = 0 \<or> scheduler_tick c = 0
      then Inl (PInvalidConfig ''sample age and scheduler tick must be positive'')
      else if growth_divisor c = 0 \<or> contraction_divisor c = 0
      then Inl (PInvalidConfig ''adaptive delay divisors must be positive'')
      else if \<not> is_finite (speedup (catch_up c)) \<or> f_le (speedup (catch_up c)) (Finite 0)
      then Inl (PInvalidConfig ''catch-up speedup must be finite and positive'')
      else if \<not> is_finite (velocity_sample_weight (catch_up c)) \<or>
          \<not> (f_le (Finite 0) (velocity_sample_weight (catch_up c)) \<and>
             f_le (velocity_sample_weight (catch_up c)) (Finite 1))
      then Inl (PInvalidConfig ''velocity sample weight must be in 0.0..=1.0'')
      else if minimum_step (catch_up c) = 0 \<or> minimum_step (catch_up c) > maximum_step (catch_up c)
      then Inl (PInvalidConfig ''catch-up step bounds must satisfy 0 < minimum <= maximum'')
      else
        result_then (duration_micros (fixed_delay c)) (\<lambda>_.
        result_then (duration_micros (minimum_delay c)) (\<lambda>_.
        result_then (duration_micros (maximum_delay c)) (\<lambda>_.
        result_then (duration_micros (scheduler_margin c)) (\<lambda>_.
        result_then (duration_micros (delay_sample_max_age c)) (\<lambda>_.
        result_then (duration_micros (scheduler_tick c)) (\<lambda>_. Inr c)))))))"

datatype EnqueueOutcome = Queued MotionSequence | Duplicate | RetiredByCumulativeTarget | RetiredByRebase

record PlayoutStats =
  current_delay :: duration
  packet_delay_variation_percentile :: "duration option"
  selected_target_sequence :: MotionSequence
  st_completed_sequence :: MotionSequence
  st_scheduler_late_count :: u64
  st_catch_up_step_count :: u64
  last_packet_delay :: "duration option"

section \<open>State\<close>

record QueuedFrame =
  q_frame :: MotionFrame
  q_mapped_capture_time :: MonotonicTimeMicros

record Target =
  t_sequence :: MotionSequence
  t_totals :: CumulativeMotion
  t_sender_capture_time :: "MonotonicTimeMicros option"
  t_mapped_capture_time :: MonotonicTimeMicros
  t_pending_touch_snapshot :: "TouchState option"

record DelaySample =
  ds_received_at :: MonotonicTimeMicros
  ds_packet_delay_micros :: u64

record VelocitySample =
  vs_sender_capture_time :: MonotonicTimeMicros
  vs_totals :: CumulativeMotion

record ReceiverPlayout =
  p_config :: PlayoutConfig
  p_session :: SessionContext
  p_applied_control_sequence :: ControlSequence
  p_queue :: "(MotionSequence, QueuedFrame) fmap"
  p_delay_samples :: "DelaySample list"
  p_adaptive_delay_micros :: u64
  p_delay_percentile_micros :: "u64 option"
  p_target :: Target
  p_completed_sequence :: MotionSequence
  p_injected_totals :: CumulativeMotion
  p_rebase_cutoff :: "MotionSequence option"
  p_pointer_velocity_per_micro :: f64
  p_scroll_velocity_per_micro :: f64
  p_velocity_sample :: "VelocitySample option"
  p_last_observed_time :: "MonotonicTimeMicros option"
  p_last_poll_time :: "MonotonicTimeMicros option"
  p_scheduler_late_count :: u64
  p_catch_up_step_count :: u64

definition playout_new :: "PlayoutConfig \<Rightarrow> SessionContext \<Rightarrow> PlayoutError + ReceiverPlayout" where
  "playout_new config session =
     result_then (playout_config_validate config) (\<lambda>config.
     result_then (duration_micros (minimum_delay config)) (\<lambda>delay. Inr
       \<lparr>p_config = config, p_session = session, p_applied_control_sequence = 0, p_queue = fmempty,
        p_delay_samples = [], p_adaptive_delay_micros = delay, p_delay_percentile_micros = None,
        p_target = \<lparr>t_sequence = 0, t_totals = motion_ZERO, t_sender_capture_time = None,
                    t_mapped_capture_time = 0, t_pending_touch_snapshot = None\<rparr>,
        p_completed_sequence = 0, p_injected_totals = motion_ZERO, p_rebase_cutoff = None,
        p_pointer_velocity_per_micro = Finite 0, p_scroll_velocity_per_micro = Finite 0,
        p_velocity_sample = None, p_last_observed_time = None, p_last_poll_time = None,
        p_scheduler_late_count = 0, p_catch_up_step_count = 0\<rparr>))"

section \<open>Free functions\<close>

definition add_micros :: "MonotonicTimeMicros \<Rightarrow> u64 \<Rightarrow> MonotonicTimeMicros" where
  "add_micros time micros = saturating_add_u64 time micros"

definition approach_asymmetrically :: "u64 \<Rightarrow> u64 \<Rightarrow> u32 \<Rightarrow> u32 \<Rightarrow> u64" where
  "approach_asymmetrically current target growth contraction =
     (if target > current
      then saturating_add_u64 current (div_ceil_u64 (target - current) (ucast growth))
      else saturating_sub_u64 current (div_ceil_u64 (current - target) (ucast contraction)))"

definition pair_magnitude :: "(f64 \<Rightarrow> f64 \<Rightarrow> f64) \<Rightarrow> i64 \<Rightarrow> i64 \<Rightarrow> f64" where
  "pair_magnitude hyp first second = hyp (f_of_int (sint first)) (f_of_int (sint second))"

definition signum :: "i64 \<Rightarrow> i64" where
  "signum x = word_of_int (sgn (sint x))"

definition limit_pair :: "(f64 \<Rightarrow> f64 \<Rightarrow> f64) \<Rightarrow> i64 \<Rightarrow> i64 \<Rightarrow> u64 \<Rightarrow> i64 \<times> i64 \<times> bool" where
  "limit_pair hyp first second cap =
     (let magnitude = pair_magnitude hyp first second
      in if f_le magnitude (f_of_int (uint cap)) \<or> magnitude = Finite 0 then (first, second, False)
         else
           let scale = f_div (f_of_int (uint cap)) magnitude;
               limited_first = f_as_i64 (f_round (f_mul (f_of_int (sint first)) scale));
               limited_second = f_as_i64 (f_round (f_mul (f_of_int (sint second)) scale))
           in if limited_first = 0 \<and> limited_second = 0
              then if \<bar>sint first\<bar> \<ge> \<bar>sint second\<bar> then (signum first, limited_second, True)
                   else (limited_first, signum second, True)
              else (limited_first, limited_second, True))"

definition clamp :: "u64 \<Rightarrow> u64 \<Rightarrow> u64 \<Rightarrow> u64" where
  "clamp x lo hi = (if x < lo then lo else if x > hi then hi else x)"

section \<open>Private methods\<close>

text \<open>The \<open>expect\<close> on the fixed delay cannot fail: the configuration was validated.\<close>

definition current_delay_micros :: "ReceiverPlayout \<Rightarrow> u64" where
  "current_delay_micros p =
     (case delay_mode (p_config p) of
        Fixed \<Rightarrow> (case duration_micros (fixed_delay (p_config p)) of Inr d \<Rightarrow> d | Inl _ \<Rightarrow> 0)
      | Adaptive \<Rightarrow> p_adaptive_delay_micros p)"

definition p_observe_time :: "MonotonicTimeMicros \<Rightarrow> ReceiverPlayout \<Rightarrow> (PlayoutError + unit) \<times> ReceiverPlayout" where
  "p_observe_time now p =
     (if (case p_last_observed_time p of None \<Rightarrow> False | Some prior \<Rightarrow> now < prior)
      then (Inl PReceiverClockMovedBackwards, p)
      else (Inr (), p\<lparr>p_last_observed_time := Some now\<rparr>))"

text \<open>The nearest-rank percentile of the packet delays above the smallest one.\<close>

definition delay_rank :: "u8 \<Rightarrow> nat \<Rightarrow> nat" where
  "delay_rank percentile n = (min (n * unat percentile) (2 ^ 64 - 1) + 99) div 100 - 1"

definition delay_percentile :: "u8 \<Rightarrow> u64 list \<Rightarrow> u64" where
  "delay_percentile percentile delays =
     (let minimum = (case iter_min delays of Some m \<Rightarrow> m | None \<Rightarrow> 0);
          variations = sort (map (\<lambda>d. d - minimum) delays)
      in variations ! delay_rank percentile (length variations))"

definition recompute_adaptive_delay :: "ReceiverPlayout \<Rightarrow> (PlayoutError + unit) \<times> ReceiverPlayout" where
  "recompute_adaptive_delay p =
     (if p_delay_samples p = []
      then try_then (reading (\<lambda>p. duration_micros (minimum_delay (p_config p))))
             (\<lambda>delay p. (Inr (), p\<lparr>p_adaptive_delay_micros := delay\<rparr>)) (p\<lparr>p_delay_percentile_micros := None\<rparr>)
      else
        let percentile = delay_percentile (adaptive_percentile (p_config p))
              (map ds_packet_delay_micros (p_delay_samples p))
        in try_then (reading (\<lambda>p. duration_micros (scheduler_margin (p_config p)))) (\<lambda>margin.
           try_then (reading (\<lambda>p. duration_micros (minimum_delay (p_config p)))) (\<lambda>minimum.
           try_then (reading (\<lambda>p. duration_micros (maximum_delay (p_config p)))) (\<lambda>maximum p.
             let target = clamp (saturating_add_u64 percentile margin) minimum maximum
             in (Inr (), p\<lparr>p_adaptive_delay_micros :=
                    approach_asymmetrically (p_adaptive_delay_micros p) target
                      (growth_divisor (p_config p)) (contraction_divisor (p_config p))\<rparr>))))
           (p\<lparr>p_delay_percentile_micros := Some percentile\<rparr>))"

text \<open>The two \<open>while\<close> loops pop from the front: samples that are too old, then those beyond the window.\<close>

definition record_delay_sample ::
  "MonotonicTimeMicros \<Rightarrow> u64 \<Rightarrow> ReceiverPlayout \<Rightarrow> (PlayoutError + unit) \<times> ReceiverPlayout"
where
  "record_delay_sample received_at packet_delay p =
     try_then (reading (\<lambda>p. duration_micros (delay_sample_max_age (p_config p)))) (\<lambda>maximum_age p.
       let fresh = dropWhile (\<lambda>sample. saturating_sub_u64 received_at (ds_received_at sample) > maximum_age)
                     (p_delay_samples p);
           kept = drop (length fresh - delay_sample_window (p_config p)) fresh
       in recompute_adaptive_delay (p\<lparr>p_delay_samples := kept\<rparr>))
     (p\<lparr>p_delay_samples := p_delay_samples p @
          [\<lparr>ds_received_at = received_at, ds_packet_delay_micros = packet_delay\<rparr>]\<rparr>)"

definition validate_capture_order ::
  "MotionSequence \<Rightarrow> MonotonicTimeMicros \<Rightarrow> ReceiverPlayout \<Rightarrow> PlayoutError + unit"
where
  "validate_capture_order sequence sender_capture_time p =
     (if sequence > t_sequence (p_target p) \<and>
         (case t_sender_capture_time (p_target p) of None \<Rightarrow> False | Some t \<Rightarrow> sender_capture_time < t)
      then Inl PCaptureTimeMovedBackwards
      else if (case find (\<lambda>(s, _). s < sequence) (rev (sorted_list_of_fmap (p_queue p))) of
                 None \<Rightarrow> False
               | Some (_, prior) \<Rightarrow> sender_capture_time < f_sender_capture_time (q_frame prior))
      then Inl PCaptureTimeMovedBackwards
      else if (case find (\<lambda>(s, _). sequence \<le> s) (sorted_list_of_fmap (p_queue p)) of
                 None \<Rightarrow> False
               | Some (_, later) \<Rightarrow> sender_capture_time > f_sender_capture_time (q_frame later))
      then Inl PCaptureTimeMovedBackwards
      else Inr ())"

text \<open>Exponential smoothing of one velocity.\<close>

definition smoothed :: "f64 \<Rightarrow> f64 \<Rightarrow> f64 \<Rightarrow> f64" where
  "smoothed w velocity newest =
     f_add (f_mul velocity (f_sub (Finite 1) w)) (f_mul newest w)"

definition update_velocity ::
  "(f64 \<Rightarrow> f64 \<Rightarrow> f64) \<Rightarrow> VelocitySample \<Rightarrow> ReceiverPlayout \<Rightarrow> (PlayoutError + unit) \<times> ReceiverPlayout"
where
  "update_velocity hyp newest p =
     (case p_velocity_sample p of
        None \<Rightarrow> (Inr (), p\<lparr>p_velocity_sample := Some newest\<rparr>)
      | Some previous \<Rightarrow>
        (case checked_sub_u64 (vs_sender_capture_time newest) (vs_sender_capture_time previous) of
           None \<Rightarrow> (Inl PCaptureTimeMovedBackwards, p)
         | Some elapsed \<Rightarrow>
            if elapsed > 0
            then
              (case checked_delta_from (vs_totals newest) (vs_totals previous) of
                 Inl e \<Rightarrow> (Inl (PMotionOverflow e), p)
               | Inr delta \<Rightarrow>
                  (let w = velocity_sample_weight (catch_up (p_config p));
                       pointer = f_div (pair_magnitude hyp (dx delta) (dy delta)) (f_of_int (uint elapsed));
                       scroll = f_div (pair_magnitude hyp (scroll_x delta) (scroll_y delta))
                         (f_of_int (uint elapsed))
                   in (Inr (), p\<lparr>p_pointer_velocity_per_micro :=
                             smoothed w (p_pointer_velocity_per_micro p) pointer,
                           p_scroll_velocity_per_micro :=
                             smoothed w (p_scroll_velocity_per_micro p) scroll,
                           p_velocity_sample := Some newest\<rparr>)))
            else (Inr (), p\<lparr>p_velocity_sample := Some newest\<rparr>)))"

definition mature :: "MonotonicTimeMicros \<Rightarrow> ReceiverPlayout \<Rightarrow> QueuedFrame \<Rightarrow> bool" where
  "mature now p queued \<longleftrightarrow>
     f_control_watermark (q_frame queued) \<le> p_applied_control_sequence p \<and>
     add_micros (q_mapped_capture_time queued) (current_delay_micros p) \<le> now"

text \<open>The totals just before the sample of the frame \<open>sequence\<close>, if the frame before it is known.\<close>

definition own_sample_start :: "MotionSequence \<Rightarrow> ReceiverPlayout \<Rightarrow> CumulativeMotion option" where
  "own_sample_start sequence p =
     (let previous = checked_sub_u64 sequence 1
      in if previous = Some (t_sequence (p_target p)) then Some (t_totals (p_target p))
         else Option.bind previous (\<lambda>previous.
           map_option (f_totals \<circ> q_frame) (fmlookup (p_queue p) previous)))"

definition select_newest_mature_target ::
  "(f64 \<Rightarrow> f64 \<Rightarrow> f64) \<Rightarrow> MonotonicTimeMicros \<Rightarrow> ReceiverPlayout
     \<Rightarrow> (PlayoutError + CumulativeMotion option) \<times> ReceiverPlayout"
where
  "select_newest_mature_target hyp now p =
     (case find (\<lambda>(_, queued). mature now p queued) (rev (sorted_list_of_fmap (p_queue p))) of
        None \<Rightarrow> (Inr None, p)
      | Some (sequence, queued) \<Rightarrow>
         (let start = own_sample_start sequence p;
              late = now > add_micros (q_mapped_capture_time queued) (current_delay_micros p)
          in try_then
               (update_velocity hyp
                 \<lparr>vs_sender_capture_time = f_sender_capture_time (q_frame queued),
                  vs_totals = f_totals (q_frame queued)\<rparr>)
               (\<lambda>_ p. (Inr start,
                  p\<lparr>p_target := \<lparr>t_sequence = sequence, t_totals = f_totals (q_frame queued),
                      t_sender_capture_time = Some (f_sender_capture_time (q_frame queued)),
                      t_mapped_capture_time = q_mapped_capture_time queued,
                      t_pending_touch_snapshot = f_touch_snapshot (q_frame queued)\<rparr>\<rparr>))
               (p\<lparr>p_queue := fmfilter (\<lambda>s. s > sequence) (p_queue p),
                  p_scheduler_late_count :=
                    (if late then saturating_add_u64 (p_scheduler_late_count p) 1
                     else p_scheduler_late_count p)\<rparr>)))"

definition poll_elapsed :: "MonotonicTimeMicros \<Rightarrow> ReceiverPlayout \<Rightarrow> (PlayoutError + u64) \<times> ReceiverPlayout" where
  "poll_elapsed now = try_then (reading (\<lambda>p. duration_micros (scheduler_tick (p_config p)))) (\<lambda>nominal p.
     (Inr (case p_last_poll_time p of
             None \<Rightarrow> nominal
           | Some prior \<Rightarrow> max (saturating_sub_u64 now prior) 1),
      p\<lparr>p_last_poll_time := Some now\<rparr>))"

definition catch_up_cap :: "ReceiverPlayout \<Rightarrow> f64 \<Rightarrow> u64 \<Rightarrow> PlayoutError + u64" where
  "catch_up_cap p velocity elapsed =
     result_then (duration_micros (scheduler_tick (p_config p))) (\<lambda>nominal_tick.
       let tick_scale = max (div_ceil_u64 elapsed nominal_tick) 1;
           minimum = saturating_mul_u64 (minimum_step (catch_up (p_config p))) tick_scale;
           maximum = saturating_mul_u64 (maximum_step (catch_up (p_config p))) tick_scale;
           velocity_scaled =
             f_mul (f_mul velocity (f_of_int (uint elapsed))) (speedup (catch_up (p_config p)));
           rounded_velocity = (if f_le (f_of_int (2 ^ 64 - 1)) velocity_scaled then U64_MAX
                               else f_as_u64 (f_ceil velocity_scaled))
       in Inr (clamp rounded_velocity minimum maximum))"

section \<open>Public methods\<close>

definition advance_control_watermark ::
  "ControlSequence \<Rightarrow> ReceiverPlayout \<Rightarrow> (PlayoutError + unit) \<times> ReceiverPlayout"
where
  "advance_control_watermark applied p =
     (if applied < p_applied_control_sequence p then (Inl PControlWatermarkMovedBackwards, p)
      else (Inr (), p\<lparr>p_applied_control_sequence := applied\<rparr>))"

text \<open>The clock maps every queued frame, in sequence order, before anything changes.\<close>

definition remap_queue :: "ClockMapper \<Rightarrow> ReceiverPlayout \<Rightarrow> PlayoutError + (MotionSequence \<times> MonotonicTimeMicros) list" where
  "remap_queue clock p =
     map_err PClock (collect_results (map (\<lambda>(sequence, queued).
       result_then (clock_map clock (f_sender_capture_time (q_frame queued))) (\<lambda>mapped. Inr (sequence, mapped)))
       (sorted_list_of_fmap (p_queue p))))"

definition set_mapped ::
  "MotionSequence \<times> MonotonicTimeMicros \<Rightarrow> (MotionSequence, QueuedFrame) fmap \<Rightarrow> (MotionSequence, QueuedFrame) fmap"
where
  "set_mapped entry queue =
     (case fmlookup queue (fst entry) of
        None \<Rightarrow> queue
      | Some queued \<Rightarrow> fmupd (fst entry) (queued\<lparr>q_mapped_capture_time := snd entry\<rparr>) queue)"

definition remap_clock :: "ClockMapper \<Rightarrow> ReceiverPlayout \<Rightarrow> (PlayoutError + unit) \<times> ReceiverPlayout" where
  "remap_clock clock =
     try_then (reading (remap_queue clock)) (\<lambda>remapped_queue.
     try_then (reading (\<lambda>p. case t_sender_capture_time (p_target p) of
                 None \<Rightarrow> Inr None
               | Some sender_time \<Rightarrow> map_err PClock (result_then (clock_map clock sender_time) (Inr \<circ> Some))))
       (\<lambda>remapped_target p.
         let p1 = p\<lparr>p_queue := fold set_mapped remapped_queue (p_queue p)\<rparr>;
             p2 = (case remapped_target of
                     None \<Rightarrow> p1
                   | Some mapped \<Rightarrow> p1\<lparr>p_target := (p_target p1)\<lparr>t_mapped_capture_time := mapped\<rparr>\<rparr>)
         in try_then (reading (\<lambda>p. duration_micros (minimum_delay (p_config p))))
              (\<lambda>delay p. (Inr (),
                 p\<lparr>p_adaptive_delay_micros := delay, p_delay_percentile_micros := None,
                   p_pointer_velocity_per_micro := Finite 0, p_scroll_velocity_per_micro := Finite 0,
                   p_velocity_sample := None\<rparr>))
              (p2\<lparr>p_delay_samples := []\<rparr>)))"

definition ingest_frame ::
  "MotionFrame \<Rightarrow> MonotonicTimeMicros \<Rightarrow> ClockMapper \<Rightarrow> ReceiverPlayout
     \<Rightarrow> (PlayoutError + EnqueueOutcome) \<times> ReceiverPlayout"
where
  "ingest_frame frame received_at clock =
     try_then (p_observe_time received_at) (\<lambda>_ p.
       let sequence = f_motion_sequence frame;
           mapping = reading (\<lambda>_. map_err PClock (clock_map clock (f_sender_capture_time frame)))
       in
       if f_session frame \<noteq> p_session p then (Inl PSessionMismatch, p)
       else if (case p_rebase_cutoff p of None \<Rightarrow> False | Some cutoff \<Rightarrow> sequence \<le> cutoff)
       then (Inr RetiredByRebase, p)
       else if sequence \<le> t_sequence (p_target p)
       then try_then mapping (\<lambda>mapped.
            try_then (record_delay_sample received_at (saturating_sub_u64 received_at mapped)) (\<lambda>_ p.
              (Inr RetiredByCumulativeTarget, p))) p
       else
         case fmlookup (p_queue p) sequence of
           Some existing \<Rightarrow>
             (if q_frame existing = frame then Inr Duplicate else Inl PConflictingMotionSequence, p)
         | None \<Rightarrow>
            (if fcard (fmdom (p_queue p)) = maximum_queued_frames (p_config p) then (Inl PQueueFull, p)
             else
               try_then mapping (\<lambda>mapped.
               try_then (reading (validate_capture_order sequence (f_sender_capture_time frame))) (\<lambda>_.
               try_then (record_delay_sample received_at (saturating_sub_u64 received_at mapped)) (\<lambda>_ p.
                 (Inr (Queued sequence),
                  p\<lparr>p_queue := fmupd sequence \<lparr>q_frame = frame, q_mapped_capture_time = mapped\<rparr>
                                (p_queue p)\<rparr>)))) p))"

definition playout_next_deadline :: "ReceiverPlayout \<Rightarrow> MonotonicTimeMicros option" where
  "playout_next_deadline p =
     iter_min (map (\<lambda>queued. add_micros (q_mapped_capture_time queued) (current_delay_micros p))
       (filter (\<lambda>queued. f_control_watermark (q_frame queued) \<le> p_applied_control_sequence p)
         (fm_values (p_queue p))))"

text \<open>
  The end of \<open>poll\<close>, when there is something to emit: the step towards the target, and the state after
  it. The target's touch snapshot was taken out before.
\<close>

definition emit_step ::
  "MotionDelta \<Rightarrow> TouchState option \<Rightarrow> bool \<Rightarrow> bool \<Rightarrow> ReceiverPlayout
     \<Rightarrow> (PlayoutError + PlayoutStep option) \<times> ReceiverPlayout"
where
  "emit_step delta touch_snapshot pointer_limited scroll_limited p =
     (case motion_checked_add (p_injected_totals p) delta of
        Inl e \<Rightarrow> (Inl (PMotionOverflow e), p)
      | Inr totals \<Rightarrow>
         (let reached = (totals = t_totals (p_target p))
          in (Inr (Some \<lparr>ps_mapped_capture_time = t_mapped_capture_time (p_target p),
                          ps_through_sequence = t_sequence (p_target p), ps_delta = delta,
                          ps_touch_snapshot = touch_snapshot, ps_target_reached = reached,
                          ps_pointer_catch_up_limited = pointer_limited,
                          ps_scroll_catch_up_limited = scroll_limited\<rparr>),
              p\<lparr>p_injected_totals := totals,
                p_catch_up_step_count :=
                  (if pointer_limited \<or> scroll_limited
                   then saturating_add_u64 (p_catch_up_step_count p) 1 else p_catch_up_step_count p),
                p_completed_sequence :=
                  (if reached then max (p_completed_sequence p) (t_sequence (p_target p))
                   else p_completed_sequence p)\<rparr>)))"

text \<open>The displacement of one step: the capped backlog and the whole of the newest sample.\<close>

definition step_delta :: "(i64 \<times> i64 \<times> bool) \<Rightarrow> (i64 \<times> i64 \<times> bool) \<Rightarrow> MotionDelta \<Rightarrow> MotionDelta" where
  "step_delta pointer scroll fresh =
     \<lparr>dx = fst pointer + dx fresh, dy = fst (snd pointer) + dy fresh,
      scroll_x = fst scroll + scroll_x fresh, scroll_y = fst (snd scroll) + scroll_y fresh\<rparr>"

definition advance_towards_target ::
  "(f64 \<Rightarrow> f64 \<Rightarrow> f64) \<Rightarrow> u64 \<Rightarrow> CumulativeMotion option \<Rightarrow> ReceiverPlayout
     \<Rightarrow> (PlayoutError + PlayoutStep option) \<times> ReceiverPlayout"
where
  "advance_towards_target hyp elapsed start =
     try_then (reading (\<lambda>p. map_err PMotionOverflow
         (checked_delta_from (t_totals (p_target p)) (p_injected_totals p)))) (\<lambda>remaining p.
       let touch_snapshot = t_pending_touch_snapshot (p_target p);
           p1 = p\<lparr>p_target := (p_target p)\<lparr>t_pending_touch_snapshot := None\<rparr>\<rparr>
       in if remaining = delta_default \<and> touch_snapshot = None
          then (Inr None, p1\<lparr>p_completed_sequence := max (p_completed_sequence p1) (t_sequence (p_target p1))\<rparr>)
          else
            let backlog_end = (case start of None \<Rightarrow> t_totals (p_target p1) | Some s \<Rightarrow> s)
            in try_then (reading (\<lambda>p. map_err PMotionOverflow
                  (checked_delta_from backlog_end (p_injected_totals p)))) (\<lambda>backlog.
               try_then (reading (\<lambda>p. map_err PMotionOverflow
                  (checked_delta_from (t_totals (p_target p)) backlog_end))) (\<lambda>fresh.
               try_then (reading (\<lambda>p. catch_up_cap p (p_pointer_velocity_per_micro p) elapsed)) (\<lambda>pointer_cap.
               try_then (reading (\<lambda>p. catch_up_cap p (p_scroll_velocity_per_micro p) elapsed)) (\<lambda>scroll_cap p.
                 let pointer = limit_pair hyp (dx backlog) (dy backlog) pointer_cap;
                     scroll = limit_pair hyp (scroll_x backlog) (scroll_y backlog) scroll_cap
                 in emit_step (step_delta pointer scroll fresh) touch_snapshot
                      (snd (snd pointer)) (snd (snd scroll)) p)))) p1)"

definition poll ::
  "(f64 \<Rightarrow> f64 \<Rightarrow> f64) \<Rightarrow> MonotonicTimeMicros \<Rightarrow> ReceiverPlayout
     \<Rightarrow> (PlayoutError + PlayoutStep option) \<times> ReceiverPlayout"
where
  "poll hyp now =
     try_then (p_observe_time now) (\<lambda>_.
     try_then (poll_elapsed now) (\<lambda>elapsed.
     try_then (select_newest_mature_target hyp now) (advance_towards_target hyp elapsed)))"

definition rebase ::
  "MotionSequence \<Rightarrow> CumulativeMotion \<Rightarrow> ReceiverPlayout \<Rightarrow> (PlayoutError + unit) \<times> ReceiverPlayout"
where
  "rebase through totals p =
     (if through < t_sequence (p_target p) then (Inl PRebaseMovedBackwards, p)
      else
        case checked_delta_from totals (p_injected_totals p) of
          Inl e \<Rightarrow> (Inl (PMotionOverflow e), p)
        | Inr _ \<Rightarrow>
           (Inr (), p\<lparr>p_queue := fmfilter (\<lambda>s. s > through) (p_queue p),
             p_target := \<lparr>t_sequence = through, t_totals = totals,
               t_sender_capture_time = t_sender_capture_time (p_target p),
               t_mapped_capture_time = t_mapped_capture_time (p_target p),
               t_pending_touch_snapshot = None\<rparr>,
             p_completed_sequence := through, p_injected_totals := totals,
             p_rebase_cutoff := Some (case p_rebase_cutoff p of None \<Rightarrow> through | Some c \<Rightarrow> max c through),
             p_velocity_sample := None, p_pointer_velocity_per_micro := Finite 0,
             p_scroll_velocity_per_micro := Finite 0\<rparr>))"

definition playout_stats :: "ReceiverPlayout \<Rightarrow> PlayoutStats" where
  "playout_stats p =
     \<lparr>current_delay = from_micros (unat (current_delay_micros p)),
      packet_delay_variation_percentile = map_option (\<lambda>d. from_micros (unat d)) (p_delay_percentile_micros p),
      selected_target_sequence = t_sequence (p_target p),
      st_completed_sequence = p_completed_sequence p,
      st_scheduler_late_count = p_scheduler_late_count p,
      st_catch_up_step_count = p_catch_up_step_count p,
      last_packet_delay = (if p_delay_samples p = [] then None
        else Some (from_micros (unat (ds_packet_delay_micros (last (p_delay_samples p))))))\<rparr>"

text \<open>The calls that change the playout, as one step function; \<open>poll\<close> may emit a step.\<close>

datatype PlayoutOp =
    PoAdvance ControlSequence
  | PoIngest MotionFrame MonotonicTimeMicros ClockMapper
  | PoPoll MonotonicTimeMicros
  | PoRebase MotionSequence CumulativeMotion
  | PoRemap ClockMapper

fun playout_step ::
  "(f64 \<Rightarrow> f64 \<Rightarrow> f64) \<Rightarrow> PlayoutOp \<Rightarrow> ReceiverPlayout
     \<Rightarrow> (PlayoutError + PlayoutStep option) \<times> ReceiverPlayout"
where
  "playout_step hyp (PoAdvance applied) p = try_then (advance_control_watermark applied) (\<lambda>_ p. (Inr None, p)) p"
| "playout_step hyp (PoIngest frame now clock) p = try_then (ingest_frame frame now clock) (\<lambda>_ p. (Inr None, p)) p"
| "playout_step hyp (PoPoll now) p = poll hyp now p"
| "playout_step hyp (PoRebase through totals) p = try_then (rebase through totals) (\<lambda>_ p. (Inr None, p)) p"
| "playout_step hyp (PoRemap clock) p = try_then (remap_clock clock) (\<lambda>_ p. (Inr None, p)) p"


section \<open>Configurations\<close>

lemma duration_micros_Inr: "duration_micros d = Inr m \<longleftrightarrow> as_micros d < 2 ^ 64 \<and> unat m = as_micros d"
  by (auto simp: duration_micros_def unat_of_nat word_unat_eq_iff take_bit_nat_eq_self)

definition config_ok :: "PlayoutConfig \<Rightarrow> bool" where
  "config_ok c \<longleftrightarrow> is_ok (playout_config_validate c)"

lemma config_ok_durations:
  assumes "config_ok c"
  shows "\<exists>d. duration_micros (fixed_delay c) = Inr d" "\<exists>d. duration_micros (minimum_delay c) = Inr d"
    "\<exists>d. duration_micros (maximum_delay c) = Inr d" "\<exists>d. duration_micros (scheduler_margin c) = Inr d"
    "\<exists>d. duration_micros (delay_sample_max_age c) = Inr d" "\<exists>d. duration_micros (scheduler_tick c) = Inr d"
  using assms by (auto simp: config_ok_def is_ok_iff playout_config_validate_def result_then_Inr split: if_splits)

lemma config_ok_fields:
  assumes "config_ok c"
  shows "1 \<le> adaptive_percentile c" "adaptive_percentile c \<le> 100" "minimum_delay c \<le> maximum_delay c"
    "0 < delay_sample_window c" "0 < maximum_queued_frames c" "growth_divisor c \<noteq> 0" "contraction_divisor c \<noteq> 0"
    "minimum_step (catch_up c) \<noteq> 0" "minimum_step (catch_up c) \<le> maximum_step (catch_up c)"
  using assms by (auto simp: config_ok_def is_ok_iff playout_config_validate_def split: if_splits)

text \<open>The bounds of the adaptive delay, in microseconds.\<close>

definition delay_in_bounds :: "ReceiverPlayout \<Rightarrow> bool" where
  "delay_in_bounds p \<longleftrightarrow>
     as_micros (minimum_delay (p_config p)) \<le> unat (p_adaptive_delay_micros p) \<and>
     unat (p_adaptive_delay_micros p) \<le> as_micros (maximum_delay (p_config p))"

lemma div_ceil_le: "b \<noteq> 0 \<Longrightarrow> unat (div_ceil_u64 a b) \<le> unat a"
proof -
  assume b: "b \<noteq> 0"
  show ?thesis
  proof (cases "a mod b = 0")
    case True
    then show ?thesis by (simp add: div_ceil_u64_def unat_div_distrib)
  next
    case False
    then have "unat b \<noteq> 1" by (metis mod_by_1 unat_1 word_unat_eq_iff)
    with b have "2 \<le> unat b" by (metis One_nat_def Suc_1 Suc_leI le_neq_implies_less not_gr_zero unat_eq_zero)
    moreover have "0 < unat a" using False by (metis mod_0 not_gr_zero unat_eq_zero)
    ultimately have "unat a div unat b < unat a" by simp
    moreover have "unat (a div b + 1) \<le> unat (a div b) + 1" by (simp add: unat_word_ariths)
    ultimately show ?thesis using False by (simp add: div_ceil_u64_def unat_div_distrib)
  qed
qed

lemma ucast_u64_nonzero: "(g :: u32) \<noteq> 0 \<Longrightarrow> ucast g \<noteq> (0 :: u64)"
proof
  assume "g \<noteq> 0" "ucast g = (0 :: u64)"
  moreover have "uint (ucast g :: u64) = uint g"
    by (rule uint_up_ucast) (simp add: is_up_def source_size target_size word_size)
  ultimately show False by (simp add: uint_0_iff)
qed

lemma approach_between:
  assumes "growth \<noteq> 0" "contraction \<noteq> 0"
  shows "min (unat c) (unat t) \<le> unat (approach_asymmetrically c t growth contraction)"
    "unat (approach_asymmetrically c t growth contraction) \<le> max (unat c) (unat t)"
proof -
  have g: "ucast growth \<noteq> (0 :: u64)" "ucast contraction \<noteq> (0 :: u64)"
    using assms by (simp_all add: ucast_u64_nonzero)
  show "min (unat c) (unat t) \<le> unat (approach_asymmetrically c t growth contraction)"
    "unat (approach_asymmetrically c t growth contraction) \<le> max (unat c) (unat t)"
    using div_ceil_le [OF g(1), of "t - c"] div_ceil_le [OF g(2), of "c - t"] unat_u64_less [of c]
    by (auto simp: approach_asymmetrically_def unat_saturating_add unat_saturating_sub unat_sub word_less_nat_alt
        word_le_nat_alt)
qed

lemma clamp_between: "lo \<le> hi \<Longrightarrow> lo \<le> clamp x lo hi \<and> clamp x lo hi \<le> hi"
  by (auto simp: clamp_def)


lemma delay_rank_less:
  assumes "1 \<le> percentile" "percentile \<le> 100" "0 < n"
  shows "delay_rank percentile n < n"
proof -
  have "unat percentile \<le> 100" using assms(2) by (simp add: word_le_nat_alt)
  then have "min (n * unat percentile) (2 ^ 64 - 1) \<le> n * 100"
    by (meson min.coboundedI1 mult_le_mono2)
  then have "(min (n * unat percentile) (2 ^ 64 - 1) + 99) div 100 \<le> (n * 100 + 99) div 100"
    by (intro div_le_mono) simp
  also have "\<dots> = n" by simp
  finally show ?thesis using assms(3) by (simp add: delay_rank_def)
qed

section \<open>What the private methods change\<close>

text \<open>Everything but the delay samples and what is computed from them.\<close>

definition same_motion :: "ReceiverPlayout \<Rightarrow> ReceiverPlayout \<Rightarrow> bool" where
  "same_motion p p' \<longleftrightarrow>
     p_config p' = p_config p \<and> p_session p' = p_session p \<and>
     p_applied_control_sequence p' = p_applied_control_sequence p \<and> p_queue p' = p_queue p \<and>
     p_target p' = p_target p \<and> p_completed_sequence p' = p_completed_sequence p \<and>
     p_injected_totals p' = p_injected_totals p \<and> p_rebase_cutoff p' = p_rebase_cutoff p \<and>
     p_velocity_sample p' = p_velocity_sample p \<and> p_last_observed_time p' = p_last_observed_time p"

lemma recompute_adaptive_delay_ok:
  assumes "config_ok (p_config p)" "delay_in_bounds p"
  shows "\<exists>p'. recompute_adaptive_delay p = (Inr (), p') \<and> delay_in_bounds p' \<and> same_motion p p' \<and>
     p_delay_samples p' = p_delay_samples p"
proof -
  note c = config_ok_durations [OF assms(1)] and f = config_ok_fields [OF assms(1)]
  obtain lo hi margin where lo: "duration_micros (minimum_delay (p_config p)) = Inr lo"
    and hi: "duration_micros (maximum_delay (p_config p)) = Inr hi"
    and margin: "duration_micros (scheduler_margin (p_config p)) = Inr margin" using c by blast
  have u: "unat lo = as_micros (minimum_delay (p_config p))" "unat hi = as_micros (maximum_delay (p_config p))"
    using lo hi by (auto simp: duration_micros_Inr)
  have lohi: "lo \<le> hi" using f(3) by (simp add: word_le_nat_alt u as_micros_def div_le_mono)
  define t where "t = clamp (saturating_add_u64 (delay_percentile (adaptive_percentile (p_config p))
    (map ds_packet_delay_micros (p_delay_samples p))) margin) lo hi"
  have "unat lo \<le> unat t" "unat t \<le> unat hi"
    using clamp_between [OF lohi] by (auto simp: t_def word_le_nat_alt)
  then have "unat lo \<le> unat (approach_asymmetrically (p_adaptive_delay_micros p) t
        (growth_divisor (p_config p)) (contraction_divisor (p_config p)))"
    "unat (approach_asymmetrically (p_adaptive_delay_micros p) t
        (growth_divisor (p_config p)) (contraction_divisor (p_config p))) \<le> unat hi"
    using approach_between [OF f(6,7), of "p_adaptive_delay_micros p" t] assms(2)
    by (auto simp: delay_in_bounds_def u)
  moreover have "unat lo \<le> unat hi" using lohi by (simp add: word_le_nat_alt)
  ultimately show ?thesis
    by (auto simp: recompute_adaptive_delay_def try_then_reading Let_def lo hi margin delay_in_bounds_def
        same_motion_def u simp flip: t_def)
qed

lemma record_delay_sample_ok:
  assumes "config_ok (p_config p)" "delay_in_bounds p"
  shows "\<exists>p'. record_delay_sample t d p = (Inr (), p') \<and> delay_in_bounds p' \<and> same_motion p p' \<and>
     length (p_delay_samples p') \<le> delay_sample_window (p_config p)"
proof -
  obtain age where age: "duration_micros (delay_sample_max_age (p_config p)) = Inr age"
    using config_ok_durations [OF assms(1)] by blast
  let ?samples = "p_delay_samples p @ [\<lparr>ds_received_at = t, ds_packet_delay_micros = d\<rparr>]"
  define fresh where "fresh = dropWhile (\<lambda>s. saturating_sub_u64 t (ds_received_at s) > age) ?samples"
  let ?p = "p\<lparr>p_delay_samples := drop (length fresh - delay_sample_window (p_config p)) fresh\<rparr>"
  have "record_delay_sample t d p = recompute_adaptive_delay ?p"
    by (simp add: record_delay_sample_def try_then_reading age Let_def fresh_def)
  moreover have "config_ok (p_config ?p)" "delay_in_bounds ?p" using assms by (simp_all add: delay_in_bounds_def)
  ultimately show ?thesis
    using recompute_adaptive_delay_ok [of ?p] by (auto simp: same_motion_def)
qed

section \<open>Invariant\<close>

text \<open>
  The queue holds frames of this session that are newer than the target, under their own sequence
  numbers and in the order of their capture times; a target that is complete has been injected exactly; the velocity sample is the one of the target; the
  delay and the two windows stay within the configuration.
\<close>

definition queue_frames :: "(MotionSequence, QueuedFrame) fmap \<Rightarrow> MotionSequence \<Rightarrow> MotionFrame option" where
  "queue_frames queue s = map_option q_frame (fmlookup queue s)"

definition frames_ok ::
  "(MotionSequence \<Rightarrow> MotionFrame option) \<Rightarrow> SessionContext \<Rightarrow> MotionSequence \<Rightarrow> MonotonicTimeMicros option \<Rightarrow> bool"
where
  "frames_ok frames session target captured \<longleftrightarrow>
     (\<forall>s f. frames s = Some f \<longrightarrow>
        f_motion_sequence f = s \<and> f_session f = session \<and> target < s \<and>
        (\<forall>t. captured = Some t \<longrightarrow> t \<le> f_sender_capture_time f)) \<and>
     (\<forall>s f s' f'. frames s = Some f \<and> frames s' = Some f' \<and> s \<le> s' \<longrightarrow>
        f_sender_capture_time f \<le> f_sender_capture_time f')"

abbreviation queue_ok :: "ReceiverPlayout \<Rightarrow> bool" where
  "queue_ok p \<equiv> frames_ok (queue_frames (p_queue p)) (p_session p) (t_sequence (p_target p))
     (t_sender_capture_time (p_target p))"

definition playout_wf :: "ReceiverPlayout \<Rightarrow> bool" where
  "playout_wf p \<longleftrightarrow>
     config_ok (p_config p) \<and> delay_in_bounds p \<and>
     length (p_delay_samples p) \<le> delay_sample_window (p_config p) \<and>
     fcard (fmdom (p_queue p)) \<le> maximum_queued_frames (p_config p) \<and> queue_ok p \<and>
     p_completed_sequence p \<le> t_sequence (p_target p) \<and>
     (p_completed_sequence p = t_sequence (p_target p) \<longrightarrow>
        p_injected_totals p = t_totals (p_target p) \<and> t_pending_touch_snapshot (p_target p) = None) \<and>
     (\<forall>c. p_rebase_cutoff p = Some c \<longrightarrow> c \<le> t_sequence (p_target p)) \<and>
     (\<forall>v. p_velocity_sample p = Some v \<longrightarrow> t_sender_capture_time (p_target p) = Some (vs_sender_capture_time v))"

lemma playout_new_wf: "playout_new config session = Inr p \<Longrightarrow> playout_wf p"
proof -
  assume "playout_new config session = Inr p"
  then obtain c d where c: "playout_config_validate config = Inr c" "duration_micros (minimum_delay c) = Inr d"
    and p: "p_config p = c" "p_adaptive_delay_micros p = d" "p_delay_samples p = []" "p_queue p = fmempty"
      "p_completed_sequence p = 0" "p_rebase_cutoff p = None" "p_velocity_sample p = None"
      "p_injected_totals p = t_totals (p_target p)" "t_pending_touch_snapshot (p_target p) = None"
    by (auto simp: playout_new_def result_then_Inr)
  have same: "c = config" using c by (auto simp: playout_config_validate_def result_then_Inr split: if_splits)
  with c have ok: "config_ok c" by (simp add: config_ok_def)
  have "delay_in_bounds p"
    using c config_ok_fields(3) [OF ok] p by (auto simp: delay_in_bounds_def duration_micros_Inr as_micros_def div_le_mono)
  then show ?thesis using p ok by (auto simp: playout_wf_def frames_ok_def queue_frames_def)
qed

lemma same_motion_wf:
  assumes "playout_wf p" "same_motion p p'" "delay_in_bounds p'"
    "length (p_delay_samples p') \<le> delay_sample_window (p_config p)"
  shows "playout_wf p'"
  using assms by (simp add: playout_wf_def same_motion_def)

lemma p_observe_time_wf: "playout_wf p \<Longrightarrow> playout_wf (snd (p_observe_time now p))"
  by (auto simp: p_observe_time_def playout_wf_def delay_in_bounds_def)

lemma fcard_fmfilter: "fcard (fmdom (fmfilter P m)) \<le> fcard (fmdom m)"
  by (rule fcard_mono) (auto simp: fmdom_filter)

lemma frames_ok_sub:
  assumes "frames_ok frames session target captured"
    and "\<And>s f. frames' s = Some f \<Longrightarrow> frames s = Some f \<and> target' < s"
  shows "frames_ok frames' session target' captured"
  using assms unfolding frames_ok_def by (metis (no_types, lifting))

lemma queue_frames_filter:
  "queue_frames (fmfilter P queue) s = Some f \<longleftrightarrow> queue_frames queue s = Some f \<and> P s"
  by (auto simp: queue_frames_def)

lemma frames_ok_filter:
  assumes "frames_ok (queue_frames queue) session target captured"
  shows "frames_ok (queue_frames (fmfilter (\<lambda>s. through < s) queue)) session through captured"
  using assms by (rule frames_ok_sub) (simp add: queue_frames_filter)

lemma rebase_wf:
  assumes "playout_wf p"
  shows "playout_wf (snd (rebase through totals p))"
proof (cases "through < t_sequence (p_target p) \<or> (\<exists>e. checked_delta_from totals (p_injected_totals p) = Inl e)")
  case True
  then show ?thesis using assms by (auto simp: rebase_def)
next
  case False
  then obtain d where d: "checked_delta_from totals (p_injected_totals p) = Inr d"
    by (cases "checked_delta_from totals (p_injected_totals p)") auto
  have "fcard (fmdom (fmfilter (\<lambda>s. through < s) (p_queue p))) \<le> maximum_queued_frames (p_config p)"
    using assms fcard_fmfilter [of "\<lambda>s. through < s" "p_queue p"] by (simp add: playout_wf_def)
  moreover have "frames_ok (queue_frames (fmfilter (\<lambda>s. through < s) (p_queue p))) (p_session p) through
      (t_sender_capture_time (p_target p))"
    using assms by (intro frames_ok_filter [where target = "t_sequence (p_target p)"]) (simp add: playout_wf_def)
  moreover have "\<forall>c. p_rebase_cutoff p = Some c \<longrightarrow> c \<le> through"
    using assms False by (auto simp: playout_wf_def)
  ultimately show ?thesis
    using assms False d by (auto simp: rebase_def playout_wf_def delay_in_bounds_def max_def split: option.splits)
qed

lemma advance_wf: "playout_wf p \<Longrightarrow> playout_wf (snd (advance_control_watermark applied p))"
  by (auto simp: advance_control_watermark_def playout_wf_def delay_in_bounds_def)

lemma set_mapped_dom: "fmdom (set_mapped e q) = fmdom q"
  by (auto simp: set_mapped_def finsert_absorb fmdomI split: option.splits)

lemma set_mapped_frames:
  "map_option q_frame (fmlookup (set_mapped e q) s) = map_option q_frame (fmlookup q s)"
  by (auto simp: set_mapped_def split: option.splits)

lemma fold_set_mapped:
  "fmdom (fold set_mapped es q) = fmdom q \<and>
   map_option q_frame (fmlookup (fold set_mapped es q) s) = map_option q_frame (fmlookup q s)"
  by (induction es arbitrary: q) (auto simp: set_mapped_dom set_mapped_frames)

lemma queue_frames_remap: "queue_frames (fold set_mapped es q) = queue_frames q"
  by (rule ext) (simp add: queue_frames_def fold_set_mapped)

lemma remap_clock_wf:
  assumes "playout_wf p"
  shows "playout_wf (snd (remap_clock clock p))"
proof -
  have ok: "config_ok (p_config p)" using assms by (simp add: playout_wf_def)
  then obtain d where d: "duration_micros (minimum_delay (p_config p)) = Inr d"
    using config_ok_durations by blast
  then have "unat d = as_micros (minimum_delay (p_config p))" "unat d \<le> as_micros (maximum_delay (p_config p))"
    using config_ok_fields(3) [OF ok] by (auto simp: duration_micros_Inr as_micros_def div_le_mono)
  with assms d show ?thesis
    by (auto simp: remap_clock_def try_then_reading Let_def playout_wf_def delay_in_bounds_def fold_set_mapped queue_frames_remap split: sum.splits option.splits)
qed


text \<open>A frame that passes \<open>validate_capture_order\<close> fits between its neighbours, so among all frames.\<close>

lemma sorted_keys: "sorted (map fst (sorted_list_of_fmap m))"
  by (simp add: sorted_list_of_fmap_def comp_def sorted_list_of_fset.rep_eq)

lemma find_last_below:
  assumes "sorted (map fst xs)" "(k, v) \<in> set xs" "k < (s :: 'k :: linorder)"
  shows "\<exists>k' v'. find (\<lambda>(k, _). k < s) (rev xs) = Some (k', v') \<and> (k', v') \<in> set xs \<and> k \<le> k' \<and> k' < s"
  using assms
proof (induction xs rule: rev_induct)
  case (snoc x xs)
  obtain a b where x: "x = (a, b)" by (cases x)
  show ?case
  proof (cases "a < s")
    case True
    have "k \<le> a" using snoc.prems(1,2) by (auto simp: x sorted_append)
    then show ?thesis using True by (auto simp: x)
  next
    case False
    then have "(k, v) \<in> set xs" using snoc.prems(2,3) by (auto simp: x)
    then show ?thesis using snoc.IH snoc.prems False by (force simp: x sorted_append)
  qed
qed simp

lemma find_first_above:
  assumes "sorted (map fst xs)" "(k, v) \<in> set xs" "(s :: 'k :: linorder) \<le> k"
  shows "\<exists>k' v'. find (\<lambda>(k, _). s \<le> k) xs = Some (k', v') \<and> (k', v') \<in> set xs \<and> k' \<le> k \<and> s \<le> k'"
  using assms
proof (induction xs)
  case (Cons x xs)
  obtain a b where x: "x = (a, b)" by (cases x)
  show ?case
  proof (cases "s \<le> a")
    case True
    then show ?thesis using Cons.prems by (auto simp: x)
  next
    case False
    then have "(k, v) \<in> set xs" using Cons.prems(2,3) by (auto simp: x)
    then show ?thesis using Cons.IH Cons.prems False by (force simp: x)
  qed
qed simp

lemma validate_capture_order_Inr:
  assumes "validate_capture_order s t p = Inr ()" and "queue_ok p" and "queue_frames (p_queue p) k = Some f"
    and "t_sequence (p_target p) < s"
  shows "k < s \<Longrightarrow> f_sender_capture_time f \<le> t" "s \<le> k \<Longrightarrow> t \<le> f_sender_capture_time f"
    "t_sender_capture_time (p_target p) = Some c \<Longrightarrow> c \<le> t"
proof -
  let ?xs = "sorted_list_of_fmap (p_queue p)"
  obtain q where q: "fmlookup (p_queue p) k = Some q" "q_frame q = f" using assms(3) by (auto simp: queue_frames_def)
  have mem: "(k, q) \<in> set ?xs" using q by (simp add: set_sorted_list_of_fmap)
  note order = assms(2) [unfolded frames_ok_def, THEN conjunct2, rule_format]
  show "f_sender_capture_time f \<le> t" if "k < s"
  proof -
    obtain k' q' where f: "find (\<lambda>(k, _). k < s) (rev ?xs) = Some (k', q')" "(k', q') \<in> set ?xs" "k \<le> k'"
      using find_last_below [OF sorted_keys mem \<open>k < s\<close>] by blast
    then have "queue_frames (p_queue p) k' = Some (q_frame q')" by (simp add: set_sorted_list_of_fmap queue_frames_def)
    then have "f_sender_capture_time f \<le> f_sender_capture_time (q_frame q')" using order assms(3) f(3) by blast
    moreover have "\<not> t < f_sender_capture_time (q_frame q')"
      using assms(1) f(1) by (auto simp: validate_capture_order_def split: if_splits)
    ultimately show ?thesis by simp
  qed
  show "t \<le> f_sender_capture_time f" if "s \<le> k"
  proof -
    obtain k' q' where f: "find (\<lambda>(k, _). s \<le> k) ?xs = Some (k', q')" "(k', q') \<in> set ?xs" "k' \<le> k"
      using find_first_above [OF sorted_keys mem \<open>s \<le> k\<close>] by blast
    then have "queue_frames (p_queue p) k' = Some (q_frame q')" by (simp add: set_sorted_list_of_fmap queue_frames_def)
    then have "f_sender_capture_time (q_frame q') \<le> f_sender_capture_time f" using order assms(3) f(3) by blast
    moreover have "\<not> t > f_sender_capture_time (q_frame q')"
      using assms(1) f(1) by (auto simp: validate_capture_order_def split: if_splits option.splits)
    ultimately show ?thesis by simp
  qed
qed (use assms(1,4) in \<open>auto simp: validate_capture_order_def split: if_splits\<close>)


lemma frames_ok_insert:
  assumes "validate_capture_order s (f_sender_capture_time frame) p = Inr ()" and "queue_ok p"
    and "f_motion_sequence frame = s" and "f_session frame = p_session p" and "t_sequence (p_target p) < s"
    and "\<And>k. frames k = (if k = s then Some frame else queue_frames (p_queue p) k)"
  shows "frames_ok frames (p_session p) (t_sequence (p_target p)) (t_sender_capture_time (p_target p))"
proof -
  note old = assms(2) [unfolded frames_ok_def]
  have target: "c \<le> f_sender_capture_time frame" if "t_sender_capture_time (p_target p) = Some c" for c
    using assms(1,5) that by (auto simp: validate_capture_order_def split: if_splits)
  note order = validate_capture_order_Inr(1,2) [OF assms(1,2) _ assms(5)]
  have "f_motion_sequence f = k \<and> f_session f = p_session p \<and> t_sequence (p_target p) < k \<and>
      (\<forall>t. t_sender_capture_time (p_target p) = Some t \<longrightarrow> t \<le> f_sender_capture_time f)"
    if "frames k = Some f" for k f
  proof (cases "k = s")
    case True
    then show ?thesis using that assms(3-6) target by simp
  next
    case False
    then have "queue_frames (p_queue p) k = Some f" using that assms(6) by simp
    then show ?thesis using old by blast
  qed
  moreover have "f_sender_capture_time f \<le> f_sender_capture_time f'"
    if "frames k = Some f" "frames k' = Some f'" "k \<le> k'" for k f k' f'
  proof -
    consider "k = s" "k' = s" | "k = s" "k' \<noteq> s" | "k \<noteq> s" "k' = s" | "k \<noteq> s" "k' \<noteq> s" by blast
    then show ?thesis
    proof cases
      case 4
      then have "queue_frames (p_queue p) k = Some f" "queue_frames (p_queue p) k' = Some f'"
        using that assms(6) by auto
      then show ?thesis using old that(3) by blast
    qed (use that order assms(6) in auto)
  qed
  ultimately show ?thesis unfolding frames_ok_def by blast
qed

lemma sample_wf:
  assumes "playout_wf p"
  shows "\<exists>p'. record_delay_sample now d p = (Inr (), p') \<and> same_motion p p' \<and> playout_wf p'"
  using assms record_delay_sample_ok [of p now d] same_motion_wf [OF assms] by (auto simp: playout_wf_def)

text \<open>The two ends of \<open>ingest_frame\<close>: a frame behind the target, and a frame that is queued.\<close>

lemma ingest_retired_wf:
  assumes "playout_wf p"
  shows "playout_wf (snd (try_then (reading (\<lambda>_. map_err PClock (clock_map clock t)))
      (\<lambda>mapped. try_then (record_delay_sample now (saturating_sub_u64 now mapped)) (\<lambda>_ p.
        (Inr RetiredByCumulativeTarget, p))) p))"
proof (cases "clock_map clock t")
  case (Inr mapped)
  then show ?thesis using sample_wf [OF assms, of now "saturating_sub_u64 now mapped"]
    by (auto simp: try_then_def reading_def map_err_def)
qed (simp add: try_then_def reading_def map_err_def assms)

lemma enqueue_wf:
  assumes "playout_wf p" "same_motion p p'" "playout_wf p'" "fmlookup (p_queue p) s = None"
    "fcard (fmdom (p_queue p)) \<noteq> maximum_queued_frames (p_config p)" "f_session frame = p_session p"
    "t_sequence (p_target p) < s" "f_motion_sequence frame = s"
    "validate_capture_order s (f_sender_capture_time frame) p = Inr ()"
  shows "playout_wf (p'\<lparr>p_queue := fmupd s \<lparr>q_frame = frame, q_mapped_capture_time = m\<rparr> (p_queue p')\<rparr>)"
proof -
  have q: "queue_ok p" using assms(1) by (simp add: playout_wf_def)
  have "frames_ok (queue_frames (fmupd s \<lparr>q_frame = frame, q_mapped_capture_time = m\<rparr> (p_queue p)))
      (p_session p) (t_sequence (p_target p)) (t_sender_capture_time (p_target p))"
    by (rule frames_ok_insert [OF assms(9) q assms(8,6,7)]) (simp add: queue_frames_def)
  moreover have "fcard (finsert s (fmdom (p_queue p))) \<le> maximum_queued_frames (p_config p)"
    using assms(1,4,5) by (auto simp: playout_wf_def fcard_finsert_if)
  ultimately show ?thesis using assms(2,3) by (simp add: playout_wf_def same_motion_def delay_in_bounds_def)
qed

lemma ingest_new_wf:
  assumes "playout_wf p" "fmlookup (p_queue p) s = None"
    "fcard (fmdom (p_queue p)) \<noteq> maximum_queued_frames (p_config p)" "f_session frame = p_session p"
    "t_sequence (p_target p) < s" "f_motion_sequence frame = s"
  shows "playout_wf (snd (try_then (reading (\<lambda>_. map_err PClock (clock_map clock (f_sender_capture_time frame))))
      (\<lambda>mapped. try_then (reading (validate_capture_order s (f_sender_capture_time frame))) (\<lambda>_.
        try_then (record_delay_sample now (saturating_sub_u64 now mapped)) (\<lambda>_ p.
          (Inr (Queued s), p\<lparr>p_queue := fmupd s \<lparr>q_frame = frame, q_mapped_capture_time = mapped\<rparr> (p_queue p)\<rparr>)))) p))"
proof (cases "clock_map clock (f_sender_capture_time frame)")
  case mapped: (Inr mapped)
  obtain p' where p': "record_delay_sample now (saturating_sub_u64 now mapped) p = (Inr (), p')"
    "same_motion p p'" "playout_wf p'" using sample_wf [OF assms(1)] by blast
  show ?thesis
  proof (cases "validate_capture_order s (f_sender_capture_time frame) p")
    case (Inr u)
    then show ?thesis using enqueue_wf [OF assms(1) p'(2,3) assms(2-6), of mapped] p'(1) mapped
      by (simp add: try_then_def reading_def map_err_def)
  qed (simp add: try_then_def reading_def map_err_def mapped assms(1))
qed (simp add: try_then_def reading_def map_err_def assms(1))

lemma ingest_frame_wf:
  assumes "playout_wf p0"
  shows "playout_wf (snd (ingest_frame frame now clock p0))"
proof (cases "p_observe_time now p0")
  case (Pair r p)
  have wf: "playout_wf p" using p_observe_time_wf [OF assms, of now] Pair by simp
  show ?thesis
    using wf ingest_retired_wf [OF wf] ingest_new_wf [OF wf]
    by (auto simp: ingest_frame_def try_then_def [of "p_observe_time now"] Pair Let_def not_le
        split: option.split sum.split)
qed


section \<open>Polling\<close>

text \<open>The newest frame of the queue that is mature.\<close>

definition newest_mature :: "MonotonicTimeMicros \<Rightarrow> ReceiverPlayout \<Rightarrow> MotionSequence \<Rightarrow> QueuedFrame \<Rightarrow> bool" where
  "newest_mature now p s q \<longleftrightarrow>
     fmlookup (p_queue p) s = Some q \<and> mature now p q \<and>
     (\<forall>s' q'. fmlookup (p_queue p) s' = Some q' \<and> mature now p q' \<longrightarrow> s' \<le> s)"

lemma find_SomeD: "find P xs = Some x \<Longrightarrow> x \<in> set xs \<and> P x"
  by (induction xs) (auto split: if_splits)

lemma find_rev_sorted:
  assumes "sorted (map fst xs)" "find P (rev xs) = Some (k, v)" "(k', v') \<in> set xs" "P (k', v')"
  shows "k' \<le> (k :: 'k :: linorder)"
  using assms
proof (induction xs rule: rev_induct)
  case (snoc x xs)
  then show ?case by (cases "P x") (force simp: sorted_append)+
qed simp

lemma find_newest:
  assumes "find (\<lambda>(_, q). mature now p q) (rev (sorted_list_of_fmap (p_queue p))) = Some (s, q)"
  shows "newest_mature now p s q"
proof -
  have "(s, q) \<in> set (rev (sorted_list_of_fmap (p_queue p)))" "mature now p q"
    using find_SomeD [OF assms] by auto
  moreover have "s' \<le> s" if "fmlookup (p_queue p) s' = Some q'" "mature now p q'" for s' q'
    using find_rev_sorted [OF sorted_keys assms, of s' q'] that by (simp add: set_sorted_list_of_fmap)
  ultimately show ?thesis by (simp add: newest_mature_def set_sorted_list_of_fmap)
qed

lemma find_none_mature:
  "find (\<lambda>(_, q). mature now p q) (rev (sorted_list_of_fmap (p_queue p))) = None \<longleftrightarrow>
     (\<forall>s q. fmlookup (p_queue p) s = Some q \<longrightarrow> \<not> mature now p q)"
  by (auto simp: find_None_iff set_sorted_list_of_fmap)

text \<open>What selecting does to the state, apart from the velocities.\<close>

definition target_of :: "MotionSequence \<Rightarrow> QueuedFrame \<Rightarrow> Target" where
  "target_of s q =
     \<lparr>t_sequence = s, t_totals = f_totals (q_frame q),
      t_sender_capture_time = Some (f_sender_capture_time (q_frame q)),
      t_mapped_capture_time = q_mapped_capture_time q,
      t_pending_touch_snapshot = f_touch_snapshot (q_frame q)\<rparr>"

lemma update_velocity_fields:
  assumes "update_velocity hyp v p = (r, p')"
  shows "p_config p' = p_config p" "p_session p' = p_session p" "p_queue p' = p_queue p"
    "p_applied_control_sequence p' = p_applied_control_sequence p" "p_delay_samples p' = p_delay_samples p"
    "p_adaptive_delay_micros p' = p_adaptive_delay_micros p" "p_target p' = p_target p"
    "p_completed_sequence p' = p_completed_sequence p" "p_injected_totals p' = p_injected_totals p"
    "p_rebase_cutoff p' = p_rebase_cutoff p" "p_last_poll_time p' = p_last_poll_time p"
    "p_last_observed_time p' = p_last_observed_time p"
    "p_velocity_sample p' = (if is_ok r then Some v else p_velocity_sample p)"
  using assms
  by (auto simp: update_velocity_def Let_def split: option.splits sum.splits if_splits)

lemma update_velocity_error:
  assumes "update_velocity hyp v p = (Inl e, p')"
    and "\<And>w. p_velocity_sample p = Some w \<Longrightarrow> vs_sender_capture_time w \<le> vs_sender_capture_time v"
  shows "\<exists>o'. e = PMotionOverflow o'"
  using assms
  by (auto simp: update_velocity_def Let_def checked_sub_u64_def split: option.splits sum.splits if_splits)

lemma wf_frame:
  assumes "playout_wf p" "fmlookup (p_queue p) s = Some q"
  shows "f_motion_sequence (q_frame q) = s" "f_session (q_frame q) = p_session p" "t_sequence (p_target p) < s"
    "t_sender_capture_time (p_target p) = Some t \<Longrightarrow> t \<le> f_sender_capture_time (q_frame q)"
proof -
  have "queue_frames (p_queue p) s = Some (q_frame q)" using assms(2) by (simp add: queue_frames_def)
  then show "f_motion_sequence (q_frame q) = s" "f_session (q_frame q) = p_session p" "t_sequence (p_target p) < s"
    "t_sender_capture_time (p_target p) = Some t \<Longrightarrow> t \<le> f_sender_capture_time (q_frame q)"
    using assms(1) unfolding playout_wf_def frames_ok_def by blast+
qed

lemma frames_ok_retarget:
  assumes "frames_ok (queue_frames queue) session target captured" "fmlookup queue s = Some q"
  shows "frames_ok (queue_frames (fmfilter (\<lambda>k. s < k) queue)) session s (Some (f_sender_capture_time (q_frame q)))"
proof -
  have q: "queue_frames queue s = Some (q_frame q)" using assms(2) by (simp add: queue_frames_def)
  have "f_sender_capture_time (q_frame q) \<le> f_sender_capture_time f"
    if "queue_frames queue k = Some f" "s < k" for k f
    using assms(1) q that unfolding frames_ok_def by (meson less_imp_le)
  with frames_ok_filter [OF assms(1), of s] show ?thesis
    unfolding frames_ok_def queue_frames_filter by blast
qed

text \<open>The state in which the velocity is updated: the frame and everything older have left the queue.\<close>

definition dequeued :: "MotionSequence \<Rightarrow> QueuedFrame \<Rightarrow> MonotonicTimeMicros \<Rightarrow> ReceiverPlayout \<Rightarrow> ReceiverPlayout" where
  "dequeued s q now p = p\<lparr>p_queue := fmfilter (\<lambda>k. s < k) (p_queue p),
      p_scheduler_late_count := (if now > add_micros (q_mapped_capture_time q) (current_delay_micros p)
        then saturating_add_u64 (p_scheduler_late_count p) 1 else p_scheduler_late_count p)\<rparr>"

abbreviation sample_of :: "QueuedFrame \<Rightarrow> VelocitySample" where
  "sample_of q \<equiv> \<lparr>vs_sender_capture_time = f_sender_capture_time (q_frame q), vs_totals = f_totals (q_frame q)\<rparr>"

lemma select_Some:
  assumes "find (\<lambda>(_, q). mature now p q) (rev (sorted_list_of_fmap (p_queue p))) = Some (s, q)"
  shows "select_newest_mature_target hyp now p =
     (case update_velocity hyp (sample_of q) (dequeued s q now p) of
        (Inl e, p2) \<Rightarrow> (Inl e, p2)
      | (Inr _, p2) \<Rightarrow> (Inr (own_sample_start s p), p2\<lparr>p_target := target_of s q\<rparr>))"
  unfolding select_newest_mature_target_def Let_def try_then_def dequeued_def target_of_def using assms by simp

lemma dequeued_fields [simp]:
  "p_queue (dequeued s q now p) = fmfilter (\<lambda>k. s < k) (p_queue p)" "p_config (dequeued s q now p) = p_config p"
  "p_session (dequeued s q now p) = p_session p" "p_target (dequeued s q now p) = p_target p"
  "p_applied_control_sequence (dequeued s q now p) = p_applied_control_sequence p"
  "p_injected_totals (dequeued s q now p) = p_injected_totals p"
  by (simp_all add: dequeued_def)

lemma dequeued_card:
  "playout_wf p \<Longrightarrow> fcard (fmdom (fmfilter P (p_queue p))) \<le> maximum_queued_frames (p_config p)"
  using fcard_fmfilter [of P "p_queue p"] by (simp add: playout_wf_def)

lemma retarget_wf:
  assumes wf: "playout_wf p" and look: "fmlookup (p_queue p) s = Some q"
    and v: "update_velocity hyp (sample_of q) (dequeued s q now p) = (Inr u, p2)"
  shows "playout_wf (p2\<lparr>p_target := target_of s q\<rparr>)"
proof -
  have "queue_ok p" using wf by (simp add: playout_wf_def)
  from frames_ok_retarget [OF this look] show ?thesis
    using wf update_velocity_fields [OF v] dequeued_card [OF wf] wf_frame(3) [OF wf look]
    by (auto simp: playout_wf_def delay_in_bounds_def dequeued_def target_of_def)
qed

lemma failed_velocity:
  assumes wf: "playout_wf p" and look: "fmlookup (p_queue p) s = Some q"
    and v: "update_velocity hyp (sample_of q) (dequeued s q now p) = (Inl e, p2)"
  shows "playout_wf p2 \<and> (\<exists>o'. e = PMotionOverflow o')"
proof
  have "queue_ok p" using wf by (simp add: playout_wf_def)
  then have "frames_ok (queue_frames (fmfilter (\<lambda>k. s < k) (p_queue p))) (p_session p)
      (t_sequence (p_target p)) (t_sender_capture_time (p_target p))"
    by (rule frames_ok_sub) (use wf_frame(3) [OF wf look] in \<open>auto simp: queue_frames_filter\<close>)
  then show "playout_wf p2"
    using wf update_velocity_fields [OF v] dequeued_card [OF wf]
    by (simp add: playout_wf_def delay_in_bounds_def dequeued_def)
  have "vs_sender_capture_time w \<le> f_sender_capture_time (q_frame q)" if "p_velocity_sample p = Some w" for w
    using wf wf_frame(4) [OF wf look] that by (simp add: playout_wf_def)
  then show "\<exists>o'. e = PMotionOverflow o'"
    using update_velocity_error [OF v] by (auto simp: dequeued_def)
qed

lemma select_cases:
  assumes wf: "playout_wf p" and sel: "select_newest_mature_target hyp now p = (r, p')"
  obtains (None) "r = Inr None" "p' = p" "\<forall>s q. fmlookup (p_queue p) s = Some q \<longrightarrow> \<not> mature now p q"
  | (Some) s q where "newest_mature now p s q" "r = Inr (own_sample_start s p)" "p_target p' = target_of s q"
      "p_queue p' = fmfilter (\<lambda>k. s < k) (p_queue p)" "playout_wf p'"
      "p_injected_totals p' = p_injected_totals p" "p_session p' = p_session p"
      "p_applied_control_sequence p' = p_applied_control_sequence p" "p_config p' = p_config p"
  | (Error) e s q where "newest_mature now p s q" "r = Inl (PMotionOverflow e)" "p_target p' = p_target p"
      "playout_wf p'" "p_injected_totals p' = p_injected_totals p" "p_session p' = p_session p"
      "p_applied_control_sequence p' = p_applied_control_sequence p" "p_config p' = p_config p"
proof (cases "find (\<lambda>(_, q). mature now p q) (rev (sorted_list_of_fmap (p_queue p)))")
  case n: None
  then show ?thesis using sel None by (auto simp: select_newest_mature_target_def find_none_mature [symmetric])
next
  case f: (Some kq)
  obtain s q where kq: "kq = (s, q)" by (cases kq)
  have new: "newest_mature now p s q" using f by (simp add: kq find_newest)
  then have look: "fmlookup (p_queue p) s = Some q" by (simp add: newest_mature_def)
  obtain r1 p2 where v: "update_velocity hyp (sample_of q) (dequeued s q now p) = (r1, p2)" by fastforce
  note fields = update_velocity_fields [OF v]
  show ?thesis
  proof (cases r1)
    case (Inl e)
    then have "r = Inl e" "p' = p2" using sel v select_Some [of now p s q hyp] f kq by auto
    moreover obtain o' where "e = PMotionOverflow o'" "playout_wf p2"
      using failed_velocity [OF wf look v [unfolded Inl]] by blast
    ultimately show ?thesis using Error [OF new] fields by simp
  next
    case (Inr u)
    then have "r = Inr (own_sample_start s p)" "p' = p2\<lparr>p_target := target_of s q\<rparr>"
      using sel v select_Some [of now p s q hyp] f kq by auto
    moreover have "playout_wf (p2\<lparr>p_target := target_of s q\<rparr>)" by (rule retarget_wf [OF wf look v [unfolded Inr]])
    ultimately show ?thesis using Some [OF new] fields by simp
  qed
qed

lemma emit_step_cases:
  assumes "emit_step delta touch pl sl p = (r, p')"
  obtains (Error) e where "r = Inl (PMotionOverflow e)" "p' = p"
  | (Step) step where "r = Inr (Some step)" "motion_checked_add (p_injected_totals p) delta = Inr (p_injected_totals p')"
      "ps_delta step = delta" "ps_touch_snapshot step = touch" "ps_through_sequence step = t_sequence (p_target p)"
      "ps_mapped_capture_time step = t_mapped_capture_time (p_target p)"
      "ps_target_reached step \<longleftrightarrow> p_injected_totals p' = t_totals (p_target p)"
      "p' = p\<lparr>p_injected_totals := p_injected_totals p', p_catch_up_step_count := p_catch_up_step_count p',
         p_completed_sequence := (if ps_target_reached step
           then max (p_completed_sequence p) (t_sequence (p_target p)) else p_completed_sequence p)\<rparr>"
proof (cases "motion_checked_add (p_injected_totals p) delta")
  case (Inl e)
  then show ?thesis using assms by (intro Error) (auto simp: emit_step_def)
next
  case (Inr totals)
  then show ?thesis using assms by (intro Step) (auto simp: emit_step_def Let_def)
qed

definition touch_taken :: "ReceiverPlayout \<Rightarrow> ReceiverPlayout" where
  "touch_taken p = p\<lparr>p_target := (p_target p)\<lparr>t_pending_touch_snapshot := None\<rparr>\<rparr>"

lemma touch_taken_fields [simp]:
  "t_sequence (p_target (touch_taken p)) = t_sequence (p_target p)"
  "t_totals (p_target (touch_taken p)) = t_totals (p_target p)"
  "t_sender_capture_time (p_target (touch_taken p)) = t_sender_capture_time (p_target p)"
  "t_mapped_capture_time (p_target (touch_taken p)) = t_mapped_capture_time (p_target p)"
  "t_pending_touch_snapshot (p_target (touch_taken p)) = None"
  "p_injected_totals (touch_taken p) = p_injected_totals p" "p_config (touch_taken p) = p_config p"
  "p_queue (touch_taken p) = p_queue p" "p_session (touch_taken p) = p_session p"
  "p_completed_sequence (touch_taken p) = p_completed_sequence p"
  "p_pointer_velocity_per_micro (touch_taken p) = p_pointer_velocity_per_micro p"
  "p_scroll_velocity_per_micro (touch_taken p) = p_scroll_velocity_per_micro p"
  by (simp_all add: touch_taken_def)

lemma touch_taken_wf: "playout_wf p \<Longrightarrow> playout_wf (touch_taken p)"
  by (simp add: playout_wf_def touch_taken_def delay_in_bounds_def)

text \<open>The step that \<open>advance_towards_target\<close> emits, or why it emits none.\<close>

lemma advance_cases:
  assumes "advance_towards_target hyp elapsed start p = (r, p')"
  obtains (Done) "r = Inr None" "p_injected_totals p = t_totals (p_target p)" "t_pending_touch_snapshot (p_target p) = None"
      "p' = (touch_taken p)\<lparr>p_completed_sequence := max (p_completed_sequence p) (t_sequence (p_target p))\<rparr>"
  | (Step) backlog fresh pointer_cap scroll_cap where
      "checked_delta_from (case start of None \<Rightarrow> t_totals (p_target p) | Some s \<Rightarrow> s) (p_injected_totals p) = Inr backlog"
      "checked_delta_from (t_totals (p_target p)) (case start of None \<Rightarrow> t_totals (p_target p) | Some s \<Rightarrow> s) = Inr fresh"
      "catch_up_cap p (p_pointer_velocity_per_micro p) elapsed = Inr pointer_cap"
      "catch_up_cap p (p_scroll_velocity_per_micro p) elapsed = Inr scroll_cap"
      "p_injected_totals p \<noteq> t_totals (p_target p) \<or> t_pending_touch_snapshot (p_target p) \<noteq> None"
      "(r, p') = emit_step (step_delta (limit_pair hyp (dx backlog) (dy backlog) pointer_cap)
           (limit_pair hyp (scroll_x backlog) (scroll_y backlog) scroll_cap) fresh) (t_pending_touch_snapshot (p_target p))
           (snd (snd (limit_pair hyp (dx backlog) (dy backlog) pointer_cap)))
           (snd (snd (limit_pair hyp (scroll_x backlog) (scroll_y backlog) scroll_cap))) (touch_taken p)"
  | (Error) e where "r = Inl e" "p' = p \<or> p' = touch_taken p"
proof -
  have cap: "catch_up_cap (touch_taken p) = catch_up_cap p" by (intro ext) (simp add: catch_up_cap_def)
  note eq = assms [unfolded advance_towards_target_def try_then_reading Let_def, folded touch_taken_def]
  show ?thesis
  proof (cases "checked_delta_from (t_totals (p_target p)) (p_injected_totals p)")
    case (Inl e)
    then show ?thesis using eq Error by (auto simp: map_err_def)
  next
    case (Inr remaining)
    show ?thesis
    proof (cases "remaining = delta_default \<and> t_pending_touch_snapshot (p_target p) = None")
      case True
      then have "t_totals (p_target p) = p_injected_totals p" using Inr by (simp add: checked_delta_from_default)
      then show ?thesis using eq Inr True by (intro Done) (auto simp: map_err_def)
    next
      case False
      then have "p_injected_totals p \<noteq> t_totals (p_target p) \<or> t_pending_touch_snapshot (p_target p) \<noteq> None"
        using Inr by (auto simp: checked_delta_from_default)
      then show ?thesis using eq Inr False Step Error
        by (cases start) (auto simp: map_err_def cap try_then_reading split: sum.splits)
    qed
  qed
qed

lemma advance_towards_target_wf:
  assumes "playout_wf p" "advance_towards_target hyp elapsed start p = (r, p')"
  shows "playout_wf p'"
  using assms(2)
proof (cases rule: advance_cases)
  case Done
  then show ?thesis using touch_taken_wf [OF assms(1)] by (auto simp: playout_wf_def max_def delay_in_bounds_def)
next
  case (Step backlog fresh pointer_cap scroll_cap)
  note wf = touch_taken_wf [OF assms(1)]
  show ?thesis
  proof (rule emit_step_cases [OF Step(6) [symmetric]])
    fix step
    assume reached: "ps_target_reached step \<longleftrightarrow> p_injected_totals p' = t_totals (p_target (touch_taken p))"
      and p': "p' = (touch_taken p)\<lparr>p_injected_totals := p_injected_totals p',
         p_catch_up_step_count := p_catch_up_step_count p',
         p_completed_sequence := (if ps_target_reached step
           then max (p_completed_sequence (touch_taken p)) (t_sequence (p_target (touch_taken p)))
           else p_completed_sequence (touch_taken p))\<rparr>"
    have "p_completed_sequence p \<noteq> t_sequence (p_target p)" using assms(1) Step(5) by (auto simp: playout_wf_def)
    with wf reached show "playout_wf p'"
      by (subst p') (auto simp: playout_wf_def delay_in_bounds_def touch_taken_def max_def)
  qed (use wf in simp)
next
  case (Error e)
  then show ?thesis using assms(1) touch_taken_wf by auto
qed

text \<open>The two clocks that \<open>poll\<close> moves before it selects a target.\<close>

definition clocked :: "MonotonicTimeMicros \<Rightarrow> ReceiverPlayout \<Rightarrow> ReceiverPlayout" where
  "clocked now p = p\<lparr>p_last_observed_time := Some now, p_last_poll_time := Some now\<rparr>"

lemma current_delay_clocked [simp]: "current_delay_micros (clocked now p) = current_delay_micros p"
  by (simp add: current_delay_micros_def clocked_def split: PlayoutDelayMode.split)

lemma clocked_fields [simp]:
  "p_queue (clocked now p) = p_queue p" "p_config (clocked now p) = p_config p"
  "p_session (clocked now p) = p_session p" "p_target (clocked now p) = p_target p"
  "p_applied_control_sequence (clocked now p) = p_applied_control_sequence p"
  "p_injected_totals (clocked now p) = p_injected_totals p"
  "p_completed_sequence (clocked now p) = p_completed_sequence p"
  "playout_wf (clocked now p) = playout_wf p" "mature t (clocked now p) = mature t p"
  "newest_mature t (clocked now p) = newest_mature t p" "own_sample_start s (clocked now p) = own_sample_start s p"
proof -
  show m: "mature t (clocked now p) = mature t p" by (simp add: mature_def fun_eq_iff) (simp add: clocked_def)
  show "newest_mature t (clocked now p) = newest_mature t p" by (simp add: newest_mature_def m fun_eq_iff) (simp add: clocked_def)
qed (auto simp: clocked_def playout_wf_def delay_in_bounds_def own_sample_start_def Let_def)

definition poll_gap :: "MonotonicTimeMicros \<Rightarrow> ReceiverPlayout \<Rightarrow> u64" where
  "poll_gap now p = (case p_last_poll_time p of
     None \<Rightarrow> of_nat (as_micros (scheduler_tick (p_config p))) | Some prior \<Rightarrow> max (saturating_sub_u64 now prior) 1)"

lemma poll_eq:
  assumes "config_ok (p_config p)"
  shows "poll hyp now p =
     (if (case p_last_observed_time p of None \<Rightarrow> False | Some prior \<Rightarrow> now < prior)
      then (Inl PReceiverClockMovedBackwards, p)
      else try_then (select_newest_mature_target hyp now) (advance_towards_target hyp (poll_gap now p)) (clocked now p))"
proof -
  obtain d where "duration_micros (scheduler_tick (p_config p)) = Inr d"
    using config_ok_durations [OF assms] by blast
  moreover from this have "d = of_nat (as_micros (scheduler_tick (p_config p)))"
    by (simp add: duration_micros_def split: if_splits)
  ultimately show ?thesis
    by (simp add: poll_def try_then_def [of "p_observe_time now"] p_observe_time_def poll_elapsed_def poll_gap_def
        try_then_def [of "reading _"] try_then_def [of "try_then _ _"] reading_def clocked_def)
qed

lemma poll_wf:
  assumes "playout_wf p"
  shows "playout_wf (snd (poll hyp now p))"
proof -
  have ok: "config_ok (p_config p)" using assms by (simp add: playout_wf_def)
  have "playout_wf (snd (try_then (select_newest_mature_target hyp now) (advance_towards_target hyp gap) (clocked now p)))"
    for gap
  proof (rule try_then_invar)
    show "playout_wf (snd (select_newest_mature_target hyp now (clocked now p)))"
      using assms by (cases "select_newest_mature_target hyp now (clocked now p)")
        (auto elim: select_cases [rotated])
    fix start p1
    assume "select_newest_mature_target hyp now (clocked now p) = (Inr start, p1)"
    then have "playout_wf p1" using assms by (auto elim: select_cases [rotated])
    then show "playout_wf (snd (advance_towards_target hyp gap start p1))"
      using advance_towards_target_wf by (metis prod.collapse)
  qed
  then show ?thesis using assms by (simp add: poll_eq [OF ok])
qed

lemma snd_try_then_ignore [simp]: "snd (try_then m (\<lambda>_ p. (Inr c, p)) p) = snd (m p)"
  by (simp add: try_then_def split: prod.split sum.split)

lemma playout_step_wf: "playout_wf p \<Longrightarrow> playout_wf (snd (playout_step hyp op p))"
proof (cases op)
  case (PoPoll now)
  then show "playout_wf p \<Longrightarrow> ?thesis" by (simp add: poll_wf)
qed (simp_all add: advance_wf ingest_frame_wf rebase_wf remap_clock_wf)

end
