(* ===== verification/Playout_Motion.thy ===== *)
theory Playout_Motion
  imports Playout
begin

text \<open>
  What the playout does with motion: the steps that \<open>poll\<close> emits add up to the motion that was injected, a
  limited step goes towards the target and is never zero before it, so the backlog drains, and the
  newest mature frame is the one that is played.
\<close>

section \<open>Limited steps\<close>

text \<open>\<open>a'\<close> lies between zero and \<open>a\<close>.\<close>

definition towards :: "int \<Rightarrow> int \<Rightarrow> bool" where
  "towards a' a \<longleftrightarrow> (0 \<le> a' \<and> a' \<le> a) \<or> (a \<le> a' \<and> a' \<le> 0)"

lemma f_of_uint: "\<exists>c. f_of_int (uint (w :: u64)) = Finite c \<and> 0 \<le> c"
proof -
  have "uint w \<le> 2 ^ 64" using uint_bounded [of w] by simp
  then have "f_le (f_of_int (uint w)) (f_of_int (2 ^ 64))" by (rule f_of_int_mono)
  moreover have "f_of_int (2 ^ 64) = Finite (2 ^ 64)"
    using round_f64_powi [of 64] F64_LIMIT_gt by (simp add: f_of_int_def rounded_bounded)
  moreover have "f_le (f_of_int 0) (f_of_int (uint w))" by (rule f_of_int_mono) simp
  ultimately show ?thesis using f_le_Finite [of 0 "f_of_int (uint w)" "2 ^ 64"] by auto
qed

lemma scale_bounds:
  assumes "\<not> f_le m (f_of_int (uint (cap :: u64)))"
  shows "f_div (f_of_int (uint cap)) m = NaN \<or> (\<exists>k. f_div (f_of_int (uint cap)) m = Finite k \<and> 0 \<le> k \<and> k \<le> 1)"
proof -
  obtain c where c: "f_of_int (uint cap) = Finite c" "0 \<le> c" using f_of_uint by blast
  show ?thesis
  proof (cases m)
    case (Finite v)
    then have v: "c < v" using assms c by simp
    then have "0 \<le> c / v" "c / v \<le> 1" using c by (auto simp: field_simps)
    then have "f_le (Finite 0) (rounded (c / v))" "f_le (rounded (c / v)) (Finite 1)"
      using rounded_mono [of 0 "c / v"] rounded_mono [of "c / v" 1] by simp_all
    then show ?thesis using f_le_Finite [of 0 "rounded (c / v)" 1] v c by (auto simp: Finite)
  qed (use assms c in auto)
qed

lemma scaled_towards:
  assumes a: "\<bar>sint a\<bar> \<le> 2 ^ 53" and s: "s = NaN \<or> (\<exists>k. s = Finite k \<and> 0 \<le> k \<and> k \<le> 1)"
  shows "towards (sint (f_as_i64 (f_round (f_mul (f_of_int (sint a)) s)))) (sint a)"
proof (cases "s = NaN")
  case False
  then obtain k where k: "s = Finite k" "0 \<le> k" "k \<le> 1" using s by blast
  define n where "n = sint a"
  define lo hi where "lo = min 0 n" and "hi = max 0 n"
  have n: "\<bar>n\<bar> \<le> 2 ^ 53" "\<bar>lo\<bar> \<le> 2 ^ 53" "\<bar>hi\<bar> \<le> 2 ^ 53" using a by (auto simp: n_def lo_def hi_def)
  have prod: "of_int lo \<le> of_int n * k" "of_int n * k \<le> of_int hi"
    using k mult_left_le [of k "of_int n"] mult_left_le [of k "- of_int n"]
    by (auto simp: lo_def hi_def min_def max_def mult_nonneg_nonneg mult_nonpos_nonneg)
  have "f_le (rounded (of_int lo)) (rounded (of_int n * k))" "f_le (rounded (of_int n * k)) (rounded (of_int hi))"
    using prod by (auto intro: rounded_mono)
  then obtain w where w: "rounded (of_int n * k) = Finite w" "of_int lo \<le> w" "w \<le> of_int hi"
    using f_le_Finite [of "of_int lo" "rounded (of_int n * k)" "of_int hi"] n by (auto simp: rounded_int)
  have "lo \<le> round_half_away w" "round_half_away w \<le> hi"
    using round_half_away_mono [OF w(2)] round_half_away_mono [OF w(3)] by auto
  moreover from this n have "sint (word_of_int (max (- (2 ^ 63)) (min (2 ^ 63 - 1) (round_half_away w))) :: i64) =
      round_half_away w"
    by (auto simp: min_def max_def sint_sbintrunc' signed_take_bit_int_eq_self)
  ultimately show ?thesis using k n w(1)
    by (auto simp: f_of_int_exact towards_def lo_def hi_def min_def max_def simp flip: n_def split: if_splits)
qed (simp add: towards_def, linarith)

lemma signum_towards: "towards (sint (signum a)) (sint a)" "signum a = 0 \<longleftrightarrow> a = 0"
proof -
  have "sint (signum a) = sgn (sint a)"
    by (simp add: signum_def sint_sbintrunc' signed_take_bit_int_eq_self sgn_if)
  then show "towards (sint (signum a)) (sint a)" "signum a = 0 \<longleftrightarrow> a = 0"
    by (auto simp: towards_def sgn_if i64_eq_iff split: if_splits)
qed

lemma limit_pair_towards:
  assumes "\<bar>sint a\<bar> \<le> 2 ^ 53" "\<bar>sint b\<bar> \<le> 2 ^ 53" "limit_pair hyp a b cap = (a', b', limited)"
  shows "towards (sint a') (sint a)" "towards (sint b') (sint b)" "a' = 0 \<and> b' = 0 \<Longrightarrow> a = 0 \<and> b = 0"
proof -
  let ?m = "pair_magnitude hyp a b"
  have "towards (sint a') (sint a) \<and> towards (sint b') (sint b) \<and> (a' = 0 \<and> b' = 0 \<longrightarrow> a = 0 \<and> b = 0)"
  proof (cases "f_le ?m (f_of_int (uint cap)) \<or> ?m = Finite 0")
    case True
    then show ?thesis using assms(3) by (auto simp: limit_pair_def Let_def towards_def)
  next
    case False
    define x where "x = f_as_i64 (f_round (f_mul (f_of_int (sint a)) (f_div (f_of_int (uint cap)) ?m)))"
    define y where "y = f_as_i64 (f_round (f_mul (f_of_int (sint b)) (f_div (f_of_int (uint cap)) ?m)))"
    have xy: "towards (sint x) (sint a)" "towards (sint y) (sint b)"
      using False scaled_towards [OF assms(1) scale_bounds] scaled_towards [OF assms(2) scale_bounds]
      by (auto simp: x_def y_def)
    have "limit_pair hyp a b cap = (if x = 0 \<and> y = 0
        then if \<bar>sint a\<bar> \<ge> \<bar>sint b\<bar> then (signum a, y, True) else (x, signum b, True) else (x, y, True))"
      using False by (simp add: limit_pair_def Let_def x_def y_def)
    then show ?thesis
      using assms(3) xy signum_towards by (auto simp: i64_eq_iff split: if_splits)
  qed
  then show "towards (sint a') (sint a)" "towards (sint b') (sint b)" "a' = 0 \<and> b' = 0 \<Longrightarrow> a = 0 \<and> b = 0"
    by auto
qed

section \<open>Draining the backlog\<close>

text \<open>How far the injected totals are from the target, and that no axis is farther than \<open>2 ^ 53\<close>.\<close>

fun axes_dist :: "int \<times> int \<times> int \<times> int \<Rightarrow> int \<times> int \<times> int \<times> int \<Rightarrow> nat" where
  "axes_dist (a, b, c, d) (a', b', c', d') = nat (\<bar>a - a'\<bar> + \<bar>b - b'\<bar> + \<bar>c - c'\<bar> + \<bar>d - d'\<bar>)"

lemma axes_dist_self [simp]: "axes_dist v v = 0"
  by (cases v) simp

fun axes_near :: "int \<times> int \<times> int \<times> int \<Rightarrow> int \<times> int \<times> int \<times> int \<Rightarrow> bool" where
  "axes_near (a, b, c, d) (a', b', c', d') \<longleftrightarrow>
     \<bar>a - a'\<bar> \<le> 2 ^ 53 \<and> \<bar>b - b'\<bar> \<le> 2 ^ 53 \<and> \<bar>c - c'\<bar> \<le> 2 ^ 53 \<and> \<bar>d - d'\<bar> \<le> 2 ^ 53"

definition backlog :: "ReceiverPlayout \<Rightarrow> nat" where
  "backlog p = axes_dist (motion_ints (t_totals (p_target p))) (motion_ints (p_injected_totals p))"

definition near_target :: "ReceiverPlayout \<Rightarrow> bool" where
  "near_target p \<longleftrightarrow> axes_near (motion_ints (t_totals (p_target p))) (motion_ints (p_injected_totals p))"

lemma backlog_0: "backlog p = 0 \<longleftrightarrow> p_injected_totals p = t_totals (p_target p)"
  by (auto simp: backlog_def motion_ints_def simp flip: motion_ints_eq_iff)

lemma near_delta:
  assumes "near_target p"
  obtains d where "checked_delta_from (t_totals (p_target p)) (p_injected_totals p) = Inr d"
    "\<bar>sint (dx d)\<bar> \<le> 2 ^ 53" "\<bar>sint (dy d)\<bar> \<le> 2 ^ 53" "\<bar>sint (scroll_x d)\<bar> \<le> 2 ^ 53" "\<bar>sint (scroll_y d)\<bar> \<le> 2 ^ 53"
proof -
  have "is_ok (checked_delta_from (t_totals (p_target p)) (p_injected_totals p))"
    using assms by (auto simp: checked_delta_from_ok in_i64_def near_target_def motion_ints_def abs_le_iff)
  then obtain d where d: "checked_delta_from (t_totals (p_target p)) (p_injected_totals p) = Inr d"
    by (auto simp: is_ok_iff)
  moreover have "\<bar>sint (dx d)\<bar> \<le> 2 ^ 53" "\<bar>sint (dy d)\<bar> \<le> 2 ^ 53" "\<bar>sint (scroll_x d)\<bar> \<le> 2 ^ 53"
    "\<bar>sint (scroll_y d)\<bar> \<le> 2 ^ 53"
    using assms d by (auto simp: near_target_def motion_ints_def checked_delta_from_Inr motion_checked_add_Inr)
  ultimately show ?thesis using that by blast
qed

text \<open>A step that goes towards the target on every axis can be added, and shortens the way.\<close>

lemma towards_add:
  assumes "near_target p" "checked_delta_from (t_totals (p_target p)) (p_injected_totals p) = Inr d"
    and "towards (sint (dx e)) (sint (dx d))" "towards (sint (dy e)) (sint (dy d))"
      "towards (sint (scroll_x e)) (sint (scroll_x d))" "towards (sint (scroll_y e)) (sint (scroll_y d))"
  obtains t where "motion_checked_add (p_injected_totals p) e = Inr t"
    "axes_near (motion_ints (t_totals (p_target p))) (motion_ints t)"
    "axes_dist (motion_ints (t_totals (p_target p))) (motion_ints t) + axes_dist (delta_ints e) (0, 0, 0, 0) = backlog p"
proof -
  let ?i = "p_injected_totals p" and ?t = "t_totals (p_target p)"
  have d: "sint (total_dx ?t) = sint (total_dx ?i) + sint (dx d)" "sint (total_dy ?t) = sint (total_dy ?i) + sint (dy d)"
    "sint (total_scroll_x ?t) = sint (total_scroll_x ?i) + sint (scroll_x d)"
    "sint (total_scroll_y ?t) = sint (total_scroll_y ?i) + sint (scroll_y d)"
    using assms(2) by (auto simp: checked_delta_from_Inr motion_checked_add_Inr)
  have axis: "in_i64 (sint i + e')" if "sint (t :: i64) = sint (i :: i64) + d'" "towards e' d'" for i t :: i64 and e' d'
    using that in_i64_sint [of i] in_i64_sint [of t] by (auto simp: towards_def in_i64_def)
  have "is_ok (motion_checked_add ?i e)"
    using axis d assms(3-6) by (auto simp: motion_checked_add_ok)
  then obtain t where t: "motion_checked_add ?i e = Inr t" by (auto simp: is_ok_iff)
  then have e: "sint (total_dx t) = sint (total_dx ?i) + sint (dx e)" "sint (total_dy t) = sint (total_dy ?i) + sint (dy e)"
    "sint (total_scroll_x t) = sint (total_scroll_x ?i) + sint (scroll_x e)"
    "sint (total_scroll_y t) = sint (total_scroll_y ?i) + sint (scroll_y e)"
    by (auto simp: motion_checked_add_Inr)
  have dist: "\<bar>d' - e'\<bar> + \<bar>e'\<bar> = \<bar>d'\<bar>" if "towards e' d'" for e' d' using that by (auto simp: towards_def)
  have near: "\<bar>d' - e'\<bar> \<le> b" if "towards e' d'" "\<bar>d'\<bar> \<le> b" for b e' d' :: int using dist [OF that(1)] that(2) by linarith
  show ?thesis
  proof (rule that [OF t])
    show "axes_near (motion_ints ?t) (motion_ints t)"
      using assms(1) near [OF assms(3)] near [OF assms(4)] near [OF assms(5)] near [OF assms(6)]
      by (simp add: near_target_def motion_ints_def d e)
    show "axes_dist (motion_ints ?t) (motion_ints t) + axes_dist (delta_ints e) (0, 0, 0, 0) = backlog p"
      by (simp add: backlog_def motion_ints_def delta_ints_def d e flip: nat_add_distrib
          dist [OF assms(3)] dist [OF assms(4)] dist [OF assms(5)] dist [OF assms(6)]) (simp add: ac_simps)
  qed
qed


lemma catch_up_cap_ok: "config_ok (p_config p) \<Longrightarrow> \<exists>c. catch_up_cap p v elapsed = Inr c"
  using config_ok_durations(6) [of "p_config p"] by (auto simp: catch_up_cap_def Let_def)

lemma advance_None:
  assumes "config_ok (p_config p)" "checked_delta_from (t_totals (p_target p)) (p_injected_totals p) = Inr d"
  shows "\<exists>pc sc. advance_towards_target hyp elapsed None p =
     (if d = delta_default \<and> t_pending_touch_snapshot (p_target p) = None
      then (Inr None, (touch_taken p)\<lparr>p_completed_sequence := max (p_completed_sequence p) (t_sequence (p_target p))\<rparr>)
      else emit_step (step_delta (limit_pair hyp (dx d) (dy d) pc) (limit_pair hyp (scroll_x d) (scroll_y d) sc) delta_default)
        (t_pending_touch_snapshot (p_target p)) (snd (snd (limit_pair hyp (dx d) (dy d) pc)))
        (snd (snd (limit_pair hyp (scroll_x d) (scroll_y d) sc))) (touch_taken p))"
proof -
  obtain pc sc where "catch_up_cap (touch_taken p) (p_pointer_velocity_per_micro (touch_taken p)) elapsed = Inr pc"
    "catch_up_cap (touch_taken p) (p_scroll_velocity_per_micro (touch_taken p)) elapsed = Inr sc"
    using catch_up_cap_ok assms(1) by (metis touch_taken_fields(7))
  then have "advance_towards_target hyp elapsed None p =
     (if d = delta_default \<and> t_pending_touch_snapshot (p_target p) = None
      then (Inr None, (touch_taken p)\<lparr>p_completed_sequence := max (p_completed_sequence p) (t_sequence (p_target p))\<rparr>)
      else emit_step (step_delta (limit_pair hyp (dx d) (dy d) pc) (limit_pair hyp (scroll_x d) (scroll_y d) sc) delta_default)
        (t_pending_touch_snapshot (p_target p)) (snd (snd (limit_pair hyp (dx d) (dy d) pc)))
        (snd (snd (limit_pair hyp (scroll_x d) (scroll_y d) sc))) (touch_taken p))"
    unfolding advance_towards_target_def try_then_reading Let_def touch_taken_def [symmetric]
    using assms(2) by (simp add: map_err_def)
  then show ?thesis by blast
qed

lemma limited_step:
  assumes "near_target p" "checked_delta_from (t_totals (p_target p)) (p_injected_totals p) = Inr d"
    "\<bar>sint (dx d)\<bar> \<le> 2 ^ 53" "\<bar>sint (dy d)\<bar> \<le> 2 ^ 53" "\<bar>sint (scroll_x d)\<bar> \<le> 2 ^ 53" "\<bar>sint (scroll_y d)\<bar> \<le> 2 ^ 53"
    and e: "e = step_delta (limit_pair hyp (dx d) (dy d) pc) (limit_pair hyp (scroll_x d) (scroll_y d) sc) delta_default"
  obtains t where "motion_checked_add (p_injected_totals p) e = Inr t"
    "axes_near (motion_ints (t_totals (p_target p))) (motion_ints t)"
    "backlog p \<noteq> 0 \<Longrightarrow> axes_dist (motion_ints (t_totals (p_target p))) (motion_ints t) < backlog p"
    "backlog p = 0 \<Longrightarrow> t = t_totals (p_target p)"
proof -
  obtain px py pl where p: "limit_pair hyp (dx d) (dy d) pc = (px, py, pl)" by (cases "limit_pair hyp (dx d) (dy d) pc")
  obtain sx sy sl where s: "limit_pair hyp (scroll_x d) (scroll_y d) sc = (sx, sy, sl)"
    by (cases "limit_pair hyp (scroll_x d) (scroll_y d) sc")
  have e': "e = \<lparr>dx = px, dy = py, scroll_x = sx, scroll_y = sy\<rparr>"
    by (simp add: e p s step_delta_def delta_default_def)
  note lp = limit_pair_towards [OF assms(3,4) p] and ls = limit_pair_towards [OF assms(5,6) s]
  obtain t where t: "motion_checked_add (p_injected_totals p) e = Inr t"
    "axes_near (motion_ints (t_totals (p_target p))) (motion_ints t)"
    "axes_dist (motion_ints (t_totals (p_target p))) (motion_ints t) + axes_dist (delta_ints e) (0, 0, 0, 0) = backlog p"
    using towards_add [OF assms(1,2), of e] lp ls by (auto simp: e')
  have "axes_dist (delta_ints e) (0, 0, 0, 0) \<noteq> 0" if "backlog p \<noteq> 0"
  proof
    assume "axes_dist (delta_ints e) (0, 0, 0, 0) = 0"
    then have "px = 0 \<and> py = 0" "sx = 0 \<and> sy = 0" by (auto simp: e' delta_ints_def i64_eq_iff)
    then have "d = delta_default" using lp(3) ls(3) by (simp add: delta_default_def)
    then show False using assms(2) that by (auto simp: backlog_0 checked_delta_from_default)
  qed
  moreover have "t = t_totals (p_target p)" if "backlog p = 0"
  proof -
    have "axes_dist (motion_ints (t_totals (p_target p))) (motion_ints t) = 0" using t(3) that by simp
    then show ?thesis by (auto simp: motion_ints_def simp flip: motion_ints_eq_iff)
  qed
  ultimately show ?thesis using that t by fastforce
qed

text \<open>With nothing newer to play, a step goes towards the target and is not zero before it.\<close>

lemma advance_drains:
  assumes wf: "playout_wf p" and near: "near_target p" and adv: "advance_towards_target hyp elapsed None p = (r, p')"
  shows "is_ok r \<and> near_target p' \<and> t_sequence (p_target p') = t_sequence (p_target p) \<and>
     t_totals (p_target p') = t_totals (p_target p) \<and> p_queue p' = p_queue p \<and>
     p_last_observed_time p' = p_last_observed_time p \<and>
     (backlog p' < backlog p \<or> backlog p' = 0 \<and> p_completed_sequence p' = t_sequence (p_target p))"
proof -
  have ok: "config_ok (p_config p)" and le: "p_completed_sequence p \<le> t_sequence (p_target p)"
    using wf by (auto simp: playout_wf_def)
  obtain d where d: "checked_delta_from (t_totals (p_target p)) (p_injected_totals p) = Inr d"
    and small: "\<bar>sint (dx d)\<bar> \<le> 2 ^ 53" "\<bar>sint (dy d)\<bar> \<le> 2 ^ 53" "\<bar>sint (scroll_x d)\<bar> \<le> 2 ^ 53" "\<bar>sint (scroll_y d)\<bar> \<le> 2 ^ 53"
    using near_delta [OF near] by blast
  obtain pc sc where eq: "(r, p') =
     (if d = delta_default \<and> t_pending_touch_snapshot (p_target p) = None
      then (Inr None, (touch_taken p)\<lparr>p_completed_sequence := max (p_completed_sequence p) (t_sequence (p_target p))\<rparr>)
      else emit_step (step_delta (limit_pair hyp (dx d) (dy d) pc) (limit_pair hyp (scroll_x d) (scroll_y d) sc) delta_default)
        (t_pending_touch_snapshot (p_target p)) (snd (snd (limit_pair hyp (dx d) (dy d) pc)))
        (snd (snd (limit_pair hyp (scroll_x d) (scroll_y d) sc))) (touch_taken p))"
    using advance_None [OF ok d] adv by metis
  show ?thesis
  proof (cases "d = delta_default \<and> t_pending_touch_snapshot (p_target p) = None")
    case True
    then have "p_injected_totals p = t_totals (p_target p)" using d by (simp add: checked_delta_from_default)
    then show ?thesis using eq True near le by (auto simp: near_target_def backlog_0 max_def touch_taken_def)
  next
    case False
    define e where "e = step_delta (limit_pair hyp (dx d) (dy d) pc) (limit_pair hyp (scroll_x d) (scroll_y d) sc) delta_default"
    obtain t where t: "motion_checked_add (p_injected_totals p) e = Inr t"
      "axes_near (motion_ints (t_totals (p_target p))) (motion_ints t)"
      "backlog p \<noteq> 0 \<Longrightarrow> axes_dist (motion_ints (t_totals (p_target p))) (motion_ints t) < backlog p"
      "backlog p = 0 \<Longrightarrow> t = t_totals (p_target p)"
      using limited_step [OF near d small e_def] by blast
    have "emit_step e (t_pending_touch_snapshot (p_target p)) (snd (snd (limit_pair hyp (dx d) (dy d) pc)))
        (snd (snd (limit_pair hyp (scroll_x d) (scroll_y d) sc))) (touch_taken p) = (r, p')"
      using eq False by (auto simp flip: e_def)
    then have p': "is_ok r" "p_injected_totals p' = t" "t_totals (p_target p') = t_totals (p_target p)"
      "t_sequence (p_target p') = t_sequence (p_target p)" "p_queue p' = p_queue p"
      "p_last_observed_time p' = p_last_observed_time p"
      "t = t_totals (p_target p) \<Longrightarrow> p_completed_sequence p' = max (p_completed_sequence p) (t_sequence (p_target p))"
      using t(1) by (auto simp: emit_step_def Let_def touch_taken_def)
    then have "backlog p' = axes_dist (motion_ints (t_totals (p_target p))) (motion_ints t)" by (simp add: backlog_def)
    with p' t le show ?thesis
      by (cases "backlog p = 0") (auto simp: near_target_def backlog_0 max_def)
  qed
qed

lemma poll_drains:
  assumes wf: "playout_wf p" and near: "near_target p" and empty: "p_queue p = fmempty"
    and time: "\<And>o'. p_last_observed_time p = Some o' \<Longrightarrow> o' \<le> now" and poll: "poll hyp now p = (r, p')"
  shows "playout_wf p' \<and> is_ok r \<and> near_target p' \<and> t_sequence (p_target p') = t_sequence (p_target p) \<and>
     t_totals (p_target p') = t_totals (p_target p) \<and> p_queue p' = fmempty \<and>
     p_last_observed_time p' = Some now \<and>
     (backlog p' < backlog p \<or> backlog p' = 0 \<and> p_completed_sequence p' = t_sequence (p_target p))"
proof -
  have ok: "config_ok (p_config p)" using wf by (simp add: playout_wf_def)
  have sel: "select_newest_mature_target hyp now (clocked now p) = (Inr None, clocked now p)"
    by (simp add: select_newest_mature_target_def empty sorted_list_of_fmap_def)
  have "try_then (select_newest_mature_target hyp now) (advance_towards_target hyp (poll_gap now p)) (clocked now p) =
      advance_towards_target hyp (poll_gap now p) None (clocked now p)" by (simp add: try_then_def sel)
  then have "advance_towards_target hyp (poll_gap now p) None (clocked now p) = (r, p')"
    using poll time by (simp add: poll_eq [OF ok] split: option.splits) (auto simp: not_less [symmetric])
  moreover have "near_target (clocked now p)" "backlog (clocked now p) = backlog p"
    using near by (simp_all add: near_target_def backlog_def)
  moreover have "playout_wf p'" using poll_wf [OF wf, of hyp now] poll by simp
  moreover have "p_last_observed_time (clocked now p) = Some now" by (simp add: clocked_def)
  moreover have "playout_wf (clocked now p)" using wf by simp
  ultimately show ?thesis
    using advance_drains [of "clocked now p" hyp "poll_gap now p" r p'] empty by simp
qed


section \<open>Runs\<close>

text \<open>A run of calls: the steps that were emitted, in order, and the state reached.\<close>

fun playout_run ::
  "(f64 \<Rightarrow> f64 \<Rightarrow> f64) \<Rightarrow> PlayoutOp list \<Rightarrow> ReceiverPlayout \<Rightarrow> PlayoutStep list \<times> ReceiverPlayout"
where
  "playout_run hyp [] p = ([], p)"
| "playout_run hyp (op # ops) p =
     (let (r, p1) = playout_step hyp op p; (steps, p2) = playout_run hyp ops p1
      in ((case r of Inr (Some step) \<Rightarrow> [step] | _ \<Rightarrow> []) @ steps, p2))"

fun is_rebase :: "PlayoutOp \<Rightarrow> bool" where
  "is_rebase (PoRebase _ _) = True"
| "is_rebase _ = False"

fun steps_displacement :: "PlayoutStep list \<Rightarrow> int \<times> int \<times> int \<times> int" where
  "steps_displacement [] = (0, 0, 0, 0)"
| "steps_displacement (step # steps) = ints_add (delta_ints (ps_delta step)) (steps_displacement steps)"

lemma playout_run_wf: "playout_wf p \<Longrightarrow> playout_wf (snd (playout_run hyp ops p))"
proof (induction ops arbitrary: p)
  case (Cons op ops)
  obtain r p1 where "playout_step hyp op p = (r, p1)" by fastforce
  then show ?case using playout_step_wf [of p hyp op] Cons by (simp add: split: prod.split) (metis snd_conv)
qed simp

lemma remap_clock_injected [simp]: "p_injected_totals (snd (remap_clock clock p)) = p_injected_totals p"
  by (auto simp: remap_clock_def try_then_reading Let_def split: sum.splits option.splits)

lemma advance_injected [simp]: "p_injected_totals (snd (advance_control_watermark c p)) = p_injected_totals p"
  by (simp add: advance_control_watermark_def)

lemma record_injected:
  assumes "playout_wf p"
  shows "p_injected_totals (snd (record_delay_sample now d p)) = p_injected_totals p"
  using sample_wf [OF assms, of now d] by (auto simp: same_motion_def)

lemma ingest_injected:
  assumes "playout_wf p0"
  shows "p_injected_totals (snd (ingest_frame frame now clock p0)) = p_injected_totals p0"
proof (cases "p_observe_time now p0")
  case (Pair r p)
  have wf: "playout_wf p" using p_observe_time_wf [OF assms, of now] Pair by simp
  have "p_injected_totals p = p_injected_totals p0"
    using Pair by (auto simp: p_observe_time_def split: if_splits)
  moreover have "p_injected_totals (snd (try_then (record_delay_sample now d) f p)) = p_injected_totals p"
    if f: "\<And>x p'. p_injected_totals (snd (f x p')) = p_injected_totals p'"
    for d and f :: "unit \<Rightarrow> ReceiverPlayout \<Rightarrow> (PlayoutError + EnqueueOutcome) \<times> ReceiverPlayout"
  proof -
    obtain p' where "record_delay_sample now d p = (Inr (), p')" "p_injected_totals p' = p_injected_totals p"
      using sample_wf [OF wf, of now d] by (auto simp: same_motion_def)
    then show ?thesis by (simp add: try_then_def f)
  qed
  ultimately show ?thesis
    by (auto simp: ingest_frame_def try_then_def [of "p_observe_time now"] Pair Let_def try_then_reading map_err_def record_injected [OF wf]
        split: option.split sum.split)
qed

lemma advance_step:
  assumes "advance_towards_target hyp elapsed start p = (Inr r, p')"
  shows "motion_ints (p_injected_totals p') =
     ints_add (motion_ints (p_injected_totals p)) (case r of Some s \<Rightarrow> delta_ints (ps_delta s) | None \<Rightarrow> (0, 0, 0, 0))"
    "p_queue p' = p_queue p" "t_sequence (p_target p') = t_sequence (p_target p)"
    "t_totals (p_target p') = t_totals (p_target p)"
    "r = Some step \<Longrightarrow> ps_through_sequence step = t_sequence (p_target p) \<and>
       ps_mapped_capture_time step = t_mapped_capture_time (p_target p) \<and>
       ps_touch_snapshot step = t_pending_touch_snapshot (p_target p) \<and>
       (ps_target_reached step \<longleftrightarrow> p_injected_totals p' = t_totals (p_target p))"
    "r = None \<Longrightarrow> p_injected_totals p = t_totals (p_target p) \<and> t_pending_touch_snapshot (p_target p) = None"
proof -
  have "motion_ints (p_injected_totals p') =
     ints_add (motion_ints (p_injected_totals p)) (case r of Some s \<Rightarrow> delta_ints (ps_delta s) | None \<Rightarrow> (0, 0, 0, 0)) \<and>
    p_queue p' = p_queue p \<and> t_sequence (p_target p') = t_sequence (p_target p) \<and>
    t_totals (p_target p') = t_totals (p_target p) \<and>
    (\<forall>step. r = Some step \<longrightarrow> ps_through_sequence step = t_sequence (p_target p) \<and>
       ps_mapped_capture_time step = t_mapped_capture_time (p_target p) \<and>
       ps_touch_snapshot step = t_pending_touch_snapshot (p_target p) \<and>
       (ps_target_reached step \<longleftrightarrow> p_injected_totals p' = t_totals (p_target p))) \<and>
    (r = None \<longrightarrow> p_injected_totals p = t_totals (p_target p) \<and> t_pending_touch_snapshot (p_target p) = None)"
    using assms
  proof (cases rule: advance_cases)
    case Done
    then show ?thesis by simp
  next
    case (Step backlog fresh pointer_cap scroll_cap)
    show ?thesis
    proof (rule emit_step_cases [OF Step(6) [symmetric]])
      fix step
      assume step: "Inr r = (Inr (Some step) :: PlayoutError + PlayoutStep option)"
        "motion_checked_add (p_injected_totals (touch_taken p))
           (step_delta (limit_pair hyp (dx backlog) (dy backlog) pointer_cap)
             (limit_pair hyp (scroll_x backlog) (scroll_y backlog) scroll_cap) fresh) = Inr (p_injected_totals p')"
        "ps_delta step = step_delta (limit_pair hyp (dx backlog) (dy backlog) pointer_cap)
             (limit_pair hyp (scroll_x backlog) (scroll_y backlog) scroll_cap) fresh"
        "ps_touch_snapshot step = t_pending_touch_snapshot (p_target p)"
        "ps_through_sequence step = t_sequence (p_target (touch_taken p))"
        "ps_mapped_capture_time step = t_mapped_capture_time (p_target (touch_taken p))"
        "ps_target_reached step \<longleftrightarrow> p_injected_totals p' = t_totals (p_target (touch_taken p))"
      assume p': "p' = (touch_taken p)\<lparr>p_injected_totals := p_injected_totals p',
         p_catch_up_step_count := p_catch_up_step_count p',
         p_completed_sequence := (if ps_target_reached step
           then max (p_completed_sequence (touch_taken p)) (t_sequence (p_target (touch_taken p)))
           else p_completed_sequence (touch_taken p))\<rparr>"
      from arg_cong [OF p', of p_queue] arg_cong [OF p', of p_target] step show ?thesis
        by (auto simp: motion_checked_add_ints)
    qed simp
  qed simp
  then show "motion_ints (p_injected_totals p') =
     ints_add (motion_ints (p_injected_totals p)) (case r of Some s \<Rightarrow> delta_ints (ps_delta s) | None \<Rightarrow> (0, 0, 0, 0))"
    "p_queue p' = p_queue p" "t_sequence (p_target p') = t_sequence (p_target p)"
    "t_totals (p_target p') = t_totals (p_target p)"
    "r = Some step \<Longrightarrow> ps_through_sequence step = t_sequence (p_target p) \<and>
       ps_mapped_capture_time step = t_mapped_capture_time (p_target p) \<and>
       ps_touch_snapshot step = t_pending_touch_snapshot (p_target p) \<and>
       (ps_target_reached step \<longleftrightarrow> p_injected_totals p' = t_totals (p_target p))"
    "r = None \<Longrightarrow> p_injected_totals p = t_totals (p_target p) \<and> t_pending_touch_snapshot (p_target p) = None"
    by blast+
qed

lemma advance_error_injected:
  assumes "advance_towards_target hyp elapsed start p = (Inl e, p')"
  shows "p_injected_totals p' = p_injected_totals p"
  using assms by (cases rule: advance_cases) (auto elim!: emit_step_cases [OF sym])

lemma poll_exact:
  assumes wf: "playout_wf p" and poll: "poll hyp now p = (r, p')"
  shows "motion_ints (p_injected_totals p') =
     ints_add (motion_ints (p_injected_totals p)) (case r of Inr (Some s) \<Rightarrow> delta_ints (ps_delta s) | _ \<Rightarrow> (0, 0, 0, 0))"
proof -
  have ok: "config_ok (p_config p)" using wf by (simp add: playout_wf_def)
  obtain r1 p1 where sel: "select_newest_mature_target hyp now (clocked now p) = (r1, p1)" by fastforce
  have same: "p_injected_totals p1 = p_injected_totals p"
    using wf by (auto intro: select_cases [OF _ sel])
  obtain r2 p2 where adv: "\<And>start. r1 = Inr start \<Longrightarrow> advance_towards_target hyp (poll_gap now p) start p1 = (r2, p2)"
    by (cases r1; cases "advance_towards_target hyp (poll_gap now p) (projr r1) p1") auto
  show ?thesis
  proof (cases "r1")
    case (Inl e)
    then show ?thesis using poll same by (auto simp: poll_eq [OF ok] try_then_def sel split: if_splits)
  next
    case (Inr start)
    note adv = adv [OF this]
    show ?thesis using poll same adv advance_step(1) advance_error_injected
      by (cases r2) (fastforce simp: poll_eq [OF ok] try_then_def sel Inr split: if_splits)+
  qed
qed

lemma step_exact:
  assumes wf: "playout_wf p" and "\<not> is_rebase op" and step: "playout_step hyp op p = (r, p')"
  shows "motion_ints (p_injected_totals p') =
     ints_add (motion_ints (p_injected_totals p)) (case r of Inr (Some s) \<Rightarrow> delta_ints (ps_delta s) | _ \<Rightarrow> (0, 0, 0, 0))"
proof (cases "\<exists>now. op = PoPoll now")
  case True
  then show ?thesis using step poll_exact [OF wf] by auto
next
  case False
  have "p_injected_totals (snd (playout_step hyp op p)) = p_injected_totals p"
    using assms(2) False ingest_injected [OF wf] by (cases op) auto
  moreover have "\<not> (\<exists>s. r = Inr (Some s))" using step assms(2) False
    by (cases op) (auto simp: try_then_def split: prod.splits sum.splits)
  ultimately show ?thesis using step by (auto split: sum.splits option.splits)
qed

lemma run_exact:
  assumes "playout_wf p" "\<forall>op \<in> set ops. \<not> is_rebase op" "playout_run hyp ops p = (steps, p')"
  shows "motion_ints (p_injected_totals p') = ints_add (motion_ints (p_injected_totals p)) (steps_displacement steps)"
  using assms
proof (induction ops arbitrary: p steps)
  case (Cons op ops)
  obtain r p1 where step: "playout_step hyp op p = (r, p1)" by fastforce
  obtain rest where run: "playout_run hyp ops p1 = (rest, p')" "steps = (case r of Inr (Some s) \<Rightarrow> [s] | _ \<Rightarrow> []) @ rest"
    using Cons.prems(3) by (auto simp: step split: prod.splits)
  have wf: "playout_wf p1" using playout_step_wf [OF Cons.prems(1), of hyp op] step by simp
  have "motion_ints (p_injected_totals p') = ints_add (motion_ints (p_injected_totals p1)) (steps_displacement rest)"
    using Cons.IH [OF wf _ run(1)] Cons.prems(2) by simp
  then show ?case using step_exact [OF Cons.prems(1) _ step] Cons.prems(2) run(2)
    by (auto simp: ints_add_assoc split: sum.splits option.splits)
qed simp

lemma poll_target:
  assumes wf: "playout_wf p" and poll: "poll hyp now p = (Inr r, p')"
  obtains (Kept) "\<forall>s q. fmlookup (p_queue p) s = Some q \<longrightarrow> \<not> mature now p q" "p_queue p' = p_queue p"
      "t_sequence (p_target p') = t_sequence (p_target p)" "t_totals (p_target p') = t_totals (p_target p)"
  | (New) s q where "newest_mature now p s q" "p_queue p' = fmfilter (\<lambda>k. s < k) (p_queue p)"
      "t_sequence (p_target p') = s" "t_totals (p_target p') = f_totals (q_frame q)"
      "\<forall>step. r = Some step \<longrightarrow> ps_mapped_capture_time step = q_mapped_capture_time q \<and>
         ps_touch_snapshot step = f_touch_snapshot (q_frame q)"
proof -
  have ok: "config_ok (p_config p)" using wf by (simp add: playout_wf_def)
  obtain start p1 where sel: "select_newest_mature_target hyp now (clocked now p) = (Inr start, p1)"
    and adv: "advance_towards_target hyp (poll_gap now p) start p1 = (Inr r, p')"
    using poll by (auto simp: poll_eq [OF ok] try_then_Inr split: if_splits)
  note step = advance_step [OF adv]
  have wf': "playout_wf (clocked now p)" using wf by simp
  show ?thesis
    using wf' sel
  proof (cases rule: select_cases)
    case None
    then show ?thesis using Kept step(2-4) by simp
  next
    case (Some s q)
    then have "p_queue p' = fmfilter (\<lambda>k. s < k) (p_queue p)" using step(2) by (simp only: clocked_fields)
    then show ?thesis using New [of s q] Some(1,3) step(3-5) by (simp add: target_of_def)
  qed simp
qed


lemma polls_drain:
  assumes "playout_wf p" "near_target p" "p_queue p = fmempty" "sorted polls"
    "\<And>o' t. p_last_observed_time p = Some o' \<Longrightarrow> t \<in> set polls \<Longrightarrow> o' \<le> t"
    "backlog p < length polls"
  shows "p_injected_totals (snd (playout_run hyp (map PoPoll polls) p)) = t_totals (p_target p) \<and>
     p_completed_sequence (snd (playout_run hyp (map PoPoll polls) p)) = t_sequence (p_target p)"
  using assms
proof (induction polls arbitrary: p)
  case (Cons t polls)
  obtain r p1 where poll: "poll hyp t p = (r, p1)" by fastforce
  have "o' \<le> t" if "p_last_observed_time p = Some o'" for o' using Cons.prems(5) that by simp
  note d = poll_drains [OF Cons.prems(1-3) this poll]
  have run: "snd (playout_run hyp (map PoPoll (t # polls)) p) = snd (playout_run hyp (map PoPoll polls) p1)"
    by (simp add: poll split: prod.split)
  show ?case
  proof (cases "polls = []")
    case True
    then have "backlog p = 0" using Cons.prems(6) by simp
    with d have "p_injected_totals p1 = t_totals (p_target p)" "p_completed_sequence p1 = t_sequence (p_target p)"
      by (auto simp: backlog_0)
    then show ?thesis unfolding run using True by simp
  next
    case False
    then have "backlog p1 < length polls" using d Cons.prems(6) by (cases polls) auto
    moreover have "t' \<le> u" if "p_last_observed_time p1 = Some t'" "u \<in> set polls" for t' u
      using d that Cons.prems(4) by simp
    ultimately show ?thesis unfolding run using Cons.IH [of p1] d Cons.prems(4) by simp
  qed
qed simp

lemma poll_reported:
  assumes wf: "playout_wf p" and poll: "poll hyp now p = (Inr (Some step), p')"
  shows "ps_through_sequence step = t_sequence (p_target p') \<and>
    (ps_target_reached step \<longleftrightarrow> p_injected_totals p' = t_totals (p_target p'))"
proof -
  have ok: "config_ok (p_config p)" using wf by (simp add: playout_wf_def)
  obtain start p1 where adv: "advance_towards_target hyp (poll_gap now p) start p1 = (Inr (Some step), p')"
    using poll by (auto simp: poll_eq [OF ok] try_then_Inr split: if_splits)
  then show ?thesis using advance_step(3-5) [OF adv] by simp
qed

text \<open>A receiver that is up to date plays the newest sample whole: only a backlog is limited.\<close>

lemma limit_pair_0: "hyp (Finite 0) (Finite 0) = Finite 0 \<Longrightarrow> limit_pair hyp 0 0 cap = (0, 0, False)"
  by (simp add: limit_pair_def pair_magnitude_def f_of_int_def)

lemma advance_fresh:
  assumes "config_ok (p_config p)" "checked_delta_from (t_totals (p_target p)) (p_injected_totals p) = Inr d"
    "d \<noteq> delta_default" "hyp (Finite 0) (Finite 0) = Finite 0"
  shows "advance_towards_target hyp elapsed (Some (p_injected_totals p)) p =
     emit_step d (t_pending_touch_snapshot (p_target p)) False False (touch_taken p)"
proof -
  obtain pc sc where cap: "catch_up_cap (touch_taken p) (p_pointer_velocity_per_micro (touch_taken p)) elapsed = Inr pc"
    "catch_up_cap (touch_taken p) (p_scroll_velocity_per_micro (touch_taken p)) elapsed = Inr sc"
    using catch_up_cap_ok assms(1) by (metis touch_taken_fields(7))
  have "step_delta (0, 0, False) (0, 0, False) d = d" by (cases d) (simp add: step_delta_def)
  then show ?thesis
    unfolding advance_towards_target_def try_then_reading Let_def touch_taken_def [symmetric]
    using assms(2,3) cap by (simp add: limit_pair_0 [of hyp, OF assms(4)] map_err_def) (simp add: delta_default_def limit_pair_0 [of hyp, OF assms(4)])
qed

section \<open>A sample playout\<close>

text \<open>A concrete \<open>hypot\<close>, the default configuration and one frame, for the instances below.\<close>

definition sample_hypot :: "f64 \<Rightarrow> f64 \<Rightarrow> f64" where
  "sample_hypot x y = f_sqrt (f_add (f_mul x x) (f_mul y y))"

definition fresh_playout :: ReceiverPlayout where
  "fresh_playout =
     \<lparr>p_config = playout_config_default, p_session = sample_session, p_applied_control_sequence = 0,
      p_queue = fmempty, p_delay_samples = [], p_adaptive_delay_micros = 3000, p_delay_percentile_micros = None,
      p_target = \<lparr>t_sequence = 0, t_totals = motion_ZERO, t_sender_capture_time = None,
                  t_mapped_capture_time = 0, t_pending_touch_snapshot = None\<rparr>,
      p_completed_sequence = 0, p_injected_totals = motion_ZERO, p_rebase_cutoff = None,
      p_pointer_velocity_per_micro = Finite 0, p_scroll_velocity_per_micro = Finite 0,
      p_velocity_sample = None, p_last_observed_time = None, p_last_poll_time = None,
      p_scheduler_late_count = 0, p_catch_up_step_count = 0\<rparr>"


lemma rounded_tenth: "\<exists>x. rounded (1 / 10) = Finite x \<and> 0 \<le> x \<and> x \<le> 1"
  using f_le_Finite [of 0 "rounded (1 / 10)" 1] rounded_mono [of 0 "1 / 10"] rounded_mono [of "1 / 10" 1] by auto

lemmas default_durations = DEFAULT_FIXED_DELAY_def DEFAULT_MINIMUM_DELAY_def DEFAULT_MAXIMUM_DELAY_def
  DEFAULT_SCHEDULER_MARGIN_def DEFAULT_DELAY_SAMPLE_AGE_def DEFAULT_SCHEDULER_TICK_def from_millis_def
  from_secs_def as_micros_def

lemma fresh_playout_new: "playout_new playout_config_default sample_session = Inr fresh_playout"
  using rounded_tenth
  by (auto simp: playout_new_def playout_config_validate_def playout_config_default_def fresh_playout_def
     duration_micros_def result_then_def catch_up_default_def default_durations)

definition sample_target :: CumulativeMotion where
  "sample_target = \<lparr>total_dx = 5, total_dy = -2, total_scroll_x = 0, total_scroll_y = 0\<rparr>"

definition sample_frame :: MotionFrame where
  "sample_frame = \<lparr>f_session = sample_session, f_motion_sequence = 1, f_control_watermark = 0,
     f_sender_capture_time = 1000, f_totals = sample_target, f_touch_snapshot = None\<rparr>"

definition booted_clock :: ClockMapper where
  "booted_clock = snd (bootstrap_from_arrival 1000 5000 sample_clock)"

lemma booted_clock_map: "clock_map booted_clock 1000 = Inr 5000"
  using bootstrap_exact [OF clock_new_wf [OF sample_clock_new] sample_clock_ready, of 5000 1000 1000]
  by (simp add: booted_clock_def)

lemma sample_ingest:
  "ingest_frame sample_frame 6000 booted_clock fresh_playout =
     (Inr (Queued 1), fresh_playout\<lparr>p_queue := fmupd 1 \<lparr>q_frame = sample_frame, q_mapped_capture_time = 5000\<rparr> fmempty,
       p_delay_samples := [\<lparr>ds_received_at = 6000, ds_packet_delay_micros = 1000\<rparr>],
       p_delay_percentile_micros := Some 0, p_last_observed_time := Some 6000\<rparr>)"
  by (simp add: ingest_frame_def sample_frame_def fresh_playout_def p_observe_time_def try_then_def reading_def
    booted_clock_map map_err_def validate_capture_order_def record_delay_sample_def duration_micros_def
    playout_config_default_def default_durations recompute_adaptive_delay_def Let_def delay_percentile_def
     sorted_list_of_fmap_def saturating_sub_u64_def saturating_add_u64_def delay_rank_def
    clamp_def approach_asymmetrically_def div_ceil_u64_def)

definition sample_queued :: ReceiverPlayout where
  "sample_queued = snd (ingest_frame sample_frame 6000 booted_clock fresh_playout)"

lemma sample_queued_wf: "playout_wf sample_queued"
  by (simp add: sample_queued_def ingest_frame_wf playout_new_wf [OF fresh_playout_new])

lemma sample_queued_fields:
  "p_queue sample_queued = fmupd 1 \<lparr>q_frame = sample_frame, q_mapped_capture_time = 5000\<rparr> fmempty"
  "current_delay_micros sample_queued = 3000" "p_applied_control_sequence sample_queued = 0"
  "p_last_observed_time sample_queued = Some 6000" "p_target sample_queued = p_target fresh_playout"
  "p_injected_totals sample_queued = motion_ZERO" "p_velocity_sample sample_queued = None"
  by (simp_all add: sample_queued_def sample_ingest, simp_all add: fresh_playout_def playout_config_default_def current_delay_micros_def)

lemma sample_newest:
  "newest_mature 9000 sample_queued 1 \<lparr>q_frame = sample_frame, q_mapped_capture_time = 5000\<rparr>"
  by (auto simp: newest_mature_def mature_def sample_queued_fields add_micros_def saturating_add_u64_def sample_frame_def split: if_splits)

lemma sample_hypot_0: "sample_hypot (Finite 0) (Finite 0) = Finite 0"
  by (simp add: sample_hypot_def sqrt_rat_def)

lemma sorted_list_of_fset_single [simp]: "sorted_list_of_fset {|x|} = [x]"
  by (simp add: sorted_list_of_fset.rep_eq)

lemma sample_poll:
  "\<exists>step p'. poll sample_hypot 9000 sample_queued = (Inr (Some step), p') \<and>
     ps_delta step = \<lparr>dx = 5, dy = -2, scroll_x = 0, scroll_y = 0\<rparr>"
proof -
  have ok: "config_ok (p_config sample_queued)" using sample_queued_wf by (simp add: playout_wf_def)
  let ?q = "\<lparr>q_frame = sample_frame, q_mapped_capture_time = 5000\<rparr>"
  let ?p = "clocked 9000 sample_queued" and ?d = "\<lparr>dx = 5, dy = -2, scroll_x = 0, scroll_y = 0\<rparr> :: MotionDelta"
  have "find (\<lambda>(_, q). mature 9000 ?p q) (rev (sorted_list_of_fmap (p_queue ?p))) = Some (1, ?q)"
    using sample_newest by (simp add: newest_mature_def sample_queued_fields sorted_list_of_fmap_def)
  note sel = select_Some [OF this, of sample_hypot]
  have v: "update_velocity sample_hypot (sample_of ?q) (dequeued 1 ?q 9000 ?p) =
      (Inr (), (dequeued 1 ?q 9000 ?p)\<lparr>p_velocity_sample := Some (sample_of ?q)\<rparr>)"
    using sample_queued_fields(7) by (simp add: update_velocity_def dequeued_def clocked_def)
  let ?p1 = "(dequeued 1 ?q 9000 ?p)\<lparr>p_velocity_sample := Some (sample_of ?q), p_target := target_of 1 ?q\<rparr>"
  have sel': "select_newest_mature_target sample_hypot 9000 ?p = (Inr (Some motion_ZERO), ?p1)"
    unfolding sel v by (simp add: own_sample_start_def checked_sub_u64_def sample_queued_fields) (simp add: fresh_playout_def)
  have tot: "t_totals (p_target ?p1) = sample_target" "p_injected_totals ?p1 = motion_ZERO"
    by (simp_all add: target_of_def sample_frame_def sample_queued_fields)
  have d: "checked_delta_from sample_target motion_ZERO = Inr ?d"
    by (simp add: checked_delta_from_Inr motion_checked_add_Inr sample_target_def motion_ZERO_def)
  have "advance_towards_target sample_hypot (poll_gap 9000 sample_queued) (Some motion_ZERO) ?p1 =
      emit_step ?d (t_pending_touch_snapshot (p_target ?p1)) False False (touch_taken ?p1)"
    using advance_fresh [of ?p1 ?d sample_hypot] ok tot d sample_hypot_0 by (simp add: delta_default_def)
  moreover have "motion_checked_add (p_injected_totals (touch_taken ?p1)) ?d = Inr sample_target"
    using d by (simp add: checked_delta_from_Inr sample_queued_fields)
  ultimately show ?thesis
    by (simp add: poll_eq [OF ok] sample_queued_fields try_then_def sel' emit_step_def Let_def)
qed

definition sample_behind :: ReceiverPlayout where
  "sample_behind = fresh_playout\<lparr>p_target := \<lparr>t_sequence = 1, t_totals = sample_target, t_sender_capture_time = None,
     t_mapped_capture_time = 0, t_pending_touch_snapshot = None\<rparr>\<rparr>"

section \<open>Properties\<close>

text \<open>
  C17: The motion that is injected is exactly the motion of the steps. From a fresh playout, over any run of
  frames, polls, watermarks and clock changes (without a rebase), the injected totals are the sum of the
  displacements of the emitted steps: limiting and catching up neither lose nor invent motion. Whenever
  the selected target is reported complete, the injected totals are exactly the target's.
\<close>

theorem playout_displacement_is_exact:
  assumes "playout_new config session = Inr p" and "\<forall>op \<in> set ops. \<not> is_rebase op"
    and "playout_run hyp ops p = (steps, p')"
  shows "motion_ints (p_injected_totals p') = steps_displacement steps \<and>
     (p_completed_sequence p' = t_sequence (p_target p') \<longrightarrow> p_injected_totals p' = t_totals (p_target p'))"
proof -
  have wf: "playout_wf p" by (rule playout_new_wf [OF assms(1)])
  have "p_injected_totals p = motion_ZERO" using assms(1) by (auto simp: playout_new_def result_then_Inr)
  moreover have "playout_wf p'" using playout_run_wf [OF wf, of hyp ops] assms(3) by simp
  ultimately show ?thesis using run_exact [OF wf assms(2,3)] by (simp add: playout_wf_def)
qed

theorem playout_displacement_is_exact_witness:
  "\<exists>step p'. playout_run sample_hypot [PoIngest sample_frame 6000 booted_clock, PoPoll 9000] fresh_playout = ([step], p') \<and>
     ps_delta step = \<lparr>dx = 5, dy = -2, scroll_x = 0, scroll_y = 0\<rparr> \<and> motion_ints (p_injected_totals p') = (5, -2, 0, 0)"
proof -
  obtain step p' where s: "poll sample_hypot 9000 sample_queued = (Inr (Some step), p')"
    "ps_delta step = \<lparr>dx = 5, dy = -2, scroll_x = 0, scroll_y = 0\<rparr>" using sample_poll by blast
  have "playout_step sample_hypot (PoIngest sample_frame 6000 booted_clock) fresh_playout = (Inr None, sample_queued)"
    by (simp add: try_then_def sample_ingest sample_queued_def)
  then have run: "playout_run sample_hypot [PoIngest sample_frame 6000 booted_clock, PoPoll 9000] fresh_playout = ([step], p')"
    by (simp del: playout_step.simps(2) add: s)
  show ?thesis
    using playout_displacement_is_exact [OF fresh_playout_new _ run] run s(2) by (simp add: delta_ints_def)
qed

text \<open>
  C18: A poll plays the newest mature frame. When some queued frame has its controls applied and its
  capture time plus the current delay behind it, the newest such frame becomes the target: the step goes
  through its sequence number and carries its touch snapshot, everything older leaves the queue and
  nothing newer does, and what is left is not mature. When no frame is mature, target and queue stay.
  The step moves the injected totals by exactly its displacement, and reports the target as reached
  exactly if they are then the target's totals.
\<close>

theorem playout_plays_newest_mature_frame:
  assumes "playout_wf p" and "poll hyp now p = (Inr r, p')"
  shows "(if \<exists>s q. fmlookup (p_queue p) s = Some q \<and> mature now p q
      then \<exists>s q. newest_mature now p s q \<and> t_sequence (p_target p') = s \<and> t_totals (p_target p') = f_totals (q_frame q) \<and>
        p_queue p' = fmfilter (\<lambda>k. s < k) (p_queue p) \<and>
        (\<forall>step. r = Some step \<longrightarrow> ps_touch_snapshot step = f_touch_snapshot (q_frame q))
      else t_sequence (p_target p') = t_sequence (p_target p) \<and> t_totals (p_target p') = t_totals (p_target p) \<and>
        p_queue p' = p_queue p) \<and>
    (\<forall>step. r = Some step \<longrightarrow> ps_through_sequence step = t_sequence (p_target p') \<and>
       motion_checked_add (p_injected_totals p) (ps_delta step) = Inr (p_injected_totals p') \<and>
       (ps_target_reached step \<longleftrightarrow> p_injected_totals p' = t_totals (p_target p')))"
  (is "?target \<and> ?step")
proof
  show ?step using poll_exact [OF assms] poll_reported [OF assms(1)] assms(2) by (auto simp: motion_checked_add_ints)
  from assms show ?target
  proof (cases rule: poll_target)
    case new: (New s q)
    then have "\<exists>s q. fmlookup (p_queue p) s = Some q \<and> mature now p q" by (auto simp: newest_mature_def)
    with new show ?thesis by auto
  qed auto
qed

theorem playout_plays_newest_mature_frame_witness:
  "\<exists>step p'. poll sample_hypot 9000 sample_queued = (Inr (Some step), p') \<and> ps_through_sequence step = 1 \<and>
     t_totals (p_target p') = sample_target"
proof -
  obtain step p' where s: "poll sample_hypot 9000 sample_queued = (Inr (Some step), p')" using sample_poll by blast
  have "newest_mature 9000 sample_queued s q \<Longrightarrow> s = 1 \<and> q = \<lparr>q_frame = sample_frame, q_mapped_capture_time = 5000\<rparr>" for s q
    by (auto simp: newest_mature_def sample_queued_fields split: if_splits)
  moreover have "\<exists>s q. fmlookup (p_queue sample_queued) s = Some q \<and> mature 9000 sample_queued q"
    using sample_newest by (auto simp: newest_mature_def)
  ultimately have "t_sequence (p_target p') = 1 \<and> t_totals (p_target p') = f_totals sample_frame \<and>
      ps_through_sequence step = t_sequence (p_target p')"
    using playout_plays_newest_mature_frame [OF sample_queued_wf s] by (simp only: if_True) fastforce
  then show ?thesis using s by (simp add: sample_frame_def)
qed

text \<open>
  C19: The backlog drains. With no frame left to play, polls at times that do not go back reach the target
  after at most as many polls as the distance in counts plus one, whatever the velocities, the catch-up
  limits and the rounding of \<open>hypot\<close> are: then exactly the target's totals are injected and its sequence
  number is complete. The distance on each axis may be up to \<open>2 ^ 53\<close> counts.
\<close>

theorem playout_drains_backlog:
  assumes "playout_wf p" and "near_target p" and "p_queue p = fmempty" and "sorted polls"
    and "\<forall>o' t. p_last_observed_time p = Some o' \<and> t \<in> set polls \<longrightarrow> o' \<le> t" and "backlog p < length polls"
  shows "p_injected_totals (snd (playout_run hyp (map PoPoll polls) p)) = t_totals (p_target p) \<and>
     p_completed_sequence (snd (playout_run hyp (map PoPoll polls) p)) = t_sequence (p_target p)"
  using polls_drain [of p polls hyp] assms by blast

theorem playout_drains_backlog_witness:
  "p_injected_totals sample_behind = motion_ZERO \<and>
   p_injected_totals (snd (playout_run sample_hypot (map PoPoll [1, 2, 3, 4, 5, 6, 7, 8]) sample_behind)) = sample_target"
proof -
  have p: "p_injected_totals sample_behind = motion_ZERO" "p_queue sample_behind = fmempty"
    "t_totals (p_target sample_behind) = sample_target" "p_last_observed_time sample_behind = None"
    by (simp_all add: sample_behind_def fresh_playout_def)
  have "playout_wf sample_behind"
    using playout_new_wf [OF fresh_playout_new]
    by (simp add: playout_wf_def sample_behind_def delay_in_bounds_def, simp add: fresh_playout_def frames_ok_def queue_frames_def)
  moreover have "near_target sample_behind" "backlog sample_behind = 7"
    by (simp_all add: near_target_def backlog_def p motion_ints_def sample_target_def motion_ZERO_def)
  ultimately show ?thesis
    using playout_drains_backlog [of sample_behind "[1, 2, 3, 4, 5, 6, 7, 8]" sample_hypot] by (simp add: p)
qed

text \<open>
  C20: The playout stays within its configuration. Whatever calls a fresh playout gets, with whatever
  frames, times and clocks, it never queues more than \<open>maximum_queued_frames\<close> frames or keeps more than
  \<open>delay_sample_window\<close> delay samples, its adaptive delay stays between the minimum and the maximum delay,
  and every queued frame is of its session, newer than the target and not captured before it.
\<close>

theorem playout_stays_in_bounds:
  assumes "playout_new config session = Inr p" and "playout_run hyp ops p = (steps, p')"
  shows "fcard (fmdom (p_queue p')) \<le> maximum_queued_frames (p_config p') \<and>
     length (p_delay_samples p') \<le> delay_sample_window (p_config p') \<and>
     as_micros (minimum_delay (p_config p')) \<le> unat (p_adaptive_delay_micros p') \<and>
     unat (p_adaptive_delay_micros p') \<le> as_micros (maximum_delay (p_config p')) \<and>
     (\<forall>s q. fmlookup (p_queue p') s = Some q \<longrightarrow>
        f_session (q_frame q) = p_session p' \<and> t_sequence (p_target p') < s \<and> f_motion_sequence (q_frame q) = s \<and>
        (\<forall>t. t_sender_capture_time (p_target p') = Some t \<longrightarrow> t \<le> f_sender_capture_time (q_frame q)))"
proof -
  have wf: "playout_wf p'" using playout_run_wf [OF playout_new_wf [OF assms(1)], of hyp ops] assms(2) by simp
  then show ?thesis using wf_frame [OF wf] by (auto simp: playout_wf_def delay_in_bounds_def)
qed

theorem playout_stays_in_bounds_witness:
  "fcard (fmdom (p_queue (snd (playout_run sample_hypot [PoIngest sample_frame 6000 booted_clock] fresh_playout)))) = 1 \<and>
   p_adaptive_delay_micros (snd (playout_run sample_hypot [PoIngest sample_frame 6000 booted_clock] fresh_playout)) \<le> 35000"
proof -
  have run: "playout_run sample_hypot [PoIngest sample_frame 6000 booted_clock] fresh_playout = ([], sample_queued)"
    by (simp add: try_then_def sample_ingest sample_queued_def)
  have "p_config sample_queued = playout_config_default"
    by (simp add: sample_queued_def sample_ingest) (simp add: fresh_playout_def)
  then show ?thesis
    using playout_stays_in_bounds [OF fresh_playout_new run] unfolding run
    by (simp add: sample_queued_fields fcard_finsert_if playout_config_default_def default_durations word_le_nat_alt)
qed

end
