(* ===== verification/Evdev.thy ===== *)
theory Evdev
  imports Outbound
begin

text \<open>
  Events of Linux input devices as captured frames (\<open>src/src/linux/mapping.rs\<close>).

  The kernel's event interface is documented by its codes (\<open>input-event-codes.h\<close>): an event has a type, a
  code and a value, and a group of events ends with \<open>SYN_REPORT\<close>. \<open>FrameAccumulator\<close> collects one group, \<open>push\<close>
  takes one event, and the tables between key codes and HID usages are the code's own. \<open>push_frames\<close> is the
  loop over a batch of events, without the touchpad part that \<open>Capture_Set\<close> adds.
\<close>

section \<open>The kernel's events\<close>

type_synonym KeyCode = u16

datatype EventType = SYNCHRONIZATION | KEY | RELATIVE | ABSOLUTE | OtherEventType u16

record InputEvent =
  ie_type :: EventType
  ie_code :: u16
  ie_value :: i32

abbreviation SYN_REPORT :: u16 where "SYN_REPORT \<equiv> 0"
abbreviation SYN_DROPPED :: u16 where "SYN_DROPPED \<equiv> 3"

abbreviation REL_X :: u16 where "REL_X \<equiv> 0"
abbreviation REL_Y :: u16 where "REL_Y \<equiv> 1"
abbreviation REL_HWHEEL :: u16 where "REL_HWHEEL \<equiv> 6"
abbreviation REL_WHEEL :: u16 where "REL_WHEEL \<equiv> 8"
abbreviation REL_WHEEL_HI_RES :: u16 where "REL_WHEEL_HI_RES \<equiv> 11"
abbreviation REL_HWHEEL_HI_RES :: u16 where "REL_HWHEEL_HI_RES \<equiv> 12"

abbreviation BTN_LEFT :: KeyCode where "BTN_LEFT \<equiv> 0x110"
abbreviation BTN_RIGHT :: KeyCode where "BTN_RIGHT \<equiv> 0x111"
abbreviation BTN_MIDDLE :: KeyCode where "BTN_MIDDLE \<equiv> 0x112"
abbreviation BTN_SIDE :: KeyCode where "BTN_SIDE \<equiv> 0x113"
abbreviation BTN_EXTRA :: KeyCode where "BTN_EXTRA \<equiv> 0x114"
abbreviation BTN_FORWARD :: KeyCode where "BTN_FORWARD \<equiv> 0x115"
abbreviation BTN_BACK :: KeyCode where "BTN_BACK \<equiv> 0x116"
abbreviation BTN_TASK :: KeyCode where "BTN_TASK \<equiv> 0x117"

section \<open>Key codes and HID usages\<close>

record KeyMapping =
  km_evdev :: u16
  km_page :: u16
  km_usage :: u16

definition HID_KEYBOARD :: u16 where
  "HID_KEYBOARD = 0x07"

definition HID_CONSUMER :: u16 where
  "HID_CONSUMER = 0x0c"

definition WHEEL_CLICK_UNITS :: i64 where
  "WHEEL_CLICK_UNITS = 120"

definition KeyMapping_keyboard :: "u16 \<Rightarrow> u16 \<Rightarrow> KeyMapping" where
  "KeyMapping_keyboard evdev hid = \<lparr>km_evdev = evdev, km_page = HID_KEYBOARD, km_usage = hid\<rparr>"

definition KeyMapping_consumer :: "u16 \<Rightarrow> u16 \<Rightarrow> KeyMapping" where
  "KeyMapping_consumer evdev hid = \<lparr>km_evdev = evdev, km_page = HID_CONSUMER, km_usage = hid\<rparr>"

definition mapping_hid :: "KeyMapping \<Rightarrow> HidUsage" where
  "mapping_hid mapping = HidUsage (km_page mapping) (km_usage mapping)"

definition KEY_MAP :: "KeyMapping list" where
  "KEY_MAP =
    [KeyMapping_keyboard 1 0x29, KeyMapping_keyboard 2 0x1e, KeyMapping_keyboard 3 0x1f,
      KeyMapping_keyboard 4 0x20, KeyMapping_keyboard 5 0x21, KeyMapping_keyboard 6 0x22,
      KeyMapping_keyboard 7 0x23, KeyMapping_keyboard 8 0x24, KeyMapping_keyboard 9 0x25,
      KeyMapping_keyboard 10 0x26, KeyMapping_keyboard 11 0x27, KeyMapping_keyboard 12 0x2d,
      KeyMapping_keyboard 13 0x2e, KeyMapping_keyboard 14 0x2a, KeyMapping_keyboard 15 0x2b,
      KeyMapping_keyboard 16 0x14, KeyMapping_keyboard 17 0x1a, KeyMapping_keyboard 18 0x08,
      KeyMapping_keyboard 19 0x15, KeyMapping_keyboard 20 0x17, KeyMapping_keyboard 21 0x1c,
      KeyMapping_keyboard 22 0x18, KeyMapping_keyboard 23 0x0c, KeyMapping_keyboard 24 0x12,
      KeyMapping_keyboard 25 0x13, KeyMapping_keyboard 26 0x2f, KeyMapping_keyboard 27 0x30,
      KeyMapping_keyboard 28 0x28, KeyMapping_keyboard 29 0xe0, KeyMapping_keyboard 30 0x04,
      KeyMapping_keyboard 31 0x16, KeyMapping_keyboard 32 0x07, KeyMapping_keyboard 33 0x09,
      KeyMapping_keyboard 34 0x0a, KeyMapping_keyboard 35 0x0b, KeyMapping_keyboard 36 0x0d,
      KeyMapping_keyboard 37 0x0e, KeyMapping_keyboard 38 0x0f, KeyMapping_keyboard 39 0x33,
      KeyMapping_keyboard 40 0x34, KeyMapping_keyboard 41 0x35, KeyMapping_keyboard 42 0xe1,
      KeyMapping_keyboard 43 0x31, KeyMapping_keyboard 44 0x1d, KeyMapping_keyboard 45 0x1b,
      KeyMapping_keyboard 46 0x06, KeyMapping_keyboard 47 0x19, KeyMapping_keyboard 48 0x05,
      KeyMapping_keyboard 49 0x11, KeyMapping_keyboard 50 0x10, KeyMapping_keyboard 51 0x36,
      KeyMapping_keyboard 52 0x37, KeyMapping_keyboard 53 0x38, KeyMapping_keyboard 54 0xe5,
      KeyMapping_keyboard 55 0x55, KeyMapping_keyboard 56 0xe2, KeyMapping_keyboard 57 0x2c,
      KeyMapping_keyboard 58 0x39, KeyMapping_keyboard 59 0x3a, KeyMapping_keyboard 60 0x3b,
      KeyMapping_keyboard 61 0x3c, KeyMapping_keyboard 62 0x3d, KeyMapping_keyboard 63 0x3e,
      KeyMapping_keyboard 64 0x3f, KeyMapping_keyboard 65 0x40, KeyMapping_keyboard 66 0x41,
      KeyMapping_keyboard 67 0x42, KeyMapping_keyboard 68 0x43, KeyMapping_keyboard 69 0x53,
      KeyMapping_keyboard 70 0x47, KeyMapping_keyboard 71 0x5f, KeyMapping_keyboard 72 0x60,
      KeyMapping_keyboard 73 0x61, KeyMapping_keyboard 74 0x56, KeyMapping_keyboard 75 0x5c,
      KeyMapping_keyboard 76 0x5d, KeyMapping_keyboard 77 0x5e, KeyMapping_keyboard 78 0x57,
      KeyMapping_keyboard 79 0x59, KeyMapping_keyboard 80 0x5a, KeyMapping_keyboard 81 0x5b,
      KeyMapping_keyboard 82 0x62, KeyMapping_keyboard 83 0x63, KeyMapping_keyboard 85 0x94,
      KeyMapping_keyboard 86 0x64, KeyMapping_keyboard 87 0x44, KeyMapping_keyboard 88 0x45,
      KeyMapping_keyboard 89 0x87, KeyMapping_keyboard 90 0x92, KeyMapping_keyboard 91 0x93,
      KeyMapping_keyboard 92 0x8a, KeyMapping_keyboard 93 0x88, KeyMapping_keyboard 94 0x8b,
      KeyMapping_keyboard 95 0x8c, KeyMapping_keyboard 96 0x58, KeyMapping_keyboard 97 0xe4,
      KeyMapping_keyboard 98 0x54, KeyMapping_keyboard 99 0x46, KeyMapping_keyboard 100 0xe6,
      KeyMapping_keyboard 102 0x4a, KeyMapping_keyboard 103 0x52, KeyMapping_keyboard 104 0x4b,
      KeyMapping_keyboard 105 0x50, KeyMapping_keyboard 106 0x4f, KeyMapping_keyboard 107 0x4d,
      KeyMapping_keyboard 108 0x51, KeyMapping_keyboard 109 0x4e, KeyMapping_keyboard 110 0x49,
      KeyMapping_keyboard 111 0x4c, KeyMapping_consumer 113 0xe2, KeyMapping_consumer 114 0xea,
      KeyMapping_consumer 115 0xe9, KeyMapping_consumer 116 0x30, KeyMapping_keyboard 117 0x67,
      KeyMapping_keyboard 119 0x48, KeyMapping_keyboard 121 0x85, KeyMapping_keyboard 122 0x90,
      KeyMapping_keyboard 123 0x91, KeyMapping_keyboard 124 0x89, KeyMapping_keyboard 125 0xe3,
      KeyMapping_keyboard 126 0xe7, KeyMapping_keyboard 127 0x65, KeyMapping_keyboard 128 0x78,
      KeyMapping_keyboard 129 0x79, KeyMapping_keyboard 130 0xa3, KeyMapping_keyboard 131 0x7a,
      KeyMapping_keyboard 132 0x77, KeyMapping_keyboard 133 0x7c, KeyMapping_keyboard 134 0x74,
      KeyMapping_keyboard 135 0x7d, KeyMapping_keyboard 136 0x7e, KeyMapping_keyboard 137 0x7b,
      KeyMapping_keyboard 138 0x75, KeyMapping_keyboard 139 0x76, KeyMapping_consumer 140 0x192,
      KeyMapping_consumer 142 0x32, KeyMapping_consumer 143 0x83, KeyMapping_consumer 150 0x196,
      KeyMapping_consumer 155 0x18a, KeyMapping_consumer 156 0x22a, KeyMapping_consumer 157 0x194,
      KeyMapping_consumer 158 0x224, KeyMapping_consumer 159 0x225, KeyMapping_consumer 161 0xb8,
      KeyMapping_consumer 163 0xb5, KeyMapping_consumer 164 0xcd, KeyMapping_consumer 165 0xb6,
      KeyMapping_consumer 166 0xb7, KeyMapping_consumer 167 0xb2, KeyMapping_consumer 168 0xb4,
      KeyMapping_consumer 172 0x223, KeyMapping_consumer 173 0x227, KeyMapping_keyboard 179 0xb6,
      KeyMapping_keyboard 180 0xb7, KeyMapping_consumer 181 0x201, KeyMapping_consumer 182 0x279,
      KeyMapping_keyboard 183 0x68, KeyMapping_keyboard 184 0x69, KeyMapping_keyboard 185 0x6a,
      KeyMapping_keyboard 186 0x6b, KeyMapping_keyboard 187 0x6c, KeyMapping_keyboard 188 0x6d,
      KeyMapping_keyboard 189 0x6e, KeyMapping_keyboard 190 0x6f, KeyMapping_keyboard 191 0x70,
      KeyMapping_keyboard 192 0x71, KeyMapping_keyboard 193 0x72, KeyMapping_keyboard 194 0x73]"

datatype MappingError =
    UnsupportedEvdevCode u16
  | UnsupportedHidUsage u16 u16
  | InvalidKeyValue i32
  | SynchronizationLost
  | InvalidTouchState

definition evdev_key_to_hid :: "KeyCode \<Rightarrow> MappingError + HidUsage" where
  "evdev_key_to_hid key =
     ok_or (map_option mapping_hid (find (\<lambda>mapping. km_evdev mapping = key) KEY_MAP)) (UnsupportedEvdevCode key)"

definition hid_to_evdev_key :: "HidUsage \<Rightarrow> MappingError + KeyCode" where
  "hid_to_evdev_key hid =
     ok_or
       (map_option km_evdev
         (find (\<lambda>mapping. km_page mapping = page hid \<and> km_usage mapping = HidUsage.usage hid) KEY_MAP))
       (UnsupportedHidUsage (page hid) (HidUsage.usage hid))"

definition evdev_button_to_pointer :: "KeyCode \<Rightarrow> MappingError + PointerButton" where
  "evdev_button_to_pointer key =
     (if key = BTN_LEFT then Inr 1
      else if key = BTN_RIGHT then Inr 2
      else if key = BTN_MIDDLE then Inr 3
      else if key = BTN_SIDE then Inr 4
      else if key = BTN_EXTRA then Inr 5
      else if key = BTN_FORWARD then Inr 6
      else if key = BTN_BACK then Inr 7
      else if key = BTN_TASK then Inr 8
      else Inl (UnsupportedEvdevCode key))"

definition pointer_button_to_evdev :: "PointerButton \<Rightarrow> MappingError + KeyCode" where
  "pointer_button_to_evdev button =
     (if button = 1 then Inr BTN_LEFT
      else if button = 2 then Inr BTN_RIGHT
      else if button = 3 then Inr BTN_MIDDLE
      else if button = 4 then Inr BTN_SIDE
      else if button = 5 then Inr BTN_EXTRA
      else if button = 6 then Inr BTN_FORWARD
      else if button = 7 then Inr BTN_BACK
      else if button = 8 then Inr BTN_TASK
      else Inl (UnsupportedHidUsage 0x09 button))"

definition mapped_evdev_keys :: "KeyCode list" where
  "mapped_evdev_keys = map km_evdev KEY_MAP"

definition mapped_pointer_buttons :: "KeyCode list" where
  "mapped_pointer_buttons =
     [BTN_LEFT, BTN_RIGHT, BTN_MIDDLE, BTN_SIDE, BTN_EXTRA, BTN_FORWARD, BTN_BACK, BTN_TASK]"

section \<open>Collecting a frame\<close>

record FrameAccumulator =
  fa_transitions :: "CaptureTransition list"
  fa_event_count :: u64
  fa_dx :: i64
  fa_dy :: i64
  fa_wheel_legacy :: i64
  fa_hwheel_legacy :: i64
  fa_wheel_hi_res :: i64
  fa_hwheel_hi_res :: i64
  fa_saw_wheel_hi_res :: bool
  fa_saw_hwheel_hi_res :: bool

definition accumulator_default :: FrameAccumulator where
  "accumulator_default =
     \<lparr>fa_transitions = [], fa_event_count = 0, fa_dx = 0, fa_dy = 0, fa_wheel_legacy = 0, fa_hwheel_legacy = 0,
      fa_wheel_hi_res = 0, fa_hwheel_hi_res = 0, fa_saw_wheel_hi_res = False, fa_saw_hwheel_hi_res = False\<rparr>"

definition key_state_of :: "i32 \<Rightarrow> MappingError + KeyState" where
  "key_state_of v =
     (if v = 0 then Inr KeyReleased
      else if v = 1 then Inr KeyPressed
      else if v = 2 then Inr KeyRepeat
      else Inl (InvalidKeyValue v))"

definition is_pointer_code :: "KeyCode \<Rightarrow> bool" where
  "is_pointer_code key \<longleftrightarrow> BTN_LEFT \<le> key \<and> key \<le> BTN_TASK"

text \<open>A key event as a transition: \<open>None\<close> is a key without a HID usage, which capture ignores.\<close>

definition transition_of :: "KeyCode \<Rightarrow> KeyState \<Rightarrow> MappingError + CaptureTransition option" where
  "transition_of key state =
     (if is_pointer_code key then
        result_then (evdev_button_to_pointer key) (\<lambda>button. Inr (Some (TransButton button state)))
      else (case evdev_key_to_hid key of
              Inl _ \<Rightarrow> Inr None
            | Inr hid \<Rightarrow> Inr (Some (TransKey hid state))))"

definition count_event :: "FrameAccumulator \<Rightarrow> FrameAccumulator" where
  "count_event a = a\<lparr>fa_event_count := saturating_add_u64 (fa_event_count a) 1\<rparr>"

definition push_relative :: "u16 \<Rightarrow> i64 \<Rightarrow> FrameAccumulator \<Rightarrow> FrameAccumulator" where
  "push_relative code v a =
     (if code = REL_X then count_event (a\<lparr>fa_dx := fa_dx a + v\<rparr>)
      else if code = REL_Y then count_event (a\<lparr>fa_dy := fa_dy a + v\<rparr>)
      else if code = REL_WHEEL then count_event (a\<lparr>fa_wheel_legacy := fa_wheel_legacy a + v\<rparr>)
      else if code = REL_HWHEEL then count_event (a\<lparr>fa_hwheel_legacy := fa_hwheel_legacy a + v\<rparr>)
      else if code = REL_WHEEL_HI_RES then
        count_event (a\<lparr>fa_saw_wheel_hi_res := True, fa_wheel_hi_res := fa_wheel_hi_res a + v\<rparr>)
      else if code = REL_HWHEEL_HI_RES then
        count_event (a\<lparr>fa_saw_hwheel_hi_res := True, fa_hwheel_hi_res := fa_hwheel_hi_res a + v\<rparr>)
      else a)"

definition finish :: "FrameAccumulator \<Rightarrow> CaptureFrame" where
  "finish a =
     (let vertical = (if fa_saw_wheel_hi_res a then fa_wheel_hi_res a else fa_wheel_legacy a * WHEEL_CLICK_UNITS);
          horizontal = (if fa_saw_hwheel_hi_res a then fa_hwheel_hi_res a else fa_hwheel_legacy a * WHEEL_CLICK_UNITS)
      in \<lparr>cf_transitions = fa_transitions a,
          cf_motion = \<lparr>dx = fa_dx a, dy = fa_dy a, scroll_x = horizontal, scroll_y = vertical\<rparr>,
          cf_touch_snapshot = None, cf_as_pointer = None, cf_event_count = fa_event_count a\<rparr>)"

definition push ::
  "InputEvent \<Rightarrow> FrameAccumulator \<Rightarrow> (MappingError + CaptureFrame option) \<times> FrameAccumulator"
where
  "push event a =
     (case ie_type event of
        SYNCHRONIZATION \<Rightarrow>
          if ie_code event = SYN_REPORT then (Inr (Some (finish a)), accumulator_default)
          else if ie_code event = SYN_DROPPED then (Inl SynchronizationLost, a)
          else (Inr None, a)
      | KEY \<Rightarrow>
          (case result_then (key_state_of (ie_value event)) (transition_of (ie_code event)) of
             Inl e \<Rightarrow> (Inl e, a)
           | Inr None \<Rightarrow> (Inr None, a)
           | Inr (Some transition) \<Rightarrow>
               (Inr None, count_event (a\<lparr>fa_transitions := fa_transitions a @ [transition]\<rparr>)))
      | RELATIVE \<Rightarrow> (Inr None, push_relative (ie_code event) (scast (ie_value event)) a)
      | _ \<Rightarrow> (Inr None, a))"

text \<open>The loop over a batch of events: the frames it completes, or the first error.\<close>

fun push_frames ::
  "InputEvent list \<Rightarrow> FrameAccumulator \<Rightarrow> (MappingError + CaptureFrame list) \<times> FrameAccumulator"
where
  "push_frames [] a = (Inr [], a)"
| "push_frames (event # events) a =
     (case push event a of
        (Inl e, a1) \<Rightarrow> (Inl e, a1)
      | (Inr r, a1) \<Rightarrow>
          (case push_frames events a1 of
             (Inl e, a2) \<Rightarrow> (Inl e, a2)
           | (Inr frames, a2) \<Rightarrow> (Inr ((case r of None \<Rightarrow> [] | Some f \<Rightarrow> [f]) @ frames), a2)))"


section \<open>The tables are inverse to each other\<close>

lemma find_unique:
  assumes "distinct (map f xs)" "x \<in> set xs"
  shows "find (\<lambda>y. f y = f x) xs = Some x"
  using assms by (induction xs) (auto simp: image_iff)

lemma find_entryD: "find P xs = Some x \<Longrightarrow> x \<in> set xs \<and> P x"
  by (induction xs) (auto split: if_splits)

text \<open>Each code and each usage occurs once.\<close>

lemma distinct_codes: "distinct (map km_evdev KEY_MAP)"
proof -
  have "distinct (map uint (map km_evdev KEY_MAP))"
    by (simp add: KEY_MAP_def KeyMapping_keyboard_def KeyMapping_consumer_def)
  then show ?thesis
    by (simp only: distinct_map)
qed

text \<open>The usages of the two pages are different numbers of at most twenty bits.\<close>

lemma distinct_usages: "distinct (map mapping_hid KEY_MAP)"
proof -
  have "distinct (map (\<lambda>m. 65536 * uint (km_page m) + uint (km_usage m)) KEY_MAP)"
    by (simp add: KEY_MAP_def KeyMapping_keyboard_def KeyMapping_consumer_def HID_KEYBOARD_def HID_CONSUMER_def)
  then have "distinct (map (\<lambda>h. 65536 * uint (page h) + uint (HidUsage.usage h)) (map mapping_hid KEY_MAP))"
    by (simp add: comp_def mapping_hid_def)
  then show ?thesis
    by (simp only: distinct_map)
qed

lemma ok_or_Inr: "ok_or x e = Inr a \<longleftrightarrow> x = Some a"
  by (cases x) (auto simp: ok_or_def)

lemma key_to_hid_iff:
  "evdev_key_to_hid key = Inr hid \<longleftrightarrow> (\<exists>m \<in> set KEY_MAP. km_evdev m = key \<and> mapping_hid m = hid)"
  using find_unique [OF distinct_codes]
  by (auto simp: evdev_key_to_hid_def ok_or_Inr dest: find_entryD)

lemma hid_eq_iff: "km_page m = page hid \<and> km_usage m = HidUsage.usage hid \<longleftrightarrow> mapping_hid m = hid"
  by (cases hid) (simp add: mapping_hid_def)

lemma hid_to_key_iff:
  "hid_to_evdev_key hid = Inr key \<longleftrightarrow> (\<exists>m \<in> set KEY_MAP. km_evdev m = key \<and> mapping_hid m = hid)"
  using find_unique [OF distinct_usages]
  by (auto simp: hid_to_evdev_key_def ok_or_Inr hid_eq_iff dest: find_entryD)

lemma mapped_iff: "is_ok (evdev_key_to_hid key) \<longleftrightarrow> key \<in> set mapped_evdev_keys"
  using find_unique [OF distinct_codes]
  by (fastforce simp: evdev_key_to_hid_def mapped_evdev_keys_def is_ok_def ok_or_def dest: find_entryD
      split: option.splits)

lemma is_pointer_code_iff: "is_pointer_code key \<longleftrightarrow> key \<in> set mapped_pointer_buttons"
proof
  assume "is_pointer_code key"
  then have "272 \<le> unat key" "unat key \<le> 279"
    by (simp_all add: is_pointer_code_def word_le_nat_alt)
  then have "unat key \<in> {272, 273, 274, 275, 276, 277, 278, 279}"
    by auto
  then have "key \<in> of_nat ` {272, 273, 274, 275, 276, 277, 278, 279}"
    by (rule image_eqI [rotated]) simp
  then show "key \<in> set mapped_pointer_buttons"
    by (auto simp: mapped_pointer_buttons_def)
qed (auto simp: is_pointer_code_def mapped_pointer_buttons_def)

text \<open>
  C35: The two tables of the Linux backend are inverse to each other: a key that capture maps to a HID usage is
  the key that injection sends for that usage, and the other way round, and the same holds for the codes of the
  eight pointer buttons, which are exactly the codes that capture reads as buttons.
\<close>

theorem key_tables_are_inverse:
  "(evdev_key_to_hid key = Inr hid \<longleftrightarrow> hid_to_evdev_key hid = Inr key) \<and>
   (evdev_button_to_pointer key = Inr button \<longleftrightarrow> pointer_button_to_evdev button = Inr key) \<and>
   (is_pointer_code key \<longleftrightarrow> key \<in> set mapped_pointer_buttons) \<and>
   (is_ok (evdev_key_to_hid key) \<longleftrightarrow> key \<in> set mapped_evdev_keys)"
proof (intro conjI)
  show "evdev_key_to_hid key = Inr hid \<longleftrightarrow> hid_to_evdev_key hid = Inr key"
    using key_to_hid_iff [of key hid] hid_to_key_iff [of hid key] by simp
  show "evdev_button_to_pointer key = Inr button \<longleftrightarrow> pointer_button_to_evdev button = Inr key"
    by (auto simp: evdev_button_to_pointer_def pointer_button_to_evdev_def split: if_splits)
  show "is_pointer_code key \<longleftrightarrow> key \<in> set mapped_pointer_buttons"
    by (rule is_pointer_code_iff)
  show "is_ok (evdev_key_to_hid key) \<longleftrightarrow> key \<in> set mapped_evdev_keys"
    by (rule mapped_iff)
qed

section \<open>What a frame holds\<close>

text \<open>Events inside a report, and the values and transitions they stand for.\<close>

definition report_event :: "InputEvent \<Rightarrow> bool" where
  "report_event event \<longleftrightarrow>
     ie_type event \<noteq> SYNCHRONIZATION \<and> (ie_type event = KEY \<longrightarrow> ie_value event \<in> {0, 1, 2})"

definition on_code :: "u16 \<Rightarrow> InputEvent \<Rightarrow> bool" where
  "on_code code event \<longleftrightarrow> ie_type event = RELATIVE \<and> ie_code event = code"

definition rel_total :: "u16 \<Rightarrow> InputEvent list \<Rightarrow> int" where
  "rel_total code events = (\<Sum>event\<leftarrow>filter (on_code code) events. sint (ie_value event))"

definition wheel_total :: "u16 \<Rightarrow> u16 \<Rightarrow> InputEvent list \<Rightarrow> int" where
  "wheel_total fine coarse events =
     (if list_ex (on_code fine) events then rel_total fine events else 120 * rel_total coarse events)"

definition event_transition :: "InputEvent \<Rightarrow> CaptureTransition option" where
  "event_transition event =
     (if ie_type event = KEY then
        (case result_then (key_state_of (ie_value event)) (transition_of (ie_code event)) of
           Inr transition \<Rightarrow> transition | Inl _ \<Rightarrow> None)
      else None)"

lemma rel_total_simps [simp]:
  "rel_total code [] = 0"
  "rel_total code (event # events) =
     (if on_code code event then sint (ie_value event) else 0) + rel_total code events"
  by (simp_all add: rel_total_def)

lemma rel_total_bound: "\<bar>rel_total code events\<bar> \<le> 2 ^ 31 * int (length events)"
proof (induction events)
  case (Cons event events)
  have "\<bar>sint (ie_value event)\<bar> \<le> 2 ^ 31"
    using sint_ge [of "ie_value event"] sint_less [of "ie_value event"] by auto
  with Cons show ?case
    by (auto simp: algebra_simps)
qed simp


text \<open>A key event of a report is taken: no button code is without a button.\<close>

lemma transition_of_is_ok: "\<exists>t. transition_of key state = Inr t"
proof (cases "is_pointer_code key")
  case True
  then have "key \<in> set mapped_pointer_buttons"
    by (simp add: is_pointer_code_iff)
  then have "\<exists>button. evdev_button_to_pointer key = Inr button"
    by (auto simp: mapped_pointer_buttons_def evdev_button_to_pointer_def)
  with True show ?thesis
    by (auto simp: transition_of_def result_then_def)
next
  case False
  then show ?thesis
    by (cases "evdev_key_to_hid key") (auto simp: transition_of_def)
qed

lemma read_key:
  "(v \<in> {0, 1, 2} \<and> (\<exists>t. result_then (key_state_of v) (transition_of code) = Inr t)) \<or>
   (v \<notin> {0, 1, 2} \<and> result_then (key_state_of v) (transition_of code) = Inl (InvalidKeyValue v))"
  using transition_of_is_ok [of code] by (simp add: key_state_of_def result_then_def)

lemma push_errors:
  "fst (push event a) = Inl e \<longleftrightarrow>
     ie_type event = SYNCHRONIZATION \<and> ie_code event = SYN_DROPPED \<and> e = SynchronizationLost \<or>
     ie_type event = KEY \<and> ie_value event \<notin> {0, 1, 2} \<and> e = InvalidKeyValue (ie_value event)"
proof (cases "ie_type event")
  case KEY
  from read_key [of "ie_value event" "ie_code event"] show ?thesis
  proof (elim disjE conjE exE)
    fix t
    assume "ie_value event \<in> {0, 1, 2}" "result_then (key_state_of (ie_value event)) (transition_of (ie_code event)) = Inr t"
    then show ?thesis by (cases t) (auto simp: push_def KEY)
  next
    assume "ie_value event \<notin> {0, 1, 2}"
      "result_then (key_state_of (ie_value event)) (transition_of (ie_code event)) = Inl (InvalidKeyValue (ie_value event))"
    then show ?thesis by (auto simp: push_def KEY)
  qed
qed (auto simp: push_def)

definition absorb :: "InputEvent \<Rightarrow> FrameAccumulator \<Rightarrow> FrameAccumulator" where
  "absorb event a =
     (case event_transition event of
        Some transition \<Rightarrow> count_event (a\<lparr>fa_transitions := fa_transitions a @ [transition]\<rparr>)
      | None \<Rightarrow> if ie_type event = RELATIVE then push_relative (ie_code event) (scast (ie_value event)) a else a)"

lemma push_report_event:
  assumes "report_event event"
  shows "push event a = (Inr None, absorb event a)"
proof (cases "ie_type event")
  case KEY
  then obtain t where "result_then (key_state_of (ie_value event)) (transition_of (ie_code event)) = Inr t"
    using assms read_key [of "ie_value event" "ie_code event"] by (auto simp only: report_event_def)
  then show ?thesis
    by (cases t) (simp_all add: push_def absorb_def event_transition_def KEY)
qed (use assms in \<open>simp_all add: push_def absorb_def event_transition_def report_event_def\<close>)

definition absorb_all :: "InputEvent list \<Rightarrow> FrameAccumulator \<Rightarrow> FrameAccumulator" where
  "absorb_all events a = fold absorb events a"

lemma push_frames_events:
  "\<forall>event \<in> set events. report_event event \<Longrightarrow> push_frames events a = (Inr [], absorb_all events a)"
  by (induction events arbitrary: a) (simp_all add: push_report_event absorb_all_def)

lemma push_frames_append:
  "push_frames (es @ es') a =
     (case push_frames es a of
        (Inl e, a1) \<Rightarrow> (Inl e, a1)
      | (Inr fs, a1) \<Rightarrow>
          (case push_frames es' a1 of
             (Inl e, a2) \<Rightarrow> (Inl e, a2)
           | (Inr fs', a2) \<Rightarrow> (Inr (fs @ fs'), a2)))"
  by (induction es arbitrary: a) (auto split: prod.splits sum.splits)

text \<open>The accumulator holds the transitions and the sums of the events so far.\<close>

definition collected :: "InputEvent list \<Rightarrow> FrameAccumulator \<Rightarrow> bool" where
  "collected events a \<longleftrightarrow>
     fa_transitions a = List.map_filter event_transition events \<and>
     fa_dx a = of_int (rel_total REL_X events) \<and>
     fa_dy a = of_int (rel_total REL_Y events) \<and>
     fa_wheel_legacy a = of_int (rel_total REL_WHEEL events) \<and>
     fa_hwheel_legacy a = of_int (rel_total REL_HWHEEL events) \<and>
     fa_wheel_hi_res a = of_int (rel_total REL_WHEEL_HI_RES events) \<and>
     fa_hwheel_hi_res a = of_int (rel_total REL_HWHEEL_HI_RES events) \<and>
     fa_saw_wheel_hi_res a = list_ex (on_code REL_WHEEL_HI_RES) events \<and>
     fa_saw_hwheel_hi_res a = list_ex (on_code REL_HWHEEL_HI_RES) events"

lemma rel_total_snoc [simp]:
  "rel_total code (events @ [event]) =
     rel_total code events + (if on_code code event then sint (ie_value event) else 0)"
  by (simp add: rel_total_def)

lemma scast_of_int: "(scast (v :: i32) :: i64) = of_int (sint v)"
  by simp

lemma push_relative_fields:
  "fa_transitions (push_relative code v a) = fa_transitions a"
  "fa_dx (push_relative code v a) = fa_dx a + (if code = REL_X then v else 0)"
  "fa_dy (push_relative code v a) = fa_dy a + (if code = REL_Y then v else 0)"
  "fa_wheel_legacy (push_relative code v a) = fa_wheel_legacy a + (if code = REL_WHEEL then v else 0)"
  "fa_hwheel_legacy (push_relative code v a) = fa_hwheel_legacy a + (if code = REL_HWHEEL then v else 0)"
  "fa_wheel_hi_res (push_relative code v a) = fa_wheel_hi_res a + (if code = REL_WHEEL_HI_RES then v else 0)"
  "fa_hwheel_hi_res (push_relative code v a) = fa_hwheel_hi_res a + (if code = REL_HWHEEL_HI_RES then v else 0)"
  "fa_saw_wheel_hi_res (push_relative code v a) \<longleftrightarrow> fa_saw_wheel_hi_res a \<or> code = REL_WHEEL_HI_RES"
  "fa_saw_hwheel_hi_res (push_relative code v a) \<longleftrightarrow> fa_saw_hwheel_hi_res a \<or> code = REL_HWHEEL_HI_RES"
  by (simp_all add: push_relative_def count_event_def)

lemma map_filter_snoc: "List.map_filter f (xs @ [x]) = List.map_filter f xs @ (case f x of None \<Rightarrow> [] | Some y \<Rightarrow> [y])"
  by (simp add: List.map_filter_def split: option.split)

lemma collected_absorb:
  assumes "collected events a"
  shows "collected (events @ [event]) (absorb event a)"
proof (cases "ie_type event = RELATIVE")
  case True
  then have none: "event_transition event = None" and on: "on_code code event \<longleftrightarrow> ie_code event = code" for code
    by (simp_all add: event_transition_def on_code_def)
  then have absorb: "absorb event a = push_relative (ie_code event) (of_int (sint (ie_value event))) a"
    using True by (simp add: absorb_def)
  show ?thesis
    using assms unfolding collected_def absorb push_relative_fields map_filter_snoc none rel_total_snoc on
    by (simp add: on)
next
  case False
  then have on: "\<not> on_code code event" for code
    by (simp add: on_code_def)
  show ?thesis
  proof (cases "event_transition event")
    case None
    then have "absorb event a = a" using False by (simp add: absorb_def)
    with assms None on show ?thesis by (simp add: collected_def map_filter_snoc)
  next
    case (Some transition)
    then have "absorb event a = count_event (a\<lparr>fa_transitions := fa_transitions a @ [transition]\<rparr>)"
      by (simp add: absorb_def)
    with assms Some on show ?thesis by (simp add: collected_def map_filter_snoc count_event_def)
  qed
qed

lemma collected_absorb_all:
  "\<forall>event \<in> set events. report_event event \<Longrightarrow> collected events (absorb_all events accumulator_default)"
proof (induction events rule: rev_induct)
  case Nil
  then show ?case
    by (simp add: collected_def absorb_all_def accumulator_default_def List.map_filter_def)
next
  case (snoc event events)
  then show ?case
    by (simp add: absorb_all_def collected_absorb)
qed

lemma sint_of_small: "\<bar>n\<bar> < 2 ^ 63 \<Longrightarrow> sint (of_int n :: i64) = n"
  by (simp add: sint_sbintrunc' signed_take_bit_int_eq_self abs_less_iff)

lemma sint_total:
  assumes "length events < 2 ^ 24"
  shows "sint (of_int (rel_total code events) :: i64) = rel_total code events"
    and "sint (of_int (rel_total code events) * 120 :: i64) = 120 * rel_total code events"
proof -
  have bound: "\<bar>rel_total code events\<bar> \<le> 2 ^ 55"
    using rel_total_bound [of code events] assms by simp
  then show "sint (of_int (rel_total code events) :: i64) = rel_total code events"
    by (intro sint_of_small) simp
  have "\<bar>120 * rel_total code events\<bar> < 2 ^ 63"
    using bound by (simp add: abs_mult)
  from sint_of_small [OF this]
  show "sint (of_int (rel_total code events) * 120 :: i64) = 120 * rel_total code events"
    by (simp add: mult.commute)
qed

definition report_end :: InputEvent where
  "report_end = \<lparr>ie_type = SYNCHRONIZATION, ie_code = SYN_REPORT, ie_value = 0\<rparr>"

lemma push_report_end: "push report_end a = (Inr (Some (finish a)), accumulator_default)"
  by (simp add: push_def report_end_def)

text \<open>
  The events of a report become one frame: the key and button transitions in their order, the sums of the
  relative motion, and per wheel the sum of the high-resolution units, or 120 units a click when the report has
  none of those. The sums are exact for up to \<open>2 ^ 24\<close> events, and nothing is left for the next report.
\<close>

theorem report_becomes_frame:
  assumes events: "\<forall>event \<in> set events. report_event event" and few: "length events < 2 ^ 24"
  shows "\<exists>f. push_frames (events @ [report_end]) accumulator_default = (Inr [f], accumulator_default) \<and>
    cf_transitions f = List.map_filter event_transition events \<and>
    sint (dx (cf_motion f)) = rel_total REL_X events \<and>
    sint (dy (cf_motion f)) = rel_total REL_Y events \<and>
    sint (scroll_x (cf_motion f)) = wheel_total REL_HWHEEL_HI_RES REL_HWHEEL events \<and>
    sint (scroll_y (cf_motion f)) = wheel_total REL_WHEEL_HI_RES REL_WHEEL events"
proof -
  let ?a = "absorb_all events accumulator_default"
  have "push_frames (events @ [report_end]) accumulator_default = (Inr [finish ?a], accumulator_default)"
    using events by (simp add: push_frames_append push_frames_events push_report_end)
  moreover have "collected events ?a"
    using events by (rule collected_absorb_all)
  ultimately show ?thesis
    using sint_total [OF few]
    by (simp add: collected_def finish_def WHEEL_CLICK_UNITS_def wheel_total_def)
qed

definition sample_event :: "EventType \<Rightarrow> u16 \<Rightarrow> i32 \<Rightarrow> InputEvent" where
  "sample_event kind code v = \<lparr>ie_type = kind, ie_code = code, ie_value = v\<rparr>"

lemma report_becomes_frame_witness:
  "\<exists>f. push_frames ([sample_event RELATIVE REL_X 5, sample_event RELATIVE REL_WHEEL 1, sample_event RELATIVE REL_X (- 7)]
       @ [report_end]) accumulator_default = (Inr [f], accumulator_default) \<and>
     sint (dx (cf_motion f)) = - 2 \<and> sint (scroll_y (cf_motion f)) = 120"
  using report_becomes_frame
    [of "[sample_event RELATIVE REL_X 5, sample_event RELATIVE REL_WHEEL 1, sample_event RELATIVE REL_X (- 7)]"]
  by (auto simp: sample_event_def report_event_def on_code_def wheel_total_def)

end
