(* ===== verification/Mac_Keys.thy ===== *)
theory Mac_Keys
  imports Model
begin

text \<open>
  The keys of a Mac (\<open>src/src/macos/keys.rs\<close>): the table between virtual keycodes and HID usages, read one way when
  capturing and the other way when posting, and the media keys. The event flags of modifiers are left out.
\<close>

definition MAC_KEYS :: "(u16 \<times> u16) list" where
  "MAC_KEYS =
     [(0, 0x04), (1, 0x16), (2, 0x07), (3, 0x09), (4, 0x0b), (5, 0x0a), (6, 0x1d), (7, 0x1b), (8, 0x06), (9, 0x19),
      (10, 0x64), (11, 0x05), (12, 0x14), (13, 0x1a), (14, 0x08), (15, 0x15), (16, 0x1c), (17, 0x17), (18, 0x1e), (19, 0x1f),
      (20, 0x20), (21, 0x21), (22, 0x23), (23, 0x22), (24, 0x2e), (25, 0x26), (26, 0x24), (27, 0x2d), (28, 0x25), (29, 0x27),
      (30, 0x30), (31, 0x12), (32, 0x18), (33, 0x2f), (34, 0x0c), (35, 0x13), (36, 0x28), (37, 0x0f), (38, 0x0d), (39, 0x34),
      (40, 0x0e), (41, 0x33), (42, 0x31), (43, 0x36), (44, 0x38), (45, 0x11), (46, 0x10), (47, 0x37), (48, 0x2b), (49, 0x2c),
      (50, 0x35), (51, 0x2a), (53, 0x29), (54, 0xe7), (55, 0xe3), (56, 0xe1), (57, 0x39), (58, 0xe2), (59, 0xe0), (60, 0xe5),
      (61, 0xe6), (62, 0xe4), (64, 0x6c), (65, 0x63), (67, 0x55), (69, 0x57), (71, 0x53), (75, 0x54), (76, 0x58), (78, 0x56),
      (79, 0x6d), (80, 0x6e), (81, 0x67), (82, 0x62), (83, 0x59), (84, 0x5a), (85, 0x5b), (86, 0x5c), (87, 0x5d), (88, 0x5e),
      (89, 0x5f), (90, 0x6f), (91, 0x60), (92, 0x61), (93, 0x89), (94, 0x87), (95, 0x85), (96, 0x3e), (97, 0x3f), (98, 0x40),
      (99, 0x3c), (100, 0x41), (101, 0x42), (102, 0x91), (103, 0x44), (104, 0x90), (105, 0x68), (106, 0x6b), (107, 0x69), (109, 0x43),
      (110, 0x65), (111, 0x45), (113, 0x6a), (114, 0x49), (115, 0x4a), (116, 0x4b), (117, 0x4c), (118, 0x3d), (119, 0x4d), (120, 0x3b),
      (121, 0x4e), (122, 0x3a), (123, 0x50), (124, 0x4f), (125, 0x51), (126, 0x52)]"

definition PRINT_SCREEN :: u16 where "PRINT_SCREEN = 0x46"
definition MAC_F13 :: u16 where "MAC_F13 = 105"

text \<open>Consumer-page usages and the media key that macOS posts for them.\<close>

definition MEDIA_KEYS :: "(u16 \<times> u32) list" where
  "MEDIA_KEYS =
     [(0xe9, 0), (0xea, 1), (0x6f, 2), (0x70, 3), (0xe2, 7), (0xb8, 14),
      (0xcd, 16), (0xb5, 17), (0xb6, 18), (0xb3, 19), (0xb4, 20)]"

definition mac_keycode_to_hid :: "u16 \<Rightarrow> HidUsage option" where
  "mac_keycode_to_hid code = map_option (\<lambda>(_, hid). keyboard hid) (find (\<lambda>(mac, _). mac = code) MAC_KEYS)"

text \<open>\<open>iso_keyboard\<close> is whether this Mac's own keyboard is an ISO keyboard, on which 10 and 50 are swapped.\<close>

definition hid_to_mac_keycode :: "HidUsage \<Rightarrow> bool \<Rightarrow> u16 option" where
  "hid_to_mac_keycode hid iso_keyboard =
     (if page hid \<noteq> KEYBOARD_KEYPAD then None
      else
        map_option (\<lambda>code. if (code = 10 \<or> code = 50) \<and> iso_keyboard then 60 - code else code)
          (if HidUsage.usage hid = PRINT_SCREEN then Some MAC_F13
           else map_option fst (find (\<lambda>(_, u). u = HidUsage.usage hid) MAC_KEYS)))"

definition hid_to_media_key :: "HidUsage \<Rightarrow> u32 option" where
  "hid_to_media_key hid =
     (if page hid \<noteq> CONSUMER then None
      else map_option snd (find (\<lambda>(u, _). u = HidUsage.usage hid) MEDIA_KEYS))"

text \<open>\<open>supports_key\<close> of \<open>macos/inject.rs\<close>.\<close>

definition mac_supports_key :: "HidUsage \<Rightarrow> bool" where
  "mac_supports_key hid \<longleftrightarrow> hid_to_mac_keycode hid False \<noteq> None \<or> hid_to_media_key hid \<noteq> None"

section \<open>Capturing and posting are inverse\<close>

lemma find_pair:
  "distinct (map f xs) \<Longrightarrow> x \<in> set xs \<Longrightarrow> find (\<lambda>y. f y = f x) xs = Some x"
  by (induction xs) force+

lemma mac_keys_distinct: "distinct (map fst MAC_KEYS)" "distinct (map snd MAC_KEYS)"
  by (simp_all add: MAC_KEYS_def)

lemma mac_keys_no_print_screen: "PRINT_SCREEN \<notin> snd ` set MAC_KEYS"
  by (simp add: MAC_KEYS_def PRINT_SCREEN_def)

text \<open>
  Every key of the table that is captured is posted as itself, and on an ISO keyboard as itself but for the two keys
  that macOS swaps.
\<close>

theorem mac_keys_round_trip:
  assumes "(code, hid) \<in> set MAC_KEYS"
  shows "mac_keycode_to_hid code = Some (keyboard hid)" "hid_to_mac_keycode (keyboard hid) False = Some code"
    and "hid_to_mac_keycode (keyboard hid) True = Some (if code = 10 \<or> code = 50 then 60 - code else code)"
proof -
  have "find (\<lambda>(mac, _). mac = code) MAC_KEYS = Some (code, hid)" "find (\<lambda>(_, u). u = hid) MAC_KEYS = Some (code, hid)"
    using find_pair [OF mac_keys_distinct(1) assms] find_pair [OF mac_keys_distinct(2) assms]
    by (simp_all add: case_prod_beta')
  moreover have "hid \<noteq> PRINT_SCREEN" using mac_keys_no_print_screen assms by force
  ultimately show "mac_keycode_to_hid code = Some (keyboard hid)" "hid_to_mac_keycode (keyboard hid) False = Some code"
    "hid_to_mac_keycode (keyboard hid) True = Some (if code = 10 \<or> code = 50 then 60 - code else code)"
    by (simp_all add: mac_keycode_to_hid_def hid_to_mac_keycode_def keyboard_def)
qed

end
