(* ===== verification/Backend_Support.thy ===== *)
theory Backend_Support
  imports Evdev Mac_Keys Receiver
begin

text \<open>
  What the backend of a platform can inject (\<open>backend_supports\<close> of \<open>src/src/session/receive.rs\<close>). The receiver tracks
  keys and buttons that the backend cannot inject, and only their injection is dropped; so the backend holds the
  supported part of what the receiver believes to be held.
\<close>

text \<open>The operating system that the program is built for (\<open>cfg(target_os)\<close>).\<close>

datatype TargetOs = TargetLinux | TargetMacOS | TargetOther

fun backend_supports :: "TargetOs \<Rightarrow> ReceiverEffect \<Rightarrow> bool" where
  "backend_supports TargetLinux effect =
     (case effect of
        EffKey key _ _ \<Rightarrow> is_ok (hid_to_evdev_key key)
      | EffButton button _ _ \<Rightarrow> is_ok (pointer_button_to_evdev button)
      | _ \<Rightarrow> True)"
| "backend_supports TargetMacOS effect =
     (case effect of
        EffKey key _ _ \<Rightarrow> mac_supports_key key
      | EffButton button _ _ \<Rightarrow> 1 \<le> button \<and> button \<le> 32
      | EffTouchReplaced _ _ \<Rightarrow> False
      | _ \<Rightarrow> True)"
| "backend_supports TargetOther effect = True"

definition supported_key :: "TargetOs \<Rightarrow> HidUsage \<Rightarrow> bool" where
  "supported_key target key = backend_supports target (EffKey key True False)"

definition supported_button :: "TargetOs \<Rightarrow> PointerButton \<Rightarrow> bool" where
  "supported_button target button = backend_supports target (EffButton button True False)"

text \<open>The part of a held state that the backend can hold.\<close>

definition supported_held :: "TargetOs \<Rightarrow> HeldState \<Rightarrow> HeldState" where
  "supported_held target h =
     \<lparr>pressed_keys = ffilter (supported_key target) (pressed_keys h),
      pressed_buttons = ffilter (supported_button target) (pressed_buttons h),
      active_touch = (if target = TargetMacOS then touch_default else active_touch h)\<rparr>"

lemma supported_default [simp]: "supported_held target held_default = held_default"
  by (auto simp: supported_held_def held_default_def fset_eq_iff)

lemma supported_everything: "supported_held TargetOther h = h"
  by (cases h) (auto simp: supported_held_def supported_key_def supported_button_def backend_supports.simps fset_eq_iff)

declare backend_supports.simps [simp del]

lemma backend_supports_other [simp]: "backend_supports TargetOther effect"
  by (simp add: backend_supports.simps)

lemma backend_supports_iff:
  "backend_supports target (EffKey key pressed synthetic) \<longleftrightarrow> supported_key target key"
  "backend_supports target (EffButton button pressed synthetic) \<longleftrightarrow> supported_button target button"
  "backend_supports target (EffTouchReplaced touches synthetic) \<longleftrightarrow> target \<noteq> TargetMacOS"
  "backend_supports target (EffMotion delta through)"
  "backend_supports target (ActivationOpened session)"
  "backend_supports target (EffSnapshotAck session ack)"
  "backend_supports target (ActivationClosed session reason)"
  "backend_supports target (Rejected session rejection)"
  by (cases target; simp add: supported_key_def supported_button_def backend_supports.simps)+

text \<open>Dropping what is not supported commutes with the projection to the supported part.\<close>

lemma supported_apply:
  assumes "backend_apply e h = Some h'"
  shows "if backend_supports target e then backend_apply e (supported_held target h) = Some (supported_held target h')
    else supported_held target h' = supported_held target h"
  using assms
  by (cases e) (auto simp: supported_held_def backend_supports_iff split: if_splits)

lemma supported_run:
  "backend_run es h = Some h' \<Longrightarrow>
     backend_run (filter (backend_supports target) es) (supported_held target h) = Some (supported_held target h')"
proof (induction es arbitrary: h)
  case (Cons e es)
  from Cons.prems obtain h1 where "backend_apply e h = Some h1" "backend_run es h1 = Some h'"
    by (auto simp: bind_eq_Some_conv)
  with Cons.IH [of h1] supported_apply [of e h h1 target] show ?case by (auto split: if_splits)
qed simp

end
