(* ===== verification/Inbound.thy ===== *)
theory Inbound
  imports Receiver_Safety Sender Playout_Motion Backend_Support
begin

text \<open>
  The receive side of an input session (\<open>src/src/session/receive.rs\<close>): the queue of deferred controls, the
  playout, the clock probes, and the handover of effects to the backend and of answers to the peer.

  \<open>Inbound\<close> is the record of the same name. The reporter's metrics are left out; \<open>i_sent\<close> is the log of what
  went to the daemon and to the two channels, in order. What the session cannot decide is the record
  \<open>World\<close>, an argument of every operation: the operating system that the program is built for, whether the daemon
  applied a batch and whether the channels took a message, and the readings of the two clocks
  (\<open>Instant::now()\<close> and \<open>MonotonicClock::now\<close>). An instant is a number of nanoseconds.
\<close>

section \<open>State\<close>

definition SESSION_TICK :: duration where
  "SESSION_TICK = from_millis 1"

definition PROBE_INTERVAL :: duration where
  "PROBE_INTERVAL = from_millis 100"

definition PROBE_MAX_AGE :: duration where
  "PROBE_MAX_AGE = from_secs 2"

definition MAX_PENDING_PROBES :: nat where
  "MAX_PENDING_PROBES = 64"

record PendingControl =
  pc_message :: ReliableControlMessage
  pc_received_at :: instant
  pc_receiver_received_at :: MonotonicTimeMicros

datatype InboundError =
    IReceiver ReceiverError
  | IPlayout PlayoutError
  | IClock ClockError
  | IDeferredQueueFull
  | INoMatchingPlayout
  | IInvalidStateTransition
  | IBackend string
  | IChannelClosed
  | IResponseSequenceExhausted
  | IProbeSequenceExhausted
  | IPanicked

datatype InboundOutput =
    ToBackend "ReceiverEffect list" "instant option" instant
  | ToPeer ReliableControlMessage
  | ToProbe ProbeMessage

record World =
  w_target :: TargetOs
  w_applied :: "ReceiverEffect list \<Rightarrow> string + unit"
  w_control_sent :: "ReliableControlMessage \<Rightarrow> bool"
  w_probe_sent :: "ProbeMessage \<Rightarrow> bool"
  w_instant_now :: instant
  w_clock_now :: MonotonicTimeMicros
  w_hypot :: "f64 \<Rightarrow> f64 \<Rightarrow> f64"

record Inbound =
  i_playout_config :: PlayoutConfig
  i_receiver :: Receiver
  i_clock :: ClockMapper
  i_playout :: "ReceiverPlayout option"
  i_pending :: "PendingControl list"
  i_motion_received_at :: "(MotionSequence, instant) fmap"
  i_response_sequence :: ControlSequence
  i_probes :: "(ProbeSequence, MonotonicTimeMicros) fmap"
  i_next_probe_sequence :: ProbeSequence
  i_probe_context :: "SessionContext option"
  i_next_probe_at :: MonotonicTimeMicros
  i_sent :: "InboundOutput list"

type_synonym 'a inbound_op = "Inbound \<Rightarrow> (InboundError + 'a) \<times> Inbound"

definition inbound_new :: "ReceiverConfig \<Rightarrow> PlayoutConfig \<Rightarrow> MonotonicTimeMicros \<Rightarrow> InboundError + Inbound" where
  "inbound_new config playout_config now =
     result_then (map_err IReceiver (receiver_new config now)) (\<lambda>receiver.
     result_then (map_err IClock (clock_new clock_config_default)) (\<lambda>clock. Inr
       \<lparr>i_playout_config = playout_config, i_receiver = receiver, i_clock = clock, i_playout = None,
        i_pending = [], i_motion_received_at = fmempty, i_response_sequence = 0, i_probes = fmempty,
        i_next_probe_sequence = 1, i_probe_context = None,
        i_next_probe_at = time_saturating_add now PROBE_INTERVAL, i_sent = []\<rparr>))"

abbreviation i_active_context :: "Inbound \<Rightarrow> SessionContext option" where
  "i_active_context i \<equiv> active_context (i_receiver i)"

definition has_pending_controls :: "Inbound \<Rightarrow> bool" where
  "has_pending_controls i \<longleftrightarrow> i_pending i \<noteq> []"

text \<open>Calls into the parts: an error of the part becomes an error of the session.\<close>

definition with_receiver :: "(Receiver \<Rightarrow> (ReceiverError + 'a) \<times> Receiver) \<Rightarrow> 'a inbound_op" where
  "with_receiver f i = (let (r, receiver) = f (i_receiver i) in (map_err IReceiver r, i\<lparr>i_receiver := receiver\<rparr>))"

definition with_clock :: "(ClockMapper \<Rightarrow> (ClockError + 'a) \<times> ClockMapper) \<Rightarrow> 'a inbound_op" where
  "with_clock f i = (let (r, clock) = f (i_clock i) in (map_err IClock r, i\<lparr>i_clock := clock\<rparr>))"

text \<open>\<open>with_playout p f\<close> runs \<open>f\<close> on the playout \<open>p\<close> that the session holds.\<close>

definition with_playout ::
  "ReceiverPlayout \<Rightarrow> (ReceiverPlayout \<Rightarrow> (PlayoutError + 'a) \<times> ReceiverPlayout) \<Rightarrow> 'a inbound_op"
where
  "with_playout p f i = (let (r, p') = f p in (map_err IPlayout r, i\<lparr>i_playout := Some p'\<rparr>))"

section \<open>Free functions\<close>

definition session_deadline ::
  "Sender option \<Rightarrow> Receiver \<Rightarrow> ReceiverPlayout option \<Rightarrow> bool \<Rightarrow> MonotonicTimeMicros
     \<Rightarrow> MonotonicTimeMicros \<Rightarrow> MonotonicTimeMicros option"
where
  "session_deadline sender receiver playout pending_controls last_tick_at next_probe_at =
     (let catch_up = (case playout of
            None \<Rightarrow> False
          | Some p \<Rightarrow> selected_target_sequence (playout_stats p) > st_completed_sequence (playout_stats p))
      in iter_min (List.map_filter id
           [Option.bind sender sender_next_deadline,
            lease_deadline receiver,
            Option.bind playout playout_next_deadline,
            if catch_up \<or> pending_controls then Some (time_saturating_add last_tick_at SESSION_TICK) else None,
            map_option (\<lambda>_. next_probe_at) (active_context receiver)]))"

definition enqueue_pending_control ::
  "ReliableControlMessage \<Rightarrow> instant \<Rightarrow> MonotonicTimeMicros \<Rightarrow> nat \<Rightarrow> PendingControl list
     \<Rightarrow> InboundError + PendingControl list"
where
  "enqueue_pending_control message received_at arrived_at maximum pending =
     (if length pending \<ge> maximum then Inl IDeferredQueueFull
      else Inr (pending @ [\<lparr>pc_message = message, pc_received_at = received_at,
                            pc_receiver_received_at = arrived_at\<rparr>]))"

definition discard_pending_context :: "SessionContext \<Rightarrow> PendingControl list \<Rightarrow> PendingControl list" where
  "discard_pending_context context = filter (\<lambda>item. m_session (pc_message item) \<noteq> context)"

definition current_delay_of :: "ReceiverPlayout \<Rightarrow> duration" where
  "current_delay_of p = from_micros (unat (current_delay_micros p))"

text \<open>
  A control without an anchor, or of another activation, is ready at once; an anchored one when the motion
  up to its anchor is.
\<close>

definition bootstrap_clock :: "MonotonicTimeMicros \<Rightarrow> MonotonicTimeMicros \<Rightarrow> unit inbound_op" where
  "bootstrap_clock sender_time arrived_at i =
     (if is_ready (i_clock i) then (Inr (), i) else with_clock (bootstrap_from_arrival sender_time arrived_at) i)"

definition anchor_is_due ::
  "MotionAnchor \<Rightarrow> MonotonicTimeMicros \<Rightarrow> duration \<Rightarrow> MonotonicTimeMicros \<Rightarrow> bool inbound_op"
where
  "anchor_is_due an arrived_at delay now =
     try_then (bootstrap_clock (an_sender_capture_time an) arrived_at) (\<lambda>_.
     try_then (reading (\<lambda>i. map_err IClock (clock_map (i_clock i) (an_sender_capture_time an)))) (\<lambda>mapped i.
       (Inr (time_saturating_add mapped delay \<le> now), i)))"

definition pending_control_is_ready :: "PendingControl \<Rightarrow> MonotonicTimeMicros \<Rightarrow> bool inbound_op" where
  "pending_control_is_ready pending now i =
     (case motion_anchor (m_payload (pc_message pending)) of
        None \<Rightarrow> (Inr True, i)
      | Some an \<Rightarrow>
        (case i_active_context i of
           None \<Rightarrow> (Inr True, i)
         | Some active \<Rightarrow>
           (if m_session (pc_message pending) \<noteq> active then (Inr True, i)
            else
              case i_playout i of
                None \<Rightarrow> (Inl INoMatchingPlayout, i)
              | Some playout \<Rightarrow>
                 if p_session playout \<noteq> active then (Inl INoMatchingPlayout, i)
                 else anchor_is_due an (pc_receiver_received_at pending) (current_delay_of playout) now i)))"

definition capture_instant :: "World \<Rightarrow> MonotonicTimeMicros \<Rightarrow> MonotonicTimeMicros \<Rightarrow> instant" where
  "capture_instant w taken_at now =
     (let age = from_micros (unat (saturating_sub_u64 now taken_at))
      in if age \<le> w_instant_now w then w_instant_now w - age else w_instant_now w)"

fun is_synthetic_release :: "ReceiverEffect \<Rightarrow> bool" where
  "is_synthetic_release (EffKey _ pressed synthetic) = (\<not> pressed \<and> synthetic)"
| "is_synthetic_release (EffButton _ pressed synthetic) = (\<not> pressed \<and> synthetic)"
| "is_synthetic_release (EffTouchReplaced state synthetic) = (synthetic \<and> touch_is_empty state)"
| "is_synthetic_release _ = False"

section \<open>Handing over effects\<close>

fun fatal_rejection :: "RejectionReason \<Rightarrow> bool" where
  "fatal_rejection reason \<longleftrightarrow>
     reason \<in> {ControlGap, InvalidTransition, AnchorActivationMismatch, AnchorMovedBackwards, WrongDirection}"

text \<open>The first loop of \<open>emit\<close>: what goes to the backend and what is answered, or the protocol violation.\<close>

fun sort_effects ::
  "(ReceiverEffect \<Rightarrow> bool) \<Rightarrow> ReceiverEffect list
     \<Rightarrow> InboundError + (ReceiverEffect list \<times> (SessionContext \<times> ReliableControl) list)"
where
  "sort_effects supports [] = Inr ([], [])"
| "sort_effects supports (effect # effects) =
     (case effect of
        EffSnapshotAck session ack \<Rightarrow>
          result_then (sort_effects supports effects)
            (\<lambda>(backend, responses). Inr (backend, (session, CtlSnapshotAck ack) # responses))
      | Rejected _ reason \<Rightarrow>
          if fatal_rejection reason then Inl IInvalidStateTransition else sort_effects supports effects
      | _ \<Rightarrow>
          if \<not> supports effect then sort_effects supports effects
          else result_then (sort_effects supports effects)
                 (\<lambda>(backend, responses). Inr (effect # backend, responses)))"

definition log_output :: "InboundOutput \<Rightarrow> Inbound \<Rightarrow> Inbound" where
  "log_output out i = i\<lparr>i_sent := i_sent i @ [out]\<rparr>"

definition send_response :: "World \<Rightarrow> SessionContext \<times> ReliableControl \<Rightarrow> unit inbound_op" where
  "send_response w response i =
     (case checked_add_u64 (i_response_sequence i) 1 of
        None \<Rightarrow> (Inl IResponseSequenceExhausted, i)
      | Some sequence \<Rightarrow>
         (let i1 = i\<lparr>i_response_sequence := sequence\<rparr>;
              message = \<lparr>m_session = fst response, m_sequence = sequence, m_payload = snd response\<rparr>
          in if w_control_sent w message then (Inr (), log_output (ToPeer message) i1)
             else (Inl IChannelClosed, i1)))"

fun send_responses :: "World \<Rightarrow> (SessionContext \<times> ReliableControl) list \<Rightarrow> unit inbound_op" where
  "send_responses w [] i = (Inr (), i)"
| "send_responses w (response # responses) i =
     try_then (send_response w response) (\<lambda>_. send_responses w responses) i"

definition hand_over :: "World \<Rightarrow> ReceiverEffect list \<Rightarrow> instant option \<Rightarrow> instant \<Rightarrow> unit inbound_op" where
  "hand_over w backend touch_captured_at received_at i =
     (if backend = [] then (Inr (), i)
      else (map_err IBackend (w_applied w backend), log_output (ToBackend backend touch_captured_at received_at) i))"

definition emit :: "World \<Rightarrow> ReceiverEffect list \<Rightarrow> instant \<Rightarrow> instant option \<Rightarrow> unit inbound_op" where
  "emit w effects received_at touch_captured_at =
     try_then (reading (\<lambda>_. sort_effects (backend_supports (w_target w)) effects)) (\<lambda>(backend, responses).
     try_then (hand_over w backend touch_captured_at received_at) (\<lambda>_.
       send_responses w responses))"

section \<open>Methods\<close>

definition track_activation :: "World \<Rightarrow> Inbound \<Rightarrow> Inbound" where
  "track_activation w i =
     (if i_probe_context i \<noteq> i_active_context i
      then i\<lparr>i_probes := fmempty, i_probe_context := i_active_context i,
             i_next_probe_at := time_saturating_add (w_clock_now w) PROBE_INTERVAL\<rparr>
      else i)"

definition inbound_deadline :: "Sender option \<Rightarrow> MonotonicTimeMicros \<Rightarrow> Inbound \<Rightarrow> MonotonicTimeMicros option" where
  "inbound_deadline sender last_tick_at i =
     session_deadline sender (i_receiver i) (i_playout i) (i_pending i \<noteq> []) last_tick_at (i_next_probe_at i)"

definition is_opening :: "ReceiverEffect \<Rightarrow> bool" where
  "is_opening e = (case e of ActivationOpened _ \<Rightarrow> True | _ \<Rightarrow> False)"

text \<open>An accepted \<open>Enter\<close> starts over with the clock and the playout.\<close>

definition begin_activation :: "unit inbound_op" where
  "begin_activation i =
     (case clock_new clock_config_default of
        Inl e \<Rightarrow> (Inl (IClock e), i\<lparr>i_motion_received_at := fmempty\<rparr>)
      | Inr clock \<Rightarrow>
         (let i1 = i\<lparr>i_motion_received_at := fmempty, i_clock := clock\<rparr>
          in case i_active_context i1 of
               None \<Rightarrow> (Inl IPanicked, i1)
             | Some context \<Rightarrow>
                (case playout_new (i_playout_config i1) context of
                   Inl e \<Rightarrow> (Inl (IPlayout e), i1)
                 | Inr playout \<Rightarrow> (Inr (), i1\<lparr>i_playout := Some playout\<rparr>))))"

text \<open>An accepted control moves the playout's watermark and, with an anchor, its baseline.\<close>

definition move_playout :: "ControlSequence \<Rightarrow> MotionAnchor option \<Rightarrow> unit inbound_op" where
  "move_playout sequence an i =
     (case i_playout i of
        None \<Rightarrow> (Inr (), i)
      | Some playout \<Rightarrow>
         (case an of
            None \<Rightarrow> with_playout playout (advance_control_watermark sequence) i
          | Some an \<Rightarrow>
              try_then (with_playout playout (try_then (advance_control_watermark sequence) (\<lambda>_.
                  rebase (an_through_motion_sequence an) (an_totals an))))
                (\<lambda>_ i. (Inr (), i\<lparr>i_motion_received_at :=
                    fmfilter (\<lambda>s. s > an_through_motion_sequence an) (i_motion_received_at i)\<rparr>)) i))"

definition touch_capture :: "World \<Rightarrow> MotionAnchor option \<Rightarrow> MonotonicTimeMicros \<Rightarrow> Inbound \<Rightarrow> InboundError + instant option" where
  "touch_capture w an now i =
     (case an of
        None \<Rightarrow> Inr None
      | Some an \<Rightarrow>
         if touch_is_empty (an_final_touch_state an) \<or> \<not> is_ready (i_clock i) then Inr None
         else result_then (map_err IClock (clock_map (i_clock i) (an_sender_capture_time an)))
                (\<lambda>taken_at. Inr (Some (capture_instant w taken_at now))))"

definition in_apply_control ::
  "World \<Rightarrow> ReliableControlMessage \<Rightarrow> MonotonicTimeMicros \<Rightarrow> instant \<Rightarrow> unit inbound_op"
where
  "in_apply_control w message now received_at =
     try_then (reading (touch_capture w (motion_anchor (m_payload message)) now)) (\<lambda>touch_captured_at.
     try_then (with_receiver (receive_control message now)) (\<lambda>effects.
     try_then
       (\<lambda>i. if list_ex is_rejection effects then (Inr (), i)
            else try_then
                   (\<lambda>i. if list_ex is_opening effects then begin_activation i else (Inr (), i))
                   (\<lambda>_. move_playout (m_sequence message) (motion_anchor (m_payload message))) i)
       (\<lambda>_. emit w effects received_at touch_captured_at)))"

definition discard_closed :: "SessionContext option \<Rightarrow> Inbound \<Rightarrow> Inbound" where
  "discard_closed active_before i =
     (case active_before of
        None \<Rightarrow> i
      | Some previous \<Rightarrow>
         if i_active_context i \<noteq> Some previous
         then i\<lparr>i_pending := discard_pending_context previous (i_pending i)\<rparr> else i)"

text \<open>
  What applying a control, reporting effects, motion and polling leave alone: any part \<open>g\<close> of the state that
  does not depend on the receiver, the clock, the playout, the arrival times, the response number and
  the log.
\<close>

locale apart =
  fixes g :: "Inbound \<Rightarrow> 'a"
  assumes g_receiver: "g (i\<lparr>i_receiver := r\<rparr>) = g i"
    and g_clock: "g (i\<lparr>i_clock := c\<rparr>) = g i"
    and g_playout: "g (i\<lparr>i_playout := p\<rparr>) = g i"
    and g_motion_received_at: "g (i\<lparr>i_motion_received_at := m\<rparr>) = g i"
    and g_response_sequence: "g (i\<lparr>i_response_sequence := s\<rparr>) = g i"
    and g_sent: "g (i\<lparr>i_sent := out\<rparr>) = g i"
begin

lemmas g_simps = g_receiver g_clock g_playout g_motion_received_at g_response_sequence g_sent

lemma send_responses_keeps [keeps_rules]: "keeps g (send_responses w responses)"
proof (induction responses)
  case (Cons response responses)
  have "keeps g (send_response w response)"
    by (auto simp: keeps_def send_response_def log_output_def Let_def g_simps split: option.split)
  then have "keeps g (try_then (send_response w response) (\<lambda>_. send_responses w responses))"
    using Cons by (intro keeps_rules)
  then show ?case by (simp add: keeps_def)
qed (simp add: keeps_def)

lemma hand_over_keeps [keeps_rules]: "keeps g (hand_over w backend touch received_at)"
  by (simp add: keeps_def hand_over_def log_output_def g_simps)

lemma emit_keeps [keeps_rules]: "keeps g (emit w effects received_at touch)"
  unfolding emit_def by (auto intro!: keeps_rules split: prod.split)

lemma with_keeps [keeps_rules]:
  "keeps g (with_receiver f)" "keeps g (with_playout p f')" "keeps g (with_clock f'')"
  by (simp_all add: keeps_def with_receiver_def with_playout_def with_clock_def g_simps split: prod.split)

lemma begin_activation_keeps [keeps_rules]: "keeps g begin_activation"
  by (simp add: keeps_def begin_activation_def Let_def g_simps split: sum.split option.split)

lemma move_playout_keeps [keeps_rules]: "keeps g (move_playout s an)"
proof -
  have "keeps g (try_then (with_playout p f) (\<lambda>_ i. (Inr (), i\<lparr>i_motion_received_at := h i\<rparr>)))"
    for p and f :: "ReceiverPlayout \<Rightarrow> (PlayoutError + unit) \<times> ReceiverPlayout" and h
    by (intro keeps_rules) (simp add: keeps_def g_simps)
  from this [THEN keepsD] show ?thesis
    by (auto simp: keepsD [OF with_keeps(2)] keeps_def [of _ "move_playout _ _"] move_playout_def split: option.split)
qed

lemma in_apply_control_keeps [keeps_rules]: "keeps g (in_apply_control w message now received_at)"
  unfolding in_apply_control_def by (intro keeps_rules)

lemma bootstrap_clock_keeps [keeps_rules]: "keeps g (bootstrap_clock t t')"
  by (simp add: keepsD [OF with_keeps(3)] keeps_def [of g "bootstrap_clock _ _"] bootstrap_clock_def)

lemma anchor_is_due_keeps [keeps_rules]: "keeps g (anchor_is_due an arrived_at delay now)"
  unfolding anchor_is_due_def by (intro keeps_rules)

lemma pending_control_is_ready_keeps [keeps_rules]: "keeps g (pending_control_is_ready pending now)"
  by (simp add: keepsD [OF anchor_is_due_keeps] keeps_def [of _ "pending_control_is_ready _ _"]
      pending_control_is_ready_def split: option.split)

end

interpretation pending: apart i_pending
  by unfold_locales simp_all

interpretation playout_config: apart i_playout_config
  by unfold_locales simp_all

interpretation probes: apart i_probes
  by unfold_locales simp_all

interpretation probe_state: apart "\<lambda>i. (i_next_probe_sequence i, i_probe_context i, i_next_probe_at i)"
  by unfold_locales simp_all

text \<open>No call of \<open>in_apply_control\<close> touches the queue of deferred controls, so the loop below ends.\<close>

lemma discard_closed_length: "length (i_pending (discard_closed c i)) \<le> length (i_pending i)"
  by (simp add: discard_closed_def discard_pending_context_def split: option.split)

text \<open>
  The loop over the deferred controls: every round takes one control out of the queue.
\<close>

definition drain_one ::
  "World \<Rightarrow> PendingControl \<Rightarrow> MonotonicTimeMicros \<Rightarrow> Inbound \<Rightarrow> (InboundError + unit) \<times> Inbound"
where
  "drain_one w item now i =
     (let active_before = i_active_context i
      in try_then (in_apply_control w (pc_message item) now (pc_received_at item))
           (\<lambda>_ i. (Inr (), discard_closed active_before i)) i)"

lemma drain_one_length: "length (i_pending (snd (drain_one w item now i))) \<le> length (i_pending i)"
  using keepsD [OF pending.in_apply_control_keeps, of w "pc_message item" now "pc_received_at item" i]
    discard_closed_length [of "i_active_context i"]
  by (auto simp: drain_one_def Let_def try_then_def split: prod.split sum.split) (metis snd_conv)

lemma drain_one_shrinks: "drain_one w item now (i\<lparr>i_pending := rest\<rparr>) = (r, i2) \<Longrightarrow> length (i_pending i2) < Suc (length rest)"
  using drain_one_length [of w item now "i\<lparr>i_pending := rest\<rparr>"] by simp

function drain_pending_controls :: "World \<Rightarrow> MonotonicTimeMicros \<Rightarrow> Inbound \<Rightarrow> (InboundError + unit) \<times> Inbound" where
  "drain_pending_controls w now i =
     (case i_pending i of
        [] \<Rightarrow> (Inr (), i)
      | front # rest \<Rightarrow>
         (case pending_control_is_ready front now i of
            (Inl e, i1) \<Rightarrow> (Inl e, i1)
          | (Inr ready, i1) \<Rightarrow>
             if \<not> ready then (Inr (), i1)
             else
               (case drain_one w front now (i1\<lparr>i_pending := rest\<rparr>) of
                  (Inl e, i2) \<Rightarrow> (Inl e, i2)
                | (Inr _, i2) \<Rightarrow> drain_pending_controls w now i2)))"
  by pat_completeness auto
termination
  by (relation "measure (\<lambda>(w, now, i). length (i_pending i))") (auto dest!: drain_one_shrinks [OF sym])

declare drain_pending_controls.simps [simp del]

definition in_receive_control ::
  "World \<Rightarrow> ReliableControlMessage \<Rightarrow> instant \<Rightarrow> MonotonicTimeMicros \<Rightarrow> unit inbound_op"
where
  "in_receive_control w message received_at now i =
     (case enqueue_pending_control message received_at now (maximum_queued_frames (i_playout_config i)) (i_pending i) of
        Inl e \<Rightarrow> (Inl e, i)
      | Inr pending \<Rightarrow> drain_pending_controls w now (i\<lparr>i_pending := pending\<rparr>))"

text \<open>A frame of another activation is dropped; the first one gives the clock its first mapping.\<close>

definition ingest_motion :: "ReceiverPlayout \<Rightarrow> MotionFrame \<Rightarrow> instant \<Rightarrow> MonotonicTimeMicros \<Rightarrow> unit inbound_op" where
  "ingest_motion playout frame received_at now i =
     try_then (with_playout playout (ingest_frame frame now (i_clock i))) (\<lambda>outcome i.
       (Inr (), case outcome of
          Queued motion_sequence \<Rightarrow>
            i\<lparr>i_motion_received_at := fmupd motion_sequence received_at (i_motion_received_at i)\<rparr>
        | _ \<Rightarrow> i)) i"

definition receive_motion ::
  "MotionFrame \<Rightarrow> instant \<Rightarrow> MonotonicTimeMicros \<Rightarrow> unit inbound_op"
where
  "receive_motion frame received_at now i =
     (case i_playout i of
        None \<Rightarrow> (Inr (), i)
      | Some playout \<Rightarrow>
         (if p_session playout \<noteq> f_session frame then (Inr (), i)
          else try_then (bootstrap_clock (f_sender_capture_time frame) now)
                 (\<lambda>_. ingest_motion playout frame received_at now) i))"

definition probe_exchange_of :: "MonotonicTimeMicros \<Rightarrow> MonotonicTimeMicros \<Rightarrow> MonotonicTimeMicros
    \<Rightarrow> MonotonicTimeMicros \<Rightarrow> ProbeExchange" where
  "probe_exchange_of probe_sent_at received echoed now =
     \<lparr>receiver_sent_at = probe_sent_at, sender_received_at = received, sender_echoed_at = echoed,
      receiver_received_at = now\<rparr>"

text \<open>The guard of the echo arm removes the probe even when the times do not match.\<close>

definition receive_probe ::
  "World \<Rightarrow> ProbeMessage \<Rightarrow> Sender option \<Rightarrow> MonotonicTimeMicros \<Rightarrow> unit inbound_op"
where
  "receive_probe w probe sender now i =
     (case pm_payload probe of
        Probe sequence sent_at \<Rightarrow>
          (if (case sender of None \<Rightarrow> False | Some s \<Rightarrow> s_session s = pm_session probe)
           then let echo = \<lparr>pm_session = pm_session probe, pm_payload = ProbeEcho sequence sent_at now now\<rparr>
                in if w_probe_sent w echo then (Inr (), log_output (ToProbe echo) i) else (Inl IChannelClosed, i)
           else (Inr (), i))
      | ProbeEcho sequence probe_sent_at received echoed \<Rightarrow>
          (if i_active_context i \<noteq> Some (pm_session probe) then (Inr (), i)
           else
             let i1 = i\<lparr>i_probes := fmdrop sequence (i_probes i)\<rparr>
             in if fmlookup (i_probes i) sequence \<noteq> Some probe_sent_at then (Inr (), i1)
                else try_then (with_clock (ingest_probe (probe_exchange_of probe_sent_at received echoed now)))
                       (\<lambda>_ i. case i_playout i of
                           Some playout \<Rightarrow>
                             if cm_arrival_bootstrap (i_clock i1)
                             then with_playout playout (remap_clock (i_clock i)) i else (Inr (), i)
                         | None \<Rightarrow> (Inr (), i)) i1))"

definition play_step :: "World \<Rightarrow> SessionContext \<Rightarrow> MonotonicTimeMicros \<Rightarrow> PlayoutStep \<Rightarrow> unit inbound_op" where
  "play_step w session now step i =
     (let received_at = (case fmlookup (i_motion_received_at i) (ps_through_sequence step) of
            None \<Rightarrow> w_instant_now w | Some received_at \<Rightarrow> received_at);
          i1 = (if ps_target_reached step
                then i\<lparr>i_motion_received_at :=
                         fmfilter (\<lambda>s. s > ps_through_sequence step) (i_motion_received_at i)\<rparr>
                else i);
          touch_captured_at = map_option (\<lambda>_. capture_instant w (ps_mapped_capture_time step) now)
            (ps_touch_snapshot step)
      in try_then (with_receiver (receive_playout_step session step now)) (\<lambda>effects.
           emit w effects received_at touch_captured_at) i1)"

definition poll_playout :: "World \<Rightarrow> MonotonicTimeMicros \<Rightarrow> unit inbound_op" where
  "poll_playout w now i =
     (case i_playout i of
        None \<Rightarrow> (Inr (), i)
      | Some playout \<Rightarrow>
         try_then (with_playout playout (poll (w_hypot w) now)) (\<lambda>step i.
           case step of None \<Rightarrow> (Inr (), i) | Some step \<Rightarrow> play_step w (p_session playout) now step i) i)"

text \<open>The end of \<open>tick\<close>: probes that are too old are forgotten, and the next one is sent when it is due.\<close>

definition send_next_probe :: "World \<Rightarrow> MonotonicTimeMicros \<Rightarrow> unit inbound_op" where
  "send_next_probe w now i =
     (case i_active_context i of
        Some context \<Rightarrow>
          (if now \<ge> i_next_probe_at i \<and> fcard (fmdom (i_probes i)) < MAX_PENDING_PROBES
           then
             let sent_at = w_clock_now w;
                 probe = \<lparr>pm_session = context, pm_payload = Probe (i_next_probe_sequence i) sent_at\<rparr>
             in if \<not> w_probe_sent w probe then (Inl IChannelClosed, i)
                else
                  let i1 = (log_output (ToProbe probe) i)\<lparr>i_probes :=
                        fmupd (i_next_probe_sequence i) sent_at (i_probes i)\<rparr>
                  in case checked_add_u64 (i_next_probe_sequence i) 1 of
                       None \<Rightarrow> (Inl IProbeSequenceExhausted, i1)
                     | Some next \<Rightarrow> (Inr (), i1\<lparr>i_next_probe_sequence := next\<rparr>)
           else (Inr (), i))
      | None \<Rightarrow> (Inr (), i))"

definition probe_turn :: "World \<Rightarrow> MonotonicTimeMicros \<Rightarrow> unit inbound_op" where
  "probe_turn w now i =
     (let oldest_probe = saturating_sub_u64 now (u64_of_u128_or_max (as_micros PROBE_MAX_AGE));
          i1 = i\<lparr>i_probes := fmfilter (\<lambda>s. case fmlookup (i_probes i) s of
                  Some sent_at \<Rightarrow> sent_at \<ge> oldest_probe | None \<Rightarrow> False) (i_probes i)\<rparr>
      in try_then (send_next_probe w now) (\<lambda>_ i.
           (Inr (), if now \<ge> i_next_probe_at i
                    then i\<lparr>i_next_probe_at := time_saturating_add now PROBE_INTERVAL\<rparr> else i)) i1)"

definition inbound_tick :: "World \<Rightarrow> MonotonicTimeMicros \<Rightarrow> unit inbound_op" where
  "inbound_tick w now i =
     (let active_before_tick = i_active_context i
      in try_then (with_receiver (receiver_tick now)) (\<lambda>effects.
         try_then (emit w effects (w_instant_now w) None) (\<lambda>_.
         try_then (\<lambda>i. (Inr (), discard_closed active_before_tick i)) (\<lambda>_.
         try_then (poll_playout w now) (\<lambda>_.
         try_then (drain_pending_controls w now) (\<lambda>_. probe_turn w now))))) i)"

definition inbound_close :: "World \<Rightarrow> MonotonicTimeMicros \<Rightarrow> unit inbound_op" where
  "inbound_close w now = try_then (with_receiver (connection_lost now)) (\<lambda>effects.
     emit w effects (w_instant_now w) None)"

text \<open>Every call of the session loop, as one step function.\<close>

datatype InboundOp =
    InControl ReliableControlMessage instant
  | InMotion MotionFrame instant
  | InProbe ProbeMessage "Sender option"
  | InTick
  | InTrack
  | InClose

fun inbound_step :: "World \<Rightarrow> InboundOp \<Rightarrow> MonotonicTimeMicros \<Rightarrow> Inbound \<Rightarrow> (InboundError + unit) \<times> Inbound" where
  "inbound_step w (InControl message received_at) now i = in_receive_control w message received_at now i"
| "inbound_step w (InMotion frame received_at) now i = receive_motion frame received_at now i"
| "inbound_step w (InProbe probe sender) now i = receive_probe w probe sender now i"
| "inbound_step w InTick now i = inbound_tick w now i"
| "inbound_step w InTrack now i = (Inr (), track_activation w i)"
| "inbound_step w InClose now i = inbound_close w now i"

end
