(* ===== verification/Inbound_Sync.thy ===== *)
theory Inbound_Sync
  imports Inbound
begin

text \<open>
  The receiver and the playout of a session stay in step: whatever the session loop calls, as long as the
  calls succeed, both have injected the same motion and applied the same controls.
\<close>

section \<open>What the calls change\<close>

text \<open>The identity of a playout: what only a control or a new activation changes.\<close>

definition same_activation :: "ReceiverPlayout \<Rightarrow> ReceiverPlayout \<Rightarrow> bool" where
  "same_activation p p' \<longleftrightarrow>
     p_session p' = p_session p \<and> p_config p' = p_config p \<and>
     p_applied_control_sequence p' = p_applied_control_sequence p \<and> p_completed_sequence p \<le> p_completed_sequence p'"

lemma same_activation_trans: "same_activation p q \<Longrightarrow> same_activation q r \<Longrightarrow> same_activation p r"
  by (auto simp: same_activation_def)

lemma same_motion_activation: "same_motion p p' \<Longrightarrow> same_activation p p'"
  by (simp add: same_motion_def same_activation_def)

lemma select_activation:
  assumes "select_newest_mature_target hyp now p = (r, p')"
  shows "same_activation p p'"
proof (cases "find (\<lambda>(_, q). mature now p q) (rev (sorted_list_of_fmap (p_queue p)))")
  case None
  then show ?thesis using assms by (simp add: select_newest_mature_target_def same_activation_def)
next
  case (Some kq)
  obtain s q where kq: "kq = (s, q)" by (cases kq)
  obtain r1 p2 where v: "update_velocity hyp (sample_of q) (dequeued s q now p) = (r1, p2)" by fastforce
  have "p_completed_sequence (dequeued s q now p) = p_completed_sequence p" by (simp add: dequeued_def)
  then show ?thesis
    using assms select_Some [of now p s q hyp] Some v update_velocity_fields [OF v]
    by (cases r1) (auto simp: kq same_activation_def)
qed

lemma advance_activation:
  assumes "advance_towards_target hyp elapsed start p = (r, p')"
  shows "same_activation p p'"
  using assms
proof (cases rule: advance_cases)
  case (Step backlog fresh pointer_cap scroll_cap)
  from Step(6) [symmetric] show ?thesis
  proof (cases rule: emit_step_cases)
    case (Step step)
    show ?thesis by (subst Step(8)) (simp add: same_activation_def touch_taken_def)
  qed (simp add: same_activation_def touch_taken_def)
qed (auto simp: same_activation_def touch_taken_def)

lemma poll_activation:
  assumes "config_ok (p_config p)" "poll hyp now p = (r, p')"
  shows "same_activation p p'"
proof -
  have c: "same_activation p (clocked now p)" by (simp add: same_activation_def)
  obtain r1 p1 where sel: "select_newest_mature_target hyp now (clocked now p) = (r1, p1)" by fastforce
  have p1: "same_activation p p1" by (rule same_activation_trans [OF c select_activation [OF sel]])
  show ?thesis
  proof (cases "p' = p \<or> p' = p1")
    case True
    then show ?thesis using p1 by (auto simp: same_activation_def)
  next
    case False
    then obtain start where "advance_towards_target hyp (poll_gap now p) start p1 = (r, p')"
      using assms(2) by (cases r1) (auto simp: poll_eq [OF assms(1)] try_then_def sel split: if_splits)
    then show ?thesis by (rule same_activation_trans [OF p1 advance_activation])
  qed
qed

lemma ingest_activation:
  assumes "playout_wf p0"
  shows "same_activation p0 (snd (ingest_frame frame now clock p0))"
proof (cases "p_observe_time now p0")
  case (Pair r p)
  have wf: "playout_wf p" using p_observe_time_wf [OF assms, of now] Pair by simp
  have p: "same_activation p0 p"
    using Pair by (auto simp: p_observe_time_def same_activation_def split: if_splits)
  have "same_activation p0 (snd (try_then (record_delay_sample now d) f p))"
    if f: "\<And>x p'. same_activation p' (snd (f x p'))"
    for d and f :: "unit \<Rightarrow> ReceiverPlayout \<Rightarrow> (PlayoutError + EnqueueOutcome) \<times> ReceiverPlayout"
  proof -
    obtain p' where p': "record_delay_sample now d p = (Inr (), p')" "same_motion p p'"
      using sample_wf [OF wf, of now d] by blast
    have "same_activation p0 (snd (f () p'))"
      by (rule same_activation_trans [OF same_activation_trans [OF p same_motion_activation [OF p'(2)]] f])
    then show ?thesis by (simp add: try_then_def p'(1))
  qed
  moreover from this [of "\<lambda>_ p. (Inr RetiredByRebase, p)"]
  have "same_activation p0 (snd (record_delay_sample now d p))" for d by (simp add: same_activation_def)
  ultimately show ?thesis using p
    by (auto simp: ingest_frame_def try_then_def [of "p_observe_time now"] Pair Let_def try_then_reading map_err_def
        same_activation_def split: option.split sum.split)
qed

lemma remap_activation: "same_activation p (snd (remap_clock clock p))"
  by (auto simp: remap_clock_def try_then_reading Let_def same_activation_def split: sum.splits option.splits)

text \<open>What an accepted control does to the activation, and what a rejected one leaves.\<close>

definition opens :: "ReliableControlMessage \<Rightarrow> ActivationState \<Rightarrow> bool" where
  "opens message st \<longleftrightarrow> a_session st = m_session message \<and> a_last_control_sequence st = m_sequence message \<and>
     a_injected_totals st = motion_ZERO \<and> a_last_injected_motion st = 0"

definition moves :: "ReliableControlMessage \<Rightarrow> ActivationState \<Rightarrow> ActivationState \<Rightarrow> bool" where
  "moves message st st' \<longleftrightarrow> a_session st' = a_session st \<and> a_last_control_sequence st' = m_sequence message \<and>
     (case motion_anchor (m_payload message) of
        None \<Rightarrow> a_injected_totals st' = a_injected_totals st \<and> a_last_injected_motion st' = a_last_injected_motion st
      | Some an \<Rightarrow> a_injected_totals st' = an_totals an \<and> a_last_injected_motion st' = an_through_motion_sequence an)"

text \<open>Effects that neither open an activation nor reject anything.\<close>

definition plain :: "ReceiverEffect list \<Rightarrow> bool" where
  "plain es \<longleftrightarrow> \<not> list_ex is_opening es \<and> \<not> list_ex is_rejection es"

lemma plain_append [simp]: "plain (es @ fs) \<longleftrightarrow> plain es \<and> plain fs"
  by (auto simp: plain_def)

lemma plain_reconcile [simp]: "plain (reconcile_effects h h')"
  by (auto simp: plain_def reconcile_effects_def list_ex_iff is_opening_def)

lemma plain_close [simp]: "plain (snd (close_activation reason r))"
  by (auto simp: close_activation_eq plain_def [of "[]"] plain_def [of "[_]"] is_opening_def split: option.split)

lemma plain_expire: "expire_lease now r = (r1, e1) \<Longrightarrow> plain e1"
  using plain_close [of CloseLeaseExpired r] by (cases "close_activation CloseLeaseExpired r")
    (auto simp: expire_lease_def plain_def [of "[]"] split: option.splits if_splits)

lemma plain_anchor: "anchor_stage payload st = Inr (st1, e1) \<Longrightarrow> plain e1"
  by (auto simp: anchor_stage_def result_then_Inr apply_anchor_def Let_def plain_def is_opening_def split: option.splits if_splits)

lemma plain_payload: "apply_payload message payload st = Applied st' es close \<Longrightarrow> plain es"
  by (induction payload) (auto simp: reconcile_held_eq plain_def [of "[]"] plain_def [of "[_]"] is_opening_def)

lemma anchor_stage_motion:
  "anchor_stage payload st = Inr (st1, e1) \<Longrightarrow> a_session st1 = a_session st \<and>
     (case motion_anchor payload of
        None \<Rightarrow> a_injected_totals st1 = a_injected_totals st \<and> a_last_injected_motion st1 = a_last_injected_motion st
      | Some an \<Rightarrow> a_injected_totals st1 = an_totals an \<and> a_last_injected_motion st1 = an_through_motion_sequence an)"
  by (auto simp: anchor_stage_def result_then_Inr apply_anchor_def Let_def split: option.splits if_splits)

lemma apply_control_activation:
  assumes "apply_control message now r = (Inr es, r')"
  obtains (Closed) "r_activation r' = None" "plain es"
  | (Refused) "list_ex is_rejection es" "r_activation r' = r_activation r" "\<not> list_ex is_opening es"
  | (Moved) st st' where "r_activation r = Some st" "r_activation r' = Some st'" "plain es" "moves message st st'"
  using assms
proof (cases rule: apply_control_cases)
  case overflow
  then show ?thesis using Closed by simp
next
  case (applied st st1 e1 st2 e2 close)
  note plain = plain_anchor [OF applied(3)] plain_payload [OF applied(4)]
  show ?thesis
  proof (cases close)
    case None
    have "moves message st (refresh_lease now (held_state_lease (r_config r)) (st2\<lparr>a_last_control_sequence := m_sequence message\<rparr>))"
      using anchor_stage_motion [OF applied(3)] apply_payload_motion [OF applied(4)] apply_payload_session [OF applied(4)]
      by (auto simp: moves_def refresh_lease_def split: option.splits)
    then show ?thesis using applied(1,5) None plain by (intro Moved) (auto simp: finish_control_def)
  next
    case (Some reason)
    let ?r = "r\<lparr>r_activation := Some (refresh_lease now (held_state_lease (r_config r))
        (st2\<lparr>a_last_control_sequence := m_sequence message\<rparr>))\<rparr>"
    have "r' = fst (close_activation reason ?r)" "es = (e1 @ e2) @ snd (close_activation reason ?r)"
      using applied(5) Some by (auto simp: finish_control_def split: prod.splits)
    then show ?thesis using plain plain_close [of reason ?r] by (intro Closed) simp_all
  qed
qed (auto intro: Refused simp: is_opening_def)

lemma receive_enter_activation:
  assumes "receive_enter message now r = (r', es)"
  obtains (Refused) "list_ex is_rejection es" "r_activation r' = r_activation r" "\<not> list_ex is_opening es"
  | (Opened) st where "r_activation r' = Some st" "\<not> list_ex is_rejection es" "list_ex is_opening es" "opens message st"
  using assms plain_close [of CloseSuperseded r]
  by (force simp: receive_enter_def Let_def refresh_lease_def activation_new_def opens_def is_opening_def plain_def
      split: if_splits option.splits prod.splits)

lemma receive_control_activation:
  assumes "receive_control message now r = (Inr effects, r')"
  obtains (Closed) "r_activation r' = None" "\<not> list_ex is_opening effects"
  | (Refused) "list_ex is_rejection effects" "r_activation r' = r_activation r" "\<not> list_ex is_opening effects"
  | (Opened) st where "r_activation r' = Some st" "\<not> list_ex is_rejection effects" "list_ex is_opening effects"
      "opens message st" "m_payload message = Enter"
  | (Moved) st st' where "r_activation r = Some st" "r_activation r' = Some st'" "\<not> list_ex is_rejection effects"
      "\<not> list_ex is_opening effects" "moves message st st'"
  using assms
proof (cases rule: receive_control_cases)
  case (accepted r0)
  obtain r1 e1 where ex: "expire_lease now r0 = (r1, e1)" by (cases "expire_lease now r0")
  have keep: "r_activation r0 = r_activation r" by (simp add: accepted(2))
  have r1: "r_activation r1 = r_activation r \<or> r_activation r1 = None"
    using expire_lease_cases [OF ex] keep by auto
  have e1: "\<not> list_ex is_opening e1" "\<not> list_ex is_rejection e1" using plain_expire [OF ex] by (auto simp: plain_def)
  from accepted(4) ex show ?thesis
  proof (cases rule: control_body_cases)
    case (entered e2)
    from entered(2) show ?thesis
      by (cases rule: receive_enter_activation) (use r1 e1 entered(1,3) Closed Refused Opened in auto)
  next
    case (rejected reason)
    then show ?thesis using r1 e1 Closed Refused by (auto simp: is_opening_def)
  next
    case (in_sequence st e2)
    from in_sequence(5) show ?thesis
    proof (cases rule: apply_control_activation)
      case (Moved st0 st')
      then show ?thesis using that(4) [of st0 st'] r1 e1 in_sequence(6) by (auto simp: plain_def)
    qed (use r1 e1 in_sequence(6) Closed Refused in \<open>auto simp: plain_def\<close>)
  qed
qed simp


section \<open>The playout and the receiver agree\<close>

text \<open>
  The playout decides what to inject from its own totals, the receiver keeps the totals that were injected.
  While an activation is open they are the same totals of the same session, the receiver has not
  completed more motion than the playout, and both have applied the same controls.
\<close>

definition agrees :: "ReceiverPlayout \<Rightarrow> ActivationState \<Rightarrow> bool" where
  "agrees p st \<longleftrightarrow>
     p_session p = a_session st \<and> p_injected_totals p = a_injected_totals st \<and>
     a_last_injected_motion st \<le> p_completed_sequence p \<and>
     p_applied_control_sequence p = a_last_control_sequence st"

definition synced :: "Receiver \<Rightarrow> ReceiverPlayout option \<Rightarrow> bool" where
  "synced r playout \<longleftrightarrow>
     receiver_wf r \<and> (\<forall>p. playout = Some p \<longrightarrow> playout_wf p) \<and>
     (\<forall>st. r_activation r = Some st \<longrightarrow> (\<exists>p. playout = Some p \<and> agrees p st))"

abbreviation in_sync :: "Inbound \<Rightarrow> bool" where
  "in_sync i \<equiv> synced (i_receiver i) (i_playout i)"

text \<open>Everything after the receiver: only the log and the response number change.\<close>

lemma send_response_parts: "keeps i_receiver (send_response w resp)" "keeps i_playout (send_response w resp)"
  by (auto simp: keeps_def send_response_def log_output_def Let_def split: option.split)

lemma send_responses_parts: "keeps i_receiver (send_responses w rs)" "keeps i_playout (send_responses w rs)"
proof (induction rs)
  case (Cons r rs)
  have "keeps i_receiver (try_then (send_response w r) (\<lambda>_. send_responses w rs))"
    "keeps i_playout (try_then (send_response w r) (\<lambda>_. send_responses w rs))"
    by (intro keeps_rules send_response_parts Cons)+
  then show "keeps i_receiver (send_responses w (r # rs))" "keeps i_playout (send_responses w (r # rs))"
    by (simp_all add: keeps_def)
qed (simp_all add: keeps_def)

lemma emit_parts: "keeps i_receiver (emit w es t t')" "keeps i_playout (emit w es t t')"
proof -
  have h: "keeps i_receiver (hand_over w es t t')" "keeps i_playout (hand_over w es t t')" for es t t'
    by (simp_all add: keeps_def hand_over_def log_output_def)
  show "keeps i_receiver (emit w es t t')" "keeps i_playout (emit w es t t')"
    unfolding emit_def by (auto intro!: keeps_rules h send_responses_parts split: prod.split)
qed

lemma emit_sync: "emit w es t t' i = (r, i') \<Longrightarrow> in_sync i \<Longrightarrow> in_sync i'"
  using keepsD [OF emit_parts(1), of w es t t' i] keepsD [OF emit_parts(2), of w es t t' i] by simp

lemma discard_closed_parts [simp]:
  "i_receiver (discard_closed c i) = i_receiver i" "i_playout (discard_closed c i) = i_playout i"
  by (simp_all add: discard_closed_def split: option.split)

lemma log_output_parts [simp]: "i_receiver (log_output out i) = i_receiver i" "i_playout (log_output out i) = i_playout i"
  by (simp_all add: log_output_def)

text \<open>A playout that moved within its activation still agrees with the receiver.\<close>

lemma synced_playout:
  assumes "synced r (Some p)" "same_activation p p'" "playout_wf p'" "p_injected_totals p' = p_injected_totals p"
  shows "synced r (Some p')"
  using assms by (fastforce simp: synced_def agrees_def same_activation_def)

lemma synced_closed: "receiver_wf r \<Longrightarrow> (\<And>p. playout = Some p \<Longrightarrow> playout_wf p) \<Longrightarrow> r_activation r = None \<Longrightarrow> synced r playout"
  by (simp add: synced_def)

text \<open>An accepted control: the receiver moved, and \<open>move_playout\<close> moves the playout after it.\<close>

lemma move_playout_wf:
  assumes "move_playout s an i = (Inr u, i')" "\<And>p. i_playout i = Some p \<Longrightarrow> playout_wf p"
  shows "i_receiver i' = i_receiver i \<and> (\<forall>p. i_playout i' = Some p \<longrightarrow> playout_wf p)"
proof (cases "i_playout i")
  case (Some p)
  have wf: "playout_wf p'" if "advance_control_watermark s p = (r, p')" for r p'
    using advance_wf [OF assms(2) [OF Some], of s] that by simp
  have "playout_wf p''" if "advance_control_watermark s p = (r, p')" "rebase through totals p' = (r', p'')"
    for r p' r' p'' through totals
    using rebase_wf [OF wf [OF that(1)], of through totals] that(2) by simp
  with wf show ?thesis
    using assms(1) Some by (cases an) (auto simp: move_playout_def with_playout_def try_then_def
        split: prod.splits sum.splits)
qed (use assms in \<open>auto simp: move_playout_def\<close>)

lemma move_playout_agrees:
  assumes "move_playout (m_sequence m) (motion_anchor (m_payload m)) i = (Inr u, i')" "i_playout i = Some p"
    "agrees p st" "moves m st st'"
  shows "\<exists>p'. i_playout i' = Some p' \<and> agrees p' st'"
  using assms
  by (cases "motion_anchor (m_payload m)")
    (auto simp: move_playout_def with_playout_def try_then_def advance_control_watermark_def rebase_def agrees_def
      moves_def map_err_def split: if_splits prod.splits sum.splits)

lemma begin_activation_fresh:
  assumes "begin_activation i = (Inr u, i')" "r_activation (i_receiver i) = Some st"
  shows "i_receiver i' = i_receiver i \<and> (\<exists>p. i_playout i' = Some p \<and> playout_wf p \<and> p_session p = a_session st \<and>
     p_injected_totals p = motion_ZERO \<and> p_completed_sequence p = 0)"
  using assms playout_new_wf
  by (auto simp: begin_activation_def Let_def active_context_def playout_new_def result_then_Inr split: sum.splits)

lemma receiver_call:
  assumes "with_receiver f i = (Inr x, i1)"
  shows "f (i_receiver i) = (Inr x, i_receiver i1) \<and> i_playout i1 = i_playout i"
  using assms by (auto simp: with_receiver_def map_err_Inr split: prod.splits)

lemma in_apply_control_sync:
  assumes sync: "in_sync i" and ok: "in_apply_control w m now t i = (Inr (), i')"
  shows "in_sync i'"
proof -
  obtain effects i1 i2 touch where recv: "with_receiver (receive_control m now) i = (Inr effects, i1)"
    and upd: "(if list_ex is_rejection effects then (Inr (), i1)
            else try_then (\<lambda>i. if list_ex is_opening effects then begin_activation i else (Inr (), i))
                   (\<lambda>_. move_playout (m_sequence m) (motion_anchor (m_payload m))) i1) = (Inr (), i2)"
    and emit: "emit w effects t touch i2 = (Inr (), i')"
    using ok by (auto simp: in_apply_control_def try_then_Inr reading_def)
  note call = receiver_call [OF recv]
  have wf: "receiver_wf (i_receiver i1)" using call sync receive_control_wf by (auto simp: synced_def)
  have pwf: "playout_wf p" if "i_playout i1 = Some p" for p using that call sync by (auto simp: synced_def)
  have "in_sync i2"
  proof (cases "list_ex is_rejection effects")
    case True
    from call have "receive_control m now (i_receiver i) = (Inr effects, i_receiver i1)" by simp
    then show ?thesis
      by (cases rule: receive_control_activation) (use upd True call sync wf in \<open>auto simp: synced_def\<close>)
  next
    case False
    obtain i3 where beg: "(if list_ex is_opening effects then begin_activation i1 else (Inr (), i1)) = (Inr (), i3)"
      and move: "move_playout (m_sequence m) (motion_anchor (m_payload m)) i3 = (Inr (), i2)"
      using upd False by (auto simp: try_then_Inr)
    from call have "receive_control m now (i_receiver i) = (Inr effects, i_receiver i1)" by simp
    then show ?thesis
    proof (cases rule: receive_control_activation)
      case Closed
      then show ?thesis using beg move_playout_wf [OF move] pwf wf by (auto simp: synced_def)
    next
      case (Opened st)
      obtain p where p: "i_receiver i3 = i_receiver i1" "i_playout i3 = Some p" "playout_wf p" "p_session p = a_session st"
        "p_injected_totals p = motion_ZERO" "p_completed_sequence p = 0"
        using begin_activation_fresh [of i1 "()" i3 st] beg Opened by auto
      have "motion_anchor (m_payload m) = None" using Opened(5) by simp
      then show ?thesis using move p Opened wf move_playout_wf [OF move]
        by (auto simp: synced_def agrees_def opens_def move_playout_def with_playout_def advance_control_watermark_def
            map_err_Inr split: if_splits)
    next
      case (Moved st st')
      obtain p where "i_playout i1 = Some p" "agrees p st" using call sync Moved(1) by (auto simp: synced_def)
      then show ?thesis using beg Moved move_playout_agrees [OF move, of p st st'] move_playout_wf [OF move] pwf wf
        by (auto simp: synced_def)
    qed (use False in auto)
  qed
  then show ?thesis by (rule emit_sync [OF emit])
qed


lemma anchor_is_due_parts: "keeps i_receiver (anchor_is_due an t d now)" "keeps i_playout (anchor_is_due an t d now)"
  unfolding anchor_is_due_def
  by (intro keeps_rules, simp add: keeps_def bootstrap_clock_def with_clock_def split: prod.split)+

lemma pending_control_is_ready_sync:
  "pending_control_is_ready item now i = (r, i') \<Longrightarrow> i_receiver i' = i_receiver i \<and> i_playout i' = i_playout i"
  using keepsD [OF anchor_is_due_parts(1), of _ _ _ now i] keepsD [OF anchor_is_due_parts(2), of _ _ _ now i]
  by (auto simp: pending_control_is_ready_def split: option.splits if_splits) (metis snd_conv)+

lemma drain_one_sync:
  assumes "in_sync i" "drain_one w item now i = (Inr u, i')"
  shows "in_sync i'"
  using assms in_apply_control_sync by (fastforce simp: drain_one_def Let_def try_then_Inr)

text \<open>A drain that succeeds ends with an empty queue or a control that is not ready.\<close>

lemma drain_success_induct [consumes 1, case_names Done Wait Step]:
  assumes "drain_pending_controls w now i = (Inr u, i')"
    and "\<And>i. i_pending i = [] \<Longrightarrow> P i i"
    and "\<And>i front rest i1. i_pending i = front # rest \<Longrightarrow> pending_control_is_ready front now i = (Inr False, i1) \<Longrightarrow> P i i1"
    and "\<And>i front rest i1 i2 i'. i_pending i = front # rest \<Longrightarrow> pending_control_is_ready front now i = (Inr True, i1) \<Longrightarrow>
       drain_one w front now (i1\<lparr>i_pending := rest\<rparr>) = (Inr (), i2) \<Longrightarrow>
       drain_pending_controls w now i2 = (Inr u, i') \<Longrightarrow> P i2 i' \<Longrightarrow> P i i'"
  shows "P i i'"
  using assms(1)
proof (induction "length (i_pending i)" arbitrary: i rule: less_induct)
  case less
  note run = less.prems [unfolded drain_pending_controls.simps [of w now i]]
  show ?case
  proof (cases "i_pending i")
    case Nil
    then show ?thesis using run assms(2) [of i] by simp
  next
    case (Cons front rest)
    obtain ready i1 where r: "pending_control_is_ready front now i = (Inr ready, i1)"
      using run Cons by (auto split: sum.splits prod.splits)
    show ?thesis
    proof (cases ready)
      case False
      then show ?thesis using run assms(3) [OF Cons] Cons r by simp
    next
      case True
      obtain i2 where one: "drain_one w front now (i1\<lparr>i_pending := rest\<rparr>) = (Inr (), i2)"
        and rec: "drain_pending_controls w now i2 = (Inr u, i')"
        using run Cons r True by (auto split: sum.splits prod.splits)
      have "P i2 i'" using less.hyps [of i2] drain_one_shrinks [OF one] Cons rec by simp
      then show ?thesis using assms(4) [OF Cons _ one rec] r True by simp
    qed
  qed
qed

lemma drain_sync:
  assumes "drain_pending_controls w now i = (Inr u, i')" "in_sync i"
  shows "in_sync i'"
  using assms
proof (induction rule: drain_success_induct)
  case (Wait i front rest i1)
  then show ?case using pending_control_is_ready_sync by metis
next
  case (Step i front rest i1 i2 i')
  then have "in_sync i2" using pending_control_is_ready_sync [OF Step(2)] by (intro drain_one_sync [OF _ Step(3)]) simp
  then show ?case using Step(5) by simp
qed

text \<open>A step of the playout is never refused while its activation is open.\<close>

lemma advance_pending:
  assumes "playout_wf p" "advance_towards_target hyp elapsed start p = (Inr (Some step), p')"
  shows "p_completed_sequence p < ps_through_sequence step"
  using assms(2)
proof (cases rule: advance_cases)
  case (Step backlog fresh pointer_cap scroll_cap)
  have "p_completed_sequence p < t_sequence (p_target p)"
    using assms(1) Step(5) by (auto simp: playout_wf_def order.order_iff_strict)
  then show ?thesis using advance_step(5) [OF assms(2) refl] by simp
qed auto

lemma poll_success:
  assumes wf: "playout_wf p" and poll: "poll hyp now p = (Inr r, p')"
  obtains start p1 where "playout_wf p1" "same_activation p p1"
    "advance_towards_target hyp (poll_gap now p) start p1 = (Inr r, p')"
proof -
  have ok: "config_ok (p_config p)" using wf by (simp add: playout_wf_def)
  have c: "playout_wf (clocked now p)" using wf by simp
  obtain start p1 where sel: "select_newest_mature_target hyp now (clocked now p) = (Inr start, p1)"
    and adv: "advance_towards_target hyp (poll_gap now p) start p1 = (Inr r, p')"
    using poll by (auto simp: poll_eq [OF ok] try_then_Inr split: if_splits)
  have "playout_wf p1" using c sel by (cases rule: select_cases) (use wf in auto)
  moreover have "same_activation p p1" using select_activation [OF sel] by (simp add: same_activation_def)
  ultimately show ?thesis using that adv by blast
qed

lemma poll_step_pending:
  assumes wf: "playout_wf p" and poll: "poll hyp now p = (Inr (Some step), p')"
  shows "p_completed_sequence p < ps_through_sequence step"
proof -
  obtain start p1 where "playout_wf p1" "same_activation p p1"
    and adv: "advance_towards_target hyp (poll_gap now p) start p1 = (Inr (Some step), p')"
    by (rule poll_success [OF wf poll])
  then show ?thesis using advance_pending [OF _ adv] by (auto simp: same_activation_def)
qed

lemma poll_completed:
  assumes wf: "playout_wf p" and poll: "poll hyp now p = (Inr (Some step), p')" and reached: "ps_target_reached step"
  shows "p_completed_sequence p' = ps_through_sequence step"
proof -
  obtain start p1 where wf1: "playout_wf p1"
    and adv: "advance_towards_target hyp (poll_gap now p) start p1 = (Inr (Some step), p')"
    by (rule poll_success [OF wf poll])
  from adv show ?thesis
  proof (cases rule: advance_cases)
    case (Step backlog fresh pointer_cap scroll_cap)
    from Step(6) [symmetric] show ?thesis
    proof (cases rule: emit_step_cases)
      case (Step step')
      have "p_completed_sequence p1 \<le> t_sequence (p_target p1)" using wf1 by (simp add: playout_wf_def)
      with arg_cong [OF Step(8), of p_completed_sequence] Step(1,5) reached show ?thesis by (simp add: max_def)
    qed simp
  qed auto
qed

lemma playout_step_accepted:
  assumes "r_activation r = Some st" "a_session st = session" "a_last_injected_motion st < ps_through_sequence step"
    "receive_playout_step session step now r = (Inr effects, r')"
  shows "r_activation r' = None \<or>
    (\<exists>st'. r_activation r' = Some st' \<and> a_session st' = a_session st \<and>
       a_last_control_sequence st' = a_last_control_sequence st \<and>
       motion_checked_add (a_injected_totals st) (ps_delta step) = Inr (a_injected_totals st') \<and>
       a_last_injected_motion st' = (if ps_target_reached step then ps_through_sequence step else a_last_injected_motion st))"
  using assms(4)
proof (cases rule: receive_playout_step_cases)
  case (rejected r1 e1 reason)
  from expire_lease_cases [OF rejected(2)] show ?thesis
  proof
    assume "r1 = r\<lparr>r_last_observed_time := now\<rparr> \<and> e1 = []"
    then show ?thesis using assms rejected(1,2)
      by (auto simp: receive_playout_step_def try_then_def r_observe_time_def is_closed_def Let_def not_less
          close_activation_eq apply_playout_def split: if_splits option.splits sum.splits prod.splits)
  qed (use rejected(3) in simp)
next
  case (applied r1 e1 state totals)
  then have "state = st" using expire_lease_cases [OF applied(2)] assms(1) by auto
  then show ?thesis using applied(7,8) by (auto simp: apply_playout_def Let_def split: option.splits)
qed auto

lemma playout_step_sync:
  assumes sync: "synced r (Some p)" and poll: "poll hyp t p = (Inr (Some step), p')"
    and recv: "receive_playout_step (p_session p) step now r = (Inr effects, r')"
  shows "synced r' (Some p')"
proof -
  have wf: "playout_wf p" "receiver_wf r" using sync by (auto simp: synced_def)
  have p': "playout_wf p'" "same_activation p p'"
    using poll_wf [OF wf(1), of hyp t] poll_activation [OF _ poll] wf(1) poll by (auto simp: playout_wf_def)
  have r': "receiver_wf r'" using receiver_step_wf [OF wf(2), of "RPlayout (p_session p) step" now] recv by simp
  have add: "motion_checked_add (p_injected_totals p) (ps_delta step) = Inr (p_injected_totals p')"
    using poll_exact [OF wf(1) poll] by (simp add: motion_checked_add_ints)
  note through = poll_step_pending [OF wf(1) poll]
  have "agrees p' st'" if "r_activation r' = Some st'" for st'
  proof (cases "r_activation r")
    case None
    then have "r_activation r' = None" using recv
      by (auto simp: receive_playout_step_def try_then_def r_observe_time_def expire_lease_def Let_def split: if_splits)
    then show ?thesis using that by simp
  next
    case (Some st)
    then have ag: "agrees p st" using sync by (auto simp: synced_def)
    have fin: "p_completed_sequence p' = ps_through_sequence step" if "ps_target_reached step"
      using poll_completed [OF wf(1) poll that] .
    have "a_last_injected_motion st < ps_through_sequence step" using ag through by (auto simp: agrees_def)
    from playout_step_accepted [OF Some _ this recv] ag that p'(2) add fin show ?thesis
      by (auto simp: agrees_def same_activation_def split: if_splits)
  qed
  then show ?thesis using p' r' by (auto simp: synced_def)
qed


lemma playout_call:
  assumes "with_playout p f i = (Inr x, i1)"
  shows "\<exists>p'. f p = (Inr x, p') \<and> i_playout i1 = Some p' \<and> i_receiver i1 = i_receiver i"
  using assms by (auto simp: with_playout_def map_err_Inr split: prod.splits)

lemma poll_playout_sync:
  assumes sync: "in_sync i" and ok: "poll_playout w now i = (Inr (), i')"
  shows "in_sync i'"
proof (cases "i_playout i")
  case None
  then show ?thesis using assms by (simp add: poll_playout_def)
next
  case (Some p)
  have wf: "playout_wf p" using sync Some by (auto simp: synced_def)
  obtain step i1 where call: "with_playout p (poll (w_hypot w) now) i = (Inr step, i1)"
    using ok by (auto simp: poll_playout_def Some try_then_Inr)
  obtain p' where p': "poll (w_hypot w) now p = (Inr step, p')" "i_playout i1 = Some p'" "i_receiver i1 = i_receiver i"
    using playout_call [OF call] by blast
  show ?thesis
  proof (cases step)
    case None
    have "p_injected_totals p' = p_injected_totals p"
      using poll_exact [OF wf p'(1)] None by (simp add: motion_ints_eq_iff)
    moreover have "same_activation p p'" "playout_wf p'"
      using poll_activation [OF _ p'(1)] poll_wf [OF wf, of "w_hypot w" now] wf p'(1) by (auto simp: playout_wf_def)
    ultimately have "in_sync i1" using sync Some p' synced_playout by auto
    then show ?thesis using ok by (simp add: poll_playout_def Some try_then_def call None)
  next
    case step: (Some s)
    have play: "play_step w (p_session p) now s i1 = (Inr (), i')"
      using ok by (simp add: poll_playout_def Some try_then_def call step)
    define i2 where "i2 = (if ps_target_reached s then i1\<lparr>i_motion_received_at :=
        fmfilter (\<lambda>k. k > ps_through_sequence s) (i_motion_received_at i1)\<rparr> else i1)"
    have i2: "i_receiver i2 = i_receiver i1" "i_playout i2 = i_playout i1" by (simp_all add: i2_def)
    obtain effects i3 t t' where recv: "with_receiver (receive_playout_step (p_session p) s now) i2 = (Inr effects, i3)"
      and emit: "emit w effects t t' i3 = (Inr (), i')"
      using play by (auto simp: play_step_def Let_def try_then_Inr simp flip: i2_def)
    have "in_sync i3"
      using playout_step_sync [of "i_receiver i" p "w_hypot w" now s p' now effects "i_receiver i3"] sync Some p'
        receiver_call [OF recv] i2 step by simp
    then show ?thesis by (rule emit_sync [OF emit])
  qed
qed

lemma receive_motion_sync:
  assumes sync: "in_sync i" and ok: "receive_motion frame t now i = (Inr (), i')"
  shows "in_sync i'"
proof (cases "i_playout i")
  case (Some p)
  have wf: "playout_wf p" using sync Some by (auto simp: synced_def)
  show ?thesis
  proof (cases "p_session p = f_session frame")
    case True
    obtain i1 where first: "bootstrap_clock (f_sender_capture_time frame) now i = (Inr (), i1)"
      and rest: "ingest_motion p frame t now i1 = (Inr (), i')"
      using ok by (auto simp: receive_motion_def Some True try_then_Inr)
    obtain outcome i2 where call: "with_playout p (ingest_frame frame now (i_clock i1)) i1 = (Inr outcome, i2)"
      and i': "i_receiver i' = i_receiver i2" "i_playout i' = i_playout i2"
      using rest by (auto simp: ingest_motion_def try_then_Inr split: EnqueueOutcome.split)
    have i1: "i_receiver i1 = i_receiver i"
      using first by (auto simp: bootstrap_clock_def with_clock_def split: if_splits prod.splits)
    obtain p' where p': "ingest_frame frame now (i_clock i1) p = (Inr outcome, p')" "i_playout i2 = Some p'" "i_receiver i2 = i_receiver i1"
      using playout_call [OF call] by blast
    have "synced (i_receiver i) (Some p')"
    proof (rule synced_playout)
      show "synced (i_receiver i) (Some p)" using sync Some by simp
      show "same_activation p p'" "p_injected_totals p' = p_injected_totals p" "playout_wf p'"
        using ingest_activation [OF wf, of frame now "i_clock i1"] ingest_injected [OF wf, of frame now "i_clock i1"]
          ingest_frame_wf [OF wf, of frame now "i_clock i1"] p'(1) by simp_all
    qed
    then show ?thesis using i' p' i1 by simp
  qed (use assms Some in \<open>simp add: receive_motion_def\<close>)
qed (use assms in \<open>simp add: receive_motion_def\<close>)

lemma receive_probe_sync:
  assumes sync: "in_sync i" and ok: "receive_probe w probe sender now i = (Inr (), i')"
  shows "in_sync i'"
proof -
  have remap: "synced r (Some (snd (remap_clock clock p)))" if "synced r (Some p)" for r p clock
    using that synced_playout [OF that remap_activation] remap_clock_wf by (auto simp: synced_def)
  show ?thesis
  proof (cases "pm_payload probe")
    case (Probe s t)
    then show ?thesis using assms by (auto simp: receive_probe_def Let_def split: if_splits)
  next
    case (ProbeEcho s t t' t'')
    define i1 where "i1 = i\<lparr>i_probes := fmdrop s (i_probes i)\<rparr>"
    consider "i' = i" | "i' = i1"
      | i2 where "with_clock (ingest_probe (probe_exchange_of t t' t'' now)) i1 = (Inr (), i2)"
          "(case i_playout i2 of
              Some p \<Rightarrow> if cm_arrival_bootstrap (i_clock i1) then with_playout p (remap_clock (i_clock i2)) i2 else (Inr (), i2)
            | None \<Rightarrow> (Inr (), i2)) = (Inr (), i')"
      using ok by (auto simp: receive_probe_def ProbeEcho Let_def try_then_Inr simp flip: i1_def split: if_splits)
    then show ?thesis
    proof cases
      case (3 i2)
      have "i_receiver i2 = i_receiver i" "i_playout i2 = i_playout i"
        using 3(1) by (auto simp: with_clock_def i1_def split: prod.splits)
      then show ?thesis using 3(2) sync remap [of "i_receiver i" "the (i_playout i)" "i_clock i2"]
        by (auto simp: with_playout_def split: option.splits if_splits prod.splits)
    qed (use sync in \<open>simp_all add: i1_def\<close>)
  qed
qed

lemma probe_turn_sync: "in_sync i \<Longrightarrow> probe_turn w now i = (r, i') \<Longrightarrow> in_sync i'"
proof -
  have "keeps i_receiver (probe_turn w now)" "keeps i_playout (probe_turn w now)"
    by (auto simp: keeps_def probe_turn_def Let_def try_then_def send_next_probe_def split: option.split prod.split sum.split)
  then show "in_sync i \<Longrightarrow> probe_turn w now i = (r, i') \<Longrightarrow> in_sync i'"
    using keepsD [of i_receiver "probe_turn w now" i] keepsD [of i_playout "probe_turn w now" i] by simp
qed

lemma tick_sync:
  assumes sync: "synced r playout" and "receiver_tick now r = (Inr effects, r')"
  shows "synced r' playout"
proof -
  have "receiver_wf r'" using receiver_step_wf [of r RTick now] assms by (simp add: synced_def)
  moreover have "r_activation r' = r_activation r \<or> r_activation r' = None"
    using assms(2) expire_lease_cases [of now "r\<lparr>r_last_observed_time := now\<rparr>"]
    by (auto simp: receiver_tick_def try_then_def r_observe_time_def split: if_splits prod.splits)
  ultimately show ?thesis using sync by (auto simp: synced_def)
qed

lemma inbound_tick_sync:
  assumes sync: "in_sync i" and ok: "inbound_tick w now i = (Inr (), i')"
  shows "in_sync i'"
proof -
  obtain effects i1 i2 i3 i4 where recv: "with_receiver (receiver_tick now) i = (Inr effects, i1)"
    and emit: "emit w effects (w_instant_now w) None i1 = (Inr (), i2)"
    and poll: "poll_playout w now (discard_closed (i_active_context i) i2) = (Inr (), i3)"
    and drain: "drain_pending_controls w now i3 = (Inr (), i4)" and probe: "probe_turn w now i4 = (Inr (), i')"
    using ok by (auto simp: inbound_tick_def Let_def try_then_Inr)
  have "in_sync i1" using receiver_call [OF recv] tick_sync [OF sync, of now effects "i_receiver i1"] by simp
  from emit_sync [OF emit this] have "in_sync (discard_closed (i_active_context i) i2)" by simp
  from probe_turn_sync [OF drain_sync [OF drain poll_playout_sync [OF this poll]] probe] show ?thesis .
qed

lemma connection_lost_closed: "connection_lost now r = (Inr effects, r') \<Longrightarrow> r_activation r' = None"
  by (auto simp: connection_lost_def try_then_def r_observe_time_def close_activation_eq split: if_splits)

lemma inbound_step_sync:
  assumes "in_sync i" "inbound_step w op now i = (Inr (), i')"
  shows "in_sync i'"
proof (cases op)
  case (InControl m t)
  then obtain pending where "drain_pending_controls w now (i\<lparr>i_pending := pending\<rparr>) = (Inr (), i')"
    using assms(2) by (auto simp: in_receive_control_def split: sum.splits)
  then show ?thesis by (rule drain_sync) (use assms(1) in simp)
next
  case InTrack
  then show ?thesis using assms by (auto simp: track_activation_def)
next
  case InClose
  then obtain effects i1 where recv: "with_receiver (connection_lost now) i = (Inr effects, i1)"
    and emit: "emit w effects (w_instant_now w) None i1 = (Inr (), i')"
    using assms(2) by (auto simp: inbound_close_def try_then_Inr)
  have "receiver_wf (i_receiver i1)"
    using receiver_call [OF recv] receiver_step_wf [of "i_receiver i" RConnectionLost now] assms(1) by (simp add: synced_def)
  moreover have "r_activation (i_receiver i1) = None"
    using connection_lost_closed receiver_call [OF recv] by blast
  ultimately have "in_sync i1" using assms(1) receiver_call [OF recv] by (auto simp: synced_def)
  then show ?thesis by (rule emit_sync [OF emit])
next
  case (InMotion frame t)
  then show ?thesis using assms by (simp add: receive_motion_sync)
next
  case (InProbe probe sender)
  then show ?thesis using assms by (simp add: receive_probe_sync)
next
  case InTick
  then show ?thesis using assms by (simp add: inbound_tick_sync)
qed

end
