(* ===== verification/Inbound_Run.thy ===== *)
theory Inbound_Run
  imports Inbound_Sync
begin

text \<open>
  Runs of the receive side: bounded queues, the end of the drain of deferred controls, sleeping until the
  deadline, and the properties over whole runs.
\<close>

section \<open>Bounded queues\<close>

context apart
begin

lemma play_step_keeps [keeps_rules]: "keeps g (play_step w session now step)"
proof -
  have "g (snd (try_then (with_receiver f) (\<lambda>effects. emit w effects t t') i)) = g i" for f t t' i
    by (rule keepsD) (intro keeps_rules)
  then show ?thesis by (simp add: keeps_def [of g "play_step _ _ _ _"] play_step_def Let_def g_simps)
qed

lemma poll_playout_keeps [keeps_rules]: "keeps g (poll_playout w now)"
proof -
  have "keeps g (\<lambda>i. case step of None \<Rightarrow> (Inr (), i) | Some step \<Rightarrow> play_step w session now step i)" for step session
    by (cases step) (simp_all add: keeps_return play_step_keeps)
  from keepsD [OF keeps_try_then [OF with_keeps(2) this]]
  have "g (snd (try_then (with_playout p f) (\<lambda>step i.
      case step of None \<Rightarrow> (Inr (), i) | Some step \<Rightarrow> play_step w session now step i) i)) = g i" for p f session i .
  then show ?thesis
    by (simp add: keeps_def [of g "poll_playout _ _"] poll_playout_def split: option.split)
qed

lemma receive_motion_keeps [keeps_rules]: "keeps g (receive_motion frame t now)"
proof -
  have "keeps g (ingest_motion p frame t now)" for p
    by (auto simp: keeps_def ingest_motion_def try_then_def with_playout_def g_simps
        split: prod.split sum.split EnqueueOutcome.split)
  then have "keeps g (try_then (bootstrap_clock s now) (\<lambda>_. ingest_motion p frame t now))" for s p
    by (intro keeps_rules)
  from this [THEN keepsD] show ?thesis
    by (simp add: keeps_def [of g "receive_motion _ _ _"] receive_motion_def split: option.split)
qed

end

definition queues_bounded :: "Inbound \<Rightarrow> bool" where
  "queues_bounded i \<longleftrightarrow> length (i_pending i) \<le> maximum_queued_frames (i_playout_config i) \<and>
     fcard (fmdom (i_probes i)) \<le> MAX_PENDING_PROBES"

lemma drain_bounds:
  "length (i_pending (snd (drain_pending_controls w now i))) \<le> length (i_pending i) \<and>
   i_playout_config (snd (drain_pending_controls w now i)) = i_playout_config i \<and>
   i_probes (snd (drain_pending_controls w now i)) = i_probes i"
proof (induction "length (i_pending i)" arbitrary: i rule: less_induct)
  case less
  show ?case
  proof (cases "i_pending i")
    case Nil
    then show ?thesis by (simp add: drain_pending_controls.simps [of w now i])
  next
    case (Cons front rest)
    obtain r i1 where r: "pending_control_is_ready front now i = (r, i1)" by fastforce
    have i1: "i_pending i1 = i_pending i" "i_playout_config i1 = i_playout_config i" "i_probes i1 = i_probes i"
      using keepsD [OF pending.pending_control_is_ready_keeps, of front now i]
        keepsD [OF playout_config.pending_control_is_ready_keeps, of front now i]
        keepsD [OF probes.pending_control_is_ready_keeps, of front now i] r by simp_all
    obtain r2 i2 where one: "drain_one w front now (i1\<lparr>i_pending := rest\<rparr>) = (r2, i2)" by fastforce
    have "keeps i_playout_config (drain_one w front now)" "keeps i_probes (drain_one w front now)"
      using keepsD [OF playout_config.in_apply_control_keeps, of w "pc_message front" now "pc_received_at front"]
        keepsD [OF probes.in_apply_control_keeps, of w "pc_message front" now "pc_received_at front"]
      by (auto simp: keeps_def drain_one_def Let_def try_then_def discard_closed_def split: prod.split sum.split option.split)
        (metis snd_conv)+
    then have i2: "length (i_pending i2) < length (i_pending i)" "i_playout_config i2 = i_playout_config i" "i_probes i2 = i_probes i"
      using drain_one_shrinks [OF one] Cons i1 keepsD [of i_playout_config "drain_one w front now" "i1\<lparr>i_pending := rest\<rparr>"]
        keepsD [of i_probes "drain_one w front now" "i1\<lparr>i_pending := rest\<rparr>"] one by simp_all
    show ?thesis
      using less.hyps [OF i2(1)] i1 i2 Cons
      by (auto simp: drain_pending_controls.simps [of w now i] r one split: sum.split)
  qed
qed

lemma probe_turn_bounded:
  assumes "queues_bounded i"
  shows "queues_bounded (snd (probe_turn w now i))"
proof -
  have le: "fcard (fmdom (fmfilter P (i_probes i))) \<le> fcard (fmdom (i_probes i))" for P by (rule fcard_fmfilter)
  have send: "queues_bounded (snd (send_next_probe w now i))" if "queues_bounded i" for i
    using that by (auto simp: queues_bounded_def send_next_probe_def Let_def log_output_def fcard_finsert_if split: option.split)
  have q: "queues_bounded (i\<lparr>i_probes := fmfilter P (i_probes i)\<rparr>)" for P
    using assms le [of P] by (simp add: queues_bounded_def)
  show ?thesis using send [OF q]
    unfolding probe_turn_def Let_def
    by (intro try_then_invar [where I = queues_bounded]) (auto simp: queues_bounded_def dest!: arg_cong [of _ _ snd])
qed

lemma keeps_bounded:
  assumes "keeps i_pending m" "keeps i_playout_config m" "keeps i_probes m" "queues_bounded i"
  shows "queues_bounded (snd (m i))"
  using assms by (simp add: keeps_def queues_bounded_def)

lemma drain_bounded: "queues_bounded i \<Longrightarrow> queues_bounded (snd (drain_pending_controls w now i))"
  using drain_bounds [of w now i] by (simp add: queues_bounded_def)

lemma receive_probe_bounded:
  assumes "queues_bounded i"
  shows "queues_bounded (snd (receive_probe w probe sender now i))"
proof -
  define i1 where "i1 s = i\<lparr>i_probes := fmdrop s (i_probes i)\<rparr>" for s
  have i1: "queues_bounded (i1 s)" for s
  proof -
    have "fcard (fmdom (i_probes i) |-| {|s|}) \<le> fcard (fmdom (i_probes i))" by (rule fcard_mono) auto
    then show ?thesis using assms by (simp add: queues_bounded_def i1_def)
  qed
  have "queues_bounded (snd (try_then (with_clock f) (\<lambda>_ i. case i_playout i of
        Some p \<Rightarrow> if b then with_playout p (remap_clock (i_clock i)) i else (Inr (), i) | None \<Rightarrow> (Inr (), i)) (i1 s)))"
    for f :: "ClockMapper \<Rightarrow> (ClockError + unit) \<times> ClockMapper" and b s
    using i1 [of s]
    by (auto simp: queues_bounded_def try_then_def with_clock_def with_playout_def split: prod.split sum.split option.split)
  with assms i1 show ?thesis
    by (cases "pm_payload probe")
      (auto simp: receive_probe_def Let_def log_output_def queues_bounded_def [of "i\<lparr>i_sent := _\<rparr>"] queues_bounded_def [of i]
        simp flip: i1_def)
qed

lemma try_bounded:
  assumes "\<And>i. queues_bounded i \<Longrightarrow> queues_bounded (snd (m i))" "\<And>a i. queues_bounded i \<Longrightarrow> queues_bounded (snd (f a i))"
    "queues_bounded i"
  shows "queues_bounded (snd (try_then m f i))"
  using assms try_then_invar [where I = queues_bounded] by (metis snd_conv)

lemma discard_closed_bounded: "queues_bounded i \<Longrightarrow> queues_bounded (discard_closed c i)"
  using discard_closed_length [of c i] by (auto simp: queues_bounded_def discard_closed_def split: option.split)

lemma inbound_tick_bounded:
  assumes "queues_bounded i"
  shows "queues_bounded (snd (inbound_tick w now i))"
  unfolding inbound_tick_def Let_def
  by (intro try_bounded [OF _ _ assms] try_bounded drain_bounded probe_turn_bounded)
    (auto intro: drain_bounded probe_turn_bounded keeps_bounded discard_closed_bounded keeps_rules
      pending.with_keeps pending.emit_keeps pending.poll_playout_keeps playout_config.with_keeps playout_config.emit_keeps
      playout_config.poll_playout_keeps probes.with_keeps probes.emit_keeps probes.poll_playout_keeps)

lemma inbound_step_bounded:
  assumes "queues_bounded i"
  shows "queues_bounded (snd (inbound_step w op now i))"
proof (cases op)
  case (InControl m t)
  have "queues_bounded (i\<lparr>i_pending := pending\<rparr>)"
    if "enqueue_pending_control m t now (maximum_queued_frames (i_playout_config i)) (i_pending i) = Inr pending" for pending
    using that assms by (auto simp: queues_bounded_def enqueue_pending_control_def split: if_splits)
  then show ?thesis using assms drain_bounded InControl by (auto simp: in_receive_control_def split: sum.split)
next
  case (InMotion frame t)
  then show ?thesis using assms keeps_bounded [OF pending.receive_motion_keeps playout_config.receive_motion_keeps
    probes.receive_motion_keeps] by simp
next
  case (InProbe probe sender)
  then show ?thesis using assms receive_probe_bounded by simp
next
  case InTick
  then show ?thesis using assms inbound_tick_bounded by simp
next
  case InTrack
  then show ?thesis using assms by (auto simp: queues_bounded_def track_activation_def)
next
  case InClose
  have "queues_bounded (snd (inbound_close w now i))"
    unfolding inbound_close_def by (rule keeps_bounded) (intro keeps_rules assms)+
  then show ?thesis by (simp add: InClose)
qed


section \<open>Runs\<close>

text \<open>The session loop makes its calls one after the other and ends with the first error.\<close>

fun inbound_run :: "(World \<times> InboundOp \<times> MonotonicTimeMicros) list \<Rightarrow> unit inbound_op" where
  "inbound_run [] i = (Inr (), i)"
| "inbound_run ((w, op, now) # ops) i = try_then (inbound_step w op now) (\<lambda>_. inbound_run ops) i"

lemma inbound_new_sync:
  assumes "inbound_new config playout_config now = Inr i"
  shows "in_sync i" "queues_bounded i"
  using assms receiver_new_wf
  by (auto simp: inbound_new_def result_then_Inr map_err_Inr synced_def receiver_new_def queues_bounded_def)

lemma inbound_run_sync: "in_sync i \<Longrightarrow> inbound_run ops i = (Inr (), i') \<Longrightarrow> in_sync i'"
proof (induction ops arbitrary: i)
  case (Cons op ops)
  obtain w o' now where op: "op = (w, o', now)" by (cases op)
  then obtain i1 where "inbound_step w o' now i = (Inr (), i1)" "inbound_run ops i1 = (Inr (), i')"
    using Cons.prems(2) by (auto simp: try_then_Inr)
  then show ?case using Cons.IH inbound_step_sync [OF Cons.prems(1)] by blast
qed simp

lemma inbound_run_bounded: "queues_bounded i \<Longrightarrow> queues_bounded (snd (inbound_run ops i))"
proof (induction ops arbitrary: i)
  case (Cons op ops)
  then show ?case by (cases op) (auto intro!: try_bounded inbound_step_bounded)
qed simp

section \<open>Deferred controls\<close>

lemma clock_map_ready: "clock_map m t = Inr t' \<Longrightarrow> is_ready m"
  by (auto simp: clock_map_def is_ready_def split: option.splits)

lemma anchor_is_due_again:
  assumes "anchor_is_due an t d now i = (Inr b, i1)"
  shows "anchor_is_due an t d now i1 = (Inr b, i1)"
proof -
  obtain m where boot: "bootstrap_clock (an_sender_capture_time an) t i = (Inr (), i1)"
    and m: "clock_map (i_clock i1) (an_sender_capture_time an) = Inr m" "b = (time_saturating_add m d \<le> now)"
    using assms by (auto simp: anchor_is_due_def try_then_Inr reading_def map_err_Inr)
  have "is_ready (i_clock i1)" using m(1) by (rule clock_map_ready)
  then show ?thesis using m by (simp add: anchor_is_due_def try_then_def reading_def bootstrap_clock_def map_err_def)
qed

lemma pending_ready_again:
  assumes "pending_control_is_ready item now i = (Inr b, i1)"
  shows "pending_control_is_ready item now i1 = (Inr b, i1)"
proof -
  have same: "i_active_context i1 = i_active_context i" "i_playout i1 = i_playout i"
    using pending_control_is_ready_sync [OF assms] by simp_all
  show ?thesis using assms unfolding pending_control_is_ready_def same
    by (auto split: option.splits if_splits dest: anchor_is_due_again)
qed

lemma drain_nothing: "i_pending i = [] \<Longrightarrow> drain_pending_controls w now i = (Inr (), i)"
  by (simp add: drain_pending_controls.simps [of w now i])

lemma drain_front_not_ready:
  assumes "drain_pending_controls w now i = (Inr u, i')"
  shows "i_pending i' = [] \<or> (\<exists>front rest. i_pending i' = front # rest \<and> pending_control_is_ready front now i' = (Inr False, i'))"
  using assms
proof (induction rule: drain_success_induct)
  case (Wait i front rest i1)
  then show ?case using keepsD [OF pending.pending_control_is_ready_keeps, of front now i] pending_ready_again by fastforce
qed auto

section \<open>Sleeping\<close>

definition quiet :: "Inbound \<Rightarrow> bool" where
  "quiet i \<longleftrightarrow> i_pending i = [] \<and> (\<forall>p. i_playout i = Some p \<longrightarrow> p_completed_sequence p = t_sequence (p_target p))"

lemma quiet_poll:
  assumes wf: "playout_wf p" and fin: "p_completed_sequence p = t_sequence (p_target p)"
    and time: "\<And>t. p_last_observed_time p = Some t \<Longrightarrow> t \<le> now"
    and due: "\<And>d. playout_next_deadline p = Some d \<Longrightarrow> now < d"
  shows "\<exists>p'. poll hyp now p = (Inr None, p') \<and> p_queue p' = p_queue p \<and> p_injected_totals p' = p_injected_totals p"
proof -
  have ok: "config_ok (p_config p)" using wf by (simp add: playout_wf_def)
  have young: "\<not> mature now p q" if "fmlookup (p_queue p) s = Some q" for s q
  proof
    assume m: "mature now p q"
    define ds where "ds = map (\<lambda>q. add_micros (q_mapped_capture_time q) (current_delay_micros p))
      (filter (\<lambda>q. f_control_watermark (q_frame q) \<le> p_applied_control_sequence p) (fm_values (p_queue p)))"
    have "q \<in> set (fm_values (p_queue p))" using that by (auto simp: set_fm_values)
    then have mem: "add_micros (q_mapped_capture_time q) (current_delay_micros p) \<in> set ds"
      using m by (auto simp: ds_def mature_def)
    then obtain d where d: "iter_min ds = Some d" by (cases "iter_min ds") auto
    then have "now < d" using due by (simp add: playout_next_deadline_def ds_def)
    then have "now < add_micros (q_mapped_capture_time q) (current_delay_micros p)" using iter_min_less [OF d] mem by blast
    then show False using m by (auto simp: mature_def)
  qed
  have "find (\<lambda>(_, q). mature now (clocked now p) q) (rev (sorted_list_of_fmap (p_queue (clocked now p)))) = None"
    using young by (simp add: find_none_mature)
  then have sel: "select_newest_mature_target hyp now (clocked now p) = (Inr None, clocked now p)"
    by (simp add: select_newest_mature_target_def)
  have "checked_delta_from (t_totals (p_target p)) (p_injected_totals p) = Inr delta_default"
    "t_pending_touch_snapshot (p_target p) = None"
    using wf fin by (simp_all add: playout_wf_def checked_delta_from_default)
  then have "advance_towards_target hyp e None (clocked now p) = (Inr None, (touch_taken (clocked now p))\<lparr>p_completed_sequence :=
      max (p_completed_sequence (clocked now p)) (t_sequence (p_target (clocked now p)))\<rparr>)" for e
    using advance_None [of "clocked now p" delta_default hyp e] ok by auto
  then show ?thesis using time by (auto simp: poll_eq [OF ok] try_then_def sel split: option.splits dest: leD)
qed


lemma quiet_tick_receiver:
  assumes "r_last_observed_time r \<le> now" "\<And>d. lease_deadline r = Some d \<Longrightarrow> now < d"
  shows "receiver_tick now r = (Inr [], r\<lparr>r_last_observed_time := now\<rparr>)"
  using assms by (auto simp: tick_exact split: option.split)

lemma emit_nothing: "emit w [] t t' i = (Inr (), i)"
  by (simp add: emit_def try_then_def reading_def hand_over_def)

lemma deadline_parts:
  assumes "\<And>d. session_deadline sender r playout pending ticked next = Some d \<Longrightarrow> now < d"
  shows "lease_deadline r = Some d \<Longrightarrow> now < d" "playout = Some p \<Longrightarrow> playout_next_deadline p = Some d \<Longrightarrow> now < d"
    "r_activation r \<noteq> None \<Longrightarrow> now < next" "sender = Some s \<Longrightarrow> sender_next_deadline s = Some d \<Longrightarrow> now < d"
proof -
  define ds where "ds = [Option.bind sender sender_next_deadline, lease_deadline r, Option.bind playout playout_next_deadline,
     if (case playout of None \<Rightarrow> False
         | Some p \<Rightarrow> selected_target_sequence (playout_stats p) > st_completed_sequence (playout_stats p)) \<or> pending
     then Some (time_saturating_add ticked SESSION_TICK) else None, map_option (\<lambda>_. next) (active_context r)]"
  have less: "now < d" if "Some d \<in> set ds" for d
  proof -
    have mem: "d \<in> set (List.map_filter id ds)" using that by (force simp: List.map_filter_def)
    then obtain m where m: "iter_min (List.map_filter id ds) = Some m" by (cases "iter_min (List.map_filter id ds)") auto
    then have "now < m" using assms by (simp add: session_deadline_def ds_def Let_def)
    then show ?thesis using iter_min_less [OF m] mem by blast
  qed
  show "lease_deadline r = Some d \<Longrightarrow> now < d" "playout = Some p \<Longrightarrow> playout_next_deadline p = Some d \<Longrightarrow> now < d"
    "r_activation r \<noteq> None \<Longrightarrow> now < next" "sender = Some s \<Longrightarrow> sender_next_deadline s = Some d \<Longrightarrow> now < d"
    by (rule less, auto simp: ds_def active_context_def)+
qed

lemma quiet_poll_playout:
  assumes wf: "\<And>p. i_playout i = Some p \<Longrightarrow> playout_wf p" and "quiet i"
    and time: "\<And>p t. i_playout i = Some p \<Longrightarrow> p_last_observed_time p = Some t \<Longrightarrow> t \<le> now"
    and due: "\<And>p d. i_playout i = Some p \<Longrightarrow> playout_next_deadline p = Some d \<Longrightarrow> now < d"
  shows "\<exists>playout'. poll_playout w now i = (Inr (), i\<lparr>i_playout := playout'\<rparr>) \<and>
     map_option p_queue playout' = map_option p_queue (i_playout i) \<and>
     map_option p_injected_totals playout' = map_option p_injected_totals (i_playout i)"
proof (cases "i_playout i")
  case None
  then have "i\<lparr>i_playout := None\<rparr> = i" by (cases i) simp
  then show ?thesis using None by (auto simp: poll_playout_def intro!: exI [of _ None])
next
  case (Some p)
  have "p_completed_sequence p = t_sequence (p_target p)" using assms(2) Some by (simp add: quiet_def)
  then obtain p' where "poll (w_hypot w) now p = (Inr None, p')" "p_queue p' = p_queue p" "p_injected_totals p' = p_injected_totals p"
    using quiet_poll [OF wf [OF Some], of now "w_hypot w"] time [OF Some] due [OF Some] by auto
  then show ?thesis using Some
    by (auto simp: poll_playout_def with_playout_def try_then_def map_err_def intro!: exI [of _ "Some p'"])
qed

lemma quiet_probe_turn:
  assumes "i_active_context i \<noteq> None \<Longrightarrow> now < i_next_probe_at i"
  shows "\<exists>i'. probe_turn w now i = (Inr (), i') \<and> i_sent i' = i_sent i \<and> i_receiver i' = i_receiver i \<and>
     i_playout i' = i_playout i \<and> i_pending i' = i_pending i \<and> i_clock i' = i_clock i"
  using assms
  by (cases "i_active_context i") (auto simp: probe_turn_def Let_def try_then_def send_next_probe_def)

lemma quiet_tick:
  assumes sync: "in_sync i" and q: "quiet i" and time: "r_last_observed_time (i_receiver i) \<le> now"
      "\<And>p t. i_playout i = Some p \<Longrightarrow> p_last_observed_time p = Some t \<Longrightarrow> t \<le> now"
    and due: "\<And>d. inbound_deadline sender ticked i = Some d \<Longrightarrow> now < d"
  shows "\<exists>i'. inbound_tick w now i = (Inr (), i') \<and> i_sent i' = i_sent i \<and> i_pending i' = [] \<and>
     i_receiver i' = (i_receiver i)\<lparr>r_last_observed_time := now\<rparr> \<and>
     map_option p_queue (i_playout i') = map_option p_queue (i_playout i) \<and>
     map_option p_injected_totals (i_playout i') = map_option p_injected_totals (i_playout i)"
proof -
  have pend: "i_pending i = []" using q by (simp add: quiet_def)
  note parts = deadline_parts [OF due [unfolded inbound_deadline_def]]
  define i1 where "i1 = i\<lparr>i_receiver := (i_receiver i)\<lparr>r_last_observed_time := now\<rparr>\<rparr>"
  have recv: "with_receiver (receiver_tick now) i = (Inr [], i1)"
    using quiet_tick_receiver [OF time(1) parts(1)] by (simp add: with_receiver_def map_err_def i1_def)
  have d: "discard_closed (i_active_context i) i1 = i1"
    by (simp add: discard_closed_def i1_def active_context_def split: option.split)
  obtain playout' where poll: "poll_playout w now i1 = (Inr (), i1\<lparr>i_playout := playout'\<rparr>)"
    and same: "map_option p_queue playout' = map_option p_queue (i_playout i)"
      "map_option p_injected_totals playout' = map_option p_injected_totals (i_playout i)"
    using quiet_poll_playout [of i1 now w] sync q time(2) parts(2) by (auto simp: i1_def synced_def quiet_def)
  have drain: "drain_pending_controls w now (i1\<lparr>i_playout := playout'\<rparr>) = (Inr (), i1\<lparr>i_playout := playout'\<rparr>)"
    using pend by (intro drain_nothing) (simp add: i1_def)
  obtain i' where probe: "probe_turn w now (i1\<lparr>i_playout := playout'\<rparr>) = (Inr (), i')" "i_sent i' = i_sent i"
    "i_receiver i' = i_receiver i1" "i_playout i' = playout'" "i_pending i' = []"
    using quiet_probe_turn [of "i1\<lparr>i_playout := playout'\<rparr>" now w] parts(3) pend by (auto simp: i1_def active_context_def)
  have "inbound_tick w now i = (Inr (), i')"
    by (simp add: inbound_tick_def Let_def try_then_def recv emit_nothing d poll drain probe(1))
  then show ?thesis using probe same by (auto simp: i1_def)
qed


section \<open>A sample session\<close>

definition sample_world :: World where
  "sample_world = \<lparr>w_target = TargetOther, w_applied = (\<lambda>_. Inr ()), w_control_sent = (\<lambda>_. True),
     w_probe_sent = (\<lambda>_. True), w_instant_now = 0, w_clock_now = 0, w_hypot = sample_hypot\<rparr>"

definition sample_inbound :: Inbound where
  "sample_inbound =
     \<lparr>i_playout_config = playout_config_default, i_receiver = sample_receiver_start, i_clock = sample_clock,
      i_playout = None, i_pending = [], i_motion_received_at = fmempty, i_response_sequence = 0, i_probes = fmempty,
      i_next_probe_sequence = 1, i_probe_context = None, i_next_probe_at = 100000, i_sent = []\<rparr>"

lemma sample_inbound_new:
  "inbound_new \<lparr>held_state_lease = from_millis 900\<rparr> playout_config_default 0 = Inr sample_inbound"
  by (simp add: inbound_new_def result_then_def map_err_def sample_clock_new sample_inbound_def sample_receiver_start_def
      receiver_new_def receiver_config_new_def MAX_HELD_STATE_LEASE_def from_millis_def from_secs_def
      time_saturating_add_def PROBE_INTERVAL_def as_micros_def u64_of_u128_or_max_def saturating_add_u64_def)

definition entered_receiver :: Receiver where
  "entered_receiver =
     \<lparr>r_config = \<lparr>held_state_lease = 900000000\<rparr>, r_context = Some (replicate 16 1, 1), r_highest_activation = Some 1,
      r_activation = Some \<lparr>a_session = sample_session, a_last_control_sequence = 1, a_held = held_default,
        a_last_injected_motion = 0, a_injected_totals = motion_ZERO, a_lease_deadline = None\<rparr>,
      r_last_observed_time = 5\<rparr>"

lemma sample_enter:
  "receive_control (sample_control 1 Enter) 5 sample_receiver_start = (Inr [ActivationOpened sample_session], entered_receiver)"
  by (simp add: receiver_eval entered_receiver_def refresh_lease_def is_neutral_def held_default_def touch_is_empty_def)

definition entered_inbound :: Inbound where
  "entered_inbound = sample_inbound\<lparr>i_receiver := entered_receiver,
     i_playout := Some (fresh_playout\<lparr>p_applied_control_sequence := 1\<rparr>),
     i_sent := [ToBackend [ActivationOpened sample_session] None 0]\<rparr>"

lemma sample_apply_enter:
  "in_apply_control sample_world (sample_control 1 Enter) 5 0 sample_inbound = (Inr (), entered_inbound)"
proof -
  let ?i = "sample_inbound\<lparr>i_receiver := entered_receiver\<rparr>"
  let ?i' = "?i\<lparr>i_playout := Some (fresh_playout\<lparr>p_applied_control_sequence := 1\<rparr>)\<rparr>"
  have recv: "with_receiver (receive_control (sample_control 1 Enter) 5) sample_inbound =
      (Inr [ActivationOpened sample_session], ?i)"
    using sample_enter by (simp add: with_receiver_def map_err_def sample_inbound_def)
  have beg: "begin_activation ?i = (Inr (), ?i\<lparr>i_playout := Some fresh_playout\<rparr>)"
    by (simp add: begin_activation_def sample_clock_new active_context_def, simp add: entered_receiver_def sample_inbound_def
        fresh_playout_new)
  have move: "move_playout 1 None (?i\<lparr>i_playout := Some fresh_playout\<rparr>) = (Inr (), ?i')"
    by (simp add: move_playout_def with_playout_def advance_control_watermark_def map_err_def) (simp add: fresh_playout_def)
  have emit: "emit sample_world [ActivationOpened sample_session] 0 None ?i' = (Inr (), entered_inbound)"
    by (simp add: emit_def try_then_def reading_def sample_world_def result_then_def hand_over_def map_err_def log_output_def
        entered_inbound_def, simp add: sample_inbound_def)
  have "m_payload (sample_control 1 Enter) = Enter" "m_sequence (sample_control 1 Enter) = 1"
    by (simp_all add: sample_control_def)
  then show ?thesis
    by (simp add: in_apply_control_def try_then_def reading_def touch_capture_def recv is_opening_def beg move emit)
qed

lemma sample_inbound_enter:
  "inbound_step sample_world (InControl (sample_control 1 Enter) 0) 5 sample_inbound = (Inr (), entered_inbound)"
proof -
  let ?item = "\<lparr>pc_message = sample_control 1 Enter, pc_received_at = 0, pc_receiver_received_at = 5\<rparr>"
  have "sample_inbound\<lparr>i_pending := []\<rparr> = sample_inbound" "i_pending entered_inbound = []"
    by (simp_all add: sample_inbound_def entered_inbound_def)
  moreover have "i_active_context sample_inbound = None"
    by (simp add: sample_inbound_def active_context_def receiver_eval)
  ultimately have "drain_one sample_world ?item 5 (sample_inbound\<lparr>i_pending := []\<rparr>) = (Inr (), entered_inbound)"
    by (simp add: drain_one_def try_then_def sample_apply_enter discard_closed_def)
  then have "drain_pending_controls sample_world 5 (sample_inbound\<lparr>i_pending := [?item]\<rparr>) = (Inr (), entered_inbound)"
    by (subst drain_pending_controls.simps) (simp add: pending_control_is_ready_def sample_control_def
      drain_nothing entered_inbound_def sample_inbound_def)
  moreover have "i_pending sample_inbound = []" "0 < maximum_queued_frames (i_playout_config sample_inbound)"
    by (simp_all add: sample_inbound_def playout_config_default_def)
  ultimately show ?thesis by (simp add: in_receive_control_def enqueue_pending_control_def)
qed


definition playing_inbound :: Inbound where
  "playing_inbound = sample_inbound\<lparr>i_receiver := entered_receiver\<lparr>r_activation := Some
      \<lparr>a_session = sample_session, a_last_control_sequence = 0, a_held = held_default, a_last_injected_motion = 0,
       a_injected_totals = motion_ZERO, a_lease_deadline = None\<rparr>\<rparr>, i_playout := Some sample_queued\<rparr>"

lemma playing_inbound_sync: "in_sync playing_inbound"
proof -
  have "p_session sample_queued = sample_session" "p_completed_sequence sample_queued = 0"
    by (simp_all add: sample_queued_def sample_ingest) (simp_all add: fresh_playout_def)
  then show ?thesis using sample_queued_wf
    by (simp add: playing_inbound_def synced_def agrees_def sample_queued_fields receiver_wf_def activation_wf_def)
      (simp add: entered_receiver_def MAX_HELD_STATE_LEASE_def from_secs_def sample_session_def is_neutral_def
        held_default_def touch_is_empty_def)
qed

section \<open>What is handed over\<close>

fun is_ack :: "ReceiverEffect \<Rightarrow> bool" where
  "is_ack (EffSnapshotAck _ _) = True"
| "is_ack _ = False"

text \<open>The answers that a list of effects asks for: its acknowledgements, in order.\<close>

definition acknowledgements :: "ReceiverEffect list \<Rightarrow> (SessionContext \<times> ReliableControl) list" where
  "acknowledgements effects =
     List.map_filter (\<lambda>e. case e of EffSnapshotAck session ack \<Rightarrow> Some (session, CtlSnapshotAck ack) | _ \<Rightarrow> None) effects"

fun is_violation :: "ReceiverEffect \<Rightarrow> bool" where
  "is_violation (Rejected _ reason) = fatal_rejection reason"
| "is_violation _ = False"

lemma sort_effects_backend:
  "sort_effects supports effects = Inr (backend, responses) \<Longrightarrow>
     backend = filter (\<lambda>e. supports e \<and> \<not> is_ack e \<and> \<not> is_rejection e) effects \<and>
     responses = acknowledgements effects"
  unfolding acknowledgements_def
proof (induction effects arbitrary: backend responses)
  case (Cons e es)
  then show ?case by (cases e) (auto simp: result_then_Inr List.map_filter_simps split: if_splits)
qed (simp add: List.map_filter_simps)

lemma sort_effects_violation:
  "sort_effects supports effects = Inl e \<Longrightarrow> e = IInvalidStateTransition \<and> list_ex is_violation effects"
  "sort_effects supports effects = Inr parts \<Longrightarrow> \<not> list_ex is_violation effects"
proof (induction effects arbitrary: parts)
  case (Cons x xs)
  { case 1 with Cons show ?case by (cases x) (auto simp: result_then_def split: if_splits sum.splits)
  next case 2 with Cons show ?case by (cases x) (auto simp: result_then_def split: if_splits sum.splits) }
qed simp_all

text \<open>
  A log of answers: the first answers in order, numbered from the next number on.
\<close>

definition answered :: "u64 \<Rightarrow> (SessionContext \<times> ReliableControl) list \<Rightarrow> ReliableControlMessage list \<Rightarrow> bool" where
  "answered next_after responses sent \<longleftrightarrow>
     map (\<lambda>m. (m_session m, m_payload m)) sent = take (length sent) responses \<and>
     map (\<lambda>m. unat (m_sequence m)) sent = [Suc (unat next_after) ..< Suc (unat next_after + length sent)]"

lemma answered_Cons:
  assumes "unat s = Suc (unat next_after)" "answered s responses sent"
  shows "answered next_after (response # responses)
     (\<lparr>m_session = fst response, m_sequence = s, m_payload = snd response\<rparr> # sent)"
  using assms by (simp add: answered_def upt_rec)

lemma send_responses_sent:
  "send_responses w rs i = (r, i') \<Longrightarrow>
     \<exists>sent. i_sent i' = i_sent i @ map ToPeer sent \<and> answered (i_response_sequence i) rs sent \<and>
       (if r = Inr () then length sent = length rs else r \<in> {Inl IChannelClosed, Inl IResponseSequenceExhausted})"
proof (induction rs arbitrary: i)
  case (Cons resp rs)
  show ?case
  proof (cases "checked_add_u64 (i_response_sequence i) 1")
    case None
    then show ?thesis using Cons.prems by (auto simp: try_then_def send_response_def answered_def intro!: exI [of _ "[]"])
  next
    case (Some s)
    define m where "m = \<lparr>m_session = fst resp, m_sequence = s, m_payload = snd resp\<rparr>"
    define i1 where "i1 = log_output (ToPeer m) (i\<lparr>i_response_sequence := s\<rparr>)"
    show ?thesis
    proof (cases "w_control_sent w m")
      case True
      then have "send_responses w rs i1 = (r, i')"
        using Cons.prems Some by (simp add: try_then_def send_response_def Let_def i1_def flip: m_def)
      from Cons.IH [OF this] obtain sent where sent: "i_sent i' = i_sent i1 @ map ToPeer sent"
        "answered (i_response_sequence i1) rs sent"
        "if r = Inr () then length sent = length rs else r \<in> {Inl IChannelClosed, Inl IResponseSequenceExhausted}" by blast
      have "answered (i_response_sequence i) (resp # rs) (m # sent)"
        using answered_Cons [of s "i_response_sequence i" rs sent resp] Some sent(2)
        by (simp add: checked_succ_u64 m_def i1_def log_output_def)
      with sent show ?thesis by (intro exI [of _ "m # sent"]) (auto simp: i1_def log_output_def)
    next
      case False
      then show ?thesis using Cons.prems Some
        by (auto simp: try_then_def send_response_def Let_def answered_def simp flip: m_def intro!: exI [of _ "[]"])
    qed
  qed
qed (auto simp: answered_def intro!: exI [of _ "[]"])

section \<open>Properties\<close>

text \<open>
  C12: The playout and the receiver stay in step. From a new session, after any calls of the session loop
  that all succeeded, with whatever controls, frames, probes, times and backends, an open activation has
  a playout of its own session that has injected exactly the receiver's totals, has applied exactly the
  receiver's controls, and is not behind the receiver's completed motion.
\<close>

theorem inbound_stays_in_sync:
  assumes "inbound_new config playout_config now = Inr i" and "inbound_run ops i = (Inr (), i')"
    and "r_activation (i_receiver i') = Some st"
  shows "\<exists>p. i_playout i' = Some p \<and> p_session p = a_session st \<and> p_injected_totals p = a_injected_totals st \<and>
     p_applied_control_sequence p = a_last_control_sequence st \<and> a_last_injected_motion st \<le> p_completed_sequence p"
  using inbound_run_sync [OF inbound_new_sync(1) [OF assms(1)] assms(2)] assms(3) by (auto simp: synced_def agrees_def)

theorem inbound_stays_in_sync_witness:
  "\<exists>p i'. inbound_run [(sample_world, InControl (sample_control 1 Enter) 0, 5)] sample_inbound = (Inr (), i') \<and>
     i_playout i' = Some p \<and> p_session p = sample_session \<and> p_applied_control_sequence p = 1"
proof -
  have run: "inbound_run [(sample_world, InControl (sample_control 1 Enter) 0, 5)] sample_inbound = (Inr (), entered_inbound)"
    using sample_inbound_enter by (simp add: try_then_def)
  have act: "r_activation (i_receiver entered_inbound) = r_activation entered_receiver" by (simp add: entered_inbound_def)
  show ?thesis
    using inbound_stays_in_sync [OF sample_inbound_new run, of "the (r_activation entered_receiver)"] run act
    by (auto simp: entered_receiver_def)
qed

text \<open>
  C14: The receiver takes every step of the playout. In a session in step, a step that the playout emits
  while its activation is open and the lease has not run out is never refused as closed, stale,
  duplicate or reordered, and it never overflows the totals: either the receiver's totals become the
  playout's, or the step carries a touch snapshot with contacts although no touch was begun, and the
  activation is closed as a protocol violation.
\<close>

theorem playout_steps_are_accepted:
  assumes "in_sync i" and "i_playout i = Some p" and "r_activation (i_receiver i) = Some st"
    and "r_last_observed_time (i_receiver i) \<le> now" and "\<forall>d. lease_deadline (i_receiver i) = Some d \<longrightarrow> now < d"
    and "poll hyp now p = (Inr (Some step), p')"
  shows "\<exists>effects r'. receive_playout_step (p_session p) step now (i_receiver i) = (Inr effects, r') \<and>
     \<not> list_ex is_rejection effects \<and>
     (if \<exists>touch. ps_touch_snapshot step = Some touch \<and> \<not> touch_is_empty touch \<and> touch_is_empty (active_touch (a_held st))
      then r_activation r' = None
      else \<exists>st'. r_activation r' = Some st' \<and> a_injected_totals st' = p_injected_totals p')"
proof -
  let ?r = "i_receiver i"
  have ag: "agrees p st" and wf: "playout_wf p" using assms(1-3) by (auto simp: synced_def)
  have add: "motion_checked_add (a_injected_totals st) (ps_delta step) = Inr (p_injected_totals p')"
    using poll_exact [OF wf assms(6)] ag by (simp add: motion_checked_add_ints agrees_def)
  have "a_last_injected_motion st < ps_through_sequence step"
    using poll_step_pending [OF wf assms(6)] ag by (auto simp: agrees_def)
  moreover have "expire_lease now (?r\<lparr>r_last_observed_time := now\<rparr>) = (?r\<lparr>r_last_observed_time := now\<rparr>, [])"
    using assms(3,5) by (auto simp: expire_lease_def lease_deadline_def not_le split: option.split)
  moreover have "\<not> is_closed (?r\<lparr>r_last_observed_time := now\<rparr>) (activation_id (p_session p))"
    using assms(3) ag by (simp add: is_closed_def agrees_def)
  moreover have "\<not> list_ex is_rejection (snd (apply_playout step totals st))" for totals
    by (auto simp: apply_playout_def Let_def split: option.split)
  moreover have "\<not> list_ex is_rejection (snd (close_activation reason r))" for reason r
    using plain_close [of reason r] by (simp add: plain_def)
  ultimately show ?thesis using add assms(3,4) ag
    by (auto simp: receive_playout_step_def try_then_def r_observe_time_def Let_def agrees_def close_activation_simps(1)
        case_prod_beta apply_playout_def split: option.splits)
qed

theorem playout_steps_are_accepted_witness:
  "\<exists>step p' effects r' st'. poll sample_hypot 9000 sample_queued = (Inr (Some step), p') \<and>
     receive_playout_step (p_session sample_queued) step 9000 (i_receiver playing_inbound) = (Inr effects, r') \<and>
     r_activation r' = Some st' \<and> a_injected_totals st' = sample_target"
proof -
  obtain step p' where s: "poll sample_hypot 9000 sample_queued = (Inr (Some step), p')"
    "ps_delta step = \<lparr>dx = 5, dy = -2, scroll_x = 0, scroll_y = 0\<rparr>" using sample_poll by blast
  have total: "p_injected_totals p' = sample_target"
    using poll_exact [OF sample_queued_wf s(1)] s(2)
    by (simp add: sample_queued_fields motion_ints_def delta_ints_def sample_target_def motion_ZERO_def flip: motion_ints_eq_iff)
  have touch: "ps_touch_snapshot step = None"
    using sample_queued_wf s(1)
    by (cases rule: poll_target)
      (use sample_newest in \<open>auto simp: newest_mature_def sample_queued_fields sample_frame_def split: if_splits\<close>)
  have "i_playout playing_inbound = Some sample_queued" "r_last_observed_time (i_receiver playing_inbound) \<le> 9000"
    "lease_deadline (i_receiver playing_inbound) = None"
    "\<exists>st. r_activation (i_receiver playing_inbound) = Some st"
    by (simp_all add: playing_inbound_def lease_deadline_def entered_receiver_def)
  with playout_steps_are_accepted [OF playing_inbound_sync, of sample_queued _ 9000 sample_hypot step p'] s touch total
  show ?thesis by fastforce
qed

text \<open>
  The queues of a session are bounded. Whatever the session loop calls and however the calls end, it
  never holds more deferred controls than \<open>maximum_queued_frames\<close> and never waits for more than
  \<open>MAX_PENDING_PROBES\<close> probe echoes.
\<close>

theorem inbound_queues_are_bounded:
  assumes "inbound_new config playout_config now = Inr i"
  shows "length (i_pending (snd (inbound_run ops i))) \<le> maximum_queued_frames (i_playout_config (snd (inbound_run ops i))) \<and>
     fcard (fmdom (i_probes (snd (inbound_run ops i)))) \<le> MAX_PENDING_PROBES"
  using inbound_run_bounded [OF inbound_new_sync(2) [OF assms], of ops] by (simp add: queues_bounded_def)

theorem inbound_queues_are_bounded_witness:
  "fcard (fmdom (i_probes (snd (inbound_run [(sample_world, InControl (sample_control 1 Enter) 0, 5)] sample_inbound)))) \<le> 64"
  using inbound_queues_are_bounded [OF sample_inbound_new, of "[(sample_world, InControl (sample_control 1 Enter) 0, 5)]"]
  by (simp add: MAX_PENDING_PROBES_def)

text \<open>
  C16: The peer is answered only after the backend has applied the effects. If the effects contain a rejection that
  is a protocol violation, \<open>emit\<close> fails with \<open>IInvalidStateTransition\<close> and hands over nothing. Otherwise what it
  hands over is one batch with all effects that the backend of the platform supports, in order, without the
  rejections and acknowledgements. If the backend fails, that error is returned and nothing is answered. Otherwise the
  acknowledgements among the effects are answered after it, in order and with consecutive numbers: all of them if
  \<open>emit\<close> succeeds, and if it does not, the first ones, because the channel is closed or the numbers have run out.
\<close>

theorem answers_follow_the_backend:
  "case emit w effects received_at touch i of (r, i') \<Rightarrow>
     if list_ex is_violation effects then r = Inl IInvalidStateTransition \<and> i' = i
     else
       (let backend = filter (\<lambda>e. backend_supports (w_target w) e \<and> \<not> is_ack e \<and> \<not> is_rejection e) effects;
            batch = (if backend = [] then [] else [ToBackend backend touch received_at])
        in case (if backend = [] then Inr () else w_applied w backend) of
             Inl e \<Rightarrow> r = Inl (IBackend e) \<and> i_sent i' = i_sent i @ batch
           | Inr _ \<Rightarrow>
               \<exists>sent. i_sent i' = i_sent i @ batch @ map ToPeer sent \<and>
                 answered (i_response_sequence i) (acknowledgements effects) sent \<and>
                 (if r = Inr () then length sent = length (acknowledgements effects)
                  else r \<in> {Inl IChannelClosed, Inl IResponseSequenceExhausted}))"
proof (cases "sort_effects (backend_supports (w_target w)) effects")
  case (Inl e)
  with sort_effects_violation(1) [OF Inl] show ?thesis by (simp add: emit_def try_then_def reading_def)
next
  case (Inr br)
  obtain backend responses where br: "br = (backend, responses)" by (cases br)
  note parts = sort_effects_backend [OF Inr [unfolded br]]
  obtain r i' where run: "emit w effects received_at touch i = (r, i')" by fastforce
  define i1 where "i1 = (if backend = [] then i else log_output (ToBackend backend touch received_at) i)"
  have i1: "i_sent i1 = i_sent i @ (if backend = [] then [] else [ToBackend backend touch received_at])"
    "i_response_sequence i1 = i_response_sequence i"
    by (simp_all add: i1_def log_output_def)
  have run1: "(case (if backend = [] then Inr () else w_applied w backend) of
      Inl e \<Rightarrow> (Inl (IBackend e), i1) | Inr _ \<Rightarrow> send_responses w responses i1) = (r, i')"
    using run Inr br by (auto simp: emit_def try_then_def reading_def hand_over_def map_err_def i1_def split: sum.splits)
  note violation = sort_effects_violation(2) [OF Inr]
  show ?thesis
  proof (cases "if backend = [] then Inr () else w_applied w backend")
    case (Inl e)
    with run1 i1 violation show ?thesis
      by (simp add: run Let_def parts [THEN conjunct1, symmetric])
  next
    case (Inr u)
    with run1 have "send_responses w responses i1 = (r, i')" by simp
    from send_responses_sent [OF this] show ?thesis
      unfolding run prod.case if_not_P [OF violation] Let_def parts [THEN conjunct1, symmetric]
        parts [THEN conjunct2, symmetric] Inr sum.case i1 append_assoc .
  qed
qed

theorem answers_follow_the_backend_witness:
  "\<exists>e. emit (sample_world\<lparr>w_applied := (\<lambda>_. Inl ''busy'')\<rparr>)
      [EffKey (keyboard 4) True False, EffSnapshotAck sample_session \<lparr>snapshot_sequence = 3, accepted_generation = 1\<rparr>]
      0 None sample_inbound =
     (Inl e, sample_inbound\<lparr>i_sent := [ToBackend [EffKey (keyboard 4) True False] None 0]\<rparr>)"
  using answers_follow_the_backend [where w = "sample_world\<lparr>w_applied := (\<lambda>_. Inl ''busy'')\<rparr>" and received_at = 0
      and touch = None and i = sample_inbound and
      effects = "[EffKey (keyboard 4) True False, EffSnapshotAck sample_session \<lparr>snapshot_sequence = 3, accepted_generation = 1\<rparr>]"]
  by (simp add: emit_def try_then_def reading_def sample_world_def result_then_def hand_over_def map_err_def log_output_def)
    (simp add: sample_inbound_def)

text \<open>
  Draining the deferred controls ends, and ends as late as it may: the loop is total, and when it
  succeeds the queue is empty or its first control is an anchored one whose motion is not due yet.
\<close>

theorem drain_stops_at_undue_control:
  assumes "drain_pending_controls w now i = (Inr (), i')"
  shows "i_pending i' = [] \<or>
     (\<exists>front rest an. i_pending i' = front # rest \<and> motion_anchor (m_payload (pc_message front)) = Some an \<and>
        i_active_context i' = Some (m_session (pc_message front)) \<and>
        (\<exists>p mapped. i_playout i' = Some p \<and> clock_map (i_clock i') (an_sender_capture_time an) = Inr mapped \<and>
           now < time_saturating_add mapped (current_delay_of p)))"
  using drain_front_not_ready [OF assms]
proof
  assume "\<exists>front rest. i_pending i' = front # rest \<and> pending_control_is_ready front now i' = (Inr False, i')"
  then obtain front rest where f: "i_pending i' = front # rest" "pending_control_is_ready front now i' = (Inr False, i')" by blast
  obtain an p where an: "motion_anchor (m_payload (pc_message front)) = Some an" "i_active_context i' = Some (m_session (pc_message front))"
    "i_playout i' = Some p"
    and due: "anchor_is_due an (pc_receiver_received_at front) (current_delay_of p) now i' = (Inr False, i')"
    using f(2) by (auto simp: pending_control_is_ready_def split: option.splits if_splits)
  obtain mapped where "clock_map (i_clock i') (an_sender_capture_time an) = Inr mapped" "now < time_saturating_add mapped (current_delay_of p)"
    using due by (auto simp: anchor_is_due_def try_then_Inr reading_def map_err_Inr not_le)
  then show ?thesis using f(1) an by blast
qed simp

theorem drain_stops_at_undue_control_witness:
  "drain_pending_controls sample_world 5 sample_inbound = (Inr (), sample_inbound) \<and> i_pending sample_inbound = []"
proof -
  have "drain_pending_controls sample_world 5 sample_inbound = (Inr (), sample_inbound)"
    by (rule drain_nothing) (simp add: sample_inbound_def)
  from drain_stops_at_undue_control [OF this] this show ?thesis
    by (auto simp: sample_inbound_def)
qed

text \<open>
  C15: A quiet session may sleep until its deadline. When no control is deferred and the playout has
  reached its target, a tick before \<open>deadline\<close> changes nothing that anyone can see: nothing is sent or
  injected, no lease runs out, no frame is played and no control is applied. So waking up at the
  deadline, and not every millisecond, loses nothing.
\<close>

theorem quiet_session_sleeps_until_deadline:
  assumes "in_sync i" and "i_pending i = []" and "\<forall>p. i_playout i = Some p \<longrightarrow> p_completed_sequence p = t_sequence (p_target p)"
    and "r_last_observed_time (i_receiver i) \<le> now"
    and "\<forall>p t. i_playout i = Some p \<and> p_last_observed_time p = Some t \<longrightarrow> t \<le> now"
    and "\<forall>d. inbound_deadline sender last_tick_at i = Some d \<longrightarrow> now < d"
  shows "\<exists>i'. inbound_tick w now i = (Inr (), i') \<and> i_sent i' = i_sent i \<and> i_pending i' = [] \<and>
     i_receiver i' = (i_receiver i)\<lparr>r_last_observed_time := now\<rparr> \<and>
     map_option p_queue (i_playout i') = map_option p_queue (i_playout i) \<and>
     map_option p_injected_totals (i_playout i') = map_option p_injected_totals (i_playout i)"
  using quiet_tick [of i now sender last_tick_at w] assms by (auto simp: quiet_def)

theorem quiet_session_sleeps_until_deadline_witness:
  "inbound_deadline None 5 entered_inbound = Some 100000 \<and>
   (\<exists>i'. inbound_tick sample_world 9000 entered_inbound = (Inr (), i') \<and> i_sent i' = i_sent entered_inbound)"
proof -
  have sync: "in_sync entered_inbound"
    using inbound_step_sync [OF inbound_new_sync(1) [OF sample_inbound_new] sample_inbound_enter] .
  have p: "i_playout entered_inbound = Some (fresh_playout\<lparr>p_applied_control_sequence := 1\<rparr>)" "i_pending entered_inbound = []"
    "i_receiver entered_inbound = entered_receiver" "i_next_probe_at entered_inbound = 100000"
    by (simp_all add: entered_inbound_def sample_inbound_def)
  have "inbound_deadline None 5 entered_inbound = Some 100000"
    by (simp add: inbound_deadline_def session_deadline_def p playout_stats_def playout_next_deadline_def fm_values_def
        sorted_list_of_fmap_def List.map_filter_def)
      (simp add: fresh_playout_def lease_deadline_def entered_receiver_def active_context_def)
  then show ?thesis
    using quiet_session_sleeps_until_deadline [OF sync p(2), of 9000 None 5 sample_world]
    by (simp add: p) (auto simp: fresh_playout_def entered_receiver_def)
qed

section \<open>Where the releases get lost\<close>










end
