(* ===== verification/Link.thy ===== *)
theory Link
  imports Outbound Inbound_Run
begin

text \<open>
  The two ends together: the sender of one activation, the control stream, which is reliable and ordered, the
  motion datagrams, which may be lost, repeated and reordered, and the receiver. A frame is played only
  when the controls that were sent before it have been applied, as \<open>mature\<close> of the playout decides.
\<close>

section \<open>What a control does to the held state\<close>

text \<open>
  The abstract state that both ends share: the keys, the buttons and whether something touches. A control
  changes it in one way, or is refused.
\<close>

type_synonym held_view = "HidUsage fset \<times> PointerButton fset \<times> bool"

definition view_of :: "HeldState \<Rightarrow> held_view" where
  "view_of h = (pressed_keys h, pressed_buttons h, touch_is_empty (active_touch h))"

fun control_effect :: "ReliableControl \<Rightarrow> held_view \<Rightarrow> held_view option" where
  "control_effect (KeyDown key) (ks, bs, e) = (if key |\<in>| ks then None else Some (finsert key ks, bs, e))"
| "control_effect (KeyUp key) (ks, bs, e) = (if key |\<in>| ks then Some (ks |-| {|key|}, bs, e) else None)"
| "control_effect (ButtonDown button _) (ks, bs, e) = (if button |\<in>| bs then None else Some (ks, finsert button bs, e))"
| "control_effect (ButtonUp button _) (ks, bs, e) = (if button |\<in>| bs then Some (ks, bs |-| {|button|}, e) else None)"
| "control_effect (TouchBegin t) (ks, bs, e) = (if e \<and> \<not> touch_is_empty t then Some (ks, bs, False) else None)"
| "control_effect (TouchEnd _) (ks, bs, e) = (if e then None else Some (ks, bs, True))"
| "control_effect (TouchCancel _) (ks, bs, e) = (if e then None else Some (ks, bs, True))"
| "control_effect (CtlStateSnapshot snap) v = Some (view_of (sn_held snap))"
| "control_effect (SessionClose _ _) v = Some ({||}, {||}, True)"
| "control_effect Enter v = None"
| "control_effect (CtlSnapshotAck _) v = None"

text \<open>The anchor of a control, if it has one, is in order for its kind and after the motion so far.\<close>

fun anchor_kind_ok :: "ReliableControl \<Rightarrow> bool" where
  "anchor_kind_ok (SessionClose _ (Some an)) \<longleftrightarrow> an_kind an = Terminal"
| "anchor_kind_ok (CtlStateSnapshot snap) \<longleftrightarrow> an_kind (sn_motion_anchor snap) = Checkpoint \<and>
     an_final_touch_state (sn_motion_anchor snap) = active_touch (sn_held snap)"
| "anchor_kind_ok payload \<longleftrightarrow> (\<forall>an. motion_anchor payload = Some an \<longrightarrow> an_kind an = Checkpoint)"

definition anchored ::
  "SessionContext \<Rightarrow> MotionSequence \<Rightarrow> bool \<Rightarrow> ReliableControl \<Rightarrow> bool"
where
  "anchored session through untouched payload \<longleftrightarrow>
     anchor_kind_ok payload \<and>
     (\<forall>an. motion_anchor payload = Some an \<longrightarrow>
        an_activation_id an = activation_id session \<and> an_through_motion_sequence an = through \<and>
        touch_is_empty (an_final_touch_state an) = untouched)"

section \<open>The sender\<close>

definition disciplined :: "SenderOp \<Rightarrow> Sender \<Rightarrow> bool" where
  "disciplined op s \<longleftrightarrow>
     (\<forall>delta t. op = OpCaptureMotion delta (Some t) \<longrightarrow>
        \<not> touch_is_empty t \<and> \<not> touch_is_empty (active_touch (s_held s)))"

text \<open>The frames that the send side makes of captured input are disciplined.\<close>

lemma capture_is_disciplined:
  assumes "op \<in> set (touch_and_motion touch motion s)"
  shows "disciplined op s \<and> (\<forall>delta t. op = OpCaptureMotion delta (Some t) \<longrightarrow> touch_and_motion touch motion s = [op])"
  using assms by (auto simp: touch_and_motion_def disciplined_def Let_def split: option.splits if_splits)

lemma members_are_disciplined: "disciplined (member_op edge) s"
  by (cases edge rule: member_op.cases) (auto simp: disciplined_def)

lemma sender_sends_effect:
  assumes "sender_step op now s = (Inr (OutControl m), s')" and "op \<noteq> OpEnter"
  shows "control_effect (m_payload m) (view_of (s_held s)) = Some (view_of (s_held s')) \<and>
     anchored (s_session s) (s_last_motion_sequence s) (touch_is_empty (active_touch (s_held s))) (m_payload m) \<and>
     s_last_motion_sequence s' = s_last_motion_sequence s \<and> s_remote s"
  using assms
  by (cases op)
    (auto simp: map_out_Inr tick_out_control sender_ops try_then_def Let_def view_of_def anchored_def anchor_def
      touch_is_empty_def split: sender_splits)

lemma sender_sends_enter:
  assumes "sender_step OpEnter now s = (Inr (OutControl m), s')"
  shows "m_payload m = Enter \<and> view_of (s_held s') = ({||}, {||}, True) \<and> s_last_motion_sequence s' = 0 \<and> s_remote s' \<and>
    \<not> s_started s"
  using assms
  by (auto simp: map_out_Inr sender_ops try_then_def Let_def view_of_def touch_is_empty_def split: sender_splits)

lemma sender_keeps_view:
  assumes "sender_step op now s = (Inr out, s')" and "\<forall>m. out \<noteq> OutControl m" and "disciplined op s"
  shows "view_of (s_held s') = view_of (s_held s)" "s_remote s" "s_remote s'" "s_started s' = s_started s"
    "s_last_control_sequence s' = s_last_control_sequence s"
  using assms
  by (cases op; auto simp: map_out_Inr sender_ops try_then_def Let_def view_of_def disciplined_def split: sender_splits)+

section \<open>The receiver\<close>

lemma effect_valid:
  assumes "control_effect payload (view_of h) = Some v" "anchor_kind_ok payload"
  shows "payload_valid h payload"
  using assms by (cases payload) (auto simp: view_of_def split: if_splits option.splits)

lemma effect_anchor:
  assumes "anchored (a_session st) through untouched payload" "a_last_injected_motion st \<le> through"
  shows "anchor_stage payload st \<noteq> Inl (AnchorRejected reason)"
  using assms by (auto simp: anchored_def anchor_stage_def validate_anchor_def result_then_def split: option.splits sum.splits)

lemma anchor_stage_view:
  assumes "anchor_stage payload st = Inr (st1, e1)" "anchored (a_session st) through (touch_is_empty (active_touch (a_held st))) payload"
  shows "view_of (a_held st1) = view_of (a_held st)"
  using assms
  by (auto simp: anchored_def anchor_stage_def result_then_Inr apply_anchor_def Let_def replace_touch_def view_of_def
      split: option.splits if_splits)

lemma apply_payload_view:
  assumes "apply_payload message payload st = Applied st' es None" "control_effect payload (view_of (a_held st)) = Some v"
  shows "view_of (a_held st') = v"
  using assms
  by (cases payload) (auto simp: view_of_def held_ops reconcile_held_eq touch_is_empty_def split: if_splits)

lemma apply_control_effect:
  assumes "apply_control message now r = (Inr es, r')" and "r_activation r = Some st"
    and "control_effect (m_payload message) (view_of (a_held st)) = Some v"
    and "anchored (a_session st) through (touch_is_empty (active_touch (a_held st))) (m_payload message)"
    and "a_last_injected_motion st \<le> through"
  shows "plain es \<and>
    (r_activation r' = None \<or> (\<exists>st'. r_activation r' = Some st' \<and> view_of (a_held st') = v \<and> moves message st st' \<and>
       (\<forall>reason an. m_payload message \<noteq> SessionClose reason an)))"
proof -
  have valid: "validate_transition r (m_payload message)"
    using effect_valid [OF assms(3)] assms(2,4) by (simp add: validate_transition_def anchored_def)
  show ?thesis
  proof (cases "anchor_stage (m_payload message) st")
    case (Inl failure)
    then have "failure = AnchorMotionOverflow" using effect_anchor [OF assms(4,5)] by (cases failure) auto
    then have "es = snd (close_activation CloseMotionOverflow r)" "r' = fst (close_activation CloseMotionOverflow r)"
      using assms(1,2) valid Inl by (auto simp: apply_control_def case_prod_beta)
    then show ?thesis by simp
  next
    case (Inr p)
    obtain st1 e1 where p: "p = (st1, e1)" by fastforce
    note stage = Inr [unfolded p]
    have view: "view_of (a_held st1) = view_of (a_held st)" by (rule anchor_stage_view [OF stage assms(4)])
    from effect_valid [OF assms(3)] assms(4) have "payload_valid (a_held st) (m_payload message)" by (simp add: anchored_def)
    then obtain st2 e2 close where payload: "apply_payload message (m_payload message) st1 = Applied st2 e2 close"
      by (cases "m_payload message") (auto simp: reconcile_held_eq)
    let ?st = "refresh_lease now (held_state_lease (r_config r)) (st2\<lparr>a_last_control_sequence := m_sequence message\<rparr>)"
    have finish: "finish_control close (e1 @ e2) (r\<lparr>r_activation := Some ?st\<rparr>) = (Inr es, r')"
      using assms(1,2) valid stage payload by (simp add: apply_control_def)
    note es = plain_anchor [OF stage] plain_payload [OF payload]
    show ?thesis
    proof (cases close)
      case None
      have "view_of (a_held st2) = v" using apply_payload_view [of message "m_payload message" st1 st2 e2 v] payload None view assms(3) by simp
      moreover have "moves message st ?st"
        using anchor_stage_motion [OF stage] apply_payload_motion [OF payload] apply_payload_session [OF payload]
        by (auto simp: moves_def refresh_lease_def split: option.splits)
      moreover have "m_payload message \<noteq> SessionClose reason an" for reason an using payload None by auto
      ultimately show ?thesis using finish None es by (auto simp: finish_control_def refresh_lease_def)
    next
      case (Some reason)
      then have "es = (e1 @ e2) @ snd (close_activation reason (r\<lparr>r_activation := Some ?st\<rparr>))"
        "r' = fst (close_activation reason (r\<lparr>r_activation := Some ?st\<rparr>))"
        using finish by (simp_all add: finish_control_def case_prod_beta)
      then show ?thesis using es by (simp del: append_assoc)
    qed
  qed
qed

lemma apply_playout_sequences:
  "a_last_control_sequence (fst (apply_playout step totals st)) = a_last_control_sequence st"
  "a_last_injected_motion (fst (apply_playout step totals st)) =
     (if ps_target_reached step then ps_through_sequence step else a_last_injected_motion st)"
  by (auto simp: apply_playout_def Let_def split: option.splits)

text \<open>A playout step of a frame that is in order.\<close>

lemma playout_view:
  assumes "receive_playout_step session step now r = (Inr es, r')" and "r_activation r = Some st" "a_session st = session"
    and "\<forall>t. ps_touch_snapshot step = Some t \<longrightarrow> \<not> touch_is_empty t \<and>
      (\<not> touch_is_empty (active_touch (a_held st)) \<or> ps_through_sequence step \<le> a_last_injected_motion st)"
  shows "(\<forall>s. ActivationClosed s CloseProtocolViolation \<notin> set es) \<and>
    (r_activation r' = None \<or>
     (\<exists>st'. r_activation r' = Some st' \<and> view_of (a_held st') = view_of (a_held st) \<and> a_session st' = session \<and>
        a_last_control_sequence st' = a_last_control_sequence st \<and>
        (a_last_injected_motion st' = a_last_injected_motion st \<or>
         a_last_injected_motion st' = ps_through_sequence step \<and> a_last_injected_motion st < ps_through_sequence step)))"
proof -
  have quiet_close: "ActivationClosed s CloseProtocolViolation \<notin> set (snd (close_activation reason r0))"
    if "reason \<noteq> CloseProtocolViolation" for s reason r0
    using that by (auto simp: close_activation_eq reconcile_effects_def split: option.splits)
  have quiet_playout: "ActivationClosed s CloseProtocolViolation \<notin> set (snd (apply_playout step totals st))" for s totals
    by (auto simp: apply_playout_def Let_def split: option.splits)
  have playout: "view_of (a_held (fst (apply_playout step totals st))) = view_of (a_held st)"
    if "a_last_injected_motion st < ps_through_sequence step" for totals
    using assms(4) that by (auto simp: apply_playout_def Let_def view_of_def replace_touch_def not_less [symmetric] split: option.splits)
  obtain r1 e1 where ex: "expire_lease now (r\<lparr>r_last_observed_time := now\<rparr>) = (r1, e1)" by fastforce
  have e1: "ActivationClosed s CloseProtocolViolation \<notin> set e1" for s
    using ex quiet_close [of CloseLeaseExpired s "r\<lparr>r_last_observed_time := now\<rparr>"]
    by (auto simp: expire_lease_def split: option.splits if_splits)
  show ?thesis
  proof (cases "r_activation r1")
    case None
    then show ?thesis using assms(1) ex e1
      by (auto simp: receive_playout_step_def try_then_def r_observe_time_def Let_def split: if_splits)
  next
    case (Some st1)
    then have r1: "r1 = r\<lparr>r_last_observed_time := now\<rparr>" "e1 = []" "st1 = st"
      using expire_lease_cases [OF ex] assms(2) by auto
    show ?thesis using assms(1,3,4) ex Some r1 quiet_close [of CloseMotionOverflow] quiet_playout playout
      by (auto simp: receive_playout_step_def try_then_def r_observe_time_def case_prod_beta
          apply_playout_simps apply_playout_sequences not_le split: if_splits option.splits sum.splits)
  qed
qed

section \<open>The link\<close>

text \<open>
  A call of the sender that fails is no step: the session drops the sender then, and only the receiver goes on.
  \<open>lk_sent\<close> is the control stream from its start, each control with what the sender holds after it, and
  \<open>lk_delivered\<close> how many of them the receiver has taken; \<open>lk_frames\<close> are the frames sent so far.
\<close>

record Link =
  lk_sender :: Sender
  lk_sent :: "(ReliableControlMessage \<times> HeldState) list"
  lk_delivered :: nat
  lk_frames :: "MotionFrame list"
  lk_receiver :: Receiver

definition plays :: "MotionFrame \<Rightarrow> PlayoutStep \<Rightarrow> Receiver \<Rightarrow> bool" where
  "plays f step r \<longleftrightarrow>
     (\<exists>st. r_activation r = Some st \<and> a_session st = f_session f \<and> f_control_watermark f \<le> a_last_control_sequence st) \<and>
     ps_through_sequence step = f_motion_sequence f \<and>
     (ps_touch_snapshot step = None \<or> ps_touch_snapshot step = f_touch_snapshot f)"

inductive link_step :: "Link \<Rightarrow> Link \<Rightarrow> bool" where
  SendControl: "sender_step op now (lk_sender L) = (Inr (OutControl m), s') \<Longrightarrow>
     link_step L (L\<lparr>lk_sender := s', lk_sent := lk_sent L @ [(m, s_held s')]\<rparr>)"
| SendMotion: "sender_step op now (lk_sender L) = (Inr (OutMotion f), s') \<Longrightarrow> disciplined op (lk_sender L) \<Longrightarrow>
     link_step L (L\<lparr>lk_sender := s', lk_frames := f # lk_frames L\<rparr>)"
| SendNothing: "sender_step op now (lk_sender L) = (Inr OutIdle, s') \<Longrightarrow> link_step L (L\<lparr>lk_sender := s'\<rparr>)"
| Acknowledged: "link_step L (L\<lparr>lk_sender := snd (acknowledge_snapshot ack (lk_sender L))\<rparr>)"
| Deliver: "lk_delivered L < length (lk_sent L) \<Longrightarrow>
     receive_control (fst (lk_sent L ! lk_delivered L)) now (lk_receiver L) = (Inr es, r') \<Longrightarrow>
     link_step L (L\<lparr>lk_delivered := lk_delivered L + 1, lk_receiver := r'\<rparr>)"
| Play: "f \<in> set (lk_frames L) \<Longrightarrow> plays f step (lk_receiver L) \<Longrightarrow>
     receive_playout_step (f_session f) step now (lk_receiver L) = (Inr es, r') \<Longrightarrow>
     link_step L (L\<lparr>lk_receiver := r'\<rparr>)"
| Idle: "receiver_step op now (lk_receiver L) = (Inr es, r') \<Longrightarrow> op = RTick \<or> op = RConnectionLost \<Longrightarrow>
     link_step L (L\<lparr>lk_receiver := r'\<rparr>)"

definition link_start :: "Sender \<Rightarrow> Receiver \<Rightarrow> Link" where
  "link_start s r = \<lparr>lk_sender = s, lk_sent = [], lk_delivered = 0, lk_frames = [], lk_receiver = r\<rparr>"

text \<open>A new sender and a receiver that has not seen its activation; an older one may be open.\<close>

inductive link_reachable :: "Link \<Rightarrow> bool" where
  Start: "sender_new config session now = Inr s \<Longrightarrow> receiver_wf r \<Longrightarrow>
     (\<forall>h. r_highest_activation r = Some h \<longrightarrow> h < activation_id session) \<Longrightarrow> link_reachable (link_start s r)"
| Step: "link_reachable L \<Longrightarrow> link_step L L' \<Longrightarrow> link_reachable L'"

section \<open>The stream and the sender\<close>

abbreviation view_at :: "(ReliableControlMessage \<times> HeldState) list \<Rightarrow> nat \<Rightarrow> held_view" where
  "view_at sent i \<equiv> view_of (snd (sent ! i))"

abbreviation untouched_at :: "(ReliableControlMessage \<times> HeldState) list \<Rightarrow> nat \<Rightarrow> bool" where
  "untouched_at sent i \<equiv> touch_is_empty (active_touch (snd (sent ! i)))"

abbreviation anchor_at :: "(ReliableControlMessage \<times> HeldState) list \<Rightarrow> nat \<Rightarrow> MotionAnchor option" where
  "anchor_at sent i \<equiv> motion_anchor (m_payload (fst (sent ! i)))"

definition message_ok :: "SessionContext \<Rightarrow> (ReliableControlMessage \<times> HeldState) list \<Rightarrow> nat \<Rightarrow> bool" where
  "message_ok session sent i \<longleftrightarrow>
     m_session (fst (sent ! i)) = session \<and> unat (m_sequence (fst (sent ! i))) = i + 1 \<and>
     (if i = 0 then m_payload (fst (sent ! 0)) = Enter \<and> view_at sent 0 = ({||}, {||}, True)
      else control_effect (m_payload (fst (sent ! i))) (view_at sent (i - 1)) = Some (view_at sent i) \<and>
        (\<exists>through. anchored session through (untouched_at sent (i - 1)) (m_payload (fst (sent ! i)))))"

definition stream_ok :: "SessionContext \<Rightarrow> (ReliableControlMessage \<times> HeldState) list \<Rightarrow> bool" where
  "stream_ok session sent \<longleftrightarrow> (\<forall>i < length sent. message_ok session sent i)"

text \<open>A motion sequence that no later anchor falls behind.\<close>

definition before_anchors :: "(ReliableControlMessage \<times> HeldState) list \<Rightarrow> nat \<Rightarrow> MotionSequence \<Rightarrow> bool" where
  "before_anchors sent d q \<longleftrightarrow>
     (\<forall>i an. d \<le> i \<longrightarrow> i < length sent \<longrightarrow> anchor_at sent i = Some an \<longrightarrow> q \<le> an_through_motion_sequence an)"

definition frame_ok :: "SessionContext \<Rightarrow> (ReliableControlMessage \<times> HeldState) list \<Rightarrow> MotionFrame \<Rightarrow> bool" where
  "frame_ok session sent f \<longleftrightarrow>
     f_session f = session \<and> 0 < unat (f_control_watermark f) \<and> unat (f_control_watermark f) \<le> length sent \<and>
     before_anchors sent (unat (f_control_watermark f)) (f_motion_sequence f) \<and>
     (\<forall>t. f_touch_snapshot f = Some t \<longrightarrow>
        \<not> touch_is_empty t \<and> \<not> untouched_at sent (unat (f_control_watermark f) - 1))"

definition sending_ok :: "Link \<Rightarrow> bool" where
  "sending_ok L \<longleftrightarrow>
     (let s = lk_sender L; sent = lk_sent L in
      sender_wf s \<and> length sent = unat (s_last_control_sequence s) \<and> stream_ok (s_session s) sent \<and>
      (\<not> s_started s \<longrightarrow> sent = [] \<and> lk_frames L = []) \<and>
      (s_remote s \<longrightarrow> sent \<noteq> [] \<and> view_of (s_held s) = view_at sent (length sent - 1)) \<and>
      (\<forall>i an. i < length sent \<longrightarrow> anchor_at sent i = Some an \<longrightarrow> an_through_motion_sequence an \<le> s_last_motion_sequence s \<and>
         before_anchors sent i (an_through_motion_sequence an)) \<and>
      (\<forall>f \<in> set (lk_frames L). frame_ok (s_session s) sent f \<and> f_motion_sequence f \<le> s_last_motion_sequence s))"

lemma message_ok_append [simp]: "i < length sent \<Longrightarrow> message_ok session (sent @ xs) i = message_ok session sent i"
  by (auto simp: message_ok_def nth_append)

lemma before_anchors_end [simp]: "length sent \<le> d \<Longrightarrow> before_anchors sent d q"
  by (simp add: before_anchors_def)

lemma before_anchors_later: "before_anchors sent d q \<Longrightarrow> d \<le> d' \<Longrightarrow> before_anchors sent d' q"
  unfolding before_anchors_def by (meson order_trans)

lemma before_anchors_snoc:
  "before_anchors (sent @ [x]) d q \<longleftrightarrow> before_anchors sent d q \<and>
     (d \<le> length sent \<longrightarrow> (\<forall>an. motion_anchor (m_payload (fst x)) = Some an \<longrightarrow> q \<le> an_through_motion_sequence an))"
  by (auto simp: before_anchors_def nth_append less_Suc_eq)

lemma frame_ok_append:
  assumes "frame_ok session sent f" "\<forall>an. motion_anchor (m_payload m) = Some an \<longrightarrow> f_motion_sequence f \<le> an_through_motion_sequence an"
  shows "frame_ok session (sent @ [(m, h)]) f"
  using assms by (auto simp: frame_ok_def before_anchors_snoc nth_append)

lemma stream_ok_snoc:
  "stream_ok session (sent @ [x]) \<longleftrightarrow> stream_ok session sent \<and> message_ok session (sent @ [x]) (length sent)"
  by (auto simp: stream_ok_def less_Suc_eq)

lemma sender_step_keeps:
  assumes "sender_step op now s = (res, s')"
  shows "s_session s' = s_session s" "sender_wf s \<Longrightarrow> sender_wf s'"
  using sender_step_session [of op now s] sender_step_wf [of s op now] unfolding assms by simp_all

lemma sending_enter:
  assumes "sending_ok L" "sender_step OpEnter now (lk_sender L) = (Inr (OutControl m), s')"
  shows "sending_ok (L\<lparr>lk_sender := s', lk_sent := lk_sent L @ [(m, s_held s')]\<rparr>)"
proof -
  note e = sender_sends_enter [OF assms(2)] and c = sender_step_control [OF assms(2)]
  have empty: "lk_sent L = []" "lk_frames L = []" using assms(1) e by (auto simp: sending_ok_def Let_def)
  have "sender_wf s'" using sender_step_keeps(2) [OF assms(2)] assms(1) by (simp add: sending_ok_def Let_def)
  moreover have "unat (m_sequence m) = 1" using c assms(1) empty by (simp add: sending_ok_def Let_def checked_succ_u64)
  ultimately show ?thesis
    using e c empty sender_step_keeps(1) [OF assms(2)] by (auto simp: sending_ok_def Let_def stream_ok_def message_ok_def sender_wf_def)
qed

lemma sending_control:
  assumes "sending_ok L" "sender_step op now (lk_sender L) = (Inr (OutControl m), s')" "op \<noteq> OpEnter"
  shows "sending_ok (L\<lparr>lk_sender := s', lk_sent := lk_sent L @ [(m, s_held s')]\<rparr>)"
proof -
  let ?s = "lk_sender L"
  note e = sender_sends_effect [OF assms(2,3)] and c = sender_step_control [OF assms(2)]
  have session: "s_session s' = s_session ?s" by (rule sender_step_keeps(1) [OF assms(2)])
  have wf: "sender_wf s'" using sender_step_keeps(2) [OF assms(2)] assms(1) by (simp add: sending_ok_def Let_def)
  have ne: "lk_sent L \<noteq> []" and view: "view_of (s_held ?s) = view_at (lk_sent L) (length (lk_sent L) - 1)"
    and len: "length (lk_sent L) = unat (s_last_control_sequence ?s)" "unat (m_sequence m) = length (lk_sent L) + 1"
    using assms(1) e c by (auto simp: sending_ok_def Let_def checked_succ_u64)
  have through: "an_through_motion_sequence an = s_last_motion_sequence ?s" if "motion_anchor (m_payload m) = Some an" for an
    using e that by (auto simp: anchored_def)
  have untouched: "touch_is_empty (active_touch (s_held ?s)) = untouched_at (lk_sent L) (length (lk_sent L) - 1)"
    using view by (simp add: view_of_def)
  have "message_ok (s_session ?s) (lk_sent L @ [(m, s_held s')]) (length (lk_sent L))"
    using e c ne view len untouched by (auto simp: message_ok_def nth_append)
  moreover have "frame_ok (s_session ?s) (lk_sent L @ [(m, s_held s')]) f" if "f \<in> set (lk_frames L)" for f
    using that assms(1) through by (intro frame_ok_append) (auto simp: sending_ok_def Let_def)
  moreover have "s_started s'" using assms(1) e ne wf
    by (cases op) (use assms(2,3) in \<open>auto simp: map_out_Inr tick_out_control sender_ops try_then_def Let_def sender_wf_def sending_ok_def split: sender_splits\<close>)
  ultimately show ?thesis
    using assms(1) wf session e c len through
    by (auto simp: sending_ok_def Let_def stream_ok_snoc nth_append less_Suc_eq before_anchors_snoc)
qed

end
