(* ===== verification/Link_Run.thy ===== *)
theory Link_Run
  imports Link
begin

text \<open>
  The invariant of the link: every control in the stream changes the abstract held state, every frame lies
  before the anchors that follow it, and the receiver is before, at or past the point of the stream that it
  has taken. Every step keeps it.
\<close>

lemma sender_step_motion_op:
  "sender_step op now s = (Inr (OutMotion f), s') \<Longrightarrow>
     \<exists>delta touch. op = OpCaptureMotion delta touch \<and> capture_motion delta touch now s = (Inr f, s')"
  by (cases op) (auto simp: map_out_Inr)

lemma sending_motion:
  assumes "sending_ok L" "sender_step op now (lk_sender L) = (Inr (OutMotion f), s')" "disciplined op (lk_sender L)"
  shows "sending_ok (L\<lparr>lk_sender := s', lk_frames := f # lk_frames L\<rparr>)"
proof -
  let ?s = "lk_sender L"
  obtain delta touch where op: "op = OpCaptureMotion delta touch" and cap: "capture_motion delta touch now ?s = (Inr f, s')"
    using sender_step_motion_op [OF assms(2)] by blast
  note c = capture_motion_Inr [OF cap]
  have le: "s_last_motion_sequence ?s \<le> f_motion_sequence f" using c by (auto simp: checked_succ_u64 word_le_nat_alt)
  have wf: "sender_wf s'" using sender_step_keeps(2) [OF assms(2)] assms(1) by (simp add: sending_ok_def Let_def)
  have ne: "lk_sent L \<noteq> []" and len: "length (lk_sent L) = unat (s_last_control_sequence ?s)"
    using assms(1) c by (auto simp: sending_ok_def Let_def)
  note k = sender_keeps_view [OF assms(2) _ assms(3)]
  have "\<not> untouched_at (lk_sent L) (length (lk_sent L) - 1)" if "touch = Some t" for t
    using assms(1,3) k(2) that op by (auto simp: sending_ok_def Let_def view_of_def disciplined_def)
  moreover have "0 < length (lk_sent L)" using ne by simp
  ultimately have "frame_ok (s_session ?s) (lk_sent L) f"
    using c len assms(3) op unfolding frame_ok_def by (auto simp: before_anchors_def disciplined_def)
  then show ?thesis
    using assms(1) wf ne len c k le sender_step_keeps(1) [OF assms(2)]
    by (auto simp: sending_ok_def Let_def intro: order_trans [OF _ le])
qed

lemma sending_nothing:
  assumes "sending_ok L" "sender_step op now (lk_sender L) = (Inr OutIdle, s')"
  shows "sending_ok (L\<lparr>lk_sender := s'\<rparr>)"
proof -
  have op: "op = OpTick" using assms(2) by (cases op) (auto simp: map_out_Inr)
  note k = sender_keeps_view [OF assms(2)]
  have "s_last_motion_sequence s' = s_last_motion_sequence (lk_sender L)"
    using sender_step_totals [of op now "lk_sender L", unfolded assms(2)] op by simp
  then show ?thesis
    using assms(1) op k sender_step_keeps [OF assms(2)] by (auto simp: sending_ok_def Let_def disciplined_def)
qed

lemma sending_ack: "sending_ok L \<Longrightarrow> sending_ok (L\<lparr>lk_sender := snd (acknowledge_snapshot ack (lk_sender L))\<rparr>)"
  using acknowledge_wf [of "lk_sender L" ack]
  by (auto simp: sending_ok_def Let_def acknowledge_snapshot_def split: option.splits)



section \<open>The receiver along the stream\<close>

definition tracking :: "(ReliableControlMessage \<times> HeldState) list \<Rightarrow> MotionFrame list \<Rightarrow> nat \<Rightarrow> ActivationState \<Rightarrow> bool" where
  "tracking sent frames d st \<longleftrightarrow>
     0 < d \<and> d \<le> length sent \<and> unat (a_last_control_sequence st) = d \<and>
     view_of (a_held st) = view_at sent (d - 1) \<and> before_anchors sent d (a_last_injected_motion st) \<and>
     (\<forall>f \<in> set frames. unat (f_control_watermark f) \<le> d \<longrightarrow> f_touch_snapshot f \<noteq> None \<longrightarrow>
        f_motion_sequence f \<le> a_last_injected_motion st \<or> \<not> untouched_at sent (d - 1))"

definition receiving_ok :: "Link \<Rightarrow> bool" where
  "receiving_ok L \<longleftrightarrow>
     (let session = s_session (lk_sender L); r = lk_receiver L in
      receiver_wf r \<and>
      (lk_delivered L = 0 \<and> (\<forall>h. r_highest_activation r = Some h \<longrightarrow> h < activation_id session) \<or>
       is_closed r (activation_id session) \<or>
       (\<exists>st. r_activation r = Some st \<and> a_session st = session \<and>
          a_last_injected_motion st \<le> s_last_motion_sequence (lk_sender L) \<and>
          tracking (lk_sent L) (lk_frames L) (lk_delivered L) st)))"

lemma effect_untouches:
  assumes "control_effect payload (view_of h) = Some (view_of h')" "\<not> touch_is_empty (active_touch h)" "touch_is_empty (active_touch h')"
  shows "motion_anchor payload \<noteq> None \<or> (\<exists>reason an. payload = SessionClose reason an)"
  using assms by (cases payload) (auto simp: view_of_def split: if_splits)

lemma tracking_moves:
  assumes track: "tracking sent frames d st" and d: "d < length sent" and ok: "message_ok session sent d"
    and frames: "\<forall>f \<in> set frames. frame_ok session sent f"
    and move: "moves (fst (sent ! d)) st st'" "view_of (a_held st') = view_at sent d"
    and no_close: "\<forall>reason an. m_payload (fst (sent ! d)) \<noteq> SessionClose reason an"
    and mono: "\<forall>an. anchor_at sent d = Some an \<longrightarrow> before_anchors sent d (an_through_motion_sequence an)"
  shows "tracking sent frames (d + 1) st'"
proof -
  have "f_motion_sequence f \<le> a_last_injected_motion st' \<or> \<not> untouched_at sent d"
    if f: "f \<in> set frames" "unat (f_control_watermark f) \<le> d + 1" "f_touch_snapshot f \<noteq> None" for f
  proof (cases "unat (f_control_watermark f) = d + 1")
    case True
    then show ?thesis using frames f by (fastforce simp: frame_ok_def)
  next
    case False
    then have le: "unat (f_control_watermark f) \<le> d" using f(2) by simp
    show ?thesis
    proof (cases "anchor_at sent d")
      case None
      have "control_effect (m_payload (fst (sent ! d))) (view_at sent (d - 1)) = Some (view_at sent d)"
        using ok track by (auto simp: message_ok_def tracking_def)
      from effect_untouches [OF this] None no_close
      have "untouched_at sent (d - 1) \<or> \<not> untouched_at sent d" by blast
      moreover have "a_last_injected_motion st' = a_last_injected_motion st" using move(1) None by (simp add: moves_def)
      ultimately show ?thesis using track f le by (auto simp: tracking_def)
    next
      case (Some an)
      then have "f_motion_sequence f \<le> an_through_motion_sequence an"
        using frames f(1) le d by (auto simp: frame_ok_def before_anchors_def)
      then show ?thesis using move(1) Some by (simp add: moves_def)
    qed
  qed
  moreover have "before_anchors sent (d + 1) (a_last_injected_motion st')"
    using track move(1) mono d by (auto simp: before_anchors_def tracking_def moves_def split: option.splits dest!: Suc_leD)
  moreover have "unat (a_last_control_sequence st') = d + 1" using move(1) ok by (simp add: moves_def message_ok_def)
  ultimately show ?thesis using move(2) d by (auto simp: tracking_def)
qed


text \<open>What the peer must not be blamed for: nothing that aborts the session.\<close>

definition harmless :: "ReceiverEffect list \<Rightarrow> bool" where
  "harmless es \<longleftrightarrow>
     (\<forall>session reason. Rejected session reason \<in> set es \<longrightarrow> \<not> fatal_rejection reason) \<and>
     (\<forall>session. ActivationClosed session CloseProtocolViolation \<notin> set es)"

lemma expire_closed: "expire_lease now r = (r1, e1) \<Longrightarrow> is_closed r a \<Longrightarrow> is_closed r1 a"
  by (auto simp: expire_lease_def close_activation_eq is_closed_def split: option.splits if_splits)

lemma deliver_closed:
  assumes "receive_control m now r = (Inr es, r')" "is_closed r (activation_id (m_session m))"
  shows "is_closed r' (activation_id (m_session m)) \<and> (\<forall>session reason. Rejected session reason \<in> set es \<longrightarrow> \<not> fatal_rejection reason)"
  using assms(1)
proof (cases rule: receive_control_cases)
  case (accepted r0)
  obtain r1 e1 where ex: "expire_lease now r0 = (r1, e1)" by fastforce
  have "is_closed r0 (activation_id (m_session m))" using assms(2) by (simp add: accepted(2) is_closed_def)
  then have closed: "is_closed r1 (activation_id (m_session m))" by (rule expire_closed [OF ex])
  moreover have "Rejected session reason \<notin> set e1" for session reason
    using plain_expire [OF ex] by (auto simp: plain_def list_ex_iff)
  ultimately show ?thesis using accepted(4) ex by (auto simp: control_body_def receive_enter_def Let_def split: if_splits)
qed simp

lemma expire_highest: "expire_lease now r = (r1, e1) \<Longrightarrow> r_highest_activation r1 = r_highest_activation r"
  using expire_lease_simps(4) [of now r] by simp

lemma expire_harmless: "expire_lease now r = (r1, e1) \<Longrightarrow> harmless e1"
  by (auto simp: expire_lease_def close_activation_eq reconcile_effects_def harmless_def split: option.splits if_splits)

lemma harmless_append [simp]: "harmless (es @ fs) \<longleftrightarrow> harmless es \<and> harmless fs"
  by (auto simp: harmless_def)

lemma harmless_rejected [simp]: "harmless [Rejected session reason] \<longleftrightarrow> \<not> fatal_rejection reason"
  by (auto simp: harmless_def)

lemma harmless_opened [simp]: "harmless [ActivationOpened session]"
  by (simp add: harmless_def)

lemma harmless_close: "reason \<noteq> CloseProtocolViolation \<Longrightarrow> harmless (snd (close_activation reason r))"
  by (auto simp: close_activation_eq reconcile_effects_def harmless_def split: option.splits)

text \<open>The first control of the stream opens the activation.\<close>

lemma deliver_enter:
  assumes "receive_control m now r = (Inr es, r')" "m_payload m = Enter" "m_sequence m = 1"
    and "\<forall>h. r_highest_activation r = Some h \<longrightarrow> h < activation_id (m_session m)"
  shows "harmless es \<and> (\<exists>st. r_activation r' = Some st \<and> a_session st = m_session m \<and> a_last_control_sequence st = 1 \<and>
     view_of (a_held st) = ({||}, {||}, True) \<and> a_last_injected_motion st = 0)"
  using assms(1)
proof (cases rule: receive_control_cases)
  case (accepted r0)
  obtain r1 e1 where ex: "expire_lease now r0 = (r1, e1)" by fastforce
  have "r_highest_activation r1 = r_highest_activation r"
    using expire_highest [OF ex] by (simp add: accepted(2))
  then have "\<not> is_closed r1 (activation_id (m_session m))" "\<forall>h. r_highest_activation r1 = Some h \<longrightarrow> h < activation_id (m_session m)"
    using assms(4) by (auto simp: is_closed_def not_le split: option.split)
  then show ?thesis
    using accepted(4) ex assms(2,3) expire_harmless [OF ex] harmless_close [of CloseSuperseded r1]
    by (auto simp: control_body_def receive_enter_def Let_def refresh_lease_def activation_new_def view_of_def touch_is_empty_def
      not_le case_prod_beta split: if_splits option.splits)
qed simp

text \<open>A later control, while the activation is open.\<close>

lemma deliver_open:
  assumes "receive_control m now r = (Inr es, r')" "r_activation r = Some st" "m_session m = a_session st" "receiver_wf r"
    and "checked_add_u64 (a_last_control_sequence st) 1 = Some (m_sequence m)"
    and "control_effect (m_payload m) (view_of (a_held st)) = Some v"
    and "anchored (a_session st) through (touch_is_empty (active_touch (a_held st))) (m_payload m)"
    and "\<forall>an. motion_anchor (m_payload m) = Some an \<longrightarrow> a_last_injected_motion st \<le> an_through_motion_sequence an"
  shows "(\<forall>session reason. Rejected session reason \<in> set es \<longrightarrow> \<not> fatal_rejection reason) \<and>
    (r_activation r' = None \<or> (\<exists>st'. r_activation r' = Some st' \<and> view_of (a_held st') = v \<and> moves m st st' \<and>
       (\<forall>reason an. m_payload m \<noteq> SessionClose reason an)))"
  using assms(1)
proof (cases rule: receive_control_cases)
  case (accepted r0)
  obtain r1 e1 where ex: "expire_lease now r0 = (r1, e1)" by fastforce
  have quiet: "Rejected session reason \<notin> set e1" for session reason
    using plain_expire [OF ex] by (auto simp: plain_def list_ex_iff)
  have ne: "m_payload m \<noteq> Enter" using assms(6) by auto
  have high: "r_highest_activation r1 = Some (activation_id (m_session m))"
    using expire_highest [OF ex] assms(2,3,4) by (simp add: accepted(2) receiver_wf_def activation_wf_def)
  show ?thesis
  proof (cases "r_activation r1")
    case None
    then have "is_closed r1 (activation_id (m_session m))" using high by (simp add: is_closed_def)
    then show ?thesis using accepted(4) ex ne quiet None by (auto simp: control_body_def)
  next
    case (Some st1)
    then have r1: "r1 = r0" "st1 = st" using expire_lease_cases [OF ex] assms(2) by (auto simp: accepted(2))
    have "\<not> is_closed r1 (activation_id (m_session m))" using Some r1 assms(3) by (simp add: is_closed_def)
    moreover have "sequence_rejection (a_last_control_sequence st) (m_sequence m) = None"
      using assms(5) by (auto simp: sequence_rejection_def checked_succ_u64 word_le_nat_alt)
    ultimately obtain e2 where ap: "apply_control m now r1 = (Inr e2, r')" "es = e1 @ e2"
      using accepted(4) ex ne Some r1 assms(3) by (auto simp: control_body_def split: prod.splits sum.splits)
    have through: "anchored (a_session st) through' (touch_is_empty (active_touch (a_held st))) (m_payload m) \<and> a_last_injected_motion st \<le> through'"
      if "through' = (if motion_anchor (m_payload m) = None then a_last_injected_motion st else through)" for through'
      using assms(7,8) that by (cases "motion_anchor (m_payload m)") (auto simp: anchored_def)
    have "plain e2 \<and> (r_activation r' = None \<or> (\<exists>st'. r_activation r' = Some st' \<and> view_of (a_held st') = v \<and> moves m st st' \<and>
       (\<forall>reason an. m_payload m \<noteq> SessionClose reason an)))"
      using apply_control_effect [OF ap(1), of st v] Some r1(2) assms(6) through [OF refl] by blast
    then show ?thesis using ap(2) quiet by (auto simp: plain_def list_ex_iff)
  qed
qed simp

lemma is_closed_step:
  assumes "receiver_step op now r = (Inr es, r')" "is_closed r a" shows "is_closed r' a"
  using is_closed_outcome [OF receiver_step_outcome [OF assms(1)] assms(2)] .

lemma highest_closed:
  assumes "r_highest_activation r' = Some a" "r_activation r' = None" shows "is_closed r' a"
  using assms by (simp add: is_closed_def)

text \<open>Delivering the next control.\<close>

lemma receiving_deliver:
  assumes "sending_ok L" "receiving_ok L" "lk_delivered L < length (lk_sent L)"
    and "receive_control (fst (lk_sent L ! lk_delivered L)) now (lk_receiver L) = (Inr es, r')"
  shows "receiving_ok (L\<lparr>lk_delivered := lk_delivered L + 1, lk_receiver := r'\<rparr>) \<and>
    (\<forall>session reason. Rejected session reason \<in> set es \<longrightarrow> \<not> fatal_rejection reason)"
proof -
  define m where "m = fst (lk_sent L ! lk_delivered L)"
  let ?sent = "lk_sent L" and ?d = "lk_delivered L" and ?r = "lk_receiver L" and ?session = "s_session (lk_sender L)"
  have ok: "message_ok ?session ?sent ?d" using assms(1,3) by (simp add: sending_ok_def Let_def stream_ok_def)
  have m: "m_session m = ?session" "unat (m_sequence m) = ?d + 1" using ok by (simp_all add: message_ok_def m_def)
  have step: "receiver_step (RControl m) now ?r = (Inr es, r')" using assms(4) by (simp add: m_def)
  have wf: "receiver_wf r'" using receiver_step_wf [OF _ step] assms(2) by (simp add: receiving_ok_def Let_def)
  consider (Fresh) "?d = 0" "\<forall>h. r_highest_activation ?r = Some h \<longrightarrow> h < activation_id ?session"
    | (Shut) "is_closed ?r (activation_id ?session)"
    | (Live) st where "r_activation ?r = Some st" "a_session st = ?session"
        "a_last_injected_motion st \<le> s_last_motion_sequence (lk_sender L)" "tracking ?sent (lk_frames L) ?d st"
    using assms(2) by (auto simp: receiving_ok_def Let_def)
  then show ?thesis
  proof cases
    case Fresh
    have "m_payload m = Enter" "view_at ?sent 0 = ({||}, {||}, True)" using ok Fresh(1) by (auto simp: message_ok_def m_def)
    moreover have "m_sequence m = 1" using m(2) Fresh(1) by (simp add: word_unat_eq_iff)
    ultimately obtain st where st: "harmless es" "r_activation r' = Some st" "a_session st = ?session" "a_last_control_sequence st = 1"
      "view_of (a_held st) = view_at ?sent 0" "a_last_injected_motion st = 0"
      using deliver_enter [of m now ?r es r'] assms(4) Fresh(2) m(1) by (auto simp: m_def)
    have "\<not> untouched_at ?sent 0" if "f \<in> set (lk_frames L)" "unat (f_control_watermark f) \<le> 1" "f_touch_snapshot f \<noteq> None" for f
      using assms(1) that by (fastforce simp: sending_ok_def Let_def frame_ok_def)
    then have "tracking ?sent (lk_frames L) 1 st" using st assms(3) Fresh(1) by (auto simp: tracking_def before_anchors_def Suc_le_eq)
    then show ?thesis using st wf Fresh(1) by (auto simp: receiving_ok_def Let_def harmless_def)
  next
    case Shut
    then show ?thesis using deliver_closed [of m now ?r es r'] assms(4) m(1) wf by (simp add: m_def receiving_ok_def Let_def)
  next
    case Live
    have d: "0 < ?d" "unat (a_last_control_sequence st) = ?d" "view_of (a_held st) = view_at ?sent (?d - 1)"
      "before_anchors ?sent ?d (a_last_injected_motion st)"
      using Live(4) by (simp_all add: tracking_def)
    obtain through where eff: "control_effect (m_payload m) (view_of (a_held st)) = Some (view_at ?sent ?d)"
      "anchored ?session through (untouched_at ?sent (?d - 1)) (m_payload m)"
      using ok d(1,3) by (auto simp: message_ok_def m_def)
    have untouched: "untouched_at ?sent (?d - 1) = touch_is_empty (active_touch (a_held st))" using d(3) by (simp add: view_of_def)
    have seq: "checked_add_u64 (a_last_control_sequence st) 1 = Some (m_sequence m)" using d(2) m(2) by (simp add: checked_succ_u64)
    have anchors: "\<forall>an. motion_anchor (m_payload m) = Some an \<longrightarrow> a_last_injected_motion st \<le> an_through_motion_sequence an"
      using d(4) assms(3) by (auto simp: before_anchors_def m_def)
    from deliver_open [OF _ Live(1) _ _ seq eff(1) _ anchors, of now es r' through] assms(2,4) m(1) Live(2) eff(2) untouched
    have quiet: "\<forall>session reason. Rejected session reason \<in> set es \<longrightarrow> \<not> fatal_rejection reason"
      and moved: "r_activation r' = None \<or> (\<exists>st'. r_activation r' = Some st' \<and> view_of (a_held st') = view_at ?sent ?d \<and> moves m st st' \<and>
         (\<forall>reason an. m_payload m \<noteq> SessionClose reason an))"
      by (simp_all add: m_def receiving_ok_def Let_def)
    show ?thesis
    proof (cases "r_activation r'")
      case None
      have "r_highest_activation ?r = Some (activation_id ?session)"
        using assms(2) Live(1,2) by (simp add: receiving_ok_def Let_def receiver_wf_def activation_wf_def)
      moreover have "highest_grows ?r r'" using receiver_step_outcome [OF step] by (simp add: outcome_def)
      ultimately have "is_closed r' (activation_id ?session)" using None by (auto simp: highest_grows_def is_closed_def)
      then show ?thesis using quiet wf by (simp add: receiving_ok_def Let_def)
    next
      case (Some st')
      then have st': "view_of (a_held st') = view_at ?sent ?d" "moves m st st'"
        and no_close: "\<forall>reason an. m_payload m \<noteq> SessionClose reason an" using moved by auto
      have "tracking ?sent (lk_frames L) (?d + 1) st'"
        using tracking_moves [OF Live(4) assms(3) ok, of st'] st' no_close assms(1,3)
        by (auto simp: sending_ok_def Let_def m_def)
      moreover have "a_last_injected_motion st' \<le> s_last_motion_sequence (lk_sender L)"
        using st'(2) Live(3) assms(1,3) by (auto simp: moves_def m_def sending_ok_def Let_def split: option.splits)
      moreover have "a_session st' = ?session" using st'(2) Live(2) by (simp add: moves_def)
      ultimately show ?thesis using Some quiet wf by (simp add: receiving_ok_def Let_def)
    qed
  qed
qed


text \<open>A frame that is played, and time that passes.\<close>

lemma receiving_cases:
  assumes "receiving_ok L"
  obtains (Fresh) "lk_delivered L = 0" "\<forall>h. r_highest_activation (lk_receiver L) = Some h \<longrightarrow> h < activation_id (s_session (lk_sender L))"
    | (Shut) "is_closed (lk_receiver L) (activation_id (s_session (lk_sender L)))"
    | (Live) st where "r_activation (lk_receiver L) = Some st" "a_session st = s_session (lk_sender L)"
        "a_last_injected_motion st \<le> s_last_motion_sequence (lk_sender L)" "tracking (lk_sent L) (lk_frames L) (lk_delivered L) st"
  using assms by (auto simp: receiving_ok_def Let_def)

lemma live_highest:
  assumes "receiving_ok L" "r_activation (lk_receiver L) = Some st" "a_session st = s_session (lk_sender L)"
  shows "r_highest_activation (lk_receiver L) = Some (activation_id (s_session (lk_sender L)))"
  using assms by (simp add: receiving_ok_def Let_def receiver_wf_def activation_wf_def)

lemma receiving_closed:
  assumes "receiving_ok L" "receiver_step op now (lk_receiver L) = (Inr es, r')" "r_activation r' = None"
    and "r_activation (lk_receiver L) = Some st" "a_session st = s_session (lk_sender L)"
  shows "is_closed r' (activation_id (s_session (lk_sender L)))"
  using receiver_step_outcome [OF assms(2)] live_highest [OF assms(1,4,5)] assms(3)
  by (auto simp: outcome_def highest_grows_def is_closed_def)

lemma receiving_play:
  assumes "sending_ok L" "receiving_ok L" "f \<in> set (lk_frames L)" "plays f step (lk_receiver L)"
    and "receive_playout_step (f_session f) step now (lk_receiver L) = (Inr es, r')"
  shows "receiving_ok (L\<lparr>lk_receiver := r'\<rparr>) \<and> (\<forall>session. ActivationClosed session CloseProtocolViolation \<notin> set es)"
proof -
  let ?session = "s_session (lk_sender L)" and ?r = "lk_receiver L"
  have f: "f_session f = ?session" "frame_ok ?session (lk_sent L) f" "f_motion_sequence f \<le> s_last_motion_sequence (lk_sender L)"
    using assms(1,3) by (auto simp: sending_ok_def Let_def frame_ok_def)
  have step: "receiver_step (RPlayout ?session step) now ?r = (Inr es, r')" using assms(5) f(1) by simp
  have wf: "receiver_wf r'" using receiver_step_wf [OF _ step] assms(2) by (simp add: receiving_ok_def Let_def)
  obtain st where st: "r_activation ?r = Some st" "f_control_watermark f \<le> a_last_control_sequence st"
    "ps_through_sequence step = f_motion_sequence f" "ps_touch_snapshot step = None \<or> ps_touch_snapshot step = f_touch_snapshot f"
    using assms(4) by (auto simp: plays_def)
  have True: "a_session st = ?session" using assms(4) st(1) f(1) by (auto simp: plays_def)
  then have track: "tracking (lk_sent L) (lk_frames L) (lk_delivered L) st" "a_last_injected_motion st \<le> s_last_motion_sequence (lk_sender L)"
      using live_highest [OF assms(2) st(1) True] st(1) True
    by (cases rule: receiving_cases [OF assms(2)]; auto simp: is_closed_def)+
    have le: "unat (f_control_watermark f) \<le> lk_delivered L" using st(2) track(1) by (simp add: tracking_def word_le_nat_alt)
    have touch: "\<forall>t. ps_touch_snapshot step = Some t \<longrightarrow> \<not> touch_is_empty t \<and>
      (\<not> touch_is_empty (active_touch (a_held st)) \<or> ps_through_sequence step \<le> a_last_injected_motion st)"
      using st(3,4) f(2) le track(1) assms(3) by (auto simp: frame_ok_def tracking_def view_of_def)
    note played = playout_view [OF assms(5) st(1) _ touch]
    show ?thesis
    proof (cases "r_activation r'")
      case None
      then show ?thesis using receiving_closed [OF assms(2) step None st(1) True] played True f(1) wf
        by (simp add: receiving_ok_def Let_def)
    next
      case (Some st')
      have bound: "before_anchors (lk_sent L) (lk_delivered L) (f_motion_sequence f)"
        using f(2) le by (auto simp: frame_ok_def elim: before_anchors_later)
      have "tracking (lk_sent L) (lk_frames L) (lk_delivered L) st'"
        using played Some True f(1) track(1) bound st(3) by (auto simp: tracking_def)
      moreover have "a_last_injected_motion st' \<le> s_last_motion_sequence (lk_sender L)"
        using played Some True f(1,3) track(2) st(3) by auto
      ultimately show ?thesis using played Some True f(1) wf by (auto simp: receiving_ok_def Let_def)
    qed
qed

lemma receiving_idle:
  assumes "receiving_ok L" "receiver_step op now (lk_receiver L) = (Inr es, r')" "op = RTick \<or> op = RConnectionLost"
  shows "receiving_ok (L\<lparr>lk_receiver := r'\<rparr>)"
proof -
  have wf: "receiver_wf r'" using receiver_step_wf [OF _ assms(2)] assms(1) by (simp add: receiving_ok_def Let_def)
  let ?r = "(lk_receiver L)\<lparr>r_last_observed_time := now\<rparr>"
  obtain r1 e1 where ex: "expire_lease now ?r = (r1, e1)" by fastforce
  have r': "r' = r1 \<or> r' = fst (close_activation CloseLeaseExpired ?r)"
    using assms(2,3) ex
    by (auto simp: receiver_tick_def connection_lost_def try_then_def r_observe_time_def case_prod_beta split: if_splits)
  have act: "r_activation r' = r_activation (lk_receiver L) \<or> r_activation r' = None"
    using r' expire_lease_cases [OF ex] by auto
  have high: "r_highest_activation r' = r_highest_activation (lk_receiver L)"
    using r' expire_highest [OF ex] by auto
  from assms(1) show ?thesis
  proof (cases rule: receiving_cases)
    case Fresh
    then show ?thesis using wf high by (simp add: receiving_ok_def Let_def)
  next
    case Shut
    then show ?thesis using is_closed_step [OF assms(2)] wf by (simp add: receiving_ok_def Let_def)
  next
    case (Live st)
    show ?thesis
    proof (cases "r_activation r'")
      case None
      then show ?thesis using receiving_closed [OF assms(1,2) None Live(1,2)] wf by (simp add: receiving_ok_def Let_def)
    next
      case (Some st')
      then show ?thesis using act Live wf by (auto simp: receiving_ok_def Let_def)
    qed
  qed
qed

text \<open>The receiver does not notice what the sender does.\<close>

lemma receiving_send:
  assumes "receiving_ok L" "s_session s' = s_session (lk_sender L)"
    and "0 < lk_delivered L \<Longrightarrow> lk_delivered L \<le> length (lk_sent L) \<Longrightarrow> s_last_motion_sequence (lk_sender L) \<le> s_last_motion_sequence s'"
    and "\<And>st. tracking (lk_sent L) (lk_frames L) (lk_delivered L) st \<Longrightarrow>
       a_last_injected_motion st \<le> s_last_motion_sequence (lk_sender L) \<Longrightarrow> tracking sent' frames' (lk_delivered L) st"
  shows "receiving_ok (L\<lparr>lk_sender := s', lk_sent := sent', lk_frames := frames'\<rparr>)"
  using assms(1)
proof (cases rule: receiving_cases)
  case (Live st)
  have "s_last_motion_sequence (lk_sender L) \<le> s_last_motion_sequence s'" using assms(3) Live(4) by (simp add: tracking_def)
  then have "a_last_injected_motion st \<le> s_last_motion_sequence s'" using Live(3) by simp
  moreover have "receiver_wf (lk_receiver L)" using assms(1) by (simp add: receiving_ok_def Let_def)
  ultimately show ?thesis using Live assms(2) assms(4) [OF Live(4,3)] by (simp add: receiving_ok_def Let_def)
qed (use assms(1,2) in \<open>auto simp: receiving_ok_def Let_def\<close>)

lemma tracking_snoc:
  assumes "tracking sent frames d st" "\<forall>an. motion_anchor (m_payload m) = Some an \<longrightarrow> a_last_injected_motion st \<le> an_through_motion_sequence an"
  shows "tracking (sent @ [(m, h)]) frames d st"
  using assms by (auto simp: tracking_def before_anchors_snoc nth_append)

lemma tracking_frame:
  assumes "tracking sent frames d st" "frame_ok session sent f" "unat (f_control_watermark f) = length sent"
  shows "tracking sent (f # frames) d st"
  using assms by (fastforce simp: tracking_def frame_ok_def)

definition link_ok :: "Link \<Rightarrow> bool" where
  "link_ok L \<longleftrightarrow> sending_ok L \<and> receiving_ok L"

lemma link_ok_control:
  assumes "link_ok L" "sender_step op now (lk_sender L) = (Inr (OutControl m), s')"
  shows "link_ok (L\<lparr>lk_sender := s', lk_sent := lk_sent L @ [(m, s_held s')]\<rparr>)"
proof (cases "op = OpEnter")
  case True
  have "lk_sent L = []" using sender_sends_enter assms True by (auto simp: link_ok_def sending_ok_def Let_def)
  then have "receiving_ok (L\<lparr>lk_sender := s', lk_sent := lk_sent L @ [(m, s_held s')], lk_frames := lk_frames L\<rparr>)"
    by (intro receiving_send) (use assms sender_step_keeps(1) [OF assms(2)] in \<open>auto simp: link_ok_def tracking_def\<close>)
  then show ?thesis using sending_enter [of L now m s'] assms True by (simp add: link_ok_def)
next
  case False
  note e = sender_sends_effect [OF assms(2) False]
  have "receiving_ok (L\<lparr>lk_sender := s', lk_sent := lk_sent L @ [(m, s_held s')], lk_frames := lk_frames L\<rparr>)"
  proof (rule receiving_send)
    fix st assume "tracking (lk_sent L) (lk_frames L) (lk_delivered L) st"
      "a_last_injected_motion st \<le> s_last_motion_sequence (lk_sender L)"
    then show "tracking (lk_sent L @ [(m, s_held s')]) (lk_frames L) (lk_delivered L) st"
      using e by (intro tracking_snoc) (auto simp: anchored_def)
  qed (use assms(1) e sender_step_keeps(1) [OF assms(2)] in \<open>auto simp: link_ok_def\<close>)
  then show ?thesis using sending_control [of L op now m s'] assms False by (simp add: link_ok_def)
qed

lemma link_ok_motion:
  assumes "link_ok L" "sender_step op now (lk_sender L) = (Inr (OutMotion f), s')" "disciplined op (lk_sender L)"
  shows "link_ok (L\<lparr>lk_sender := s', lk_frames := f # lk_frames L\<rparr>)"
proof -
  obtain delta touch where "capture_motion delta touch now (lk_sender L) = (Inr f, s')"
    using sender_step_motion_op [OF assms(2)] by blast
  note c = capture_motion_Inr [OF this]
  have sending: "sending_ok (L\<lparr>lk_sender := s', lk_frames := f # lk_frames L\<rparr>)"
    using sending_motion assms by (simp add: link_ok_def)
  then have "frame_ok (s_session s') (lk_sent L) f" by (simp add: sending_ok_def Let_def)
  moreover have "unat (f_control_watermark f) = length (lk_sent L)" using assms(1) c by (simp add: link_ok_def sending_ok_def Let_def)
  moreover have "s_last_motion_sequence (lk_sender L) \<le> s_last_motion_sequence s'"
    using c by (auto simp: checked_succ_u64 word_le_nat_alt)
  ultimately have "receiving_ok (L\<lparr>lk_sender := s', lk_sent := lk_sent L, lk_frames := f # lk_frames L\<rparr>)"
    using assms(1) sender_step_keeps(1) [OF assms(2)] by (intro receiving_send) (auto simp: link_ok_def intro: tracking_frame)
  then show ?thesis using sending by (simp add: link_ok_def)
qed

lemma link_ok_quiet:
  assumes "link_ok L" "sending_ok (L\<lparr>lk_sender := s'\<rparr>)" "s_session s' = s_session (lk_sender L)"
    and "s_last_motion_sequence s' = s_last_motion_sequence (lk_sender L)"
  shows "link_ok (L\<lparr>lk_sender := s'\<rparr>)"
  using assms receiving_send [of L s' "lk_sent L" "lk_frames L"] by (simp add: link_ok_def)

lemma link_step_ok: "link_step L L' \<Longrightarrow> link_ok L \<Longrightarrow> link_ok L'"
proof (induction rule: link_step.induct)
  case (SendNothing op now L s')
  have op: "op = OpTick" using SendNothing(1) by (cases op) (auto simp: map_out_Inr)
  then show ?case
    using SendNothing sending_nothing [of L op now s'] sender_step_keeps(1) [OF SendNothing(1)]
      sender_step_totals [of op now "lk_sender L", unfolded SendNothing(1)]
    by (intro link_ok_quiet) (auto simp: link_ok_def)
next
  case (Acknowledged L ack)
  then show ?case
    using sending_ack [of L ack] by (intro link_ok_quiet) (auto simp: link_ok_def acknowledge_snapshot_def split: option.splits)
next
  case (Deliver L now es r')
  then show ?case using receiving_deliver [of L now es r'] by (auto simp: link_ok_def sending_ok_def)
next
  case (Play f L step now es r')
  then show ?case using receiving_play [of L f step now es r'] by (auto simp: link_ok_def sending_ok_def)
next
  case (Idle op now L es r')
  then show ?case using receiving_idle [of L op now es r'] by (auto simp: link_ok_def sending_ok_def)
qed (use link_ok_control link_ok_motion in blast)+

lemma link_start_ok:
  assumes "sender_new config session now = Inr s" "receiver_wf r"
    and "\<forall>h. r_highest_activation r = Some h \<longrightarrow> h < activation_id session"
  shows "link_ok (link_start s r)"
  using assms sender_new_wf [OF assms(1)]
  by (auto simp: link_ok_def sending_ok_def receiving_ok_def link_start_def Let_def stream_ok_def sender_new_def result_then_Inr)

lemma link_reachable_ok: "link_reachable L \<Longrightarrow> link_ok L"
  by (induction rule: link_reachable.induct) (auto intro: link_start_ok link_step_ok)


section \<open>Properties\<close>

text \<open>
  C1: The target mirrors the source. However the calls of the two ends interleave, and however motion frames
  are lost, repeated or reordered, an open activation of the target holds exactly the keys and buttons that
  the source held after the last control that arrived, and touches exactly if the source did; once every
  control has arrived, it holds what the source holds now.
\<close>

theorem target_mirrors_source:
  assumes "link_reachable L" and "r_activation (lk_receiver L) = Some st" and "a_session st = s_session (lk_sender L)"
  shows "0 < lk_delivered L \<and> lk_delivered L \<le> length (lk_sent L) \<and>
     (let h = snd (lk_sent L ! (lk_delivered L - 1)) in
        pressed_keys (a_held st) = pressed_keys h \<and> pressed_buttons (a_held st) = pressed_buttons h \<and>
        touch_is_empty (active_touch (a_held st)) = touch_is_empty (active_touch h)) \<and>
     (s_remote (lk_sender L) \<and> lk_delivered L = length (lk_sent L) \<longrightarrow>
        pressed_keys (a_held st) = pressed_keys (s_held (lk_sender L)) \<and>
        pressed_buttons (a_held st) = pressed_buttons (s_held (lk_sender L)))"
proof -
  have ok: "sending_ok L" "receiving_ok L" using link_reachable_ok [OF assms(1)] by (simp_all add: link_ok_def)
  then have "tracking (lk_sent L) (lk_frames L) (lk_delivered L) st"
    using live_highest [OF ok(2) assms(2,3)] assms(2,3) by (cases rule: receiving_cases [OF ok(2)]) (auto simp: is_closed_def)
  then show ?thesis using ok(1) by (auto simp: tracking_def view_of_def sending_ok_def Let_def)
qed

text \<open>
  C2: An honest source is never blamed. In every state that the two ends can reach, the control that arrives
  next is not refused for a reason that ends the session, and a frame that the playout may play never
  closes the activation as a protocol violation.
\<close>

theorem honest_source_is_accepted:
  assumes "link_reachable L"
  shows "(lk_delivered L < length (lk_sent L) \<and>
       receive_control (fst (lk_sent L ! lk_delivered L)) now (lk_receiver L) = (Inr es, r') \<longrightarrow>
       (\<forall>session reason. Rejected session reason \<in> set es \<longrightarrow> \<not> fatal_rejection reason)) \<and>
     (f \<in> set (lk_frames L) \<and> plays f step (lk_receiver L) \<and>
       receive_playout_step (f_session f) step now (lk_receiver L) = (Inr es, r') \<longrightarrow>
       (\<forall>session. ActivationClosed session CloseProtocolViolation \<notin> set es))"
  using receiving_deliver [of L now es r'] receiving_play [of L f step now es r'] link_reachable_ok [OF assms]
  by (auto simp: link_ok_def)


section \<open>A sample link\<close>

definition linked_sender :: Sender where
  "linked_sender = \<lparr>s_config = \<lparr>checkpoint_interval = from_millis 100, receiver_lease = from_millis 900\<rparr>,
     s_session = sample_session, s_started = False, s_remote = False, s_held = held_default, s_totals = motion_ZERO,
     s_last_control_sequence = 0, s_last_motion_sequence = 0, s_last_observed_time = 0, s_last_snapshot_at = 0,
     s_dirty_since = None, s_pending_snapshots = fmempty, s_last_acknowledged = None\<rparr>"

definition pressing_sender :: Sender where
  "pressing_sender = linked_sender\<lparr>s_started := True, s_remote := True, s_held := held_default\<lparr>pressed_keys := {|keyboard 4|}\<rparr>,
     s_last_control_sequence := 2, s_last_observed_time := 6, s_last_snapshot_at := 5\<rparr>"

definition sent_link :: Link where
  "sent_link = \<lparr>lk_sender = pressing_sender,
     lk_sent = [(sample_control 1 Enter, held_default), (sample_control 2 (KeyDown (keyboard 4)), s_held pressing_sender)],
     lk_delivered = 0, lk_frames = [], lk_receiver = sample_receiver_start\<rparr>"

lemma sent_link_reachable: "link_reachable sent_link"
proof -
  let ?entered = "linked_sender\<lparr>s_started := True, s_remote := True, s_last_control_sequence := 1, s_last_observed_time := 5, s_last_snapshot_at := 5\<rparr>"
  have new: "sender_new \<lparr>checkpoint_interval = from_millis 100, receiver_lease = from_millis 900\<rparr> sample_session 0 = Inr linked_sender"
    by (simp add: linked_sender_def sample_sender_eval)
  have enter: "sender_step OpEnter 5 linked_sender = (Inr (OutControl (sample_control 1 Enter)), ?entered)"
    by (simp add: linked_sender_def sample_sender_eval sample_control_def held_default_def)
  have press: "sender_step (OpKeyDown (keyboard 4)) 6 ?entered = (Inr (OutControl (sample_control 2 (KeyDown (keyboard 4)))), pressing_sender)"
    by (simp add: linked_sender_def pressing_sender_def sample_sender_eval sample_control_def held_default_def word_less_nat_alt)
  have "receiver_wf sample_receiver_start" "r_highest_activation sample_receiver_start = None"
    by (simp_all add: receiver_wf_def receiver_eval)
  then have "link_reachable (link_start linked_sender sample_receiver_start)" by (intro link_reachable.Start [OF new]) simp_all
  from link_reachable.Step [OF this link_step.SendControl [of OpEnter 5]] enter
  have "link_reachable \<lparr>lk_sender = ?entered, lk_sent = [(sample_control 1 Enter, s_held ?entered)], lk_delivered = 0, lk_frames = [],
     lk_receiver = sample_receiver_start\<rparr>" by (simp add: link_start_def)
  from link_reachable.Step [OF this link_step.SendControl [of "OpKeyDown (keyboard 4)" 6]] press show ?thesis
    by (simp add: sent_link_def linked_sender_def)
qed

definition pressed_receiver :: Receiver where
  "pressed_receiver = snd (receive_control (sample_control 2 (KeyDown (keyboard 4))) 9 entered_receiver)"

lemma press_delivered:
  "receive_control (sample_control 2 (KeyDown (keyboard 4))) 9 entered_receiver = (Inr [EffKey (keyboard 4) True False], pressed_receiver)"
  by (simp add: pressed_receiver_def receiver_eval entered_receiver_def word_less_nat_alt word_le_nat_alt)

theorem target_mirrors_source_witness:
  "\<exists>L st. link_reachable L \<and> lk_delivered L = 2 \<and> r_activation (lk_receiver L) = Some st \<and>
     pressed_keys (a_held st) = {|keyboard 4|} \<and> pressed_keys (s_held (lk_sender L)) = {|keyboard 4|}"
proof -
  define L where "L = sent_link\<lparr>lk_delivered := 2, lk_receiver := pressed_receiver\<rparr>"
  have "link_reachable (sent_link\<lparr>lk_delivered := 1, lk_receiver := entered_receiver\<rparr>)"
    using link_reachable.Step [OF sent_link_reachable link_step.Deliver [of sent_link 5]] sample_enter by (simp add: sent_link_def)
  from link_reachable.Step [OF this link_step.Deliver [of _ 9]] press_delivered
  have reach: "link_reachable L" by (simp add: sent_link_def L_def numeral_2_eq_2)
  obtain st where st: "r_activation (lk_receiver L) = Some st" "a_session st = s_session (lk_sender L)"
    by (simp add: L_def sent_link_def pressing_sender_def linked_sender_def pressed_receiver_def receiver_eval entered_receiver_def
        word_less_nat_alt word_le_nat_alt)
  have "pressed_keys (s_held (lk_sender L)) = {|keyboard 4|}" "s_remote (lk_sender L)" "lk_delivered L = 2" "length (lk_sent L) = 2"
    by (simp_all add: L_def sent_link_def pressing_sender_def)
  then show ?thesis using target_mirrors_source [OF reach st] reach st(1) by auto
qed

theorem honest_source_is_accepted_witness:
  "receive_control (fst (lk_sent sent_link ! 0)) 5 (lk_receiver sent_link) = (Inr [ActivationOpened sample_session], entered_receiver) \<and>
   Rejected sample_session InvalidTransition \<notin> set [ActivationOpened sample_session]"
proof -
  have recv: "receive_control (fst (lk_sent sent_link ! 0)) 5 (lk_receiver sent_link) =
      (Inr [ActivationOpened sample_session], entered_receiver)"
    using sample_enter by (simp add: sent_link_def)
  moreover have "lk_delivered sent_link < length (lk_sent sent_link)" "lk_delivered sent_link = 0"
    by (simp_all add: sent_link_def)
  ultimately have "\<forall>session reason. Rejected session reason \<in> set [ActivationOpened sample_session] \<longrightarrow> \<not> fatal_rejection reason"
    using honest_source_is_accepted [OF sent_link_reachable, of 5 "[ActivationOpened sample_session]" entered_receiver] by metis
  then have "Rejected sample_session InvalidTransition \<notin> set [ActivationOpened sample_session]"
    by (metis fatal_rejection.simps insertCI)
  then show ?thesis by (rule conjI [OF recv])
qed

end
