(* ===== verification/Desktop.thy ===== *)
theory Desktop
  imports Prelude "HOL-Library.List_Lexorder"
begin

text \<open>
  Desktop handoff metadata (\<open>src/src/desktop.rs\<close> and \<open>src/src/desktop/monitors.rs\<close>): monitor geometry
  and its validation, the requests and responses of a desktop, and the shared layout, the
  arrangement of screens that every paired computer keeps and edits.

  Coordinates are \<open>i32\<close> words and sizes \<open>u32\<close> words, read into unbounded integers where the code
  widens to \<open>i64\<close>: sums of an \<open>i32\<close> and a few \<open>u32\<close> stay far inside 64 bits. \<open>SharedLayout::with_geometry\<close> and
  what every edit keeps are in the theory \<open>Layout\<close>; \<open>ReturnMapping\<close> and \<open>edge_point\<close>, which compute in \<open>f64\<close>, are
  not modelled.
\<close>

section \<open>Strings\<close>

text \<open>
  A Rust string, as its Unicode scalar values. \<open>len\<close> counts UTF-8 bytes; comparison is byte-wise,
  which for UTF-8 is the lexicographic order of the scalar values.
\<close>

type_synonym rust_string = "nat list"

definition utf8_width :: "nat \<Rightarrow> nat" where
  "utf8_width c = (if c < 0x80 then 1 else if c < 0x800 then 2 else if c < 0x10000 then 3 else 4)"

definition str_len :: "rust_string \<Rightarrow> nat" where
  "str_len s = sum_list (map utf8_width s)"

definition is_whitespace :: "nat \<Rightarrow> bool" where
  "is_whitespace c \<longleftrightarrow>
     9 \<le> c \<and> c \<le> 13 \<or> c = 0x20 \<or> c = 0x85 \<or> c = 0xa0 \<or> c = 0x1680 \<or> 0x2000 \<le> c \<and> c \<le> 0x200a \<or>
     c = 0x2028 \<or> c = 0x2029 \<or> c = 0x202f \<or> c = 0x205f \<or> c = 0x3000"

definition is_control :: "nat \<Rightarrow> bool" where
  "is_control c \<longleftrightarrow> c < 0x20 \<or> 0x7f \<le> c \<and> c < 0xa0"

text \<open>\<open>str::trim\<close>: without the white space at both ends.\<close>

definition str_trim :: "rust_string \<Rightarrow> rust_string" where
  "str_trim s = rev (dropWhile is_whitespace (rev (dropWhile is_whitespace s)))"

section \<open>Geometry\<close>

definition FRACTION_MAX :: u32 where
  "FRACTION_MAX = 1000000"

definition MAX_TOKEN :: u64 where
  "MAX_TOKEN = 9007199254740991"

definition MAX_MESSAGE_BYTES :: nat where
  "MAX_MESSAGE_BYTES = 32768"

definition MAX_EXITS :: nat where
  "MAX_EXITS = 64"

definition MAX_SHARED_TILES :: nat where
  "MAX_SHARED_TILES = 32"

definition MAX_COORDINATE :: int where
  "MAX_COORDINATE = 100000"

definition MAX_DIMENSION :: int where
  "MAX_DIMENSION = 16384"

datatype Edge = EdgeLeft | EdgeRight | EdgeTop | EdgeBottom

record Point =
  pt_x :: i32
  pt_y :: i32

record Rect =
  rc_x :: i32
  rc_y :: i32
  rc_width :: u32
  rc_height :: u32

definition rect_contains :: "Rect \<Rightarrow> Point \<Rightarrow> bool" where
  "rect_contains r point \<longleftrightarrow>
     sint (pt_x point) \<ge> sint (rc_x r) \<and> sint (pt_y point) \<ge> sint (rc_y r) \<and>
     sint (pt_x point) < sint (rc_x r) + uint (rc_width r) \<and>
     sint (pt_y point) < sint (rc_y r) + uint (rc_height r)"

record Display =
  dp_id :: rust_string
  dp_name :: rust_string
  dp_bounds :: Rect
  dp_width_mm :: u32
  dp_height_mm :: u32
  dp_active :: bool

record Geometry =
  ge_monitors :: "Rect list"
  ge_displays :: "Display list"

datatype DesktopError =
    MonitorCount | InvalidMonitorGeometry | InvalidMonitorIdentity | InvalidPhysicalSize
  | IncompleteIdentities | InvalidActiveMonitor | MonitorDisconnected
  | InvalidToken | InvalidTargetMonitor | InvalidEdgeRange | TooManyExits | InvalidExit
  | CursorOutside | InvalidExitPosition | DiagnosticTooLong
  | InvalidEditor | InvalidVersion | TooManyTiles | InvalidTile | InvalidTileGeometry
  | InvalidRequestId | InvalidResponseId

definition valid_id :: "rust_string \<Rightarrow> bool" where
  "valid_id i \<longleftrightarrow> str_trim i \<noteq> [] \<and> str_len i \<le> 128 \<and> \<not> list_ex is_control i"

text \<open>The checks of \<open>Geometry::validate\<close> before the displays.\<close>

definition validate_monitors :: "Rect list \<Rightarrow> DesktopError + unit" where
  "validate_monitors monitors =
     result_then (ensure (monitors \<noteq> [] \<and> length monitors \<le> 16) MonitorCount) (\<lambda>_.
       for_each (\<lambda>rect. ensure
         (1 \<le> rc_width rect \<and> rc_width rect \<le> 16384 \<and> 1 \<le> rc_height rect \<and> rc_height rect \<le> 16384 \<and>
          \<bar>sint (rc_x rect)\<bar> \<le> 65536 \<and> \<bar>sint (rc_y rect)\<bar> \<le> 65536) InvalidMonitorGeometry) monitors)"

text \<open>\<open>Display::validate\<close> checks its bounds as a geometry of one monitor and no displays.\<close>

definition display_validate :: "Display \<Rightarrow> DesktopError + unit" where
  "display_validate d =
     result_then (ensure (valid_id (dp_id d) \<and> valid_id (dp_name d)) InvalidMonitorIdentity) (\<lambda>_.
     result_then (ensure
       (dp_width_mm d = 0 \<and> dp_height_mm d = 0 \<or>
        10 \<le> dp_width_mm d \<and> dp_width_mm d \<le> 4000 \<and> 10 \<le> dp_height_mm d \<and> dp_height_mm d \<le> 4000)
       InvalidPhysicalSize) (\<lambda>_.
     validate_monitors [dp_bounds d]))"

definition desk_size :: "Display \<Rightarrow> u32 \<times> u32" where
  "desk_size d =
     (if dp_width_mm d > 0 \<and> dp_height_mm d > 0 then (dp_width_mm d * 4, dp_height_mm d * 4)
      else (rc_width (dp_bounds d), rc_height (dp_bounds d)))"

fun validate_displays_from ::
  "Rect list \<Rightarrow> rust_string list \<Rightarrow> Rect list \<Rightarrow> Display list \<Rightarrow> DesktopError + unit"
where
  "validate_displays_from monitors ids rectangles [] = Inr ()"
| "validate_displays_from monitors ids rectangles (d # ds) =
     result_then (display_validate d) (\<lambda>_.
     result_then (ensure
       (dp_active d \<and> dp_id d \<notin> set ids \<and> dp_bounds d \<in> set monitors \<and> dp_bounds d \<notin> set rectangles)
       InvalidActiveMonitor) (\<lambda>_.
     validate_displays_from monitors (dp_id d # ids) (dp_bounds d # rectangles) ds))"

definition validate_displays :: "Geometry \<Rightarrow> DesktopError + unit" where
  "validate_displays g =
     (if ge_displays g = [] then Inr ()
      else result_then (ensure (length (ge_displays g) = length (ge_monitors g)) IncompleteIdentities) (\<lambda>_.
           validate_displays_from (ge_monitors g) [] [] (ge_displays g)))"

definition geometry_validate :: "Geometry \<Rightarrow> DesktopError + unit" where
  "geometry_validate g = result_then (validate_monitors (ge_monitors g)) (\<lambda>_. validate_displays g)"

text \<open>\<open>min().unwrap()\<close> and \<open>max().unwrap()\<close>, behind the check that there is a monitor.\<close>

definition bounds :: "Geometry \<Rightarrow> DesktopError + Rect" where
  "bounds g =
     result_then (geometry_validate g) (\<lambda>_.
       let x = Min (sint ` rc_x ` set (ge_monitors g));
           y = Min (sint ` rc_y ` set (ge_monitors g));
           right = Max ((\<lambda>r. sint (rc_x r) + uint (rc_width r)) ` set (ge_monitors g));
           bottom = Max ((\<lambda>r. sint (rc_y r) + uint (rc_height r)) ` set (ge_monitors g))
       in Inr \<lparr>rc_x = word_of_int x, rc_y = word_of_int y,
               rc_width = word_of_int (right - x), rc_height = word_of_int (bottom - y)\<rparr>)"

definition for_monitor :: "rust_string option \<Rightarrow> Geometry \<Rightarrow> DesktopError + Geometry" where
  "for_monitor i g =
     result_then (geometry_validate g) (\<lambda>_.
       case i of
         None \<Rightarrow> Inr g
       | Some i \<Rightarrow>
          (case find (\<lambda>d. dp_id d = i \<and> dp_active d) (ge_displays g) of
             None \<Rightarrow> Inl MonitorDisconnected
           | Some d \<Rightarrow> Inr \<lparr>ge_monitors = [dp_bounds d], ge_displays = [d]\<rparr>))"

section \<open>Requests and responses\<close>

record Exit =
  ex_monitor :: "rust_string option"
  ex_edge :: Edge
  ex_start :: u32
  ex_end :: u32

datatype DesktopRequest =
    ReqSnapshot
  | ReqPrepare "rust_string option" u64 Edge u32 u32 u32 "Exit list"
  | ReqPoll u64
  | ReqFinish u64

fun request_token :: "DesktopRequest \<Rightarrow> u64 option" where
  "request_token ReqSnapshot = None"
| "request_token (ReqPrepare _ token _ _ _ _ _) = Some token"
| "request_token (ReqPoll token) = Some token"
| "request_token (ReqFinish token) = Some token"

definition is_none_or :: "('a \<Rightarrow> bool) \<Rightarrow> 'a option \<Rightarrow> bool" where
  "is_none_or P x = (case x of None \<Rightarrow> True | Some a \<Rightarrow> P a)"

definition request_validate :: "DesktopRequest \<Rightarrow> DesktopError + unit" where
  "request_validate req =
     result_then (ensure (is_none_or (\<lambda>token. token > 0 \<and> token \<le> MAX_TOKEN) (request_token req)) InvalidToken) (\<lambda>_.
       case req of
         ReqPrepare monitor _ _ start fin position exits \<Rightarrow>
           result_then (ensure (is_none_or valid_id monitor) InvalidTargetMonitor) (\<lambda>_.
           result_then (ensure (start < fin \<and> fin \<le> FRACTION_MAX \<and> position \<ge> start \<and> position \<le> fin)
             InvalidEdgeRange) (\<lambda>_.
           result_then (ensure (length exits \<le> MAX_EXITS) TooManyExits) (\<lambda>_.
           for_each (\<lambda>e. ensure
             (is_none_or valid_id (ex_monitor e) \<and> ex_start e < ex_end e \<and> ex_end e \<le> FRACTION_MAX)
             InvalidExit) exits)))
       | _ \<Rightarrow> Inr ())"

datatype DesktopResponse =
    RespSnapshot Geometry Point
  | RespPrepared Geometry Point
  | RespActive
  | RespExited u32 u32
  | RespFinished
  | RespUnavailable rust_string

definition unavailable :: "rust_string \<Rightarrow> DesktopResponse" where
  "unavailable reason = RespUnavailable (take 256 reason)"

definition validate_position :: "Geometry \<Rightarrow> Point \<Rightarrow> DesktopError + unit" where
  "validate_position g position =
     result_then (geometry_validate g) (\<lambda>_.
       ensure (list_ex (\<lambda>r. rect_contains r position) (ge_monitors g)) CursorOutside)"

fun response_validate :: "DesktopResponse \<Rightarrow> DesktopError + unit" where
  "response_validate (RespSnapshot g position) = validate_position g position"
| "response_validate (RespPrepared g position) = validate_position g position"
| "response_validate (RespExited e position) =
     ensure (unat e < MAX_EXITS \<and> position \<le> FRACTION_MAX) InvalidExitPosition"
| "response_validate (RespUnavailable reason) = ensure (str_len reason \<le> 1024) DiagnosticTooLong"
| "response_validate RespActive = Inr ()"
| "response_validate RespFinished = Inr ()"

section \<open>The shared layout\<close>

record Tile =
  tl_key :: rust_string
  tl_display :: "Display option"
  tl_x :: i32
  tl_y :: i32
  tl_width :: u32
  tl_height :: u32

record SharedLayout =
  sl_version :: u64
  sl_editor :: rust_string
  sl_tiles :: "Tile list"

definition fingerprint :: "rust_string \<Rightarrow> bool" where
  "fingerprint key \<longleftrightarrow>
     str_len key = 64 \<and> list_all (\<lambda>b. 0x30 \<le> b \<and> b \<le> 0x39 \<or> 0x61 \<le> b \<and> b \<le> 0x66) key"

definition tile_id :: "Tile \<Rightarrow> rust_string \<times> rust_string option" where
  "tile_id tile = (tl_key tile, map_option dp_id (tl_display tile))"

definition tile_on_canvas :: "Tile \<Rightarrow> bool" where
  "tile_on_canvas tile \<longleftrightarrow>
     - MAX_COORDINATE \<le> sint (tl_x tile) \<and> sint (tl_x tile) \<le> MAX_COORDINATE \<and>
     - MAX_COORDINATE \<le> sint (tl_y tile) \<and> sint (tl_y tile) \<le> MAX_COORDINATE \<and>
     1 \<le> uint (tl_width tile) \<and> uint (tl_width tile) \<le> MAX_DIMENSION \<and>
     1 \<le> uint (tl_height tile) \<and> uint (tl_height tile) \<le> MAX_DIMENSION"

fun validate_tiles_from :: "(rust_string \<times> rust_string option) list \<Rightarrow> Tile list \<Rightarrow> DesktopError + unit" where
  "validate_tiles_from keys [] = Inr ()"
| "validate_tiles_from keys (tile # tiles) =
     result_then (ensure (fingerprint (tl_key tile) \<and> tile_id tile \<notin> set keys) InvalidTile) (\<lambda>_.
     result_then (case tl_display tile of None \<Rightarrow> Inr () | Some d \<Rightarrow> display_validate d) (\<lambda>_.
     result_then (ensure (tile_on_canvas tile) InvalidTileGeometry) (\<lambda>_.
     validate_tiles_from (tile_id tile # keys) tiles)))"

definition layout_validate :: "SharedLayout \<Rightarrow> DesktopError + unit" where
  "layout_validate l =
     result_then (ensure (fingerprint (sl_editor l)) InvalidEditor) (\<lambda>_.
     result_then (ensure (sl_version l \<le> MAX_TOKEN) InvalidVersion) (\<lambda>_.
     result_then (ensure (length (sl_tiles l) \<le> MAX_SHARED_TILES) TooManyTiles) (\<lambda>_.
     validate_tiles_from [] (sl_tiles l))))"

subsection \<open>Tiles on the canvas\<close>

definition span :: "i32 \<Rightarrow> u32 \<Rightarrow> int \<times> int" where
  "span start extent = (sint start, sint start + uint extent)"

definition overlaps :: "Tile \<Rightarrow> Tile \<Rightarrow> bool" where
  "overlaps a b =
     (let (al, ar) = span (tl_x a) (tl_width a); (at, ab) = span (tl_y a) (tl_height a);
          (bl, br) = span (tl_x b) (tl_width b); (bt, bb) = span (tl_y b) (tl_height b)
      in al < br \<and> ar > bl \<and> at < bb \<and> ab > bt)"

definition touching :: "Tile \<Rightarrow> Tile \<Rightarrow> Edge option" where
  "touching a b =
     (let (al, ar) = span (tl_x a) (tl_width a); (at, ab) = span (tl_y a) (tl_height a);
          (bl, br) = span (tl_x b) (tl_width b); (bt, bb) = span (tl_y b) (tl_height b);
          side_by_side = (at < bb \<and> ab > bt); above_or_below = (al < br \<and> ar > bl)
      in if side_by_side \<and> ar = bl then Some EdgeRight
         else if side_by_side \<and> br = al then Some EdgeLeft
         else if above_or_below \<and> ab = bt then Some EdgeBottom
         else if above_or_below \<and> bb = at then Some EdgeTop
         else None)"

definition on_canvas :: "i32 \<Rightarrow> int \<Rightarrow> i32 option" where
  "on_canvas at delta =
     (let v = sint at + delta
      in if - MAX_COORDINATE \<le> v \<and> v \<le> MAX_COORDINATE then Some (word_of_int v) else None)"

definition shifted :: "Tile \<Rightarrow> int \<Rightarrow> int \<Rightarrow> Tile option" where
  "shifted tile dx dy =
     Option.bind (on_canvas (tl_x tile) dx) (\<lambda>x.
     Option.bind (on_canvas (tl_y tile) dy) (\<lambda>y.
     Some (tile\<lparr>tl_x := x, tl_y := y\<rparr>)))"

definition beside :: "Tile \<Rightarrow> int \<Rightarrow> int \<Rightarrow> (int \<times> int) list" where
  "beside an w h =
     (let (left, right) = span (tl_x an) (tl_width an); (top, bottom) = span (tl_y an) (tl_height an)
      in [(right, top), (left - w, top), (left, bottom), (left, top - h)])"

text \<open>\<open>map(|tile| span(..).1).max().unwrap_or(0)\<close>.\<close>

definition past_all :: "Tile list \<Rightarrow> int" where
  "past_all tiles =
     (case map (\<lambda>tile. snd (span (tl_x tile) (tl_width tile))) tiles of
        [] \<Rightarrow> 0 | x # xs \<Rightarrow> fold max xs x)"

definition free_spot :: "Tile list \<Rightarrow> Tile option \<Rightarrow> rust_string \<Rightarrow> u32 \<Rightarrow> u32 \<Rightarrow> Tile option" where
  "free_spot tiles an key width height =
     (let new = \<lparr>tl_key = key, tl_display = None, tl_x = 0, tl_y = 0, tl_width = width, tl_height = height\<rparr>;
          spots = (case an of None \<Rightarrow> [] | Some a \<Rightarrow> beside a (uint width) (uint height));
          row = (case an of None \<Rightarrow> 0 | Some a \<Rightarrow> sint (tl_y a))
      in find (\<lambda>tile. \<not> list_ex (overlaps tile) tiles)
           (List.map_filter (\<lambda>(x, y). shifted new x y) (spots @ [(past_all tiles, row)])))"

subsection \<open>Edits\<close>

fun with_others_from_loop :: "(rust_string \<Rightarrow> bool) \<Rightarrow> Tile list \<Rightarrow> Tile list \<Rightarrow> Tile list" where
  "with_others_from_loop known [] tiles = tiles"
| "with_others_from_loop known (tile # previous) tiles =
     (if length tiles \<ge> MAX_SHARED_TILES then tiles
      else with_others_from_loop known previous
        (if \<not> known (tl_key tile) \<and> \<not> list_ex (overlaps tile) tiles then tiles @ [tile] else tiles))"

definition with_others_from :: "SharedLayout \<Rightarrow> (rust_string \<Rightarrow> bool) \<Rightarrow> SharedLayout \<Rightarrow> SharedLayout" where
  "with_others_from previous known l =
     l\<lparr>sl_tiles := with_others_from_loop known (sl_tiles previous) (sl_tiles l)\<rparr>"

text \<open>\<open>(self.version, &self.editor) > (other.version, &other.editor)\<close>.\<close>

definition is_newer_than :: "SharedLayout \<Rightarrow> SharedLayout \<Rightarrow> bool" where
  "is_newer_than l other \<longleftrightarrow>
     sl_version l > sl_version other \<or> sl_version l = sl_version other \<and> sl_editor l > sl_editor other"

text \<open>
  The end of every edit: \<open>version: self.version.checked_add(1)?\<close>, the editor's key and
  \<open>next.validate().ok().map(|()| next)\<close>.
\<close>

definition publish :: "SharedLayout \<Rightarrow> rust_string \<Rightarrow> Tile list \<Rightarrow> SharedLayout option" where
  "publish l editor tiles =
     Option.bind (checked_add_u64 (sl_version l) 1) (\<lambda>version.
       let next = \<lparr>sl_version = version, sl_editor = editor, sl_tiles = tiles\<rparr>
       in case layout_validate next of Inl _ \<Rightarrow> None | Inr _ \<Rightarrow> Some next)"

text \<open>The closures of \<open>with_display_size\<close>: the resized tile at a corner, and how far another slides.\<close>

definition resized :: "Tile list \<Rightarrow> nat \<Rightarrow> u32 \<Rightarrow> u32 \<Rightarrow> int \<times> int \<Rightarrow> Tile list option" where
  "resized before index width height corner =
     (let old = before ! index;
          grown = old\<lparr>tl_width := width, tl_height := height\<rparr>
      in map_option (\<lambda>tile. before[index := tile])
           (shifted grown (fst corner - sint (tl_x old)) (snd corner - sint (tl_y old))))"

definition slide :: "Tile \<Rightarrow> int \<Rightarrow> int \<Rightarrow> int \<times> int \<Rightarrow> Tile \<Rightarrow> int \<times> int" where
  "slide old w h corner other =
     (let (x, y) = corner;
          (left, right) = span (tl_x old) (tl_width old); (top, bottom) = span (tl_y old) (tl_height old);
          (l, r) = span (tl_x other) (tl_width other); (t, b) = span (tl_y other) (tl_height other)
      in (if l \<ge> right then x + w - right else if r \<le> left then x - left else 0,
          if t \<ge> bottom then y + h - bottom else if b \<le> top then y - top else 0))"

definition next_hit :: "Tile list \<Rightarrow> bool list \<Rightarrow> nat option" where
  "next_hit tiles moved =
     find (\<lambda>j. \<not> moved ! j \<and> list_ex (\<lambda>i. moved ! i \<and> overlaps (tiles ! i) (tiles ! j)) [0..<length tiles])
       [0..<length tiles]"

lemma next_hit_Some:
  "next_hit tiles moved = Some hit \<Longrightarrow> hit < length tiles \<and> \<not> moved ! hit"
  by (auto simp: next_hit_def find_Some_iff)

text \<open>
  The \<open>while let Some(hit)\<close> loop: it ends because every round moves one more tile. \<open>moved\<close> has one
  flag per tile, so the length check, which stands for the indexing of \<open>moved\<close>, never fires.
\<close>

function push_loop :: "(Tile \<Rightarrow> int \<times> int) \<Rightarrow> Tile list \<Rightarrow> bool list \<Rightarrow> Tile list \<Rightarrow> Tile list option" where
  "push_loop slide_by before moved tiles =
     (case next_hit tiles moved of
        None \<Rightarrow> Some tiles
      | Some hit \<Rightarrow>
          if length moved \<noteq> length tiles then None
          else
            (case slide_by (before ! hit) of
               (dx, dy) \<Rightarrow>
                 (case shifted (tiles ! hit) dx dy of
                    None \<Rightarrow> None
                  | Some tile \<Rightarrow> push_loop slide_by before (moved[hit := True]) (tiles[hit := tile]))))"
  by auto
termination
proof (relation "measure (\<lambda>(_, _, moved, _). count_list moved False)", simp)
  fix slide_by before moved tiles hit dx dy tile
  assume hit: "next_hit tiles moved = Some hit" and len: "\<not> length moved \<noteq> length tiles"
  have "hit < length moved" "moved ! hit = False" using next_hit_Some [OF hit] len by auto
  then have "count_list (moved[hit := True]) False < count_list moved False"
    by (induction moved arbitrary: hit) (auto simp: nth_Cons split: nat.splits)
  then show "((slide_by, before, moved[hit := True], tiles[hit := tile]), slide_by, before, moved, tiles)
      \<in> measure (\<lambda>(_, _, moved, _). count_list moved False)" by simp
qed

fun slide_all :: "(Tile \<Rightarrow> int \<times> int) \<Rightarrow> nat \<Rightarrow> Tile list \<Rightarrow> nat \<Rightarrow> Tile list \<Rightarrow> Tile list option" where
  "slide_all slide_by index before i [] = Some []"
| "slide_all slide_by index before i (tile # tiles) =
     (if i = index then map_option (\<lambda>rest. tile # rest) (slide_all slide_by index before (Suc i) tiles)
      else
        (case slide_by (before ! i) of
           (dx, dy) \<Rightarrow>
             (case shifted tile dx dy of
                None \<Rightarrow> None
              | Some tile' \<Rightarrow> map_option (\<lambda>rest. tile' # rest) (slide_all slide_by index before (Suc i) tiles))))"

definition score :: "Tile list \<Rightarrow> nat \<Rightarrow> u32 \<Rightarrow> u32 \<Rightarrow> Tile list \<Rightarrow> int list" where
  "score before index width height tiles =
     (let old = before ! index; n = length before;
          (left, right) = span (tl_x old) (tl_width old); (top, bottom) = span (tl_y old) (tl_height old);
          pairs = concat (map (\<lambda>i. map (Pair i) [Suc i..<n]) [0..<n]);
          contacts = filter (\<lambda>(i, j). touching (before ! i) (before ! j) \<noteq> None) pairs;
          keeps = (\<lambda>(i, j). touching (tiles ! i) (tiles ! j) = touching (before ! i) (before ! j));
          own = (\<lambda>(i, j). i = index \<or> j = index);
          same = length (filter (\<lambda>p. own p \<and> keeps p) contacts);
          any_side = length (filter (\<lambda>(i, j). own (i, j) \<and> touching (tiles ! i) (tiles ! j) \<noteq> None) contacts);
          rest = length (filter (\<lambda>p. \<not> own p \<and> keeps p) contacts);
          touched = list_ex (\<lambda>j. j \<noteq> index \<and> touching old (before ! j) \<noteq> None) [0..<n];
          touches = (touched \<and> list_ex (\<lambda>j. j \<noteq> index \<and> touching (tiles ! index) (tiles ! j) \<noteq> None) [0..<n]);
          x = sint (tl_x (tiles ! index)); y = sint (tl_y (tiles ! index));
          kept_corner = ((x = left \<or> x + uint width = right) \<and> (y = top \<or> y + uint height = bottom));
          moved = (if kept_corner then 0 else 1) +
            length (filter (\<lambda>i. i \<noteq> index \<and>
              (tl_x (tiles ! i), tl_y (tiles ! i)) \<noteq> (tl_x (before ! i), tl_y (before ! i))) [0..<n])
      in [int same, int any_side, if touches then 1 else 0, int rest, - int moved])"

definition apart :: "Tile list \<Rightarrow> Tile list \<Rightarrow> bool" where
  "apart before tiles \<longleftrightarrow>
     list_all (\<lambda>i. list_all (\<lambda>j.
       tiles ! i = before ! i \<and> tiles ! j = before ! j \<or> \<not> overlaps (tiles ! i) (tiles ! j))
       [Suc i..<length tiles]) [0..<length tiles]"

text \<open>\<open>min_by_key(|tiles| Reverse(score(tiles)))\<close>: the first of the best.\<close>

fun first_best :: "('a \<Rightarrow> int list) \<Rightarrow> 'a list \<Rightarrow> 'a option" where
  "first_best f [] = None"
| "first_best f (x # xs) = Some (fold (\<lambda>y best. if f y > f best then y else best) xs x)"

definition resize_candidates :: "Tile list \<Rightarrow> nat \<Rightarrow> u32 \<Rightarrow> u32 \<Rightarrow> Tile list option list" where
  "resize_candidates before index width height =
     (let old = before ! index; w = uint width; h = uint height;
          (left, right) = span (tl_x old) (tl_width old); (top, bottom) = span (tl_y old) (tl_height old);
          corners = [(left, top), (right - w, top), (left, bottom - h), (right - w, bottom - h)];
          others = map (\<lambda>i. before ! i) (filter (\<lambda>i. i \<noteq> index) [0..<length before]);
          pushed = map (\<lambda>corner. Option.bind (resized before index width height corner)
            (push_loop (slide old w h corner) before ((replicate (length before) False)[index := True]))) corners;
          slid = map (\<lambda>corner. Option.bind (resized before index width height corner)
            (slide_all (slide old w h corner) index before 0)) corners;
          placed = map (resized before index width height)
            (concat (map (\<lambda>other. beside other w h) others) @ [(past_all others, top)])
      in pushed @ slid @ placed)"

definition with_display_size ::
  "rust_string \<Rightarrow> rust_string option \<Rightarrow> u32 \<Rightarrow> u32 \<Rightarrow> SharedLayout \<Rightarrow> SharedLayout option"
where
  "with_display_size key i width height l =
     (case find (\<lambda>n. tile_id (sl_tiles l ! n) = (key, i)) [0..<length (sl_tiles l)] of
        None \<Rightarrow>
          (if length (sl_tiles l) \<ge> MAX_SHARED_TILES then None
           else Option.bind
             (free_spot (sl_tiles l) (case sl_tiles l of [] \<Rightarrow> None | t # _ \<Rightarrow> Some t) key width height)
             (\<lambda>tile. publish l key (sl_tiles l @ [tile])))
      | Some index \<Rightarrow>
          (let before = sl_tiles l; old = before ! index
           in if (tl_width old, tl_height old) = (width, height) then None
              else Option.bind
                (first_best (score before index width height)
                  (filter (apart before) (List.map_filter id (resize_candidates before index width height))))
                (publish l key)))"

definition with_own_size :: "rust_string \<Rightarrow> u32 \<Rightarrow> u32 \<Rightarrow> SharedLayout \<Rightarrow> SharedLayout option" where
  "with_own_size key width height l = with_display_size key None width height l"

fun tiles_for_loop :: "rust_string \<Rightarrow> u32 \<Rightarrow> u32 \<Rightarrow> rust_string list \<Rightarrow> Tile list \<Rightarrow> Tile list option" where
  "tiles_for_loop own width height [] tiles = Some tiles"
| "tiles_for_loop own width height (key # keys) tiles =
     (if key = own \<or> list_ex (\<lambda>tile. tl_key tile = key) tiles
      then tiles_for_loop own width height keys tiles
      else if length tiles \<ge> MAX_SHARED_TILES then Some tiles
      else
        (case free_spot tiles (find (\<lambda>tile. tl_key tile = own) tiles) key width height of
           None \<Rightarrow> None
         | Some placed \<Rightarrow> tiles_for_loop own width height keys (tiles @ [placed])))"

definition with_tiles_for ::
  "rust_string \<Rightarrow> rust_string list \<Rightarrow> u32 \<Rightarrow> u32 \<Rightarrow> SharedLayout \<Rightarrow> SharedLayout option"
where
  "with_tiles_for own keys width height l =
     Option.bind (tiles_for_loop own width height keys (sl_tiles l)) (\<lambda>tiles.
       if length tiles = length (sl_tiles l) then None else publish l own tiles)"

definition with_key_replaced :: "rust_string \<Rightarrow> rust_string \<Rightarrow> rust_string \<Rightarrow> SharedLayout \<Rightarrow> SharedLayout option" where
  "with_key_replaced own old new l =
     (if list_ex (\<lambda>tile. tl_key tile = new) (sl_tiles l) then None
      else if \<not> list_ex (\<lambda>tile. tl_key tile = old) (sl_tiles l) then None
      else publish l own
        (map (\<lambda>tile. if tl_key tile = old then tile\<lparr>tl_key := new\<rparr> else tile) (sl_tiles l)))"

text \<open>
  The critical section of \<open>keep_layout\<close> in the daemon (\<open>src/src/daemon.rs\<close>): a layout is kept if none is
  kept yet or if it is newer than the one kept. Saving it and offering it to peers are not modelled.
\<close>

definition keep_layout :: "SharedLayout \<Rightarrow> SharedLayout option \<Rightarrow> bool \<times> SharedLayout option" where
  "keep_layout layout current =
     (if (case current of None \<Rightarrow> False | Some kept \<Rightarrow> \<not> is_newer_than layout kept) then (False, current)
      else (True, Some layout))"

section \<open>Messages\<close>

datatype DesktopMessage =
    DeskRequest u64 DesktopRequest
  | DeskResponse u64 DesktopResponse
  | DeskLayout SharedLayout

fun message_validate :: "DesktopMessage \<Rightarrow> DesktopError + unit" where
  "message_validate (DeskLayout layout) = layout_validate layout"
| "message_validate (DeskRequest i request) =
     result_then (ensure (i \<noteq> 0) InvalidRequestId) (\<lambda>_. request_validate request)"
| "message_validate (DeskResponse i response) =
     result_then (ensure (i \<noteq> 0) InvalidResponseId) (\<lambda>_. response_validate response)"

section \<open>Overlap and contact\<close>

definition tile_covers :: "Tile \<Rightarrow> int \<Rightarrow> int \<Rightarrow> bool" where
  "tile_covers t px py \<longleftrightarrow>
     sint (tl_x t) \<le> px \<and> px < sint (tl_x t) + uint (tl_width t) \<and>
     sint (tl_y t) \<le> py \<and> py < sint (tl_y t) + uint (tl_height t)"

lemma interval_meet:
  "(\<exists>p. a \<le> p \<and> p < b \<and> c \<le> p \<and> p < d) \<longleftrightarrow> a < b \<and> c < d \<and> a < d \<and> c < (b :: int)"
proof
  assume "a < b \<and> c < d \<and> a < d \<and> c < b"
  then show "\<exists>p. a \<le> p \<and> p < b \<and> c \<le> p \<and> p < d" by (intro exI [of _ "max a c"]) auto
qed auto

lemma overlaps_sym: "overlaps a b = overlaps b a"
  by (auto simp: overlaps_def span_def)

fun opposite :: "Edge \<Rightarrow> Edge" where
  "opposite EdgeLeft = EdgeRight"
| "opposite EdgeRight = EdgeLeft"
| "opposite EdgeTop = EdgeBottom"
| "opposite EdgeBottom = EdgeTop"

text \<open>
  Overlap and contact of tiles mean what they say. Two tiles of positive size overlap exactly
  when some point of the canvas lies in both; tiles that touch do not overlap; and contact is
  symmetric: the side on which one tile touches another is opposite to the side on which the other
  touches it.
\<close>

theorem overlap_and_contact:
  assumes "0 < tl_width a" and "0 < tl_height a" and "0 < tl_width b" and "0 < tl_height b"
  shows "(overlaps a b \<longleftrightarrow> (\<exists>px py. tile_covers a px py \<and> tile_covers b px py)) \<and>
         (touching a b \<noteq> None \<longrightarrow> \<not> overlaps a b) \<and>
         touching b a = map_option opposite (touching a b)"
proof -
  have pos: "0 < uint (tl_width a)" "0 < uint (tl_height a)" "0 < uint (tl_width b)" "0 < uint (tl_height b)"
    using assms by (simp_all add: word_less_def)
  have "(\<exists>px py. tile_covers a px py \<and> tile_covers b px py) \<longleftrightarrow>
      (\<exists>px. sint (tl_x a) \<le> px \<and> px < sint (tl_x a) + uint (tl_width a) \<and>
            sint (tl_x b) \<le> px \<and> px < sint (tl_x b) + uint (tl_width b)) \<and>
      (\<exists>py. sint (tl_y a) \<le> py \<and> py < sint (tl_y a) + uint (tl_height a) \<and>
            sint (tl_y b) \<le> py \<and> py < sint (tl_y b) + uint (tl_height b))"
    by (auto simp: tile_covers_def)
  then have 1: "overlaps a b \<longleftrightarrow> (\<exists>px py. tile_covers a px py \<and> tile_covers b px py)"
    using pos by (auto simp: interval_meet overlaps_def span_def)
  have 2: "touching a b \<noteq> None \<longrightarrow> \<not> overlaps a b"
    by (auto simp: touching_def overlaps_def span_def)
  have 3: "touching b a = map_option opposite (touching a b)"
    using pos by (auto simp: touching_def span_def Let_def)
  from 1 2 3 show ?thesis by blast
qed

section \<open>Agreement on the newest layout\<close>

lemma newer_trans: "is_newer_than a b \<Longrightarrow> is_newer_than b c \<Longrightarrow> is_newer_than a c"
  by (auto simp: is_newer_than_def)

lemma newer_asym: "is_newer_than a b \<Longrightarrow> \<not> is_newer_than b a"
  by (auto simp: is_newer_than_def)

lemma not_newer_trans: "\<not> is_newer_than a b \<Longrightarrow> \<not> is_newer_than b c \<Longrightarrow> \<not> is_newer_than a c"
  unfolding is_newer_than_def not_less de_Morgan_disj de_Morgan_conj
  by (metis order.trans order.antisym order.refl)

lemma newer_total: "is_newer_than a b \<or> is_newer_than b a \<or> sl_version a = sl_version b \<and> sl_editor a = sl_editor b"
  by (auto simp: is_newer_than_def not_less_iff_gr_or_eq)

definition keep_all :: "SharedLayout list \<Rightarrow> SharedLayout option \<Rightarrow> SharedLayout option" where
  "keep_all layouts current = fold (\<lambda>l c. snd (keep_layout l c)) layouts current"

lemma keep_all_best:
  assumes "keep_all layouts current = Some best"
  shows "(best \<in> set layouts \<or> current = Some best) \<and>
    (\<forall>l. l \<in> set layouts \<or> current = Some l \<longrightarrow> \<not> is_newer_than l best)"
  using assms
proof (induction layouts arbitrary: current)
  case (Cons x xs)
  let ?c = "snd (keep_layout x current)"
  have IH: "(best \<in> set xs \<or> ?c = Some best) \<and> (\<forall>l. l \<in> set xs \<or> ?c = Some l \<longrightarrow> \<not> is_newer_than l best)"
    using Cons by (simp add: keep_all_def)
  show ?case
  proof (cases "case current of None \<Rightarrow> False | Some kept \<Rightarrow> \<not> is_newer_than x kept")
    case True
    then obtain kept where kept: "current = Some kept" "\<not> is_newer_than x kept" by (auto split: option.splits)
    then have "\<not> is_newer_than x best"
      using IH not_newer_trans [OF kept(2), of best] by (simp add: keep_layout_def)
    with IH kept show ?thesis by (auto simp: keep_layout_def)
  next
    case False
    then have c: "?c = Some x" by (auto simp: keep_layout_def split: option.splits)
    have "\<not> is_newer_than kept best" if "current = Some kept" for kept
      using IH False that c not_newer_trans [OF newer_asym, of x kept best] by auto
    with IH c show ?thesis by auto
  qed
qed (simp add: keep_all_def newer_asym is_newer_than_def)

lemma keep_all_Some: "layouts \<noteq> [] \<Longrightarrow> keep_all layouts current \<noteq> None"
proof -
  have "current \<noteq> None \<Longrightarrow> keep_all layouts current \<noteq> None" for layouts current
    by (induction layouts arbitrary: current) (auto simp: keep_all_def keep_layout_def)
  then show "layouts \<noteq> [] \<Longrightarrow> keep_all layouts current \<noteq> None"
    by (cases layouts) (auto simp: keep_all_def keep_layout_def split: option.splits)
qed

text \<open>
  C31: Computers that have seen the same layouts agree. Starting with nothing kept, two computers that
  receive the same set of layouts, in any order and any number of times, end up keeping the same
  one: the newest. The hypothesis is that a version number and editor name one layout.
\<close>

theorem newest_layout_converges:
  assumes "set layouts = set layouts'" and "layouts \<noteq> []"
    and "\<forall>a \<in> set layouts. \<forall>b \<in> set layouts. sl_version a = sl_version b \<and> sl_editor a = sl_editor b \<longrightarrow> a = b"
  shows "\<exists>best \<in> set layouts. keep_all layouts None = Some best \<and> keep_all layouts' None = Some best \<and>
           (\<forall>l \<in> set layouts. \<not> is_newer_than l best)"
proof -
  have "layouts' \<noteq> []" using assms(1,2) by auto
  then obtain a b where a: "keep_all layouts None = Some a" and b: "keep_all layouts' None = Some b"
    using keep_all_Some [OF assms(2), of None] keep_all_Some [of layouts' None] by auto
  from keep_all_best [OF a] keep_all_best [OF b] assms(1) have ab: "a \<in> set layouts" "b \<in> set layouts"
    "\<not> is_newer_than a b" "\<not> is_newer_than b a" and best: "\<forall>l \<in> set layouts. \<not> is_newer_than l a" by auto
  with newer_total [of a b] assms(3) have "a = b" by blast
  with a b ab best show ?thesis by blast
qed

section \<open>Geometry and responses\<close>

lemma i32_eq_iff: "a = b \<longleftrightarrow> sint a = sint (b :: i32)"
  by (auto intro: signed_word_eqI)

lemma sint_i32_of_int: "- (2 ^ 31) \<le> v \<Longrightarrow> v < 2 ^ 31 \<Longrightarrow> sint (word_of_int v :: i32) = v"
  by (simp add: sint_sbintrunc' signed_take_bit_int_eq_self)

lemma uint_u32_of_int: "0 \<le> v \<Longrightarrow> v < 4294967296 \<Longrightarrow> uint (word_of_int v :: u32) = v"
  by (simp add: uint_word_of_int_eq take_bit_int_eq_self)

text \<open>One axis of the bounding box: nothing wraps around.\<close>

lemma box_axis:
  fixes at :: "'a \<Rightarrow> i32" and extent :: "'a \<Rightarrow> u32"
  assumes "finite A" and "A \<noteq> {}" and "\<And>r. r \<in> A \<Longrightarrow> \<bar>sint (at r)\<bar> \<le> 65536" and "\<And>r. r \<in> A \<Longrightarrow> uint (extent r) \<le> 16384"
  shows "sint (word_of_int (Min (sint ` at ` A)) :: i32) = Min (sint ` at ` A)"
    and "uint (word_of_int (Max ((\<lambda>r. sint (at r) + uint (extent r)) ` A) - Min (sint ` at ` A)) :: u32) =
      Max ((\<lambda>r. sint (at r) + uint (extent r)) ` A) - Min (sint ` at ` A)"
proof -
  let ?X = "sint ` at ` A" and ?R = "(\<lambda>r. sint (at r) + uint (extent r)) ` A"
  have "Min ?X \<in> ?X" "Max ?R \<in> ?R" using assms(1,2) by (auto intro!: Min_in Max_in)
  then obtain r r' where r: "r \<in> A" "Min ?X = sint (at r)" and r': "r' \<in> A" "Max ?R = sint (at r') + uint (extent r')"
    by auto
  show "sint (word_of_int (Min ?X) :: i32) = Min ?X"
    using assms(3) [OF r(1)] r(2) by (intro sint_i32_of_int) auto
  have "Min ?X \<le> sint (at r')" using r'(1) assms(1) by auto
  moreover have "0 \<le> uint (extent r')" by (rule uint_ge_0)
  ultimately show "uint (word_of_int (Max ?R - Min ?X) :: u32) = Max ?R - Min ?X"
    using assms(3) [OF r(1)] assms(3) [OF r'(1)] assms(4) [OF r'(1)] r(2) r'(2)
    by (intro uint_u32_of_int) linarith+
qed

text \<open>
  The bounds of a desktop are its bounding box. Whenever \<open>bounds\<close> succeeds, the rectangle has not
  wrapped around, contains every point of every monitor, and each of its four sides is reached by a
  monitor, so no smaller rectangle would do.
\<close>

theorem bounds_is_bounding_box:
  assumes "bounds g = Inr b"
  shows "(\<forall>r \<in> set (ge_monitors g). \<forall>p. rect_contains r p \<longrightarrow> rect_contains b p) \<and>
         (\<exists>r \<in> set (ge_monitors g). rc_x r = rc_x b) \<and> (\<exists>r \<in> set (ge_monitors g). rc_y r = rc_y b) \<and>
         (\<exists>r \<in> set (ge_monitors g). sint (rc_x r) + uint (rc_width r) = sint (rc_x b) + uint (rc_width b)) \<and>
         (\<exists>r \<in> set (ge_monitors g). sint (rc_y r) + uint (rc_height r) = sint (rc_y b) + uint (rc_height b))"
proof -
  let ?X = "sint ` rc_x ` set (ge_monitors g)" and ?Y = "sint ` rc_y ` set (ge_monitors g)"
  let ?R = "(\<lambda>r. sint (rc_x r) + uint (rc_width r)) ` set (ge_monitors g)"
  let ?B = "(\<lambda>r. sint (rc_y r) + uint (rc_height r)) ` set (ge_monitors g)"
  from assms obtain u where v: "validate_monitors (ge_monitors g) = Inr u"
    and b: "b = \<lparr>rc_x = word_of_int (Min ?X), rc_y = word_of_int (Min ?Y),
      rc_width = word_of_int (Max ?R - Min ?X), rc_height = word_of_int (Max ?B - Min ?Y)\<rparr>"
    by (auto simp: bounds_def geometry_validate_def result_then_Inr Let_def)
  from v have ne: "ge_monitors g \<noteq> []" by (auto simp: validate_monitors_def result_then_Inr)
  have m: "\<bar>sint (rc_x r)\<bar> \<le> 65536 \<and> \<bar>sint (rc_y r)\<bar> \<le> 65536 \<and> uint (rc_width r) \<le> 16384 \<and> uint (rc_height r) \<le> 16384"
    if "r \<in> set (ge_monitors g)" for r
    using v that by (auto simp: validate_monitors_def result_then_Inr for_each_Inr word_le_def)
  have x: "sint (rc_x b) = Min ?X" "sint (rc_x b) + uint (rc_width b) = Max ?R"
    using box_axis [of "set (ge_monitors g)" rc_x rc_width] ne m b by simp_all
  have y: "sint (rc_y b) = Min ?Y" "sint (rc_y b) + uint (rc_height b) = Max ?B"
    using box_axis [of "set (ge_monitors g)" rc_y rc_height] ne m b by simp_all
  have "rect_contains b p" if "r \<in> set (ge_monitors g)" "rect_contains r p" for r p
  proof -
    have "Min ?X \<le> sint (rc_x r)" "Min ?Y \<le> sint (rc_y r)"
      "sint (rc_x r) + uint (rc_width r) \<le> Max ?R" "sint (rc_y r) + uint (rc_height r) \<le> Max ?B"
      using that(1) by auto
    with that(2) x y show ?thesis by (auto simp: rect_contains_def)
  qed
  moreover have "Min ?X \<in> ?X" "Min ?Y \<in> ?Y" "Max ?R \<in> ?R" "Max ?B \<in> ?B"
    using ne by (auto intro!: Min_in Max_in)
  ultimately show ?thesis using x y by (auto simp: i32_eq_iff)
qed

lemma utf8_width_le: "utf8_width c \<le> 4"
  by (simp add: utf8_width_def)

lemma str_len_le: "str_len s \<le> 4 * length s"
  using sum_list_mono [of s utf8_width "\<lambda>_. 4", OF utf8_width_le]
  by (simp add: str_len_def sum_list_triv mult.commute)

text \<open>
  A diagnostic can always be sent. \<open>DesktopResponse::unavailable\<close> cuts any reason to 256
  characters, which never exceeds the 1024 bytes that \<open>validate\<close> allows, so the response it builds
  is valid whatever the reason.
\<close>

theorem unavailable_is_valid: "response_validate (unavailable reason) = Inr ()"
  using str_len_le [of "take 256 reason"] by (simp add: unavailable_def)

section \<open>Sample layouts, at which the theorems above apply\<close>

definition sample_key :: "nat \<Rightarrow> rust_string" where
  "sample_key n = replicate 64 (0x30 + n)"

definition sample_tile :: "nat \<Rightarrow> i32 \<Rightarrow> Tile" where
  "sample_tile n x =
     \<lparr>tl_key = sample_key n, tl_display = None, tl_x = x, tl_y = 0, tl_width = 100, tl_height = 100\<rparr>"

definition sample_layout :: "u64 \<Rightarrow> Tile list \<Rightarrow> SharedLayout" where
  "sample_layout version tiles = \<lparr>sl_version = version, sl_editor = sample_key 0, sl_tiles = tiles\<rparr>"

definition sample_geometry :: Geometry where
  "sample_geometry =
     \<lparr>ge_monitors = [\<lparr>rc_x = -5, rc_y = 0, rc_width = 1920, rc_height = 1080\<rparr>], ge_displays = []\<rparr>"

lemma sample_key_fingerprint: "n \<le> 9 \<Longrightarrow> fingerprint (sample_key n)"
  by (simp add: fingerprint_def sample_key_def str_len_def sum_list_replicate utf8_width_def list_all_iff)

lemma sample_key_inject [simp]: "sample_key m = sample_key n \<longleftrightarrow> m = n"
  by (simp add: sample_key_def)

theorem overlap_and_contact_witness:
  "touching (sample_tile 1 100) (sample_tile 0 0) = Some EdgeLeft \<and>
   \<not> (\<exists>px py. tile_covers (sample_tile 0 0) px py \<and> tile_covers (sample_tile 1 100) px py)"
proof -
  have "touching (sample_tile 0 0) (sample_tile 1 100) = Some EdgeRight"
    by (simp add: touching_def sample_tile_def span_def)
  moreover have "0 < tl_width (sample_tile n x)" "0 < tl_height (sample_tile n x)" for n x
    by (simp_all add: sample_tile_def)
  ultimately show ?thesis using overlap_and_contact [of "sample_tile 0 0" "sample_tile 1 100"] by auto
qed

theorem newest_layout_converges_witness:
  "keep_all [sample_layout 7 [], sample_layout 8 []] None = keep_all [sample_layout 8 [], sample_layout 7 []] None"
proof -
  let ?a = "sample_layout 7 []" and ?b = "sample_layout 8 []"
  have "\<forall>a \<in> set [?a, ?b]. \<forall>b \<in> set [?a, ?b]. sl_version a = sl_version b \<and> sl_editor a = sl_editor b \<longrightarrow> a = b"
    by (simp add: sample_layout_def)
  from newest_layout_converges [OF _ _ this, of "[?b, ?a]"] show ?thesis by (simp add: insert_commute) auto
qed

theorem bounds_is_bounding_box_witness:
  "\<exists>b. bounds sample_geometry = Inr b \<and> sint (rc_x b) + uint (rc_width b) = 1915"
proof -
  have "geometry_validate sample_geometry = Inr ()"
    by (simp add: geometry_validate_def sample_geometry_def validate_monitors_def validate_displays_def ensure_def)
  then obtain b where b: "bounds sample_geometry = Inr b" by (auto simp: bounds_def Let_def)
  from bounds_is_bounding_box [OF b] b show ?thesis by (auto simp: sample_geometry_def)
qed

end
