(* ===== verification/Relay.thy ===== *)
theory Relay
  imports Desktop "HOL-Library.Multiset"
begin

text \<open>
  Desktop requests over the control stream (\<open>src/src/session/desktop.rs\<close>): at most one request waits in each
  direction. \<open>dr_log\<close> is what the relay sent to the peer, gave to the local desktop and answered to local callers;
  a reply channel of a local caller is a number. Time is the instant at which a method is called.
\<close>

section \<open>The relay\<close>

definition REQUEST_TIMEOUT :: duration where
  "REQUEST_TIMEOUT = from_millis 1000"

datatype RelayOutput =
    DesktopToPeer DesktopMessage
  | RequestToDesktop DesktopRequest
  | AnswerToCaller nat DesktopResponse
  | LayoutToDaemon SharedLayout

datatype RelayError =
    OverlappingRequests
  | UnexpectedResponse
  | ResponseIdMismatch
  | OrderingTimedOut
  | ReceiverTimedOut
  | ReceiverStopped
  | RelayChannelClosed
  | EventQueueFull
  | RelayPanicked

record RelayWorld =
  rw_desktop_sent :: "DesktopMessage \<Rightarrow> bool"
  rw_emitted :: "RelayOutput \<Rightarrow> bool"

record DesktopRelay =
  dr_waiter :: "(u64 \<times> nat) option"
  dr_incoming :: "(u64 \<times> DesktopRequest \<times> instant) option"
  dr_reply :: "(u64 \<times> instant) option"
  dr_log :: "RelayOutput list"

type_synonym relay_op = "DesktopRelay \<Rightarrow> (RelayError + unit) \<times> DesktopRelay"

definition relay_default :: DesktopRelay where
  "relay_default = \<lparr>dr_waiter = None, dr_incoming = None, dr_reply = None, dr_log = []\<rparr>"

definition relay_log :: "RelayOutput \<Rightarrow> DesktopRelay \<Rightarrow> DesktopRelay" where
  "relay_log out r = r\<lparr>dr_log := dr_log r @ [out]\<rparr>"

definition send_desktop :: "RelayWorld \<Rightarrow> DesktopMessage \<Rightarrow> relay_op" where
  "send_desktop w message r =
     (if rw_desktop_sent w message then (Inr (), relay_log (DesktopToPeer message) r) else (Inl RelayChannelClosed, r))"

definition relay_emit :: "RelayWorld \<Rightarrow> RelayOutput \<Rightarrow> relay_op" where
  "relay_emit w out r = (if rw_emitted w out then (Inr (), relay_log out r) else (Inl EventQueueFull, r))"

text \<open>The text of the answer to a caller whose request is refused.\<close>

definition ALREADY_PENDING :: rust_string where
  "ALREADY_PENDING = map of_char ''A desktop request is already pending''"

definition relay_request :: "RelayWorld \<Rightarrow> u64 \<Rightarrow> DesktopRequest \<Rightarrow> nat \<Rightarrow> relay_op" where
  "relay_request w number request caller r =
     (if dr_waiter r \<noteq> None then (Inr (), relay_log (AnswerToCaller caller (unavailable ALREADY_PENDING)) r)
      else try_then (send_desktop w (DeskRequest number request)) (\<lambda>_ r. (Inr (), r\<lparr>dr_waiter := Some (number, caller)\<rparr>)) r)"

fun relay_receive :: "RelayWorld \<Rightarrow> DesktopMessage \<Rightarrow> instant \<Rightarrow> relay_op" where
  "relay_receive w (DeskRequest number request) now r =
     (if dr_incoming r = None \<and> dr_reply r = None then (Inr (), r\<lparr>dr_incoming := Some (number, request, now)\<rparr>)
      else (Inl OverlappingRequests, r))"
| "relay_receive w (DeskResponse number response) now r =
     (case dr_waiter r of
        None \<Rightarrow> (Inl UnexpectedResponse, r)
      | Some (expected, caller) \<Rightarrow>
          (let r1 = r\<lparr>dr_waiter := None\<rparr>
           in if number \<noteq> expected then (Inl ResponseIdMismatch, r1)
              else (Inr (), relay_log (AnswerToCaller caller response) r1)))"
| "relay_receive w (DeskLayout layout) now r = relay_emit w (LayoutToDaemon layout) r"

text \<open>\<open>Finish\<close> waits until the activation is closed, every request until no control is deferred.\<close>

definition may_dispatch :: "bool \<Rightarrow> bool \<Rightarrow> DesktopRequest \<Rightarrow> bool" where
  "may_dispatch controls_pending activation_open request \<longleftrightarrow>
     \<not> controls_pending \<and> ((case request of ReqFinish _ \<Rightarrow> False | _ \<Rightarrow> True) \<or> \<not> activation_open)"

definition dispatch :: "RelayWorld \<Rightarrow> bool \<Rightarrow> bool \<Rightarrow> instant \<Rightarrow> relay_op" where
  "dispatch w controls_pending activation_open now r =
     (case dr_incoming r of
        None \<Rightarrow> (Inr (), r)
      | Some (number, request, started) \<Rightarrow>
          if now - started \<ge> REQUEST_TIMEOUT then (Inl OrderingTimedOut, r)
          else if may_dispatch controls_pending activation_open request \<and> dr_reply r = None
          then try_then (relay_emit w (RequestToDesktop request)) (\<lambda>_ r. (Inr (), r\<lparr>dr_reply := Some (number, started)\<rparr>))
                 (r\<lparr>dr_incoming := None\<rparr>)
          else (Inr (), r))"

text \<open>
  Waiting for the local desktop: \<open>None\<close> while there is nothing to wait for or no answer yet. The answer is looked at
  before the deadline.
\<close>

datatype Receipt = ReceiptOpen | ReceiptAnswered DesktopResponse | ReceiptDropped

definition next_reply :: "Receipt \<Rightarrow> instant \<Rightarrow> DesktopRelay \<Rightarrow> (RelayError + (u64 \<times> DesktopResponse)) option" where
  "next_reply receipt now r =
     (case dr_reply r of
        None \<Rightarrow> None
      | Some (number, started) \<Rightarrow>
         (case receipt of
            ReceiptAnswered response \<Rightarrow> Some (Inr (number, response))
          | ReceiptDropped \<Rightarrow> Some (Inl ReceiverStopped)
          | ReceiptOpen \<Rightarrow> if started + REQUEST_TIMEOUT \<le> now then Some (Inl ReceiverTimedOut) else None))"

definition send_reply :: "RelayWorld \<Rightarrow> u64 \<Rightarrow> DesktopResponse \<Rightarrow> relay_op" where
  "send_reply w number response r =
     (if dr_reply r = None then (Inl RelayPanicked, r)
      else send_desktop w (DeskResponse number response) (r\<lparr>dr_reply := None\<rparr>))"

text \<open>The arm of the session loop that waits for a reply.\<close>

definition reply_arm :: "RelayWorld \<Rightarrow> Receipt \<Rightarrow> instant \<Rightarrow> relay_op" where
  "reply_arm w receipt now r =
     (case next_reply receipt now r of
        None \<Rightarrow> (Inr (), r)
      | Some (Inl e) \<Rightarrow> (Inl e, r)
      | Some (Inr (number, response)) \<Rightarrow> send_reply w number response r)"

section \<open>Runs\<close>

datatype RelayOp =
    RelayRequest u64 DesktopRequest nat
  | RelayReceive DesktopMessage
  | RelayDispatch bool bool
  | RelayReply Receipt

fun relay_step :: "RelayWorld \<Rightarrow> RelayOp \<Rightarrow> instant \<Rightarrow> relay_op" where
  "relay_step w (RelayRequest number request caller) now r = relay_request w number request caller r"
| "relay_step w (RelayReceive message) now r = relay_receive w message now r"
| "relay_step w (RelayDispatch controls_pending activation_open) now r = dispatch w controls_pending activation_open now r"
| "relay_step w (RelayReply receipt) now r = reply_arm w receipt now r"

fun relay_run :: "(RelayWorld \<times> RelayOp \<times> instant) list \<Rightarrow> relay_op" where
  "relay_run [] r = (Inr (), r)"
| "relay_run ((w, op, now) # ops) r = try_then (relay_step w op now) (\<lambda>_. relay_run ops) r"

text \<open>What a run was asked, and what it answered.\<close>

fun peer_request :: "RelayOp \<Rightarrow> (u64 \<times> DesktopRequest) option" where
  "peer_request (RelayReceive (DeskRequest number request)) = Some (number, request)"
| "peer_request _ = None"

fun peer_response :: "RelayOp \<Rightarrow> (u64 \<times> DesktopResponse) option" where
  "peer_response (RelayReceive (DeskResponse number response)) = Some (number, response)"
| "peer_response _ = None"

fun local_caller :: "RelayOp \<Rightarrow> nat option" where
  "local_caller (RelayRequest _ _ caller) = Some caller"
| "local_caller _ = None"

fun response_sent :: "RelayOutput \<Rightarrow> u64 option" where
  "response_sent (DesktopToPeer (DeskResponse number _)) = Some number"
| "response_sent _ = None"

fun request_sent :: "RelayOutput \<Rightarrow> u64 option" where
  "request_sent (DesktopToPeer (DeskRequest number _)) = Some number"
| "request_sent _ = None"

fun request_given :: "RelayOutput \<Rightarrow> DesktopRequest option" where
  "request_given (RequestToDesktop request) = Some request"
| "request_given _ = None"

fun caller_answered :: "RelayOutput \<Rightarrow> nat option" where
  "caller_answered (AnswerToCaller caller _) = Some caller"
| "caller_answered _ = None"

definition opt_list :: "'a option \<Rightarrow> 'a list" where
  "opt_list x = (case x of None \<Rightarrow> [] | Some a \<Rightarrow> [a])"

lemma opt_list_simps [simp]: "opt_list None = []" "opt_list (Some a) = [a]"
  by (simp_all add: opt_list_def)

text \<open>The account of a run so far: \<open>asked\<close> by the peer, \<open>heard\<close> from it, and the local \<open>callers\<close>.\<close>

definition accounted ::
  "(u64 \<times> DesktopRequest) list \<Rightarrow> (u64 \<times> DesktopResponse) list \<Rightarrow> nat list \<Rightarrow> DesktopRelay \<Rightarrow> bool"
where
  "accounted asked heard callers r \<longleftrightarrow>
     (dr_incoming r = None \<or> dr_reply r = None) \<and>
     map fst asked = List.map_filter response_sent (dr_log r) @ opt_list (map_option fst (dr_reply r)) @
       opt_list (map_option fst (dr_incoming r)) \<and>
     map snd asked = List.map_filter request_given (dr_log r) @ opt_list (map_option (\<lambda>(_, request, _). request) (dr_incoming r)) \<and>
     List.map_filter request_sent (dr_log r) = map fst heard @ opt_list (map_option fst (dr_waiter r)) \<and>
     mset callers = mset (List.map_filter caller_answered (dr_log r) @ opt_list (map_option snd (dr_waiter r)))"

lemma relay_log_fields [simp]:
  "dr_waiter (relay_log out r) = dr_waiter r" "dr_incoming (relay_log out r) = dr_incoming r"
  "dr_reply (relay_log out r) = dr_reply r" "dr_log (relay_log out r) = dr_log r @ [out]"
  by (simp_all add: relay_log_def)

lemma map_filter_append [simp]: "List.map_filter f (xs @ ys) = List.map_filter f xs @ List.map_filter f ys"
  by (simp add: List.map_filter_def)

lemma relay_step_accounted:
  assumes "accounted asked heard callers r" "relay_step w op now r = (Inr (), r')"
  shows "accounted (asked @ opt_list (peer_request op)) (heard @ opt_list (peer_response op)) (callers @ opt_list (local_caller op)) r'"
proof (cases op)
  case (RelayRequest number request caller)
  then show ?thesis using assms
    by (cases "dr_waiter r")
      (auto simp: accounted_def relay_request_def send_desktop_def try_then_def List.map_filter_simps split: if_splits)
next
  case (RelayReceive message)
  then show ?thesis using assms
    by (cases message)
      (auto simp: accounted_def relay_emit_def List.map_filter_simps Let_def split: if_splits option.splits)
next
  case (RelayDispatch controls_pending activation_open)
  then show ?thesis using assms
    by (auto simp: accounted_def dispatch_def relay_emit_def try_then_def List.map_filter_simps split: if_splits option.splits)
next
  case (RelayReply receipt)
  then show ?thesis using assms
    by (auto simp: accounted_def reply_arm_def next_reply_def send_reply_def send_desktop_def List.map_filter_simps
        split: if_splits option.splits Receipt.splits)
qed


definition peer_requests :: "(RelayWorld \<times> RelayOp \<times> instant) list \<Rightarrow> (u64 \<times> DesktopRequest) list" where
  "peer_requests ops = List.map_filter (\<lambda>(_, op, _). peer_request op) ops"

definition peer_responses :: "(RelayWorld \<times> RelayOp \<times> instant) list \<Rightarrow> (u64 \<times> DesktopResponse) list" where
  "peer_responses ops = List.map_filter (\<lambda>(_, op, _). peer_response op) ops"

definition local_callers :: "(RelayWorld \<times> RelayOp \<times> instant) list \<Rightarrow> nat list" where
  "local_callers ops = List.map_filter (\<lambda>(_, op, _). local_caller op) ops"

lemmas run_lists = peer_requests_def peer_responses_def local_callers_def

lemma relay_run_accounted:
  assumes "accounted asked heard callers r" "relay_run ops r = (Inr (), r')"
  shows "accounted (asked @ peer_requests ops) (heard @ peer_responses ops) (callers @ local_callers ops) r'"
  using assms
proof (induction ops arbitrary: asked heard callers r)
  case (Cons x ops)
  obtain w op now where x: "x = (w, op, now)" by (cases x)
  obtain r1 where step: "relay_step w op now r = (Inr (), r1)" "relay_run ops r1 = (Inr (), r')"
    using Cons.prems(2) by (auto simp: x try_then_Inr)
  from Cons.IH [OF relay_step_accounted [OF Cons.prems(1) step(1)] step(2)] show ?case
    by (auto simp: x run_lists opt_list_def split: option.splits)
qed (simp add: run_lists List.map_filter_simps)

lemma relay_default_accounted: "accounted [] [] [] relay_default"
  by (simp add: accounted_def relay_default_def List.map_filter_simps)

section \<open>Properties\<close>

text \<open>
  C5: Every desktop request is answered exactly once. Over any run of the relay that has not failed, of the
  requests that the peer made at most one is unanswered: the local desktop was given them in their order, and the
  responses sent to the peer carry their numbers in that order. The peer's responses to our requests match them
  in order, and every local caller either was answered exactly once or is the one that still waits.
\<close>

theorem relay_answers_exactly_once:
  assumes "relay_run ops relay_default = (Inr (), r)"
  shows "(dr_incoming r = None \<or> dr_reply r = None) \<and>
     map fst (peer_requests ops) = List.map_filter response_sent (dr_log r) @ opt_list (map_option fst (dr_reply r)) @
       opt_list (map_option fst (dr_incoming r)) \<and>
     map snd (peer_requests ops) = List.map_filter request_given (dr_log r) @
       opt_list (map_option (\<lambda>(_, request, _). request) (dr_incoming r)) \<and>
     List.map_filter request_sent (dr_log r) = map fst (peer_responses ops) @ opt_list (map_option fst (dr_waiter r)) \<and>
     mset (local_callers ops) =
       mset (List.map_filter caller_answered (dr_log r) @ opt_list (map_option snd (dr_waiter r)))"
  using relay_run_accounted [OF relay_default_accounted assms] by (simp add: accounted_def)

definition sample_relay_world :: RelayWorld where
  "sample_relay_world = \<lparr>rw_desktop_sent = (\<lambda>_. True), rw_emitted = (\<lambda>_. True)\<rparr>"

definition sample_relay_ops :: "(RelayWorld \<times> RelayOp \<times> instant) list" where
  "sample_relay_ops =
     [(sample_relay_world, RelayReceive (DeskRequest 7 (ReqFinish 3)), 0),
      (sample_relay_world, RelayDispatch False True, 1),
      (sample_relay_world, RelayDispatch False False, 2),
      (sample_relay_world, RelayReply (ReceiptAnswered RespFinished), 3)]"

lemma sample_relay_run:
  "relay_run sample_relay_ops relay_default =
     (Inr (), relay_default\<lparr>dr_log := [RequestToDesktop (ReqFinish 3), DesktopToPeer (DeskResponse 7 RespFinished)]\<rparr>)"
  by (simp add: sample_relay_ops_def relay_default_def sample_relay_world_def try_then_def dispatch_def may_dispatch_def
      REQUEST_TIMEOUT_def from_millis_def relay_emit_def relay_log_def reply_arm_def next_reply_def send_reply_def send_desktop_def)

theorem relay_answers_exactly_once_witness:
  "\<exists>r. relay_run sample_relay_ops relay_default = (Inr (), r) \<and> List.map_filter response_sent (dr_log r) = [7] \<and>
     List.map_filter request_given (dr_log r) = [ReqFinish 3]"
  using relay_answers_exactly_once [OF sample_relay_run] sample_relay_run
  by (simp add: sample_relay_ops_def run_lists List.map_filter_simps relay_default_def)

end
