(* ===== verification/Wire.thy ===== *)
theory Wire
  imports Model Desktop
begin

text \<open>
  The wire format (\<open>src/src/wire\<close>): a header of two magic bytes and a family byte, then the payload, with
  the limits checked before encoding and after decoding; and the lens stream on top of it
  (\<open>src/src/lens/wire.rs\<close>), which carries length-prefixed frames and tile packets.

  The payload codecs are third-party code (\<open>postcard\<close>, and \<open>serde_json\<close> for desktop messages) and are
  parameters here: a record \<open>Codecs\<close> with an encoder and a decoder per payload type. What is relied
  on is stated as a hypothesis where it is needed: a codec decodes what it encoded, with nothing left
  over. Byte counts (\<open>usize\<close>) are natural numbers.
\<close>

section \<open>Lens messages\<close>

definition TILE :: nat where
  "TILE = 64"

definition MAX_PIXELS :: nat where
  "MAX_PIXELS = 4096 * 2160"

definition MAX_CLIP_BYTES :: nat where
  "MAX_CLIP_BYTES = 3 * 1024 * 1024"

definition MAX_BODY_BYTES :: nat where
  "MAX_BODY_BYTES = MAX_PIXELS * 4 + 64 * 1024"

definition MAX_TEXT_BYTES :: nat where
  "MAX_TEXT_BYTES = MAX_CLIP_BYTES"

definition MAX_REASON_BYTES :: nat where
  "MAX_REASON_BYTES = 256"

definition MAX_RADIUS :: u16 where
  "MAX_RADIUS = 2048"

datatype LensMessage =
    LensMove u16 u16 u16 u64
  | LensAck u64
  | LensButton u8 bool
  | LensKey HidUsage bool
  | LensScroll i32 i32
  | LensCopy
  | LensReady u16 u16
  | LensFrame u64 u64 bool
  | LensCopied rust_string
  | LensRefused rust_string

datatype LensInvalid = RadiusOutOfRange | UnknownButton | UnsupportedDesktopSize | TextTooLong | ReasonTooLong

text \<open>\<open>tiles::dimensions\<close>: the number of tiles of a supported desktop; \<open>Decoder::new\<close> fails only here.\<close>

definition div_ceil :: "nat \<Rightarrow> nat \<Rightarrow> nat" where
  "div_ceil a b = (a + b - 1) div b"

definition dimensions :: "nat \<Rightarrow> nat \<Rightarrow> nat option" where
  "dimensions width height =
     (if width > 0 \<and> height > 0 \<and> width \<le> 4096 \<and> height \<le> 2160
      then Some (div_ceil width TILE * div_ceil height TILE) else None)"

fun lens_validate :: "LensMessage \<Rightarrow> LensInvalid + unit" where
  "lens_validate (LensMove _ _ radius _) = ensure (1 \<le> radius \<and> radius \<le> MAX_RADIUS) RadiusOutOfRange"
| "lens_validate (LensButton button _) = ensure (1 \<le> button \<and> button \<le> 5) UnknownButton"
| "lens_validate (LensReady width height) =
     ensure (dimensions (unat width) (unat height) \<noteq> None) UnsupportedDesktopSize"
| "lens_validate (LensCopied s) = ensure (str_len s \<le> MAX_TEXT_BYTES) TextTooLong"
| "lens_validate (LensRefused reason) = ensure (str_len reason \<le> MAX_REASON_BYTES) ReasonTooLong"
| "lens_validate _ = Inr ()"

section \<open>Families and messages\<close>

definition MAGIC :: "u8 list" where
  "MAGIC = [0x5a, 0x46]"

definition HEADER_BYTES :: nat where
  "HEADER_BYTES = 3"

definition MAX_NEGOTIATION_PAYLOAD_BYTES :: nat where
  "MAX_NEGOTIATION_PAYLOAD_BYTES = 4 * 1024"

definition MAX_RELIABLE_PAYLOAD_BYTES :: nat where
  "MAX_RELIABLE_PAYLOAD_BYTES = 32 * 1024"

definition MAX_MOTION_PAYLOAD_BYTES :: nat where
  "MAX_MOTION_PAYLOAD_BYTES = 8 * 1024"

definition MAX_PROBE_PAYLOAD_BYTES :: nat where
  "MAX_PROBE_PAYLOAD_BYTES = 128"

definition MAX_HELLO_PAYLOAD_BYTES :: nat where
  "MAX_HELLO_PAYLOAD_BYTES = 1024"

definition MAX_LENS_PAYLOAD_BYTES :: nat where
  "MAX_LENS_PAYLOAD_BYTES = MAX_TEXT_BYTES + 64"

definition MAX_NAME_BYTES :: nat where
  "MAX_NAME_BYTES = 63"

definition MAX_VERSION_BYTES :: nat where
  "MAX_VERSION_BYTES = 32"

definition MAX_DISCOVERY_CANDIDATES :: nat where
  "MAX_DISCOVERY_CANDIDATES = 16"

datatype Family =
    FamNegotiationOffer | FamNegotiatedSession | FamReliableControl | FamMotion | FamProbe
  | FamDesktop | FamHello | FamLens

text \<open>The discriminants of the enum, as \<open>family as u8\<close> writes them.\<close>

fun family_byte :: "Family \<Rightarrow> u8" where
  "family_byte FamNegotiationOffer = 1"
| "family_byte FamNegotiatedSession = 2"
| "family_byte FamReliableControl = 3"
| "family_byte FamMotion = 4"
| "family_byte FamProbe = 5"
| "family_byte FamDesktop = 7"
| "family_byte FamHello = 8"
| "family_byte FamLens = 9"

fun maximum_payload_bytes :: "Family \<Rightarrow> nat" where
  "maximum_payload_bytes FamNegotiationOffer = MAX_NEGOTIATION_PAYLOAD_BYTES"
| "maximum_payload_bytes FamNegotiatedSession = MAX_NEGOTIATION_PAYLOAD_BYTES"
| "maximum_payload_bytes FamReliableControl = MAX_RELIABLE_PAYLOAD_BYTES"
| "maximum_payload_bytes FamMotion = MAX_MOTION_PAYLOAD_BYTES"
| "maximum_payload_bytes FamProbe = MAX_PROBE_PAYLOAD_BYTES"
| "maximum_payload_bytes FamDesktop = MAX_MESSAGE_BYTES"
| "maximum_payload_bytes FamHello = MAX_HELLO_PAYLOAD_BYTES"
| "maximum_payload_bytes FamLens = MAX_LENS_PAYLOAD_BYTES"

datatype Invalid =
    AnchorActivationDiffers | ZeroInputPort | InvalidLens LensInvalid | InvalidDesktop DesktopError
  | JsonInvalid

datatype WireError =
    TooShort
  | BadMagic
  | UnknownFamily u8
  | FamilyMismatch Family Family
  | SizeLimit string nat nat
  | CodecError
  | TrailingPayload
  | InvalidMessage Invalid

definition family_try_from :: "u8 \<Rightarrow> WireError + Family" where
  "family_try_from value =
     (if value = 1 then Inr FamNegotiationOffer
      else if value = 2 then Inr FamNegotiatedSession
      else if value = 3 then Inr FamReliableControl
      else if value = 4 then Inr FamMotion
      else if value = 5 then Inr FamProbe
      else if value = 7 then Inr FamDesktop
      else if value = 8 then Inr FamHello
      else if value = 9 then Inr FamLens
      else Inl (UnknownFamily value))"

datatype Os = Linux | Macos | Windows

text \<open>A socket address is only carried and counted here; it stays abstract.\<close>

record 'addr Hello =
  he_name :: rust_string
  he_os :: Os
  he_version :: rust_string
  he_input_port :: u16
  he_candidates :: "'addr list"
  he_trusts_you :: bool
  he_vouches :: "u8 list list"

datatype 'addr WireMessage =
    WNegotiationOffer NegotiationOffer
  | WNegotiatedSession NegotiatedSession
  | WReliableControl ReliableControlMessage
  | WMotion MotionFrame
  | WProbe ProbeMessage
  | WDesktop DesktopMessage
  | WHello "'addr Hello"
  | WLens LensMessage

fun family :: "'addr WireMessage \<Rightarrow> Family" where
  "family (WNegotiationOffer _) = FamNegotiationOffer"
| "family (WNegotiatedSession _) = FamNegotiatedSession"
| "family (WReliableControl _) = FamReliableControl"
| "family (WMotion _) = FamMotion"
| "family (WProbe _) = FamProbe"
| "family (WDesktop _) = FamDesktop"
| "family (WHello _) = FamHello"
| "family (WLens _) = FamLens"

section \<open>Bounds\<close>

definition MAX_CONTACTS :: nat where
  "MAX_CONTACTS = 32"

definition MAX_HELD_KEYS :: nat where
  "MAX_HELD_KEYS = 32"

definition MAX_HELD_BUTTONS :: nat where
  "MAX_HELD_BUTTONS = 16"

definition limit :: "string \<Rightarrow> nat \<Rightarrow> nat \<Rightarrow> WireError + unit" where
  "limit what actual maximum = (if actual > maximum then Inl (SizeLimit what actual maximum) else Inr ())"

definition touch :: "TouchState \<Rightarrow> WireError + unit" where
  "touch state = limit ''touch contacts'' (touch_len state) MAX_CONTACTS"

fun validate_payload :: "ReliableControl \<Rightarrow> WireError + unit" where
  "validate_payload (TouchBegin initial_state) = touch initial_state"
| "validate_payload (CtlStateSnapshot snap) =
     result_then (limit ''pressed keys'' (fcard (pressed_keys (sn_held snap))) MAX_HELD_KEYS) (\<lambda>_.
     result_then (limit ''pressed buttons'' (fcard (pressed_buttons (sn_held snap))) MAX_HELD_BUTTONS) (\<lambda>_.
     touch (active_touch (sn_held snap))))"
| "validate_payload _ = Inr ()"

fun validate :: "'addr WireMessage \<Rightarrow> WireError + unit" where
  "validate (WNegotiationOffer offer) =
     limit ''maximum contacts'' (unat (of_maximum_contacts offer)) MAX_CONTACTS"
| "validate (WNegotiatedSession session) =
     limit ''contact limit'' (unat (ns_contact_limit session)) MAX_CONTACTS"
| "validate (WReliableControl message) =
     result_then
       (case motion_anchor (m_payload message) of
          None \<Rightarrow> Inr ()
        | Some an \<Rightarrow>
            if an_activation_id an \<noteq> activation_id (m_session message)
            then Inl (InvalidMessage AnchorActivationDiffers)
            else touch (an_final_touch_state an))
       (\<lambda>_. validate_payload (m_payload message))"
| "validate (WMotion frame) =
     (case f_touch_snapshot frame of None \<Rightarrow> Inr () | Some t \<Rightarrow> touch t)"
| "validate (WProbe _) = Inr ()"
| "validate (WLens message) = map_err (InvalidMessage \<circ> InvalidLens) (lens_validate message)"
| "validate (WHello hello) =
     result_then (limit ''name bytes'' (str_len (he_name hello)) MAX_NAME_BYTES) (\<lambda>_.
     result_then (limit ''version bytes'' (str_len (he_version hello)) MAX_VERSION_BYTES) (\<lambda>_.
     result_then (limit ''hello candidates'' (length (he_candidates hello)) MAX_DISCOVERY_CANDIDATES) (\<lambda>_.
     if he_input_port hello = 0 then Inl (InvalidMessage ZeroInputPort) else Inr ())))"
| "validate (WDesktop message) = map_err (InvalidMessage \<circ> InvalidDesktop) (message_validate message)"

section \<open>Codecs\<close>

text \<open>
  A payload codec: \<open>postcard::to_extend\<close> appends the encoding of a value or fails,
  \<open>postcard::take_from_bytes\<close> returns a value and the bytes left over or fails.
\<close>

record 'a codec =
  to_extend :: "'a \<Rightarrow> u8 list option"
  take_from_bytes :: "u8 list \<Rightarrow> ('a \<times> u8 list) option"

record 'addr Codecs =
  c_offer :: "NegotiationOffer codec"
  c_session :: "NegotiatedSession codec"
  c_control :: "ReliableControlMessage codec"
  c_motion :: "MotionFrame codec"
  c_probe :: "ProbeMessage codec"
  c_hello :: "'addr Hello codec"
  c_lens :: "LensMessage codec"
  c_json_to_writer :: "DesktopMessage \<Rightarrow> u8 list option"
  c_json_from_slice :: "u8 list \<Rightarrow> DesktopMessage option"

definition codec_encode :: "'a codec \<Rightarrow> 'a \<Rightarrow> u8 list \<Rightarrow> WireError + u8 list" where
  "codec_encode c v bytes = (case to_extend c v of None \<Rightarrow> Inl CodecError | Some e \<Rightarrow> Inr (bytes @ e))"

definition codec_decode :: "'a codec \<Rightarrow> u8 list \<Rightarrow> WireError + 'a" where
  "codec_decode c payload =
     (case take_from_bytes c payload of
        None \<Rightarrow> Inl CodecError
      | Some (v, remainder) \<Rightarrow> if remainder \<noteq> [] then Inl TrailingPayload else Inr v)"

section \<open>Framing\<close>

definition check_payload_size :: "Family \<Rightarrow> nat \<Rightarrow> WireError + unit" where
  "check_payload_size fam actual = limit ''payload bytes'' actual (maximum_payload_bytes fam)"

fun frame_bytes :: "'addr Codecs \<Rightarrow> u8 list \<Rightarrow> 'addr WireMessage \<Rightarrow> WireError + u8 list" where
  "frame_bytes cs header (WNegotiationOffer v) = codec_encode (c_offer cs) v header"
| "frame_bytes cs header (WNegotiatedSession v) = codec_encode (c_session cs) v header"
| "frame_bytes cs header (WReliableControl v) = codec_encode (c_control cs) v header"
| "frame_bytes cs header (WMotion v) = codec_encode (c_motion cs) v header"
| "frame_bytes cs header (WProbe v) = codec_encode (c_probe cs) v header"
| "frame_bytes cs header (WHello v) = codec_encode (c_hello cs) v header"
| "frame_bytes cs header (WLens v) = codec_encode (c_lens cs) v header"
| "frame_bytes cs header (WDesktop v) =
     (case c_json_to_writer cs v of
        None \<Rightarrow> Inl (InvalidMessage JsonInvalid) | Some e \<Rightarrow> Inr (header @ e))"

definition frame :: "'addr Codecs \<Rightarrow> 'addr WireMessage \<Rightarrow> WireError + u8 list" where
  "frame cs message =
     (let header = MAGIC @ [family_byte (family message)]
      in result_then (frame_bytes cs header message) (\<lambda>bytes.
         result_then (check_payload_size (family message) (length bytes - HEADER_BYTES)) (\<lambda>_.
         Inr bytes)))"

definition encode :: "'addr Codecs \<Rightarrow> 'addr WireMessage \<Rightarrow> WireError + u8 list" where
  "encode cs message = result_then (validate message) (\<lambda>_. frame cs message)"

fun decode_payload :: "'addr Codecs \<Rightarrow> Family \<Rightarrow> u8 list \<Rightarrow> WireError + 'addr WireMessage" where
  "decode_payload cs FamNegotiationOffer payload =
     result_then (codec_decode (c_offer cs) payload) (Inr \<circ> WNegotiationOffer)"
| "decode_payload cs FamNegotiatedSession payload =
     result_then (codec_decode (c_session cs) payload) (Inr \<circ> WNegotiatedSession)"
| "decode_payload cs FamReliableControl payload =
     result_then (codec_decode (c_control cs) payload) (Inr \<circ> WReliableControl)"
| "decode_payload cs FamMotion payload = result_then (codec_decode (c_motion cs) payload) (Inr \<circ> WMotion)"
| "decode_payload cs FamProbe payload = result_then (codec_decode (c_probe cs) payload) (Inr \<circ> WProbe)"
| "decode_payload cs FamHello payload = result_then (codec_decode (c_hello cs) payload) (Inr \<circ> WHello)"
| "decode_payload cs FamLens payload = result_then (codec_decode (c_lens cs) payload) (Inr \<circ> WLens)"
| "decode_payload cs FamDesktop payload =
     (case c_json_from_slice cs payload of
        None \<Rightarrow> Inl (InvalidMessage JsonInvalid) | Some v \<Rightarrow> Inr (WDesktop v))"

text \<open>The part of \<open>decode_inner\<close> before the payload is read: the family and the payload.\<close>

definition decode_header :: "u8 list \<Rightarrow> Family option \<Rightarrow> WireError + Family \<times> u8 list" where
  "decode_header bytes expected =
     (if length bytes < HEADER_BYTES then Inl TooShort
      else if take 2 bytes \<noteq> MAGIC then Inl BadMagic
      else result_then (family_try_from (bytes ! 2)) (\<lambda>fam.
        if (case expected of None \<Rightarrow> False | Some e \<Rightarrow> fam \<noteq> e)
        then Inl (FamilyMismatch (the expected) fam)
        else result_then (check_payload_size fam (length (drop HEADER_BYTES bytes))) (\<lambda>_.
          Inr (fam, drop HEADER_BYTES bytes))))"

definition decode_inner :: "'addr Codecs \<Rightarrow> u8 list \<Rightarrow> Family option \<Rightarrow> WireError + 'addr WireMessage" where
  "decode_inner cs bytes expected =
     result_then (decode_header bytes expected) (\<lambda>(fam, payload).
     result_then (decode_payload cs fam payload) (\<lambda>message.
     result_then (validate message) (\<lambda>_. Inr message)))"

definition decode :: "'addr Codecs \<Rightarrow> u8 list \<Rightarrow> WireError + 'addr WireMessage" where
  "decode cs bytes = decode_inner cs bytes None"

definition decode_family :: "'addr Codecs \<Rightarrow> u8 list \<Rightarrow> Family \<Rightarrow> WireError + 'addr WireMessage" where
  "decode_family cs bytes expected = decode_inner cs bytes (Some expected)"

section \<open>Round trip and limits\<close>

text \<open>What is relied on of a codec, at one value: it decodes what it encoded, with nothing left over.\<close>

definition roundtrips :: "'a codec \<Rightarrow> 'a \<Rightarrow> bool" where
  "roundtrips c v = (case to_extend c v of None \<Rightarrow> True | Some e \<Rightarrow> take_from_bytes c e = Some (v, []))"

fun codecs_roundtrip :: "'addr Codecs \<Rightarrow> 'addr WireMessage \<Rightarrow> bool" where
  "codecs_roundtrip cs (WNegotiationOffer v) = roundtrips (c_offer cs) v"
| "codecs_roundtrip cs (WNegotiatedSession v) = roundtrips (c_session cs) v"
| "codecs_roundtrip cs (WReliableControl v) = roundtrips (c_control cs) v"
| "codecs_roundtrip cs (WMotion v) = roundtrips (c_motion cs) v"
| "codecs_roundtrip cs (WProbe v) = roundtrips (c_probe cs) v"
| "codecs_roundtrip cs (WHello v) = roundtrips (c_hello cs) v"
| "codecs_roundtrip cs (WLens v) = roundtrips (c_lens cs) v"
| "codecs_roundtrip cs (WDesktop v) =
     (case c_json_to_writer cs v of None \<Rightarrow> True | Some e \<Rightarrow> c_json_from_slice cs e = Some v)"

lemma limit_Inr [simp]: "limit what actual maximum = Inr u \<longleftrightarrow> actual \<le> maximum"
  by (simp add: limit_def not_less)

lemma family_roundtrip [simp]: "family_try_from (family_byte fam) = Inr fam"
  by (cases fam) (simp_all add: family_try_from_def)

lemma family_try_from_Inr: "family_try_from b = Inr fam \<Longrightarrow> b = family_byte fam"
  by (auto simp: family_try_from_def split: if_splits)

lemma decode_payload_family: "decode_payload cs fam payload = Inr m \<Longrightarrow> family m = fam"
  by (cases fam) (auto simp: result_then_Inr split: option.splits)

lemma frame_bytes_Inr:
  assumes "frame_bytes cs header m = Inr bytes"
  obtains e where "bytes = header @ e" and "codecs_roundtrip cs m \<longrightarrow> decode_payload cs (family m) e = Inr m"
  using assms
  by (cases m) (auto simp: codec_encode_def codec_decode_def roundtrips_def result_then_def split: option.splits)

lemma encode_Inr:
  assumes "encode cs m = Inr bytes"
  obtains e where "bytes = MAGIC @ family_byte (family m) # e" and "validate m = Inr ()"
    and "length e \<le> maximum_payload_bytes (family m)"
    and "codecs_roundtrip cs m \<longrightarrow> decode_payload cs (family m) e = Inr m"
proof -
  from assms have v: "validate m = Inr ()" and fr: "frame_bytes cs (MAGIC @ [family_byte (family m)]) m = Inr bytes"
    and sz: "check_payload_size (family m) (length bytes - HEADER_BYTES) = Inr ()"
    by (auto simp: encode_def frame_def result_then_Inr Let_def)
  from fr obtain e where e: "bytes = (MAGIC @ [family_byte (family m)]) @ e"
    and rt: "codecs_roundtrip cs m \<longrightarrow> decode_payload cs (family m) e = Inr m"
    by (rule frame_bytes_Inr)
  from sz e have "length e \<le> maximum_payload_bytes (family m)"
    by (simp add: check_payload_size_def MAGIC_def HEADER_BYTES_def)
  with e v rt show ?thesis by (intro that) simp_all
qed

lemma decode_header_frame:
  "length e \<le> maximum_payload_bytes fam \<Longrightarrow>
   decode_header (MAGIC @ family_byte fam # e) expected =
     (case expected of
        None \<Rightarrow> Inr (fam, e)
      | Some x \<Rightarrow> if fam = x then Inr (fam, e) else Inl (FamilyMismatch x fam))"
  by (auto simp: decode_header_def MAGIC_def HEADER_BYTES_def check_payload_size_def limit_def split: option.splits)

lemma decode_inner_encode:
  assumes "encode cs m = Inr bytes" and "codecs_roundtrip cs m"
  shows "decode_inner cs bytes expected =
    (case expected of
       None \<Rightarrow> Inr m
     | Some x \<Rightarrow> if family m = x then Inr m else Inl (FamilyMismatch x (family m)))"
proof -
  from assms(1) obtain e where "bytes = MAGIC @ family_byte (family m) # e" "validate m = Inr ()"
    "length e \<le> maximum_payload_bytes (family m)" "codecs_roundtrip cs m \<longrightarrow> decode_payload cs (family m) e = Inr m"
    by (rule encode_Inr)
  then show ?thesis
    using assms(2) by (simp add: decode_inner_def decode_header_frame split: option.splits)
qed

text \<open>
  C28: What is encoded is decoded. If a message encodes, then the bytes decode to the same message,
  with or without naming the family, and decoding them as any other family is refused. The
  hypothesis is what the codecs promise: they decode what they encoded.
\<close>

theorem wire_roundtrip:
  assumes "encode cs m = Inr bytes" and "codecs_roundtrip cs m"
  shows "decode cs bytes = Inr m \<and>
         decode_family cs bytes fam = (if fam = family m then Inr m else Inl (FamilyMismatch fam (family m)))"
  by (auto simp: decode_def decode_family_def decode_inner_encode [OF assms])

lemma decode_header_Inr:
  assumes "decode_header bytes expected = Inr (fam, payload)"
  shows "bytes = MAGIC @ family_byte fam # payload \<and> length payload \<le> maximum_payload_bytes fam"
proof -
  from assms have len: "length bytes \<ge> 3" and magic: "take 2 bytes = MAGIC" and f: "family_try_from (bytes ! 2) = Inr fam"
    and p: "payload = drop 3 bytes" and sz: "length payload \<le> maximum_payload_bytes fam"
    by (auto simp: decode_header_def result_then_Inr HEADER_BYTES_def check_payload_size_def split: if_splits)
  from len have "bytes = take 2 bytes @ bytes ! 2 # drop 3 bytes"
    using id_take_nth_drop [of 2 bytes] by simp
  with magic family_try_from_Inr [OF f] p sz show ?thesis by metis
qed

text \<open>
  C29: Only well-formed, bounded messages pass, in both directions, whatever the codecs do. Bytes that
  encode or decode carry the magic and the family byte of the message, a payload within the limit
  of its family, and a message that satisfies every bound of \<open>validate\<close>.
\<close>

theorem wire_messages_are_bounded:
  assumes "encode cs m = Inr bytes \<or> decode cs bytes = Inr m \<or> decode_family cs bytes fam = Inr m"
  shows "validate m = Inr () \<and>
         (\<exists>payload. bytes = MAGIC @ family_byte (family m) # payload \<and>
            length payload \<le> maximum_payload_bytes (family m))"
proof -
  have "validate m = Inr () \<and> (\<exists>payload. bytes = MAGIC @ family_byte (family m) # payload \<and>
            length payload \<le> maximum_payload_bytes (family m))"
    if dec: "decode_inner cs bytes expected = Inr m" for expected
  proof -
    from dec obtain f payload where h: "decode_header bytes expected = Inr (f, payload)"
      and "decode_payload cs f payload = Inr m" and v: "validate m = Inr ()"
      by (auto simp: decode_inner_def result_then_Inr)
    then have "f = family m" using decode_payload_family by blast
    with decode_header_Inr [OF h] v show ?thesis by blast
  qed
  moreover have "validate m = Inr () \<and> (\<exists>payload. bytes = MAGIC @ family_byte (family m) # payload \<and>
            length payload \<le> maximum_payload_bytes (family m))" if "encode cs m = Inr bytes"
    using encode_Inr [OF that] by blast
  ultimately show ?thesis using assms by (auto simp: decode_def decode_family_def)
qed

text \<open>
  Bytes are refused before their payload is read. A frame that is too short, has the wrong magic,
  an unknown or unexpected family or an oversized payload is refused with the error that names the
  first of these, and the answer does not depend on the payload codecs at all.
\<close>

theorem bad_frames_refused_unread:
  assumes "length bytes < HEADER_BYTES \<or> take 2 bytes \<noteq> MAGIC \<or>
     (case family_try_from (bytes ! 2) of
        Inl _ \<Rightarrow> True
      | Inr fam \<Rightarrow> fam \<noteq> expected \<or> length bytes - HEADER_BYTES > maximum_payload_bytes fam)"
  shows "decode_family cs bytes expected = decode_family cs' bytes expected \<and>
         decode_family cs bytes expected =
           Inl (if length bytes < HEADER_BYTES then TooShort
                else if take 2 bytes \<noteq> MAGIC then BadMagic
                else case family_try_from (bytes ! 2) of
                       Inl e \<Rightarrow> e
                     | Inr fam \<Rightarrow> if fam \<noteq> expected then FamilyMismatch expected fam
                         else SizeLimit ''payload bytes'' (length bytes - HEADER_BYTES) (maximum_payload_bytes fam))"
  using assms
  by (auto simp: decode_family_def decode_inner_def decode_header_def check_payload_size_def limit_def
      result_then_def split: sum.splits)

section \<open>The lens stream\<close>

datatype LensError =
    PacketMismatch | LensWire WireError | PacketTooLarge | LensEof | MessageTooLong nat nat | LensPanic

definition PREFACE :: "u8 list" where
  "PREFACE = [0x7a, 0x66, 0x6c, 0x6f, 0x77, 0x2d, 0x6c, 0x65, 0x6e, 0x73, 0]"

definition MAX_LENS_MESSAGE_BYTES :: nat where
  "MAX_LENS_MESSAGE_BYTES = MAX_LENS_PAYLOAD_BYTES + 3"

text \<open>\<open>u32::to_be_bytes\<close> and \<open>u32::from_be_bytes\<close>.\<close>

definition to_be_bytes :: "u32 \<Rightarrow> u8 list" where
  "to_be_bytes n = map (\<lambda>k. of_nat (unat n div 256 ^ k mod 256)) [3, 2, 1, 0]"

definition from_be_bytes :: "u8 list \<Rightarrow> u32" where
  "from_be_bytes bs = of_nat (foldl (\<lambda>n b. n * 256 + unat b) 0 bs)"

fun is_frame :: "LensMessage \<Rightarrow> bool" where
  "is_frame (LensFrame _ _ _) = True"
| "is_frame _ = False"

text \<open>\<open>write\<close>: the bytes handed to the stream, or the error.\<close>

definition lens_write :: "'addr Codecs \<Rightarrow> LensMessage \<Rightarrow> u8 list option \<Rightarrow> LensError + u8 list" where
  "lens_write cs message body =
     result_then (ensure (is_frame message = (body \<noteq> None)) PacketMismatch) (\<lambda>_.
     result_then (map_err LensWire (encode cs (WLens message))) (\<lambda>bytes.
       let packet = to_be_bytes (of_nat (length bytes)) @ bytes
       in case body of
            None \<Rightarrow> Inr packet
          | Some b \<Rightarrow>
              result_then (ensure (length b \<le> MAX_BODY_BYTES) PacketTooLarge) (\<lambda>_.
              Inr (packet @ to_be_bytes (of_nat (length b)) @ b))))"

text \<open>
  Reading, from the bytes that will arrive before the stream ends: \<open>AsyncReadExt::read_exact\<close> takes
  that many or fails with \<open>UnexpectedEof\<close>, and the private \<open>read_exact\<close> checks the length first.
\<close>

definition stream_read_exact :: "nat \<Rightarrow> u8 list \<Rightarrow> (LensError + u8 list) \<times> u8 list" where
  "stream_read_exact n stream =
     (if length stream < n then (Inl LensEof, []) else (Inr (take n stream), drop n stream))"

definition lens_read_exact :: "nat \<Rightarrow> nat \<Rightarrow> u8 list \<Rightarrow> (LensError + u8 list) \<times> u8 list" where
  "lens_read_exact n maximum stream =
     (if n \<le> maximum then stream_read_exact n stream else (Inl (MessageTooLong n maximum), stream))"

definition lens_read ::
  "'addr Codecs \<Rightarrow> u8 list \<Rightarrow> (LensError + (LensMessage \<times> u8 list option) option) \<times> u8 list"
where
  "lens_read cs stream =
     (case stream_read_exact 4 stream of
        (Inl _, s) \<Rightarrow> (Inr None, s)
      | (Inr len, s) \<Rightarrow>
          try_then (lens_read_exact (unat (from_be_bytes len)) MAX_LENS_MESSAGE_BYTES) (\<lambda>bytes s.
            case decode_family cs bytes FamLens of
              Inl e \<Rightarrow> (Inl (LensWire e), s)
            | Inr (WLens message) \<Rightarrow>
                (if is_frame message
                 then try_then (stream_read_exact 4) (\<lambda>len.
                      try_then (lens_read_exact (unat (from_be_bytes len)) MAX_BODY_BYTES) (\<lambda>body s.
                        (Inr (Some (message, Some body)), s))) s
                 else (Inr (Some (message, None)), s))
            | Inr _ \<Rightarrow> (Inl LensPanic, s)) s)"

lemma length_to_be_bytes [simp]: "length (to_be_bytes n) = 4"
  by (simp add: to_be_bytes_def)

lemma be_bytes_roundtrip: "from_be_bytes (to_be_bytes n) = n"
proof -
  define m where "m = unat n"
  have m: "m < 2 ^ 32" unfolding m_def using unsigned_less [of n, where 'a = nat] by simp
  have byte: "unat (of_nat k :: u8) = k mod 256" for k :: nat
    by (simp add: unsigned_of_nat take_bit_eq_mod)
  define a where "a = m div 256"
  define b where "b = a div 256"
  define c where "c = b div 256"
  have "m div 256 ^ 2 = b" "m div 256 ^ 3 = c" and small: "c < 256"
    using m by (simp_all add: a_def b_def c_def div_mult2_eq [symmetric])
  then have "((m div 256 ^ 3 * 256 + m div 256 ^ 2 mod 256) * 256 + m div 256 mod 256) * 256 + m mod 256 =
      ((c * 256 + b mod 256) * 256 + a mod 256) * 256 + m mod 256" by (simp add: a_def)
  also have "\<dots> = m" by (simp add: c_def b_def a_def)
  finally have "((m div 256 ^ 3 * 256 + m div 256 ^ 2 mod 256) * 256 + m div 256 mod 256) * 256 + m mod 256 = m" .
  moreover have "m div 16777216 mod 256 = m div 16777216" using m by simp
  ultimately have "foldl (\<lambda>k b. k * 256 + unat b) 0 (to_be_bytes n) = m"
    by (simp add: to_be_bytes_def m_def [symmetric] byte)
  then show ?thesis by (simp add: from_be_bytes_def m_def)
qed

lemma unat_length_u32: "k < 4294967296 \<Longrightarrow> unat (of_nat k :: u32) = k"
  by (simp add: unsigned_of_nat take_bit_eq_mod)

lemma stream_read_exact_append [simp]: "n = length bs \<Longrightarrow> stream_read_exact n (bs @ rest) = (Inr bs, rest)"
  by (simp add: stream_read_exact_def)

lemma decode_family_is: "decode_family cs bytes fam = Inr m \<Longrightarrow> family m = fam"
  by (auto simp: decode_family_def decode_inner_def result_then_Inr decode_header_def dest: decode_payload_family
      split: if_splits)

text \<open>
  The lens stream carries what was written. A message, with its tile packet exactly if it is a
  frame, that is written to the stream is read back as it was, and reading stops at the first byte
  after it, whatever follows. The hypothesis on the codec is the one of the wire round trip.
\<close>

theorem lens_stream_roundtrip:
  assumes "lens_write cs message body = Inr packet" and "codecs_roundtrip cs (WLens message)"
  shows "lens_read cs (packet @ rest) = (Inr (Some (message, body)), rest)"
proof -
  from assms(1) obtain bytes where fr: "is_frame message = (body \<noteq> None)"
    and enc: "encode cs (WLens message) = Inr bytes"
    and big: "\<forall>b. body = Some b \<longrightarrow> length b \<le> MAX_BODY_BYTES"
    and p: "packet = to_be_bytes (of_nat (length bytes)) @ bytes @
       (case body of None \<Rightarrow> [] | Some b \<Rightarrow> to_be_bytes (of_nat (length b)) @ b)"
    by (auto simp: lens_write_def result_then_Inr map_err_def Let_def split: sum.splits option.splits)
  have dec: "decode_family cs bytes FamLens = Inr (WLens message)"
    using decode_inner_encode [OF enc assms(2)] by (simp add: decode_family_def)
  have len: "length bytes \<le> MAX_LENS_MESSAGE_BYTES"
  proof -
    from enc obtain e where "bytes = MAGIC @ 9 # e" "length e \<le> MAX_LENS_PAYLOAD_BYTES"
      by (rule encode_Inr) simp
    then show ?thesis by (simp add: MAX_LENS_MESSAGE_BYTES_def MAGIC_def)
  qed
  then have small: "length bytes < 4294967296"
    by (simp add: MAX_LENS_MESSAGE_BYTES_def MAX_LENS_PAYLOAD_BYTES_def MAX_TEXT_BYTES_def MAX_CLIP_BYTES_def)
  have body: "length b < 4294967296" if "body = Some b" for b
    using big that by (auto simp: MAX_BODY_BYTES_def MAX_PIXELS_def)
  show ?thesis
    using fr len big body
    by (cases body)
      (auto simp: p lens_read_def lens_read_exact_def try_then_def be_bytes_roundtrip unat_length_u32 small dec)
qed

text \<open>
  The \<open>unreachable!\<close> of \<open>read\<close> is unreachable, and reading is bounded: whatever bytes arrive and
  whatever the codecs do, \<open>read\<close> never hits it, a message it returns satisfies its limits, and it
  carries a tile packet, of bounded size, exactly if it is a frame.
\<close>

theorem lens_read_is_safe:
  "case fst (lens_read cs stream) of
     Inl e \<Rightarrow> e \<noteq> LensPanic
   | Inr None \<Rightarrow> length stream < 4
   | Inr (Some (message, body)) \<Rightarrow>
       lens_validate message = Inr () \<and> is_frame message = (body \<noteq> None) \<and>
       (case body of None \<Rightarrow> True | Some b \<Rightarrow> length b \<le> MAX_BODY_BYTES)"
proof -
  have valid: "lens_validate message = Inr ()" if "decode_family cs bytes FamLens = Inr (WLens message)" for bytes message
  proof -
    from that have "validate (WLens message :: 'a WireMessage) = Inr ()"
      by (auto simp: decode_family_def decode_inner_def result_then_Inr)
    then show ?thesis by (simp add: map_err_def split: sum.splits)
  qed
  have lens: "\<exists>message. m = WLens message" if "decode_family cs bytes FamLens = Inr m" for bytes m
    using decode_family_is [OF that] by (cases m) auto
  show ?thesis
    unfolding lens_read_def lens_read_exact_def stream_read_exact_def try_then_def
    by (auto dest: valid lens split: sum.splits WireMessage.splits if_splits prod.splits)
qed

section \<open>A sample codec, at which the theorems above apply\<close>

text \<open>A codec of two lens messages in the style of \<open>postcard\<close>: the variant, then the fields.\<close>

fun sample_to_extend :: "LensMessage \<Rightarrow> u8 list option" where
  "sample_to_extend (LensButton button pressed) = Some [2, button, if pressed then 1 else 0]"
| "sample_to_extend LensCopy = Some [5]"
| "sample_to_extend _ = None"

fun sample_take_from_bytes :: "u8 list \<Rightarrow> (LensMessage \<times> u8 list) option" where
  "sample_take_from_bytes (variant # bytes) =
     (if variant = 5 then Some (LensCopy, bytes)
      else if variant = 2
      then (case bytes of
              button # pressed # rest \<Rightarrow> if pressed \<le> 1 then Some (LensButton button (pressed = 1), rest) else None
            | _ \<Rightarrow> None)
      else None)"
| "sample_take_from_bytes [] = None"

definition no_codec :: "'a codec" where
  "no_codec = \<lparr>to_extend = \<lambda>_. None, take_from_bytes = \<lambda>_. None\<rparr>"

definition sample_codecs :: "nat Codecs" where
  "sample_codecs =
     \<lparr>c_offer = no_codec, c_session = no_codec, c_control = no_codec, c_motion = no_codec, c_probe = no_codec,
      c_hello = no_codec, c_lens = \<lparr>to_extend = sample_to_extend, take_from_bytes = sample_take_from_bytes\<rparr>,
      c_json_to_writer = \<lambda>_. None, c_json_from_slice = \<lambda>_. None\<rparr>"

lemma sample_roundtrips: "codecs_roundtrip sample_codecs (WLens m)"
  by (cases m) (auto simp: roundtrips_def sample_codecs_def)

lemma sample_encode: "encode sample_codecs (WLens (LensButton 1 True)) = Inr [0x5a, 0x46, 9, 2, 1, 1]"
  by (simp add: encode_def map_err_def ensure_def frame_def codec_encode_def sample_codecs_def MAGIC_def HEADER_BYTES_def
      check_payload_size_def limit_def MAX_LENS_PAYLOAD_BYTES_def)

theorem wire_roundtrip_witness:
  "codecs_roundtrip sample_codecs (WLens (LensButton 1 True)) \<and>
   decode sample_codecs [0x5a, 0x46, 9, 2, 1, 1] = Inr (WLens (LensButton 1 True))"
  using wire_roundtrip [OF sample_encode sample_roundtrips] sample_roundtrips by blast

theorem wire_messages_are_bounded_witness:
  "validate (WLens (LensButton 1 True) :: nat WireMessage) = Inr () \<and>
   (\<exists>payload. [0x5a, 0x46, 9, 2, 1, 1] = MAGIC @ (9 :: u8) # payload)"
  using wire_messages_are_bounded [of sample_codecs "WLens (LensButton 1 True)", OF disjI1 [OF sample_encode]] by auto

theorem bad_frames_refused_unread_witness:
  "decode_family sample_codecs [0x5a, 0x46, 6] FamLens = Inl (UnknownFamily 6)"
  using bad_frames_refused_unread [of "[0x5a, 0x46, 6]" FamLens sample_codecs sample_codecs]
  by (simp add: family_try_from_def HEADER_BYTES_def MAGIC_def)

theorem lens_stream_roundtrip_witness:
  "\<exists>packet. lens_write sample_codecs (LensButton 1 True) None = Inr packet \<and>
     lens_read sample_codecs (packet @ [7]) = (Inr (Some (LensButton 1 True, None)), [7])"
proof -
  obtain packet where w: "lens_write sample_codecs (LensButton 1 True) None = Inr packet"
    by (simp add: lens_write_def sample_encode map_err_def ensure_def)
  from lens_stream_roundtrip [OF w sample_roundtrips, of "[7]"] w show ?thesis by blast
qed

end
