(* ===== verification/Negotiate.thy ===== *)
theory Negotiate
  imports Outbound Receiver Playout_Motion Wire
begin

text \<open>
  Session negotiation and the checks that keep a peer inside what it negotiated
  (\<open>src/src/session/negotiate.rs\<close>), and the options that a session starts with (\<open>SessionOptions\<close> in
  \<open>src/src/session.rs\<close>).
\<close>

section \<open>Selecting a session\<close>

datatype NegotiateError =
    LacksCapability
  | SelectionInvalid NegotiationError
  | NotAnOffer
  | NotASession
  | DifferentSession
  | StreamFailed
  | NotNegotiated InputCapability
  | NoHighResolution
  | UnsupportedPage
  | TooManyContacts
  | TouchNotNegotiated

definition intersect_scroll_fields :: "ScrollFields \<Rightarrow> ScrollFields \<Rightarrow> ScrollFields" where
  "intersect_scroll_fields left right =
     \<lparr>high_resolution = high_resolution left \<and> high_resolution right,
      source_unit = source_unit left \<and> source_unit right,
      source_resolution = source_resolution left \<and> source_resolution right,
      discrete_steps = discrete_steps left \<and> discrete_steps right,
      phase = phase left \<and> phase right,
      momentum_phase = momentum_phase left \<and> momentum_phase right\<rparr>"

definition selected_session :: "NegotiationOffer \<Rightarrow> NegotiationOffer \<Rightarrow> NegotiatedSession" where
  "selected_session left right =
     (let capabilities = of_supported_capabilities left |\<inter>| of_supported_capabilities right
      in \<lparr>ns_maximum_datagram_size = min (of_maximum_datagram_size left) (of_maximum_datagram_size right),
          ns_capabilities = capabilities,
          ns_pointer_unit = (case sorted_list_of_fset (of_pointer_units left |\<inter>| of_pointer_units right) of
             [] \<Rightarrow> None | unit # _ \<Rightarrow> Some unit),
          ns_scroll_fields = intersect_scroll_fields (of_scroll_fields left) (of_scroll_fields right),
          ns_contact_limit = (if Touch |\<in>| capabilities then min (of_maximum_contacts left) (of_maximum_contacts right) else 0),
          ns_receiver_lease_ms = min (of_maximum_receiver_lease_ms left) (of_maximum_receiver_lease_ms right),
          ns_checkpoint_bound_ms = min (of_maximum_checkpoint_bound_ms left) (of_maximum_checkpoint_bound_ms right)\<rparr>)"

definition select_negotiation :: "NegotiationOffer \<Rightarrow> NegotiationOffer \<Rightarrow> NegotiateError + NegotiatedSession" where
  "select_negotiation left right =
     (let selected = selected_session left right
      in if \<not> of_required_capabilities left |\<subseteq>| ns_capabilities selected \<or>
            \<not> of_required_capabilities right |\<subseteq>| ns_capabilities selected
         then Inl LacksCapability
         else result_then (map_err SelectionInvalid (validate_for selected left)) (\<lambda>_.
              result_then (map_err SelectionInvalid (validate_for selected right)) (\<lambda>_. Inr selected)))"

text \<open>
  The exchange on the control stream. \<open>takes\<close> is whether the stream takes a message; \<open>first\<close> and \<open>second\<close> are what it
  yields when it is read, \<open>None\<close> if reading fails; the result has the messages that were sent.
\<close>

datatype InputControlMessage =
    ControlOffer NegotiationOffer
  | ControlSession NegotiatedSession
  | ControlReliable ReliableControlMessage
  | ControlDesktop DesktopMessage

definition negotiate ::
  "(InputControlMessage \<Rightarrow> bool) \<Rightarrow> NegotiationOffer \<Rightarrow> InputControlMessage option \<Rightarrow> InputControlMessage option
     \<Rightarrow> (NegotiateError + NegotiatedSession) \<times> InputControlMessage list"
where
  "negotiate takes local first second =
     (if \<not> takes (ControlOffer local) then (Inl StreamFailed, [])
      else case first of
        None \<Rightarrow> (Inl StreamFailed, [ControlOffer local])
      | Some (ControlOffer remote) \<Rightarrow>
         (case select_negotiation local remote of
            Inl e \<Rightarrow> (Inl e, [ControlOffer local])
          | Inr selected \<Rightarrow>
             if \<not> takes (ControlSession selected) then (Inl StreamFailed, [ControlOffer local])
             else
               (case second of
                  None \<Rightarrow> Inl StreamFailed
                | Some (ControlSession session) \<Rightarrow> if session \<noteq> selected then Inl DifferentSession else Inr selected
                | Some _ \<Rightarrow> Inl NotASession,
                [ControlOffer local, ControlSession selected]))
      | Some _ \<Rightarrow> (Inl NotAnOffer, [ControlOffer local]))"

section \<open>What a peer may send\<close>

definition require_capability :: "NegotiatedSession \<Rightarrow> InputCapability \<Rightarrow> NegotiateError + unit" where
  "require_capability negotiated capability = ensure (capability |\<in>| ns_capabilities negotiated) (NotNegotiated capability)"

definition validate_negotiated_touch :: "TouchState \<Rightarrow> NegotiatedSession \<Rightarrow> NegotiateError + unit" where
  "validate_negotiated_touch state negotiated =
     result_then (ensure (touch_len state \<le> unat (ns_contact_limit negotiated)) TooManyContacts) (\<lambda>_.
       ensure (touch_is_empty state \<or> Touch |\<in>| ns_capabilities negotiated) TouchNotNegotiated)"

definition validate_negotiated_usage :: "HidUsage \<Rightarrow> NegotiatedSession \<Rightarrow> NegotiateError + unit" where
  "validate_negotiated_usage key negotiated =
     (if page key = KEYBOARD_KEYPAD then require_capability negotiated Keyboard
      else if page key = CONSUMER then require_capability negotiated ConsumerControls
      else Inl UnsupportedPage)"

text \<open>The checks of totals, which anchors and motion frames share.\<close>

definition validate_totals :: "CumulativeMotion \<Rightarrow> NegotiatedSession \<Rightarrow> NegotiateError + unit" where
  "validate_totals totals negotiated =
     result_then (if total_dx totals \<noteq> 0 \<or> total_dy totals \<noteq> 0 then require_capability negotiated Pointer else Inr ()) (\<lambda>_.
       if total_scroll_x totals \<noteq> 0 \<or> total_scroll_y totals \<noteq> 0
       then result_then (require_capability negotiated Scroll) (\<lambda>_.
              ensure (high_resolution (ns_scroll_fields negotiated)) NoHighResolution)
       else Inr ())"

definition validate_negotiated_anchor :: "MotionAnchor \<Rightarrow> NegotiatedSession \<Rightarrow> NegotiateError + unit" where
  "validate_negotiated_anchor an negotiated =
     result_then (validate_totals (an_totals an) negotiated) (\<lambda>_.
       validate_negotiated_touch (an_final_touch_state an) negotiated)"

definition validate_negotiated_held :: "HeldState \<Rightarrow> NegotiatedSession \<Rightarrow> NegotiateError + unit" where
  "validate_negotiated_held state negotiated =
     result_then (for_each (\<lambda>key. validate_negotiated_usage key negotiated) (sorted_list_of_fset (pressed_keys state))) (\<lambda>_.
     result_then (if pressed_buttons state \<noteq> {||} then require_capability negotiated Pointer else Inr ()) (\<lambda>_.
       validate_negotiated_touch (active_touch state) negotiated))"

fun validate_negotiated_control :: "ReliableControl \<Rightarrow> NegotiatedSession \<Rightarrow> NegotiateError + unit" where
  "validate_negotiated_control Enter negotiated = Inr ()"
| "validate_negotiated_control (CtlSnapshotAck _) negotiated = Inr ()"
| "validate_negotiated_control (KeyDown key) negotiated = validate_negotiated_usage key negotiated"
| "validate_negotiated_control (KeyUp key) negotiated = validate_negotiated_usage key negotiated"
| "validate_negotiated_control (ButtonDown _ an) negotiated =
     result_then (require_capability negotiated Pointer) (\<lambda>_. validate_negotiated_anchor an negotiated)"
| "validate_negotiated_control (ButtonUp _ an) negotiated =
     result_then (require_capability negotiated Pointer) (\<lambda>_. validate_negotiated_anchor an negotiated)"
| "validate_negotiated_control (TouchBegin initial_state) negotiated =
     result_then (require_capability negotiated Touch) (\<lambda>_. validate_negotiated_touch initial_state negotiated)"
| "validate_negotiated_control (TouchEnd an) negotiated =
     result_then (require_capability negotiated Touch) (\<lambda>_. validate_negotiated_anchor an negotiated)"
| "validate_negotiated_control (TouchCancel an) negotiated =
     result_then (require_capability negotiated Touch) (\<lambda>_. validate_negotiated_anchor an negotiated)"
| "validate_negotiated_control (CtlStateSnapshot snap) negotiated =
     result_then (validate_negotiated_held (sn_held snap) negotiated) (\<lambda>_.
       validate_negotiated_anchor (sn_motion_anchor snap) negotiated)"
| "validate_negotiated_control (SessionClose _ final_anchor) negotiated =
     (case final_anchor of None \<Rightarrow> Inr () | Some an \<Rightarrow> validate_negotiated_anchor an negotiated)"

definition validate_negotiated_motion :: "MotionFrame \<Rightarrow> NegotiatedSession \<Rightarrow> NegotiateError + unit" where
  "validate_negotiated_motion fr negotiated =
     result_then (validate_totals (f_totals fr) negotiated) (\<lambda>_.
       case f_touch_snapshot fr of
         None \<Rightarrow> Inr ()
       | Some state \<Rightarrow>
          result_then (require_capability negotiated Touch) (\<lambda>_. validate_negotiated_touch state negotiated))"

section \<open>The options of a session\<close>

text \<open>The settings of the configuration that a session reads.\<close>

record SessionSettings =
  checkpoint_ms :: u64
  lease_ms :: u64
  playout_mode :: PlayoutDelayMode
  fixed_delay_ms :: u64
  minimum_delay_ms :: u64
  maximum_delay_ms :: u64
  percentile :: f64
  experimental_touchpad :: bool

datatype OptionsError =
    OptSender SenderError
  | OptReceiver ReceiverError
  | OptPlayout PlayoutError
  | OptDelayTooLong

record SessionOptions =
  so_offer :: NegotiationOffer
  so_playout :: PlayoutConfig
  so_peer_takes_contacts :: bool

definition OFFER_DATAGRAM_SIZE :: u32 where
  "OFFER_DATAGRAM_SIZE = 1024"

definition MAX_TOUCHPAD_CONTACTS :: nat where
  "MAX_TOUCHPAD_CONTACTS = 5"

definition offer_of :: "SessionSettings \<Rightarrow> NegotiationOffer" where
  "offer_of config =
     \<lparr>of_maximum_datagram_size = OFFER_DATAGRAM_SIZE,
      of_supported_capabilities =
        (if experimental_touchpad config then finsert Touch {|Keyboard, ConsumerControls, Pointer, Scroll|}
         else {|Keyboard, ConsumerControls, Pointer, Scroll|}),
      of_required_capabilities = {|Keyboard, Pointer, Scroll|},
      of_pointer_units = {|DeviceUnaccelerated|},
      of_scroll_fields = \<lparr>high_resolution = True, source_unit = False, source_resolution = False,
        discrete_steps = True, phase = False, momentum_phase = False\<rparr>,
      of_maximum_contacts = (if experimental_touchpad config then word_of_nat MAX_TOUCHPAD_CONTACTS else 0),
      of_maximum_receiver_lease_ms = ucast (lease_ms config),
      of_maximum_checkpoint_bound_ms = ucast (checkpoint_ms config)\<rparr>"

definition playout_of :: "SessionSettings \<Rightarrow> PlayoutConfig" where
  "playout_of config = playout_config_default
     \<lparr>delay_mode := playout_mode config, fixed_delay := from_millis (unat (fixed_delay_ms config)),
      minimum_delay := from_millis (unat (minimum_delay_ms config)),
      maximum_delay := from_millis (unat (maximum_delay_ms config)),
      adaptive_percentile := f_as_u8 (f_round (f_mul (percentile config) (Finite 100)))\<rparr>"

definition from_config :: "SessionSettings \<Rightarrow> OptionsError + SessionOptions" where
  "from_config config =
     (let checkpoint = from_millis (unat (checkpoint_ms config));
          lease = from_millis (unat (lease_ms config));
          playout = playout_of config
      in result_then (map_err OptSender (sender_config_new checkpoint lease)) (\<lambda>_.
         result_then (map_err OptReceiver (receiver_config_new lease)) (\<lambda>_.
         result_then (map_err OptPlayout (playout_config_validate playout)) (\<lambda>_.
           if max (fixed_delay playout) (maximum_delay playout) * 2 \<ge> lease then Inl OptDelayTooLong
           else Inr \<lparr>so_offer = offer_of config, so_playout = playout, so_peer_takes_contacts = False\<rparr>))))"

definition for_peer_os :: "Os option \<Rightarrow> SessionOptions \<Rightarrow> SessionOptions" where
  "for_peer_os os options = options\<lparr>so_peer_takes_contacts := (os = Some Linux)\<rparr>"

text \<open>What \<open>run_session\<close> takes from the negotiated session.\<close>

definition session_configs :: "NegotiatedSession \<Rightarrow> OptionsError + (SenderConfig \<times> ReceiverConfig)" where
  "session_configs negotiated =
     (let lease = from_millis (unat (ns_receiver_lease_ms negotiated));
          checkpoint = from_millis (unat (ns_checkpoint_bound_ms negotiated))
      in result_then (map_err OptSender (sender_config_new checkpoint lease)) (\<lambda>sender_config.
         result_then (map_err OptReceiver (receiver_config_new lease)) (\<lambda>receiver_config.
           Inr (sender_config, receiver_config))))"

definition takes_contacts :: "SessionOptions \<Rightarrow> NegotiatedSession \<Rightarrow> bool" where
  "takes_contacts options negotiated \<longleftrightarrow> so_peer_takes_contacts options \<and> Touch |\<in>| ns_capabilities negotiated"


section \<open>What is selected\<close>

lemma intersect_commute: "intersect_scroll_fields left right = intersect_scroll_fields right left"
  by (auto simp: intersect_scroll_fields_def)

lemma selected_commute: "selected_session left right = selected_session right left"
  by (simp add: selected_session_def Let_def inf.commute min.commute intersect_commute [of "of_scroll_fields left"])

lemma validate_for_bounds:
  assumes "validate_for s offer = Inr ()"
  shows "of_required_capabilities offer |\<subseteq>| ns_capabilities s \<and> ns_capabilities s |\<subseteq>| of_supported_capabilities offer \<and>
     0 < ns_maximum_datagram_size s \<and> ns_maximum_datagram_size s \<le> of_maximum_datagram_size offer \<and>
     0 < ns_receiver_lease_ms s \<and> ns_receiver_lease_ms s \<le> MAX_RECEIVER_LEASE_MS \<and>
     ns_receiver_lease_ms s \<le> of_maximum_receiver_lease_ms offer \<and>
     0 < ns_checkpoint_bound_ms s \<and> ns_checkpoint_bound_ms s \<le> MAX_CHECKPOINT_BOUND_MS \<and>
     ns_checkpoint_bound_ms s \<le> of_maximum_checkpoint_bound_ms offer \<and>
     ns_contact_limit s \<le> of_maximum_contacts offer \<and> (Touch |\<in>| ns_capabilities s \<longleftrightarrow> 0 < ns_contact_limit s)"
  using assms unfolding validate_for_def by (simp add: word_neq_0_conv not_less split: if_split_asm) (metis word_neq_0_conv)

lemma select_negotiation_Inr:
  "select_negotiation left right = Inr s \<longleftrightarrow>
     s = selected_session left right \<and> validate_for s left = Inr () \<and> validate_for s right = Inr ()"
  using validate_for_bounds [of "selected_session left right" left] validate_for_bounds [of "selected_session left right" right]
  by (auto simp: select_negotiation_def Let_def result_then_Inr map_err_Inr)

lemma select_negotiation_commute:
  "select_negotiation left right = Inr s \<longleftrightarrow> select_negotiation right left = Inr s"
  by (auto simp: select_negotiation_Inr selected_commute [of left right])

lemma session_configs_of_bounds:
  assumes "0 < ns_receiver_lease_ms s" "ns_receiver_lease_ms s \<le> MAX_RECEIVER_LEASE_MS"
    and "0 < ns_checkpoint_bound_ms s" "ns_checkpoint_bound_ms s \<le> MAX_CHECKPOINT_BOUND_MS"
  shows "session_configs s = Inr
    (\<lparr>checkpoint_interval = from_millis (unat (ns_checkpoint_bound_ms s)),
      receiver_lease = from_millis (unat (ns_receiver_lease_ms s))\<rparr>,
     \<lparr>held_state_lease = from_millis (unat (ns_receiver_lease_ms s))\<rparr>)"
  using assms
  by (simp add: session_configs_def sender_config_new_def receiver_config_new_def config_validate_def Let_def
      map_err_def result_then_def MAX_CHECKPOINT_INTERVAL_def MAX_RECEIVER_LEASE_def MAX_HELD_STATE_LEASE_def
      MAX_RECEIVER_LEASE_MS_def MAX_CHECKPOINT_BOUND_MS_def from_millis_def from_secs_def word_le_nat_alt word_less_nat_alt)

lemma negotiate_Inr:
  "negotiate takes local first second = (Inr s, sent) \<longleftrightarrow>
     takes (ControlOffer local) \<and> takes (ControlSession s) \<and>
     (\<exists>remote. first = Some (ControlOffer remote) \<and> select_negotiation local remote = Inr s \<and>
        second = Some (ControlSession s) \<and> sent = [ControlOffer local, ControlSession s])"
  by (auto simp: negotiate_def split: option.splits InputControlMessage.splits sum.splits if_splits)

text \<open>The \<open>i\<close>-th message that a peer sent, if it sent that many and the stream delivers it.\<close>

definition read_at :: "(nat \<Rightarrow> bool) \<Rightarrow> InputControlMessage list \<Rightarrow> nat \<Rightarrow> InputControlMessage option" where
  "read_at delivers sent i = (if delivers i \<and> i < length sent then Some (sent ! i) else None)"

text \<open>Whatever an end sends is its offer, and then the session that it selected from the offer it read.\<close>

lemma negotiate_sends:
  "snd (negotiate takes local first second) = [] \<or> snd (negotiate takes local first second) = [ControlOffer local] \<or>
   (\<exists>remote s. first = Some (ControlOffer remote) \<and> select_negotiation local remote = Inr s \<and>
      snd (negotiate takes local first second) = [ControlOffer local, ControlSession s])"
  by (auto simp: negotiate_def split: option.split InputControlMessage.split sum.split)

lemma negotiate_sends_all:
  assumes "\<forall>message. takes message"
  shows "snd (negotiate takes local (Some (ControlOffer remote)) second) =
     (case select_negotiation local remote of Inl e \<Rightarrow> [ControlOffer local]
      | Inr s \<Rightarrow> [ControlOffer local, ControlSession s])"
    and "\<exists>rest. snd (negotiate takes local first second) = ControlOffer local # rest"
  using assms by (auto simp: negotiate_def split: option.splits InputControlMessage.splits sum.splits)


section \<open>Two configured ends\<close>

lemma from_config_Inr:
  assumes "from_config config = Inr options"
  shows "so_offer options = offer_of config \<and> so_playout options = playout_of config \<and>
     1 \<le> lease_ms config \<and> lease_ms config \<le> 1000 \<and> 1 \<le> checkpoint_ms config \<and> checkpoint_ms config \<le> 250"
  using assms
  by (auto simp: from_config_def Let_def result_then_Inr map_err_Inr sender_config_new_def config_validate_def
      MAX_CHECKPOINT_INTERVAL_def MAX_RECEIVER_LEASE_def from_millis_def from_secs_def word_le_nat_alt split: if_splits)

lemma ucast_small: "x \<le> 1000 \<Longrightarrow> unat (ucast (x :: u64) :: u32) = unat x"
  by (simp add: unsigned_ucast_eq word_le_nat_alt take_bit_nat_eq_self)

lemma ucast_bounds:
  assumes "1 \<le> (x :: u64)" "x \<le> y" "y \<le> 1000"
  shows "(ucast x :: u32) \<noteq> 0" "(ucast x :: u32) \<le> ucast y"
  using assms ucast_small [of x] ucast_small [of y] by (auto simp: word_le_nat_alt simp flip: unat_eq_0)

definition full_session :: "NegotiatedSession \<Rightarrow> bool" where
  "full_session s \<longleftrightarrow> {|Keyboard, ConsumerControls, Pointer, Scroll|} |\<subseteq>| ns_capabilities s \<and>
     high_resolution (ns_scroll_fields s)"

definition touch_contacts :: "SessionSettings \<Rightarrow> SessionSettings \<Rightarrow> u16" where
  "touch_contacts a b = (if experimental_touchpad a \<and> experimental_touchpad b then word_of_nat MAX_TOUCHPAD_CONTACTS else 0)"

lemma selected_offers:
  "selected_session (offer_of a) (offer_of b) =
     \<lparr>ns_maximum_datagram_size = OFFER_DATAGRAM_SIZE,
      ns_capabilities = (if experimental_touchpad a \<and> experimental_touchpad b
        then finsert Touch {|Keyboard, ConsumerControls, Pointer, Scroll|} else {|Keyboard, ConsumerControls, Pointer, Scroll|}),
      ns_pointer_unit = Some DeviceUnaccelerated,
      ns_scroll_fields = of_scroll_fields (offer_of a),
      ns_contact_limit = touch_contacts a b,
      ns_receiver_lease_ms = min (ucast (lease_ms a)) (ucast (lease_ms b)),
      ns_checkpoint_bound_ms = min (ucast (checkpoint_ms a)) (ucast (checkpoint_ms b))\<rparr>"
proof -
  have "sorted_list_of_fset {|DeviceUnaccelerated|} = [DeviceUnaccelerated]"
    by (simp add: sorted_list_of_fset.rep_eq)
  then show ?thesis
    by (auto simp: selected_session_def offer_of_def Let_def intersect_scroll_fields_def touch_contacts_def)
qed

lemma validate_for_Inr:
  assumes "ns_maximum_datagram_size s \<noteq> 0" "ns_maximum_datagram_size s \<le> of_maximum_datagram_size offer"
    and "ns_capabilities s |\<subseteq>| of_supported_capabilities offer" "of_required_capabilities offer |\<subseteq>| ns_capabilities s"
    and "Pointer |\<in>| ns_capabilities s" "ns_pointer_unit s = Some pointer_unit" "pointer_unit |\<in>| of_pointer_units offer"
    and "is_subset_of (ns_scroll_fields s) (of_scroll_fields offer)"
    and "ns_contact_limit s \<le> of_maximum_contacts offer" "Touch |\<in>| ns_capabilities s \<longleftrightarrow> ns_contact_limit s \<noteq> 0"
    and "ns_receiver_lease_ms s \<noteq> 0" "ns_receiver_lease_ms s \<le> MAX_RECEIVER_LEASE_MS"
    "ns_receiver_lease_ms s \<le> of_maximum_receiver_lease_ms offer"
    and "ns_checkpoint_bound_ms s \<noteq> 0" "ns_checkpoint_bound_ms s \<le> MAX_CHECKPOINT_BOUND_MS"
    "ns_checkpoint_bound_ms s \<le> of_maximum_checkpoint_bound_ms offer"
  shows "validate_for s offer = Inr ()"
  using assms by (simp add: validate_for_def not_less)

lemma selected_offers_valid:
  assumes "1 \<le> lease_ms a" "lease_ms a \<le> 1000" "1 \<le> lease_ms b" "lease_ms b \<le> 1000"
    and "1 \<le> checkpoint_ms a" "checkpoint_ms a \<le> 250" "1 \<le> checkpoint_ms b" "checkpoint_ms b \<le> 250"
  shows "validate_for (selected_session (offer_of a) (offer_of b)) (offer_of a) = Inr ()"
proof -
  define lease where "lease = (min (ucast (lease_ms a)) (ucast (lease_ms b)) :: u32)"
  define checkpoint where "checkpoint = (min (ucast (checkpoint_ms a)) (ucast (checkpoint_ms b)) :: u32)"
  have lease: "lease \<noteq> 0" "lease \<le> 1000" "lease \<le> ucast (lease_ms a)"
    using ucast_bounds [of "lease_ms a" 1000] ucast_bounds [of "lease_ms b" 1000] assms by (auto simp: lease_def min_def)
  have checkpoint: "checkpoint \<noteq> 0" "checkpoint \<le> 250" "checkpoint \<le> ucast (checkpoint_ms a)"
    using ucast_bounds [of "checkpoint_ms a" 250] ucast_bounds [of "checkpoint_ms b" 250] assms by (auto simp: checkpoint_def min_def)
  note eq = selected_offers [of a b, folded lease_def checkpoint_def]
  show ?thesis unfolding eq
    by (rule validate_for_Inr [where pointer_unit = DeviceUnaccelerated])
      (use lease checkpoint in \<open>auto simp: offer_of_def touch_contacts_def MAX_TOUCHPAD_CONTACTS_def OFFER_DATAGRAM_SIZE_def
        is_subset_of_def MAX_RECEIVER_LEASE_MS_def MAX_CHECKPOINT_BOUND_MS_def\<close>)
qed

section \<open>Traffic within the session\<close>

definition touch_within :: "NegotiatedSession \<Rightarrow> TouchState \<Rightarrow> bool" where
  "touch_within ns t \<longleftrightarrow> touch_len t \<le> unat (ns_contact_limit ns) \<and> (touch_is_empty t \<or> Touch |\<in>| ns_capabilities ns)"

definition supported_page :: "HidUsage \<Rightarrow> bool" where
  "supported_page key \<longleftrightarrow> page key = KEYBOARD_KEYPAD \<or> page key = CONSUMER"

definition held_within :: "NegotiatedSession \<Rightarrow> HeldState \<Rightarrow> bool" where
  "held_within ns h \<longleftrightarrow> (\<forall>key |\<in>| pressed_keys h. supported_page key) \<and> touch_within ns (active_touch h)"

fun op_within :: "NegotiatedSession \<Rightarrow> SenderOp \<Rightarrow> bool" where
  "op_within ns (OpKeyDown key) \<longleftrightarrow> supported_page key"
| "op_within ns (OpTouchBegin t) \<longleftrightarrow> touch_within ns t"
| "op_within ns (OpCaptureMotion delta (Some t)) \<longleftrightarrow> touch_within ns t \<and> Touch |\<in>| ns_capabilities ns"
| "op_within ns op \<longleftrightarrow> True"

fun out_allowed :: "NegotiatedSession \<Rightarrow> SenderOut \<Rightarrow> bool" where
  "out_allowed ns (OutControl m) \<longleftrightarrow> validate_negotiated_control (m_payload m) ns = Inr ()"
| "out_allowed ns (OutMotion fr) \<longleftrightarrow> validate_negotiated_motion fr ns = Inr ()"
| "out_allowed ns OutIdle \<longleftrightarrow> True"

lemma touch_within_empty [simp]: "touch_within ns fmempty"
  by (simp add: touch_within_def touch_len_def touch_is_empty_def)

lemma held_within_released [simp]: "held_within ns (held_release_all h)"
  by (simp add: held_within_def held_release_all_def)

lemma allowed_capabilities:
  assumes "full_session ns"
  shows "require_capability ns Keyboard = Inr ()" "require_capability ns ConsumerControls = Inr ()"
    "require_capability ns Pointer = Inr ()" "require_capability ns Scroll = Inr ()"
  using assms by (auto simp: full_session_def require_capability_def)

lemma allowed_totals: "full_session ns \<Longrightarrow> validate_totals totals ns = Inr ()"
  by (simp add: validate_totals_def allowed_capabilities result_then_Inr) (simp add: full_session_def)

lemma allowed_touch: "validate_negotiated_touch t ns = Inr () \<longleftrightarrow> touch_within ns t"
  by (simp add: validate_negotiated_touch_def touch_within_def result_then_Inr)

lemma allowed_anchor: "full_session ns \<Longrightarrow> validate_negotiated_anchor an ns = Inr () \<longleftrightarrow> touch_within ns (an_final_touch_state an)"
  by (simp add: validate_negotiated_anchor_def allowed_totals allowed_touch result_then_Inr)

lemma allowed_usage: "full_session ns \<Longrightarrow> validate_negotiated_usage key ns = Inr () \<longleftrightarrow> supported_page key"
  by (simp add: validate_negotiated_usage_def allowed_capabilities supported_page_def)

lemma allowed_held: "full_session ns \<Longrightarrow> validate_negotiated_held h ns = Inr () \<longleftrightarrow> held_within ns h"
  by (simp add: validate_negotiated_held_def allowed_usage allowed_touch allowed_capabilities result_then_Inr for_each_Inr
      held_within_def)

lemma allowed_touch_control: "touch_within ns t \<Longrightarrow> \<not> touch_is_empty t \<Longrightarrow> require_capability ns Touch = Inr ()"
  by (simp add: touch_within_def require_capability_def)

lemma require_touch: "Touch |\<in>| ns_capabilities ns \<Longrightarrow> require_capability ns Touch = Inr ()"
  by (simp add: require_capability_def)

lemmas allowed = allowed_capabilities allowed_totals allowed_touch allowed_anchor allowed_usage allowed_held

text \<open>One call of the sender: what it holds stays within the session, and what it sends is allowed.\<close>

lemma sender_stays_within:
  assumes "full_session ns" "held_within ns (s_held s)" "op_within ns op" "sender_step op now s = (r, s')"
  shows "held_within ns (s_held s') \<and> (case r of Inl e \<Rightarrow> True | Inr out \<Rightarrow> out_allowed ns out)"
proof -
  have "held_within ns (s_held (snd (sender_step op now s)))"
    using assms(2,3)
    by (cases op) (auto simp: map_out_def sender_ops try_then_def Let_def held_within_def split: sender_splits)
  moreover have "out_allowed ns out" if "sender_step op now s = (Inr out, s1)" for out s1
    using assms(1-3) that
    by (cases op) (auto simp: map_out_Inr sender_ops try_then_def Let_def held_within_def allowed anchor_def
      validate_negotiated_motion_def result_then_Inr require_touch allowed_touch_control split: sender_splits)
  ultimately show ?thesis using assms(4) by (auto split: sum.split)
qed


lemma send_op_within:
  assumes "full_session ns" "held_within ns (s_held s)" "op_within ns op" "\<forall>out \<in> set sent. out_allowed ns out"
    and "send_op taken op now (s, sent) = (r, (s', sent'))"
  shows "held_within ns (s_held s') \<and> (\<forall>out \<in> set sent'. out_allowed ns out)"
proof -
  obtain a s1 where "sender_step op now s = (a, s1)" by fastforce
  with sender_stays_within [OF assms(1-3) this] assms(4,5) show ?thesis
    by (auto simp: send_op_def split: sum.splits if_splits)
qed

lemma send_ops_within:
  assumes "full_session ns" "held_within ns (s_held s)" "\<forall>op \<in> set ops. op_within ns op" "\<forall>out \<in> set sent. out_allowed ns out"
    and "send_ops taken ops now (s, sent) = (r, (s', sent'))"
  shows "held_within ns (s_held s') \<and> (\<forall>out \<in> set sent'. out_allowed ns out)"
  using assms(2-)
proof (induction ops arbitrary: s sent)
  case (Cons op ops)
  obtain a s1 sent1 where step: "send_op taken op now (s, sent) = (a, (s1, sent1))" by (metis prod.exhaust)
  with Cons.prems assms(1) have within: "held_within ns (s_held s1) \<and> (\<forall>out \<in> set sent1. out_allowed ns out)"
    using send_op_within [of ns s op sent taken now a s1 sent1] by simp
  show ?case
  proof (cases a)
    case (Inr u)
    then show ?thesis using Cons.IH [of s1 sent1] Cons.prems within step by (simp add: try_then_def)
  qed (use Cons.prems within step in \<open>simp add: try_then_def\<close>)
qed simp

text \<open>A captured frame that a session can carry: keys of the supported pages, and touch within the limit.\<close>

fun transition_within :: "CaptureTransition \<Rightarrow> bool" where
  "transition_within (TransKey key _) \<longleftrightarrow> supported_page key"
| "transition_within (TransButton _ _) \<longleftrightarrow> True"

fun member_within :: "CaptureMember \<Rightarrow> bool" where
  "member_within (MemKey key) \<longleftrightarrow> supported_page key"
| "member_within (MemButton _) \<longleftrightarrow> True"

definition frame_within :: "NegotiatedSession \<Rightarrow> CaptureFrame \<Rightarrow> bool" where
  "frame_within ns f \<longleftrightarrow>
     list_all transition_within (cf_transitions f) \<and>
     (case cf_as_pointer f of None \<Rightarrow> True | Some pointer \<Rightarrow> list_all transition_within (pf_transitions pointer)) \<and>
     (case cf_touch_snapshot f of None \<Rightarrow> True | Some t \<Rightarrow> touch_len t \<le> unat (ns_contact_limit ns))"

lemma merge_transition_within:
  "transition_within t \<Longrightarrow> (mem, pressed) \<in> set (snd (merge_transition path t m)) \<Longrightarrow> member_within mem"
  by (cases t) (auto simp: merge_transition_def Let_def split: option.splits if_splits)

lemma merge_transitions_within:
  "list_all transition_within ts \<Longrightarrow> (mem, pressed) \<in> set (snd (merge_transitions path ts m)) \<Longrightarrow> member_within mem"
proof (induction path ts m rule: merge_transitions.induct)
  case (2 path t ts m)
  from 2(1) [OF refl prod.collapse] 2(2,3) merge_transition_within [of t mem pressed path m] show ?case
    by (auto simp: case_prod_beta Let_def)
qed simp

lemma member_op_within: "member_within mem \<Longrightarrow> op_within ns (member_op (mem, pressed))"
  by (cases "(mem, pressed)" rule: member_op.cases) auto

lemma touch_and_motion_within:
  assumes "op \<in> set (touch_and_motion snap motion s)"
    and "\<forall>t. snap = Some t \<longrightarrow> touch_within ns t \<and> Touch |\<in>| ns_capabilities ns"
  shows "op_within ns op"
  using assms by (auto simp: touch_and_motion_def Let_def split: option.splits if_splits)

lemma for_target_within: "frame_within ns f \<Longrightarrow> frame_within ns (for_target takes f)"
  by (auto simp: frame_within_def for_target_def Let_def split: option.splits)

definition outbound_within :: "NegotiatedSession \<Rightarrow> Outbound \<Rightarrow> bool" where
  "outbound_within ns ob \<longleftrightarrow>
     (\<forall>s. o_sender ob = Some s \<longrightarrow> held_within ns (s_held s)) \<and> (\<forall>out \<in> set (o_sent ob). out_allowed ns out)"

lemma capture_within:
  assumes "full_session ns" "os_touch_negotiated settings = (Touch |\<in>| ns_capabilities ns)"
    and "frame_within ns (cd_frame captured)"
    and "outbound_within ns ob" "capture settings taken captured now ob = (r, ob')"
  shows "outbound_within ns ob'"
proof (cases "o_sender ob")
  case None
  then show ?thesis using assms by (auto simp: capture_def)
next
  case (Some s)
  define f where "f = for_target (os_takes_contacts settings) (cd_frame captured)"
  have f: "frame_within ns f" using assms(3) by (simp add: f_def for_target_within)
  obtain m edges where m: "merge (captured\<lparr>cd_frame := f\<rparr>) (o_capture_merge ob) = (m, edges)" by fastforce
  define ops where "ops = touch_and_motion (if os_touch_negotiated settings then cf_touch_snapshot f else None)
    (cf_motion f) s @ map member_op edges"
  have edges: "member_within mem" if "(mem, pressed) \<in> set edges" for mem pressed
    using that f m merge_transitions_within [of "cf_transitions f" mem pressed "cd_device_path captured" "o_capture_merge ob"]
    by (auto simp: merge_def case_prod_beta Let_def frame_within_def)
  have snap: "touch_within ns t \<and> Touch |\<in>| ns_capabilities ns"
    if "(if os_touch_negotiated settings then cf_touch_snapshot f else None) = Some t" for t
    using that f assms(2) by (auto simp: frame_within_def touch_within_def split: if_splits)
  have "op_within ns op" if "op \<in> set ops" for op
    using that edges touch_and_motion_within [OF _ allI [OF impI [OF snap]]]
    by (auto simp: ops_def member_op_within)
  moreover obtain r1 s' sent where sent: "send_ops taken ops (capture_time (cd_captured_at captured) now s) (s, o_sent ob) = (r1, (s', sent))"
    by (metis prod.exhaust)
  moreover have "ob' = ob\<lparr>o_sender := Some s', o_capture_merge := m, o_sent := sent\<rparr>"
    using assms(5) Some m sent unfolding ops_def by (simp add: capture_def Let_def send_capture_def f_def [symmetric])
  ultimately show ?thesis using send_ops_within [OF assms(1) _ _ _ sent] assms(4) Some by (simp add: outbound_within_def)
qed


fun command_within :: "NegotiatedSession \<Rightarrow> OutboundCommand \<Rightarrow> bool" where
  "command_within ns (Capture captured) \<longleftrightarrow> frame_within ns (cd_frame captured)"
| "command_within ns cmd \<longleftrightarrow> True"

lemma new_sender_within: "sender_new config ctx now = Inr s \<Longrightarrow> held_within ns (s_held s)"
  by (auto simp: sender_new_def result_then_Inr held_within_def)

lemma begin_within:
  assumes "full_session ns" "outbound_within ns ob" "begin_outbound settings taken ctx now ob = (r, ob')"
  shows "outbound_within ns ob'"
proof (cases "o_sender ob = None")
  case True
  show ?thesis
  proof (cases "sender_new (os_sender_config settings) ctx now")
    case (Inr s)
    obtain a s' sent where "send_op taken OpEnter now (s, o_sent ob) = (a, (s', sent))" by (metis prod.exhaust)
    with send_op_within [OF assms(1) new_sender_within [OF Inr] _ _ this] assms(2,3) True Inr show ?thesis
      by (auto simp: begin_outbound_def Let_def outbound_within_def split: sum.splits)
  qed (use assms True in \<open>auto simp: begin_outbound_def Let_def outbound_within_def\<close>)
qed (use assms in \<open>auto simp: begin_outbound_def\<close>)

lemma end_within:
  assumes "full_session ns" "outbound_within ns ob" "end_outbound taken reason now ob = (r, ob')"
  shows "outbound_within ns ob'"
proof (cases "o_sender ob")
  case (Some s)
  obtain a s' sent where "send_op taken (OpLeave reason) now (s, o_sent ob) = (a, (s', sent))" by (metis prod.exhaust)
  with send_op_within [OF assms(1) _ _ _ this] assms(2,3) Some show ?thesis
    by (auto simp: end_outbound_def Let_def outbound_within_def split: sum.splits if_splits)
qed (use assms in \<open>auto simp: end_outbound_def Let_def outbound_within_def\<close>)

lemma tick_within:
  assumes "full_session ns" "outbound_within ns ob" "outbound_tick taken now ob = (r, ob')"
  shows "outbound_within ns ob'"
proof (cases "o_sender ob")
  case (Some s)
  obtain a s' where tick: "sender_tick now s = (a, s')" by fastforce
  have step: "sender_step OpTick now s = map_out tick_out (a, s')" by (simp add: tick)
  obtain b where "map_out tick_out (a, s') = (b, s')" by (cases a) (auto simp: map_out_def)
  with step sender_stays_within [OF assms(1), of s OpTick now] assms(2) Some
  have held: "held_within ns (s_held s')" and out: "\<And>t. a = Inr t \<Longrightarrow> out_allowed ns (tick_out t)"
    by (auto simp: outbound_within_def map_out_def split: sum.splits)
  show ?thesis
    using assms(2,3) Some tick held out
    by (cases a) (auto simp: outbound_tick_def outbound_within_def split: SenderTick.splits if_splits)
qed (use assms in \<open>auto simp: outbound_tick_def\<close>)

lemma acked_within:
  assumes "outbound_within ns ob" "snapshot_acked session ack ob = (r, ob')"
  shows "outbound_within ns ob'"
proof (cases "o_sender ob")
  case (Some s)
  obtain a s' where "acknowledge_snapshot ack s = (a, s')" by fastforce
  then show ?thesis using assms acknowledge_keeps(2) [of ack s] Some
    by (auto simp: snapshot_acked_def outbound_within_def split: if_splits sum.splits)
qed (use assms in \<open>simp add: snapshot_acked_def\<close>)

lemma outbound_step_within:
  assumes "full_session ns" "os_touch_negotiated settings = (Touch |\<in>| ns_capabilities ns)" "command_within ns cmd"
    and "outbound_within ns ob" "outbound_step settings taken cmd now ob = (r, ob')"
  shows "outbound_within ns ob'"
proof (cases cmd)
  case (Capture captured)
  show ?thesis by (rule capture_within [OF assms(1,2) _ assms(4)]) (use assms(3,5) Capture in simp_all)
next
  case (BeginOutbound ctx)
  show ?thesis by (rule begin_within [OF assms(1,4)]) (use assms(5) BeginOutbound in simp)
next
  case (EndOutbound reason)
  show ?thesis by (rule end_within [OF assms(1,4)]) (use assms(5) EndOutbound in simp)
next
  case (SnapshotAcked ctx ack)
  show ?thesis by (rule acked_within [OF assms(4)]) (use assms(5) SnapshotAcked in simp)
next
  case OutboundTick
  show ?thesis by (rule tick_within [OF assms(1,4)]) (use assms(5) OutboundTick in simp)
qed

lemma outbound_run_within:
  assumes "full_session ns" "os_touch_negotiated settings = (Touch |\<in>| ns_capabilities ns)"
    and "\<forall>(cmd, now) \<in> set cmds. command_within ns cmd"
    and "outbound_within ns ob" "outbound_run settings taken cmds ob = (r, ob')"
  shows "outbound_within ns ob'"
  using assms(3-)
proof (induction cmds arbitrary: ob)
  case (Cons c cmds)
  obtain cmd now a ob1 where c: "c = (cmd, now)" and step: "outbound_step settings taken cmd now ob = (a, ob1)"
    by (metis prod.exhaust)
  with outbound_step_within [OF assms(1,2) _ Cons.prems(2) step] Cons.prems(1) have "outbound_within ns ob1" by simp
  then show ?case using Cons.IH [of ob1] Cons.prems c step by (auto simp: try_then_def split: sum.splits)
qed simp


text \<open>Two ends that negotiate with each other over a stream that may fail at any send or read.\<close>

lemma negotiating_end:
  assumes "negotiate takes_left left (read_at delivers_left sent_right 0) (read_at delivers_left sent_right 1) = (Inr s, sent_left)"
    and "negotiate takes_right right (read_at delivers_right sent_left 0) (read_at delivers_right sent_left 1) = (right_end, sent_right)"
  shows "select_negotiation left right = Inr s \<and> select_negotiation right left = Inr s \<and>
    (\<forall>t. right_end = Inr t \<longrightarrow> t = s)"
proof -
  from assms(1) obtain remote where read: "read_at delivers_left sent_right 0 = Some (ControlOffer remote)"
    "read_at delivers_left sent_right 1 = Some (ControlSession s)" and selected: "select_negotiation left remote = Inr s"
    and sent: "sent_left = [ControlOffer left, ControlSession s]"
    by (auto simp: negotiate_Inr)
  from read negotiate_sends [of takes_right right "read_at delivers_right sent_left 0" "read_at delivers_right sent_left 1"] assms(2)
  have right: "remote = right" "select_negotiation right left = Inr s"
    by (auto simp: read_at_def sent split: if_splits)
  with selected assms(2) show ?thesis by (auto simp: negotiate_Inr read_at_def sent split: if_splits)
qed

lemma honest_end:
  assumes "negotiate takes_left left (read_at delivers_left sent_right 0) (read_at delivers_left sent_right 1) = (left_end, sent_left)"
    and "negotiate takes_right right (read_at delivers_right sent_left 0) (read_at delivers_right sent_left 1) = (right_end, sent_right)"
    and "\<forall>m. takes_left m \<and> takes_right m" "\<forall>k. delivers_left k \<and> delivers_right k"
    and "select_negotiation left right = Inr s"
  shows "left_end = Inr s"
proof -
  have first: "read_at delivers_left sent_right 0 = Some (ControlOffer right)" "read_at delivers_right sent_left 0 = Some (ControlOffer left)"
    using negotiate_sends_all(2) [of takes_left left "read_at delivers_left sent_right 0" "read_at delivers_left sent_right 1"]
      negotiate_sends_all(2) [of takes_right right "read_at delivers_right sent_left 0" "read_at delivers_right sent_left 1"] assms
    by (auto simp: read_at_def)
  have "sent_right = [ControlOffer right, ControlSession s]"
    using assms(2,3,5) first negotiate_sends_all(1) [of takes_right right left "read_at delivers_right sent_left 1"]
      select_negotiation_commute [of left right s] by simp
  then have "negotiate takes_left left (read_at delivers_left sent_right 0) (read_at delivers_left sent_right 1) =
      (Inr s, [ControlOffer left, ControlSession s])"
    using assms(3-5) by (simp add: negotiate_Inr read_at_def)
  then show ?thesis using assms(1) by simp
qed

section \<open>Samples\<close>

definition sample_session_settings :: "u64 \<Rightarrow> u64 \<Rightarrow> SessionSettings" where
  "sample_session_settings lease delay =
     \<lparr>checkpoint_ms = 50, lease_ms = lease, playout_mode = Adaptive, fixed_delay_ms = 8, minimum_delay_ms = 3,
      maximum_delay_ms = delay, percentile = Finite (1 / 2), experimental_touchpad = True\<rparr>"

lemma sample_percentile: "f_as_u8 (f_round (rounded 50)) = 50"
proof -
  have "\<lfloor>101 / 2 :: rat\<rfloor> = 50" by (simp add: floor_eq_iff)
  then show ?thesis using rounded_int [of 50] by (simp add: round_half_away_def F64.truncate_def)
qed

lemma sample_playout:
  assumes "3 \<le> delay" "delay \<le> 1000"
  shows "playout_config_validate (playout_of (sample_session_settings lease delay)) = Inr (playout_of (sample_session_settings lease delay))"
proof -
  have "unat delay \<le> 1000" "3 \<le> unat delay" using assms by (simp_all add: word_le_nat_alt)
  moreover obtain x where "rounded (1 / 10) = Finite x" "0 \<le> x" "x \<le> 1" using rounded_tenth by blast
  ultimately show ?thesis
    by (simp add: playout_config_validate_def playout_of_def sample_session_settings_def sample_percentile playout_config_default_def
      duration_micros_def catch_up_default_def default_durations result_then_def)
qed

lemma sample_from_config:
  assumes "3 \<le> delay" "delay \<le> 1000" "lease \<le> 1000" "2 * unat delay < unat lease" "16 < unat lease"
  shows "from_config (sample_session_settings lease delay) = Inr \<lparr>so_offer = offer_of (sample_session_settings lease delay),
     so_playout = playout_of (sample_session_settings lease delay), so_peer_takes_contacts = False\<rparr>"
proof -
  define settings where "settings = sample_session_settings lease delay"
  have small: "unat lease \<le> 1000" using assms(3) by (simp add: word_le_nat_alt)
  have fields: "lease_ms settings = lease" "checkpoint_ms settings = 50"
      "max (fixed_delay (playout_of settings)) (maximum_delay (playout_of settings)) * 2 < from_millis (unat lease)"
    using assms(4,5) by (simp_all add: settings_def sample_session_settings_def playout_of_def from_millis_def)
  have sc: "sender_config_new (from_millis 50) (from_millis (unat lease)) = Inr \<lparr>checkpoint_interval = from_millis 50, receiver_lease = from_millis (unat lease)\<rparr>"
    and rc: "receiver_config_new (from_millis (unat lease)) = Inr \<lparr>held_state_lease = from_millis (unat lease)\<rparr>"
    using small assms(5)
    by (simp_all add: sender_config_new_def config_validate_def receiver_config_new_def result_then_def
      MAX_CHECKPOINT_INTERVAL_def MAX_RECEIVER_LEASE_def MAX_HELD_STATE_LEASE_def from_millis_def from_secs_def)
  show ?thesis using fields(3) sample_playout [OF assms(1,2), of lease]
    by (simp add: from_config_def Let_def settings_def [symmetric] fields(1,2) sc rc result_then_def map_err_def)
qed

section \<open>Properties\<close>

text \<open>
  C24: Both ends agree. Two computers run \<open>negotiate\<close> with each other; each reads, in order, what the other sent, and
  any send and any read may fail. Whatever fails, an end that returns a session returns what \<open>select_negotiation\<close>
  makes of the two offers, in either order, and if the other end returns a session it is the same. If nothing fails,
  each end returns a session if and only if \<open>select_negotiation\<close> of the offers is that session; so either both ends have
  the same session or neither has one.
\<close>

theorem negotiated_ends_agree:
  assumes "negotiate takes_left left (read_at delivers_left sent_right 0) (read_at delivers_left sent_right 1) = (left_end, sent_left)"
    and "negotiate takes_right right (read_at delivers_right sent_left 0) (read_at delivers_right sent_left 1) = (right_end, sent_right)"
  shows "(left_end = Inr s \<or> right_end = Inr s \<longrightarrow>
       select_negotiation left right = Inr s \<and> select_negotiation right left = Inr s \<and>
       (\<forall>t. left_end = Inr t \<or> right_end = Inr t \<longrightarrow> t = s)) \<and>
     ((\<forall>m. takes_left m \<and> takes_right m) \<and> (\<forall>k. delivers_left k \<and> delivers_right k) \<longrightarrow>
       (left_end = Inr s \<longleftrightarrow> select_negotiation left right = Inr s) \<and>
       (right_end = Inr s \<longleftrightarrow> select_negotiation right left = Inr s) \<and> (left_end = Inr s \<longleftrightarrow> right_end = Inr s))"
proof -
  have left: "select_negotiation left right = Inr t \<and> select_negotiation right left = Inr t \<and>
      (\<forall>u. right_end = Inr u \<longrightarrow> u = t)" if "left_end = Inr t" for t
    using negotiating_end [OF _ assms(2)] assms(1) that by blast
  have right: "select_negotiation right left = Inr t \<and> select_negotiation left right = Inr t \<and>
      (\<forall>u. left_end = Inr u \<longrightarrow> u = t)" if "right_end = Inr t" for t
    using negotiating_end [OF _ assms(1)] assms(2) that by blast
  have both: "left_end = Inr s" "right_end = Inr s" if "select_negotiation left right = Inr s"
      "(\<forall>m. takes_left m \<and> takes_right m) \<and> (\<forall>k. delivers_left k \<and> delivers_right k)"
    using honest_end [OF assms] honest_end [OF assms(2,1)] select_negotiation_commute [of left right s] that by auto
  show ?thesis using left right both select_negotiation_commute [of left right s] by (metis Inr_inject)
qed

text \<open>
  C25: A negotiated session is usable. Whatever the peer sends, a session that \<open>negotiate\<close> returns lies within the
  own offer: required and supported capabilities, datagram size, lease, checkpoint bound and contact limit. Its
  lease and checkpoint bound are positive and within the limits of the protocol, so building the sender and
  receiver configurations from it cannot fail and both have the same lease.
\<close>

theorem negotiated_session_is_usable:
  assumes "negotiate takes local first second = (Inr s, sent)"
  shows "of_required_capabilities local |\<subseteq>| ns_capabilities s \<and> ns_capabilities s |\<subseteq>| of_supported_capabilities local \<and>
     0 < ns_maximum_datagram_size s \<and> ns_maximum_datagram_size s \<le> of_maximum_datagram_size local \<and>
     ns_receiver_lease_ms s \<le> of_maximum_receiver_lease_ms local \<and>
     ns_checkpoint_bound_ms s \<le> of_maximum_checkpoint_bound_ms local \<and>
     ns_contact_limit s \<le> of_maximum_contacts local \<and> (Touch |\<in>| ns_capabilities s \<longleftrightarrow> 0 < ns_contact_limit s) \<and>
     (\<exists>sc rc. session_configs s = Inr (sc, rc) \<and> held_state_lease rc = receiver_lease sc \<and>
        receiver_lease sc = from_millis (unat (ns_receiver_lease_ms s)) \<and> 0 < receiver_lease sc)"
proof -
  have "validate_for s local = Inr ()" using assms by (auto simp: negotiate_Inr select_negotiation_Inr)
  from validate_for_bounds [OF this] show ?thesis
    by (auto simp: session_configs_of_bounds from_millis_def word_less_nat_alt)
qed

text \<open>
  Two configured computers get a full session. Two configurations that \<open>from_config\<close> accepts always lead to a
  session: it has all the capabilities that both computers need and high-resolution scrolling, its lease and
  checkpoint bound are the smaller ones, and it has touch, for five contacts, if and only if both turned the
  touchpad on.
\<close>

theorem configured_computers_get_a_session:
  assumes "from_config a = Inr options_a" and "from_config b = Inr options_b"
  shows "\<exists>s. select_negotiation (so_offer options_a) (so_offer options_b) = Inr s \<and>
     {|Keyboard, ConsumerControls, Pointer, Scroll|} |\<subseteq>| ns_capabilities s \<and> high_resolution (ns_scroll_fields s) \<and>
     unat (ns_receiver_lease_ms s) = min (unat (lease_ms a)) (unat (lease_ms b)) \<and>
     unat (ns_checkpoint_bound_ms s) = min (unat (checkpoint_ms a)) (unat (checkpoint_ms b)) \<and>
     ns_contact_limit s = (if experimental_touchpad a \<and> experimental_touchpad b then 5 else 0)"
proof -
  note bounds = from_config_Inr [OF assms(1)] from_config_Inr [OF assms(2)]
  then have "select_negotiation (so_offer options_a) (so_offer options_b) = Inr (selected_session (offer_of a) (offer_of b))"
    using selected_offers_valid [of a b] selected_offers_valid [of b a] selected_commute [of "offer_of a" "offer_of b"]
    by (simp add: select_negotiation_Inr)
  moreover have "checkpoint_ms a \<le> 1000" "checkpoint_ms b \<le> 1000" using bounds by (auto simp: word_le_nat_alt)
  ultimately show ?thesis using bounds
    by (simp add: selected_offers min_def word_le_nat_alt touch_contacts_def MAX_TOUCHPAD_CONTACTS_def ucast_small) (simp add: offer_of_def)
qed

text \<open>
  C26: Honest traffic is allowed. In a full session, whatever is captured from devices that only have keys of the
  keyboard and consumer pages and at most the negotiated number of contacts, and whatever else happens on the
  send side, every control and every motion frame that the send side puts on a channel passes the checks of the
  peer, so they never end the session of an honest sender.
\<close>

theorem honest_traffic_is_allowed:
  assumes "{|Keyboard, ConsumerControls, Pointer, Scroll|} |\<subseteq>| ns_capabilities ns" and "high_resolution (ns_scroll_fields ns)"
    and "os_touch_negotiated settings = (Touch |\<in>| ns_capabilities ns)"
    and "\<forall>captured now. (Capture captured, now) \<in> set cmds \<longrightarrow> frame_within ns (cd_frame captured)"
    and "outbound_run settings taken cmds outbound_new = (r, ob)"
  shows "(\<forall>m. OutControl m \<in> set (o_sent ob) \<longrightarrow> validate_negotiated_control (m_payload m) ns = Inr ()) \<and>
     (\<forall>fr. OutMotion fr \<in> set (o_sent ob) \<longrightarrow> validate_negotiated_motion fr ns = Inr ())"
proof -
  have "command_within ns cmd" if "(cmd, now) \<in> set cmds" for cmd now
    using assms(4) that by (cases cmd) auto
  moreover have "outbound_within ns outbound_new" by (simp add: outbound_within_def outbound_new_def)
  ultimately have "outbound_within ns ob"
    using outbound_run_within [OF _ assms(3) _ _ assms(5)] assms(1,2) by (auto simp: full_session_def)
  then show ?thesis by (fastforce simp: outbound_within_def)
qed

text \<open>
  The check of the delay against the lease does not reach the negotiated lease: two accepted configurations can
  negotiate a lease that is shorter than the playout delay that one of them allows.
\<close>

theorem negotiated_lease_can_undercut_delay:
  "\<exists>a b s. from_config (sample_session_settings 900 400) = Inr a \<and> from_config (sample_session_settings 100 35) = Inr b \<and>
     select_negotiation (so_offer a) (so_offer b) = Inr s \<and>
     from_millis (unat (ns_receiver_lease_ms s)) < maximum_delay (so_playout a)"
proof -
  obtain a b where ab: "from_config (sample_session_settings 900 400) = Inr a" "from_config (sample_session_settings 100 35) = Inr b"
      "so_playout a = playout_of (sample_session_settings 900 400)"
    using sample_from_config [of 400 900] sample_from_config [of 35 100] by simp
  note offers = from_config_Inr [OF ab(1)] from_config_Inr [OF ab(2)]
  then have "select_negotiation (so_offer a) (so_offer b) =
      Inr (selected_session (offer_of (sample_session_settings 900 400)) (offer_of (sample_session_settings 100 35)))"
    using selected_offers_valid [of "sample_session_settings 900 400" "sample_session_settings 100 35"]
      selected_offers_valid [of "sample_session_settings 100 35" "sample_session_settings 900 400"]
      selected_commute [of "offer_of (sample_session_settings 900 400)"]
    by (simp add: select_negotiation_Inr)
  then show ?thesis using ab
    by (simp add: selected_offers) (simp add: sample_session_settings_def playout_of_def from_millis_def)
qed


section \<open>Witnesses\<close>

definition sample_offer :: NegotiationOffer where
  "sample_offer = offer_of (sample_session_settings 900 35)"

definition sample_negotiated :: NegotiatedSession where
  "sample_negotiated = selected_session sample_offer sample_offer"

lemma sample_select: "select_negotiation sample_offer sample_offer = Inr sample_negotiated"
  using selected_offers_valid [of "sample_session_settings 900 35" "sample_session_settings 900 35"]
  by (simp add: select_negotiation_Inr sample_negotiated_def sample_offer_def) (simp add: sample_session_settings_def)

lemma sample_negotiation:
  "negotiate (\<lambda>_. True) sample_offer (Some (ControlOffer sample_offer)) (Some (ControlSession sample_negotiated)) =
     (Inr sample_negotiated, [ControlOffer sample_offer, ControlSession sample_negotiated])"
  by (simp add: negotiate_Inr sample_select)

theorem negotiated_ends_agree_witness:
  "select_negotiation sample_offer sample_offer = Inr sample_negotiated \<and>
   fst (negotiate (\<lambda>_. True) sample_offer (Some (ControlOffer sample_offer)) None) = Inl StreamFailed"
proof -
  define sent where "sent = [ControlOffer sample_offer, ControlSession sample_negotiated]"
  have left: "negotiate (\<lambda>_. True) sample_offer (read_at (\<lambda>_. True) sent 0) (read_at (\<lambda>_. True) sent 1) = (Inr sample_negotiated, sent)"
    by (simp add: sent_def read_at_def sample_negotiation)
  have right: "negotiate (\<lambda>_. True) sample_offer (read_at (\<lambda>k. k = 0) sent 0) (read_at (\<lambda>k. k = 0) sent 1) = (Inl StreamFailed, sent)"
    by (simp add: sent_def read_at_def negotiate_def sample_select)
  from negotiated_ends_agree [OF left right, of sample_negotiated] right show ?thesis
    by (simp add: sent_def read_at_def)
qed

theorem negotiated_session_is_usable_witness:
  "fst (negotiate (\<lambda>_. True) sample_offer (Some (ControlOffer sample_offer)) (Some (ControlSession sample_negotiated))) = Inr sample_negotiated \<and>
   (\<exists>sc rc. session_configs sample_negotiated = Inr (sc, rc) \<and> held_state_lease rc = receiver_lease sc)"
  using negotiated_session_is_usable [OF sample_negotiation] by (auto simp: sample_negotiation)

theorem configured_computers_get_a_session_witness:
  "\<exists>s. select_negotiation (offer_of (sample_session_settings 900 400)) (offer_of (sample_session_settings 100 35)) = Inr s \<and>
     unat (ns_receiver_lease_ms s) = 100"
proof -
  have "from_config (sample_session_settings 900 400) = Inr \<lparr>so_offer = offer_of (sample_session_settings 900 400),
      so_playout = playout_of (sample_session_settings 900 400), so_peer_takes_contacts = False\<rparr>"
    "from_config (sample_session_settings 100 35) = Inr \<lparr>so_offer = offer_of (sample_session_settings 100 35),
      so_playout = playout_of (sample_session_settings 100 35), so_peer_takes_contacts = False\<rparr>"
    by (rule sample_from_config; simp)+
  from configured_computers_get_a_session [OF this] show ?thesis
    by (auto simp: sample_session_settings_def)
qed

lemma sample_outbound_sends:
  "\<exists>ob m. outbound_run sample_settings (\<lambda>_. True) [(BeginOutbound sample_session, 5), (Capture (sample_key_frame ''a'' KeyPressed), 9)]
     outbound_new = (Inr (), ob) \<and> OutControl m \<in> set (o_sent ob) \<and> m_payload m = KeyDown (keyboard 4)"
  by (simp add: sample_outbound_eval Let_def) (metis ReliableControlMessage.select_convs(3))

theorem honest_traffic_is_allowed_witness:
  "\<exists>ob m. outbound_run sample_settings (\<lambda>_. True) [(BeginOutbound sample_session, 5), (Capture (sample_key_frame ''a'' KeyPressed), 9)]
     outbound_new = (Inr (), ob) \<and> OutControl m \<in> set (o_sent ob) \<and> m_payload m = KeyDown (keyboard 4) \<and>
     validate_negotiated_control (m_payload m) sample_negotiated = Inr ()"
proof -
  obtain ob m where run: "outbound_run sample_settings (\<lambda>_. True)
      [(BeginOutbound sample_session, 5), (Capture (sample_key_frame ''a'' KeyPressed), 9)] outbound_new = (Inr (), ob)"
      and m: "OutControl m \<in> set (o_sent ob)" "m_payload m = KeyDown (keyboard 4)"
    using sample_outbound_sends by blast
  have "(\<forall>m. OutControl m \<in> set (o_sent ob) \<longrightarrow> validate_negotiated_control (m_payload m) sample_negotiated = Inr ()) \<and>
     (\<forall>fr. OutMotion fr \<in> set (o_sent ob) \<longrightarrow> validate_negotiated_motion fr sample_negotiated = Inr ())"
  proof (rule honest_traffic_is_allowed [OF _ _ _ _ run])
    have "experimental_touchpad (sample_session_settings 900 35)" by (simp add: sample_session_settings_def)
    then show "{|Keyboard, ConsumerControls, Pointer, Scroll|} |\<subseteq>| ns_capabilities sample_negotiated"
      "high_resolution (ns_scroll_fields sample_negotiated)"
      "os_touch_negotiated sample_settings = (Touch |\<in>| ns_capabilities sample_negotiated)"
      by (auto simp: sample_negotiated_def sample_offer_def selected_offers sample_settings_def)
        (simp add: offer_of_def)
    show "\<forall>captured now. (Capture captured, now) \<in> set [(BeginOutbound sample_session, 5), (Capture (sample_key_frame ''a'' KeyPressed), 9)] \<longrightarrow>
        frame_within sample_negotiated (cd_frame captured)"
      by (simp add: sample_key_frame_def frame_within_def supported_page_def keyboard_def)
  qed
  with run m show ?thesis by blast
qed

end
