(* ===== verification/Inbound_Backend.thy ===== *)
theory Inbound_Backend
  imports Inbound_Run
begin

text \<open>
  What the backend holds while a session receives input, and when it ends: the effects that were handed to the
  backend leave it with exactly what the receiver believes to be held, and after \<open>close\<close> with nothing. The
  theorem names the errors for which this is not so.
\<close>

section \<open>The effects handed over\<close>

fun output_effects :: "InboundOutput \<Rightarrow> ReceiverEffect list" where
  "output_effects (ToBackend effects _ _) = effects"
| "output_effects _ = []"

definition given :: "InboundOutput list \<Rightarrow> ReceiverEffect list" where
  "given outputs = concat (map output_effects outputs)"

definition backend_follows :: "TargetOs \<Rightarrow> Inbound \<Rightarrow> bool" where
  "backend_follows target i \<longleftrightarrow> backend_run (given (i_sent i)) held_default = Some (supported_held target (receiver_held (i_receiver i)))"

text \<open>
  The errors after which effects may not have reached the backend: it failed, the batch had a fatal
  rejection, or the playout could not follow an anchor that the receiver had applied.
\<close>

fun lossy :: "InboundError \<Rightarrow> bool" where
  "lossy IInvalidStateTransition \<longleftrightarrow> True"
| "lossy (IBackend _) \<longleftrightarrow> True"
| "lossy (IPlayout (PMotionOverflow _)) \<longleftrightarrow> True"
| "lossy (IPlayout PRebaseMovedBackwards) \<longleftrightarrow> True"
| "lossy _ \<longleftrightarrow> False"

definition settled :: "TargetOs \<Rightarrow> (InboundError + 'a) \<times> Inbound \<Rightarrow> bool" where
  "settled target res \<longleftrightarrow> (case res of (Inl e, i) \<Rightarrow> lossy e \<or> backend_follows target i | (Inr _, i) \<Rightarrow> backend_follows target i)"

text \<open>The part of the state that matters here.\<close>

definition holding :: "Inbound \<Rightarrow> HeldState \<times> ReceiverEffect list" where
  "holding i = (receiver_held (i_receiver i), given (i_sent i))"

lemma given_simps [simp]:
  "given [] = []" "given (outs @ outs') = given outs @ given outs'" "given [out] = output_effects out"
  by (simp_all add: given_def)

lemma given_responses [simp]: "given (map ToPeer sent) = []"
  by (induction sent) (simp_all add: given_def)

lemma holding_follows: "holding i' = holding i \<Longrightarrow> backend_follows target i' = backend_follows target i"
  by (simp add: holding_def backend_follows_def)

lemma settled_keeps:
  assumes "keeps holding m" "backend_follows target i"
  shows "settled target (m i)"
  using assms holding_follows [OF keepsD [OF assms(1), of i]] by (auto simp: settled_def split: prod.splits sum.splits)

lemma settled_try_then:
  assumes "settled target (m i)" and "\<And>a i'. m i = (Inr a, i') \<Longrightarrow> backend_follows target i' \<Longrightarrow> settled target (f a i')"
  shows "settled target (try_then m f i)"
  using assms by (auto simp: try_then_def settled_def split: prod.splits sum.splits)

section \<open>Calls that leave the backend alone\<close>

lemma holding_simps [simp]:
  "holding (i\<lparr>i_probes := probes\<rparr>) = holding i" "holding (log_output (ToProbe probe) i) = holding i"
  "holding (i\<lparr>i_pending := pending\<rparr>) = holding i"
  by (simp_all add: holding_def log_output_def)

lemma with_keeps_holding [keeps_rules]: "keeps holding (with_playout p f)" "keeps holding (with_clock f')"
  by (simp_all add: keeps_def with_playout_def with_clock_def holding_def split: prod.split)

lemma reading_keeps_holding [keeps_rules]: "keeps holding (reading f)"
  by (rule keeps_reading)

lemma begin_keeps_holding [keeps_rules]: "keeps holding begin_activation"
  by (simp add: keeps_def begin_activation_def Let_def holding_def split: sum.split option.split)

lemma move_keeps_holding [keeps_rules]: "keeps holding (move_playout s an)"
proof -
  have "keeps holding (try_then (with_playout p f) (\<lambda>_ i. (Inr (), i\<lparr>i_motion_received_at := h i\<rparr>)))"
    for p and f :: "ReceiverPlayout \<Rightarrow> (PlayoutError + unit) \<times> ReceiverPlayout" and h
    by (intro keeps_rules) (simp add: keeps_def holding_def)
  from this [THEN keepsD] show ?thesis
    by (auto simp: keepsD [OF with_keeps_holding(1)] keeps_def [of _ "move_playout _ _"] move_playout_def split: option.split)
qed

lemma bootstrap_keeps_holding [keeps_rules]: "keeps holding (bootstrap_clock t t')"
  by (simp add: keepsD [OF with_keeps_holding(2)] keeps_def [of holding "bootstrap_clock _ _"] bootstrap_clock_def)

lemma due_keeps_holding [keeps_rules]: "keeps holding (anchor_is_due an arrived_at delay now)"
  unfolding anchor_is_due_def by (intro keeps_rules)

lemma ready_keeps_holding [keeps_rules]: "keeps holding (pending_control_is_ready pending now)"
  by (simp add: keepsD [OF due_keeps_holding] keeps_def [of _ "pending_control_is_ready _ _"]
      pending_control_is_ready_def split: option.split)

lemma responses_keep_holding [keeps_rules]: "keeps holding (send_responses w responses)"
proof (induction responses)
  case (Cons response responses)
  have "keeps holding (send_response w response)"
    by (auto simp: keeps_def send_response_def log_output_def Let_def holding_def split: option.split)
  then have "keeps holding (try_then (send_response w response) (\<lambda>_. send_responses w responses))"
    using Cons by (intro keeps_rules)
  then show ?case by (simp add: keeps_def)
qed (simp add: keeps_def)

lemma motion_keeps_holding [keeps_rules]: "keeps holding (receive_motion frame t now)"
proof -
  have "keeps holding (ingest_motion p frame t now)" for p
    by (auto simp: keeps_def ingest_motion_def try_then_def with_playout_def holding_def
        split: prod.split sum.split EnqueueOutcome.split)
  then have "keeps holding (try_then (bootstrap_clock s now) (\<lambda>_. ingest_motion p frame t now))" for s p
    by (intro keeps_rules)
  from this [THEN keepsD] show ?thesis
    by (simp add: keeps_def [of holding "receive_motion _ _ _"] receive_motion_def split: option.split)
qed

lemma probe_turn_keeps_holding [keeps_rules]: "keeps holding (probe_turn w now)"
proof -
  have "keeps holding (send_next_probe w now)"
    by (auto simp: keeps_def send_next_probe_def Let_def log_output_def holding_def split: option.split)
  then have "keeps holding (try_then (send_next_probe w now) (\<lambda>_ i.
      (Inr (), if now \<ge> i_next_probe_at i then i\<lparr>i_next_probe_at := t\<rparr> else i)))" for t
    by (intro keeps_rules) (simp_all add: keeps_def holding_def)
  from this [THEN keepsD] show ?thesis
    unfolding keeps_def probe_turn_def Let_def by (simp add: holding_def)
qed

lemma discard_closed_holding [simp]: "holding (discard_closed c i) = holding i"
  by (simp add: discard_closed_def holding_def split: option.split)

lemma track_keeps_holding: "holding (track_activation w i) = holding i"
  by (simp add: track_activation_def holding_def)

lemma probe_keeps_holding [keeps_rules]: "keeps holding (receive_probe w probe sender now)"
proof -
  have remap: "keeps holding (\<lambda>i. case i_playout i of
       Some playout \<Rightarrow> if b then with_playout playout (remap_clock (i_clock i)) i else (Inr (), i)
     | None \<Rightarrow> (Inr (), i))" for b
    by (auto simp: keeps_def with_playout_def holding_def split: option.split prod.split)
  have "keeps holding (try_then (with_clock f) (\<lambda>_ i. case i_playout i of
       Some playout \<Rightarrow> if b then with_playout playout (remap_clock (i_clock i)) i else (Inr (), i)
     | None \<Rightarrow> (Inr (), i)))" for b and f :: "ClockMapper \<Rightarrow> (ClockError + unit) \<times> ClockMapper"
    by (intro keeps_rules remap)
  from this [THEN keepsD] show ?thesis
    by (auto simp: keeps_def [of holding "receive_probe _ _ _ _"] receive_probe_def Let_def split: ProbePayload.split)
qed


section \<open>Handing over\<close>

lemma backend_run_filter: "backend_run (filter (\<lambda>e. \<not> is_ack e \<and> \<not> is_rejection e) es) = backend_run es"
proof (induction es)
  case (Cons e es)
  then show ?case by (cases e) (auto intro!: ext)
qed simp

lemma sort_effects_error: "sort_effects supports es = Inl e \<Longrightarrow> e = IInvalidStateTransition"
proof (induction es)
  case (Cons x xs)
  then show ?case by (cases x) (auto simp: result_then_def split: if_splits sum.splits)
qed simp

lemma emit_settles:
  assumes "w_target w = target" and "backend_run (given (i_sent i)) held_default = Some (supported_held target h)"
    and "backend_run es h = Some (receiver_held (i_receiver i))"
  shows "settled target (emit w es t t' i)"
proof (cases "sort_effects (backend_supports (w_target w)) es")
  case (Inl e)
  then show ?thesis using sort_effects_error [OF Inl] by (simp add: emit_def try_then_def reading_def settled_def)
next
  case (Inr parts)
  obtain backend responses where parts: "parts = (backend, responses)" by fastforce
  have backend: "backend = filter (backend_supports target) (filter (\<lambda>e. \<not> is_ack e \<and> \<not> is_rejection e) es)"
    using sort_effects_backend [OF Inr [unfolded parts]] assms(1) by (simp add: conj_commute conj_left_commute)
  have eq: "emit w es t t' i = try_then (hand_over w backend t' t) (\<lambda>_. send_responses w responses) i"
    by (simp add: emit_def try_then_def reading_def Inr parts)
  have "backend_run (filter (\<lambda>e. \<not> is_ack e \<and> \<not> is_rejection e) es) h = Some (receiver_held (i_receiver i))"
    using assms(3) by (simp add: backend_run_filter)
  from supported_run [OF this, of target]
  have "backend_run (given (i_sent i) @ backend) held_default = Some (supported_held target (receiver_held (i_receiver i)))"
    using assms(2) by (simp add: backend backend_run_append)
  then have "settled target (hand_over w backend t' t i)"
    by (auto simp: settled_def hand_over_def backend_follows_def log_output_def map_err_def split: sum.split)
  then show ?thesis unfolding eq
    by (rule settled_try_then) (rule settled_keeps [OF responses_keep_holding])
qed

text \<open>A call of the receiver whose effects are handed over at once.\<close>

lemma receiver_call_settles:
  assumes "w_target w = target" "backend_follows target i"
  shows "settled target (try_then (with_receiver (receiver_step op now)) (\<lambda>effects. emit w effects t t') i)"
proof -
  obtain r receiver where step: "receiver_step op now (i_receiver i) = (r, receiver)" by fastforce
  have "case r of Inr effects \<Rightarrow> backend_run effects (receiver_held (i_receiver i)) = Some (receiver_held receiver)
     | Inl e \<Rightarrow> receiver_held receiver = receiver_held (i_receiver i)"
    using step receiver_step_tracks [of op now "i_receiver i"] receiver_step_error [of op now "i_receiver i"]
    by (auto simp: tracks_def receiver_held_def split: sum.splits)
  then show ?thesis
    using assms emit_settles [OF assms(1), of "i\<lparr>i_receiver := receiver\<rparr>" "receiver_held (i_receiver i)"]
    by (cases r) (auto simp: try_then_def with_receiver_def step map_err_def settled_def backend_follows_def backend_run_append)
qed

section \<open>Controls\<close>

text \<open>What a control that is accepted after an activation was open says of its number.\<close>

lemma accepted_in_sequence:
  assumes "receive_control message now r = (Inr effects, r')" "\<not> list_ex is_rejection effects" "m_payload message \<noteq> Enter"
  shows "\<exists>st. r_activation r = Some st \<and> a_last_control_sequence st \<le> m_sequence message"
  using assms(1)
proof (cases rule: receive_control_cases)
  case (accepted r0)
  obtain r1 e1 where ex: "expire_lease now r0 = (r1, e1)" by fastforce
  from accepted(4) ex show ?thesis
  proof (cases rule: control_body_cases)
    case (in_sequence state e2)
    have "r_activation r = Some state"
      using in_sequence(2) ex accepted(2) by (auto simp: expire_lease_def close_activation_eq split: option.splits if_splits)
    then show ?thesis using in_sequence(4) by (auto simp: word_le_nat_alt checked_succ_u64)
  qed (use assms in auto)
qed simp

lemma enter_opens:
  assumes "receive_control message now r = (Inr effects, r')" "\<not> list_ex is_rejection effects" "m_payload message = Enter"
  shows "list_ex is_opening effects \<and> r_activation r' \<noteq> None"
  using assms(1)
proof (cases rule: receive_control_cases)
  case (accepted r0)
  obtain r1 e1 where ex: "expire_lease now r0 = (r1, e1)" by fastforce
  from accepted(4) ex show ?thesis
  proof (cases rule: control_body_cases)
    case (entered e2)
    from entered(2) show ?thesis
      by (cases rule: receive_enter_activation) (use entered assms in auto)
  qed (use assms in auto)
qed simp

lemma config_ok_new:
  assumes "playout_config_validate config = Inr c" shows "\<exists>p. playout_new config session = Inr p \<and> p_applied_control_sequence p = 0"
  using assms by (auto simp: playout_new_def result_then_def playout_config_validate_def split: if_splits sum.splits)

lemma move_playout_lossy:
  assumes "move_playout sequence an i = (Inl e, i')" "\<And>p. i_playout i = Some p \<Longrightarrow> p_applied_control_sequence p \<le> sequence"
  shows "lossy e"
  using assms
  by (auto simp: move_playout_def with_playout_def advance_control_watermark_def rebase_def try_then_def map_err_def
      split: option.splits prod.splits sum.splits if_splits)

lemma begin_activation_works:
  assumes "playout_config_validate (i_playout_config i) = Inr c" "r_activation (i_receiver i) = Some st"
  shows "\<exists>p. begin_activation i = (Inr (), i\<lparr>i_motion_received_at := fmempty, i_clock := sample_clock, i_playout := Some p\<rparr>) \<and>
     p_applied_control_sequence p = 0"
  using config_ok_new [OF assms(1), of "a_session st"] assms(2)
  by (auto simp: begin_activation_def sample_clock_new active_context_def)


text \<open>The step between the receiver and the hand-over: it keeps what is held, and its errors are lossy.\<close>

definition follow_control :: "ReliableControlMessage \<Rightarrow> ReceiverEffect list \<Rightarrow> unit inbound_op" where
  "follow_control message effects i =
     (if list_ex is_rejection effects then (Inr (), i)
      else try_then
             (\<lambda>i. if list_ex is_opening effects then begin_activation i else (Inr (), i))
             (\<lambda>_. move_playout (m_sequence message) (motion_anchor (m_payload message))) i)"

lemma follow_keeps_holding: "keeps holding (follow_control message effects)"
proof -
  have "keeps holding (try_then (\<lambda>i. if list_ex is_opening effects then begin_activation i else (Inr (), i))
      (\<lambda>_. move_playout (m_sequence message) (motion_anchor (m_payload message))))"
    by (intro keeps_rules)
  from this [THEN keepsD] show ?thesis unfolding keeps_def follow_control_def by simp
qed

lemma follow_control_lossy:
  assumes sync: "in_sync i" and config: "playout_config_validate (i_playout_config i) = Inr c"
    and recv: "receive_control message now (i_receiver i) = (Inr effects, receiver)"
    and fails: "follow_control message effects (i\<lparr>i_receiver := receiver\<rparr>) = (Inl e, i')"
  shows "lossy e"
proof -
  let ?i = "i\<lparr>i_receiver := receiver\<rparr>"
  have plain: "\<not> list_ex is_rejection effects" using fails by (auto simp: follow_control_def split: if_splits)
  from recv show ?thesis
  proof (cases rule: receive_control_activation)
    case (Opened st)
    then obtain p where "begin_activation ?i = (Inr (), ?i\<lparr>i_motion_received_at := fmempty, i_clock := sample_clock, i_playout := Some p\<rparr>)"
        "p_applied_control_sequence p = 0"
      using begin_activation_works [of ?i c st] config by auto
    then show ?thesis using fails plain Opened(3)
      by (auto simp: follow_control_def try_then_def intro: move_playout_lossy [where i = "?i\<lparr>i_motion_received_at := fmempty, i_clock := sample_clock, i_playout := Some p\<rparr>"])
  next
    case Refused
    then show ?thesis using plain by simp
  next
    case Closed
    then have "m_payload message \<noteq> Enter" using enter_opens [OF recv plain] by blast
    obtain st where st: "r_activation (i_receiver i) = Some st" "a_last_control_sequence st \<le> m_sequence message"
      using accepted_in_sequence [OF recv plain \<open>m_payload message \<noteq> Enter\<close>] by blast
    then obtain p where "i_playout i = Some p" "p_applied_control_sequence p \<le> m_sequence message"
      using sync by (auto simp: synced_def agrees_def)
    then show ?thesis using fails plain Closed by (auto simp: follow_control_def try_then_def intro: move_playout_lossy [of _ _ ?i])
  next
    case (Moved st st')
    then have "m_payload message \<noteq> Enter" using enter_opens [OF recv plain] by blast
    then obtain p where "i_playout i = Some p" "p_applied_control_sequence p \<le> m_sequence message"
      using accepted_in_sequence [OF recv plain] sync by (force simp: synced_def agrees_def)
    then show ?thesis using fails plain Moved(4) by (auto simp: follow_control_def try_then_def intro: move_playout_lossy [of _ _ ?i])
  qed
qed


lemma in_apply_control_parts:
  "in_apply_control w message now t =
     try_then (reading (touch_capture w (motion_anchor (m_payload message)) now)) (\<lambda>tc.
     try_then (with_receiver (receive_control message now)) (\<lambda>effects.
     try_then (follow_control message effects) (\<lambda>_. emit w effects t tc)))"
  unfolding in_apply_control_def follow_control_def [abs_def] by (rule refl)

definition standing :: "TargetOs \<Rightarrow> PlayoutConfig \<Rightarrow> Inbound \<Rightarrow> bool" where
  "standing target config i \<longleftrightarrow> in_sync i \<and> backend_follows target i \<and> i_playout_config i = config"

text \<open>A call that ends with the invariant, or with an error after which the backend still follows or that is lossy.\<close>

definition stands :: "TargetOs \<Rightarrow> PlayoutConfig \<Rightarrow> (InboundError + 'a) \<times> Inbound \<Rightarrow> bool" where
  "stands target config res \<longleftrightarrow> (case res of (Inl e, i) \<Rightarrow> lossy e \<or> backend_follows target i | (Inr _, i) \<Rightarrow> standing target config i)"

lemma stands_try_then:
  assumes "stands target config (m i)" and "\<And>a i'. m i = (Inr a, i') \<Longrightarrow> standing target config i' \<Longrightarrow> stands target config (f a i')"
  shows "stands target config (try_then m f i)"
  using assms by (auto simp: try_then_def stands_def split: prod.splits sum.splits)

lemma stands_settled:
  assumes "settled target (m i)" "keeps i_playout_config m" "standing target config i" "\<And>a i'. m i = (Inr a, i') \<Longrightarrow> in_sync i'"
  shows "stands target config (m i)"
  using assms keepsD [OF assms(2), of i]
  by (auto simp: stands_def settled_def standing_def split: prod.splits sum.splits)

lemma stands_keeps:
  assumes "keeps holding m" "keeps i_playout_config m" "standing target config i" "\<And>a i'. m i = (Inr a, i') \<Longrightarrow> in_sync i'"
  shows "stands target config (m i)"
  using settled_keeps [OF assms(1)] stands_settled [OF _ assms(2-4)] assms(3) by (auto simp: standing_def)

lemma in_apply_control_settles:
  assumes "w_target w = target" "standing target config i" "playout_config_validate config = Inr c"
  shows "settled target (in_apply_control w message now t i)"
  unfolding in_apply_control_parts
proof (rule settled_try_then)
  have follows: "backend_follows target i" using assms(2) by (simp add: standing_def)
  then show "settled target (reading (touch_capture w (motion_anchor (m_payload message)) now) i)"
    by (intro settled_keeps reading_keeps_holding)
  fix tc i0
  assume "reading (touch_capture w (motion_anchor (m_payload message)) now) i = (Inr tc, i0)"
  then have i0: "i0 = i" by (simp add: reading_def)
  obtain r receiver where step: "receive_control message now (i_receiver i) = (r, receiver)" by fastforce
  show "settled target (try_then (with_receiver (receive_control message now)) (\<lambda>effects.
      try_then (follow_control message effects) (\<lambda>_. emit w effects t tc)) i0)"
  proof (cases r)
    case (Inl e)
    then have "receiver_held receiver = receiver_held (i_receiver i)"
      using step receiver_step_error [of "RControl message" now "i_receiver i"] by (auto simp: receiver_held_def)
    then show ?thesis using follows
      by (simp add: i0 try_then_def with_receiver_def step Inl map_err_def settled_def backend_follows_def)
  next
    case (Inr effects)
    let ?i = "i\<lparr>i_receiver := receiver\<rparr>"
    have run: "backend_run effects (receiver_held (i_receiver i)) = Some (receiver_held receiver)"
      using receiver_step_tracks [of "RControl message" now "i_receiver i"] step Inr by (simp add: tracks_def)
    obtain r' i' where follow: "follow_control message effects ?i = (r', i')" by fastforce
    have "holding i' = holding ?i" using keepsD [OF follow_keeps_holding, of message effects ?i] follow by simp
    then have emits: "settled target (emit w effects t tc i')"
      using emit_settles [OF assms(1), of i' "receiver_held (i_receiver i)"] run follows
      by (simp add: holding_def backend_follows_def)
    have eq: "try_then (with_receiver (receive_control message now)) (\<lambda>effects.
        try_then (follow_control message effects) (\<lambda>_. emit w effects t tc)) i0 =
      (case r' of Inl e \<Rightarrow> (Inl e, i') | Inr _ \<Rightarrow> emit w effects t tc i')"
      by (simp add: i0 try_then_def with_receiver_def step Inr map_err_def follow split: sum.split)
    have "lossy e" if "r' = Inl e" for e
      using follow_control_lossy [of i c message now effects receiver e i'] assms(2,3) step Inr follow that by (simp add: standing_def)
    then show ?thesis unfolding eq using emits by (cases r') (auto simp: settled_def)
  qed
qed

lemma in_apply_control_stands:
  assumes "w_target w = target" "standing target config i" "playout_config_validate config = Inr c"
  shows "stands target config (in_apply_control w message now t i)"
  by (rule stands_settled [OF in_apply_control_settles [OF assms] playout_config.in_apply_control_keeps assms(2)])
    (use assms(2) in_apply_control_sync in \<open>fastforce simp: standing_def\<close>)

lemma drain_one_stands:
  assumes "w_target w = target" "standing target config i" "playout_config_validate config = Inr c"
  shows "stands target config (drain_one w item now i)"
  unfolding drain_one_def Let_def
proof (rule stands_try_then [where m = "in_apply_control w (pc_message item) now (pc_received_at item)", OF in_apply_control_stands [OF assms]])
  fix a i'
  assume "standing target config i'"
  then show "stands target config (Inr (), discard_closed (i_active_context i) i')"
    using holding_follows [OF discard_closed_holding, of _ "i_active_context i" i']
    by (simp add: stands_def standing_def) (simp add: discard_closed_def split: option.split)
qed

lemma drain_stands:
  assumes "w_target w = target" "playout_config_validate config = Inr c"
  shows "standing target config i \<Longrightarrow> stands target config (drain_pending_controls w now i)"
proof (induction "length (i_pending i)" arbitrary: i rule: less_induct)
  case less
  show ?case
  proof (cases "i_pending i")
    case Nil
    then show ?thesis using less.prems by (simp add: drain_nothing stands_def)
  next
    case (Cons front rest)
    obtain r i1 where ready: "pending_control_is_ready front now i = (r, i1)" by fastforce
    have i1: "standing target config i1"
      using less.prems keepsD [OF ready_keeps_holding, of front now i] ready pending_control_is_ready_sync [OF ready]
        keepsD [OF playout_config.pending_control_is_ready_keeps, of front now i] holding_follows [of i1 i]
      by (simp add: standing_def)
    then have taken: "standing target config (i1\<lparr>i_pending := rest\<rparr>)"
      using holding_follows [OF holding_simps(3), of _ rest i1] by (simp add: standing_def)
    obtain r' i2 where one: "drain_one w front now (i1\<lparr>i_pending := rest\<rparr>) = (r', i2)" by fastforce
    have two: "stands target config (r', i2)" using drain_one_stands [OF assms(1) taken assms(2), of front now] one by simp
    have "length (i_pending i2) < length (i_pending i)" using drain_one_shrinks [OF one] Cons by simp
    then have rest: "stands target config (drain_pending_controls w now i2)" if "r' = Inr u" for u
      using less.hyps two that by (simp add: stands_def)
    have eq: "drain_pending_controls w now i =
       (case r of Inl e \<Rightarrow> (Inl e, i1)
        | Inr b \<Rightarrow> if \<not> b then (Inr (), i1) else case r' of Inl e \<Rightarrow> (Inl e, i2) | Inr _ \<Rightarrow> drain_pending_controls w now i2)"
      by (subst drain_pending_controls.simps) (simp add: Cons ready one split: sum.split)
    show ?thesis unfolding eq using i1 two rest by (cases r; cases r') (simp_all add: stands_def standing_def)
  qed
qed


section \<open>Every call\<close>

lemma receive_control_stands:
  assumes "w_target w = target" "playout_config_validate config = Inr c" "standing target config i"
  shows "stands target config (in_receive_control w message t now i)"
proof -
  have "standing target config (i\<lparr>i_pending := pending\<rparr>)" for pending
    using assms(3) holding_follows [OF holding_simps(3), of _ pending i] by (simp add: standing_def)
  then show ?thesis using drain_stands [OF assms(1,2)] assms(3)
    by (auto simp: in_receive_control_def stands_def standing_def split: sum.split)
qed

lemma play_step_settles:
  assumes "w_target w = target" "backend_follows target i"
  shows "settled target (play_step w session now step i)"
proof -
  have step: "settled target (try_then (with_receiver (receive_playout_step session step now)) (\<lambda>effects. emit w effects t t') i')"
    if "backend_follows target i'" for t t' i'
    using receiver_call_settles [OF assms(1) that, of "RPlayout session step" now t t'] by (simp add: receiver_step.simps [abs_def])
  have "backend_follows target (i\<lparr>i_motion_received_at := m\<rparr>)" for m
    using assms(2) by (simp add: backend_follows_def)
  then show ?thesis using step assms(2) by (simp add: play_step_def Let_def)
qed

lemma poll_playout_settles:
  assumes "w_target w = target" "backend_follows target i"
  shows "settled target (poll_playout w now i)"
proof (cases "i_playout i")
  case None
  then show ?thesis using assms by (simp add: poll_playout_def settled_def)
next
  case (Some playout)
  have "settled target (try_then (with_playout playout (poll (w_hypot w) now)) (\<lambda>step i.
      case step of None \<Rightarrow> (Inr (), i) | Some step \<Rightarrow> play_step w (p_session playout) now step i) i)"
    by (rule settled_try_then [where m = "with_playout playout (poll (w_hypot w) now)", OF settled_keeps [OF with_keeps_holding(1) assms(2)]])
      (use play_step_settles [OF assms(1)] in \<open>auto simp: settled_def split: option.split\<close>)
  then show ?thesis by (simp add: poll_playout_def Some)
qed

lemma receiver_call_tick: "receiver_step RTick now = receiver_tick now" "receiver_step RConnectionLost now = connection_lost now"
  by (simp_all add: fun_eq_iff)

lemma tick_stands:
  assumes "w_target w = target" "playout_config_validate config = Inr c" "standing target config i"
  shows "stands target config (inbound_tick w now i)"
proof -
  have first: "stands target config (try_then (with_receiver (receiver_tick now)) (\<lambda>effects. emit w effects t t') i)" for t t'
  proof (rule stands_settled)
    show "settled target (try_then (with_receiver (receiver_tick now)) (\<lambda>effects. emit w effects t t') i)"
      using receiver_call_settles [OF assms(1), of i RTick now] assms(3) by (simp add: receiver_call_tick standing_def)
    show "keeps i_playout_config (try_then (with_receiver (receiver_tick now)) (\<lambda>effects. emit w effects t t'))"
      by (intro keeps_rules playout_config.with_keeps playout_config.emit_keeps)
    show "in_sync i'" if ok: "try_then (with_receiver (receiver_tick now)) (\<lambda>effects. emit w effects t t') i = (Inr a, i')" for a i'
    proof -
      obtain effects i1 where call: "with_receiver (receiver_tick now) i = (Inr effects, i1)" "emit w effects t t' i1 = (Inr a, i')"
        using ok by (auto simp: try_then_Inr)
      then have "in_sync i1" using receiver_call [OF call(1)] tick_sync [of "i_receiver i" "i_playout i" now effects "i_receiver i1"] assms(3)
        by (simp add: standing_def)
      then show ?thesis using emit_sync [OF call(2)] by simp
    qed
  qed (rule assms(3))
  have eq: "inbound_tick w now i = try_then (try_then (with_receiver (receiver_tick now)) (\<lambda>effects. emit w effects (w_instant_now w) None)) (\<lambda>_.
         try_then (\<lambda>i'. (Inr (), discard_closed (i_active_context i) i')) (\<lambda>_.
         try_then (poll_playout w now) (\<lambda>_.
         try_then (drain_pending_controls w now) (\<lambda>_. probe_turn w now)))) i"
    by (simp add: inbound_tick_def Let_def try_then_def split: prod.split sum.split)
  have discard: "stands target config (Inr (), discard_closed k i')" if "standing target config i'" for k i'
    using that holding_follows [OF discard_closed_holding, of _ k i']
    by (simp add: stands_def standing_def) (simp add: discard_closed_def split: option.split)
  have poll: "stands target config (poll_playout w now i')" if "standing target config i'" for i'
    by (rule stands_settled [OF poll_playout_settles [OF assms(1)] playout_config.poll_playout_keeps that])
      (use that poll_playout_sync in \<open>auto simp: standing_def\<close>)
  have probe: "stands target config (probe_turn w now i')" if "standing target config i'" for i'
    by (rule stands_keeps [OF probe_turn_keeps_holding _ that])
      (use that probe_turn_sync in \<open>auto simp: standing_def keeps_def probe_turn_def send_next_probe_def Let_def try_then_def log_output_def split: option.split\<close>)
  show ?thesis unfolding eq
    by (intro stands_try_then [where m = "try_then (with_receiver _) _"] stands_try_then [where m = "\<lambda>i'. (Inr (), discard_closed _ i')"]
        stands_try_then [where m = "poll_playout w now"] stands_try_then [where m = "drain_pending_controls w now"] first discard poll
        drain_stands [OF assms(1,2)] probe)
qed


lemma probe_keeps_config: "keeps i_playout_config (receive_probe w probe sender now)"
  by (auto simp: keeps_def receive_probe_def try_then_def with_clock_def with_playout_def log_output_def Let_def
      split: ProbePayload.split sum.split prod.split option.split)

lemma close_settles:
  assumes "w_target w = target" "backend_follows target i"
  shows "settled target (inbound_close w now i)"
  using receiver_call_settles [OF assms, of RConnectionLost now] by (simp add: inbound_close_def receiver_call_tick)

lemma inbound_step_stands:
  assumes "w_target w = target" "playout_config_validate config = Inr c" "standing target config i"
  shows "stands target config (inbound_step w op now i)"
proof (cases op)
  case (InControl m t)
  then show ?thesis using receive_control_stands [OF assms] by simp
next
  case (InMotion frame t)
  have "stands target config (receive_motion frame t now i)"
    by (rule stands_keeps [OF motion_keeps_holding playout_config.receive_motion_keeps assms(3)])
      (use assms(3) receive_motion_sync in \<open>auto simp: standing_def\<close>)
  then show ?thesis using InMotion by simp
next
  case (InProbe probe sender)
  have "stands target config (receive_probe w probe sender now i)"
    by (rule stands_keeps [OF probe_keeps_holding probe_keeps_config assms(3)])
      (use assms(3) receive_probe_sync in \<open>auto simp: standing_def\<close>)
  then show ?thesis using InProbe by simp
next
  case InTick
  then show ?thesis using tick_stands [OF assms] by simp
next
  case InTrack
  then show ?thesis using assms(3) holding_follows [OF track_keeps_holding, of _ w i]
    by (simp add: stands_def standing_def) (simp add: track_activation_def)
next
  case InClose
  have "stands target config (inbound_close w now i)"
  proof (rule stands_settled [OF close_settles [OF assms(1)]])
    show "keeps i_playout_config (inbound_close w now)"
      unfolding inbound_close_def by (intro keeps_rules playout_config.with_keeps playout_config.emit_keeps)
  qed (use assms(3) inbound_step_sync [of i w InClose now] in \<open>auto simp: standing_def\<close>)
  then show ?thesis using InClose by simp
qed

lemma inbound_run_stands:
  assumes "playout_config_validate config = Inr c"
  shows "\<forall>(w, op, now) \<in> set ops. w_target w = target \<Longrightarrow> standing target config i \<Longrightarrow> stands target config (inbound_run ops i)"
proof (induction ops arbitrary: i)
  case (Cons x ops)
  obtain w op now where x: "x = (w, op, now)" by (cases x)
  show ?case unfolding x inbound_run.simps
    by (rule stands_try_then [where m = "inbound_step w op now", OF inbound_step_stands [OF _ assms Cons.prems(2)]])
      (use Cons.prems(1) Cons.IH x in auto)
qed (simp add: stands_def)

lemma inbound_new_stands:
  assumes "inbound_new rc config start = Inr i" shows "standing target config i"
  using inbound_new_sync(1) [OF assms] assms
  by (auto simp: standing_def backend_follows_def inbound_new_def result_then_Inr map_err_Inr receiver_new_def receiver_held_def)

text \<open>What closing hands over can always be handed over.\<close>

lemma sort_effects_works:
  assumes "\<not> list_ex is_rejection es" "\<not> list_ex is_ack es"
  shows "\<exists>backend. sort_effects supports es = Inr (backend, [])"
  using assms
proof (induction es)
  case (Cons e es)
  then show ?case by (cases e) auto
qed simp

lemma close_has_no_acks: "\<not> list_ex is_ack (snd (close_activation reason r))"
  by (auto simp: close_activation_eq reconcile_effects_def list_ex_iff split: option.splits)

lemma close_works:
  assumes "\<forall>es. w_applied w es = Inr ()" "r_last_observed_time (i_receiver i) \<le> now"
  shows "\<exists>i'. inbound_close w now i = (Inr (), i') \<and> r_activation (i_receiver i') = None"
proof -
  let ?r = "(i_receiver i)\<lparr>r_last_observed_time := now\<rparr>"
  obtain r' effects where close: "close_activation CloseLeaseExpired ?r = (r', effects)" by fastforce
  have lost: "connection_lost now (i_receiver i) = (Inr effects, r')"
    using assms(2) close by (simp add: connection_lost_def try_then_def r_observe_time_def not_less)
  obtain backend where sort: "sort_effects (backend_supports (w_target w)) effects = Inr (backend, [])"
    using sort_effects_works [of effects "backend_supports (w_target w)"] plain_close [of CloseLeaseExpired ?r] close_has_no_acks [of CloseLeaseExpired ?r] close
    by (auto simp: plain_def)
  show ?thesis using connection_lost_closed [OF lost] assms(1)
    by (auto simp: inbound_close_def try_then_def with_receiver_def lost map_err_def emit_def reading_def sort hand_over_def
      split: sum.split)
qed

section \<open>Properties\<close>

text \<open>
  A session that has ended leaves nothing held. However the receive side of a session ran, with any peer,
  and whether it still runs or stopped with an error, the effects handed to the backend, replayed in order, never
  press what is down or release what is up and leave it with what the receiver believes to be held, as far as the
  backend of the platform supports it; and closing
  then succeeds and leaves the backend with nothing held. The only errors for which this is not claimed are those
  of \<open>lossy\<close>: a failing backend, a fatal rejection, and a playout that cannot follow an anchor.
\<close>

theorem ended_session_holds_nothing:
  assumes "inbound_new rc config start = Inr i0" and "playout_config_validate config = Inr c"
    and "\<forall>(w, op, now) \<in> set ops. w_target w = target" and "inbound_run ops i0 = (r, i1)" and "\<forall>e. r = Inl e \<longrightarrow> \<not> lossy e"
    and "w_target w = target" and "\<forall>es. w_applied w es = Inr ()" and "r_last_observed_time (i_receiver i1) \<le> now"
  shows "backend_run (given (i_sent i1)) held_default = Some (supported_held target (receiver_held (i_receiver i1))) \<and>
     (\<exists>i2. inbound_close w now i1 = (Inr (), i2) \<and> i_active_context i2 = None \<and>
        backend_run (given (i_sent i2)) held_default = Some held_default)"
proof -
  have follows: "backend_follows target i1"
    using inbound_run_stands [OF assms(2,3) inbound_new_stands [OF assms(1)]] assms(4,5)
    by (auto simp: stands_def standing_def split: sum.splits)
  obtain i2 where i2: "inbound_close w now i1 = (Inr (), i2)" "r_activation (i_receiver i2) = None"
    using close_works [OF assms(7,8)] by blast
  then have "backend_follows target i2" using close_settles [OF assms(6) follows, of now] by (simp add: settled_def)
  with follows i2 show ?thesis by (simp add: backend_follows_def receiver_held_def active_context_def)
qed

theorem ended_session_holds_nothing_witness:
  "backend_run (given (i_sent entered_inbound)) held_default = Some (receiver_held (i_receiver entered_inbound)) \<and>
   (\<exists>i2. inbound_close sample_world 9 entered_inbound = (Inr (), i2) \<and>
      backend_run (given (i_sent i2)) held_default = Some held_default)"
proof -
  have run: "inbound_run [(sample_world, InControl (sample_control 1 Enter) 0, 5)] sample_inbound = (Inr (), entered_inbound)"
    using sample_inbound_enter by (simp add: try_then_def)
  have "\<exists>c. playout_config_validate playout_config_default = Inr c"
    using fresh_playout_new by (auto simp: playout_new_def result_then_Inr)
  then obtain c where "playout_config_validate playout_config_default = Inr c" by blast
  from ended_session_holds_nothing [OF sample_inbound_new this _ run, of TargetOther sample_world 9] show ?thesis
    by (auto simp: sample_world_def entered_inbound_def entered_receiver_def supported_everything)
qed

end
