(* ===== verification/Session.thy ===== *)
theory Session
  imports Relay Negotiate Inbound_Backend
begin

text \<open>
  The loop of an input session (\<open>run_session\<close> in \<open>src/src/session.rs\<close>): negotiation gives the configurations, every
  turn of the loop dispatches a desktop request, tracks the activation and runs one arm of \<open>select!\<close>, and the
  cleanup closes both directions.

  A turn gets the arm that \<open>select!\<close> chose with what it received, the world, and one reading of the clock. The time
  since a rate window started is an argument of the arm. Metrics and log lines are left out; of the events to the
  daemon those that can fail the session are kept as the answers of the world.
\<close>

section \<open>State\<close>

definition MAX_CONTROL_MESSAGES_PER_SECOND :: u32 where
  "MAX_CONTROL_MESSAGES_PER_SECOND = 20000"

definition MAX_DATAGRAMS_PER_SECOND :: u32 where
  "MAX_DATAGRAMS_PER_SECOND = 50000"

datatype SessionError =
    SOutbound OutboundError
  | SInbound InboundError
  | SRelay RelayError
  | SNegotiate NegotiateError
  | SOptions OptionsError
  | SRateExceeded
  | SReceiveFailed
  | SRepeatedNegotiation
  | SEventQueueFull
  | SInvalidDatagramSize nat "nat option"
  | SDatagramSizeAlreadyNegotiated nat nat

datatype InputDatagram = DatagramMotion MotionFrame | DatagramProbe ProbeMessage

datatype SessionArm =
    ArmReply Receipt
  | ArmDesktop u64 DesktopRequest nat
  | ArmLayout SharedLayout
  | ArmBegin SessionContext
  | ArmCapture CapturedDeviceFrame
  | ArmEnd SessionCloseReason
  | ArmClose
  | ArmCommandsGone
  | ArmControl "InputControlMessage option" duration instant
  | ArmDatagram "InputDatagram option" duration instant
  | ArmDeadline

record SessionSetup =
  su_negotiated :: NegotiatedSession
  su_outbound :: OutboundSettings

record SessionWorld =
  sw_taken :: "SenderOut \<Rightarrow> bool"
  sw_inbound :: World
  sw_relay :: RelayWorld
  sw_outbound_ended :: bool

record Session =
  ss_outbound :: Outbound
  ss_inbound :: Inbound
  ss_relay :: DesktopRelay
  ss_control_rate :: EventRate
  ss_datagram_rate :: EventRate
  ss_last_tick_at :: MonotonicTimeMicros

type_synonym 'a session_op = "Session \<Rightarrow> (SessionError + 'a) \<times> Session"

definition rate_new :: "u32 \<Rightarrow> EventRate" where
  "rate_new maximum = \<lparr>er_count = 0, er_maximum = maximum\<rparr>"

definition setup_of :: "SessionOptions \<Rightarrow> NegotiatedSession \<Rightarrow> SenderConfig \<Rightarrow> SessionSetup" where
  "setup_of options negotiated sender_config =
     \<lparr>su_negotiated = negotiated,
      su_outbound = \<lparr>os_sender_config = sender_config, os_touch_negotiated = (Touch |\<in>| ns_capabilities negotiated),
        os_takes_contacts = takes_contacts options negotiated\<rparr>\<rparr>"

text \<open>
  \<open>DatagramChannel::configure_maximum\<close>: what the path can carry is the transport's answer; the size that was
  negotiated before, or 0, is the state of the channel, which is new when a session starts.
\<close>

definition configure_maximum :: "nat option \<Rightarrow> u32 \<Rightarrow> nat \<Rightarrow> (SessionError + unit) \<times> nat" where
  "configure_maximum path_maximum maximum current =
     (let requested = unat maximum in
      if requested = 0 \<or> (case path_maximum of None \<Rightarrow> True | Some path \<Rightarrow> requested > path)
      then (Inl (SInvalidDatagramSize requested path_maximum), current)
      else if current = 0 then (Inr (), requested)
      else if current = requested then (Inr (), current)
      else (Inl (SDatagramSizeAlreadyNegotiated current requested), current))"

definition session_new ::
  "nat option \<Rightarrow> SessionOptions \<Rightarrow> NegotiatedSession \<Rightarrow> MonotonicTimeMicros \<Rightarrow> MonotonicTimeMicros
     \<Rightarrow> SessionError + (SessionSetup \<times> Session)"
where
  "session_new path_maximum options negotiated now tick_now =
     result_then (fst (configure_maximum path_maximum (ns_maximum_datagram_size negotiated) 0)) (\<lambda>_.
     result_then (map_err SOptions (session_configs negotiated)) (\<lambda>(sender_config, receiver_config).
     result_then (map_err SInbound (inbound_new receiver_config (so_playout options) now)) (\<lambda>inbound. Inr
       (setup_of options negotiated sender_config,
        \<lparr>ss_outbound = outbound_new, ss_inbound = inbound, ss_relay = relay_default,
         ss_control_rate = rate_new MAX_CONTROL_MESSAGES_PER_SECOND, ss_datagram_rate = rate_new MAX_DATAGRAMS_PER_SECOND,
         ss_last_tick_at = tick_now\<rparr>))))"

text \<open>Calls into the parts of a session.\<close>

definition on_outbound :: "(Outbound \<Rightarrow> (OutboundError + 'a) \<times> Outbound) \<Rightarrow> 'a session_op" where
  "on_outbound f s = (let (r, ob) = f (ss_outbound s) in (map_err SOutbound r, s\<lparr>ss_outbound := ob\<rparr>))"

definition on_inbound :: "'a inbound_op \<Rightarrow> 'a session_op" where
  "on_inbound f s = (let (r, i) = f (ss_inbound s) in (map_err SInbound r, s\<lparr>ss_inbound := i\<rparr>))"

definition on_relay :: "relay_op \<Rightarrow> unit session_op" where
  "on_relay f s = (let (r, relay) = f (ss_relay s) in (map_err SRelay r, s\<lparr>ss_relay := relay\<rparr>))"

section \<open>The arms\<close>

text \<open>The two checks of \<open>EventRate::observe\<close> before a message is looked at.\<close>

definition observe_control_rate :: "duration \<Rightarrow> unit session_op" where
  "observe_control_rate elapsed s =
     (let (ok, rate) = rate_observe elapsed (ss_control_rate s)
      in (if ok then Inr () else Inl SRateExceeded, s\<lparr>ss_control_rate := rate\<rparr>))"

definition observe_datagram_rate :: "duration \<Rightarrow> unit session_op" where
  "observe_datagram_rate elapsed s =
     (let (ok, rate) = rate_observe elapsed (ss_datagram_rate s)
      in (if ok then Inr () else Inl SRateExceeded, s\<lparr>ss_datagram_rate := rate\<rparr>))"

definition outbound_ended :: "SessionWorld \<Rightarrow> unit session_op" where
  "outbound_ended w s = (if sw_outbound_ended w then Inr () else Inl SEventQueueFull, s)"

definition receive_reliable ::
  "SessionSetup \<Rightarrow> SessionWorld \<Rightarrow> ReliableControlMessage \<Rightarrow> instant \<Rightarrow> MonotonicTimeMicros \<Rightarrow> unit session_op"
where
  "receive_reliable setup w message received_at now =
     try_then (reading (\<lambda>_. map_err SNegotiate (validate_negotiated_control (m_payload message) (su_negotiated setup)))) (\<lambda>_.
       case m_payload message of
         CtlSnapshotAck ack \<Rightarrow> on_outbound (snapshot_acked (m_session message) ack)
       | _ \<Rightarrow> on_inbound (in_receive_control (sw_inbound w) message received_at now))"

definition control_arm ::
  "SessionSetup \<Rightarrow> SessionWorld \<Rightarrow> InputControlMessage option \<Rightarrow> instant \<Rightarrow> MonotonicTimeMicros \<Rightarrow> unit session_op"
where
  "control_arm setup w received received_at now =
     (case received of
        None \<Rightarrow> (\<lambda>s. (Inl SReceiveFailed, s))
      | Some (ControlDesktop message) \<Rightarrow> on_relay (relay_receive (sw_relay w) message (w_instant_now (sw_inbound w)))
      | Some (ControlReliable message) \<Rightarrow> receive_reliable setup w message received_at now
      | Some _ \<Rightarrow> (\<lambda>s. (Inl SRepeatedNegotiation, s)))"

definition datagram_arm ::
  "SessionSetup \<Rightarrow> SessionWorld \<Rightarrow> InputDatagram option \<Rightarrow> instant \<Rightarrow> MonotonicTimeMicros \<Rightarrow> unit session_op"
where
  "datagram_arm setup w received received_at now =
     (case received of
        None \<Rightarrow> (\<lambda>s. (Inl SReceiveFailed, s))
      | Some (DatagramMotion fr) \<Rightarrow>
          try_then (reading (\<lambda>_. map_err SNegotiate (validate_negotiated_motion fr (su_negotiated setup)))) (\<lambda>_.
            on_inbound (receive_motion fr received_at now))
      | Some (DatagramProbe probe) \<Rightarrow>
          (\<lambda>s. on_inbound (receive_probe (sw_inbound w) probe (o_sender (ss_outbound s)) now) s))"

text \<open>The deadline: the sender's tick, whose exit is reported to the daemon, then the receive side's.\<close>

definition deadline_arm :: "SessionWorld \<Rightarrow> MonotonicTimeMicros \<Rightarrow> unit session_op" where
  "deadline_arm w now s =
     (let open_before = (o_sender (ss_outbound s) \<noteq> None)
      in try_then (on_outbound (outbound_tick (sw_taken w) now)) (\<lambda>_.
         try_then (\<lambda>s. if open_before \<and> o_sender (ss_outbound s) = None then outbound_ended w s else (Inr (), s)) (\<lambda>_.
           on_inbound (inbound_tick (sw_inbound w) now))) (s\<lparr>ss_last_tick_at := now\<rparr>))"

definition going_on :: "unit session_op \<Rightarrow> bool session_op" where
  "going_on m = try_then m (\<lambda>_ s. (Inr True, s))"

text \<open>One arm of \<open>select!\<close>; \<open>False\<close> leaves the loop.\<close>

fun session_arm :: "SessionSetup \<Rightarrow> SessionWorld \<Rightarrow> SessionArm \<Rightarrow> MonotonicTimeMicros \<Rightarrow> bool session_op" where
  "session_arm setup w (ArmReply receipt) now = going_on (on_relay (reply_arm (sw_relay w) receipt (w_instant_now (sw_inbound w))))"
| "session_arm setup w (ArmDesktop number request caller) now = going_on (on_relay (relay_request (sw_relay w) number request caller))"
| "session_arm setup w (ArmLayout layout) now = going_on (on_relay (send_desktop (sw_relay w) (DeskLayout layout)))"
| "session_arm setup w (ArmBegin session) now = going_on (on_outbound (begin_outbound (su_outbound setup) (sw_taken w) session now))"
| "session_arm setup w (ArmCapture captured) now = going_on (on_outbound (capture (su_outbound setup) (sw_taken w) captured now))"
| "session_arm setup w (ArmEnd reason) now =
     going_on (try_then (on_outbound (end_outbound (sw_taken w) reason now)) (\<lambda>_. outbound_ended w))"
| "session_arm setup w ArmClose now = (\<lambda>s. (Inr False, s\<lparr>ss_outbound := (ss_outbound s)\<lparr>o_sender := None\<rparr>\<rparr>))"
| "session_arm setup w ArmCommandsGone now = (\<lambda>s. (Inr False, s))"
| "session_arm setup w (ArmControl received elapsed received_at) now =
     going_on (try_then (observe_control_rate elapsed) (\<lambda>_. control_arm setup w received received_at now))"
| "session_arm setup w (ArmDatagram received elapsed received_at) now =
     going_on (try_then (observe_datagram_rate elapsed) (\<lambda>_. datagram_arm setup w received received_at now))"
| "session_arm setup w ArmDeadline now = going_on (deadline_arm w now)"

section \<open>The loop\<close>

definition session_dispatch :: "SessionWorld \<Rightarrow> unit session_op" where
  "session_dispatch w s =
     on_relay (dispatch (sw_relay w) (has_pending_controls (ss_inbound s)) (i_active_context (ss_inbound s) \<noteq> None)
       (w_instant_now (sw_inbound w))) s"

definition session_track :: "SessionWorld \<Rightarrow> unit session_op" where
  "session_track w s = (Inr (), s\<lparr>ss_inbound := track_activation (sw_inbound w) (ss_inbound s)\<rparr>)"

definition session_turn :: "SessionSetup \<Rightarrow> SessionWorld \<Rightarrow> SessionArm \<Rightarrow> MonotonicTimeMicros \<Rightarrow> bool session_op" where
  "session_turn setup w arm now =
     try_then (session_dispatch w) (\<lambda>_. try_then (session_track w) (\<lambda>_. session_arm setup w arm now))"

text \<open>The turns up to the end of the loop; \<open>Inr True\<close> if it still runs.\<close>

fun session_loop :: "SessionSetup \<Rightarrow> (SessionWorld \<times> SessionArm \<times> MonotonicTimeMicros) list \<Rightarrow> bool session_op" where
  "session_loop setup [] s = (Inr True, s)"
| "session_loop setup ((w, arm, now) # turns) s =
     try_then (session_turn setup w arm now) (\<lambda>goes_on. if goes_on then session_loop setup turns else (\<lambda>s. (Inr False, s))) s"

text \<open>
  The cleanup after the loop: the send side is dropped and reported, the receive side is closed in any case, and
  then the first error of the report, the close and the loop is returned.
\<close>

definition session_cleanup :: "SessionWorld \<Rightarrow> MonotonicTimeMicros \<Rightarrow> unit session_op" where
  "session_cleanup w now s =
     (let remote = (case o_sender (ss_outbound s) of None \<Rightarrow> False | Some sender \<Rightarrow> s_remote sender);
          s1 = (if remote then s\<lparr>ss_outbound := (ss_outbound s)\<lparr>o_sender := None, o_capture_merge := merger_default\<rparr>\<rparr> else s);
          (cleanup_result, s2) = on_inbound (inbound_close (sw_inbound w) now) s1
      in (if remote \<and> \<not> sw_outbound_ended w then Inl SEventQueueFull else cleanup_result, s2))"

definition run_session ::
  "SessionSetup \<Rightarrow> (SessionWorld \<times> SessionArm \<times> MonotonicTimeMicros) list \<Rightarrow> SessionWorld \<Rightarrow> MonotonicTimeMicros \<Rightarrow> unit session_op"
where
  "run_session setup turns w now s =
     (let (run_result, s1) = session_loop setup turns s;
          (cleanup_result, s2) = session_cleanup w now s1
      in (result_then cleanup_result (\<lambda>_. result_then run_result (\<lambda>_. Inr ())), s2))"


section \<open>What is held through a session\<close>

definition good :: "TargetOs \<Rightarrow> PlayoutConfig \<Rightarrow> (SessionError + 'a) \<times> Session \<Rightarrow> bool" where
  "good target config res \<longleftrightarrow> (case res of
       (Inl e, s) \<Rightarrow> (\<exists>x. e = SInbound x \<and> lossy x) \<or> backend_follows target (ss_inbound s)
     | (Inr _, s) \<Rightarrow> standing target config (ss_inbound s))"

lemma good_try_then:
  assumes "good target config (m s)" and "\<And>a s'. m s = (Inr a, s') \<Longrightarrow> standing target config (ss_inbound s') \<Longrightarrow> good target config (f a s')"
  shows "good target config (try_then m f s)"
  using assms by (auto simp: try_then_def good_def split: prod.splits sum.splits)

lemma good_keeps:
  assumes "keeps ss_inbound m" "standing target config (ss_inbound s)"
  shows "good target config (m s)"
  using keepsD [OF assms(1), of s] assms(2) by (auto simp: good_def standing_def split: prod.splits sum.splits)

lemma outside_keeps [keeps_rules]:
  "keeps ss_inbound (on_outbound f)" "keeps ss_inbound (on_relay g)" "keeps ss_inbound (outbound_ended w)"
  "keeps ss_inbound (observe_control_rate elapsed)" "keeps ss_inbound (observe_datagram_rate elapsed)"
  by (simp_all add: keeps_def on_outbound_def on_relay_def outbound_ended_def observe_control_rate_def observe_datagram_rate_def
      split: prod.split)

lemma good_inbound:
  assumes "stands target config (f (ss_inbound s))"
  shows "good target config (on_inbound f s)"
  using assms by (auto simp: good_def stands_def on_inbound_def map_err_def split: prod.splits sum.splits)

lemma good_inbound_step:
  assumes "w_target (sw_inbound w) = target" "playout_config_validate config = Inr c" "standing target config (ss_inbound s)"
  shows "good target config (on_inbound (inbound_step (sw_inbound w) op now) s)"
  using inbound_step_stands [OF _ assms(2,3), of "sw_inbound w" op now] assms(1)
  by (intro good_inbound) simp

lemma inbound_steps:
  "inbound_step w (InControl m t) now = in_receive_control w m t now" "inbound_step w (InMotion fr t) now = receive_motion fr t now"
  "inbound_step w (InProbe probe sender) now = receive_probe w probe sender now" "inbound_step w InTick now = inbound_tick w now"
  "inbound_step w InClose now = inbound_close w now"
  by (simp_all add: fun_eq_iff)

lemma good_reliable:
  assumes "w_target (sw_inbound w) = target" "playout_config_validate config = Inr c" "standing target config (ss_inbound s)"
  shows "good target config (receive_reliable setup w message t now s)"
proof -
  have control: "good target config (on_inbound (in_receive_control (sw_inbound w) message t now) s')" if "standing target config (ss_inbound s')" for s'
    using good_inbound_step [OF assms(1,2) that, of "InControl message t" now] by (simp add: inbound_steps)
  have "good target config ((case m_payload message of CtlSnapshotAck ack \<Rightarrow> on_outbound (snapshot_acked (m_session message) ack)
      | _ \<Rightarrow> on_inbound (in_receive_control (sw_inbound w) message t now)) s')" if "standing target config (ss_inbound s')" for s'
    by (cases "m_payload message") (simp_all add: control [OF that] good_keeps [OF outside_keeps(1) that])
  then show ?thesis unfolding receive_reliable_def
    by (intro good_try_then [where m = "reading _"] good_keeps [OF keeps_reading assms(3)])
qed

lemma good_control_arm:
  assumes "w_target (sw_inbound w) = target" "playout_config_validate config = Inr c" "standing target config (ss_inbound s)"
  shows "good target config (control_arm setup w received t now s)"
  using good_reliable [OF assms] good_keeps [OF outside_keeps(2) assms(3)] good_keeps [OF keeps_return assms(3)]
  by (auto simp: control_arm_def split: option.split InputControlMessage.split)

lemma good_datagram_arm:
  assumes "w_target (sw_inbound w) = target" "playout_config_validate config = Inr c" "standing target config (ss_inbound s)"
  shows "good target config (datagram_arm setup w received t now s)"
proof -
  have motion: "good target config (on_inbound (receive_motion fr t now) s')" if "standing target config (ss_inbound s')" for fr s'
    using good_inbound_step [OF assms(1,2) that, of "InMotion fr t" now] by (simp add: inbound_steps)
  have probe: "good target config (on_inbound (receive_probe (sw_inbound w) probe sender now) s)" for probe sender
    using good_inbound_step [OF assms, of "InProbe probe sender" now] by (simp add: inbound_steps)
  have "good target config (try_then (reading (\<lambda>_. x)) (\<lambda>_. on_inbound (receive_motion fr t now)) s)" for fr and x :: "SessionError + unit"
    by (rule good_try_then [where m = "reading (\<lambda>_. x)"]) (use motion good_keeps [OF keeps_reading assms(3)] in auto)
  then show ?thesis using probe good_keeps [OF keeps_return assms(3)]
    by (auto simp: datagram_arm_def split: option.split InputDatagram.split)
qed

lemma good_deadline_arm:
  assumes "w_target (sw_inbound w) = target" "playout_config_validate config = Inr c" "standing target config (ss_inbound s)"
  shows "good target config (deadline_arm w now s)"
proof -
  have tick: "good target config (on_inbound (inbound_tick (sw_inbound w) now) s')" if "standing target config (ss_inbound s')" for s'
    using good_inbound_step [OF assms(1,2) that, of InTick now] by (simp add: inbound_steps)
  have exit: "good target config (if b \<and> o_sender (ss_outbound s') = None then outbound_ended w s' else (Inr (), s'))"
    if "standing target config (ss_inbound s')" for b s'
    using good_keeps [OF outside_keeps(3) that] that by (simp add: good_def)
  have "good target config (try_then (on_outbound (outbound_tick (sw_taken w) now)) (\<lambda>_.
         try_then (\<lambda>s. if b \<and> o_sender (ss_outbound s) = None then outbound_ended w s else (Inr (), s)) (\<lambda>_.
           on_inbound (inbound_tick (sw_inbound w) now))) s')" if "standing target config (ss_inbound s')" for b s'
    by (intro good_try_then [where m = "on_outbound _"] good_try_then [where m = "\<lambda>s. if b \<and> o_sender (ss_outbound s) = None then _ s else _ s"]
        good_keeps [OF outside_keeps(1) that] exit tick)
  then show ?thesis using assms(3) by (simp add: deadline_arm_def Let_def)
qed

lemma good_going_on: "good target config (m s) \<Longrightarrow> good target config (going_on m s)"
  unfolding going_on_def by (rule good_try_then) (auto simp: good_def)

lemma good_observed:
  assumes "keeps ss_inbound observe" "standing target config (ss_inbound s)" "\<And>s'. standing target config (ss_inbound s') \<Longrightarrow> good target config (m s')"
  shows "good target config (try_then observe (\<lambda>_ :: unit. m) s)"
  by (rule good_try_then [where m = observe, OF good_keeps [OF assms(1,2)]]) (use assms(3) in auto)

lemma good_arm:
  assumes "w_target (sw_inbound w) = target" "playout_config_validate config = Inr c" "standing target config (ss_inbound s)"
  shows "good target config (session_arm setup w arm now s)"
proof (cases arm)
  case (ArmControl received elapsed t)
  then show ?thesis
    by (auto intro!: good_going_on good_observed outside_keeps assms good_control_arm [OF assms(1,2)])
next
  case (ArmDatagram received elapsed t)
  then show ?thesis
    by (auto intro!: good_going_on good_observed outside_keeps assms good_datagram_arm [OF assms(1,2)])
next
  case ArmDeadline
  then show ?thesis by (auto intro!: good_going_on good_deadline_arm assms)
next
  case (ArmEnd reason)
  then show ?thesis by (auto intro!: good_going_on good_keeps keeps_try_then outside_keeps assms)
next
  case ArmClose
  then show ?thesis using assms(3) by (simp add: good_def)
next
  case ArmCommandsGone
  then show ?thesis using assms(3) by (simp add: good_def)
qed (auto intro!: good_going_on good_keeps outside_keeps assms)

lemma good_turn:
  assumes "w_target (sw_inbound w) = target" "playout_config_validate config = Inr c" "standing target config (ss_inbound s)"
  shows "good target config (session_turn setup w arm now s)"
  unfolding session_turn_def
proof (rule good_try_then [where m = "session_dispatch w"])
  show "good target config (session_dispatch w s)"
    unfolding session_dispatch_def by (rule good_keeps [OF outside_keeps(2) assms(3)])
  fix s' :: Session assume s': "standing target config (ss_inbound s')"
  show "good target config (try_then (session_track w) (\<lambda>_. session_arm setup w arm now) s')"
  proof (rule good_try_then [where m = "session_track w"])
    show "good target config (session_track w s')"
      using inbound_step_stands [OF _ assms(2) s', of "sw_inbound w" InTrack] assms(1)
      by (simp add: good_def session_track_def stands_def)
  qed (rule good_arm [OF assms(1,2)])
qed

lemma good_loop:
  assumes "playout_config_validate config = Inr c"
  shows "\<forall>(w, arm, now) \<in> set turns. w_target (sw_inbound w) = target \<Longrightarrow> standing target config (ss_inbound s) \<Longrightarrow> good target config (session_loop setup turns s)"
proof (induction turns arbitrary: s)
  case (Cons turn turns)
  obtain w arm now where turn: "turn = (w, arm, now)" by (cases turn)
  show ?case unfolding turn session_loop.simps
    by (rule good_try_then [where m = "session_turn setup w arm now", OF good_turn [OF _ assms Cons.prems(2)]])
      (use Cons.prems(1) Cons.IH turn in \<open>auto simp: good_def\<close>)
qed (simp add: good_def)


lemma session_new_standing:
  assumes "session_new path options negotiated now tick_now = Inr (setup, s)"
  shows "standing target (so_playout options) (ss_inbound s)"
  using assms inbound_new_stands by (auto simp: session_new_def result_then_Inr map_err_Inr)

lemma from_config_playout: "from_config config = Inr options \<Longrightarrow> \<exists>c. playout_config_validate (so_playout options) = Inr c"
  by (auto simp: from_config_def Let_def result_then_Inr map_err_Inr split: if_splits)

lemma loop_follows:
  assumes "from_config config = Inr options" "session_new path (for_peer_os os options) negotiated start tick_start = Inr (setup, s0)"
    and "\<forall>(w, arm, now) \<in> set turns. w_target (sw_inbound w) = target" "session_loop setup turns s0 = (r, s1)"
    and "\<forall>e. r = Inl (SInbound e) \<longrightarrow> \<not> lossy e"
  shows "backend_follows target (ss_inbound s1)"
proof -
  obtain c where c: "playout_config_validate (so_playout (for_peer_os os options)) = Inr c"
    using from_config_playout [OF assms(1)] by (auto simp: for_peer_os_def)
  from good_loop [OF c assms(3) session_new_standing [OF assms(2)], of "setup"] show ?thesis
    using assms(4,5) by (auto simp: good_def standing_def split: sum.splits)
qed

section \<open>The order of a Finish\<close>

text \<open>The \<open>Finish\<close> requests that the local desktop was given.\<close>

definition finishes_given :: "DesktopRelay \<Rightarrow> RelayOutput list" where
  "finishes_given r = filter (\<lambda>out. \<exists>token. out = RequestToDesktop (ReqFinish token)) (dr_log r)"

abbreviation finishes :: "Session \<Rightarrow> RelayOutput list" where
  "finishes s \<equiv> finishes_given (ss_relay s)"

lemma finishes_log [simp]:
  "finishes_given (relay_log out r) = finishes_given r @ (if \<exists>token. out = RequestToDesktop (ReqFinish token) then [out] else [])"
  by (simp add: finishes_given_def)

lemma finishes_fields [simp]:
  "finishes_given (r\<lparr>dr_waiter := x\<rparr>) = finishes_given r" "finishes_given (r\<lparr>dr_incoming := y\<rparr>) = finishes_given r"
  "finishes_given (r\<lparr>dr_reply := z\<rparr>) = finishes_given r"
  by (simp_all add: finishes_given_def)

lemma relay_keeps_finishes:
  "finishes_given (snd (relay_request w number request caller r)) = finishes_given r"
  "finishes_given (snd (relay_receive w message now r)) = finishes_given r"
  "finishes_given (snd (reply_arm w receipt now r)) = finishes_given r"
  "finishes_given (snd (send_desktop w desktop_message r)) = finishes_given r"
proof -
  show "finishes_given (snd (relay_request w number request caller r)) = finishes_given r"
    by (simp add: relay_request_def send_desktop_def try_then_def)
  show "finishes_given (snd (relay_receive w message now r)) = finishes_given r"
    by (cases message) (simp_all add: relay_emit_def Let_def split: option.split)
  show "finishes_given (snd (reply_arm w receipt now r)) = finishes_given r"
    by (simp add: reply_arm_def next_reply_def send_reply_def send_desktop_def split: option.split Receipt.split)
  show "finishes_given (snd (send_desktop w desktop_message r)) = finishes_given r"
    by (simp add: send_desktop_def)
qed

lemma on_keeps_finishes [keeps_rules]:
  "keeps finishes (on_outbound f)" "keeps finishes (on_inbound g)" "keeps finishes (outbound_ended w)"
  "keeps finishes (observe_control_rate elapsed)" "keeps finishes (observe_datagram_rate elapsed)"
  "(\<And>r. finishes_given (snd (h r)) = finishes_given r) \<Longrightarrow> keeps finishes (on_relay h)"
  by (simp_all add: keeps_def on_outbound_def on_inbound_def on_relay_def outbound_ended_def observe_control_rate_def
      observe_datagram_rate_def split: prod.split) (metis snd_conv)

lemma arm_keeps_finishes: "keeps finishes (session_arm setup w arm now)"
proof -
  have reliable: "keeps finishes (receive_reliable setup w message t now)" for message t
    unfolding receive_reliable_def by (intro keeps_rules) (auto split: ReliableControl.split intro: keeps_rules)
  have control: "keeps finishes (control_arm setup w received t now)" for received t
    by (auto simp: control_arm_def relay_keeps_finishes split: option.split InputControlMessage.split
        intro!: keeps_rules reliable)
  have "keeps finishes (\<lambda>s. on_inbound (h s) s)" for h :: "Session \<Rightarrow> unit inbound_op"
    by (simp add: keeps_def on_inbound_def split: prod.split)
  then have datagram: "keeps finishes (datagram_arm setup w received t now)" for received t
    by (auto simp: datagram_arm_def split: option.split InputDatagram.split intro!: keeps_rules)
  have "keeps finishes (try_then (on_outbound f) (\<lambda>_ :: unit.
         try_then (\<lambda>s. if b \<and> o_sender (ss_outbound s) = None then outbound_ended w s else (Inr (), s)) (\<lambda>_. on_inbound g)))"
    for f b and g :: "unit inbound_op"
    by (intro keeps_rules)
  from this [THEN keepsD] have deadline: "keeps finishes (deadline_arm w now)"
    by (simp add: keeps_def [of _ "deadline_arm _ _"] deadline_arm_def Let_def)
  have going: "keeps finishes m \<Longrightarrow> keeps finishes (going_on m)" for m
    unfolding going_on_def by (intro keeps_rules)
  show ?thesis
    by (cases arm) (auto intro!: going keeps_rules control datagram deadline simp: relay_keeps_finishes keeps_def [of _ "\<lambda>s. (Inr False, _ s)"])
qed

lemma dispatch_finishes:
  assumes "session_dispatch w s = (r, s')" "finishes s' \<noteq> finishes s"
  shows "i_pending (ss_inbound s) = [] \<and> i_active_context (ss_inbound s) = None"
proof -
  obtain r' relay where d: "dispatch (sw_relay w) (has_pending_controls (ss_inbound s)) (i_active_context (ss_inbound s) \<noteq> None)
       (w_instant_now (sw_inbound w)) (ss_relay s) = (r', relay)" by fastforce
  then have "finishes_given relay \<noteq> finishes s" using assms by (auto simp: session_dispatch_def on_relay_def)
  then show ?thesis using d
    by (auto simp: dispatch_def may_dispatch_def has_pending_controls_def relay_emit_def try_then_def
        split: option.splits if_splits DesktopRequest.splits)
qed

section \<open>Properties\<close>

text \<open>
  C3: A session leaves nothing held. Take a session with valid options, built for any operating system, with any
  commands, any peer and any order of the arms, whose loop has ended, or still runs, without one of the lossy errors
  of the receive side (the backend failed, the peer violated the protocol, or the playout could not follow an anchor).
  Then what was handed to the backend never presses what is down or releases what is up and
  leaves it with the keys, buttons and contacts that the receiver believes to be held, as far as that system's backend
  supports them. And if the clock has not gone back and the backend applies the last batch, the cleanup closes both
  directions: nothing is held, no activation is open, and no sender is remote.
\<close>

theorem session_leaves_nothing_held:
  assumes "from_config config = Inr options" and "session_new path (for_peer_os os options) negotiated start tick_start = Inr (setup, s0)"
    and "\<forall>(w, arm, now) \<in> set turns. w_target (sw_inbound w) = target" and "session_loop setup turns s0 = (r, s1)"
    and "\<forall>e. r = Inl (SInbound e) \<longrightarrow> \<not> lossy e"
    and "w_target (sw_inbound w) = target" and "\<forall>es. w_applied (sw_inbound w) es = Inr ()"
    and "r_last_observed_time (i_receiver (ss_inbound s1)) \<le> now"
    and "run_session setup turns w now s0 = (result, s2)"
  shows "backend_run (given (i_sent (ss_inbound s1))) held_default =
      Some (supported_held target (receiver_held (i_receiver (ss_inbound s1)))) \<and>
     backend_run (given (i_sent (ss_inbound s2))) held_default = Some held_default \<and>
     i_active_context (ss_inbound s2) = None \<and>
     (\<forall>sender. o_sender (ss_outbound s2) = Some sender \<longrightarrow> \<not> s_remote sender)"
proof -
  note follows = loop_follows [OF assms(1-5)]
  obtain i2 where i2: "inbound_close (sw_inbound w) now (ss_inbound s1) = (Inr (), i2)" "r_activation (i_receiver i2) = None"
    using close_works [OF assms(7,8)] by blast
  then have "backend_follows target i2"
    using close_settles [OF _ follows, of "sw_inbound w" now] assms(6) by (simp add: settled_def)
  moreover have "ss_inbound s2 = i2" "\<forall>sender. o_sender (ss_outbound s2) = Some sender \<longrightarrow> \<not> s_remote sender"
    using assms(4,9) i2 by (auto simp: run_session_def session_cleanup_def Let_def on_inbound_def split: option.splits if_splits)
  ultimately show ?thesis using i2(2) follows by (simp add: backend_follows_def receiver_held_def active_context_def)
qed

text \<open>
  C4: A \<open>Finish\<close> waits for the release. In every turn of a session, built for any operating system, in which the
  local desktop is given a \<open>Finish\<close> request, no control is deferred, no activation is open, and the effects handed to
  the backend so far leave nothing held: the handoff is never acknowledged while the peer still holds a key or button
  here.
\<close>

theorem finish_waits_for_release:
  assumes "from_config config = Inr options" and "session_new path (for_peer_os os options) negotiated start tick_start = Inr (setup, s0)"
    and "\<forall>(w, arm, now) \<in> set turns. w_target (sw_inbound w) = target" and "session_loop setup turns s0 = (Inr True, s1)"
    and "session_turn setup w arm now s1 = (r, s2)" and "finishes_given (ss_relay s2) \<noteq> finishes_given (ss_relay s1)"
  shows "i_pending (ss_inbound s1) = [] \<and> i_active_context (ss_inbound s1) = None \<and>
     backend_run (given (i_sent (ss_inbound s1))) held_default = Some held_default"
proof -
  obtain r' s' where d: "session_dispatch w s1 = (r', s')" by fastforce
  have "keeps finishes (try_then (session_track w) (\<lambda>_. session_arm setup w arm now))"
    by (intro keeps_rules arm_keeps_finishes) (simp add: keeps_def session_track_def)
  from keepsD [OF this, of s'] have "finishes s' \<noteq> finishes s1"
    using assms(5,6) d by (auto simp: session_turn_def try_then_def split: sum.splits)
  note closed = dispatch_finishes [OF d this]
  moreover have "backend_follows target (ss_inbound s1)" by (rule loop_follows [OF assms(1-4)]) simp
  ultimately show ?thesis by (auto simp: backend_follows_def receiver_held_def active_context_def split: option.splits)
qed


section \<open>A sample session\<close>

definition sample_options :: SessionOptions where
  "sample_options = \<lparr>so_offer = offer_of (sample_session_settings 900 35), so_playout = playout_of (sample_session_settings 900 35),
     so_peer_takes_contacts = False\<rparr>"

definition sample_session_world :: SessionWorld where
  "sample_session_world = \<lparr>sw_taken = (\<lambda>_. True), sw_inbound = sample_world, sw_relay = sample_relay_world, sw_outbound_ended = True\<rparr>"

lemma sample_options_new: "from_config (sample_session_settings 900 35) = Inr sample_options"
  unfolding sample_options_def by (rule sample_from_config) simp_all

lemma sample_session_new:
  "\<exists>setup s0. session_new (Some 65535) (for_peer_os (Some Linux) sample_options) sample_negotiated 0 0 = Inr (setup, s0) \<and>
     ss_relay s0 = relay_default \<and> ss_outbound s0 = outbound_new \<and> ss_control_rate s0 = rate_new 20000 \<and>
     i_pending (ss_inbound s0) = [] \<and> i_probe_context (ss_inbound s0) = None \<and>
     r_activation (i_receiver (ss_inbound s0)) = None \<and> r_last_observed_time (i_receiver (ss_inbound s0)) = 0"
proof -
  note b = validate_for_bounds [of sample_negotiated sample_offer]
  have valid: "validate_for sample_negotiated sample_offer = Inr ()" using sample_select by (simp add: select_negotiation_Inr)
  obtain sc rc where configs: "session_configs sample_negotiated = Inr (sc, rc)"
      "rc = \<lparr>held_state_lease = from_millis (unat (ns_receiver_lease_ms sample_negotiated))\<rparr>"
    using session_configs_of_bounds [of sample_negotiated] b [OF valid] by auto
  have "ns_maximum_datagram_size sample_negotiated = OFFER_DATAGRAM_SIZE"
    by (simp add: sample_negotiated_def sample_offer_def selected_session_def offer_of_def Let_def)
  then have datagrams: "fst (configure_maximum (Some 65535) (ns_maximum_datagram_size sample_negotiated) 0) = Inr ()"
    by (simp add: configure_maximum_def OFFER_DATAGRAM_SIZE_def)
  have "receiver_config_new (held_state_lease rc) = Inr rc"
    using configs by (auto simp: session_configs_def Let_def result_then_Inr map_err_Inr receiver_config_new_def split: if_splits)
  then show ?thesis
    by (simp add: session_new_def datagrams result_then_def configs(1) map_err_def inbound_new_def receiver_new_def sample_clock_new
        MAX_CONTROL_MESSAGES_PER_SECOND_def)
qed

definition sample_finish :: SessionArm where
  "sample_finish = ArmControl (Some (ControlDesktop (DeskRequest 7 (ReqFinish 3)))) 0 0"

lemmas session_eval = session_turn_def session_dispatch_def session_track_def on_relay_def going_on_def try_then_def
  dispatch_def observe_control_rate_def rate_observe_def rate_new_def control_arm_def track_activation_def active_context_def
  map_err_def relay_default_def sample_session_world_def sample_world_def sample_relay_world_def sample_finish_def

lemma sample_finish_turn:
  assumes "ss_relay s0 = relay_default" "ss_control_rate s0 = rate_new 20000" "i_probe_context (ss_inbound s0) = None"
    "r_activation (i_receiver (ss_inbound s0)) = None"
  shows "session_turn setup sample_session_world sample_finish 5 s0 =
     (Inr True, s0\<lparr>ss_relay := relay_default\<lparr>dr_incoming := Some (7, ReqFinish 3, 0)\<rparr>,
        ss_control_rate := (rate_new 20000)\<lparr>er_count := 1\<rparr>\<rparr>)"
  using assms by (simp add: session_eval Let_def from_secs_def)

theorem session_leaves_nothing_held_witness:
  "\<exists>setup s0 s2. session_new (Some 65535) (for_peer_os (Some Linux) sample_options) sample_negotiated 0 0 = Inr (setup, s0) \<and>
     run_session setup [(sample_session_world, sample_finish, 5)] sample_session_world 9 s0 = (Inr (), s2) \<and>
     backend_run (given (i_sent (ss_inbound s2))) held_default = Some held_default"
proof -
  obtain su s0 where new: "session_new (Some 65535) (for_peer_os (Some Linux) sample_options) sample_negotiated 0 0 = Inr (su, s0)"
      and s0: "ss_relay s0 = relay_default" "ss_outbound s0 = outbound_new" "ss_control_rate s0 = rate_new 20000"
      "i_pending (ss_inbound s0) = []" "i_probe_context (ss_inbound s0) = None"
      "r_activation (i_receiver (ss_inbound s0)) = None" "r_last_observed_time (i_receiver (ss_inbound s0)) = 0"
    using sample_session_new by blast
  define s1 where "s1 = s0\<lparr>ss_relay := relay_default\<lparr>dr_incoming := Some (7, ReqFinish 3, 0)\<rparr>,
        ss_control_rate := (rate_new 20000)\<lparr>er_count := 1\<rparr>\<rparr>"
  have loop: "session_loop su [(sample_session_world, sample_finish, 5)] s0 = (Inr True, s1)"
    using sample_finish_turn [OF s0(1,3,5,6), of su] by (simp add: try_then_def s1_def)
  have w: "w_target (sw_inbound sample_session_world) = TargetOther" "\<forall>es. w_applied (sw_inbound sample_session_world) es = Inr ()"
    by (simp_all add: sample_session_world_def sample_world_def)
  obtain result s2 where run: "run_session su [(sample_session_world, sample_finish, 5)] sample_session_world 9 s0 = (result, s2)"
    by fastforce
  have last: "r_last_observed_time (i_receiver (ss_inbound s1)) \<le> 9" using s0(7) by (simp add: s1_def)
  obtain i2 where "inbound_close (sw_inbound sample_session_world) 9 (ss_inbound s1) = (Inr (), i2)"
    using close_works [OF w(2) last] by blast
  then have "result = Inr ()"
    using run loop s0(2) by (auto simp: run_session_def session_cleanup_def on_inbound_def map_err_def s1_def outbound_new_def result_then_def)
  moreover have "backend_run (given (i_sent (ss_inbound s2))) held_default = Some held_default"
    using session_leaves_nothing_held [OF sample_options_new new _ loop _ w last run] w(1) by simp
  ultimately show ?thesis using new run by blast
qed

theorem finish_waits_for_release_witness:
  "\<exists>setup s0 s1 s2. session_new (Some 65535) (for_peer_os (Some Linux) sample_options) sample_negotiated 0 0 = Inr (setup, s0) \<and>
     session_loop setup [(sample_session_world, sample_finish, 5)] s0 = (Inr True, s1) \<and>
     session_turn setup sample_session_world ArmCommandsGone 6 s1 = (Inr False, s2) \<and>
     finishes_given (ss_relay s2) = [RequestToDesktop (ReqFinish 3)] \<and>
     backend_run (given (i_sent (ss_inbound s1))) held_default = Some held_default"
proof -
  obtain su s0 where new: "session_new (Some 65535) (for_peer_os (Some Linux) sample_options) sample_negotiated 0 0 = Inr (su, s0)"
      and s0: "ss_relay s0 = relay_default" "ss_outbound s0 = outbound_new" "ss_control_rate s0 = rate_new 20000"
      "i_pending (ss_inbound s0) = []" "i_probe_context (ss_inbound s0) = None"
      "r_activation (i_receiver (ss_inbound s0)) = None" "r_last_observed_time (i_receiver (ss_inbound s0)) = 0"
    using sample_session_new by blast
  define s1 where "s1 = s0\<lparr>ss_relay := relay_default\<lparr>dr_incoming := Some (7, ReqFinish 3, 0)\<rparr>,
        ss_control_rate := (rate_new 20000)\<lparr>er_count := 1\<rparr>\<rparr>"
  define s2 where "s2 = s1\<lparr>ss_relay := relay_default\<lparr>dr_reply := Some (7, 0), dr_log := [RequestToDesktop (ReqFinish 3)]\<rparr>\<rparr>"
  have loop: "session_loop su [(sample_session_world, sample_finish, 5)] s0 = (Inr True, s1)"
    using sample_finish_turn [OF s0(1,3,5,6), of su] by (simp add: try_then_def s1_def)
  have turn: "session_turn su sample_session_world ArmCommandsGone 6 s1 = (Inr False, s2)"
    using s0 by (simp add: session_eval s1_def s2_def may_dispatch_def has_pending_controls_def relay_emit_def relay_log_def
        REQUEST_TIMEOUT_def from_millis_def Let_def)
  have finishes: "finishes_given (ss_relay s1) = []" "finishes_given (ss_relay s2) = [RequestToDesktop (ReqFinish 3)]"
    by (simp_all add: s1_def s2_def finishes_given_def relay_default_def)
  have "w_target (sw_inbound sample_session_world) = TargetOther" by (simp add: sample_session_world_def sample_world_def)
  then have "backend_run (given (i_sent (ss_inbound s1))) held_default = Some held_default"
    using finish_waits_for_release [OF sample_options_new new _ loop turn] finishes by simp
  with new loop turn finishes(2) show ?thesis by blast
qed

end
