(* ===== verification/Layout.thy ===== *)
theory Layout
  imports Desktop F64 "HOL-Library.Option_ord" "HOL-Library.Product_Lexorder" "HOL-Library.Multiset"
begin

text \<open>
  The edits of the shared layout: fitting a computer's tiles to its displays (\<open>SharedLayout::with_geometry\<close> of
  \<open>src/src/desktop/monitors.rs\<close>, in \<open>f64\<close>), and what every edit keeps: a valid, newer version, and screens that do not
  overlap.
\<close>

section \<open>Fitting a computer's tiles to its displays\<close>

text \<open>\<open>SharedLayout::with_geometry\<close> first marks which of the computer's displays are still connected.\<close>

definition mark_active :: "rust_string \<Rightarrow> Geometry \<Rightarrow> Tile \<Rightarrow> Tile" where
  "mark_active key g tile =
     (if tl_key tile = key
      then tile\<lparr>tl_display := map_option (\<lambda>old. old\<lparr>dp_active := list_ex (\<lambda>d. dp_id d = dp_id old) (ge_displays g)\<rparr>)
             (tl_display tile)\<rparr>
      else tile)"

definition on_screen :: "Tile \<Rightarrow> bool" where
  "on_screen tile \<longleftrightarrow> is_none_or dp_active (tl_display tile)"

text \<open>\<open>f64 as i32\<close> and \<open>i32::checked_add\<close>.\<close>

fun f_as_i32 :: "f64 \<Rightarrow> i32" where
  "f_as_i32 (Finite a) = word_of_int (max (- (2 ^ 31)) (min (2 ^ 31 - 1) (F64.truncate a)))"
| "f_as_i32 (Infinite s) = (if s then word_of_int (- (2 ^ 31)) else word_of_int (2 ^ 31 - 1))"
| "f_as_i32 NaN = 0"

definition checked_add_i32 :: "i32 \<Rightarrow> i32 \<Rightarrow> i32 option" where
  "checked_add_i32 a b =
     (if - (2 ^ 31) \<le> sint a + sint b \<and> sint a + sint b < 2 ^ 31 then Some (a + b) else None)"

text \<open>
  A tile that stood for the whole computer is split into one tile per display, scaled from the
  bounding box of the displays to the tile. \<open>(right - x).max(1)\<close> is \<open>i32\<close> arithmetic.
\<close>

definition scaled_edge :: "u32 \<Rightarrow> u32 \<Rightarrow> int \<Rightarrow> i32" where
  "scaled_edge extent whole v =
     f_as_i32 (f_round (f_mul (f_of_int v) (f_div (f_of_int (uint extent)) (f_of_int (uint whole)))))"

definition at_least_1 :: "i32 \<Rightarrow> u32" where
  "at_least_1 v = (if sint v < 1 then 1 else v)"

definition split_piece :: "rust_string \<Rightarrow> Tile \<Rightarrow> Rect \<Rightarrow> Display \<Rightarrow> Tile option" where
  "split_piece key old box d =
     (let rect = dp_bounds d;
          x = scaled_edge (tl_width old) (rc_width box) (sint (rc_x rect - rc_x box));
          y = scaled_edge (tl_height old) (rc_height box) (sint (rc_y rect - rc_y box));
          right = scaled_edge (tl_width old) (rc_width box) (sint (rc_x rect) + uint (rc_width rect) - sint (rc_x box));
          bottom = scaled_edge (tl_height old) (rc_height box) (sint (rc_y rect) + uint (rc_height rect) - sint (rc_y box))
      in Option.bind (checked_add_i32 (tl_x old) x) (\<lambda>tx.
         Option.bind (checked_add_i32 (tl_y old) y) (\<lambda>ty.
         Some \<lparr>tl_key = key, tl_display = Some d, tl_x = tx, tl_y = ty,
               tl_width = at_least_1 (right - x), tl_height = at_least_1 (bottom - y)\<rparr>)))"

definition without_nth :: "nat \<Rightarrow> 'a list \<Rightarrow> 'a list" where
  "without_nth n xs = take n xs @ drop (Suc n) xs"

definition split_own :: "rust_string \<Rightarrow> Geometry \<Rightarrow> Tile list \<Rightarrow> Tile list option" where
  "split_own key g tiles =
     (case find (\<lambda>n. tile_id (tiles ! n) = (key, None)) [0..<length tiles] of
        None \<Rightarrow> Some tiles
      | Some index \<Rightarrow>
          (case bounds g of
             Inl _ \<Rightarrow> None
           | Inr box \<Rightarrow>
               map_option (\<lambda>pieces. without_nth index tiles @ pieces)
                 (those (map (split_piece key (tiles ! index) box) (ge_displays g)))))"

definition first_tile :: "Tile list \<Rightarrow> Tile option" where
  "first_tile tiles = (case tiles of [] \<Rightarrow> None | t # _ \<Rightarrow> Some t)"

text \<open>
  The round of one display: its tile takes the display's new description, moves to a free spot if it
  overlaps another tile, and is resized if that can be done; a display without a tile gets one.
\<close>

definition settled_tile :: "rust_string \<Rightarrow> Display \<Rightarrow> nat \<Rightarrow> Tile list \<Rightarrow> Tile list option" where
  "settled_tile key d index before =
     (let tiles = before[index := (before ! index)\<lparr>tl_display := Some d\<rparr>]
      in if list_ex (\<lambda>i. i \<noteq> index \<and> overlaps (tiles ! index) (tiles ! i)) [0..<length tiles]
         then
           (let old = tiles ! index; rest = without_nth index tiles
            in map_option (\<lambda>placed. rest @ [placed\<lparr>tl_display := Some d\<rparr>])
                 (free_spot rest (first_tile rest) key (tl_width old) (tl_height old)))
         else Some tiles)"

definition fit_display :: "rust_string \<Rightarrow> Display \<Rightarrow> SharedLayout \<Rightarrow> SharedLayout option" where
  "fit_display key d l =
     (case find (\<lambda>n. tile_id (sl_tiles l ! n) = (key, Some (dp_id d))) [0..<length (sl_tiles l)] of
        Some index \<Rightarrow>
          map_option (\<lambda>tiles.
            let next = l\<lparr>sl_tiles := tiles\<rparr>
            in case with_display_size key (Some (dp_id d)) (fst (desk_size d)) (snd (desk_size d)) next of
                 None \<Rightarrow> next
               | Some refitted \<Rightarrow> refitted)
            (settled_tile key d index (sl_tiles l))
      | None \<Rightarrow>
          map_option (\<lambda>placed. l\<lparr>sl_tiles := sl_tiles l @ [placed\<lparr>tl_display := Some d\<rparr>]\<rparr>)
            (free_spot (sl_tiles l)
              (case find (\<lambda>t. tl_key t = key) (sl_tiles l) of None \<Rightarrow> first_tile (sl_tiles l) | Some t \<Rightarrow> Some t)
              key (fst (desk_size d)) (snd (desk_size d))))"

fun fit_displays :: "rust_string \<Rightarrow> Display list \<Rightarrow> SharedLayout \<Rightarrow> SharedLayout option" where
  "fit_displays key [] l = Some l"
| "fit_displays key (d # ds) l = Option.bind (fit_display key d l) (fit_displays key ds)"

text \<open>The tiles of unplugged displays are set aside meanwhile; \<open>sort_by\<close> is a stable sort.\<close>

definition with_geometry :: "rust_string \<Rightarrow> Geometry \<Rightarrow> SharedLayout \<Rightarrow> SharedLayout option" where
  "with_geometry key g l =
     (case geometry_validate g of
        Inl _ \<Rightarrow> None
      | Inr _ \<Rightarrow>
          if ge_displays g = []
          then (case bounds g of Inl _ \<Rightarrow> None | Inr box \<Rightarrow> with_own_size key (rc_width box) (rc_height box) l)
          else
            (let marked = map (mark_active key g) (sl_tiles l);
                 dormant = filter (\<lambda>t. \<not> on_screen t) marked
             in Option.bind (split_own key g (filter on_screen marked)) (\<lambda>tiles.
                Option.bind (fit_displays key (ge_displays g) (l\<lparr>sl_tiles := tiles\<rparr>)) (\<lambda>next.
                  let tiles = sort_key tile_id (sl_tiles next @ dormant)
                  in if tiles = sort_key tile_id (sl_tiles l) then None else publish l key tiles))))"


section \<open>Edits\<close>

datatype LayoutEdit =
    EditSize rust_string "rust_string option" u32 u32
  | EditTiles rust_string "rust_string list" u32 u32
  | EditKey rust_string rust_string rust_string
  | EditGeometry rust_string Geometry

fun apply_edit :: "LayoutEdit \<Rightarrow> SharedLayout \<Rightarrow> SharedLayout option" where
  "apply_edit (EditSize key i width height) l = with_display_size key i width height l"
| "apply_edit (EditTiles own keys width height) l = with_tiles_for own keys width height l"
| "apply_edit (EditKey own old new) l = with_key_replaced own old new l"
| "apply_edit (EditGeometry key g) l = with_geometry key g l"

fun edit_author :: "LayoutEdit \<Rightarrow> rust_string" where
  "edit_author (EditSize key _ _ _) = key"
| "edit_author (EditTiles own _ _ _) = own"
| "edit_author (EditKey own _ _) = own"
| "edit_author (EditGeometry key _) = key"

lemma publish_Some:
  assumes "publish l editor tiles = Some l'"
  shows "layout_validate l' = Inr () \<and> sl_tiles l' = tiles \<and> sl_editor l' = editor \<and>
     unat (sl_version l') = Suc (unat (sl_version l))"
proof -
  from assms obtain version where version: "checked_add_u64 (sl_version l) 1 = Some version"
    and v: "(case layout_validate \<lparr>sl_version = version, sl_editor = editor, sl_tiles = tiles\<rparr> of
       Inl _ \<Rightarrow> None | Inr _ \<Rightarrow> Some \<lparr>sl_version = version, sl_editor = editor, sl_tiles = tiles\<rparr>) = Some l'"
    by (auto simp: publish_def bind_eq_Some_conv Let_def)
  then show ?thesis
    by (cases "layout_validate \<lparr>sl_version = version, sl_editor = editor, sl_tiles = tiles\<rparr>")
      (auto simp: checked_succ_u64)
qed

text \<open>The tiles an edit publishes.\<close>

lemma apply_edit_Some:
  assumes "apply_edit e l = Some l'"
  obtains tiles where "publish l (edit_author e) tiles = Some l'"
  using assms
  by (cases e) (auto simp: with_display_size_def with_own_size_def with_geometry_def with_tiles_for_def
      with_key_replaced_def bind_eq_Some_conv Let_def split: option.splits if_splits sum.splits)

text \<open>
  Every edit of the shared layout publishes a valid, newer version. Resizing or adding a
  computer's tile, adding tiles for paired computers, replacing a key and fitting a computer's tiles
  to its displays yield, if anything, a
  layout that passes \<open>validate\<close>, carries the next version number and the editor's key, and so
  replaces the previous layout on every computer and is never replaced by it.
\<close>

theorem edits_publish_newer_layouts:
  assumes "apply_edit e l = Some l'"
  shows "layout_validate l' = Inr () \<and> sl_editor l' = edit_author e \<and>
         unat (sl_version l') = unat (sl_version l) + 1 \<and>
         is_newer_than l' l \<and> \<not> is_newer_than l l'"
proof -
  from assms obtain tiles where "publish l (edit_author e) tiles = Some l'" by (rule apply_edit_Some)
  from publish_Some [OF this] show ?thesis by (auto simp: is_newer_than_def word_less_nat_alt)
qed

text \<open>No two tiles overlap; no two tiles of connected screens overlap.\<close>

definition disjoint_tiles :: "Tile list \<Rightarrow> bool" where
  "disjoint_tiles tiles \<longleftrightarrow> (\<forall>j < length tiles. \<forall>i < j. \<not> overlaps (tiles ! i) (tiles ! j))"

definition disjoint_screens :: "Tile list \<Rightarrow> bool" where
  "disjoint_screens tiles \<longleftrightarrow>
     (\<forall>j < length tiles. \<forall>i < j. on_screen (tiles ! i) \<and> on_screen (tiles ! j) \<longrightarrow> \<not> overlaps (tiles ! i) (tiles ! j))"

text \<open>
  Both are instances of a relation between any two tiles that holds of tiles that do not overlap. Every
  step of an edit keeps such a relation.
\<close>

definition clear_where :: "(Tile \<Rightarrow> bool) \<Rightarrow> Tile \<Rightarrow> Tile \<Rightarrow> bool" where
  "clear_where P a b \<longleftrightarrow> P a \<and> P b \<longrightarrow> \<not> overlaps a b"

lemma disjoint_tiles_wrt: "disjoint_tiles tiles \<longleftrightarrow> sorted_wrt (clear_where (\<lambda>_. True)) tiles"
  by (auto simp: disjoint_tiles_def sorted_wrt_iff_nth_less clear_where_def)

lemma disjoint_screens_wrt: "disjoint_screens tiles \<longleftrightarrow> sorted_wrt (clear_where on_screen) tiles"
  by (auto simp: disjoint_screens_def sorted_wrt_iff_nth_less clear_where_def)

definition keeps_apart :: "(Tile \<Rightarrow> Tile \<Rightarrow> bool) \<Rightarrow> bool" where
  "keeps_apart R \<longleftrightarrow> (\<forall>a b. R a b = R b a) \<and> (\<forall>a b. \<not> overlaps a b \<longrightarrow> R a b)"

lemma keeps_apartD: "keeps_apart R \<Longrightarrow> \<not> overlaps a b \<Longrightarrow> R a b" "keeps_apart R \<Longrightarrow> R a b = R b a"
  by (auto simp: keeps_apart_def)

lemma keeps_apart_clear [intro, simp]: "keeps_apart (clear_where P)"
  by (auto simp: keeps_apart_def clear_where_def overlaps_sym)

lemma sorted_wrt_free:
  "keeps_apart R \<Longrightarrow> sorted_wrt R tiles \<Longrightarrow> \<not> list_ex (overlaps t) tiles \<Longrightarrow> sorted_wrt R (tiles @ [t])"
  by (auto simp: sorted_wrt_append list_ex_iff overlaps_sym intro: keeps_apartD)

lemma free_spot_free: "free_spot tiles an key width height = Some t \<Longrightarrow> \<not> list_ex (overlaps t) tiles"
  by (auto simp: free_spot_def Let_def find_Some_iff)

lemma tiles_for_loop_apart:
  "tiles_for_loop own width height keys tiles = Some tiles' \<Longrightarrow> keeps_apart R \<Longrightarrow> sorted_wrt R tiles \<Longrightarrow>
     sorted_wrt R tiles'"
  by (induction own width height keys tiles rule: tiles_for_loop.induct)
    (auto intro: sorted_wrt_free dest: free_spot_free split: if_splits option.splits)

lemma with_others_apart:
  "keeps_apart R \<Longrightarrow> sorted_wrt R tiles \<Longrightarrow> sorted_wrt R (with_others_from_loop known previous tiles)"
  by (induction known previous tiles rule: with_others_from_loop.induct) (simp_all add: sorted_wrt_free)

lemma apart_wrt:
  assumes "apart before tiles" and "length tiles = length before" and "keeps_apart R" and "sorted_wrt R before"
  shows "sorted_wrt R tiles"
  unfolding sorted_wrt_iff_nth_less
proof (intro allI impI)
  fix i j
  assume "i < j" "j < length tiles"
  with assms(1) have "tiles ! i = before ! i \<and> tiles ! j = before ! j \<or> \<not> overlaps (tiles ! i) (tiles ! j)"
    by (simp add: apart_def list_all_iff)
  with assms(2-4) \<open>i < j\<close> \<open>j < length tiles\<close> show "R (tiles ! i) (tiles ! j)"
    by (auto simp: sorted_wrt_iff_nth_less intro: keeps_apartD)
qed

lemma fold_best_in: "fold (\<lambda>y best. if f y > f best then y else best) xs x \<in> insert x (set xs)"
  by (induction xs arbitrary: x) fastforce+

lemma first_best_in: "first_best f xs = Some x \<Longrightarrow> x \<in> set xs"
  using fold_best_in [of f "tl xs" "hd xs"] by (cases xs) auto

text \<open>A tile that only moved: same computer, display and size.\<close>

definition same_screen :: "Tile \<Rightarrow> Tile \<Rightarrow> bool" where
  "same_screen a b \<longleftrightarrow>
     tl_key a = tl_key b \<and> tl_display a = tl_display b \<and> tl_width a = tl_width b \<and> tl_height a = tl_height b"

lemma shifted_screen: "shifted t dx dy = Some t' \<Longrightarrow> same_screen t' t"
  by (auto simp: shifted_def bind_eq_Some_conv same_screen_def)

definition only_resized :: "Tile list \<Rightarrow> nat \<Rightarrow> u32 \<Rightarrow> u32 \<Rightarrow> Tile list \<Rightarrow> bool" where
  "only_resized before index width height tiles \<longleftrightarrow>
     length tiles = length before \<and>
     (\<forall>i < length before. same_screen (tiles ! i)
        (if i = index then (before ! i)\<lparr>tl_width := width, tl_height := height\<rparr> else before ! i))"

lemma same_screen_trans: "same_screen a b \<Longrightarrow> same_screen b c \<Longrightarrow> same_screen a c"
  by (simp add: same_screen_def)

lemma same_screen_refl [simp]: "same_screen a a"
  by (simp add: same_screen_def)

lemma only_resized_same:
  assumes "only_resized before index width height tiles" and "length tiles' = length tiles"
    and "\<And>n. n < length tiles \<Longrightarrow> same_screen (tiles' ! n) (tiles ! n)"
  shows "only_resized before index width height tiles'"
  using assms by (auto simp: only_resized_def intro!: same_screen_trans [OF assms(3)] simp del: if_split)

lemma resized_only: "index < length before \<Longrightarrow> resized before index width height corner = Some tiles \<Longrightarrow>
    only_resized before index width height tiles"
  by (auto simp: resized_def only_resized_def Let_def nth_list_update dest: shifted_screen)

lemma push_loop_only:
  "push_loop slide_by before moved tiles = Some tiles' \<Longrightarrow> only_resized before' index width height tiles \<Longrightarrow>
     only_resized before' index width height tiles'"
proof (induction slide_by before moved tiles rule: push_loop.induct)
  case (1 slide_by before moved tiles)
  show ?case
  proof (cases "next_hit tiles moved")
    case None
    with 1(2,3) show ?thesis by simp
  next
    case (Some hit)
    obtain dx dy where sl: "slide_by (before ! hit) = (dx, dy)" by (cases "slide_by (before ! hit)")
    from 1(2) Some sl have len: "\<not> length moved \<noteq> length tiles"
      by (subst (asm) push_loop.simps) (auto split: if_splits)
    from 1(2) Some sl len obtain t where t: "shifted (tiles ! hit) dx dy = Some t"
      and rec: "push_loop slide_by before (moved[hit := True]) (tiles[hit := t]) = Some tiles'"
      by (subst (asm) push_loop.simps) (auto split: option.splits)
    have "only_resized before' index width height (tiles[hit := t])"
    proof (rule only_resized_same [OF 1(3)])
      show "same_screen (tiles[hit := t] ! n) (tiles ! n)" if "n < length tiles" for n
        using shifted_screen [OF t] that by (cases "n = hit") auto
    qed simp
    from 1(1) [OF Some len sl [symmetric] t rec this] show ?thesis .
  qed
qed

lemma slide_all_only:
  "slide_all slide_by index before i tiles = Some tiles' \<Longrightarrow>
     length tiles' = length tiles \<and> (\<forall>n < length tiles. same_screen (tiles' ! n) (tiles ! n))"
proof (induction slide_by index before i tiles arbitrary: tiles' rule: slide_all.induct)
  case (2 slide_by index before i t tiles)
  then show ?case
    by (auto simp: nth_Cons' dest: shifted_screen split: if_splits option.splits prod.splits)
qed simp

lemma candidates_only:
  assumes "index < length before" and "Some tiles \<in> set (resize_candidates before index width height)"
  shows "only_resized before index width height tiles"
proof -
  have slid: "only_resized before index width height tiles'"
    if "Some tiles' = Option.bind (resized before index width height corner) (slide_all sl index before 0)"
    for corner sl tiles'
  proof -
    from that [symmetric] obtain tiles0 where r: "resized before index width height corner = Some tiles0"
      and "slide_all sl index before 0 tiles0 = Some tiles'" by (auto simp: bind_eq_Some_conv)
    with slide_all_only show ?thesis by (intro only_resized_same [OF resized_only [OF assms(1) r]]) blast+
  qed
  have pushed: "only_resized before index width height tiles'"
    if "Some tiles' = Option.bind (resized before index width height corner) (push_loop sl before moved)"
    for corner sl moved tiles'
  proof -
    from that [symmetric] obtain tiles0 where r: "resized before index width height corner = Some tiles0"
      and p: "push_loop sl before moved tiles0 = Some tiles'"
      by (auto simp: bind_eq_Some_conv simp del: push_loop.simps)
    show ?thesis by (rule push_loop_only [OF p resized_only [OF assms(1) r]])
  qed
  have placed: "only_resized before index width height tiles'"
    if "Some tiles' = resized before index width height corner" for corner tiles'
    using resized_only [OF assms(1) that [symmetric]] .
  from assms(2) show ?thesis
    unfolding resize_candidates_def Let_def case_prod_beta set_append set_map
    by (elim UnE imageE) (rule slid pushed placed, assumption)+
qed

lemma with_display_size_cases:
  assumes "with_display_size key i width height l = Some l'"
  obtains (added) tile where "\<not> list_ex (overlaps tile) (sl_tiles l)" "sl_tiles l' = sl_tiles l @ [tile]"
      "\<forall>t \<in> set (sl_tiles l). tile_id t \<noteq> (key, i)"
  | (resized) index where "index < length (sl_tiles l)" "tile_id (sl_tiles l ! index) = (key, i)"
      "only_resized (sl_tiles l) index width height (sl_tiles l')" "apart (sl_tiles l) (sl_tiles l')"
proof (cases "find (\<lambda>n. tile_id (sl_tiles l ! n) = (key, i)) [0..<length (sl_tiles l)]")
  case None
  with assms obtain tile where tile: "free_spot (sl_tiles l) (case sl_tiles l of [] \<Rightarrow> None | t # _ \<Rightarrow> Some t) key width height = Some tile"
    and pub: "publish l key (sl_tiles l @ [tile]) = Some l'"
    by (auto simp: with_display_size_def bind_eq_Some_conv split: if_splits)
  from None have "\<forall>t \<in> set (sl_tiles l). tile_id t \<noteq> (key, i)"
    by (auto simp: find_None_iff in_set_conv_nth)
  with free_spot_free [OF tile] publish_Some [OF pub] show ?thesis by (intro added) auto
next
  case (Some index)
  with assms obtain tiles where best: "first_best (score (sl_tiles l) index width height)
      (filter (apart (sl_tiles l)) (List.map_filter id (resize_candidates (sl_tiles l) index width height))) = Some tiles"
    and pub: "publish l key tiles = Some l'"
    by (auto simp: with_display_size_def Let_def bind_eq_Some_conv split: if_splits)
  from Some have index: "index < length (sl_tiles l)" "tile_id (sl_tiles l ! index) = (key, i)"
    by (auto simp: find_Some_iff)
  from first_best_in [OF best] have "apart (sl_tiles l) tiles"
    and "Some tiles \<in> set (resize_candidates (sl_tiles l) index width height)"
    by (auto simp: set_flatten)
  with candidates_only [OF index(1)] publish_Some [OF pub] index show ?thesis by (intro resized) auto
qed

lemma with_display_size_apart:
  assumes "with_display_size key i width height l = Some l'" and "keeps_apart R" and "sorted_wrt R (sl_tiles l)"
  shows "sorted_wrt R (sl_tiles l') \<and> mset (map tile_id (sl_tiles l)) \<subseteq># mset (map tile_id (sl_tiles l'))"
  using assms(1)
proof (cases rule: with_display_size_cases)
  case (added tile)
  with assms(2,3) show ?thesis by (simp add: sorted_wrt_free)
next
  case (resized index)
  then have len: "length (sl_tiles l') = length (sl_tiles l)" by (simp add: only_resized_def)
  have "tile_id (sl_tiles l' ! n) = tile_id (sl_tiles l ! n)" if "n < length (sl_tiles l)" for n
    using resized(3) that by (auto simp: only_resized_def same_screen_def tile_id_def)
  then have "map tile_id (sl_tiles l') = map tile_id (sl_tiles l)"
    using len by (auto intro: nth_equalityI)
  with apart_wrt [OF resized(4) len assms(2,3)] show ?thesis by simp
qed

lemma with_key_replaced_apart:
  assumes "with_key_replaced own old new l = Some l'" and "\<And>a key. P (a\<lparr>tl_key := key\<rparr>) = P a"
    and "sorted_wrt (clear_where P) (sl_tiles l)"
  shows "sorted_wrt (clear_where P) (sl_tiles l')"
proof -
  from assms(1) have "sl_tiles l' = map (\<lambda>tile. if tl_key tile = old then tile\<lparr>tl_key := new\<rparr> else tile) (sl_tiles l)"
    by (auto simp: with_key_replaced_def dest: publish_Some split: if_splits)
  moreover have "clear_where P (if c then a\<lparr>tl_key := new\<rparr> else a) (if d then b\<lparr>tl_key := new\<rparr> else b) = clear_where P a b" for a b c d
    by (simp add: overlaps_def clear_where_def assms(2))
  ultimately show ?thesis using assms(3) by (simp add: sorted_wrt_map)
qed

text \<open>
  Fitting a computer's tiles to its displays: tiles that overlap are always an unsettled one and another,
  until every display has had its round.
\<close>

definition awaits_round :: "rust_string \<Rightarrow> Display list \<Rightarrow> Tile \<Rightarrow> bool" where
  "awaits_round key ds t \<longleftrightarrow> tile_id t \<in> (\<lambda>d. (key, Some (dp_id d))) ` set ds"

definition apart_but :: "rust_string \<Rightarrow> Display list \<Rightarrow> Tile \<Rightarrow> Tile \<Rightarrow> bool" where
  "apart_but key ds = clear_where (\<lambda>t. \<not> awaits_round key ds t)"

lemma settled_apart [intro, simp]: "keeps_apart (apart_but key ds)"
  by (simp add: apart_but_def)

lemma settled_Cons:
  "apart_but key (d # ds) a b \<Longrightarrow> tile_id a \<noteq> (key, Some (dp_id d)) \<Longrightarrow> tile_id b \<noteq> (key, Some (dp_id d)) \<Longrightarrow>
     apart_but key ds a b"
  by (auto simp: apart_but_def clear_where_def awaits_round_def)

lemma sorted_wrt_settled_Cons:
  "sorted_wrt (apart_but key (d # ds)) tiles \<Longrightarrow> \<forall>t \<in> set tiles. tile_id t \<noteq> (key, Some (dp_id d)) \<Longrightarrow>
     sorted_wrt (apart_but key ds) tiles"
  by (induction tiles) (auto intro: settled_Cons)

lemma without_nth_split:
  "n < length xs \<Longrightarrow> \<exists>as bs. xs = as @ xs ! n # bs \<and> without_nth n xs = as @ bs"
  using id_take_nth_drop [of n xs] by (auto simp: without_nth_def)

text \<open>A tile placed for a display takes its description, which neither moves nor renames it.\<close>

lemma overlaps_display [simp]:
  "overlaps (t\<lparr>tl_display := d\<rparr>) u = overlaps t u" "overlaps t (u\<lparr>tl_display := d\<rparr>) = overlaps t u"
  by (simp_all add: overlaps_def)

lemma map_filter_in: "y \<in> set (List.map_filter f xs) \<Longrightarrow> \<exists>x \<in> set xs. f x = Some y"
  by (induction xs) (auto simp: List.map_filter_def split: if_splits)

lemma free_spot_key:
  assumes "free_spot tiles an key width height = Some t"
  shows "tl_key t = key"
proof -
  let ?new = "\<lparr>tl_key = key, tl_display = None, tl_x = 0, tl_y = 0, tl_width = width, tl_height = height\<rparr>"
  have found: "find P xs = Some x \<Longrightarrow> x \<in> set xs" for P xs and x :: Tile by (auto simp: find_Some_iff)
  have "t \<in> set (List.map_filter (\<lambda>(x, y). shifted ?new x y)
      ((case an of None \<Rightarrow> [] | Some a \<Rightarrow> beside a (uint width) (uint height)) @
       [(past_all tiles, case an of None \<Rightarrow> 0 | Some a \<Rightarrow> sint (tl_y a))]))"
    using assms unfolding free_spot_def Let_def by (rule found)
  then obtain x y where "shifted ?new x y = Some t" by (auto dest!: map_filter_in)
  then show ?thesis by (auto dest: shifted_screen simp: same_screen_def)
qed

lemma sorted_wrt_mset:
  assumes "\<And>a b. R a b = R b a"
  shows "mset xs = mset ys \<Longrightarrow> sorted_wrt R xs \<Longrightarrow> sorted_wrt R ys"
proof (induction xs arbitrary: ys)
  case (Cons x xs)
  then have "x \<in> set ys" by (metis list.set_intros(1) mset_eq_setD)
  then obtain as bs where ys: "ys = as @ x # bs" by (auto dest: split_list)
  with Cons(2) have m: "mset xs = mset (as @ bs)" by simp
  with Cons have "sorted_wrt R (as @ bs)" by simp
  moreover have "\<forall>y \<in> set (as @ bs). R x y" using Cons(3) mset_eq_setD [OF m] by auto
  ultimately show ?case using assms by (auto simp: ys sorted_wrt_append)
qed simp

lemma others_ex:
  "list_ex (\<lambda>i. i \<noteq> length as \<and> P ((as @ t # bs) ! i)) [0..<length (as @ t # bs)] \<longleftrightarrow> list_ex P (as @ bs)"
proof -
  have "(\<exists>i < length (as @ t # bs). i \<noteq> length as \<and> P ((as @ t # bs) ! i)) \<longleftrightarrow>
      (\<exists>i < length as. P (as ! i)) \<or> (\<exists>i < length bs. P (bs ! i))" (is "?l = ?r")
  proof
    assume ?l
    then obtain i where i: "i < length (as @ t # bs)" "i \<noteq> length as" "P ((as @ t # bs) ! i)" by blast
    show ?r
    proof (cases "i < length as")
      case False
      with i have "i - Suc (length as) < length bs \<and> P (bs ! (i - Suc (length as)))"
        by (auto simp: nth_append nth_Cons')
      then show ?thesis by blast
    qed (use i in \<open>auto simp: nth_append\<close>)
  next
    assume ?r
    then show ?l
    proof
      assume "\<exists>i < length as. P (as ! i)"
      then obtain i where "i < length as" "P (as ! i)" by blast
      then show ?thesis by (intro exI [of _ i]) (simp add: nth_append)
    next
      assume "\<exists>i < length bs. P (bs ! i)"
      then obtain i where "i < length bs" "P (bs ! i)" by blast
      then show ?thesis by (intro exI [of _ "Suc (length as) + i"]) (simp add: nth_append)
    qed
  qed
  moreover have "list_ex Q [0..<n] \<longleftrightarrow> (\<exists>i < n. Q i)" for Q n by (auto simp: list_ex_iff)
  ultimately show ?thesis by (simp only: list_ex_append list_ex_length [of P])
qed

text \<open>The round of one display, on the list around its tile.\<close>

lemma settled_tile_split:
  assumes "settled_tile key d (length as) (as @ b # bs) = Some tiles"
  obtains (stays) "tiles = as @ b\<lparr>tl_display := Some d\<rparr> # bs" "\<not> list_ex (overlaps b) (as @ bs)"
  | (moves) placed where "tiles = (as @ bs) @ [placed\<lparr>tl_display := Some d\<rparr>]"
      "\<not> list_ex (overlaps placed) (as @ bs)" "tl_key placed = key"
proof -
  let ?t = "b\<lparr>tl_display := Some d\<rparr>"
  have ex: "list_ex (\<lambda>i. i \<noteq> length as \<and> overlaps ?t ((as @ ?t # bs) ! i)) [0..<length (as @ ?t # bs)] \<longleftrightarrow>
      list_ex (overlaps b) (as @ bs)" unfolding others_ex by (simp add: list_ex_iff)
  have w: "without_nth (length as) (as @ ?t # bs) = as @ bs" by (simp add: without_nth_def)
  show ?thesis
  proof (cases "list_ex (overlaps b) (as @ bs)")
    case True
    with assms ex w obtain placed
      where "free_spot (as @ bs) (first_tile (as @ bs)) key (tl_width b) (tl_height b) = Some placed"
        and "tiles = (as @ bs) @ [placed\<lparr>tl_display := Some d\<rparr>]"
      by (auto simp: settled_tile_def Let_def)
    then show ?thesis using free_spot_free free_spot_key moves by blast
  next
    case False
    with assms ex show ?thesis by (intro stays) (auto simp: settled_tile_def Let_def)
  qed
qed

lemma settled_tile_ids:
  assumes "settled_tile key d index before = Some tiles" and "index < length before"
    and "tile_id (before ! index) = (key, Some (dp_id d))"
  shows "mset (map tile_id tiles) = mset (map tile_id before)"
proof -
  obtain as bs where b: "before = as @ before ! index # bs" and index: "index = length as"
    using id_take_nth_drop [OF assms(2)] assms(2) by (metis length_take min.absorb4)
  from assms(1) b index have "settled_tile key d (length as) (as @ before ! index # bs) = Some tiles" by simp
  then show ?thesis
  proof (cases rule: settled_tile_split)
    case stays
    then show ?thesis using assms(3) by (subst b) (auto simp: tile_id_def)
  next
    case (moves placed)
    then show ?thesis using assms(3) by (subst b) (auto simp: tile_id_def)
  qed
qed

lemma settled_tile_apart:
  assumes "settled_tile key d index before = Some tiles" and "index < length before"
    and "tile_id (before ! index) = (key, Some (dp_id d))" and "distinct (map tile_id before)"
    and "sorted_wrt (apart_but key (d # ds)) before"
  shows "sorted_wrt (apart_but key ds) tiles"
proof -
  obtain as bs where b: "before = as @ before ! index # bs" and index: "index = length as"
    using id_take_nth_drop [OF assms(2)] assms(2) by (metis length_take min.absorb4)
  have "sorted_wrt (apart_but key (d # ds)) (as @ bs)"
    using assms(5) by (subst (asm) b) (simp add: sorted_wrt_append)
  moreover have "\<forall>t \<in> set (as @ bs). tile_id t \<noteq> (key, Some (dp_id d))"
    using assms(4) by (subst (asm) b) (auto simp: assms(3) intro: rev_image_eqI)
  ultimately have rest: "sorted_wrt (apart_but key ds) (as @ bs)" by (rule sorted_wrt_settled_Cons)
  from assms(1) b index have "settled_tile key d (length as) (as @ before ! index # bs) = Some tiles" by simp
  then show ?thesis
  proof (cases rule: settled_tile_split)
    case stays
    let ?t = "(before ! index)\<lparr>tl_display := Some d\<rparr>"
    have "sorted_wrt (apart_but key ds) ((as @ bs) @ [?t])"
      by (rule sorted_wrt_free [OF _ rest]) (use stays(2) in \<open>auto simp: list_ex_iff\<close>)
    from sorted_wrt_mset [OF keeps_apartD(2) [OF settled_apart] _ this, of tiles] show ?thesis
      by (simp add: stays(1))
  next
    case (moves placed)
    then show ?thesis unfolding moves(1) by (intro sorted_wrt_free [OF _ rest]) (auto simp: list_ex_iff)
  qed
qed

lemma fit_display_cases:
  assumes "fit_display key d l = Some l'"
  obtains (fitted) index tiles where "index < length (sl_tiles l)" "tile_id (sl_tiles l ! index) = (key, Some (dp_id d))"
      "settled_tile key d index (sl_tiles l) = Some tiles"
      "l' = l\<lparr>sl_tiles := tiles\<rparr> \<or>
       with_display_size key (Some (dp_id d)) (fst (desk_size d)) (snd (desk_size d)) (l\<lparr>sl_tiles := tiles\<rparr>) = Some l'"
  | (added) t where "sl_tiles l' = sl_tiles l @ [t]" "\<not> list_ex (overlaps t) (sl_tiles l)"
      "\<forall>t \<in> set (sl_tiles l). tile_id t \<noteq> (key, Some (dp_id d))"
proof (cases "find (\<lambda>n. tile_id (sl_tiles l ! n) = (key, Some (dp_id d))) [0..<length (sl_tiles l)]")
  case None
  then have "\<forall>t \<in> set (sl_tiles l). tile_id t \<noteq> (key, Some (dp_id d))" by (auto simp: find_None_iff in_set_conv_nth)
  with None assms show ?thesis
    by (auto simp: fit_display_def list_ex_iff dest!: free_spot_free intro!: added)
next
  case (Some index)
  then have "index < length (sl_tiles l)" "tile_id (sl_tiles l ! index) = (key, Some (dp_id d))"
    by (auto simp: find_Some_iff)
  with Some assms show ?thesis
    by (auto simp: fit_display_def Let_def split: option.splits intro!: fitted)
qed

lemma fit_display_ids:
  assumes "fit_display key d l = Some l'"
  shows "mset (map tile_id (sl_tiles l)) \<subseteq># mset (map tile_id (sl_tiles l'))"
  using assms
proof (cases rule: fit_display_cases)
  case (fitted index tiles)
  have any: "keeps_apart (\<lambda>a b. True)" "sorted_wrt (\<lambda>a b. True) xs" for xs :: "Tile list"
    by (simp add: keeps_apart_def) (induction xs, simp_all)
  from fitted(4) settled_tile_ids [OF fitted(3,1,2)] show ?thesis
    using with_display_size_apart [OF _ any] by fastforce
qed simp

lemma fit_display_apart:
  assumes "fit_display key d l = Some l'" and "distinct (map tile_id (sl_tiles l))"
    and "sorted_wrt (apart_but key (d # ds)) (sl_tiles l)"
  shows "sorted_wrt (apart_but key ds) (sl_tiles l')"
  using assms(1)
proof (cases rule: fit_display_cases)
  case (fitted index tiles)
  from settled_tile_apart [OF fitted(3,1,2) assms(2,3)] fitted(4) show ?thesis
    using with_display_size_apart [OF _ settled_apart] by fastforce
next
  case (added t)
  then show ?thesis using sorted_wrt_settled_Cons [OF assms(3) added(3)] by (simp add: sorted_wrt_free)
qed

lemma distinct_part:
  assumes "distinct ys" and "mset xs \<subseteq># mset ys"
  shows "distinct xs"
proof -
  obtain zs where "mset ys = mset (xs @ zs)"
    using assms(2) by (metis ex_mset mset_append mset_subset_eq_exists_conv)
  with assms(1) have "distinct (xs @ zs)" using mset_eq_imp_distinct_iff by blast
  then show ?thesis by simp
qed

lemma fit_displays_apart:
  "fit_displays key ds l = Some l' \<Longrightarrow>
     mset (map tile_id (sl_tiles l)) \<subseteq># mset (map tile_id (sl_tiles l')) \<and>
     (distinct (map tile_id (sl_tiles l')) \<longrightarrow> sorted_wrt (apart_but key ds) (sl_tiles l) \<longrightarrow> disjoint_tiles (sl_tiles l'))"
proof (induction key ds l rule: fit_displays.induct)
  case (1 key l)
  then show ?case by (auto simp: disjoint_tiles_wrt apart_but_def awaits_round_def)
next
  case (2 key d ds l)
  then obtain m where m: "fit_display key d l = Some m" "fit_displays key ds m = Some l'"
    by (auto simp: bind_eq_Some_conv)
  note IH = 2(1) [OF m]
  note ids = fit_display_ids [OF m(1)]
  have all: "mset (map tile_id (sl_tiles l)) \<subseteq># mset (map tile_id (sl_tiles l'))"
    using IH [THEN conjunct1] by (rule subset_mset.order_trans [OF ids])
  have "disjoint_tiles (sl_tiles l')"
    if "distinct (map tile_id (sl_tiles l'))" "sorted_wrt (apart_but key (d # ds)) (sl_tiles l)"
    using IH that(1) fit_display_apart [OF m(1) distinct_part [OF that(1) all] that(2)] by blast
  with all show ?case by blast
qed

lemma those_in: "those (map f xs) = Some ys \<Longrightarrow> y \<in> set ys \<Longrightarrow> \<exists>x \<in> set xs. f x = Some y"
  by (induction xs arbitrary: ys) (auto split: option.splits)

lemma sorted_wrt_all: "(\<And>a b. a \<in> set xs \<Longrightarrow> b \<in> set xs \<Longrightarrow> R a b) \<Longrightarrow> sorted_wrt R xs"
  by (induction xs) auto

lemma split_own_apart:
  assumes "split_own key g tiles = Some tiles'" and "sorted_wrt (apart_but key (ge_displays g)) tiles"
  shows "sorted_wrt (apart_but key (ge_displays g)) tiles'"
proof (cases "find (\<lambda>n. tile_id (tiles ! n) = (key, None)) [0..<length tiles]")
  case None
  with assms show ?thesis by (simp add: split_own_def)
next
  case (Some index)
  with assms(1) obtain box pieces where
    pieces: "those (map (split_piece key (tiles ! index) box) (ge_displays g)) = Some pieces"
    and tiles': "tiles' = without_nth index tiles @ pieces"
    by (auto simp: split_own_def split: sum.splits)
  have "index < length tiles" using Some by (auto simp: find_Some_iff)
  then obtain as bs where "tiles = as @ tiles ! index # bs" "without_nth index tiles = as @ bs"
    using without_nth_split by blast
  then have rest: "sorted_wrt (apart_but key (ge_displays g)) (without_nth index tiles)"
    using assms(2) by (metis sorted_wrt_append list.set_intros(2) sorted_wrt.simps(2))
  have "awaits_round key (ge_displays g) t" if "t \<in> set pieces" for t
    using those_in [OF pieces that]
    by (auto simp: split_piece_def Let_def bind_eq_Some_conv awaits_round_def tile_id_def)
  then have "apart_but key (ge_displays g) a t \<and> apart_but key (ge_displays g) t a" if "t \<in> set pieces" for a t
    using that by (simp add: apart_but_def clear_where_def)
  with rest show ?thesis unfolding tiles' sorted_wrt_append by (blast intro: sorted_wrt_all)
qed

lemma pending_own: "d \<in> set ds \<Longrightarrow> dp_id d = dp_id old \<Longrightarrow> tl_key t = key \<Longrightarrow> tl_display t = Some old \<Longrightarrow> awaits_round key ds t"
  unfolding awaits_round_def tile_id_def by (rule image_eqI [of _ _ d]) simp_all

lemma mark_active_cases:
  assumes "on_screen (mark_active key g t)"
  shows "awaits_round key (ge_displays g) (mark_active key g t) \<or> mark_active key g t = t"
proof (cases "tl_key t = key")
  case True
  show ?thesis
  proof (cases "tl_display t")
    case None
    with True show ?thesis by (cases t) (simp add: mark_active_def)
  next
    case (Some old)
    with True assms obtain d where "d \<in> set (ge_displays g)" "dp_id d = dp_id old"
      by (auto simp: mark_active_def on_screen_def is_none_or_def list_ex_iff)
    from pending_own [OF this(1), of "old\<lparr>dp_active := x\<rparr>" "mark_active key g t" key for x] this(2) True Some
    show ?thesis by (simp add: mark_active_def)
  qed
qed (simp add: mark_active_def)

lemma mark_active_apart:
  "sorted_wrt (clear_where on_screen) tiles \<Longrightarrow>
     sorted_wrt (apart_but key (ge_displays g)) (filter on_screen (map (mark_active key g) tiles))"
proof (induction tiles)
  case (Cons t tiles)
  have "apart_but key (ge_displays g) (mark_active key g t) (mark_active key g u)"
    if "on_screen (mark_active key g t)" "u \<in> set tiles" "on_screen (mark_active key g u)" for u
    using mark_active_cases [OF that(1)] mark_active_cases [OF that(3)] Cons(2) that
    by (auto simp: apart_but_def clear_where_def)
  with Cons show ?case by auto
qed simp

lemma publish_distinct:
  assumes "publish l key tiles = Some l'"
  shows "distinct (map tile_id tiles)"
proof -
  have "validate_tiles_from keys ts = Inr () \<Longrightarrow> distinct (map tile_id ts) \<and> tile_id ` set ts \<inter> set keys = {}" for keys ts
    by (induction keys ts rule: validate_tiles_from.induct) (auto simp: result_then_Inr)
  from this [of "[]" tiles] publish_Some [OF assms] show ?thesis
    by (auto simp: layout_validate_def result_then_Inr)
qed

lemma with_geometry_apart:
  assumes "with_geometry key g l = Some l'" and "disjoint_screens (sl_tiles l)"
  shows "disjoint_screens (sl_tiles l')"
proof (cases "ge_displays g = []")
  case True
  with assms(1) obtain w h where "with_own_size key w h l = Some l'"
    by (auto simp: with_geometry_def split: sum.splits)
  with assms(2) show ?thesis
    using with_display_size_apart [OF _ keeps_apart_clear] by (auto simp: with_own_size_def disjoint_screens_wrt)
next
  case False
  let ?marked = "map (mark_active key g) (sl_tiles l)"
  let ?dormant = "filter (\<lambda>t. \<not> on_screen t) ?marked"
  from assms(1) False obtain tiles next_layout
    where own: "split_own key g (filter on_screen ?marked) = Some tiles"
      and fit: "fit_displays key (ge_displays g) (l\<lparr>sl_tiles := tiles\<rparr>) = Some next_layout"
      and pub: "publish l key (sort_key tile_id (sl_tiles next_layout @ ?dormant)) = Some l'"
    by (auto simp: with_geometry_def Let_def bind_eq_Some_conv split: sum.splits if_splits)
  have "sorted_wrt (apart_but key (ge_displays g)) tiles"
    using split_own_apart [OF own] mark_active_apart assms(2) by (simp add: disjoint_screens_wrt)
  moreover have "distinct (map tile_id (sl_tiles next_layout))"
    by (rule distinct_part [OF publish_distinct [OF pub]]) simp
  ultimately have "disjoint_tiles (sl_tiles next_layout)" using fit_displays_apart [OF fit] by simp
  then have "sorted_wrt (clear_where on_screen) (sl_tiles next_layout)"
    unfolding disjoint_tiles_wrt by (rule sorted_wrt_mono_rel [rotated]) (simp add: clear_where_def)
  moreover have "clear_where on_screen a t" "clear_where on_screen t a" if "t \<in> set ?dormant" for a t
    using that by (auto simp: clear_where_def)
  ultimately have "sorted_wrt (clear_where on_screen) (sl_tiles next_layout @ ?dormant)"
    unfolding sorted_wrt_append by (blast intro: sorted_wrt_all)
  from sorted_wrt_mset [OF keeps_apartD(2) [OF keeps_apart_clear] _ this,
      of "sort_key tile_id (sl_tiles next_layout @ ?dormant)"]
  show ?thesis using publish_Some [OF pub] by (simp add: disjoint_screens_wrt)
qed

lemma other_edits_apart:
  assumes "apply_edit e l = Some l'" and "\<And>key g. e \<noteq> EditGeometry key g"
    and "\<And>a key. P (a\<lparr>tl_key := key\<rparr>) = P a" and "sorted_wrt (clear_where P) (sl_tiles l)"
  shows "sorted_wrt (clear_where P) (sl_tiles l')"
proof (cases e)
  case (EditSize key i width height)
  with assms(1,4) with_display_size_apart [OF _ keeps_apart_clear] show ?thesis by auto
next
  case (EditTiles own keys width height)
  with assms(1) obtain tiles where t: "tiles_for_loop own width height keys (sl_tiles l) = Some tiles"
    and "publish l own tiles = Some l'"
    by (auto simp: with_tiles_for_def bind_eq_Some_conv split: if_splits)
  with tiles_for_loop_apart [OF t keeps_apart_clear assms(4)] show ?thesis by (auto dest: publish_Some)
next
  case (EditKey own old new)
  with with_key_replaced_apart [OF _ assms(3,4)] assms(1) show ?thesis by simp
qed (use assms(2) in simp)

text \<open>
  C30: No edit makes connected screens overlap. A tile is on screen if it stands for a whole computer or
  for a display that is connected. If the tiles on screen are pairwise disjoint, so are those of every
  layout an edit publishes: giving a screen another size, adding tiles for paired computers, replacing a
  key, and fitting a computer's tiles to its displays (\<open>with_geometry\<close>), which splits its old tile,
  brings back the tiles of displays plugged in again, and leaves the tiles of unplugged ones where they
  are, on screens or not. The other edits also keep all tiles pairwise disjoint, and so, in both senses,
  does putting back the tiles of unknown computers (\<open>with_others_from\<close>).
\<close>

theorem edits_keep_tiles_disjoint:
  assumes "disjoint_screens (sl_tiles l)"
  shows "(\<forall>l'. apply_edit e l = Some l' \<longrightarrow>
            disjoint_screens (sl_tiles l') \<and>
            ((\<forall>key g. e \<noteq> EditGeometry key g) \<and> disjoint_tiles (sl_tiles l) \<longrightarrow> disjoint_tiles (sl_tiles l'))) \<and>
         disjoint_screens (sl_tiles (with_others_from previous known l)) \<and>
         (disjoint_tiles (sl_tiles l) \<longrightarrow> disjoint_tiles (sl_tiles (with_others_from previous known l)))"
proof -
  have others: "sorted_wrt (clear_where P) (sl_tiles (with_others_from previous known l))"
    if "sorted_wrt (clear_where P) (sl_tiles l)" for P
    using with_others_apart [OF keeps_apart_clear that] by (simp add: with_others_from_def)
  have screens: "disjoint_screens (sl_tiles l')" if e: "apply_edit e l = Some l'" for l'
  proof (cases "\<exists>key g. e = EditGeometry key g")
    case True
    with e assms with_geometry_apart show ?thesis by auto
  next
    case False
    with other_edits_apart [OF e, of on_screen] assms show ?thesis
      by (simp add: disjoint_screens_wrt on_screen_def)
  qed
  have "disjoint_tiles (sl_tiles l')"
    if "apply_edit e l = Some l'" "\<forall>key g. e \<noteq> EditGeometry key g" "disjoint_tiles (sl_tiles l)" for l'
    using other_edits_apart [OF that(1), of "\<lambda>_. True"] that(2,3) by (simp add: disjoint_tiles_wrt)
  with screens others assms show ?thesis by (auto simp: disjoint_tiles_wrt disjoint_screens_wrt)
qed

text \<open>
  Fitting a screen changes nothing but that screen's size and where tiles stand. When a computer
  gives its display's tile another size, the published layout has the same tiles in the same
  order, each with the same key, display and size as before, except that the display's own tile has
  the new size; a display without a tile gets one, after the others, which stay as they are.
\<close>

theorem fitting_a_screen_keeps_the_rest:
  assumes "with_display_size key i width height l = Some l'"
  shows "(\<exists>index < length (sl_tiles l). tile_id (sl_tiles l ! index) = (key, i) \<and>
            only_resized (sl_tiles l) index width height (sl_tiles l')) \<or>
         ((\<forall>t \<in> set (sl_tiles l). tile_id t \<noteq> (key, i)) \<and>
          (\<exists>tile. sl_tiles l' = sl_tiles l @ [tile] \<and> \<not> list_ex (overlaps tile) (sl_tiles l)))"
  using assms by (cases rule: with_display_size_cases) blast+
section \<open>Sample edits, at which the theorems above apply\<close>

lemma sample_edit:
  "with_key_replaced (sample_key 0) (sample_key 1) (sample_key 2) (sample_layout 7 [sample_tile 1 100]) =
     Some (sample_layout 8 [sample_tile 2 100])"
  by (simp add: with_key_replaced_def sample_layout_def sample_tile_def publish_def checked_add_u64_def
      layout_validate_def sample_key_fingerprint MAX_TOKEN_def MAX_SHARED_TILES_def ensure_def tile_id_def
      tile_on_canvas_def MAX_COORDINATE_def MAX_DIMENSION_def)

theorem edits_publish_newer_layouts_witness:
  "is_newer_than (sample_layout 8 [sample_tile 2 100]) (sample_layout 7 [sample_tile 1 100]) \<and>
   layout_validate (sample_layout 8 [sample_tile 2 100]) = Inr ()"
  using edits_publish_newer_layouts [of "EditKey (sample_key 0) (sample_key 1) (sample_key 2)"
      "sample_layout 7 [sample_tile 1 100]" "sample_layout 8 [sample_tile 2 100]"] sample_edit by simp

text \<open>
  A display that was unplugged, while another computer's screen was put over its tile, is plugged in
  again: its tile moves to the free edge.
\<close>

definition sample_display :: "bool \<Rightarrow> Display" where
  "sample_display plugged =
     \<lparr>dp_id = [0x41], dp_name = [0x41], dp_bounds = \<lparr>rc_x = 0, rc_y = 0, rc_width = 100, rc_height = 100\<rparr>,
      dp_width_mm = 0, dp_height_mm = 0, dp_active = plugged\<rparr>"

definition sample_replug :: Geometry where
  "sample_replug = \<lparr>ge_monitors = [dp_bounds (sample_display True)], ge_displays = [sample_display True]\<rparr>"

definition sample_own :: "bool \<Rightarrow> i32 \<Rightarrow> Tile" where
  "sample_own plugged x = (sample_tile 0 x)\<lparr>tl_display := Some (sample_display plugged)\<rparr>"

lemma sample_display_valid: "display_validate (sample_display c) = Inr ()"
  by (simp add: display_validate_def sample_display_def valid_id_def str_trim_def is_whitespace_def is_control_def
      str_len_def utf8_width_def validate_monitors_def ensure_def)

lemma sample_replug_valid: "geometry_validate sample_replug = Inr ()"
  using sample_display_valid [of True]
  by (simp add: geometry_validate_def sample_replug_def validate_displays_def ensure_def validate_monitors_def)
    (simp add: sample_display_def)

lemma sample_marked:
  "map (mark_active (sample_key 0) sample_replug) [sample_tile 1 0, sample_own False 50] =
     [sample_tile 1 0, sample_own True 50]"
  by (simp add: mark_active_def sample_replug_def sample_own_def sample_tile_def sample_display_def)

lemma sample_on_screen: "on_screen (sample_tile n x)" "on_screen (sample_own c x) = c"
  by (simp_all add: on_screen_def is_none_or_def sample_tile_def sample_own_def sample_display_def)

lemma sample_ids:
  "tile_id (sample_tile n x) = (sample_key n, None)" "tile_id (sample_own c x) = (sample_key 0, Some [0x41])"
  by (simp_all add: tile_id_def sample_tile_def sample_own_def sample_display_def)

lemma sample_settled:
  "settled_tile (sample_key 0) (sample_display True) 1 [sample_tile 1 0, sample_own True 50] =
     Some [sample_tile 1 0, sample_own True 100]"
  by (simp add: settled_tile_def sample_own_def sample_tile_def overlaps_def Desktop.span_def without_nth_def
      free_spot_def first_tile_def beside_def shifted_def on_canvas_def MAX_COORDINATE_def List.map_filter_def
      past_all_def Let_def)

lemma sample_fitted:
  "fit_display (sample_key 0) (sample_display True) (sample_layout 7 [sample_tile 1 0, sample_own True 50]) =
     Some (sample_layout 7 [sample_tile 1 0, sample_own True 100])"
proof -
  have "with_display_size (sample_key 0) (Some [0x41]) 100 100 (sample_layout 7 [sample_tile 1 0, sample_own True 100]) = None"
    by (simp add: with_display_size_def sample_layout_def sample_ids)
      (simp add: sample_own_def sample_tile_def)
  then show ?thesis
    using sample_settled
    by (simp add: fit_display_def sample_layout_def sample_ids sample_display_def desk_size_def)
qed

lemma sample_key_less: "sample_key 0 < sample_key 1"
proof -
  have "sample_key n = (0x30 + n) # replicate 63 (0x30 + n)" for n
    using replicate_Suc [of 63 "0x30 + n"] by (simp add: sample_key_def)
  then show ?thesis by simp
qed

lemma sample_replugged:
  "with_geometry (sample_key 0) sample_replug (sample_layout 7 [sample_tile 1 0, sample_own False 50]) =
     Some (sample_layout 8 [sample_own True 100, sample_tile 1 0])"
proof -
  have own: "split_own (sample_key 0) sample_replug [sample_tile 1 0, sample_own True 50] =
      Some [sample_tile 1 0, sample_own True 50]"
    by (simp add: split_own_def sample_ids)
  have "\<not> tile_id (sample_tile 1 y) \<le> tile_id (sample_own c x)" for c x y
    using sample_key_less by (simp add: sample_ids less_eq_prod_def not_le)
  then have sort: "sort_key tile_id [sample_tile 1 0, sample_own c x] = [sample_own c x, sample_tile 1 0]" for c x
    by (simp del: One_nat_def)
  have pub: "publish (sample_layout 7 ts) (sample_key 0) [sample_own True 100, sample_tile 1 0] =
      Some (sample_layout 8 [sample_own True 100, sample_tile 1 0])" for ts
    using sample_display_valid [of True]
    by (simp add: publish_def sample_layout_def checked_add_u64_def layout_validate_def sample_key_fingerprint
        MAX_TOKEN_def MAX_SHARED_TILES_def ensure_def sample_ids)
      (simp add: sample_own_def sample_tile_def sample_key_fingerprint tile_on_canvas_def MAX_COORDINATE_def
        MAX_DIMENSION_def)
  have differ: "sample_own True 100 \<noteq> sample_own False 50" by (simp add: sample_own_def sample_tile_def)
  show ?thesis
    using sample_replug_valid sample_fitted own sort pub differ sample_marked
    by (simp add: with_geometry_def sample_layout_def sample_on_screen) (simp add: sample_replug_def)
qed

theorem edits_keep_tiles_disjoint_witness:
  "\<not> disjoint_tiles [sample_tile 1 0, sample_own False 50] \<and>
   disjoint_screens [sample_own True 100, sample_tile 1 0]"
proof -
  have "disjoint_screens (sl_tiles (sample_layout 7 [sample_tile 1 0, sample_own False 50]))"
    by (simp add: sample_layout_def disjoint_screens_wrt clear_where_def sample_own_def sample_tile_def on_screen_def
        is_none_or_def sample_display_def)
  from edits_keep_tiles_disjoint [OF this, of "EditGeometry (sample_key 0) sample_replug"] sample_replugged
  have "disjoint_screens [sample_own True 100, sample_tile 1 0]" by (simp add: sample_layout_def)
  then show ?thesis
    by (simp add: disjoint_tiles_wrt clear_where_def sample_own_def sample_tile_def overlaps_def Desktop.span_def)
qed

theorem fitting_a_screen_keeps_the_rest_witness:
  "\<exists>l' tile. with_display_size (sample_key 0) None 100 100 (sample_layout 7 []) = Some l' \<and> sl_tiles l' = [tile]"
proof -
  have ev: "with_display_size (sample_key 0) None 100 100 (sample_layout 7 []) = Some (sample_layout 8 [sample_tile 0 0])"
    by (simp add: with_display_size_def sample_layout_def sample_tile_def publish_def checked_add_u64_def
        layout_validate_def sample_key_fingerprint MAX_TOKEN_def MAX_SHARED_TILES_def ensure_def tile_id_def
        tile_on_canvas_def MAX_COORDINATE_def MAX_DIMENSION_def free_spot_def past_all_def shifted_def on_canvas_def
        List.map_filter_def)
  from fitting_a_screen_keeps_the_rest [OF ev] ev show ?thesis by (simp add: sample_layout_def)
qed

end
