(* ===== verification/Pairing.thy ===== *)
theory Pairing
  imports Prelude
begin

text \<open>
  The one-shot pairing window of a fresh install (\<open>src/src/pairing_window.rs\<close>).

  The state lives in a file: the model keeps the file's text next to the window's phase, and every
  operation that writes it takes whether the write succeeds (\<open>config::save_text\<close> either replaces the
  text or leaves it as it was). A restart is \<open>load\<close> on the text that is there. Instants are
  nanoseconds on the monotonic clock, the wall clock of \<open>open\<close> an argument. A name and a mark are
  only copied, so they are plain strings.
\<close>

section \<open>Types\<close>

definition OPEN_FOR :: duration where
  "OPEN_FOR = from_secs (10 * 60)"

definition HOLD_OFF :: duration where
  "HOLD_OFF = from_secs 5"

record Stranger =
  st_key :: string
  st_name :: string
  st_mark :: string
  st_answered :: bool
  st_fresh :: bool
  st_duplicate_name :: bool

record Strangers =
  present :: "Stranger list"
  unidentified :: nat
  turned_away :: bool

datatype Reason = HadPeers | Accepted | Expired | Rival | Restarted | Failed

datatype State = StNever | StEligible | StOpen | StClosed

record Holding =
  hd_name :: string
  hd_mark :: string
  hd_ms_left :: nat

record View =
  vw_state :: State
  vw_seconds_left :: "nat option"
  vw_holding :: "Holding option"
  vw_reason :: "Reason option"

datatype Phase = Never | Eligible | Open instant | Closed Reason

record PairingWindow =
  pw_file :: "string option"
  pw_phase :: Phase
  pw_holding :: "(Stranger \<times> instant) option"

section \<open>The file\<close>

text \<open>\<open>str::split_whitespace\<close>, on the ASCII text that the file holds.\<close>

definition is_space :: "char \<Rightarrow> bool" where
  "is_space c \<longleftrightarrow> c \<in> {CHR '' '', CHR ''\<newline>'', CHR 0x09, CHR 0x0B, CHR 0x0C, CHR 0x0D}"

function split_whitespace :: "string \<Rightarrow> string list" where
  "split_whitespace s =
     (case dropWhile is_space s of
        [] \<Rightarrow> []
      | c # cs \<Rightarrow>
          takeWhile (\<lambda>c. \<not> is_space c) (c # cs) #
          split_whitespace (dropWhile (\<lambda>c. \<not> is_space c) cs))"
  by auto
termination
proof (relation "measure length", simp)
  fix s c cs
  assume "dropWhile is_space s = c # cs"
  then have "Suc (length cs) \<le> length s"
    by (metis length_Cons length_dropWhile_le)
  moreover have "length (dropWhile (\<lambda>c. \<not> is_space c) cs) \<le> length cs" by (rule length_dropWhile_le)
  ultimately show "(dropWhile (\<lambda>c. \<not> is_space c) cs, s) \<in> measure length" by simp
qed

text \<open>The names serde gives the reasons (\<open>rename_all = "snake_case"\<close>).\<close>

fun reason_name :: "Reason \<Rightarrow> string" where
  "reason_name HadPeers = ''had_peers''"
| "reason_name Accepted = ''accepted''"
| "reason_name Expired = ''expired''"
| "reason_name Rival = ''rival''"
| "reason_name Restarted = ''restarted''"
| "reason_name Failed = ''failed''"

definition parse_reason :: "string \<Rightarrow> Reason option" where
  "parse_reason s = find (\<lambda>r. reason_name r = s) [HadPeers, Accepted, Expired, Rival, Restarted, Failed]"

text \<open>The decimal digits that \<open>format!\<close> writes.\<close>

fun digits :: "nat \<Rightarrow> string" where
  "digits n = (if n < 10 then [char_of (48 + n)] else digits (n div 10) @ [char_of (48 + n mod 10)])"

declare digits.simps [simp del]

definition save_text :: "bool \<Rightarrow> string \<Rightarrow> string option \<Rightarrow> string option" where
  "save_text ok content file = (if ok then Some content else file)"

text \<open>The texts that are written.\<close>

definition closed_text :: "Reason \<Rightarrow> string" where
  "closed_text reason = ''closed '' @ reason_name reason @ ''\<newline>''"

definition open_text :: "nat \<Rightarrow> string" where
  "open_text since = ''open '' @ digits since @ ''\<newline>''"

section \<open>Operations\<close>

definition close :: "bool \<Rightarrow> Reason \<Rightarrow> PairingWindow \<Rightarrow> PairingWindow" where
  "close ok reason w =
     \<lparr>pw_file = save_text ok (closed_text reason) (pw_file w),
      pw_phase = Closed reason, pw_holding = None\<rparr>"

text \<open>A file that cannot be read counts as empty.\<close>

definition load :: "bool \<Rightarrow> string option \<Rightarrow> PairingWindow" where
  "load ok file =
     (let window = \<lparr>pw_file = file, pw_phase = Never, pw_holding = None\<rparr>
      in case split_whitespace (case file of None \<Rightarrow> '''' | Some content \<Rightarrow> content) of
           [] \<Rightarrow> window
         | word # rest \<Rightarrow>
             if word = ''eligible'' \<and> rest = [] then window\<lparr>pw_phase := Eligible\<rparr>
             else if word = ''open'' then close ok Restarted window
             else if word = ''closed'' \<and> length rest = 1
             then window\<lparr>pw_phase := Closed (case parse_reason (hd rest) of None \<Rightarrow> Restarted | Some r \<Rightarrow> r)\<rparr>
             else window)"

definition mark_eligible :: "bool \<Rightarrow> string option \<Rightarrow> string option" where
  "mark_eligible ok file = save_text ok ''eligible\<newline>'' file"

definition open_window :: "bool \<Rightarrow> nat \<Rightarrow> bool \<Rightarrow> instant \<Rightarrow> PairingWindow \<Rightarrow> PairingWindow" where
  "open_window ok since has_peers now w =
     (if pw_phase w \<noteq> Eligible then w
      else if has_peers then close ok HadPeers w
      else if \<not> ok then w\<lparr>pw_phase := Never\<rparr>
      else w\<lparr>pw_file := save_text ok (open_text since) (pw_file w),
             pw_phase := Open (now + OPEN_FOR)\<rparr>)"

definition is_open :: "PairingWindow \<Rightarrow> bool" where
  "is_open w = (case pw_phase w of Open _ \<Rightarrow> True | _ \<Rightarrow> False)"

definition placed :: "bool \<Rightarrow> PairingWindow \<Rightarrow> PairingWindow" where
  "placed ok w = (if pw_phase w = Eligible \<or> is_open w then close ok Accepted w else w)"

definition not_added :: "bool \<Rightarrow> PairingWindow \<Rightarrow> PairingWindow" where
  "not_added ok w = (if is_open w then close ok Failed w else w)"

text \<open>The one candidate among the strangers, if there is one.\<close>

definition candidate :: "Strangers \<Rightarrow> Stranger option" where
  "candidate strangers =
     (case present strangers of
        [only] \<Rightarrow>
          if unidentified strangers = 0 \<and> st_answered only \<and> st_fresh only \<and> \<not> st_duplicate_name only
          then Some only else None
      | _ \<Rightarrow> None)"

definition tick :: "bool \<Rightarrow> Strangers \<Rightarrow> instant \<Rightarrow> PairingWindow \<Rightarrow> Stranger option \<times> PairingWindow" where
  "tick ok strangers now w =
     (case pw_phase w of
        Open until \<Rightarrow>
          (if now \<ge> until then (None, close ok Expired w)
           else if length (present strangers) > 1 \<or> turned_away strangers then (None, close ok Rival w)
           else
             let same = (case pw_holding w of None \<Rightarrow> False | Some held \<Rightarrow> Some (fst held) = candidate strangers);
                 w' = (if \<not> same then w\<lparr>pw_holding := map_option (\<lambda>s. (s, now)) (candidate strangers)\<rparr> else w)
             in case pw_holding w' of
                  None \<Rightarrow> (None, w')
                | Some (stranger, since) \<Rightarrow>
                    if now - since < HOLD_OFF then (None, w') else (Some stranger, w'))
      | _ \<Rightarrow> (None, w))"

definition view :: "instant \<Rightarrow> PairingWindow \<Rightarrow> View" where
  "view now w =
     (let default = \<lparr>vw_state = StNever, vw_seconds_left = None, vw_holding = None, vw_reason = None\<rparr> in
      case pw_phase w of
        Never \<Rightarrow> default
      | Eligible \<Rightarrow> default\<lparr>vw_state := StEligible\<rparr>
      | Open until \<Rightarrow>
          \<lparr>vw_state = StOpen, vw_seconds_left = Some ((until - now) div 1000000000),
           vw_holding = map_option (\<lambda>(stranger, since).
             \<lparr>hd_name = st_name stranger, hd_mark = st_mark stranger,
              hd_ms_left = (since + HOLD_OFF - now) div 1000000\<rparr>) (pw_holding w),
           vw_reason = None\<rparr>
      | Closed reason \<Rightarrow> default\<lparr>vw_state := StClosed, vw_reason := Some reason\<rparr>)"

text \<open>Everything that can happen to the window after setup, as steps of a transition relation.\<close>

inductive window_step :: "PairingWindow \<Rightarrow> PairingWindow \<Rightarrow> bool" where
  restart: "window_step w (load ok (pw_file w))"
| opened: "window_step w (open_window ok since has_peers now w)"
| was_placed: "window_step w (placed ok w)"
| failed: "window_step w (not_added ok w)"
| ticked: "window_step w (snd (tick ok strangers now w))"

inductive_simps window_step_iff: "window_step w w'"

section \<open>The window opens at most once\<close>

lemma split_whitespace_word:
  assumes "w \<noteq> []" and "list_all (\<lambda>c. \<not> is_space c) w" and "is_space c"
  shows "split_whitespace (w @ c # s) = w # split_whitespace (c # s)"
proof -
  obtain a v where w: "w = a # v" using assms(1) by (cases w) auto
  have a: "\<not> is_space a" "list_all (\<lambda>c. \<not> is_space c) v" using assms(2) w by auto
  have "takeWhile (\<lambda>c. \<not> is_space c) (v @ c # s) = v" "dropWhile (\<lambda>c. \<not> is_space c) (v @ c # s) = c # s"
    using a(2) assms(3) by (auto simp: takeWhile_append2 dropWhile_append2 list_all_iff)
  with a w show ?thesis by (subst split_whitespace.simps) (simp del: split_whitespace.simps)
qed

lemma split_whitespace_skip: "is_space c \<Longrightarrow> split_whitespace (c # s) = split_whitespace s"
  by (subst (1 2) split_whitespace.simps) (simp del: split_whitespace.simps)

lemma split_whitespace_empty: "split_whitespace [] = []"
  by (subst split_whitespace.simps) simp

lemma is_space_chars [simp]: "is_space (CHR '' '')" "is_space (CHR ''\<newline>'')"
  by (simp_all add: is_space_def)

lemma reason_word: "reason_name r \<noteq> [] \<and> list_all (\<lambda>c. \<not> is_space c) (reason_name r)"
  by (cases r) (simp_all add: is_space_def)

lemma split_closed [simp]: "split_whitespace (closed_text r) = [''closed'', reason_name r]"
proof -
  have "split_whitespace (closed_text r) = split_whitespace (''closed'' @ CHR '' '' # reason_name r @ ''\<newline>'')"
    by (simp add: closed_text_def del: split_whitespace.simps)
  also have "\<dots> = ''closed'' # split_whitespace (reason_name r @ CHR ''\<newline>'' # [])"
    by (subst split_whitespace_word) (simp_all add: is_space_def split_whitespace_skip del: split_whitespace.simps)
  also have "\<dots> = [''closed'', reason_name r]"
    using reason_word [of r]
    by (subst split_whitespace_word) (simp_all add: split_whitespace_skip split_whitespace_empty del: split_whitespace.simps)
  finally show ?thesis .
qed

lemma split_open: "\<exists>rest. split_whitespace (open_text since) = ''open'' # rest"
proof -
  have "split_whitespace (open_text since) = split_whitespace (''open'' @ CHR '' '' # digits since @ ''\<newline>'')"
    by (simp add: open_text_def del: split_whitespace.simps)
  also have "\<dots> = ''open'' # split_whitespace (CHR '' '' # digits since @ ''\<newline>'')"
    by (rule split_whitespace_word) (simp_all add: is_space_def)
  finally show ?thesis by blast
qed

lemma parse_reason_name [simp]: "parse_reason (reason_name r) = Some r"
  by (cases r) (simp_all add: parse_reason_def)

declare split_whitespace.simps [simp del]

text \<open>A window that was open once: neither the file nor the phase lets it open again.\<close>

definition spent :: "PairingWindow \<Rightarrow> bool" where
  "spent w \<longleftrightarrow> pw_phase w \<noteq> Eligible \<and>
     (\<exists>content word rest. pw_file w = Some content \<and> split_whitespace content = word # rest \<and>
        word \<in> {''open'', ''closed''})"

lemma close_not_open [simp]: "\<not> is_open (close ok reason w)" "pw_phase (close ok reason w) \<noteq> Eligible"
  by (simp_all add: is_open_def close_def)

lemma never_not_open [simp]: "\<not> is_open (w\<lparr>pw_phase := Never\<rparr>)"
  by (simp add: is_open_def)

lemma spent_close: "spent w \<Longrightarrow> spent (close ok reason w)"
  by (auto simp: spent_def close_def save_text_def)

lemma spent_load:
  assumes "spent w"
  shows "spent (load ok (pw_file w)) \<and> \<not> is_open (load ok (pw_file w))"
proof -
  from assms obtain content word rest where f: "pw_file w = Some content" "split_whitespace content = word # rest"
    and word: "word = ''open'' \<or> word = ''closed''" by (auto simp: spent_def)
  have base: "spent \<lparr>pw_file = pw_file w, pw_phase = p, pw_holding = None\<rparr>" if "p \<noteq> Eligible" for p
    using f word that by (auto simp: spent_def)
  from word show ?thesis
  proof
    assume "word = ''open''"
    then show ?thesis
      using f spent_close [OF base [of Never], of ok Restarted] close_not_open by (simp add: load_def)
  next
    assume "word = ''closed''"
    then show ?thesis
      using f base [of Never] base [of "Closed (case parse_reason (hd rest) of None \<Rightarrow> Restarted | Some r \<Rightarrow> r)"]
      by (simp add: load_def is_open_def Let_def)
  qed
qed

lemma spent_tick: "spent w \<Longrightarrow> spent (snd (tick ok strangers now w))"
  using spent_close [of w]
  by (auto simp: tick_def Let_def spent_def split: Phase.splits option.splits if_splits)

lemma is_open_tick: "is_open (snd (tick ok strangers now w)) \<Longrightarrow> is_open w"
  by (auto simp: tick_def is_open_def split: Phase.splits)

lemma window_step_spent:
  assumes "window_step w w'" and "spent w"
  shows "spent w' \<and> (is_open w' \<longrightarrow> is_open w)"
proof -
  have "pw_phase w \<noteq> Eligible" using assms(2) by (simp add: spent_def)
  with assms show ?thesis
    by (induction rule: window_step.induct)
      (auto simp: spent_load spent_tick is_open_tick placed_def not_added_def open_window_def intro: spent_close)
qed

lemma load_not_open [simp]: "\<not> is_open (load ok file)"
  by (auto simp: load_def is_open_def close_def Let_def split: list.splits)

lemma window_step_opens:
  assumes "window_step w w'" and "\<not> is_open w" and "is_open w'"
  shows "spent w'"
  using assms
proof (induction rule: window_step.induct)
  case (opened w ok since has_peers now)
  obtain rest where "split_whitespace (open_text since) = ''open'' # rest"
    using split_open by blast
  with opened show ?case
    by (auto simp: open_window_def spent_def save_text_def split: if_splits)
qed (auto simp: is_open_tick placed_def not_added_def split: if_splits)

text \<open>A run of steps, with the number of times the window went from not open to open.\<close>

inductive window_run :: "PairingWindow \<Rightarrow> nat \<Rightarrow> PairingWindow \<Rightarrow> bool" for w where
  start: "window_run w 0 w"
| next_step: "window_run w n w' \<Longrightarrow> window_step w' w'' \<Longrightarrow>
     window_run w (n + (if \<not> is_open w' \<and> is_open w'' then 1 else 0)) w''"

lemma window_run_spent: "window_run w n w' \<Longrightarrow> n \<le> 1 \<and> (n = 1 \<longrightarrow> spent w')"
proof (induction rule: window_run.induct)
  case (next_step n w' w'')
  show ?case
  proof (cases "n = 1")
    case True
    with next_step window_step_spent [OF next_step(2)] show ?thesis by auto
  next
    case False
    with next_step window_step_opens [OF next_step(2)] show ?thesis by auto
  qed
qed simp

text \<open>
  The pairing window opens at most once per install. Over any sequence of openings, ticks,
  placements, failures and restarts, and whichever of the writes of its state file fail, the window
  goes from shut to open at most once; only \<open>mark_eligible\<close>, which setup calls, is excluded.
\<close>

theorem window_opens_at_most_once:
  assumes "window_run w n w'"
  shows "n \<le> 1"
  using window_run_spent [OF assms] by blast

text \<open>
  A restart never finds an open window, and keeps why it closed. Whatever the file says, loading
  it yields a window that is not open; a file that says open, from a run that stopped, yields a
  window closed for good; and a close that was saved comes back closed with the same reason.
\<close>

theorem restart_finds_the_window_shut:
  "\<not> is_open (load ok file) \<and>
   pw_phase (load ok (Some (open_text since))) = Closed Restarted \<and>
   pw_phase (load ok (pw_file (close True reason w))) = Closed reason"
proof -
  obtain rest where "split_whitespace (open_text since) = ''open'' # rest"
    using split_open by blast
  then have "pw_phase (load ok (Some (open_text since))) = Closed Restarted"
    by (simp add: load_def close_def)
  moreover have "pw_phase (load ok (pw_file (close True reason w))) = Closed reason"
    by (simp add: load_def close_def save_text_def)
  ultimately show ?thesis by simp
qed

section \<open>Who may join\<close>

type_synonym tick_input = "bool \<times> Strangers \<times> instant"

fun tick_run :: "tick_input list \<Rightarrow> PairingWindow \<Rightarrow> PairingWindow" where
  "tick_run [] w = w"
| "tick_run ((ok, strangers, now) # ticks) w = tick_run ticks (snd (tick ok strangers now w))"

lemma tick_run_append: "tick_run (ts @ us) w = tick_run us (tick_run ts w)"
  by (induction ts w rule: tick_run.induct) auto

text \<open>What the window is holding: the candidate of every tick since the time it remembers.\<close>

definition held_since :: "tick_input list \<Rightarrow> Stranger \<Rightarrow> instant \<Rightarrow> bool" where
  "held_since ticks s since \<longleftrightarrow>
     (\<exists>before suffix. ticks = before @ suffix \<and> suffix \<noteq> [] \<and> snd (snd (hd suffix)) = since \<and>
        list_all (\<lambda>(_, strangers, _). candidate strangers = Some s) suffix)"

lemma tick_cases:
  assumes "tick ok strangers now w = (res, w')"
  obtains (shut) "\<not> is_open w'" "res = None" "pw_holding w' = None \<or> w' = w"
  | (still) until where "pw_phase w = Open until" "pw_phase w' = Open until" "now < until"
      "length (present strangers) \<le> 1" "\<not> turned_away strangers"
      "pw_holding w' = (case pw_holding w of
           Some (s, since) \<Rightarrow> if candidate strangers = Some s then Some (s, since)
             else map_option (\<lambda>s. (s, now)) (candidate strangers)
         | None \<Rightarrow> map_option (\<lambda>s. (s, now)) (candidate strangers))"
      "res = (case pw_holding w' of Some (s, since) \<Rightarrow> if now - since < HOLD_OFF then None else Some s | None \<Rightarrow> None)"
proof (cases "pw_phase w")
  case (Open until)
  show ?thesis
  proof (cases "now \<ge> until \<or> length (present strangers) > 1 \<or> turned_away strangers")
    case True
    with assms Open show ?thesis by (intro shut) (auto simp: tick_def close_def is_open_def split: if_splits)
  next
    case False
    with assms Open show ?thesis
      by (intro still [OF Open])
        (auto simp: tick_def Let_def split: option.splits if_splits prod.splits)
  qed
qed (use assms shut in \<open>auto simp: tick_def is_open_def\<close>)

lemma held_since_snoc:
  "held_since ticks s since \<Longrightarrow> candidate strangers = Some s \<Longrightarrow> held_since (ticks @ [(ok, strangers, now)]) s since"
  unfolding held_since_def
  by (elim exE conjE) (rule exI, rule_tac x = "suffix @ [(ok, strangers, now)]" in exI, auto)

lemma tick_run_holding:
  assumes "pw_holding w = None"
  shows "(is_open (tick_run ticks w) \<or> pw_holding (tick_run ticks w) = None) \<and>
    (\<forall>s since. pw_holding (tick_run ticks w) = Some (s, since) \<longrightarrow> held_since ticks s since)"
proof (induction ticks rule: rev_induct)
  case Nil
  with assms show ?case by simp
next
  case (snoc t ticks)
  obtain ok strangers now where t: "t = (ok, strangers, now)" by (cases t)
  obtain res w' where tk: "tick ok strangers now (tick_run ticks w) = (res, w')"
    by (cases "tick ok strangers now (tick_run ticks w)")
  have w': "tick_run (ticks @ [t]) w = w'" by (simp add: tick_run_append t tk)
  from tk show ?case
    unfolding w'
  proof (cases rule: tick_cases)
    case shut
    with snoc.IH show "(is_open w' \<or> pw_holding w' = None) \<and>
        (\<forall>s since. pw_holding w' = Some (s, since) \<longrightarrow> held_since (ticks @ [t]) s since)" by auto
  next
    case (still until)
    have new: "held_since (ticks @ [t]) s now" if "candidate strangers = Some s" for s
      unfolding held_since_def using that by (intro exI [of _ ticks] exI [of _ "[t]"]) (simp add: t)
    from still snoc.IH show "(is_open w' \<or> pw_holding w' = None) \<and>
        (\<forall>s since. pw_holding w' = Some (s, since) \<longrightarrow> held_since (ticks @ [t]) s since)"
      by (auto simp: is_open_def t intro: held_since_snoc new [unfolded t] split: option.splits if_splits)
  qed
qed

text \<open>
  C32: Nobody joins without having been alone for the hold-off. When a tick returns a stranger, the
  window is open and has not run out; at this tick and at every tick since one at least five
  seconds ago, that stranger was the only stranger present, its key had answered a hello, it was
  fresh, its name was its own and no record was unidentified; and at this tick nothing had been
  turned away.
\<close>

theorem join_needs_hold_off:
  assumes "pw_holding w = None" and "tick ok strangers now (tick_run ticks w) = (Some s, w')"
  shows "\<exists>before suffix. ticks = before @ suffix \<and> suffix \<noteq> [] \<and>
           HOLD_OFF \<le> now - snd (snd (hd suffix)) \<and>
           list_all (\<lambda>(_, strangers, _). candidate strangers = Some s) (suffix @ [(ok, strangers, now)]) \<and>
           present strangers = [s] \<and> unidentified strangers = 0 \<and> \<not> turned_away strangers \<and>
           st_answered s \<and> st_fresh s \<and> \<not> st_duplicate_name s \<and>
           (\<exists>until. pw_phase (tick_run ticks w) = Open until \<and> now < until)"
  using assms(2)
proof (cases rule: tick_cases)
  case (still until)
  from still(7) obtain since where h: "pw_holding w' = Some (s, since)" and wait: "HOLD_OFF \<le> now - since"
    by (auto split: option.splits if_splits)
  have pos: "0 < HOLD_OFF" by (simp add: HOLD_OFF_def from_secs_def)
  from h still(6) wait pos have held: "pw_holding (tick_run ticks w) = Some (s, since)" and c: "candidate strangers = Some s"
    by (auto split: option.splits if_splits)
  from c have "present strangers = [s]" "unidentified strangers = 0" "st_answered s" "st_fresh s" "\<not> st_duplicate_name s"
    by (auto simp: candidate_def split: list.splits if_splits)
  moreover from tick_run_holding [OF assms(1), of ticks] held have "held_since ticks s since" by blast
  ultimately show ?thesis
    using still(1,3,5) wait c unfolding held_since_def by (elim exE conjE) (intro exI conjI, auto)
qed simp

section \<open>A sample window, at which the theorems above apply\<close>

definition sample_stranger :: Stranger where
  "sample_stranger =
     \<lparr>st_key = ''k'', st_name = ''desk'', st_mark = ''m'', st_answered = True, st_fresh = True, st_duplicate_name = False\<rparr>"

definition sample_strangers :: Strangers where
  "sample_strangers = \<lparr>present = [sample_stranger], unidentified = 0, turned_away = False\<rparr>"

definition sample_window :: PairingWindow where
  "sample_window = open_window True 0 False 0 (load True (mark_eligible True None))"

lemma sample_window_eq:
  "sample_window = \<lparr>pw_file = Some (open_text 0), pw_phase = Open OPEN_FOR, pw_holding = None\<rparr>"
proof -
  have "split_whitespace ''eligible\<newline>'' = [''eligible'']"
    using split_whitespace_word [of "''eligible''" "CHR ''\<newline>''" "[]"]
    by (simp add: is_space_def split_whitespace_skip split_whitespace_empty)
  then show ?thesis by (simp add: sample_window_def mark_eligible_def save_text_def load_def open_window_def Let_def)
qed

theorem window_opens_at_most_once_witness:
  "\<exists>n. window_run (load True (mark_eligible True None)) n sample_window \<and> n \<le> 1"
proof -
  obtain n where run: "window_run (load True (mark_eligible True None)) n sample_window"
    unfolding sample_window_def using window_run.next_step [OF window_run.start window_step.opened] by blast
  from window_opens_at_most_once [OF run] run show ?thesis by blast
qed

theorem join_needs_hold_off_witness:
  "\<exists>w'. tick True sample_strangers HOLD_OFF (tick_run [(True, sample_strangers, 0)] sample_window) =
     (Some sample_stranger, w') \<and> present sample_strangers = [sample_stranger]"
proof -
  have "fst (tick True sample_strangers HOLD_OFF (tick_run [(True, sample_strangers, 0)] sample_window)) =
      Some sample_stranger"
    by (simp add: sample_window_eq tick_def sample_strangers_def sample_stranger_def candidate_def
        OPEN_FOR_def HOLD_OFF_def from_secs_def)
  then obtain w' where t: "tick True sample_strangers HOLD_OFF (tick_run [(True, sample_strangers, 0)] sample_window) =
      (Some sample_stranger, w')" by (metis prod.collapse)
  have "pw_holding sample_window = None" by (simp add: sample_window_eq)
  from join_needs_hold_off [OF this t] t show ?thesis by blast
qed

end
