(* ===== verification/Ownership.thy ===== *)
theory Ownership
  imports Evdev
begin

text \<open>
  Who owns the input devices of a Linux source (\<open>src/src/linux/ownership.rs\<close>).

  \<open>SourceOwnership\<close> is the state machine from \<open>Idle\<close> over \<open>Arming\<close> and \<open>Remote\<close> to \<open>Releasing\<close>; its operations
  return the effect that the runtime has to carry out. \<open>AggregateInputState\<close> follows which keys each device
  holds and whether it is between two reports.
\<close>

section \<open>The phases\<close>

datatype OwnershipPhase = Idle | Arming | Remote | Releasing

datatype OwnershipEffect =
    NoEffect
  | AcquireGrabs
  | QueueTerminal
  | ReleaseGrabs
  | CloseActivationAndReleaseGrabs
  | CancelActivation

datatype OwnershipError = CannotArm OwnershipPhase | NoGrabPending | NoReleasePending | NoTerminalPending

record SourceOwnership =
  ow_phase :: OwnershipPhase
  ow_grab_pending :: bool
  ow_release_pending :: bool
  ow_terminal_pending :: bool
  ow_last_complete_boundary :: u64
  ow_phase_transition_pending :: bool

definition ownership_default :: SourceOwnership where
  "ownership_default =
     \<lparr>ow_phase = Idle, ow_grab_pending = False, ow_release_pending = False, ow_terminal_pending = False,
      ow_last_complete_boundary = 0, ow_phase_transition_pending = False\<rparr>"

section \<open>What the devices hold\<close>

abbreviation BTN_TOUCH :: KeyCode where "BTN_TOUCH \<equiv> 0x14a"

text \<open>
  \<open>BTN_TOUCH\<close> and the tools pen, rubber, brush, pencil, airbrush, finger, mouse, lens and five, two, three and
  four fingers, by their codes.
\<close>

definition CONTACTS :: "KeyCode list" where
  "CONTACTS =
     [BTN_TOUCH, 0x140, 0x141, 0x142, 0x143, 0x144, 0x145, 0x146, 0x147, 0x148, 0x14d, 0x14e, 0x14f]"

definition is_contact :: "KeyCode \<Rightarrow> bool" where
  "is_contact key \<longleftrightarrow> key \<in> set CONTACTS"

record DeviceInputState =
  di_held :: "KeyCode fset"
  di_in_frame :: bool

record AggregateInputState =
  ag_devices :: "(string, DeviceInputState) fmap"
  ag_boundary_generation :: u64

definition aggregate_default :: AggregateInputState where
  "aggregate_default = \<lparr>ag_devices = fmempty, ag_boundary_generation = 0\<rparr>"

definition add_device :: "string \<Rightarrow> KeyCode fset \<Rightarrow> AggregateInputState \<Rightarrow> AggregateInputState" where
  "add_device path held g =
     g\<lparr>ag_devices := fmupd path \<lparr>di_held = held, di_in_frame = False\<rparr> (ag_devices g)\<rparr>"

definition remove_device :: "string \<Rightarrow> AggregateInputState \<Rightarrow> bool \<times> AggregateInputState" where
  "remove_device path g = (path |\<in>| fmdom (ag_devices g), g\<lparr>ag_devices := fmdrop path (ag_devices g)\<rparr>)"

definition resync_held :: "string \<Rightarrow> KeyCode fset \<Rightarrow> AggregateInputState \<Rightarrow> AggregateInputState" where
  "resync_held path held g =
     (case fmlookup (ag_devices g) path of
        None \<Rightarrow> g
      | Some d \<Rightarrow> g\<lparr>ag_devices := fmupd path (d\<lparr>di_held := held\<rparr>) (ag_devices g)\<rparr>)"

definition observe_key :: "KeyCode \<Rightarrow> i32 \<Rightarrow> DeviceInputState \<Rightarrow> DeviceInputState" where
  "observe_key key v d =
     (if v = 0 then d\<lparr>di_in_frame := True, di_held := di_held d |-| {|key|}\<rparr>
      else if v = 1 \<or> v = 2 then d\<lparr>di_in_frame := True, di_held := finsert key (di_held d)\<rparr>
      else d\<lparr>di_in_frame := True\<rparr>)"

definition observe :: "string \<Rightarrow> InputEvent \<Rightarrow> AggregateInputState \<Rightarrow> bool \<times> AggregateInputState" where
  "observe path event g =
     (case fmlookup (ag_devices g) path of
        None \<Rightarrow> (False, g)
      | Some d \<Rightarrow>
          (True,
           case ie_type event of
             SYNCHRONIZATION \<Rightarrow>
               if ie_code event = SYN_REPORT
               then \<lparr>ag_devices = fmupd path (d\<lparr>di_in_frame := False\<rparr>) (ag_devices g),
                     ag_boundary_generation = ag_boundary_generation g + 1\<rparr>
               else g
           | KEY \<Rightarrow>
               g\<lparr>ag_devices := fmupd path (observe_key (ie_code event) (ie_value event) d) (ag_devices g)\<rparr>
           | _ \<Rightarrow> g\<lparr>ag_devices := fmupd path (d\<lparr>di_in_frame := True\<rparr>) (ag_devices g)\<rparr>))"

definition is_neutral :: "AggregateInputState \<Rightarrow> bool" where
  "is_neutral g \<longleftrightarrow> fBall (fmran (ag_devices g)) (\<lambda>d. di_held d = {||})"

definition nothing_pressed :: "AggregateInputState \<Rightarrow> bool" where
  "nothing_pressed g \<longleftrightarrow> fBall (fmran (ag_devices g)) (\<lambda>d. fBall (di_held d) is_contact)"

definition all_at_boundary :: "AggregateInputState \<Rightarrow> bool" where
  "all_at_boundary g \<longleftrightarrow> fBall (fmran (ag_devices g)) (\<lambda>d. \<not> di_in_frame d)"

definition aggregate_is_empty :: "AggregateInputState \<Rightarrow> bool" where
  "aggregate_is_empty g \<longleftrightarrow> ag_devices g = fmempty"

section \<open>Operations\<close>

definition request_activation :: "SourceOwnership \<Rightarrow> (OwnershipError + OwnershipEffect) \<times> SourceOwnership" where
  "request_activation o1 =
     (if ow_phase o1 \<noteq> Idle then (Inl (CannotArm (ow_phase o1)), o1)
      else (Inr NoEffect, o1\<lparr>ow_phase := Arming, ow_phase_transition_pending := True\<rparr>))"

definition at_complete_boundary ::
  "AggregateInputState \<Rightarrow> bool \<Rightarrow> SourceOwnership \<Rightarrow> OwnershipEffect \<times> SourceOwnership"
where
  "at_complete_boundary g kernel_neutral o1 =
     (if \<not> all_at_boundary g then (NoEffect, o1)
      else if ag_boundary_generation g = ow_last_complete_boundary o1 \<and> \<not> ow_phase_transition_pending o1 then (NoEffect, o1)
      else
        let o2 = o1\<lparr>ow_last_complete_boundary := ag_boundary_generation g, ow_phase_transition_pending := False\<rparr>
        in if ow_phase o2 = Arming \<and> \<not> ow_grab_pending o2 \<and> nothing_pressed g \<and> kernel_neutral
           then (AcquireGrabs, o2\<lparr>ow_grab_pending := True\<rparr>)
           else if ow_phase o2 = Releasing \<and> \<not> ow_terminal_pending o2 \<and> \<not> ow_release_pending o2
           then (ReleaseGrabs, o2\<lparr>ow_release_pending := True\<rparr>)
           else (NoEffect, o2))"

definition grab_succeeded :: "SourceOwnership \<Rightarrow> (OwnershipError + unit) \<times> SourceOwnership" where
  "grab_succeeded o1 =
     (if ow_phase o1 \<noteq> Arming \<or> \<not> ow_grab_pending o1 then (Inl NoGrabPending, o1)
      else (Inr (), o1\<lparr>ow_grab_pending := False, ow_phase := Remote\<rparr>))"

definition grab_failed :: "SourceOwnership \<Rightarrow> (OwnershipError + unit) \<times> SourceOwnership" where
  "grab_failed o1 =
     (if ow_phase o1 \<noteq> Arming \<or> \<not> ow_grab_pending o1 then (Inl NoGrabPending, o1)
      else (Inr (), o1\<lparr>ow_grab_pending := False, ow_phase := Idle\<rparr>))"

definition request_release :: "bool \<Rightarrow> SourceOwnership \<Rightarrow> OwnershipEffect \<times> SourceOwnership" where
  "request_release transport_live o1 =
     (case ow_phase o1 of
        Idle \<Rightarrow> (NoEffect, o1)
      | Arming \<Rightarrow>
          (CancelActivation, o1\<lparr>ow_grab_pending := False, ow_phase := Idle, ow_phase_transition_pending := False\<rparr>)
      | Remote \<Rightarrow>
          (let o2 = o1\<lparr>ow_phase := Releasing, ow_phase_transition_pending := True\<rparr>
           in if transport_live then (QueueTerminal, o2\<lparr>ow_terminal_pending := True\<rparr>) else (NoEffect, o2))
      | Releasing \<Rightarrow> (NoEffect, o1))"

definition own_terminal_sent :: "SourceOwnership \<Rightarrow> (OwnershipError + unit) \<times> SourceOwnership" where
  "own_terminal_sent o1 =
     (if ow_phase o1 \<noteq> Releasing \<or> \<not> ow_terminal_pending o1 then (Inl NoTerminalPending, o1)
      else (Inr (), o1\<lparr>ow_terminal_pending := False, ow_phase_transition_pending := True\<rparr>))"

definition release_completed :: "SourceOwnership \<Rightarrow> (OwnershipError + unit) \<times> SourceOwnership" where
  "release_completed o1 =
     (if ow_phase o1 \<noteq> Releasing \<or> \<not> ow_release_pending o1 then (Inl NoReleasePending, o1)
      else (Inr (), o1\<lparr>ow_release_pending := False, ow_terminal_pending := False, ow_phase := Idle,
                       ow_phase_transition_pending := False\<rparr>))"

definition force_release :: "SourceOwnership \<Rightarrow> OwnershipEffect \<times> SourceOwnership" where
  "force_release o1 =
     (case ow_phase o1 of
        Idle \<Rightarrow> (NoEffect, o1)
      | Arming \<Rightarrow>
          (CancelActivation, o1\<lparr>ow_grab_pending := False, ow_phase := Idle, ow_phase_transition_pending := False\<rparr>)
      | _ \<Rightarrow>
          (CloseActivationAndReleaseGrabs,
           o1\<lparr>ow_phase := Releasing, ow_terminal_pending := False, ow_release_pending := True,
              ow_phase_transition_pending := False\<rparr>))"

section \<open>Lemmas\<close>

text \<open>
  The flags between two events of the runtime: nothing is pending except a terminal while releasing, and then
  the boundary that follows it is awaited.
\<close>

definition settled :: "SourceOwnership \<Rightarrow> bool" where
  "settled o1 \<longleftrightarrow>
     \<not> ow_grab_pending o1 \<and> \<not> ow_release_pending o1 \<and> (ow_terminal_pending o1 \<longrightarrow> ow_phase o1 = Releasing)"

lemma settled_default [simp]: "settled ownership_default"
  by (simp add: settled_def ownership_default_def)

lemma at_complete_boundary_effect:
  assumes "at_complete_boundary g neutral o1 = (e, o2)" "settled o1"
  shows "e = AcquireGrabs \<and> ow_phase o1 = Arming \<and> all_at_boundary g \<and> nothing_pressed g \<and> neutral \<and>
           ow_phase o2 = Arming \<and> ow_grab_pending o2 \<and> \<not> ow_release_pending o2 \<and> \<not> ow_terminal_pending o2 \<or>
         e = ReleaseGrabs \<and> ow_phase o1 = Releasing \<and> all_at_boundary g \<and> \<not> ow_terminal_pending o1 \<and>
           ow_phase o2 = Releasing \<and> ow_release_pending o2 \<and> \<not> ow_grab_pending o2 \<and> \<not> ow_terminal_pending o2 \<or>
         e = NoEffect \<and> settled o2 \<and> ow_phase o2 = ow_phase o1 \<and> ow_terminal_pending o2 = ow_terminal_pending o1"
  using assms by (auto simp: at_complete_boundary_def settled_def Let_def split: if_splits)

end
