(* ===== verification/Touch_Slots.thy ===== *)
theory Touch_Slots
  imports Evdev Negotiate "HOL-Library.Signed_Division"
begin

text \<open>
  Touchpad slots as contact states (\<open>src/src/linux/touch.rs\<close>).

  A multitouch device reports per slot: \<open>ABS_MT_SLOT\<close> picks the slot that the next events change, a tracking
  id of \<open>- 1\<close> lifts the finger. \<open>TouchAccumulator\<close> follows the slots, \<open>touch_push\<close> takes one event and returns
  the complete state at \<open>SYN_REPORT\<close>. An \<open>io::Error\<close> and the panic of \<open>expect\<close> are values of \<open>TouchFault\<close>. Values
  of type \<open>i64\<close> are integers here: units are below \<open>2 ^ 32\<close> and scales below \<open>2 ^ 39\<close>.
\<close>

section \<open>Axes and slots\<close>

abbreviation ABS_MT_SLOT :: u16 where "ABS_MT_SLOT \<equiv> 0x2f"
abbreviation ABS_MT_POSITION_X :: u16 where "ABS_MT_POSITION_X \<equiv> 0x35"
abbreviation ABS_MT_POSITION_Y :: u16 where "ABS_MT_POSITION_Y \<equiv> 0x36"
abbreviation ABS_MT_TOOL_TYPE :: u16 where "ABS_MT_TOOL_TYPE \<equiv> 0x37"
abbreviation ABS_MT_TRACKING_ID :: u16 where "ABS_MT_TRACKING_ID \<equiv> 0x39"

abbreviation BTN_TOOL_FINGER :: KeyCode where "BTN_TOOL_FINGER \<equiv> 0x145"
abbreviation BTN_TOOL_QUINTTAP :: KeyCode where "BTN_TOOL_QUINTTAP \<equiv> 0x148"
abbreviation BTN_TOOL_DOUBLETAP :: KeyCode where "BTN_TOOL_DOUBLETAP \<equiv> 0x14d"
abbreviation BTN_TOOL_TRIPLETAP :: KeyCode where "BTN_TOOL_TRIPLETAP \<equiv> 0x14e"
abbreviation BTN_TOOL_QUADTAP :: KeyCode where "BTN_TOOL_QUADTAP \<equiv> 0x14f"

definition MT_TOOL_PALM :: i32 where
  "MT_TOOL_PALM = 2"

definition TOOL_FINGERS :: "KeyCode list" where
  "TOOL_FINGERS =
     [BTN_TOOL_FINGER, BTN_TOOL_DOUBLETAP, BTN_TOOL_TRIPLETAP, BTN_TOOL_QUADTAP, BTN_TOOL_QUINTTAP]"

datatype TouchFault = ExtentPanic | SlotsLost | DuplicateTrackingId ContactId

record TouchAxisRange =
  ax_minimum :: i32
  ax_maximum :: i32
  ax_resolution :: i32

definition axis_new :: "i32 \<Rightarrow> i32 \<Rightarrow> i32 \<Rightarrow> TouchAxisRange option" where
  "axis_new low high resolution =
     (if sint low < sint high
      then Some \<lparr>ax_minimum = low, ax_maximum = high, ax_resolution = resolution\<rparr> else None)"

text \<open>\<open>i32::clamp\<close> and the subtraction, which wraps around in a release build.\<close>

definition normalize :: "TouchAxisRange \<Rightarrow> i32 \<Rightarrow> i32" where
  "normalize r v =
     (if sint v < sint (ax_minimum r) then ax_minimum r
      else if sint (ax_maximum r) < sint v then ax_maximum r else v) - ax_minimum r"

definition extent :: "TouchAxisRange \<Rightarrow> TouchFault + u32" where
  "extent r = (let e = ax_maximum r - ax_minimum r in if sint e < 0 then Inl ExtentPanic else Inr e)"

record SlotState =
  sl_tracking_id :: "ContactId option"
  sl_x :: i32
  sl_y :: i32
  sl_palm :: bool

definition slot_default :: SlotState where
  "slot_default = \<lparr>sl_tracking_id = None, sl_x = 0, sl_y = 0, sl_palm = False\<rparr>"

record TouchAccumulator =
  ta_x :: TouchAxisRange
  ta_y :: TouchAxisRange
  ta_units_per_100mm :: "int \<times> int"
  ta_slots :: "SlotState list"
  ta_current_slot :: "nat option"
  ta_tools :: u8
  ta_dirty :: bool
  ta_event_count :: u64

definition accumulator_new :: "TouchAxisRange \<Rightarrow> TouchAxisRange \<Rightarrow> TouchFault + TouchAccumulator" where
  "accumulator_new x y =
     result_then
       (if 0 < sint (ax_resolution x) \<and> 0 < sint (ax_resolution y)
        then Inr (100 * sint (ax_resolution x), 100 * sint (ax_resolution y))
        else result_then (extent x) (\<lambda>e. Inr (uint e, uint e)))
       (\<lambda>units. Inr
          \<lparr>ta_x = x, ta_y = y, ta_units_per_100mm = units, ta_slots = replicate MAX_TOUCHPAD_CONTACTS slot_default,
           ta_current_slot = Some 0, ta_tools = 0, ta_dirty = False, ta_event_count = 0\<rparr>)"

text \<open>
  \<open>from_device\<close>: the axes that the device supports and the ranges it reports (\<open>minimum\<close>, \<open>maximum\<close>,
  \<open>resolution\<close>) come from the kernel.
\<close>

definition axis_of :: "u16 \<Rightarrow> (u16 \<times> i32 \<times> i32 \<times> i32) list \<Rightarrow> TouchAxisRange option" where
  "axis_of code absinfo =
     fold (\<lambda>(c, low, high, resolution) found. if c = code then axis_new low high resolution else found) absinfo None"

definition from_device ::
  "u16 fset option \<Rightarrow> (u16 \<times> i32 \<times> i32 \<times> i32) list \<Rightarrow> TouchFault + TouchAccumulator option"
where
  "from_device supported absinfo =
     (case supported of
        None \<Rightarrow> Inr None
      | Some axes \<Rightarrow>
          if \<not> list_all (\<lambda>required. required |\<in>| axes)
                 [ABS_MT_SLOT, ABS_MT_TRACKING_ID, ABS_MT_POSITION_X, ABS_MT_POSITION_Y]
          then Inr None
          else (case (axis_of ABS_MT_POSITION_X absinfo, axis_of ABS_MT_POSITION_Y absinfo) of
                  (Some x, Some y) \<Rightarrow> result_then (accumulator_new x y) (\<lambda>a. Inr (Some a))
                | _ \<Rightarrow> Inr None))"

section \<open>Snapshots\<close>

definition hundredths_mm :: "int \<Rightarrow> int \<Rightarrow> i32" where
  "hundredths_mm units units_per_100mm =
     (let hundredths = (units * 10000 + units_per_100mm sdiv 2) sdiv units_per_100mm
      in of_int (min hundredths (2 ^ 31 - 1)))"

definition slot_contact :: "TouchAccumulator \<Rightarrow> SourceDimensions \<Rightarrow> SlotState \<Rightarrow> TouchContact option" where
  "slot_contact a surface slot =
     map_option (\<lambda>tid.
       \<lparr>tc_id = tid,
        tc_x = hundredths_mm (sint (sl_x slot)) (fst (ta_units_per_100mm a)),
        tc_y = hundredths_mm (sint (sl_y slot)) (snd (ta_units_per_100mm a)),
        tc_pressure = None, tc_major = None, tc_minor = None, tc_orientation_millidegrees = None,
        tc_tool = Finger, tc_source_dimensions = Some surface\<rparr>) (sl_tracking_id slot)"

definition touch_snapshot :: "TouchAccumulator \<Rightarrow> TouchFault + TouchState" where
  "touch_snapshot a =
     result_then (extent (ta_x a)) (\<lambda>width.
     result_then (extent (ta_y a)) (\<lambda>height.
       let surface =
             \<lparr>dim_width = hundredths_mm (uint width) (fst (ta_units_per_100mm a)),
              dim_height = hundredths_mm (uint height) (snd (ta_units_per_100mm a))\<rparr>
       in map_err DuplicateTrackingId (touch_new (List.map_filter (slot_contact a surface) (ta_slots a)))))"

section \<open>Events\<close>

definition mapped :: "TouchAccumulator \<Rightarrow> TouchAccumulator" where
  "mapped a = a\<lparr>ta_dirty := True, ta_event_count := saturating_add_u64 (ta_event_count a) 1\<rparr>"

definition on_slot :: "(SlotState \<Rightarrow> SlotState) \<Rightarrow> TouchAccumulator \<Rightarrow> TouchAccumulator" where
  "on_slot f a =
     (case ta_current_slot a of
        None \<Rightarrow> a
      | Some slot \<Rightarrow> a\<lparr>ta_slots := (ta_slots a)[slot := f (ta_slots a ! slot)]\<rparr>)"

definition touch_absolute :: "u16 \<Rightarrow> i32 \<Rightarrow> TouchAccumulator \<Rightarrow> TouchAccumulator" where
  "touch_absolute code v a =
     (if code = ABS_MT_SLOT then
        mapped (a\<lparr>ta_current_slot := (if 0 \<le> sint v \<and> nat (sint v) < MAX_TOUCHPAD_CONTACTS then Some (nat (sint v)) else None)\<rparr>)
      else if code = ABS_MT_TRACKING_ID then
        mapped (on_slot (\<lambda>s. s\<lparr>sl_tracking_id := (if sint v < 0 then None else Some v)\<rparr>) a)
      else if code = ABS_MT_POSITION_X then mapped (on_slot (\<lambda>s. s\<lparr>sl_x := normalize (ta_x a) v\<rparr>) a)
      else if code = ABS_MT_POSITION_Y then mapped (on_slot (\<lambda>s. s\<lparr>sl_y := normalize (ta_y a) v\<rparr>) a)
      else if code = ABS_MT_TOOL_TYPE then on_slot (\<lambda>s. s\<lparr>sl_palm := (v = MT_TOOL_PALM)\<rparr>) a
      else a)"

fun position :: "('a \<Rightarrow> bool) \<Rightarrow> 'a list \<Rightarrow> nat option" where
  "position P [] = None"
| "position P (x # xs) = (if P x then Some 0 else map_option Suc (position P xs))"

definition touch_tool :: "KeyCode \<Rightarrow> i32 \<Rightarrow> TouchAccumulator \<Rightarrow> TouchAccumulator" where
  "touch_tool code v a =
     (case position (\<lambda>key. key = code) TOOL_FINGERS of
        None \<Rightarrow> a
      | Some index \<Rightarrow>
          if v = 0 then a\<lparr>ta_tools := unset_bit index (ta_tools a)\<rparr>
          else a\<lparr>ta_tools := set_bit index (ta_tools a)\<rparr>)"

definition touch_push ::
  "InputEvent \<Rightarrow> TouchAccumulator \<Rightarrow> (TouchFault + (TouchState \<times> u64) option) \<times> TouchAccumulator"
where
  "touch_push event a =
     (case ie_type event of
        SYNCHRONIZATION \<Rightarrow>
          if ie_code event = SYN_REPORT \<and> ta_dirty a then
            (case touch_snapshot a of
               Inl e \<Rightarrow> (Inl e, a)
             | Inr state \<Rightarrow>
                 (Inr (Some (state, ta_event_count a)), a\<lparr>ta_event_count := 0, ta_dirty := False\<rparr>))
          else if ie_code event = SYN_DROPPED then (Inl SlotsLost, a)
          else (Inr None, a)
      | KEY \<Rightarrow> (Inr None, touch_tool (ie_code event) (ie_value event) a)
      | ABSOLUTE \<Rightarrow> (Inr None, touch_absolute (ie_code event) (ie_value event) a)
      | _ \<Rightarrow> (Inr None, a))"

section \<open>Fingers\<close>

record Finger =
  fg_id :: ContactId
  fg_x :: i32
  fg_y :: i32

definition slot_finger :: "TouchAccumulator \<Rightarrow> SlotState \<Rightarrow> Finger option" where
  "slot_finger a slot =
     map_option (\<lambda>tid.
       \<lparr>fg_id = tid,
        fg_x = hundredths_mm (sint (sl_x slot)) (fst (ta_units_per_100mm a)),
        fg_y = hundredths_mm (sint (sl_y slot)) (snd (ta_units_per_100mm a))\<rparr>) (sl_tracking_id slot)"

definition fingers :: "TouchAccumulator \<Rightarrow> Finger list" where
  "fingers a = List.map_filter (slot_finger a) (filter (\<lambda>slot. \<not> sl_palm slot) (ta_slots a))"

definition leading_zeros_u8 :: "u8 \<Rightarrow> nat" where
  "leading_zeros_u8 b = length (takeWhile (\<lambda>i. \<not> bit b i) [7, 6, 5, 4, 3, 2, 1, 0])"

definition finger_count :: "TouchAccumulator \<Rightarrow> nat" where
  "finger_count a =
     (let active = (\<lambda>palm. length (filter (\<lambda>slot. sl_tracking_id slot \<noteq> None \<and> sl_palm slot = palm) (ta_slots a)));
          tools = 8 - leading_zeros_u8 (ta_tools a)
      in max (active False) (tools - active True))"

section \<open>Snapshots stay on the pad\<close>

text \<open>An axis whose extent is an \<open>i32\<close>; the others make \<open>extent\<close> panic.\<close>

definition axis_fits :: "TouchAxisRange \<Rightarrow> bool" where
  "axis_fits r \<longleftrightarrow> 0 < sint (ax_maximum r) - sint (ax_minimum r) \<and> sint (ax_maximum r) - sint (ax_minimum r) < 2 ^ 31"

definition slots_ok :: "TouchAccumulator \<Rightarrow> bool" where
  "slots_ok a \<longleftrightarrow>
     axis_fits (ta_x a) \<and> axis_fits (ta_y a) \<and>
     0 < fst (ta_units_per_100mm a) \<and> 0 < snd (ta_units_per_100mm a) \<and>
     length (ta_slots a) = MAX_TOUCHPAD_CONTACTS \<and>
     (\<forall>slot. ta_current_slot a = Some slot \<longrightarrow> slot < MAX_TOUCHPAD_CONTACTS) \<and>
     (\<forall>slot \<in> set (ta_slots a).
        0 \<le> sint (sl_x slot) \<and> sint (sl_x slot) \<le> sint (ax_maximum (ta_x a)) - sint (ax_minimum (ta_x a)) \<and>
        0 \<le> sint (sl_y slot) \<and> sint (sl_y slot) \<le> sint (ax_maximum (ta_y a)) - sint (ax_minimum (ta_y a)))"

lemma sint_diff_i32:
  assumes "0 \<le> sint (a :: i32) - sint b" "sint a - sint b < 2 ^ 31"
  shows "sint (a - b) = sint a - sint b"
  using assms by (simp add: sint_word_ariths signed_take_bit_int_eq_self)

lemma normalize_range:
  assumes "axis_fits r"
  shows "0 \<le> sint (normalize r v) \<and> sint (normalize r v) \<le> sint (ax_maximum r) - sint (ax_minimum r)"
  using assms by (auto simp: normalize_def axis_fits_def sint_diff_i32)

lemma extent_fits:
  assumes "axis_fits r"
  shows "extent r = Inr (ax_maximum r - ax_minimum r)"
    and "uint (ax_maximum r - ax_minimum r) = sint (ax_maximum r) - sint (ax_minimum r)"
proof -
  have diff: "sint (ax_maximum r - ax_minimum r) = sint (ax_maximum r) - sint (ax_minimum r)"
    using assms by (auto simp: axis_fits_def intro: sint_diff_i32)
  then show "extent r = Inr (ax_maximum r - ax_minimum r)"
    using assms by (simp add: extent_def axis_fits_def Let_def)
  have "uint (ax_maximum r - ax_minimum r) = take_bit 32 (sint (ax_maximum r - ax_minimum r))"
    by (simp add: take_bit_word_eq_self uint_sint)
  then show "uint (ax_maximum r - ax_minimum r) = sint (ax_maximum r) - sint (ax_minimum r)"
    using assms diff by (simp add: axis_fits_def take_bit_int_eq_self)
qed

lemma accumulator_new_ok:
  assumes "axis_fits x" "axis_fits y" "accumulator_new x y = Inr a"
  shows "slots_ok a"
  using assms extent_fits [of x]
  by (auto simp: accumulator_new_def slots_ok_def slot_default_def result_then_def axis_fits_def
      MAX_TOUCHPAD_CONTACTS_def
      split: if_splits)

lemma slots_ok_mapped [simp]: "slots_ok (mapped a) = slots_ok a"
  by (simp add: mapped_def slots_ok_def)

lemma slots_ok_on_slot:
  assumes "slots_ok a"
    and "\<And>s. s \<in> set (ta_slots a) \<Longrightarrow>
      (sl_x (f s) = sl_x s \<or> (\<exists>v. sl_x (f s) = normalize (ta_x a) v)) \<and>
      (sl_y (f s) = sl_y s \<or> (\<exists>v. sl_y (f s) = normalize (ta_y a) v))"
  shows "slots_ok (on_slot f a)"
proof (cases "ta_current_slot a")
  case (Some slot)
  then have slot: "slot < length (ta_slots a)"
    using assms(1) by (simp add: slots_ok_def)
  let ?s = "f (ta_slots a ! slot)"
  have "0 \<le> sint (sl_x ?s) \<and> sint (sl_x ?s) \<le> sint (ax_maximum (ta_x a)) - sint (ax_minimum (ta_x a)) \<and>
        0 \<le> sint (sl_y ?s) \<and> sint (sl_y ?s) \<le> sint (ax_maximum (ta_y a)) - sint (ax_minimum (ta_y a))"
    using assms(2) [OF nth_mem [OF slot]] assms(1) nth_mem [OF slot] normalize_range [of "ta_x a"]
      normalize_range [of "ta_y a"]
    unfolding slots_ok_def by metis
  then show ?thesis
    using assms(1) Some set_update_subset_insert [of "ta_slots a" slot ?s]
    by (auto simp: on_slot_def slots_ok_def)
qed (use assms in \<open>simp add: on_slot_def\<close>)

lemma touch_absolute_ok:
  assumes "slots_ok a"
  shows "slots_ok (touch_absolute code v a)"
proof -
  have "slots_ok (a\<lparr>ta_current_slot := (if 0 \<le> sint v \<and> nat (sint v) < MAX_TOUCHPAD_CONTACTS then Some (nat (sint v)) else None)\<rparr>)"
    using assms by (auto simp: slots_ok_def split: if_splits)
  then show ?thesis
    using assms unfolding touch_absolute_def
    by (auto simp del: if_split_asm intro!: slots_ok_on_slot)
qed

lemma touch_push_ok:
  assumes "slots_ok a" "touch_push event a = (r, a')"
  shows "slots_ok a'"
proof -
  have "slots_ok (touch_tool code v a)" for code v
    using assms(1) by (auto simp: touch_tool_def slots_ok_def split: option.split)
  moreover have "slots_ok (a\<lparr>ta_event_count := 0, ta_dirty := False\<rparr>)"
    using assms(1) by (simp add: slots_ok_def)
  ultimately show ?thesis
    using assms touch_absolute_ok [OF assms(1)]
    by (auto simp: touch_push_def split: EventType.splits if_splits sum.splits)
qed

text \<open>Rounding to hundredths of a millimetre keeps the order.\<close>

lemma hundredths_nonneg:
  assumes "0 \<le> units" "0 < scale"
  shows "sint (hundredths_mm units scale) = min ((units * 10000 + scale div 2) div scale) (2 ^ 31 - 1)"
proof -
  have "units * 10000 + scale sdiv 2 = units * 10000 + scale div 2"
    using assms by (simp add: signed_divide_int_def)
  moreover have "0 \<le> units * 10000 + scale div 2"
    using assms by simp
  ultimately have h: "(units * 10000 + scale sdiv 2) sdiv scale = (units * 10000 + scale div 2) div scale"
    "0 \<le> (units * 10000 + scale div 2) div scale"
    using assms by (auto simp: signed_divide_int_def sgn_if pos_imp_zdiv_nonneg_iff)
  then show ?thesis
    by (simp add: hundredths_mm_def Let_def sint_sbintrunc' signed_take_bit_int_eq_self)
qed

lemma hundredths_range:
  assumes "0 \<le> units" "units \<le> most" "0 < scale"
  shows "0 \<le> sint (hundredths_mm units scale) \<and> sint (hundredths_mm units scale) \<le> sint (hundredths_mm most scale)"
proof -
  have "(units * 10000 + scale div 2) div scale \<le> (most * 10000 + scale div 2) div scale"
    using assms by (intro zdiv_mono1) auto
  moreover have "0 \<le> (units * 10000 + scale div 2) div scale"
    using assms by (simp add: pos_imp_zdiv_nonneg_iff)
  moreover have "0 \<le> most"
    using assms by simp
  ultimately show ?thesis
    using assms by (simp add: hundredths_nonneg)
qed

definition surface_of :: "TouchAccumulator \<Rightarrow> SourceDimensions" where
  "surface_of a =
     \<lparr>dim_width = hundredths_mm (sint (ax_maximum (ta_x a)) - sint (ax_minimum (ta_x a))) (fst (ta_units_per_100mm a)),
      dim_height = hundredths_mm (sint (ax_maximum (ta_y a)) - sint (ax_minimum (ta_y a))) (snd (ta_units_per_100mm a))\<rparr>"

lemma touch_snapshot_ok:
  assumes "slots_ok a"
  shows "touch_snapshot a =
    map_err DuplicateTrackingId (touch_new (List.map_filter (slot_contact a (surface_of a)) (ta_slots a)))"
  using assms extent_fits [of "ta_x a"] extent_fits [of "ta_y a"]
  by (simp add: slots_ok_def touch_snapshot_def result_then_def surface_of_def)

lemma map_filter_set: "set (List.map_filter f xs) = {y. \<exists>x \<in> set xs. f x = Some y}"
  by (induction xs) (auto simp: List.map_filter_simps split: option.split)

lemma length_map_filter: "length (List.map_filter f xs) \<le> length xs"
  by (simp add: List.map_filter_def)

lemma touch_new_from_Inr:
  "touch_new_from t cs = Inr t' \<Longrightarrow>
     distinct (map tc_id cs) \<and>
     (\<forall>i c. fmlookup t' i = Some c \<longleftrightarrow> fmlookup t i = Some c \<or> c \<in> set cs \<and> tc_id c = i) \<and>
     fcard (fmdom t') = fcard (fmdom t) + length cs \<and>
     (\<forall>c \<in> set cs. fmlookup t (tc_id c) = None)"
proof (induction t cs rule: touch_new_from.induct)
  case (2 t c cs)
  then have fresh: "fmlookup t (tc_id c) = None"
    and step: "touch_new_from (fmupd (tc_id c) c t) cs = Inr t'"
    by (auto split: option.splits)
  note IH = "2.IH" [OF fresh step]
  then have other: "tc_id d \<noteq> tc_id c \<and> fmlookup t (tc_id d) = None" if "d \<in> set cs" for d
    using that by (auto split: if_splits)
  have "fcard (fmdom (fmupd (tc_id c) c t)) = Suc (fcard (fmdom t))"
    using fresh by (simp add: fcard_finsert_disjoint fmdom_notI)
  moreover have "distinct (map tc_id (c # cs))"
    using IH other by (auto simp: image_iff)
  moreover have "fmlookup t' i = Some d \<longleftrightarrow> fmlookup t i = Some d \<or> d \<in> set (c # cs) \<and> tc_id d = i" for i d
  proof -
    have "fmlookup t' i = Some d \<longleftrightarrow> fmlookup (fmupd (tc_id c) c t) i = Some d \<or> d \<in> set cs \<and> tc_id d = i"
      using IH by blast
    then show ?thesis using fresh by auto
  qed
  ultimately show ?case
    using IH other fresh by simp
qed simp

lemma touch_new_Inr:
  assumes "touch_new cs = Inr state"
  shows "distinct (map tc_id cs)"
    and "fmlookup state i = Some c \<longleftrightarrow> c \<in> set cs \<and> tc_id c = i"
    and "touch_len state = length cs"
  using touch_new_from_Inr [of fmempty cs state] assms by (auto simp: touch_new_def touch_len_def)

definition contact_on_pad :: "TouchAccumulator \<Rightarrow> TouchContact \<Rightarrow> bool" where
  "contact_on_pad a c \<longleftrightarrow>
     tc_source_dimensions c = Some (surface_of a) \<and>
     0 \<le> sint (tc_x c) \<and> sint (tc_x c) \<le> sint (dim_width (surface_of a)) \<and>
     0 \<le> sint (tc_y c) \<and> sint (tc_y c) \<le> sint (dim_height (surface_of a))"

lemma slot_contact_on_pad:
  assumes "slots_ok a" "slot \<in> set (ta_slots a)" "slot_contact a (surface_of a) slot = Some c"
  shows "contact_on_pad a c"
proof -
  note ok = assms(1) [unfolded slots_ok_def]
  have "0 \<le> sint (hundredths_mm (sint (sl_x slot)) (fst (ta_units_per_100mm a))) \<and>
     sint (hundredths_mm (sint (sl_x slot)) (fst (ta_units_per_100mm a))) \<le> sint (dim_width (surface_of a))"
    unfolding surface_of_def SourceDimensions.select_convs using ok assms(2) by (intro hundredths_range) auto
  moreover have "0 \<le> sint (hundredths_mm (sint (sl_y slot)) (snd (ta_units_per_100mm a))) \<and>
     sint (hundredths_mm (sint (sl_y slot)) (snd (ta_units_per_100mm a))) \<le> sint (dim_height (surface_of a))"
    unfolding surface_of_def SourceDimensions.select_convs using ok assms(2) by (intro hundredths_range) auto
  ultimately show ?thesis
    using assms(3) by (auto simp: slot_contact_def contact_on_pad_def)
qed


text \<open>The loop over a batch of events.\<close>

fun touch_events ::
  "InputEvent list \<Rightarrow> TouchAccumulator \<Rightarrow> (TouchFault + (TouchState \<times> u64) list) \<times> TouchAccumulator"
where
  "touch_events [] a = (Inr [], a)"
| "touch_events (event # events) a =
     (case touch_push event a of
        (Inl e, a1) \<Rightarrow> (Inl e, a1)
      | (Inr r, a1) \<Rightarrow>
          (case touch_events events a1 of
             (Inl e, a2) \<Rightarrow> (Inl e, a2)
           | (Inr states, a2) \<Rightarrow> (Inr ((case r of None \<Rightarrow> [] | Some s \<Rightarrow> [s]) @ states), a2)))"

lemma touch_events_ok: "slots_ok a \<Longrightarrow> touch_events events a = (r, a') \<Longrightarrow> slots_ok a'"
proof (induction events a arbitrary: r a' rule: touch_events.induct)
  case (2 event events a)
  obtain r1 a1 where step: "touch_push event a = (r1, a1)" by force
  with 2(2) have "slots_ok a1" by (rule touch_push_ok)
  with 2 step show ?case by (auto split: sum.splits prod.splits)
qed simp

definition slot_ids :: "TouchAccumulator \<Rightarrow> ContactId list" where
  "slot_ids a = List.map_filter sl_tracking_id (ta_slots a)"

lemma slot_contact_ids: "map tc_id (List.map_filter (slot_contact a surface) slots) = List.map_filter sl_tracking_id slots"
  by (induction slots) (auto simp: List.map_filter_simps slot_contact_def split: option.split)

lemma touch_snapshot_Inr:
  assumes "slots_ok a" "touch_snapshot a = Inr state"
  shows "touch_len state \<le> MAX_TOUCHPAD_CONTACTS"
    and "distinct (slot_ids a)" "fset (fmdom state) = set (slot_ids a)"
    and "fmlookup state i = Some c \<Longrightarrow> tc_id c = i \<and> contact_on_pad a c"
proof -
  let ?cs = "List.map_filter (slot_contact a (surface_of a)) (ta_slots a)"
  have new: "touch_new ?cs = Inr state"
    using assms by (simp add: touch_snapshot_ok)
  note state = touch_new_Inr [OF new]
  show "touch_len state \<le> MAX_TOUCHPAD_CONTACTS"
    using state(3) length_map_filter [of "slot_contact a (surface_of a)" "ta_slots a"] assms(1)
    by (simp add: slots_ok_def)
  show "distinct (slot_ids a)"
    using state(1) by (simp add: slot_ids_def slot_contact_ids)
  have "set (slot_ids a) = tc_id ` set ?cs"
    unfolding slot_ids_def slot_contact_ids [of a "surface_of a", symmetric] by simp
  then show "fset (fmdom state) = set (slot_ids a)"
    using state(2) by (auto simp: fmlookup_dom_iff)
  show "fmlookup state i = Some c \<Longrightarrow> tc_id c = i \<and> contact_on_pad a c"
    using state(2) slot_contact_on_pad [OF assms(1)] by (auto simp: map_filter_set)
qed

lemma touch_snapshot_Inl:
  assumes "slots_ok a" "touch_snapshot a = Inl e"
  shows "\<exists>i. e = DuplicateTrackingId i \<and> i \<in> set (slot_ids a) \<and> \<not> distinct (slot_ids a)"
proof -
  let ?cs = "List.map_filter (slot_contact a (surface_of a)) (ta_slots a)"
  obtain i where "touch_new_from fmempty ?cs = Inl i" "e = DuplicateTrackingId i"
    using assms by (auto simp: touch_snapshot_ok map_err_Inl touch_new_def)
  with touch_new_from_error [of fmempty ?cs i] show ?thesis
    by (simp add: slot_contact_ids slot_ids_def)
qed

text \<open>
  C36: A contact state is exactly the pad. After any events of a device whose axes have a representable extent, a
  report becomes the state whose contacts are the tracking ids in the slots, at most five, each with its own id
  and with coordinates on the surface that the state names; it fails only when two slots hold the same tracking
  id, which it names.
\<close>

theorem touch_state_is_the_pad:
  assumes "axis_fits x" "axis_fits y" "accumulator_new x y = Inr a0" "touch_events events a0 = (r, a)"
  shows "(\<forall>state n a'. touch_push report_end a = (Inr (Some (state, n)), a') \<longrightarrow>
      fset (fmdom state) = set (slot_ids a) \<and> touch_len state \<le> MAX_TOUCHPAD_CONTACTS \<and>
      (\<forall>i c. fmlookup state i = Some c \<longrightarrow> tc_id c = i \<and> contact_on_pad a c)) \<and>
    (\<forall>e a'. touch_push report_end a = (Inl e, a') \<longrightarrow>
      (\<exists>i. e = DuplicateTrackingId i \<and> i \<in> set (slot_ids a) \<and> \<not> distinct (slot_ids a)))"
proof -
  have ok: "slots_ok a"
    using touch_events_ok [OF accumulator_new_ok [OF assms(1-3)] assms(4)] .
  show ?thesis
    using touch_snapshot_Inr [OF ok] touch_snapshot_Inl [OF ok]
    by (auto simp: touch_push_def report_end_def split: if_splits sum.splits)
qed

definition sample_axis :: TouchAxisRange where
  "sample_axis = \<lparr>ax_minimum = 0, ax_maximum = 1000, ax_resolution = 10\<rparr>"

definition sample_pad :: TouchAccumulator where
  "sample_pad =
     \<lparr>ta_x = sample_axis, ta_y = sample_axis, ta_units_per_100mm = (1000, 1000),
      ta_slots = [slot_default, slot_default, slot_default, slot_default, slot_default],
      ta_current_slot = Some 0, ta_tools = 0, ta_dirty = False, ta_event_count = 0\<rparr>"

lemma sample_pad_new: "accumulator_new sample_axis sample_axis = Inr sample_pad"
  by (simp add: sample_pad_def accumulator_new_def sample_axis_def result_then_def MAX_TOUCHPAD_CONTACTS_def
      numeral_nat)

lemma touch_state_is_the_pad_witness:
  "\<exists>state a'. touch_push report_end (snd (touch_events
       [sample_event ABSOLUTE ABS_MT_TRACKING_ID 7, sample_event ABSOLUTE ABS_MT_POSITION_X 300] sample_pad)) =
       (Inr (Some (state, 2)), a') \<and> fset (fmdom state) = {7}"
proof -
  let ?events = "[sample_event ABSOLUTE ABS_MT_TRACKING_ID 7, sample_event ABSOLUTE ABS_MT_POSITION_X 300]"
  let ?a = "snd (touch_events ?events sample_pad)"
  have slots: "slot_ids ?a = [7]" and count: "ta_event_count ?a = 2" "ta_dirty ?a"
    unfolding sample_pad_def touch_events.simps touch_push_def sample_event_def
    by (simp_all add: touch_absolute_def on_slot_def mapped_def slot_ids_def slot_default_def
        List.map_filter_simps saturating_add_u64_def)
  have fits: "axis_fits sample_axis"
    by (simp add: axis_fits_def sample_axis_def)
  obtain r where events: "touch_events ?events sample_pad = (r, ?a)"
    by (metis surjective_pairing)
  note pad = touch_state_is_the_pad [OF fits fits sample_pad_new events]
  obtain r' a' where push: "touch_push report_end ?a = (r', a')"
    by force
  with pad slots have "\<not> (\<exists>e. r' = Inl e)" by auto
  with push count obtain state where "r' = Inr (Some (state, 2))"
    by (auto simp: touch_push_def report_end_def split: sum.splits if_splits)
  with push pad slots show ?thesis by auto
qed

end
