(* ===== verification/Touchpad.thy ===== *)
theory Touchpad
  imports Touch_Slots F64
begin

text \<open>
  A touchpad as an ordinary pointer (\<open>src/src/linux/touchpad.rs\<close>).

  \<open>TouchpadPointer\<close> turns each report of a pad, its fingers and its key and button changes, into a pointer frame:
  \<open>pad_buttons\<close> passes the buttons on, with a clickpad press as the button for the number of fingers, \<open>pad_tap\<close>
  makes clicks from taps, \<open>pad_motion\<close> moves and scrolls. \<open>hypot\<close> is a parameter, as for the playout.
\<close>

section \<open>Numbers\<close>

definition PRIMARY :: PointerButton where "PRIMARY = 1"
definition SECONDARY :: PointerButton where "SECONDARY = 2"
definition MIDDLE :: PointerButton where "MIDDLE = 3"

definition SLOW_COUNTS_PER_MM :: f64 where "SLOW_COUNTS_PER_MM = Finite 8"
definition FAST_COUNTS_PER_MM :: f64 where "FAST_COUNTS_PER_MM = Finite 24"
definition SLOW_MM_PER_S :: f64 where "SLOW_MM_PER_S = Finite 25"
definition FAST_MM_PER_S :: f64 where "FAST_MM_PER_S = Finite 250"
definition MIN_INTERVAL :: duration where "MIN_INTERVAL = from_millis 4"
definition MOTION_START_MM :: f64 where "MOTION_START_MM = Finite (1 / 2)"
definition SCROLL_UNITS_PER_MM :: f64 where "SCROLL_UNITS_PER_MM = Finite 24"
definition SCROLL_START_MM :: f64 where "SCROLL_START_MM = Finite 1"
definition SCROLL_AXIS_LOCK :: f64 where "SCROLL_AXIS_LOCK = Finite 2"
definition TAP_TIME :: duration where "TAP_TIME = from_millis 180"
definition TAP_TRAVEL_MM :: f64 where "TAP_TRAVEL_MM = rounded (13 / 10)"
definition CLICK_SPREAD_MM :: "f64 \<times> f64" where "CLICK_SPREAD_MM = (Finite 40, Finite 30)"

fun f_abs :: "f64 \<Rightarrow> f64" where
  "f_abs (Finite a) = Finite \<bar>a\<bar>"
| "f_abs (Infinite s) = Infinite False"
| "f_abs NaN = NaN"

fun f_trunc :: "f64 \<Rightarrow> f64" where
  "f_trunc (Finite a) = Finite (of_int (F64.truncate a))"
| "f_trunc x = x"

text \<open>\<open>total_cmp\<close> is only used on lengths, which are not negative; a NaN comes last.\<close>

definition f_total_le :: "f64 \<Rightarrow> f64 \<Rightarrow> bool" where
  "f_total_le a b \<longleftrightarrow> b = NaN \<or> f_le a b"

definition as_secs_f64 :: "duration \<Rightarrow> f64" where
  "as_secs_f64 d = f_add (f_of_int (int (d div 1000000000))) (f_div (f_of_int (int (d mod 1000000000))) (Finite 1000000000))"

type_synonym vec2 = "f64 \<times> f64"

definition pad_length :: "(f64 \<Rightarrow> f64 \<Rightarrow> f64) \<Rightarrow> vec2 \<Rightarrow> f64" where
  "pad_length hypot v = hypot (fst v) (snd v)"

definition offset_from :: "Finger \<Rightarrow> Finger \<Rightarrow> vec2" where
  "offset_from a b =
     (f_div (f_of_int (sint (fg_x a - fg_x b))) (Finite 100),
      f_div (f_of_int (sint (fg_y a - fg_y b))) (Finite 100))"

definition counts_per_mm :: "f64 \<Rightarrow> f64" where
  "counts_per_mm speed =
     (let fast = f_clamp (f_div (f_sub speed SLOW_MM_PER_S) (f_sub FAST_MM_PER_S SLOW_MM_PER_S)) (Finite 0) (Finite 1)
      in f_add SLOW_COUNTS_PER_MM (f_mul fast (f_sub FAST_COUNTS_PER_MM SLOW_COUNTS_PER_MM)))"

text \<open>An axis is \<open>False\<close> across and \<open>True\<close> down.\<close>

definition locked_axis :: "vec2 \<Rightarrow> bool option" where
  "locked_axis v =
     (if f_le (f_mul SCROLL_AXIS_LOCK (f_abs (fst v))) (f_abs (snd v)) then Some True
      else if f_le (f_mul SCROLL_AXIS_LOCK (f_abs (snd v))) (f_abs (fst v)) then Some False
      else None)"

section \<open>State\<close>

record TouchpadSettings =
  ts_tap_to_click :: bool
  ts_natural_scroll :: bool

definition touchpad_settings_default :: TouchpadSettings where
  "touchpad_settings_default = \<lparr>ts_tap_to_click = True, ts_natural_scroll = True\<rparr>"

datatype Kind = Still | PointerKind | ScrollKind

record Gesture =
  g_kind :: Kind
  g_travel :: vec2
  g_started :: bool
  g_axis :: "bool option"
  g_remainder :: vec2

definition gesture_default :: Gesture where
  "gesture_default =
     \<lparr>g_kind = Still, g_travel = (Finite 0, Finite 0), g_started = False, g_axis = None,
      g_remainder = (Finite 0, Finite 0)\<rparr>"

record Tap =
  tap_landed :: duration
  tap_most :: nat
  tap_origins :: "Finger list"

record TouchpadPointer =
  tp_settings :: TouchpadSettings
  tp_clickpad :: bool
  tp_fingers :: "Finger list"
  tp_count :: nat
  tp_at :: duration
  tp_gesture :: Gesture
  tp_tap :: "Tap option"
  tp_pressed :: "PointerButton option"

definition touchpad_new :: "bool \<Rightarrow> TouchpadSettings \<Rightarrow> TouchpadPointer" where
  "touchpad_new clickpad settings =
     \<lparr>tp_settings = settings, tp_clickpad = clickpad, tp_fingers = [], tp_count = 0, tp_at = 0,
      tp_gesture = gesture_default, tp_tap = None, tp_pressed = None\<rparr>"

section \<open>Gestures\<close>

definition gesture_starts :: "(f64 \<Rightarrow> f64 \<Rightarrow> f64) \<Rightarrow> vec2 \<Rightarrow> f64 \<Rightarrow> Gesture \<Rightarrow> Gesture" where
  "gesture_starts hypot delta distance g =
     (if g_started g then g
      else
        let travel = (f_add (fst (g_travel g)) (fst delta), f_add (snd (g_travel g)) (snd delta))
        in g\<lparr>g_travel := travel, g_started := f_le distance (pad_length hypot travel)\<rparr>)"

definition whole_axis :: "f64 \<Rightarrow> f64 \<Rightarrow> i64 \<times> f64" where
  "whole_axis remainder amount =
     (let total = f_add remainder amount; whole = f_trunc total in (f_as_i64 whole, f_sub total whole))"

definition gesture_whole :: "vec2 \<Rightarrow> Gesture \<Rightarrow> (i64 \<times> i64) \<times> Gesture" where
  "gesture_whole amount g =
     (let (w0, r0) = whole_axis (fst (g_remainder g)) (fst amount);
          (w1, r1) = whole_axis (snd (g_remainder g)) (snd amount)
      in ((w0, w1), g\<lparr>g_remainder := (r0, r1)\<rparr>))"

section \<open>Reports\<close>

definition clickfinger :: "Finger list \<Rightarrow> nat \<Rightarrow> PointerButton" where
  "clickfinger fs count =
     (let thumb = (case fs of
                     [left, right] \<Rightarrow>
                       (let v = offset_from left right
                        in f_lt (fst CLICK_SPREAD_MM) (f_abs (fst v)) \<or> f_lt (snd CLICK_SPREAD_MM) (f_abs (snd v)))
                   | _ \<Rightarrow> False)
      in if count \<le> 1 then PRIMARY
         else if count = 2 then (if thumb then PRIMARY else SECONDARY)
         else MIDDLE)"

text \<open>One transition of \<open>buttons\<close>, and the loop; the flag says that a button changed.\<close>

definition pad_button ::
  "Finger list \<Rightarrow> nat \<Rightarrow> CaptureTransition \<Rightarrow> TouchpadPointer \<Rightarrow> bool \<times> CaptureTransition \<times> TouchpadPointer"
where
  "pad_button fs count transition p =
     (case transition of
        TransKey key state \<Rightarrow> (False, transition, p)
      | TransButton button state \<Rightarrow>
          if tp_clickpad p \<and> button = PRIMARY then
            (case state of
               KeyPressed \<Rightarrow>
                 (let b = clickfinger fs count in (True, TransButton b state, p\<lparr>tp_pressed := Some b\<rparr>))
             | KeyReleased \<Rightarrow>
                 (True, TransButton (case tp_pressed p of None \<Rightarrow> button | Some b \<Rightarrow> b) state, p\<lparr>tp_pressed := None\<rparr>)
             | KeyRepeat \<Rightarrow>
                 (True, TransButton (case tp_pressed p of None \<Rightarrow> button | Some b \<Rightarrow> b) state, p))
          else (True, transition, p))"

fun pad_buttons ::
  "Finger list \<Rightarrow> nat \<Rightarrow> CaptureTransition list \<Rightarrow> TouchpadPointer \<Rightarrow> bool \<times> CaptureTransition list \<times> TouchpadPointer"
where
  "pad_buttons fs count [] p = (False, [], p)"
| "pad_buttons fs count (transition # transitions) p =
     (let (changed, out, p1) = pad_button fs count transition p;
          (changed', outs, p2) = pad_buttons fs count transitions p1
      in (changed \<or> changed', out # outs, p2))"

text \<open>The loop over the fingers: where each landed, and whether one moved too far.\<close>

fun tap_track :: "(f64 \<Rightarrow> f64 \<Rightarrow> f64) \<Rightarrow> Finger list \<Rightarrow> Finger list \<Rightarrow> bool \<times> Finger list" where
  "tap_track hypot [] origins = (False, origins)"
| "tap_track hypot (f # fs) origins =
     (case find (\<lambda>origin. fg_id origin = fg_id f) origins of
        Some origin \<Rightarrow>
          (let (moved, origins') = tap_track hypot fs origins
           in (f_lt TAP_TRAVEL_MM (pad_length hypot (offset_from f origin)) \<or> moved, origins'))
      | None \<Rightarrow> tap_track hypot fs (origins @ [f]))"

definition tap_clicks :: "nat \<Rightarrow> CaptureTransition list" where
  "tap_clicks most =
     (let click = (\<lambda>button. [TransButton button KeyPressed, TransButton button KeyReleased])
      in if most = 1 then click PRIMARY else if most = 2 then click SECONDARY
         else if most = 3 then click MIDDLE else [])"

definition pad_tap ::
  "(f64 \<Rightarrow> f64 \<Rightarrow> f64) \<Rightarrow> Finger list \<Rightarrow> nat \<Rightarrow> duration \<Rightarrow> TouchpadPointer \<Rightarrow> CaptureTransition list \<times> TouchpadPointer"
where
  "pad_tap hypot fs count now p =
     (let p1 = (if ts_tap_to_click (tp_settings p) \<and> tp_pressed p = None \<and> tp_count p = 0 \<and> 0 < count
                then p\<lparr>tp_tap := Some \<lparr>tap_landed = now, tap_most = 0, tap_origins = []\<rparr>\<rparr> else p)
      in case tp_tap p1 of
           None \<Rightarrow> ([], p1)
         | Some t \<Rightarrow>
             (let (moved, origins) = tap_track hypot fs (tap_origins t);
                  t' = t\<lparr>tap_most := max (tap_most t) count, tap_origins := origins\<rparr>
              in if moved \<or> TAP_TIME < now - tap_landed t then ([], p1\<lparr>tp_tap := None\<rparr>)
                 else if count = 0 then (tap_clicks (tap_most t'), p1\<lparr>tp_tap := None\<rparr>)
                 else ([], p1\<lparr>tp_tap := Some t'\<rparr>)))"

definition motion_kind :: "nat \<Rightarrow> nat \<Rightarrow> PointerButton option \<Rightarrow> Kind" where
  "motion_kind count seen pressed =
     (if (count, seen) = (1, 1) then PointerKind
      else if (count, seen) = (2, 2) \<and> pressed \<noteq> None then PointerKind
      else if (count, seen) = (2, 2) then ScrollKind
      else Still)"

definition same_fingers :: "Finger list \<Rightarrow> nat \<Rightarrow> TouchpadPointer \<Rightarrow> bool" where
  "same_fingers fs count p \<longleftrightarrow>
     count = tp_count p \<and> length fs = length (tp_fingers p) \<and>
     list_all (\<lambda>f. list_ex (\<lambda>old. fg_id old = fg_id f) (tp_fingers p)) fs"

definition finger_moves :: "Finger list \<Rightarrow> TouchpadPointer \<Rightarrow> vec2 list" where
  "finger_moves fs p =
     List.map_filter (\<lambda>f. map_option (offset_from f) (find (\<lambda>old. fg_id old = fg_id f) (tp_fingers p))) fs"

text \<open>\<open>max_by\<close> keeps the later of two equal elements.\<close>

definition longest :: "(f64 \<Rightarrow> f64 \<Rightarrow> f64) \<Rightarrow> vec2 list \<Rightarrow> vec2" where
  "longest hypot moves =
     (case moves of
        [] \<Rightarrow> (Finite 0, Finite 0)
      | m # ms \<Rightarrow>
          fold (\<lambda>v best. if f_total_le (pad_length hypot best) (pad_length hypot v) then v else best) ms m)"

definition pointer_motion ::
  "(f64 \<Rightarrow> f64 \<Rightarrow> f64) \<Rightarrow> vec2 list \<Rightarrow> duration \<Rightarrow> TouchpadPointer \<Rightarrow> MotionDelta \<times> TouchpadPointer"
where
  "pointer_motion hypot moves now p =
     (let delta = longest hypot moves; g = gesture_starts hypot delta MOTION_START_MM (tp_gesture p)
      in if \<not> g_started g then (delta_default, p\<lparr>tp_gesture := g\<rparr>)
         else
           let interval = max (now - tp_at p) MIN_INTERVAL;
               gain = counts_per_mm (f_div (pad_length hypot delta) (as_secs_f64 interval));
               ((x, y), g') = gesture_whole (f_mul (fst delta) gain, f_mul (snd delta) gain) g
           in (delta_default\<lparr>dx := x, dy := y\<rparr>, p\<lparr>tp_gesture := g'\<rparr>))"

definition scroll_motion ::
  "(f64 \<Rightarrow> f64 \<Rightarrow> f64) \<Rightarrow> vec2 list \<Rightarrow> TouchpadPointer \<Rightarrow> MotionDelta \<times> TouchpadPointer"
where
  "scroll_motion hypot moves p =
     (let delta = fold (\<lambda>v sum. (f_add (fst sum) (f_div (fst v) (Finite 2)), f_add (snd sum) (f_div (snd v) (Finite 2))))
                    moves (Finite 0, Finite 0);
          starting = (\<not> g_started (tp_gesture p));
          g = gesture_starts hypot delta SCROLL_START_MM (tp_gesture p)
      in if \<not> g_started g then (delta_default, p\<lparr>tp_gesture := g\<rparr>)
         else
           let g1 = (if starting then g\<lparr>g_axis := locked_axis (g_travel g)\<rparr> else g);
               locked = (case g_axis g1 of
                           None \<Rightarrow> delta
                         | Some down \<Rightarrow> if down then (Finite 0, snd delta) else (fst delta, Finite 0));
               direction = (if ts_natural_scroll (tp_settings p) then Finite 1 else Finite (- 1));
               ((x, y), g2) = gesture_whole
                  (f_mul (f_mul (f_neg direction) (fst locked)) SCROLL_UNITS_PER_MM,
                   f_mul (f_mul direction (snd locked)) SCROLL_UNITS_PER_MM) g1
           in (delta_default\<lparr>scroll_x := x, scroll_y := y\<rparr>, p\<lparr>tp_gesture := g2\<rparr>))"

definition pad_motion ::
  "(f64 \<Rightarrow> f64 \<Rightarrow> f64) \<Rightarrow> Finger list \<Rightarrow> nat \<Rightarrow> duration \<Rightarrow> TouchpadPointer \<Rightarrow> MotionDelta \<times> TouchpadPointer"
where
  "pad_motion hypot fs count now p =
     (let kind = motion_kind count (length fs) (tp_pressed p)
      in if kind \<noteq> g_kind (tp_gesture p) \<or> \<not> same_fingers fs count p then
           (delta_default, p\<lparr>tp_gesture := gesture_default\<lparr>g_kind := kind\<rparr>\<rparr>)
         else
           let moves = finger_moves fs p
           in case kind of
                Still \<Rightarrow> (delta_default, p)
              | PointerKind \<Rightarrow> pointer_motion hypot moves now p
              | ScrollKind \<Rightarrow> scroll_motion hypot moves p)"

definition pad_report ::
  "(f64 \<Rightarrow> f64 \<Rightarrow> f64) \<Rightarrow> Finger list \<Rightarrow> nat \<Rightarrow> CaptureTransition list \<Rightarrow> duration \<Rightarrow> TouchpadPointer
     \<Rightarrow> PointerFrame \<times> TouchpadPointer"
where
  "pad_report hypot fs count buttons now p =
     (let (changed, outs, p1) = pad_buttons fs count buttons p;
          p2 = (if changed then p1\<lparr>tp_tap := None, tp_gesture := gesture_default\<rparr> else p1);
          (clicks, p3) = pad_tap hypot fs count now p2;
          (motion, p4) = pad_motion hypot fs count now p3
      in (\<lparr>pf_transitions = outs @ clicks, pf_motion = motion\<rparr>,
          p4\<lparr>tp_fingers := fs, tp_count := count, tp_at := now\<rparr>))"

section \<open>Clicks are balanced\<close>

text \<open>A press of a button that is up or a release of one that is down; \<open>None\<close> when the sequence is neither.\<close>

fun click_step :: "CaptureTransition \<Rightarrow> PointerButton fset \<Rightarrow> PointerButton fset option" where
  "click_step (TransKey key state) held = Some held"
| "click_step (TransButton button KeyPressed) held = (if button |\<in>| held then None else Some (finsert button held))"
| "click_step (TransButton button KeyReleased) held = (if button |\<in>| held then Some (held |-| {|button|}) else None)"
| "click_step (TransButton button KeyRepeat) held = (if button |\<in>| held then Some held else None)"

fun clicks :: "CaptureTransition list \<Rightarrow> PointerButton fset \<Rightarrow> PointerButton fset option" where
  "clicks [] held = Some held"
| "clicks (t # ts) held = Option.bind (click_step t held) (clicks ts)"

lemma clicks_append: "clicks (ts @ us) held = Option.bind (clicks ts held) (clicks us)"
  by (induction ts arbitrary: held) (auto split: Option.bind_splits)

lemma clicks_tap: "clicks (tap_clicks n) {||} = Some {||}"
  by (simp add: tap_clicks_def)

definition pressed_set :: "TouchpadPointer \<Rightarrow> PointerButton fset" where
  "pressed_set p = (case tp_pressed p of None \<Rightarrow> {||} | Some b \<Rightarrow> {|b|})"

text \<open>What the clickpad's one button is, as the kernel reports it.\<close>

definition physical :: "TouchpadPointer \<Rightarrow> PointerButton fset" where
  "physical p = (if tp_pressed p = None then {||} else {|PRIMARY|})"

definition only_primary :: "CaptureTransition \<Rightarrow> bool" where
  "only_primary t = (case t of TransKey _ _ \<Rightarrow> True | TransButton button _ \<Rightarrow> button = PRIMARY)"

lemma pad_button_clicks:
  assumes "tp_clickpad p" "only_primary t" "click_step t (physical p) = Some held"
    and "pad_button fs count t p = (changed, out, p')"
  shows "tp_clickpad p' \<and> held = physical p' \<and> click_step out (pressed_set p) = Some (pressed_set p') \<and>
    (\<not> changed \<longrightarrow> p' = p) \<and> tp_tap p' = tp_tap p"
proof (cases t)
  case (TransButton button state)
  then show ?thesis
    using assms
    by (cases state; cases "tp_pressed p")
      (auto simp: only_primary_def pad_button_def physical_def pressed_set_def Let_def split: if_splits)
qed (use assms in \<open>auto simp: pad_button_def\<close>)

lemma pad_buttons_clicks:
  assumes "tp_clickpad p" "list_all only_primary ts" "clicks ts (physical p) = Some held"
    and "pad_buttons fs count ts p = (changed, outs, p')"
  shows "tp_clickpad p' \<and> held = physical p' \<and> clicks outs (pressed_set p) = Some (pressed_set p') \<and>
    (\<not> changed \<longrightarrow> p' = p) \<and> tp_tap p' = tp_tap p"
  using assms
proof (induction fs count ts p arbitrary: held changed outs p' rule: pad_buttons.induct)
  case (2 fs count t ts p)
  obtain c1 out p1 where one: "pad_button fs count t p = (c1, out, p1)" by (metis prod_cases3)
  obtain c2 outs2 p2 where rest: "pad_buttons fs count ts p1 = (c2, outs2, p2)" by (metis prod_cases3)
  obtain h1 where h1: "click_step t (physical p) = Some h1" "clicks ts h1 = Some held"
    using 2(4) by (auto split: Option.bind_splits)
  have step: "tp_clickpad p1 \<and> h1 = physical p1 \<and> click_step out (pressed_set p) = Some (pressed_set p1) \<and>
      (\<not> c1 \<longrightarrow> p1 = p) \<and> tp_tap p1 = tp_tap p"
    using pad_button_clicks [OF 2(2) _ h1(1) one] 2(3) by simp
  have "tp_clickpad p2 \<and> held = physical p2 \<and> clicks outs2 (pressed_set p1) = Some (pressed_set p2) \<and>
      (\<not> c2 \<longrightarrow> p2 = p1) \<and> tp_tap p2 = tp_tap p1"
    using 2(1) [OF one [symmetric] refl refl _ _ _ rest] 2(3) h1 step by simp
  with step one rest 2(5) show ?case by auto
qed auto

lemma pad_tap_clicks:
  assumes "tp_pressed p \<noteq> None \<longrightarrow> tp_tap p = None" "pad_tap hypot fs count now p = (outs, p')"
  shows "tp_pressed p' = tp_pressed p \<and> tp_clickpad p' = tp_clickpad p \<and>
    (tp_pressed p' \<noteq> None \<longrightarrow> tp_tap p' = None) \<and> clicks outs (pressed_set p) = Some (pressed_set p)"
proof (cases "tp_pressed p")
  case None
  then have up: "pressed_set p = {||}" by (simp add: pressed_set_def)
  show ?thesis
    using assms(2) None
    by (auto simp: up pad_tap_def Let_def clicks_tap split: option.splits if_splits prod.splits)
next
  case (Some b)
  with assms show ?thesis by (auto simp: pad_tap_def)
qed

lemma pad_motion_keeps:
  "pad_motion hypot fs count now p = (m, p') \<Longrightarrow>
     tp_pressed p' = tp_pressed p \<and> tp_clickpad p' = tp_clickpad p \<and> tp_tap p' = tp_tap p"
  by (auto simp: pad_motion_def pointer_motion_def scroll_motion_def Let_def split: if_splits Kind.splits prod.splits)

lemma pad_report_clicks:
  assumes "tp_clickpad p" "tp_pressed p \<noteq> None \<longrightarrow> tp_tap p = None" "list_all only_primary ts"
    and "clicks ts (physical p) = Some held" "pad_report hypot fs count ts now p = (made, p')"
  shows "tp_clickpad p' \<and> (tp_pressed p' \<noteq> None \<longrightarrow> tp_tap p' = None) \<and> held = physical p' \<and>
    clicks (pf_transitions made) (pressed_set p) = Some (pressed_set p')"
proof -
  obtain changed outs p1 where one: "pad_buttons fs count ts p = (changed, outs, p1)" by (metis prod_cases3)
  note b = pad_buttons_clicks [OF assms(1,3,4) one]
  define p2 where "p2 = (if changed then p1\<lparr>tp_tap := None, tp_gesture := gesture_default\<rparr> else p1)"
  obtain taps p3 where two: "pad_tap hypot fs count now p2 = (taps, p3)" by force
  obtain m p4 where three: "pad_motion hypot fs count now p3 = (m, p4)" by force
  have idle: "tp_pressed p2 \<noteq> None \<longrightarrow> tp_tap p2 = None"
    using b assms(2) by (auto simp: p2_def)
  have p2: "pressed_set p2 = pressed_set p1" "physical p2 = physical p1" "tp_clickpad p2"
    using b by (auto simp: p2_def pressed_set_def physical_def)
  note t = pad_tap_clicks [OF idle two]
  note m = pad_motion_keeps [OF three]
  have "made = \<lparr>pf_transitions = outs @ taps, pf_motion = m\<rparr> \<and> p' = p4\<lparr>tp_fingers := fs, tp_count := count, tp_at := now\<rparr>"
    using assms(5) one two three by (auto simp: pad_report_def p2_def [symmetric])
  then show ?thesis
    using b t m p2 by (auto simp: clicks_append pressed_set_def physical_def)
qed

type_synonym pad_reports = "(Finger list \<times> nat \<times> CaptureTransition list \<times> duration) list"

fun pad_run ::
  "(f64 \<Rightarrow> f64 \<Rightarrow> f64) \<Rightarrow> pad_reports \<Rightarrow> TouchpadPointer \<Rightarrow> PointerFrame list \<times> TouchpadPointer"
where
  "pad_run hypot [] p = ([], p)"
| "pad_run hypot ((fs, count, ts, now) # reports) p =
     (let (made, p1) = pad_report hypot fs count ts now p; (frames, p2) = pad_run hypot reports p1
      in (made # frames, p2))"

definition report_buttons :: "pad_reports \<Rightarrow> CaptureTransition list" where
  "report_buttons reports = concat (map (\<lambda>(fs, count, ts, now). ts) reports)"

lemma pad_run_clicks:
  assumes "tp_clickpad p" "tp_pressed p \<noteq> None \<longrightarrow> tp_tap p = None"
    and "list_all only_primary (report_buttons reports)" "clicks (report_buttons reports) (physical p) = Some held"
    and "pad_run hypot reports p = (frames, p')"
  shows "held = physical p' \<and> clicks (concat (map pf_transitions frames)) (pressed_set p) = Some (pressed_set p')"
  using assms
proof (induction reports arbitrary: p held frames)
  case (Cons report reports)
  obtain fs count ts now where report: "report = (fs, count, ts, now)" by (metis prod_cases4)
  obtain made p1 where one: "pad_report hypot fs count ts now p = (made, p1)" by force
  obtain frames' where rest: "pad_run hypot reports p1 = (frames', p')"
    using Cons.prems(5) one by (auto simp: report split: prod.splits)
  have all: "list_all only_primary ts" "list_all only_primary (report_buttons reports)"
    using Cons.prems(3) by (simp_all add: report_buttons_def report)
  obtain h where h: "clicks ts (physical p) = Some h" "clicks (report_buttons reports) h = Some held"
    using Cons.prems(4) by (auto simp: report_buttons_def report clicks_append split: Option.bind_splits)
  note step = pad_report_clicks [OF Cons.prems(1,2) all(1) h(1) one]
  have "held = physical p' \<and> clicks (concat (map pf_transitions frames')) (pressed_set p1) = Some (pressed_set p')"
    using Cons.IH [OF _ _ all(2) _ rest] step h(2) by simp
  then show ?case
    using Cons.prems(5) step one rest by (auto simp: report clicks_append)
qed (auto simp: report_buttons_def)

text \<open>
  C37: The clicks of a clickpad are balanced. Whatever the fingers do, when the pad's one button is pressed and
  released in turn, every press that the pointer makes, as the button for the number of fingers or from a tap, is
  of a button that is up and is released as the same button, and when the pad is up no button is down.
\<close>

theorem clickpad_clicks_are_balanced:
  assumes "list_all only_primary (report_buttons reports)" "clicks (report_buttons reports) {||} = Some held"
    and "pad_run hypot reports (touchpad_new True settings) = (frames, p)"
  shows "clicks (concat (map pf_transitions frames)) {||} = Some (pressed_set p) \<and> (held = {||} \<longleftrightarrow> pressed_set p = {||})"
proof -
  have new: "pressed_set (touchpad_new True settings) = {||}" "physical (touchpad_new True settings) = {||}"
    by (simp_all add: pressed_set_def physical_def touchpad_new_def)
  have "held = physical p \<and> clicks (concat (map pf_transitions frames)) {||} = Some (pressed_set p)"
    using pad_run_clicks [of "touchpad_new True settings" reports held hypot frames p] assms new
    by (simp add: touchpad_new_def)
  then show ?thesis
    by (auto simp: physical_def pressed_set_def split: option.splits if_splits)
qed

definition sample_finger :: "u32 \<Rightarrow> i32 \<Rightarrow> Finger" where
  "sample_finger i x = \<lparr>fg_id = i, fg_x = x, fg_y = 0\<rparr>"

definition sample_press :: pad_reports where
  "sample_press = [([], 3, [TransButton PRIMARY KeyPressed], 0), ([], 0, [TransButton PRIMARY KeyReleased], 5)]"

lemma clickpad_clicks_are_balanced_witness:
  "clicks (concat (map pf_transitions (fst (pad_run f_add sample_press (touchpad_new True touchpad_settings_default))))) {||} =
     Some {||} \<and> fst (pad_run f_add sample_press (touchpad_new True touchpad_settings_default)) \<noteq> []"
proof -
  obtain frames p where run: "pad_run f_add sample_press (touchpad_new True touchpad_settings_default) = (frames, p)"
    by force
  have "list_all only_primary (report_buttons sample_press)" "clicks (report_buttons sample_press) {||} = Some {||}"
    by (simp_all add: sample_press_def report_buttons_def only_primary_def)
  from clickpad_clicks_are_balanced [OF this run] run show ?thesis
    by (auto simp: sample_press_def split: prod.splits)
qed

section \<open>The pointer moves with its fingers only\<close>

lemma pad_buttons_unchanged:
  "pad_buttons fs count ts p = (False, outs, p1) \<Longrightarrow>
     p1 = p \<and> outs = ts \<and> list_all (\<lambda>t. case t of TransKey _ _ \<Rightarrow> True | TransButton _ _ \<Rightarrow> False) ts"
  by (induction fs count ts p arbitrary: outs p1 rule: pad_buttons.induct)
    (auto simp: pad_button_def Let_def split: prod.splits CaptureTransition.splits if_splits KeyState.splits)

lemma pointer_motion_moves:
  "pointer_motion hypot moves now p = (m, p') \<Longrightarrow> m \<noteq> delta_default \<Longrightarrow>
     g_started (tp_gesture p') \<and> scroll_x m = 0 \<and> scroll_y m = 0"
  by (auto simp: pointer_motion_def gesture_whole_def delta_default_def Let_def split: if_splits prod.splits)

lemma scroll_motion_moves:
  "scroll_motion hypot moves p = (m, p') \<Longrightarrow> m \<noteq> delta_default \<Longrightarrow>
     g_started (tp_gesture p') \<and> dx m = 0 \<and> dy m = 0"
  by (auto simp: scroll_motion_def gesture_whole_def delta_default_def Let_def split: if_splits prod.splits)

lemma pad_motion_moves:
  assumes "pad_motion hypot fs count now p = (m, p')" "m \<noteq> delta_default"
  shows "same_fingers fs count p \<and> count = length fs \<and> g_started (tp_gesture p') \<and> g_kind (tp_gesture p) \<noteq> Still \<and>
    (dx m \<noteq> 0 \<or> dy m \<noteq> 0 \<longrightarrow> length fs = 1 \<or> length fs = 2 \<and> tp_pressed p \<noteq> None) \<and>
    (scroll_x m \<noteq> 0 \<or> scroll_y m \<noteq> 0 \<longrightarrow> length fs = 2 \<and> tp_pressed p = None)"
proof -
  define kind where "kind = motion_kind count (length fs) (tp_pressed p)"
  have same: "kind = g_kind (tp_gesture p)" "same_fingers fs count p"
    using assms by (auto simp: pad_motion_def kind_def [symmetric] Let_def split: if_splits)
  show ?thesis
  proof (cases kind)
    case Still
    then show ?thesis
      using assms same by (simp add: pad_motion_def kind_def [symmetric])
  next
    case PointerKind
    then have "count = length fs \<and> (length fs = 1 \<or> length fs = 2 \<and> tp_pressed p \<noteq> None)"
      by (auto simp: kind_def motion_kind_def split: if_splits)
    moreover have "pointer_motion hypot (finger_moves fs p) now p = (m, p')"
      using assms(1) same PointerKind by (simp add: pad_motion_def kind_def [symmetric])
    ultimately show ?thesis
      using pointer_motion_moves [OF _ assms(2)] same PointerKind by auto
  next
    case ScrollKind
    then have "count = length fs \<and> length fs = 2 \<and> tp_pressed p = None"
      by (auto simp: kind_def motion_kind_def split: if_splits)
    moreover have "scroll_motion hypot (finger_moves fs p) p = (m, p')"
      using assms(1) same ScrollKind by (simp add: pad_motion_def kind_def [symmetric])
    ultimately show ?thesis
      using scroll_motion_moves [OF _ assms(2)] same ScrollKind by auto
  qed
qed

lemma pad_tap_keeps:
  "pad_tap hypot fs count now p = (outs, p') \<Longrightarrow>
     tp_pressed p' = tp_pressed p \<and> tp_gesture p' = tp_gesture p \<and> tp_fingers p' = tp_fingers p \<and> tp_count p' = tp_count p"
  by (auto simp: pad_tap_def Let_def split: if_splits option.splits prod.splits)

text \<open>
  The pointer of a touchpad never jumps. A report moves or scrolls only when no button changed in it, the same
  fingers were on the pad in the report before, all of them seen, and they have travelled the start distance;
  the pointer moves only for one finger, or for two that press the pad, and scrolls only for two that do not.
\<close>

theorem pointer_never_jumps:
  assumes "pad_report hypot fs count ts now p = (made, p')" "pf_motion made \<noteq> delta_default"
  shows "list_all (\<lambda>t. case t of TransKey _ _ \<Rightarrow> True | TransButton _ _ \<Rightarrow> False) ts \<and>
    same_fingers fs count p \<and> count = length fs \<and> g_started (tp_gesture p') \<and>
    (dx (pf_motion made) \<noteq> 0 \<or> dy (pf_motion made) \<noteq> 0 \<longrightarrow>
       length fs = 1 \<or> length fs = 2 \<and> tp_pressed p \<noteq> None) \<and>
    (scroll_x (pf_motion made) \<noteq> 0 \<or> scroll_y (pf_motion made) \<noteq> 0 \<longrightarrow>
       length fs = 2 \<and> tp_pressed p = None)"
proof -
  obtain changed outs p1 where one: "pad_buttons fs count ts p = (changed, outs, p1)" by (metis prod_cases3)
  define p2 where "p2 = (if changed then p1\<lparr>tp_tap := None, tp_gesture := gesture_default\<rparr> else p1)"
  obtain taps p3 where two: "pad_tap hypot fs count now p2 = (taps, p3)" by force
  obtain m p4 where three: "pad_motion hypot fs count now p3 = (m, p4)" by force
  have made: "made = \<lparr>pf_transitions = outs @ taps, pf_motion = m\<rparr>"
    "p' = p4\<lparr>tp_fingers := fs, tp_count := count, tp_at := now\<rparr>"
    using assms(1) one two three by (auto simp: pad_report_def p2_def [symmetric])
  with assms(2) have "m \<noteq> delta_default" by simp
  note moved = pad_motion_moves [OF three this] and kept = pad_tap_keeps [OF two]
  have "\<not> changed"
    using moved kept by (auto simp: p2_def gesture_default_def)
  then have p: "p1 = p" "p2 = p" and keys: "list_all (\<lambda>t. case t of TransKey _ _ \<Rightarrow> True | TransButton _ _ \<Rightarrow> False) ts"
    using pad_buttons_unchanged [of fs count ts p outs p1] one by (auto simp: p2_def)
  have "same_fingers fs count p"
    using moved kept p by (simp add: same_fingers_def)
  then show ?thesis
    using moved kept p keys made by simp
qed

lemmas sample_rounded =
  rounded_int [of 1, simplified] rounded_int [of "numeral k" for k, simplified] f_of_int_def

definition sample_moving :: TouchpadPointer where
  "sample_moving = (touchpad_new False touchpad_settings_default)
     \<lparr>tp_fingers := [sample_finger 7 0], tp_count := 1, tp_gesture := gesture_default\<lparr>g_kind := PointerKind\<rparr>\<rparr>"

lemma sample_move: "pad_motion f_add [sample_finger 7 2500] 1 (from_secs 1) sample_moving =
  (delta_default\<lparr>dx := 200, dy := 0\<rparr>, sample_moving\<lparr>tp_gesture := gesture_default
     \<lparr>g_kind := PointerKind, g_travel := (Finite 25, Finite 0), g_started := True\<rparr>\<rparr>)"
  by (simp add: pad_motion_def sample_moving_def touchpad_new_def motion_kind_def same_fingers_def sample_finger_def
      pointer_motion_def finger_moves_def List.map_filter_simps longest_def offset_from_def gesture_starts_def
      pad_length_def gesture_default_def gesture_whole_def whole_axis_def counts_per_mm_def as_secs_f64_def
      sample_rounded f_sub_def f_clamp_def MIN_INTERVAL_def MOTION_START_MM_def SLOW_COUNTS_PER_MM_def
      FAST_COUNTS_PER_MM_def SLOW_MM_PER_S_def FAST_MM_PER_S_def from_secs_def from_millis_def Let_def F64.truncate_def)

lemma pointer_never_jumps_witness:
  "dx (pf_motion (fst (pad_report f_add [sample_finger 7 2500] 1 [] (from_secs 1) sample_moving))) = 200 \<and>
   same_fingers [sample_finger 7 2500] 1 sample_moving"
proof -
  have "pad_tap f_add [sample_finger 7 2500] 1 (from_secs 1) sample_moving = ([], sample_moving)"
    by (simp add: pad_tap_def sample_moving_def touchpad_new_def)
  then obtain made p' where report: "pad_report f_add [sample_finger 7 2500] 1 [] (from_secs 1) sample_moving = (made, p')"
    and motion: "pf_motion made = delta_default\<lparr>dx := 200, dy := 0\<rparr>"
    by (auto simp: pad_report_def sample_move [unfolded One_nat_def])
  then have "pf_motion made \<noteq> delta_default"
    by (simp add: delta_default_def)
  from pointer_never_jumps [OF report this] report motion show ?thesis by simp
qed

text \<open>
  On a pad with buttons of its own a tap does not know that a button is held: a tap while the left button is down
  makes a second press of it and a release.
\<close>

lemma tap_releases_held_button:
  assumes "tp_clickpad p = False" "ts_tap_to_click (tp_settings p)" "tp_pressed p = None"
    and "tp_tap p = Some \<lparr>tap_landed = t, tap_most = 1, tap_origins = []\<rparr>"
  shows "pf_transitions (fst (pad_report hypot [] 0 [] t p)) =
    [TransButton PRIMARY KeyPressed, TransButton PRIMARY KeyReleased]"
  using assms by (simp add: pad_report_def pad_tap_def tap_clicks_def Let_def split: prod.splits)



end
