(* ===== verification/Capture_Select.thy ===== *)
theory Capture_Select
  imports Evdev
begin

text \<open>
  Which input devices a Linux source captures (\<open>src/src/linux/devices.rs\<close>, the selection in
  \<open>src/src/runtime/linux.rs\<close>): the class of a device from its capabilities, the recognition of zflow's own
  virtual devices, and the selection of the configured devices, all or none. What the kernel reports of a device
  is the argument of \<open>classify_device\<close>.
\<close>

section \<open>Devices\<close>

abbreviation KEY_ESC :: KeyCode where "KEY_ESC \<equiv> 1"
abbreviation KEY_D :: KeyCode where "KEY_D \<equiv> 32"
abbreviation KEY_SPACE :: KeyCode where "KEY_SPACE \<equiv> 57"
abbreviation BTN_TRIGGER :: KeyCode where "BTN_TRIGGER \<equiv> 0x120"
abbreviation BTN_STYLUS :: KeyCode where "BTN_STYLUS \<equiv> 0x14b"
abbreviation BTN_TOOL_PEN :: KeyCode where "BTN_TOOL_PEN \<equiv> 0x140"
abbreviation TOOL_FINGER :: KeyCode where "TOOL_FINGER \<equiv> 0x145"
abbreviation ABS_X :: u16 where "ABS_X \<equiv> 0"
abbreviation ABS_Y :: u16 where "ABS_Y \<equiv> 1"
abbreviation PROP_DIRECT :: u16 where "PROP_DIRECT \<equiv> 1"
abbreviation BUS_VIRTUAL :: u16 where "BUS_VIRTUAL \<equiv> 6"

definition ZFLOW_VENDOR_ID :: u16 where "ZFLOW_VENDOR_ID = 0x1209"
definition ZFLOW_KEYBOARD_PRODUCT_ID :: u16 where "ZFLOW_KEYBOARD_PRODUCT_ID = 0x5a01"
definition ZFLOW_POINTER_PRODUCT_ID :: u16 where "ZFLOW_POINTER_PRODUCT_ID = 0x5a02"
definition ZFLOW_TOUCHPAD_PRODUCT_ID :: u16 where "ZFLOW_TOUCHPAD_PRODUCT_ID = 0x5a03"
definition ZFLOW_DEVICE_VERSION :: u16 where "ZFLOW_DEVICE_VERSION = 1"

datatype VirtualDeviceRole = RoleKeyboard | RolePointer | RoleTouchpad

fun role_product_id :: "VirtualDeviceRole \<Rightarrow> u16" where
  "role_product_id RoleKeyboard = ZFLOW_KEYBOARD_PRODUCT_ID"
| "role_product_id RolePointer = ZFLOW_POINTER_PRODUCT_ID"
| "role_product_id RoleTouchpad = ZFLOW_TOUCHPAD_PRODUCT_ID"

fun role_name :: "VirtualDeviceRole \<Rightarrow> string" where
  "role_name RoleKeyboard = ''zflow remote keyboard''"
| "role_name RolePointer = ''zflow remote pointer''"
| "role_name RoleTouchpad = ''zflow remote touchpad''"

fun role_physical_path :: "VirtualDeviceRole \<Rightarrow> string" where
  "role_physical_path RoleKeyboard = ''zflow/remote/keyboard''"
| "role_physical_path RolePointer = ''zflow/remote/pointer''"
| "role_physical_path RoleTouchpad = ''zflow/remote/touchpad''"

datatype DeviceClass = ClassKeyboard | ClassPointer | ClassTouchpad

text \<open>A range of codes, as \<open>from ..= to\<close>.\<close>

definition code_range :: "u16 \<Rightarrow> u16 \<Rightarrow> u16 list" where
  "code_range from_code to_code = map of_nat [unat from_code ..< Suc (unat to_code)]"

definition classify_device ::
  "u16 fset option \<Rightarrow> u16 fset option \<Rightarrow> u16 fset option \<Rightarrow> u16 fset \<Rightarrow> DeviceClass option"
where
  "classify_device keys relative absolute properties =
     (let has = (\<lambda>codes code. case codes of None \<Rightarrow> False | Some cs \<Rightarrow> code |\<in>| cs);
          has_key = has keys; has_relative = has relative; has_absolute = has absolute
      in if list_all has_key (code_range KEY_ESC KEY_D) \<and> has_key KEY_SPACE then Some ClassKeyboard
         else if has_relative REL_X \<and> has_relative REL_Y \<and> list_ex has_key (code_range BTN_LEFT (BTN_TRIGGER - 1))
         then Some ClassPointer
         else if has_absolute ABS_X \<and> has_absolute ABS_Y \<and> has_key TOOL_FINGER \<and>
                 \<not> (has_key BTN_TOOL_PEN \<or> has_key BTN_STYLUS) \<and> PROP_DIRECT |\<notin>| properties
         then Some ClassTouchpad
         else None)"

record DeviceInfo =
  dv_path :: string
  dv_name :: "string option"
  dv_physical_path :: "string option"
  dv_unique_name :: "string option"
  dv_bus :: u16
  dv_vendor :: u16
  dv_product :: u16
  dv_version :: u16
  dv_class :: "DeviceClass option"

definition zflow_role :: "DeviceInfo \<Rightarrow> VirtualDeviceRole option" where
  "zflow_role d =
     (if dv_bus d \<noteq> BUS_VIRTUAL \<or> dv_vendor d \<noteq> ZFLOW_VENDOR_ID \<or> dv_version d \<noteq> ZFLOW_DEVICE_VERSION then None
      else find (\<lambda>role. dv_product d = role_product_id role \<and> dv_name d = Some (role_name role) \<and>
                       dv_physical_path d = Some (role_physical_path role))
             [RoleKeyboard, RolePointer, RoleTouchpad])"

definition is_zflow_virtual :: "DeviceInfo \<Rightarrow> bool" where
  "is_zflow_virtual d \<longleftrightarrow> zflow_role d \<noteq> None"

definition physical_devices :: "DeviceInfo list \<Rightarrow> DeviceInfo list" where
  "physical_devices devices = filter (\<lambda>d. \<not> is_zflow_virtual d) devices"

section \<open>Selection\<close>

record DeviceSelector =
  sel_path :: string
  sel_name :: "string option"
  sel_phys :: "string option"
  sel_uniq :: "string option"
  sel_vendor :: "u16 option"
  sel_product :: "u16 option"

record CaptureSelection =
  cs_selected :: "DeviceInfo list"
  cs_configured :: nat
  cs_unmatched :: nat
  cs_ambiguous :: nat

definition selection_is_complete :: "CaptureSelection \<Rightarrow> bool" where
  "selection_is_complete s \<longleftrightarrow> cs_selected s \<noteq> [] \<and> cs_unmatched s = 0 \<and> cs_ambiguous s = 0"

definition selection_capture_set :: "CaptureSelection \<Rightarrow> DeviceInfo list" where
  "selection_capture_set s = (if selection_is_complete s then cs_selected s else [])"

definition names_none_or :: "'a option \<Rightarrow> 'a option \<Rightarrow> bool" where
  "names_none_or wanted found \<longleftrightarrow> wanted = None \<or> found = wanted"

definition capture_selector_matches :: "DeviceSelector \<Rightarrow> DeviceInfo \<Rightarrow> bool" where
  "capture_selector_matches s d \<longleftrightarrow>
     (if is_zflow_virtual d then False
      else
        let stable_identity_available =
              ((case sel_phys s of None \<Rightarrow> False | Some physical \<Rightarrow> physical \<noteq> []) \<and>
               sel_vendor s \<noteq> None \<and> sel_product s \<noteq> None);
            metadata_matches =
              (names_none_or (sel_name s) (dv_name d) \<and> names_none_or (sel_phys s) (dv_physical_path d) \<and>
               names_none_or (sel_uniq s) (dv_unique_name d) \<and> names_none_or (sel_vendor s) (Some (dv_vendor d)) \<and>
               names_none_or (sel_product s) (Some (dv_product d)))
        in metadata_matches \<and> (stable_identity_available \<or> sel_path s = dv_path d))"

text \<open>The loop over the selectors: what each resolves to, and how many have no device or more than one.\<close>

fun resolve_selectors ::
  "DeviceSelector list \<Rightarrow> DeviceInfo list \<Rightarrow> DeviceInfo option list \<times> nat \<times> nat"
where
  "resolve_selectors [] devices = ([], 0, 0)"
| "resolve_selectors (s # ss) devices =
     (let (resolved, unmatched, ambiguous) = resolve_selectors ss devices
      in case filter (capture_selector_matches s) devices of
           [] \<Rightarrow> (None # resolved, unmatched + 1, ambiguous)
         | [d] \<Rightarrow> (Some d # resolved, unmatched, ambiguous)
         | _ \<Rightarrow> (None # resolved, unmatched, ambiguous + 1))"

definition path_count :: "DeviceInfo option list \<Rightarrow> string \<Rightarrow> nat" where
  "path_count resolved path = length (filter (\<lambda>r. map_option dv_path r = Some path) resolved)"

definition select_configured :: "DeviceSelector list \<Rightarrow> DeviceInfo list \<Rightarrow> CaptureSelection" where
  "select_configured selectors devices =
     (if selectors = [] then
        \<lparr>cs_selected = filter (\<lambda>d. dv_class d \<noteq> None \<and> \<not> is_zflow_virtual d) devices,
         cs_configured = 0, cs_unmatched = 0, cs_ambiguous = 0\<rparr>
      else
        let (resolved, unmatched, ambiguous) = resolve_selectors selectors devices;
            found = List.map_filter (\<lambda>d. d) resolved;
            unique = (\<lambda>d. path_count resolved (dv_path d) = 1)
        in \<lparr>cs_selected = filter unique found, cs_configured = length selectors, cs_unmatched = unmatched,
            cs_ambiguous = ambiguous + length (filter (\<lambda>d. \<not> unique d) found)\<rparr>)"

section \<open>All or none\<close>

lemma resolve_selectors_complete:
  assumes "resolve_selectors ss devices = (resolved, 0, 0)"
  shows "\<exists>ds. resolved = map Some ds \<and> length ds = length ss \<and>
    (\<forall>i < length ss. filter (capture_selector_matches (ss ! i)) devices = [ds ! i])"
  using assms
proof (induction ss arbitrary: resolved)
  case (Cons s ss)
  obtain r u a where rest: "resolve_selectors ss devices = (r, u, a)" by (metis prod_cases3)
  from Cons.prems rest obtain d where d: "filter (capture_selector_matches s) devices = [d]"
    and r: "resolved = Some d # r" "u = 0" "a = 0"
    by (auto split: list.splits)
  with Cons.IH rest obtain ds where "r = map Some ds" "length ds = length ss"
    "\<forall>i < length ss. filter (capture_selector_matches (ss ! i)) devices = [ds ! i]"
    by blast
  then have "resolved = map Some (d # ds) \<and> length (d # ds) = length (s # ss) \<and>
      (\<forall>i < length (s # ss). filter (capture_selector_matches ((s # ss) ! i)) devices = [(d # ds) ! i])"
    using d r by (simp add: nth_Cons split: nat.split)
  then show ?case by blast
qed simp

lemma resolved_devices:
  "resolve_selectors ss devices = (resolved, u, a) \<Longrightarrow> Some d \<in> set resolved \<Longrightarrow>
     d \<in> set devices \<and> (\<exists>s \<in> set ss. capture_selector_matches s d)"
proof (induction ss arbitrary: resolved u a)
  case (Cons s ss)
  obtain r u' a' where rest: "resolve_selectors ss devices = (r, u', a')" by (metis prod_cases3)
  show ?case
  proof (cases "Some d \<in> set r")
    case True
    with Cons.IH [OF rest] show ?thesis by auto
  next
    case False
    with Cons.prems rest have "filter (capture_selector_matches s) devices = [d]"
      by (auto split: list.splits)
    then have "d \<in> set (filter (capture_selector_matches s) devices)" by simp
    then show ?thesis by auto
  qed
qed simp

lemma map_filter_Some [simp]: "List.map_filter (\<lambda>d. d) (map Some ds) = ds"
  by (simp add: List.map_filter_def comp_def)

lemma set_map_filter_option: "d \<in> set (List.map_filter (\<lambda>d. d) resolved) \<longleftrightarrow> Some d \<in> set resolved"
  by (induction resolved) (auto simp: List.map_filter_simps split: option.split)

lemma path_count_map: "path_count (map Some ds) path = count_list (map dv_path ds) path"
  by (induction ds) (auto simp: path_count_def)

lemma distinct_of_counts: "(\<And>x. x \<in> set xs \<Longrightarrow> count_list xs x \<le> 1) \<Longrightarrow> distinct xs"
proof (induction xs)
  case (Cons x xs)
  from Cons.prems [of x] have "count_list xs x = 0" by simp
  then have "x \<notin> set xs" by (simp add: count_list_0_iff)
  moreover have "count_list xs y \<le> 1" if "y \<in> set xs" for y
    using Cons.prems [of y] that by (cases "y = x") auto
  ultimately show ?case using Cons.IH by simp
qed simp

lemma selected_devices:
  assumes "d \<in> set (cs_selected (select_configured selectors devices))"
  shows "d \<in> set devices \<and> \<not> is_zflow_virtual d"
proof (cases "selectors = []")
  case False
  obtain r u a where res: "resolve_selectors selectors devices = (r, u, a)" by (metis prod_cases3)
  then have "Some d \<in> set r"
    using assms False by (auto simp: select_configured_def Let_def set_map_filter_option)
  from resolved_devices [OF res this] show ?thesis
    by (auto simp: capture_selector_matches_def split: if_splits)
qed (use assms in \<open>auto simp: select_configured_def\<close>)

lemma complete_selection:
  assumes "selectors \<noteq> []" "selection_capture_set (select_configured selectors devices) \<noteq> []"
  shows "length (selection_capture_set (select_configured selectors devices)) = length selectors \<and>
    distinct (map dv_path (selection_capture_set (select_configured selectors devices))) \<and>
    (\<forall>i < length selectors. filter (capture_selector_matches (selectors ! i)) devices =
       [selection_capture_set (select_configured selectors devices) ! i])"
proof -
  let ?s = "select_configured selectors devices"
  obtain r u a where res: "resolve_selectors selectors devices = (r, u, a)" by (metis prod_cases3)
  have complete: "selection_is_complete ?s" "selection_capture_set ?s = cs_selected ?s"
    using assms(2) by (auto simp: selection_capture_set_def split: if_splits)
  then have zero: "u = 0" "a = 0" and unique: "\<forall>d \<in> set (List.map_filter (\<lambda>d. d) r). path_count r (dv_path d) = 1"
    using assms(1) res by (auto simp: selection_is_complete_def select_configured_def Let_def filter_empty_conv)
  then obtain ds where ds: "r = map Some ds" "length ds = length selectors"
    "\<forall>i < length selectors. filter (capture_selector_matches (selectors ! i)) devices = [ds ! i]"
    using resolve_selectors_complete [of selectors devices r] res by auto
  have counts: "count_list (map dv_path ds) (dv_path d) = 1" if "d \<in> set ds" for d
    using unique that by (simp add: ds(1) path_count_map)
  then have "cs_selected ?s = ds"
    using assms(1) res by (simp add: select_configured_def Let_def ds(1) path_count_map filter_id_conv)
  moreover have "distinct (map dv_path ds)"
    using counts by (intro distinct_of_counts) auto
  ultimately show ?thesis using complete ds by simp
qed

text \<open>
  The devices that are captured are the configured ones, all or none, and never zflow's own. No selection
  holds a virtual device of zflow, whatever the devices claim; without selectors it is every keyboard, pointer
  and touchpad. With selectors a selection that is used has for each selector exactly the one device that
  matches it, and no two selectors share a device.
\<close>

theorem selection_is_all_or_none:
  "(\<forall>d \<in> set (cs_selected (select_configured selectors devices)). d \<in> set devices \<and> \<not> is_zflow_virtual d) \<and>
   (selectors \<noteq> [] \<and> selection_capture_set (select_configured selectors devices) \<noteq> [] \<longrightarrow>
      (let chosen = selection_capture_set (select_configured selectors devices)
       in length chosen = length selectors \<and> distinct (map dv_path chosen) \<and>
          (\<forall>i < length selectors. filter (capture_selector_matches (selectors ! i)) devices = [chosen ! i])))"
  using selected_devices complete_selection by (simp add: Let_def)

definition sample_device :: "string \<Rightarrow> string \<Rightarrow> DeviceInfo" where
  "sample_device path name =
     \<lparr>dv_path = path, dv_name = Some name, dv_physical_path = None, dv_unique_name = None, dv_bus = 3,
      dv_vendor = 1, dv_product = 2, dv_version = 1, dv_class = Some ClassKeyboard\<rparr>"

definition sample_selector :: "string \<Rightarrow> string \<Rightarrow> DeviceSelector" where
  "sample_selector path name =
     \<lparr>sel_path = path, sel_name = Some name, sel_phys = None, sel_uniq = None, sel_vendor = None, sel_product = None\<rparr>"

lemma selection_is_all_or_none_witness:
  "length (selection_capture_set (select_configured [sample_selector ''e1'' ''kbd'', sample_selector ''e2'' ''mouse'']
       [sample_device ''e0'' ''lid'', sample_device ''e1'' ''kbd'', sample_device ''e2'' ''mouse''])) = 2"
proof -
  let ?ss = "[sample_selector ''e1'' ''kbd'', sample_selector ''e2'' ''mouse'']"
  let ?ds = "[sample_device ''e0'' ''lid'', sample_device ''e1'' ''kbd'', sample_device ''e2'' ''mouse'']"
  have "selection_capture_set (select_configured ?ss ?ds) \<noteq> []"
    by (simp add: selection_capture_set_def selection_is_complete_def select_configured_def sample_selector_def
        sample_device_def capture_selector_matches_def is_zflow_virtual_def zflow_role_def names_none_or_def
        List.map_filter_simps path_count_def Let_def)
  then show ?thesis
    using selection_is_all_or_none [of ?ss ?ds] by (simp add: Let_def)
qed

end
