(* ===== verification/Capture_Set.thy ===== *)
theory Capture_Set
  imports Ownership Touchpad Capture_Select
begin

text \<open>
  The open input nodes of a Linux source (\<open>src/src/linux/capture.rs\<close>).

  \<open>CaptureSet\<close> keeps the nodes, what they hold, and whether they are grabbed: \<open>grab_all\<close> grabs every node or
  none, \<open>ungrab_all\<close> gives them back, \<open>read_ready\<close> turns a batch of events into frames, \<open>reconcile\<close> follows the
  devices that come and go. What the kernel answers, the result of a grab or an ungrab, the keys it holds down,
  the events of a read and the opening of a node, is an argument, by the path of the node. An \<open>io::Error\<close> is its
  error number.
\<close>

section \<open>Nodes\<close>

type_synonym io_error = int

abbreviation ENOENT :: io_error where "ENOENT \<equiv> 2"
abbreviation ENXIO :: io_error where "ENXIO \<equiv> 6"
abbreviation EBUSY :: io_error where "EBUSY \<equiv> 16"
abbreviation ENODEV :: io_error where "ENODEV \<equiv> 19"

type_synonym io_answer = "string \<Rightarrow> io_error option"
type_synonym key_answer = "string \<Rightarrow> io_error + KeyCode fset"

text \<open>\<open>cn_grabbed\<close> is \<open>device.is_grabbed()\<close>: the last grab or ungrab that the kernel accepted.\<close>

record CaptureNode =
  cn_path :: string
  cn_grabbed :: bool
  cn_frames :: FrameAccumulator
  cn_touch :: "TouchAccumulator option"
  cn_pointer :: "TouchpadPointer option"

definition take_grab :: "io_answer \<Rightarrow> CaptureNode \<Rightarrow> (io_error + unit) \<times> CaptureNode" where
  "take_grab answer n =
     (case answer (cn_path n) of Some e \<Rightarrow> (Inl e, n) | None \<Rightarrow> (Inr (), n\<lparr>cn_grabbed := True\<rparr>))"

definition release_grab :: "io_answer \<Rightarrow> CaptureNode \<Rightarrow> (io_error + unit) \<times> CaptureNode" where
  "release_grab answer n =
     (case answer (cn_path n) of Some e \<Rightarrow> (Inl e, n) | None \<Rightarrow> (Inr (), n\<lparr>cn_grabbed := False\<rparr>))"

type_synonym UngrabFailure = "string \<times> io_error"

record GrabError =
  ge_path :: string
  ge_source :: io_error
  ge_rolled_back :: nat
  ge_rollback_failures :: "UngrabFailure list"

section \<open>The grab transaction\<close>

text \<open>The loop of \<open>roll_back\<close> over the indices, last grabbed first.\<close>

fun roll_back_from :: "io_answer \<Rightarrow> nat list \<Rightarrow> CaptureNode list \<Rightarrow> UngrabFailure list \<times> CaptureNode list" where
  "roll_back_from answer [] targets = ([], targets)"
| "roll_back_from answer (index # indices) targets =
     (case release_grab answer (targets ! index) of
        (Inr _, n) \<Rightarrow> roll_back_from answer indices (targets[index := n])
      | (Inl e, n) \<Rightarrow>
          (let (failures, targets') = roll_back_from answer indices (targets[index := n])
           in ((cn_path n, e) # failures, targets')))"

definition roll_back ::
  "io_answer \<Rightarrow> nat list \<Rightarrow> string \<Rightarrow> io_error \<Rightarrow> CaptureNode list \<Rightarrow> GrabError \<times> CaptureNode list"
where
  "roll_back answer grabbed path source targets =
     (let (failures, targets') = roll_back_from answer (rev grabbed) targets
      in (\<lparr>ge_path = path, ge_source = source, ge_rolled_back = length grabbed, ge_rollback_failures = failures\<rparr>,
          targets'))"

fun grab_from ::
  "io_answer \<Rightarrow> io_answer \<Rightarrow> bool \<Rightarrow> nat list \<Rightarrow> nat list \<Rightarrow> string list \<Rightarrow> CaptureNode list
     \<Rightarrow> (GrabError + nat list \<times> string list) \<times> CaptureNode list"
where
  "grab_from grab rollback skip_busy [] grabbed skipped targets = (Inr (grabbed, skipped), targets)"
| "grab_from grab rollback skip_busy (index # indices) grabbed skipped targets =
     (case take_grab grab (targets ! index) of
        (Inr _, n) \<Rightarrow> grab_from grab rollback skip_busy indices (grabbed @ [index]) skipped (targets[index := n])
      | (Inl e, n) \<Rightarrow>
          if skip_busy \<and> e = EBUSY
          then grab_from grab rollback skip_busy indices grabbed (skipped @ [cn_path n]) targets
          else (let (err, targets') = roll_back rollback grabbed (cn_path n) e targets in (Inl err, targets')))"

definition grab_transaction ::
  "io_answer \<Rightarrow> io_answer \<Rightarrow> bool \<Rightarrow> CaptureNode list \<Rightarrow> (GrabError + string list) \<times> CaptureNode list"
where
  "grab_transaction grab rollback skip_busy targets =
     (case grab_from grab rollback skip_busy [0 ..< length targets] [] [] targets of
        (Inl err, targets') \<Rightarrow> (Inl err, targets')
      | (Inr (grabbed, skipped), targets') \<Rightarrow>
          if grabbed = [] \<and> skipped \<noteq> []
          then (Inl \<lparr>ge_path = last skipped, ge_source = EBUSY, ge_rolled_back = 0, ge_rollback_failures = []\<rparr>, targets')
          else (Inr skipped, targets'))"

section \<open>The set\<close>

record CaptureSet =
  cap_nodes :: "CaptureNode list"
  cap_aggregate :: AggregateInputState
  cap_grabbed :: bool

definition capture_default :: CaptureSet where
  "capture_default = \<lparr>cap_nodes = [], cap_aggregate = aggregate_default, cap_grabbed = False\<rparr>"

datatype CaptureSetError =
    SetEmpty
  | SetVirtualDevice string
  | SetDuplicate string
  | SetOpen string io_error
  | SetNotNeutral
  | SetGrab GrabError
  | SetInspectState string io_error

text \<open>\<open>CaptureNode::open\<close>: the node and the keys it holds, or the error, are the kernel's answer.\<close>

type_synonym open_answer = "DeviceInfo \<Rightarrow> io_error + TouchAccumulator option \<times> bool \<times> bool \<times> KeyCode fset"

definition node_open :: "open_answer \<Rightarrow> DeviceInfo \<Rightarrow> io_error + CaptureNode \<times> KeyCode fset" where
  "node_open answer info =
     (case answer info of
        Inl e \<Rightarrow> Inl e
      | Inr (pad, direct, buttonpad, held) \<Rightarrow>
          Inr (\<lparr>cn_path = dv_path info, cn_grabbed = False, cn_frames = accumulator_default, cn_touch = pad,
                cn_pointer = (if pad \<noteq> None \<and> \<not> direct
                              then Some (touchpad_new buttonpad touchpad_settings_default) else None)\<rparr>, held))"

text \<open>\<open>sort_by\<close> on the paths; a path is a list of characters compared by their codes.\<close>

fun path_le :: "string \<Rightarrow> string \<Rightarrow> bool" where
  "path_le [] q = True"
| "path_le (c # p) [] = False"
| "path_le (c # p) (d # q) =
     (if (of_char c :: nat) < of_char d then True else if of_char d < (of_char c :: nat) then False else path_le p q)"

fun insert_node :: "CaptureNode \<Rightarrow> CaptureNode list \<Rightarrow> CaptureNode list" where
  "insert_node n [] = [n]"
| "insert_node n (m # ms) = (if path_le (cn_path m) (cn_path n) then m # insert_node n ms else n # m # ms)"

definition open_one :: "open_answer \<Rightarrow> DeviceInfo \<Rightarrow> CaptureSet \<Rightarrow> (CaptureSetError + unit) \<times> CaptureSet" where
  "open_one answer info c =
     (case node_open answer info of
        Inl e \<Rightarrow> (Inl (SetOpen (dv_path info) e), c)
      | Inr (n, held) \<Rightarrow>
          (Inr (), c\<lparr>cap_aggregate := add_device (dv_path info) held (cap_aggregate c),
                     cap_nodes := insert_node n (cap_nodes c)\<rparr>))"

fun open_devices ::
  "open_answer \<Rightarrow> DeviceInfo list \<Rightarrow> string list \<Rightarrow> CaptureSet \<Rightarrow> CaptureSetError + CaptureSet"
where
  "open_devices answer [] seen c = Inr c"
| "open_devices answer (info # infos) seen c =
     (if is_zflow_virtual info then Inl (SetVirtualDevice (dv_path info))
      else if dv_path info \<in> set seen then Inl (SetDuplicate (dv_path info))
      else (case open_one answer info c of
              (Inl e, _) \<Rightarrow> Inl e
            | (Inr _, c') \<Rightarrow> open_devices answer infos (dv_path info # seen) c'))"

definition capture_open :: "open_answer \<Rightarrow> DeviceInfo list \<Rightarrow> CaptureSetError + CaptureSet" where
  "capture_open answer infos =
     (if infos = [] then Inl SetEmpty else open_devices answer infos [] capture_default)"

definition capture_resync :: "key_answer \<Rightarrow> CaptureSet \<Rightarrow> CaptureSet" where
  "capture_resync keys c =
     c\<lparr>cap_aggregate :=
         fold (\<lambda>n g. case keys (cn_path n) of Inl _ \<Rightarrow> g | Inr held \<Rightarrow> resync_held (cn_path n) held g)
           (cap_nodes c) (cap_aggregate c)\<rparr>"

fun kernel_is_neutral :: "key_answer \<Rightarrow> CaptureNode list \<Rightarrow> CaptureSetError + bool" where
  "kernel_is_neutral keys [] = Inr True"
| "kernel_is_neutral keys (n # ns) =
     (case keys (cn_path n) of
        Inl e \<Rightarrow> Inl (SetInspectState (cn_path n) e)
      | Inr held \<Rightarrow> if \<not> fBall held is_contact then Inr False else kernel_is_neutral keys ns)"

text \<open>The loop of \<open>ungrab_all\<close> goes over the nodes from the last to the first.\<close>

definition ungrab_node :: "io_answer \<Rightarrow> CaptureNode \<Rightarrow> UngrabFailure list \<times> CaptureNode" where
  "ungrab_node answer n =
     (if cn_grabbed n then
        (case release_grab answer n of (Inr _, n') \<Rightarrow> ([], n') | (Inl e, n') \<Rightarrow> ([(cn_path n, e)], n'))
      else ([], n))"

definition ungrab_all :: "io_answer \<Rightarrow> CaptureSet \<Rightarrow> UngrabFailure list \<times> CaptureSet" where
  "ungrab_all answer c =
     (let rs = map (ungrab_node answer) (cap_nodes c); nodes = map snd rs
      in (concat (rev (map fst rs)), c\<lparr>cap_nodes := nodes, cap_grabbed := list_ex cn_grabbed nodes\<rparr>))"

record GrabAnswers =
  ga_keys_before :: key_answer
  ga_grab :: io_answer
  ga_rollback :: io_answer
  ga_keys_after :: key_answer
  ga_ungrab :: io_answer

definition grab_all :: "GrabAnswers \<Rightarrow> bool \<Rightarrow> CaptureSet \<Rightarrow> (CaptureSetError + string list) \<times> CaptureSet" where
  "grab_all os skip_busy c =
     (if cap_nodes c = [] then (Inl SetEmpty, c)
      else if cap_grabbed c then (Inr [], c)
      else if \<not> nothing_pressed (cap_aggregate c) \<or> \<not> all_at_boundary (cap_aggregate c) then (Inl SetNotNeutral, c)
      else case kernel_is_neutral (ga_keys_before os) (cap_nodes c) of
             Inl e \<Rightarrow> (Inl e, c)
           | Inr False \<Rightarrow> (Inl SetNotNeutral, c)
           | Inr True \<Rightarrow>
               (case grab_transaction (ga_grab os) (ga_rollback os) skip_busy (cap_nodes c) of
                  (Inl err, nodes) \<Rightarrow> (Inl (SetGrab err), c\<lparr>cap_nodes := nodes\<rparr>)
                | (Inr skipped, nodes) \<Rightarrow>
                    (let c1 = c\<lparr>cap_nodes := nodes, cap_grabbed := True\<rparr>
                     in case kernel_is_neutral (ga_keys_after os) (cap_nodes c1) of
                          Inr True \<Rightarrow> (Inr skipped, c1)
                        | Inr False \<Rightarrow> (Inl SetNotNeutral, snd (ungrab_all (ga_ungrab os) c1))
                        | Inl e \<Rightarrow> (Inl e, snd (ungrab_all (ga_ungrab os) c1)))))"

definition capture_suspend :: "io_answer \<Rightarrow> CaptureSet \<Rightarrow> UngrabFailure list \<times> CaptureSet" where
  "capture_suspend answer c =
     (fst (ungrab_all answer c), \<lparr>cap_nodes = [], cap_aggregate = aggregate_default, cap_grabbed = False\<rparr>)"

section \<open>Reading\<close>

datatype CaptureReadError =
    ReadUnknownDevice string
  | ReadDeviceRemoved string
  | ReadFailed string io_error
  | ReadMapping string MappingError

text \<open>
  \<open>map_events\<close>: an event comes with the kernel's time stamp and the time at which it is read; the state is
  what the devices hold and the node that is read.
\<close>

type_synonym timed_event = "InputEvent \<times> duration \<times> MonotonicTimeMicros"

definition node_touch ::
  "InputEvent \<Rightarrow> CaptureNode \<Rightarrow> (TouchFault + (TouchState \<times> u64) option) \<times> CaptureNode"
where
  "node_touch event n =
     (case cn_touch n of
        None \<Rightarrow> (Inr None, n)
      | Some t \<Rightarrow> (let (r, t') = touch_push event t in (r, n\<lparr>cn_touch := Some t'\<rparr>)))"

definition with_touch_state :: "(TouchState \<times> u64) option \<Rightarrow> CaptureFrame \<Rightarrow> CaptureFrame" where
  "with_touch_state touch_state f =
     (case touch_state of
        None \<Rightarrow> f
      | Some (state, count) \<Rightarrow>
          f\<lparr>cf_touch_snapshot := Some state, cf_event_count := saturating_add_u64 (cf_event_count f) count\<rparr>)"

definition with_pointer ::
  "(f64 \<Rightarrow> f64 \<Rightarrow> f64) \<Rightarrow> duration \<Rightarrow> CaptureFrame \<Rightarrow> CaptureNode \<Rightarrow> CaptureFrame \<times> CaptureNode"
where
  "with_pointer hypot stamp f n =
     (case (cn_touch n, cn_pointer n) of
        (Some t, Some p) \<Rightarrow>
          (let (pointer, p') = pad_report hypot (fingers t) (finger_count t) (cf_transitions f) stamp p
           in (f\<lparr>cf_as_pointer := Some pointer\<rparr>, n\<lparr>cn_pointer := Some p'\<rparr>))
      | _ \<Rightarrow> (f, n))"

fun map_events ::
  "(f64 \<Rightarrow> f64 \<Rightarrow> f64) \<Rightarrow> string \<Rightarrow> timed_event list \<Rightarrow> AggregateInputState \<Rightarrow> CaptureNode
     \<Rightarrow> (CaptureReadError + CapturedDeviceFrame list) \<times> AggregateInputState \<times> CaptureNode"
where
  "map_events hypot path [] g n = (Inr [], g, n)"
| "map_events hypot path ((event, stamp, now) # events) g n =
     (let g1 = snd (observe path event g); (t, n1) = node_touch event n
      in case t of
           Inl _ \<Rightarrow> (Inl (ReadMapping path InvalidTouchState), g1, n1)
         | Inr touch_state \<Rightarrow>
             (let (r, a) = push event (cn_frames n1); n2 = n1\<lparr>cn_frames := a\<rparr>
              in case r of
                   Inl source \<Rightarrow> (Inl (ReadMapping path source), g1, n2)
                 | Inr None \<Rightarrow> map_events hypot path events g1 n2
                 | Inr (Some f) \<Rightarrow>
                     (let (f', n3) = with_pointer hypot stamp (with_touch_state touch_state f) n2;
                          captured = \<lparr>cd_device_path = path, cd_frame = f', cd_captured_at = now\<rparr>
                      in case map_events hypot path events g1 n3 of
                           (Inl e, rest) \<Rightarrow> (Inl e, rest)
                         | (Inr frames, rest) \<Rightarrow> (Inr (captured # frames), rest))))"

definition is_device_removed :: "io_error \<Rightarrow> bool" where
  "is_device_removed e \<longleftrightarrow> e = ENOENT \<or> e = ENODEV \<or> e = ENXIO"

definition remove_index :: "nat \<Rightarrow> 'a list \<Rightarrow> 'a list" where
  "remove_index i xs = take i xs @ drop (Suc i) xs"

text \<open>The events of the node, or the error of the read, and the answers to the ungrabs of a removal.\<close>

definition read_ready ::
  "(f64 \<Rightarrow> f64 \<Rightarrow> f64) \<Rightarrow> io_error + timed_event list \<Rightarrow> io_answer \<Rightarrow> string \<Rightarrow> CaptureSet
     \<Rightarrow> (CaptureReadError + CapturedDeviceFrame list) \<times> CaptureSet"
where
  "read_ready hypot fetched ungrab path c =
     (case position (\<lambda>n. cn_path n = path) (cap_nodes c) of
        None \<Rightarrow> (Inl (ReadUnknownDevice path), c)
      | Some index \<Rightarrow>
          (case fetched of
             Inl e \<Rightarrow>
               if is_device_removed e then
                 (let c1 = snd (ungrab_all ungrab c); removed = cap_nodes c1 ! index
                  in (Inl (ReadDeviceRemoved (cn_path removed)),
                      c1\<lparr>cap_nodes := remove_index index (cap_nodes c1),
                         cap_aggregate := snd (remove_device (cn_path removed) (cap_aggregate c1))\<rparr>))
               else (Inl (ReadFailed path e), c)
           | Inr events \<Rightarrow>
               (let (r, g, n) = map_events hypot path events (cap_aggregate c) (cap_nodes c ! index)
                in (r, c\<lparr>cap_aggregate := g, cap_nodes := (cap_nodes c)[index := n]\<rparr>))))"

record ReconcileOutcome =
  ro_added :: "string list"
  ro_removed :: "string list"
  ro_activation_must_close :: bool

fun open_added ::
  "open_answer \<Rightarrow> DeviceInfo list \<Rightarrow> CaptureSet \<Rightarrow> (CaptureSetError + string list) \<times> CaptureSet"
where
  "open_added answer [] c = (Inr [], c)"
| "open_added answer (info # infos) c =
     (if is_zflow_virtual info then (Inl (SetVirtualDevice (dv_path info)), c)
      else (case open_one answer info c of
              (Inl e, c1) \<Rightarrow> (Inl e, c1)
            | (Inr _, c1) \<Rightarrow>
                (case open_added answer infos c1 of
                   (Inl e, c2) \<Rightarrow> (Inl e, c2)
                 | (Inr added, c2) \<Rightarrow> (Inr (dv_path info # added), c2))))"

text \<open>The removed paths in the order of a \<open>BTreeSet\<close>, which is the order of the nodes.\<close>

definition reconcile ::
  "open_answer \<Rightarrow> io_answer \<Rightarrow> DeviceInfo list \<Rightarrow> CaptureSet \<Rightarrow> (CaptureSetError + ReconcileOutcome) \<times> CaptureSet"
where
  "reconcile answer ungrab selected c =
     (let current_paths = map cn_path (cap_nodes c);
          removed = filter (\<lambda>path. path \<notin> dv_path ` set selected) current_paths;
          added_infos = filter (\<lambda>info. dv_path info \<notin> set current_paths) selected;
          activation_must_close = (cap_grabbed c \<and> removed \<noteq> []);
          c1 = (if activation_must_close then snd (ungrab_all ungrab c) else c);
          c2 = c1\<lparr>cap_nodes := filter (\<lambda>n. cn_path n \<notin> set removed) (cap_nodes c1),
                  cap_aggregate := fold (\<lambda>path g. snd (remove_device path g)) removed (cap_aggregate c1)\<rparr>
      in if cap_grabbed c2
         then (Inr \<lparr>ro_added = [], ro_removed = removed, ro_activation_must_close = activation_must_close\<rparr>, c2)
         else (case open_added answer added_infos c2 of
                 (Inl e, c3) \<Rightarrow> (Inl e, c3)
               | (Inr added, c3) \<Rightarrow>
                   (Inr \<lparr>ro_added = added, ro_removed = removed, ro_activation_must_close = activation_must_close\<rparr>, c3)))"

section \<open>All grabs or none\<close>

lemma roll_back_from_grabbed:
  "roll_back_from answer is ts = (fs, ts') \<Longrightarrow> set is \<subseteq> {..<length ts} \<Longrightarrow>
     length ts' = length ts \<and>
     (\<forall>i < length ts. cn_path (ts' ! i) = cn_path (ts ! i) \<and>
        (cn_grabbed (ts' ! i) \<longrightarrow> cn_grabbed (ts ! i) \<and> (i \<in> set is \<longrightarrow> answer (cn_path (ts ! i)) \<noteq> None)))"
proof (induction answer "is" ts arbitrary: fs ts' rule: roll_back_from.induct)
  case (2 answer i "is" ts)
  obtain r n where rel: "release_grab answer (ts ! i) = (r, n)" by force
  obtain fs1 where rest: "roll_back_from answer is (ts[i := n]) = (fs1, ts')"
    using 2(3) rel by (auto split: sum.splits prod.splits)
  have IH: "length ts' = length ts \<and> (\<forall>j < length ts. cn_path (ts' ! j) = cn_path (ts[i := n] ! j) \<and>
      (cn_grabbed (ts' ! j) \<longrightarrow> cn_grabbed (ts[i := n] ! j) \<and>
         (j \<in> set is \<longrightarrow> answer (cn_path (ts[i := n] ! j)) \<noteq> None)))"
    using 2(1) [OF rel [symmetric], of _ fs1 ts'] 2(2) [OF rel [symmetric], of _ fs1 ts'] rest 2(4)
    by (cases r) auto
  have n: "cn_path n = cn_path (ts ! i)"
    "cn_grabbed n \<Longrightarrow> cn_grabbed (ts ! i) \<and> answer (cn_path (ts ! i)) \<noteq> None"
    using rel by (auto simp: release_grab_def split: option.splits)
  show ?case
    using IH n 2(4) by (auto simp: nth_list_update)
qed simp

definition grabbed_are :: "nat list \<Rightarrow> CaptureNode list \<Rightarrow> bool" where
  "grabbed_are gs ts \<longleftrightarrow> (\<forall>i < length ts. cn_grabbed (ts ! i) = (i \<in> set gs))"

definition grab_result ::
  "io_answer \<Rightarrow> io_answer \<Rightarrow> bool \<Rightarrow> nat list \<Rightarrow> nat \<Rightarrow> CaptureNode list \<Rightarrow>
     (GrabError + nat list \<times> string list) \<Rightarrow> CaptureNode list \<Rightarrow> bool"
where
  "grab_result g b busy is count ts r ts' \<longleftrightarrow>
     map cn_path ts' = map cn_path ts \<and>
     (\<forall>gs sk. r = Inr (gs, sk) \<longrightarrow>
        grabbed_are gs ts' \<and> set gs \<subseteq> {..<length ts} \<and> length gs + length sk = count + length is \<and>
        (\<forall>i \<in> set is. i \<in> set gs \<or> busy \<and> g (cn_path (ts ! i)) = Some EBUSY)) \<and>
     (\<forall>err. r = Inl err \<longrightarrow> (\<forall>n \<in> set ts'. cn_grabbed n \<longrightarrow> b (cn_path n) \<noteq> None))"

lemma grab_from_keeps: "grab_from g b busy is gs sk ts = (Inr (gs', sk'), ts') \<Longrightarrow> set gs \<subseteq> set gs'"
  by (induction "is" arbitrary: gs sk ts) (fastforce split: sum.splits prod.splits if_splits)+

lemma roll_back_all:
  assumes "roll_back_from b (rev gs) ts = (fs, ts')" "grabbed_are gs ts" "set gs \<subseteq> {..<length ts}"
  shows "map cn_path ts' = map cn_path ts \<and> (\<forall>n \<in> set ts'. cn_grabbed n \<longrightarrow> b (cn_path n) \<noteq> None)"
proof -
  have spec: "length ts' = length ts \<and> (\<forall>i < length ts. cn_path (ts' ! i) = cn_path (ts ! i) \<and>
      (cn_grabbed (ts' ! i) \<longrightarrow> cn_grabbed (ts ! i) \<and> (i \<in> set (rev gs) \<longrightarrow> b (cn_path (ts ! i)) \<noteq> None)))"
    using roll_back_from_grabbed [OF assms(1)] assms(3) by simp
  then show ?thesis
    using assms(2) by (auto simp: grabbed_are_def in_set_conv_nth intro: nth_equalityI)
qed

lemma grab_from_spec:
  assumes "grab_from g b busy is gs sk ts = (r, ts')" "set is \<union> set gs \<subseteq> {..<length ts}" "grabbed_are gs ts"
  shows "grab_result g b busy is (length gs + length sk) ts r ts'"
  using assms
proof (induction "is" arbitrary: gs sk ts)
  case (Cons i "is")
  have i: "i < length ts" using Cons.prems(2) by simp
  show ?case
  proof (cases "g (cn_path (ts ! i))")
    case None
    define n where "n = (ts ! i)\<lparr>cn_grabbed := True\<rparr>"
    have path: "cn_path n = cn_path (ts ! i)" by (simp add: n_def)
    then have paths: "map cn_path (ts[i := n]) = map cn_path ts"
      using i by (simp add: map_update list_update_same_conv)
    have step: "grab_from g b busy is (gs @ [i]) sk (ts[i := n]) = (r, ts')"
      using Cons.prems(1) None by (simp add: take_grab_def n_def)
    have "grabbed_are (gs @ [i]) (ts[i := n])"
      using Cons.prems(3) i by (auto simp: grabbed_are_def nth_list_update n_def)
    then have res: "grab_result g b busy is (length (gs @ [i]) + length sk) (ts[i := n]) r ts'"
      using Cons.IH [OF step] Cons.prems(2) by simp
    have at: "cn_path (ts[i := n] ! j) = cn_path (ts ! j)" for j
      using path i by (cases "j = i") auto
    show ?thesis
      using res grab_from_keeps [of g b busy "is" "gs @ [i]" sk "ts[i := n]"] step
      by (auto simp: grab_result_def paths at)
  next
    case (Some e)
    show ?thesis
    proof (cases "busy \<and> e = EBUSY")
      case True
      then have step: "grab_from g b busy is gs (sk @ [cn_path (ts ! i)]) ts = (r, ts')"
        using Cons.prems(1) Some by (simp add: take_grab_def)
      then have "grab_result g b busy is (length gs + length (sk @ [cn_path (ts ! i)])) ts r ts'"
        using Cons.IH [OF step] Cons.prems(2,3) by simp
      then show ?thesis
        using True Some by (auto simp: grab_result_def)
    next
      case False
      then obtain fs where "roll_back_from b (rev gs) ts = (fs, ts')" "\<exists>err. r = Inl err"
        using Cons.prems(1) Some by (auto simp: take_grab_def roll_back_def split: prod.splits)
      with roll_back_all [of b gs ts fs ts'] Cons.prems(2,3) show ?thesis
        by (auto simp: grab_result_def)
    qed
  qed
qed (auto simp: grab_result_def)

definition held_only_by :: "(string \<Rightarrow> bool) \<Rightarrow> CaptureNode list \<Rightarrow> bool" where
  "held_only_by stuck ns \<longleftrightarrow> (\<forall>n \<in> set ns. cn_grabbed n \<longrightarrow> stuck (cn_path n))"

lemma grab_transaction_spec:
  assumes "grab_transaction g b busy ts = (r, ts')" "\<forall>n \<in> set ts. \<not> cn_grabbed n" "ts \<noteq> []"
  shows "map cn_path ts' = map cn_path ts \<and>
    (\<forall>skipped. r = Inr skipped \<longrightarrow> (\<exists>n \<in> set ts'. cn_grabbed n) \<and>
       (\<forall>n \<in> set ts'. cn_grabbed n \<or> busy \<and> g (cn_path n) = Some EBUSY)) \<and>
    (\<forall>err. r = Inl err \<longrightarrow> held_only_by (\<lambda>path. b path \<noteq> None) ts')"
proof -
  obtain r1 where run: "grab_from g b busy [0 ..< length ts] [] [] ts = (r1, ts')"
    using assms(1) by (auto simp: grab_transaction_def split: prod.splits sum.splits if_splits)
  have spec: "grab_result g b busy [0 ..< length ts] 0 ts r1 ts'"
    using grab_from_spec [OF run] assms(2) by (simp add: grabbed_are_def atLeast0LessThan)
  then have len: "length ts' = length ts" and paths: "map cn_path ts' = map cn_path ts"
    unfolding grab_result_def by (metis length_map)+
  then have at: "cn_path (ts' ! i) = cn_path (ts ! i)" if "i < length ts" for i
    using that by (metis nth_map)
  show ?thesis
  proof (cases r1)
    case (Inl err)
    with spec assms(1) run paths show ?thesis
      by (auto simp: grab_result_def grab_transaction_def held_only_by_def)
  next
    case (Inr x)
    then obtain gs sk where x: "r1 = Inr (gs, sk)" by (cases x) auto
    note s = spec [unfolded grab_result_def, THEN conjunct2, THEN conjunct1, rule_format, OF x]
    show ?thesis
    proof (cases "gs = []")
      case True
      then have "sk \<noteq> []" "held_only_by (\<lambda>path. b path \<noteq> None) ts'"
        using s assms(3) by (auto simp: grabbed_are_def held_only_by_def in_set_conv_nth)
      then show ?thesis
        using assms(1) run x True paths by (auto simp: grab_transaction_def)
    next
      case False
      then have "hd gs < length ts"
        using s by (meson hd_in_set lessThan_iff subsetD)
      moreover from this False have "cn_grabbed (ts' ! hd gs)"
        using s len by (simp add: grabbed_are_def)
      moreover have "cn_grabbed n \<or> busy \<and> g (cn_path n) = Some EBUSY" if "n \<in> set ts'" for n
      proof -
        obtain i where "i < length ts" "n = ts' ! i" using \<open>n \<in> set ts'\<close> len by (metis in_set_conv_nth)
        then show ?thesis using s at by (auto simp: grabbed_are_def len)
      qed
      ultimately show ?thesis
        using assms(1) run x False paths len by (auto simp: grab_transaction_def)
    qed
  qed
qed

lemma ungrab_node_spec:
  "cn_path (snd (ungrab_node answer n)) = cn_path n \<and>
   (cn_grabbed (snd (ungrab_node answer n)) \<longrightarrow> cn_grabbed n \<and> answer (cn_path n) \<noteq> None) \<and>
   (fst (ungrab_node answer n) = [] \<longrightarrow> \<not> cn_grabbed (snd (ungrab_node answer n)))"
  by (auto simp: ungrab_node_def release_grab_def split: option.splits)

lemma ungrab_all_spec:
  assumes "ungrab_all answer c = (failures, c')"
  shows "map cn_path (cap_nodes c') = map cn_path (cap_nodes c)"
    and "cap_aggregate c' = cap_aggregate c"
    and "cap_grabbed c' \<longleftrightarrow> (\<exists>n \<in> set (cap_nodes c'). cn_grabbed n)"
    and "held_only_by (\<lambda>path. answer path \<noteq> None) (cap_nodes c')"
    and "held_only_by stuck (cap_nodes c) \<Longrightarrow> held_only_by stuck (cap_nodes c')"
    and "failures = [] \<Longrightarrow> \<not> cap_grabbed c'"
  using assms ungrab_node_spec [of answer]
  by (auto simp: ungrab_all_def Let_def list_ex_iff held_only_by_def comp_def)

text \<open>
  C33: Grabbing takes every device or none. When \<open>grab_all\<close> succeeds, at least one node is grabbed, and each that is
  not was already grabbed by another program and may be skipped; no key or button was down and every device was
  between two reports, and the kernel still saw none down after the last grab. When it fails, a node is still
  grabbed only if the kernel refused to let go of it.
\<close>

theorem grab_all_or_none:
  assumes "\<not> cap_grabbed c" "\<forall>n \<in> set (cap_nodes c). \<not> cn_grabbed n" "grab_all os busy c = (r, c')"
  shows "(\<forall>skipped. r = Inr skipped \<longrightarrow>
      cap_grabbed c' \<and> (\<exists>n \<in> set (cap_nodes c'). cn_grabbed n) \<and>
      (\<forall>n \<in> set (cap_nodes c'). cn_grabbed n \<or> busy \<and> ga_grab os (cn_path n) = Some EBUSY) \<and>
      nothing_pressed (cap_aggregate c) \<and> all_at_boundary (cap_aggregate c) \<and>
      kernel_is_neutral (ga_keys_after os) (cap_nodes c') = Inr True) \<and>
    (\<forall>e. r = Inl e \<longrightarrow>
      held_only_by (\<lambda>path. ga_rollback os path \<noteq> None \<or> ga_ungrab os path \<noteq> None) (cap_nodes c'))"
proof -
  have none: "held_only_by stuck (cap_nodes c)" for stuck
    using assms(2) by (simp add: held_only_by_def)
  show ?thesis
  proof (cases "\<exists>r1 nodes. grab_transaction (ga_grab os) (ga_rollback os) busy (cap_nodes c) = (Inr r1, nodes) \<and>
      cap_nodes c \<noteq> [] \<and> nothing_pressed (cap_aggregate c) \<and> all_at_boundary (cap_aggregate c) \<and>
      kernel_is_neutral (ga_keys_before os) (cap_nodes c) = Inr True")
    case True
    then obtain skipped nodes where t: "grab_transaction (ga_grab os) (ga_rollback os) busy (cap_nodes c) = (Inr skipped, nodes)"
      "cap_nodes c \<noteq> []" "nothing_pressed (cap_aggregate c)" "all_at_boundary (cap_aggregate c)"
      "kernel_is_neutral (ga_keys_before os) (cap_nodes c) = Inr True" by blast
    define c1 where "c1 = c\<lparr>cap_nodes := nodes, cap_grabbed := True\<rparr>"
    note spec = grab_transaction_spec [OF t(1) assms(2) t(2)]
    have run: "(case kernel_is_neutral (ga_keys_after os) (cap_nodes c1) of
        Inr True \<Rightarrow> (Inr skipped, c1) | Inr False \<Rightarrow> (Inl SetNotNeutral, snd (ungrab_all (ga_ungrab os) c1))
      | Inl e \<Rightarrow> (Inl e, snd (ungrab_all (ga_ungrab os) c1))) = (r, c')"
      using assms(1,3) t unfolding c1_def by (simp add: grab_all_def Let_def)
    have undone: "held_only_by (\<lambda>path. ga_rollback os path \<noteq> None \<or> ga_ungrab os path \<noteq> None)
        (cap_nodes (snd (ungrab_all (ga_ungrab os) c1)))"
      using ungrab_all_spec(4) [of "ga_ungrab os" c1, OF surjective_pairing] by (auto simp: held_only_by_def)
    show ?thesis
      using run spec t undone by (auto simp: c1_def split: sum.splits bool.splits)
  next
    case False
    then have "\<exists>e. r = Inl e"
      using assms(1,3) by (auto simp: grab_all_def split: if_splits sum.splits bool.splits prod.splits)
    moreover have "held_only_by (\<lambda>path. ga_rollback os path \<noteq> None \<or> ga_ungrab os path \<noteq> None) (cap_nodes c')"
      using assms(1,3) False none grab_transaction_spec [OF _ assms(2), of "ga_grab os" "ga_rollback os" busy]
      by (auto simp: grab_all_def held_only_by_def split: if_splits sum.splits bool.splits prod.splits)
    ultimately show ?thesis by blast
  qed
qed

definition sample_node :: "string \<Rightarrow> CaptureNode" where
  "sample_node path =
     \<lparr>cn_path = path, cn_grabbed = False, cn_frames = accumulator_default, cn_touch = None, cn_pointer = None\<rparr>"

definition sample_set :: CaptureSet where
  "sample_set =
     \<lparr>cap_nodes = [sample_node ''e1'', sample_node ''e2''],
      cap_aggregate = add_device ''e2'' {||} (add_device ''e1'' {||} aggregate_default), cap_grabbed = False\<rparr>"

definition sample_answers :: GrabAnswers where
  "sample_answers =
     \<lparr>ga_keys_before = (\<lambda>_. Inr {||}), ga_grab = (\<lambda>path. if path = ''e1'' then Some EBUSY else None),
      ga_rollback = (\<lambda>_. None), ga_keys_after = (\<lambda>_. Inr {||}), ga_ungrab = (\<lambda>_. None)\<rparr>"

lemma devices_all: "fBall (fmran m) P \<longleftrightarrow> (\<forall>path d. fmlookup m path = Some d \<longrightarrow> P d)"
  by (auto simp: fmlookup_ran_iff)

lemma sample_grab: "\<exists>c'. grab_all sample_answers True sample_set = (Inr [''e1''], c')"
  by (simp add: grab_all_def sample_answers_def sample_set_def sample_node_def nothing_pressed_def
      all_at_boundary_def add_device_def aggregate_default_def grab_transaction_def take_grab_def upt_rec
      devices_all Let_def)

lemma grab_all_or_none_witness:
  "\<exists>c'. grab_all sample_answers True sample_set = (Inr [''e1''], c') \<and> cap_grabbed c' \<and>
     (\<exists>n \<in> set (cap_nodes c'). cn_grabbed n)"
proof -
  obtain c' where run: "grab_all sample_answers True sample_set = (Inr [''e1''], c')"
    using sample_grab by blast
  have "\<not> cap_grabbed sample_set" "\<forall>n \<in> set (cap_nodes sample_set). \<not> cn_grabbed n"
    by (simp_all add: sample_set_def sample_node_def)
  from grab_all_or_none [OF this run] run show ?thesis by blast
qed

section \<open>What is read fits a session\<close>

lemma position_less: "position P xs = Some i \<Longrightarrow> i < length xs"
  by (induction xs arbitrary: i) (auto split: if_splits)

definition node_within :: "CaptureNode \<Rightarrow> bool" where
  "node_within n \<longleftrightarrow>
     list_all transition_within (fa_transitions (cn_frames n)) \<and>
     (\<forall>t. cn_touch n = Some t \<longrightarrow> slots_ok t)"

lemma key_map_pages: "\<forall>m \<in> set KEY_MAP. supported_page (mapping_hid m)"
  by (simp add: KEY_MAP_def KeyMapping_keyboard_def KeyMapping_consumer_def HID_KEYBOARD_def HID_CONSUMER_def
      mapping_hid_def supported_page_def KEYBOARD_KEYPAD_def CONSUMER_def)

lemma transition_of_within: "transition_of key state = Inr (Some t) \<Longrightarrow> transition_within t"
  using key_map_pages key_to_hid_iff [of key]
  by (auto simp: transition_of_def result_then_def split: if_splits sum.splits) metis

lemma push_within:
  assumes "push event a = (r, a')" "list_all transition_within (fa_transitions a)"
  shows "list_all transition_within (fa_transitions a') \<and>
    (\<forall>f. r = Inr (Some f) \<longrightarrow> list_all transition_within (cf_transitions f) \<and> cf_touch_snapshot f = None \<and>
       cf_as_pointer f = None)"
proof -
  have "transition_within t" if "result_then (key_state_of v) (transition_of code) = Inr (Some t)" for v code t
    using that transition_of_within by (auto simp: result_then_def split: sum.splits)
  moreover have "fa_transitions (push_relative code v a) = fa_transitions a" for code v
    by (rule push_relative_fields)
  ultimately show ?thesis
    using assms
    by (auto simp: push_def finish_def accumulator_default_def count_event_def Let_def
        split: EventType.splits if_splits sum.splits option.splits)
qed

lemma pad_report_within:
  assumes "pad_report hypot fs count ts stamp p = (made, p')" "list_all transition_within ts"
  shows "list_all transition_within (pf_transitions made)"
proof -
  have "list_all transition_within outs" if "pad_buttons fs count us q = (changed, outs, q')"
    "list_all transition_within us" for us q changed outs q'
    using that
  proof (induction fs count us q arbitrary: changed outs q' rule: pad_buttons.induct)
    case (2 fs count u us q)
    then show ?case
      by (auto simp: pad_button_def Let_def split: prod.splits CaptureTransition.splits if_splits KeyState.splits)
  qed simp
  moreover have "list_all transition_within outs" if "pad_tap hypot fs count stamp q = (outs, q')" for q outs q'
    using that by (auto simp: pad_tap_def tap_clicks_def Let_def split: if_splits option.splits prod.splits)
  ultimately show ?thesis
    using assms by (auto simp: pad_report_def Let_def split: prod.splits)
qed

lemma node_touch_within:
  assumes "node_touch event n = (r, n')" "node_within n"
  shows "node_within n' \<and> cn_frames n' = cn_frames n \<and> cn_path n' = cn_path n \<and> cn_grabbed n' = cn_grabbed n \<and>
    (\<forall>state count. r = Inr (Some (state, count)) \<longrightarrow> touch_len state \<le> MAX_TOUCHPAD_CONTACTS)"
proof (cases "cn_touch n")
  case (Some t)
  then have ok: "slots_ok t" using assms(2) by (simp add: node_within_def)
  obtain r1 t' where push: "touch_push event t = (r1, t')" by force
  have "touch_len state \<le> MAX_TOUCHPAD_CONTACTS" if "r1 = Inr (Some (state, count))" for state count
    using push that touch_snapshot_Inr(1) [OF ok]
    by (auto simp: touch_push_def split: EventType.splits if_splits sum.splits)
  then show ?thesis
    using assms Some push touch_push_ok [OF ok push] by (auto simp: node_touch_def node_within_def)
qed (use assms in \<open>auto simp: node_touch_def\<close>)

lemma with_pointer_within:
  assumes "with_pointer hypot stamp f n = (f', n')" "list_all transition_within (cf_transitions f)"
    and "cf_as_pointer f = None"
  shows "cf_transitions f' = cf_transitions f \<and> cf_touch_snapshot f' = cf_touch_snapshot f \<and>
    (\<forall>pointer. cf_as_pointer f' = Some pointer \<longrightarrow> list_all transition_within (pf_transitions pointer)) \<and>
    cn_path n' = cn_path n \<and> cn_grabbed n' = cn_grabbed n \<and> (node_within n \<longrightarrow> node_within n')"
  using assms pad_report_within
  by (fastforce simp: with_pointer_def node_within_def split: option.splits prod.splits)

lemma map_events_within:
  assumes "map_events hypot path events g n = (r, g', n')" "node_within n"
    and limit: "MAX_TOUCHPAD_CONTACTS \<le> unat (ns_contact_limit ns)"
  shows "node_within n' \<and> cn_path n' = cn_path n \<and> cn_grabbed n' = cn_grabbed n \<and>
    (\<forall>frames. r = Inr frames \<longrightarrow> (\<forall>f \<in> set frames. frame_within ns (cd_frame f)))"
  using assms(1,2)
proof (induction events arbitrary: g n r)
  case (Cons timed events)
  obtain event stamp now where timed: "timed = (event, stamp, now)" by (metis prod_cases3)
  define g1 where "g1 = snd (observe path event g)"
  obtain t n1 where touch: "node_touch event n = (t, n1)" by force
  note n1 = node_touch_within [OF touch Cons.prems(2)]
  obtain r1 a where push: "push event (cn_frames n1) = (r1, a)" by force
  note p = push_within [OF push n1 [unfolded node_within_def, THEN conjunct1, THEN conjunct1]]
  define n2 where "n2 = n1\<lparr>cn_frames := a\<rparr>"
  have n2: "node_within n2" "cn_path n2 = cn_path n" "cn_grabbed n2 = cn_grabbed n"
    using n1 p by (auto simp: n2_def node_within_def)
  note run = Cons.prems(1) [unfolded timed map_events.simps touch push Let_def prod.case g1_def [symmetric] n2_def [symmetric]]
  consider (failed) "(\<exists>e. t = Inl e) \<or> (\<exists>e. r1 = Inl e)" | (nothing) ts where "t = Inr ts" "r1 = Inr None"
    | (completed) ts f where "t = Inr ts" "r1 = Inr (Some f)"
    by (metis (full_types) option.exhaust sum.exhaust)
  then show ?case
  proof cases
    case failed
    then show ?thesis using run n1 n2 by (cases t) auto
  next
    case nothing
    then show ?thesis using Cons.IH [of g1 n2 r] run n2 by simp
  next
    case completed
    define f1 where "f1 = with_touch_state ts f"
    obtain f' n3 where pointer: "with_pointer hypot stamp f1 n2 = (f', n3)" by force
    have f1: "cf_transitions f1 = cf_transitions f" "cf_as_pointer f1 = cf_as_pointer f"
      by (auto simp: f1_def with_touch_state_def split: option.split)
    note w = with_pointer_within [OF pointer] p [THEN conjunct2, rule_format, OF completed(2)]
    have snapshot: "touch_len state \<le> unat (ns_contact_limit ns)" if "cf_touch_snapshot f1 = Some state" for state
      using that n1 completed p limit by (fastforce simp: f1_def with_touch_state_def split: option.splits)
    have transitions: "list_all transition_within (cf_transitions f1)" "cf_as_pointer f1 = None"
      using f1 p completed by auto
    note w = with_pointer_within [OF pointer this]
    have "frame_within ns f'"
      using w transitions snapshot by (simp add: frame_within_def split: option.split)
    moreover obtain r2 where rest: "map_events hypot path events g1 n3 = (r2, g', n')"
      "(case r2 of Inl e \<Rightarrow> Inl e
        | Inr fs \<Rightarrow> Inr (\<lparr>cd_device_path = path, cd_frame = f', cd_captured_at = now\<rparr> # fs)) = r"
      using run completed pointer by (auto simp: f1_def split: prod.splits sum.splits)
    moreover have "node_within n3" using w n2 by simp
    ultimately show ?thesis
      using Cons.IH [OF rest(1)] w n2 by (auto split: sum.splits)
  qed
qed simp

lemma node_open_within:
  assumes "node_open answer info = Inr (n, held)"
    and "\<And>t b1 b2 ks. answer info = Inr (Some t, b1, b2, ks) \<Longrightarrow> slots_ok t"
  shows "node_within n"
  using assms
  by (auto simp: node_open_def node_within_def accumulator_default_def split: sum.splits)

lemma ungrab_all_within:
  "\<forall>n \<in> set (cap_nodes c). node_within n \<Longrightarrow> \<forall>n \<in> set (cap_nodes (snd (ungrab_all answer c))). node_within n"
  by (auto simp: ungrab_all_def Let_def ungrab_node_def release_grab_def node_within_def split: option.splits if_splits)

lemma sample_limit: "unat (ns_contact_limit sample_negotiated) = MAX_TOUCHPAD_CONTACTS"
  by (simp add: sample_negotiated_def sample_offer_def selected_offers sample_session_settings_def touch_contacts_def
      MAX_TOUCHPAD_CONTACTS_def)

lemma read_ready_within:
  assumes "\<forall>n \<in> set (cap_nodes c). node_within n" "MAX_TOUCHPAD_CONTACTS \<le> unat (ns_contact_limit ns)"
    and "read_ready hypot fetched ungrab path c = (r, c')"
  shows "(\<forall>frames. r = Inr frames \<longrightarrow> (\<forall>f \<in> set frames. frame_within ns (cd_frame f))) \<and>
    (\<forall>n \<in> set (cap_nodes c'). node_within n)"
proof (cases "position (\<lambda>n. cn_path n = path) (cap_nodes c)")
  case (Some index)
  then have "index < length (cap_nodes c)" by (rule position_less)
  then have within: "node_within (cap_nodes c ! index)" using assms(1) by simp
  show ?thesis
  proof (cases fetched)
    case (Inl e)
    have "set (remove_index i xs) \<subseteq> set xs" for i and xs :: "CaptureNode list"
      by (auto simp: remove_index_def dest: in_set_takeD in_set_dropD)
    then show ?thesis
      using assms(1,3) Some Inl ungrab_all_within [OF assms(1), of ungrab]
      by (fastforce simp: read_ready_def Let_def split: if_splits)
  next
    case (Inr events)
    obtain g n where map: "map_events hypot path events (cap_aggregate c) (cap_nodes c ! index) = (r, g, n)"
      and c': "c' = c\<lparr>cap_aggregate := g, cap_nodes := (cap_nodes c)[index := n]\<rparr>"
      using assms(3) Some Inr by (auto simp: read_ready_def split: prod.splits)
    show ?thesis
      using map_events_within [OF map within assms(2)] assms(1) set_update_subset_insert [of "cap_nodes c" index n]
      by (auto simp: c')
  qed
qed (use assms in \<open>auto simp: read_ready_def\<close>)

text \<open>
  C34: What a Linux source captures is bounded and fits a session. From nodes whose touch slots are in order, a read,
  whatever the events, leaves such nodes behind and returns only frames with keys of the keyboard and consumer pages,
  also in their pointer form, and with at most five contacts. So the checks of an honest peer never fail on captured
  input in a session whose contact limit is at least five, which is what two computers with this program negotiate when
  both turn the touchpad on; a peer may offer fewer, and captured contacts are not cut down to its limit.
\<close>

theorem captured_input_fits_the_session:
  assumes "\<forall>n \<in> set (cap_nodes c). node_within n" and "read_ready hypot fetched ungrab path c = (r, c')"
  shows "(\<forall>frames. r = Inr frames \<longrightarrow> (\<forall>f \<in> set frames.
      list_all transition_within (cf_transitions (cd_frame f)) \<and>
      (\<forall>pointer. cf_as_pointer (cd_frame f) = Some pointer \<longrightarrow> list_all transition_within (pf_transitions pointer)) \<and>
      (\<forall>state. cf_touch_snapshot (cd_frame f) = Some state \<longrightarrow> touch_len state \<le> MAX_TOUCHPAD_CONTACTS) \<and>
      (\<forall>ns. MAX_TOUCHPAD_CONTACTS \<le> unat (ns_contact_limit ns) \<longrightarrow> frame_within ns (cd_frame f)))) \<and>
    (\<forall>n \<in> set (cap_nodes c'). node_within n)"
proof -
  obtain five :: NegotiatedSession where five: "unat (ns_contact_limit five) = MAX_TOUCHPAD_CONTACTS"
    using sample_limit by blast
  then have limit: "MAX_TOUCHPAD_CONTACTS \<le> unat (ns_contact_limit five)" by simp
  note within = read_ready_within [OF assms(1) limit assms(2)]
  have "frame_within ns f" if "frame_within five f" "MAX_TOUCHPAD_CONTACTS \<le> unat (ns_contact_limit ns)" for ns f
    using that five by (auto simp: frame_within_def split: option.splits)
  moreover have "list_all transition_within (cf_transitions f) \<and>
      (\<forall>pointer. cf_as_pointer f = Some pointer \<longrightarrow> list_all transition_within (pf_transitions pointer)) \<and>
      (\<forall>state. cf_touch_snapshot f = Some state \<longrightarrow> touch_len state \<le> MAX_TOUCHPAD_CONTACTS)"
    if "frame_within five f" for f
    using that five by (auto simp: frame_within_def split: option.splits)
  ultimately show ?thesis using within by blast
qed

definition sample_events :: "timed_event list" where
  "sample_events = [(sample_event KEY BTN_LEFT 1, 0, 5), (report_end, 0, 6)]"

lemma captured_input_fits_the_session_witness:
  "\<exists>f c'. read_ready f_add (Inr sample_events) (\<lambda>_. None) ''e1'' sample_set = (Inr [f], c') \<and>
     cf_transitions (cd_frame f) = [TransButton 1 KeyPressed] \<and> frame_within sample_negotiated (cd_frame f)"
proof -
  obtain f c' where run: "read_ready f_add (Inr sample_events) (\<lambda>_. None) ''e1'' sample_set = (Inr [f], c')"
    and f: "cf_transitions (cd_frame f) = [TransButton 1 KeyPressed]"
    by (simp add: read_ready_def sample_set_def sample_node_def sample_events_def sample_event_def report_end_def
        node_touch_def push_def key_state_of_def transition_of_def is_pointer_code_def evdev_button_to_pointer_def
        result_then_def count_event_def with_pointer_def with_touch_state_def finish_def accumulator_default_def Let_def)
  have "\<forall>n \<in> set (cap_nodes sample_set). node_within n"
    by (simp add: sample_set_def sample_node_def node_within_def accumulator_default_def)
  from captured_input_fits_the_session [OF this run] run f sample_limit show ?thesis by auto
qed

end
