(* ===== verification/Keymap.thy ===== *)
theory Keymap
  imports Model
begin

unbundle bit_operations_syntax

text \<open>
  Keyboard modes (\<open>src/src/core/keymap.rs\<close>): the receiver-side stage that maps one peer's physical
  key edges to the edges to inject. \<open>KeyRemap\<close> records which physical keys keep each injected key
  down. Methods return the new state and the edges they push, in order. The letter constants of
  the source (\<open>A\<close>, \<open>B\<close>, \<dots>) carry the prefix \<open>KEY_\<close> here.
\<close>

section \<open>Usages\<close>

abbreviation LCTRL :: HidUsage where
  "LCTRL \<equiv> keyboard 0xe0"

abbreviation LSHIFT :: HidUsage where
  "LSHIFT \<equiv> keyboard 0xe1"

abbreviation LALT :: HidUsage where
  "LALT \<equiv> keyboard 0xe2"

abbreviation LGUI :: HidUsage where
  "LGUI \<equiv> keyboard 0xe3"

abbreviation RCTRL :: HidUsage where
  "RCTRL \<equiv> keyboard 0xe4"

abbreviation RSHIFT :: HidUsage where
  "RSHIFT \<equiv> keyboard 0xe5"

abbreviation RALT :: HidUsage where
  "RALT \<equiv> keyboard 0xe6"

abbreviation RGUI :: HidUsage where
  "RGUI \<equiv> keyboard 0xe7"

abbreviation KEY_A :: HidUsage where
  "KEY_A \<equiv> keyboard 0x04"

abbreviation KEY_B :: HidUsage where
  "KEY_B \<equiv> keyboard 0x05"

abbreviation KEY_C :: HidUsage where
  "KEY_C \<equiv> keyboard 0x06"

abbreviation KEY_D :: HidUsage where
  "KEY_D \<equiv> keyboard 0x07"

abbreviation KEY_E :: HidUsage where
  "KEY_E \<equiv> keyboard 0x08"

abbreviation KEY_F :: HidUsage where
  "KEY_F \<equiv> keyboard 0x09"

abbreviation KEY_H :: HidUsage where
  "KEY_H \<equiv> keyboard 0x0b"

abbreviation KEY_K :: HidUsage where
  "KEY_K \<equiv> keyboard 0x0e"

abbreviation KEY_L :: HidUsage where
  "KEY_L \<equiv> keyboard 0x0f"

abbreviation KEY_M :: HidUsage where
  "KEY_M \<equiv> keyboard 0x10"

abbreviation KEY_N :: HidUsage where
  "KEY_N \<equiv> keyboard 0x11"

abbreviation KEY_P :: HidUsage where
  "KEY_P \<equiv> keyboard 0x13"

abbreviation KEY_Q :: HidUsage where
  "KEY_Q \<equiv> keyboard 0x14"

abbreviation KEY_T :: HidUsage where
  "KEY_T \<equiv> keyboard 0x17"

abbreviation KEY_U :: HidUsage where
  "KEY_U \<equiv> keyboard 0x18"

abbreviation KEY_V :: HidUsage where
  "KEY_V \<equiv> keyboard 0x19"

abbreviation KEY_W :: HidUsage where
  "KEY_W \<equiv> keyboard 0x1a"

abbreviation N1 :: HidUsage where
  "N1 \<equiv> keyboard 0x1e"

abbreviation N2 :: HidUsage where
  "N2 \<equiv> keyboard 0x1f"

abbreviation N3 :: HidUsage where
  "N3 \<equiv> keyboard 0x20"

abbreviation N4 :: HidUsage where
  "N4 \<equiv> keyboard 0x21"

abbreviation N5 :: HidUsage where
  "N5 \<equiv> keyboard 0x22"

abbreviation N6 :: HidUsage where
  "N6 \<equiv> keyboard 0x23"

abbreviation N7 :: HidUsage where
  "N7 \<equiv> keyboard 0x24"

abbreviation N8 :: HidUsage where
  "N8 \<equiv> keyboard 0x25"

abbreviation N9 :: HidUsage where
  "N9 \<equiv> keyboard 0x26"

abbreviation N0 :: HidUsage where
  "N0 \<equiv> keyboard 0x27"

abbreviation BACKSPACE :: HidUsage where
  "BACKSPACE \<equiv> keyboard 0x2a"

abbreviation TAB :: HidUsage where
  "TAB \<equiv> keyboard 0x2b"

abbreviation SPACE :: HidUsage where
  "SPACE \<equiv> keyboard 0x2c"

abbreviation MINUS :: HidUsage where
  "MINUS \<equiv> keyboard 0x2d"

abbreviation EQUAL :: HidUsage where
  "EQUAL \<equiv> keyboard 0x2e"

abbreviation LBRACKET :: HidUsage where
  "LBRACKET \<equiv> keyboard 0x2f"

abbreviation RBRACKET :: HidUsage where
  "RBRACKET \<equiv> keyboard 0x30"

abbreviation GRAVE :: HidUsage where
  "GRAVE \<equiv> keyboard 0x35"

abbreviation NON_US_BACKSLASH :: HidUsage where
  "NON_US_BACKSLASH \<equiv> keyboard 0x64"

abbreviation F1 :: HidUsage where
  "F1 \<equiv> keyboard 0x3a"

abbreviation F2 :: HidUsage where
  "F2 \<equiv> keyboard 0x3b"

abbreviation F3 :: HidUsage where
  "F3 \<equiv> keyboard 0x3c"

abbreviation F4 :: HidUsage where
  "F4 \<equiv> keyboard 0x3d"

abbreviation F5 :: HidUsage where
  "F5 \<equiv> keyboard 0x3e"

abbreviation F6 :: HidUsage where
  "F6 \<equiv> keyboard 0x3f"

abbreviation F7 :: HidUsage where
  "F7 \<equiv> keyboard 0x40"

abbreviation F8 :: HidUsage where
  "F8 \<equiv> keyboard 0x41"

abbreviation F9 :: HidUsage where
  "F9 \<equiv> keyboard 0x42"

abbreviation F10 :: HidUsage where
  "F10 \<equiv> keyboard 0x43"

abbreviation F11 :: HidUsage where
  "F11 \<equiv> keyboard 0x44"

abbreviation F12 :: HidUsage where
  "F12 \<equiv> keyboard 0x45"

abbreviation PRINT_SCREEN :: HidUsage where
  "PRINT_SCREEN \<equiv> keyboard 0x46"

abbreviation HOME :: HidUsage where
  "HOME \<equiv> keyboard 0x4a"

abbreviation PAGE_UP :: HidUsage where
  "PAGE_UP \<equiv> keyboard 0x4b"

abbreviation DELETE :: HidUsage where
  "DELETE \<equiv> keyboard 0x4c"

abbreviation END :: HidUsage where
  "END \<equiv> keyboard 0x4d"

abbreviation PAGE_DOWN :: HidUsage where
  "PAGE_DOWN \<equiv> keyboard 0x4e"

abbreviation RIGHT :: HidUsage where
  "RIGHT \<equiv> keyboard 0x4f"

abbreviation LEFT :: HidUsage where
  "LEFT \<equiv> keyboard 0x50"

abbreviation DOWN :: HidUsage where
  "DOWN \<equiv> keyboard 0x51"

abbreviation UP :: HidUsage where
  "UP \<equiv> keyboard 0x52"

section \<open>The mode and the state\<close>

datatype KeyboardMode = Standard | PcPositions | Mac

definition is_standard :: "KeyboardMode \<Rightarrow> bool" where
  "is_standard mode \<longleftrightarrow> mode = Standard"

record KeyRemap =
  kr_mode :: KeyboardMode
  kr_terminal :: bool
  kr_pointer_busy :: bool
  kr_physical :: "HidUsage fset"
  kr_deferred :: "HidUsage fset"
  kr_owners :: "(HidUsage, HidUsage fset) fmap"
  kr_bound :: "HidUsage fset option"

definition remap_new :: "KeyboardMode \<Rightarrow> KeyRemap" where
  "remap_new mode =
     \<lparr>kr_mode = mode, kr_terminal = False, kr_pointer_busy = False, kr_physical = {||},
      kr_deferred = {||}, kr_owners = fmempty, kr_bound = None\<rparr>"

definition reset :: "KeyboardMode \<Rightarrow> KeyRemap \<Rightarrow> KeyRemap" where
  "reset mode k = (remap_new mode)\<lparr>kr_terminal := kr_terminal k\<rparr>"

definition set_terminal :: "bool \<Rightarrow> KeyRemap \<Rightarrow> KeyRemap" where
  "set_terminal terminal k = k\<lparr>kr_terminal := terminal\<rparr>"

definition injected :: "KeyRemap \<Rightarrow> HidUsage fset" where
  "injected k = fmdom (kr_owners k)"

section \<open>Modifier classes and the shortcut table\<close>

definition CMD :: u8 where "CMD = 1"

definition OPT :: u8 where "OPT = 2"

definition CTRL :: u8 where "CTRL = 4"

definition SHIFT :: u8 where "SHIFT = 8"

lemmas class_bits = CMD_def OPT_def CTRL_def SHIFT_def

definition modifier_class :: "HidUsage \<Rightarrow> u8 option" where
  "modifier_class u =
     (if u = LCTRL \<or> u = RCTRL then Some CTRL
      else if u = LSHIFT \<or> u = RSHIFT then Some SHIFT
      else if u = LALT \<or> u = RALT then Some OPT
      else if u = LGUI \<or> u = RGUI then Some CMD
      else None)"

definition is_modifier :: "HidUsage \<Rightarrow> bool" where
  "is_modifier u \<longleftrightarrow> modifier_class u \<noteq> None"

definition default_output :: "KeyboardMode \<Rightarrow> HidUsage \<Rightarrow> HidUsage" where
  "default_output mode modifier =
     (if mode = PcPositions \<and> modifier = LALT then LGUI
      else if mode = PcPositions \<and> modifier = LGUI then LALT
      else if mode = PcPositions \<and> modifier = RALT then RGUI
      else if mode = PcPositions \<and> modifier = RGUI then RALT
      else if mode = Mac \<and> modifier = LGUI then LCTRL
      else if mode = Mac \<and> modifier = RGUI then RCTRL
      else modifier)"

datatype Context = InTerminal | AnyApp | Gui

datatype Out = Same | OutKey HidUsage

fun resolve :: "Out \<Rightarrow> HidUsage \<Rightarrow> HidUsage" where
  "resolve Same key = key"
| "resolve (OutKey output) key = output"

datatype Action =
    Press "HidUsage list" Out
  | PressWith "HidUsage list" "HidUsage list" Out
  | Hold "HidUsage list" Out
  | Tap HidUsage
  | Block

record Rule =
  ru_context :: Context
  ru_held :: u8
  ru_keys :: "HidUsage list"
  ru_action :: Action

definition rule_matches :: "Rule \<Rightarrow> bool \<Rightarrow> u8 \<Rightarrow> HidUsage \<Rightarrow> bool" where
  "rule_matches r terminal held key \<longleftrightarrow>
     (case ru_context r of InTerminal \<Rightarrow> terminal | AnyApp \<Rightarrow> True | Gui \<Rightarrow> \<not> terminal) \<and>
     held AND (CMD OR OPT OR CTRL) = ru_held r AND (CMD OR OPT OR CTRL) \<and>
     (ru_held r AND SHIFT = 0 \<or> held AND SHIFT \<noteq> 0) \<and>
     (ru_keys r = [] \<or> key \<in> set (ru_keys r))"

definition rule :: "Context \<Rightarrow> u8 \<Rightarrow> HidUsage list \<Rightarrow> Action \<Rightarrow> Rule" where
  "rule context held keys action =
     \<lparr>ru_context = context, ru_held = held, ru_keys = keys, ru_action = action\<rparr>"

definition ANY_KEY :: "HidUsage list" where
  "ANY_KEY = []"

definition RULES :: "Rule list" where
  "RULES =
    [rule AnyApp (CMD OR SHIFT) [LBRACKET] (Press [LCTRL] (OutKey PAGE_UP)),
     rule AnyApp (CMD OR SHIFT) [RBRACKET] (Press [LCTRL] (OutKey PAGE_DOWN)),
     rule AnyApp (CMD OR SHIFT) [N3] (Press [LSHIFT] (OutKey PRINT_SCREEN)),
     rule AnyApp (CMD OR SHIFT) [N4, N5] (Press [] (OutKey PRINT_SCREEN)),
     rule InTerminal CMD [KEY_C, KEY_V, KEY_T, KEY_N, KEY_W, KEY_F, KEY_Q] (PressWith [LCTRL] [LSHIFT] Same),
     rule InTerminal CMD [KEY_K] (Press [LCTRL] (OutKey KEY_L)),
     rule InTerminal CMD [EQUAL] (PressWith [LCTRL] [LSHIFT] Same),
     rule InTerminal CMD [MINUS, N0] (Press [LCTRL] Same),
     rule InTerminal CMD [N1, N2, N3, N4, N5] (Press [LALT] Same),
     rule InTerminal CMD [N6, N7, N8, N9] (Press [LALT] Same),
     rule InTerminal OPT [LEFT] (Press [LALT] (OutKey KEY_B)),
     rule InTerminal OPT [RIGHT] (Press [LALT] (OutKey KEY_F)),
     rule InTerminal OPT [BACKSPACE] (Press [LCTRL] (OutKey KEY_W)),
     rule InTerminal CMD [BACKSPACE] (Press [LCTRL] (OutKey KEY_U)),
     rule AnyApp CMD [TAB] (Hold [LALT] Same),
     rule AnyApp CMD [GRAVE, NON_US_BACKSLASH] (Hold [LALT] (OutKey GRAVE)),
     rule AnyApp CMD [SPACE] (Tap LGUI),
     rule AnyApp CMD [LEFT] (Press [] (OutKey HOME)),
     rule AnyApp CMD [RIGHT] (Press [] (OutKey END)),
     rule AnyApp CMD [UP] (Press [LCTRL] (OutKey HOME)),
     rule AnyApp CMD [DOWN] (Press [LCTRL] (OutKey END)),
     rule AnyApp CMD [KEY_H, KEY_M] (Press [LGUI] (OutKey KEY_H)),
     rule AnyApp (CTRL OR CMD) [KEY_Q] (Press [LGUI] (OutKey KEY_L)),
     rule AnyApp (CTRL OR CMD) [KEY_F] (Press [] (OutKey F11)),
     rule AnyApp (CTRL OR CMD) ANY_KEY (Block),
     rule AnyApp (CTRL OR CMD OR OPT) ANY_KEY (Block),
     rule AnyApp (CMD OR OPT) [LEFT] (Press [LCTRL] (OutKey PAGE_UP)),
     rule AnyApp (CMD OR OPT) [RIGHT] (Press [LCTRL] (OutKey PAGE_DOWN)),
     rule AnyApp (CMD OR OPT) [F1, F2, F3, F4, F5, F6] (Block),
     rule AnyApp (CMD OR OPT) [F7, F8, F9, F10, F11, F12] (Block),
     rule AnyApp (CMD OR OPT) [BACKSPACE, DELETE, UP, DOWN] (Block),
     rule AnyApp CTRL [LEFT] (Press [LGUI] (OutKey PAGE_UP)),
     rule AnyApp CTRL [RIGHT] (Press [LGUI] (OutKey PAGE_DOWN)),
     rule AnyApp CTRL [UP] (Tap LGUI),
     rule Gui OPT [LEFT, RIGHT, BACKSPACE, DELETE] (Press [LCTRL] Same),
     rule Gui CTRL [KEY_A] (Press [] (OutKey HOME)),
     rule Gui CTRL [KEY_E] (Press [] (OutKey END)),
     rule Gui CTRL [KEY_B] (Press [] (OutKey LEFT)),
     rule Gui CTRL [KEY_F] (Press [] (OutKey RIGHT)),
     rule Gui CTRL [KEY_N] (Press [] (OutKey DOWN)),
     rule Gui CTRL [KEY_P] (Press [] (OutKey UP)),
     rule Gui CTRL [KEY_D] (Press [] (OutKey DELETE)),
     rule Gui CTRL [KEY_H] (Press [] (OutKey BACKSPACE)),
     rule InTerminal CMD ANY_KEY (Block),
     rule InTerminal (CMD OR OPT) ANY_KEY (Block)]"

definition held_classes :: "KeyRemap \<Rightarrow> u8" where
  "held_classes k =
     fold (\<lambda>held classes. case modifier_class held of None \<Rightarrow> classes | Some class \<Rightarrow> classes OR class)
       (sorted_list_of_fset (kr_physical k)) 0"

definition lookup :: "HidUsage \<Rightarrow> KeyRemap \<Rightarrow> Rule option" where
  "lookup key k =
     (if kr_mode k \<noteq> Mac then None
      else find (\<lambda>r. rule_matches r (kr_terminal k) (held_classes k) key) RULES)"

definition rule_outputs :: "Rule \<Rightarrow> HidUsage list" where
  "rule_outputs r =
     (let out_usages = (\<lambda>out. case out of Same \<Rightarrow> ru_keys r | OutKey output \<Rightarrow> [output]) in
      case ru_action r of
        Press mods out \<Rightarrow> mods @ out_usages out
      | Hold mods out \<Rightarrow> mods @ out_usages out
      | PressWith mods key_mods out \<Rightarrow> mods @ key_mods @ out_usages out
      | Tap output \<Rightarrow> [output]
      | Block \<Rightarrow> [])"

definition output_usages :: "HidUsage fset" where
  "output_usages = fold (\<lambda>r outputs. outputs |\<union>| fset_of_list (rule_outputs r)) RULES {||}"

section \<open>Ownership\<close>

type_synonym owners = "(HidUsage, HidUsage fset) fmap"
type_synonym edges = "HidUsage edge list"

text \<open>\<open>entry(output).or_default().insert(owner)\<close>.\<close>

definition add_owner :: "HidUsage \<Rightarrow> HidUsage \<Rightarrow> owners \<Rightarrow> owners" where
  "add_owner output owner m =
     fmupd output (finsert owner (case fmlookup m output of None \<Rightarrow> {||} | Some os \<Rightarrow> os)) m"

definition own :: "HidUsage \<Rightarrow> HidUsage \<Rightarrow> KeyRemap \<Rightarrow> KeyRemap \<times> edges" where
  "own output owner k =
     (k\<lparr>kr_owners := add_owner output owner (kr_owners k)\<rparr>,
      case fmlookup (kr_owners k) output of None \<Rightarrow> [(output, True)] | Some _ \<Rightarrow> [])"

definition owns_any :: "HidUsage \<Rightarrow> KeyRemap \<Rightarrow> bool" where
  "owns_any key k \<longleftrightarrow> list_ex (\<lambda>os. key |\<in>| os) (fm_values (kr_owners k))"

text \<open>The loops that own the default output of each modifier of a list.\<close>

fun own_defaults :: "HidUsage list \<Rightarrow> KeyRemap \<Rightarrow> KeyRemap \<times> edges" where
  "own_defaults [] k = (k, [])"
| "own_defaults (modifier # modifiers) k =
     (let (k1, e1) = own (default_output (kr_mode k) modifier) modifier k;
          (k2, e2) = own_defaults modifiers k1
      in (k2, e1 @ e2))"

definition wanted_for :: "KeyboardMode \<Rightarrow> u8 \<Rightarrow> HidUsage list \<Rightarrow> HidUsage \<Rightarrow> owners \<Rightarrow> owners" where
  "wanted_for mode consumed mods held wanted =
     (case modifier_class held of
        None \<Rightarrow> wanted
      | Some class \<Rightarrow>
          if class AND consumed = 0 then add_owner (default_output mode held) held wanted
          else fold (\<lambda>output. add_owner output held) mods wanted)"

definition wanted_modifiers :: "u8 \<Rightarrow> HidUsage list \<Rightarrow> HidUsage list \<Rightarrow> HidUsage \<Rightarrow> KeyRemap \<Rightarrow> owners" where
  "wanted_modifiers consumed mods key_mods key k =
     fold (\<lambda>output. add_owner output key) key_mods
       (fold (wanted_for (kr_mode k) consumed mods) (sorted_list_of_fset (kr_physical k)) fmempty)"

fun insert_wanted :: "(HidUsage \<times> HidUsage fset) list \<Rightarrow> owners \<Rightarrow> owners \<times> edges" where
  "insert_wanted [] m = (m, [])"
| "insert_wanted ((output, os) # rest) m =
     (let e1 = (case fmlookup m output of None \<Rightarrow> [(output, True)] | Some _ \<Rightarrow> []);
          (m', e2) = insert_wanted rest (fmupd output os m)
      in (m', e1 @ e2))"

definition set_modifiers ::
  "u8 \<Rightarrow> HidUsage list \<Rightarrow> HidUsage list \<Rightarrow> HidUsage \<Rightarrow> KeyRemap \<Rightarrow> KeyRemap \<times> edges"
where
  "set_modifiers consumed mods key_mods key k =
     (let wanted = wanted_modifiers consumed mods key_mods key k;
          unwanted = filter (\<lambda>output. is_modifier output \<and> fmlookup wanted output = None)
            (sorted_list_of_fset (fmdom (kr_owners k)));
          kept = fold fmdrop unwanted (kr_owners k);
          (owners', pressed) = insert_wanted (sorted_list_of_fmap wanted) kept
      in (k\<lparr>kr_deferred := {||}, kr_owners := owners'\<rparr>,
          map (\<lambda>output. (output, False)) unwanted @ pressed))"

section \<open>Presses and releases\<close>

definition press_modifier :: "HidUsage \<Rightarrow> u8 \<Rightarrow> KeyRemap \<Rightarrow> KeyRemap \<times> edges" where
  "press_modifier modifier class k =
     (if kr_mode k = Mac \<and> class = OPT \<and> \<not> kr_pointer_busy k \<and> fBall (kr_physical k) is_modifier
      then (k\<lparr>kr_deferred := finsert modifier (kr_deferred k)\<rparr>, [])
      else own (default_output (kr_mode k) modifier) modifier k)"

text \<open>\<open>set_modifiers\<close> and then \<open>own\<close>: what every rule that presses a key does.\<close>

definition chord ::
  "u8 \<Rightarrow> HidUsage list \<Rightarrow> HidUsage list \<Rightarrow> HidUsage \<Rightarrow> HidUsage \<Rightarrow> KeyRemap \<Rightarrow> KeyRemap \<times> edges"
where
  "chord consumed mods key_mods output key k =
     (let (k1, e1) = set_modifiers consumed mods key_mods key k; (k2, e2) = own output key k1
      in (k2, e1 @ e2))"

definition remap_press_key :: "HidUsage \<Rightarrow> KeyRemap \<Rightarrow> KeyRemap \<times> edges" where
  "remap_press_key key k =
     (if kr_bound k \<noteq> None
      then
        let idle = filter (\<lambda>held. is_modifier held \<and> \<not> owns_any held k) (sorted_list_of_fset (kr_physical k));
            (k1, e1) = own_defaults idle k;
            (k2, e2) = own key key (k1\<lparr>kr_deferred := {||}\<rparr>)
        in (k2, e1 @ e2)
      else
        case lookup key k of
          None \<Rightarrow> chord 0 [] [] key key k
        | Some r \<Rightarrow>
           (case ru_action r of
              Block \<Rightarrow> (k, [])
            | Tap output \<Rightarrow>
                (let (k1, e1) = set_modifiers (ru_held r) [] [] key k
                 in (k1, e1 @ (if fmlookup (kr_owners k1) output = None
                               then [(output, True), (output, False)] else [])))
            | Press mods output \<Rightarrow> chord (ru_held r) mods [] (resolve output key) key k
            | PressWith mods key_mods output \<Rightarrow> chord (ru_held r) mods key_mods (resolve output key) key k
            | Hold mods output \<Rightarrow>
                (let (k1, e1) = chord (ru_held r) mods [] (resolve output key) key k;
                     bound = fset_of_list (filter (\<lambda>output. fmlookup (kr_owners k1) output \<noteq> None) mods)
                 in (k1\<lparr>kr_bound := (if bound \<noteq> {||} then Some bound else None)\<rparr>, e1))))"

definition freed_by :: "HidUsage \<Rightarrow> owners \<Rightarrow> HidUsage list" where
  "freed_by key m =
     filter (\<lambda>output. case fmlookup m output of None \<Rightarrow> False | Some os \<Rightarrow> os |-| {|key|} = {||})
       (sorted_list_of_fset (fmdom m))"

definition release :: "HidUsage \<Rightarrow> KeyRemap \<Rightarrow> KeyRemap \<times> edges" where
  "release key k =
     (let freed = sort_key is_modifier (freed_by key (kr_owners k));
          owners' = fmfilter (\<lambda>output. output \<notin> set freed) (fmmap (\<lambda>os. os |-| {|key|}) (kr_owners k));
          bound' = fold (\<lambda>output bound. case bound of
                           Some b \<Rightarrow> if output |\<in>| b then None else bound | None \<Rightarrow> None) freed (kr_bound k)
      in (k\<lparr>kr_deferred := kr_deferred k |-| {|key|}, kr_owners := owners', kr_bound := bound'\<rparr>,
          map (\<lambda>output. (output, False)) freed))"

definition remap_key :: "HidUsage \<Rightarrow> bool \<Rightarrow> KeyRemap \<Rightarrow> KeyRemap \<times> edges" where
  "remap_key u pressed k =
     (if \<not> pressed
      then (if u |\<in>| kr_physical k
            then release u (k\<lparr>kr_physical := kr_physical k |-| {|u|}\<rparr>) else (k, []))
      else if u |\<notin>| kr_physical k
      then (let k1 = k\<lparr>kr_physical := finsert u (kr_physical k)\<rparr> in
            case modifier_class u of
              Some class \<Rightarrow> press_modifier u class k1
            | None \<Rightarrow> remap_press_key u k1)
      else (k, []))"

definition pointer :: "bool \<Rightarrow> KeyRemap \<Rightarrow> KeyRemap \<times> edges" where
  "pointer busy k =
     (let (k1, e1) = own_defaults (sorted_list_of_fset (kr_deferred k)) (k\<lparr>kr_deferred := {||}\<rparr>)
      in (k1\<lparr>kr_pointer_busy := busy\<rparr>, e1))"

definition pointer_released :: "bool \<Rightarrow> KeyRemap \<Rightarrow> KeyRemap" where
  "pointer_released busy k = k\<lparr>kr_pointer_busy := busy\<rparr>"

text \<open>Every public call that keeps the held keys, as one step function.\<close>

datatype RemapOp = RemapKey HidUsage bool | RemapPointer bool | RemapPointerReleased bool | RemapTerminal bool

fun remap_step :: "RemapOp \<Rightarrow> KeyRemap \<Rightarrow> KeyRemap \<times> edges" where
  "remap_step (RemapKey u pressed) k = remap_key u pressed k"
| "remap_step (RemapPointer busy) k = pointer busy k"
| "remap_step (RemapPointerReleased busy) k = (pointer_released busy k, [])"
| "remap_step (RemapTerminal terminal) k = (set_terminal terminal k, [])"

section \<open>Edges and the injected keys\<close>

definition emits :: "KeyRemap \<Rightarrow> KeyRemap \<times> edges \<Rightarrow> bool" where
  "emits k res \<longleftrightarrow> replay_edges (snd res) (injected k) = Some (injected (fst res))"

lemma fmdom_add_owner [simp]: "fmdom (add_owner output owner m) = finsert output (fmdom m)"
  by (simp add: add_owner_def)

lemma emits_own: "emits k (own output owner k)"
  by (auto simp: emits_def own_def injected_def fmlookup_dom_iff finsert_absorb split: option.splits)

lemma emits_trans: "emits k (k1, e1) \<Longrightarrow> emits k1 (k2, e2) \<Longrightarrow> emits k (k2, e1 @ e2)"
  by (simp add: emits_def replay_append)

lemma emits_same: "kr_owners k' = kr_owners k \<Longrightarrow> emits k (k', [])"
  by (simp add: emits_def injected_def)

lemma emits_cong: "kr_owners k' = kr_owners k \<Longrightarrow> emits k' res \<Longrightarrow> emits k res"
  "kr_owners k2 = kr_owners k1 \<Longrightarrow> emits k (k1, e) \<Longrightarrow> emits k (k2, e)"
  by (simp_all add: emits_def injected_def)

lemma emits_own_defaults: "emits k (own_defaults modifiers k)"
proof (induction modifiers k rule: own_defaults.induct)
  case (2 modifier modifiers k)
  obtain k1 e1 where o: "own (default_output (kr_mode k) modifier) modifier k = (k1, e1)"
    by (cases "own (default_output (kr_mode k) modifier) modifier k")
  obtain k2 e2 where d: "own_defaults modifiers k1 = (k2, e2)" by (cases "own_defaults modifiers k1")
  have "emits k (k1, e1)" "emits k1 (k2, e2)"
    using emits_own [of k "default_output (kr_mode k) modifier" modifier] 2(1) [OF o [symmetric] refl] o d by simp_all
  then show ?case by (simp add: o d emits_trans)
qed (simp add: emits_same)

lemma insert_wanted_eq:
  "distinct (map fst xs) \<Longrightarrow>
   insert_wanted xs m =
     (m ++\<^sub>f fmap_of_list xs, map (\<lambda>(output, _). (output, True)) (filter (\<lambda>(output, _). fmlookup m output = None) xs))"
proof (induction xs m rule: insert_wanted.induct)
  case (2 x os rest m)
  have m: "fmupd x os m ++\<^sub>f fmap_of_list rest = m ++\<^sub>f fmupd x os (fmap_of_list rest)"
  proof (rule fmap_ext)
    fix i
    have "x |\<notin>| fmdom (fmap_of_list rest)" using "2.prems" by (auto simp: fset_of_list.rep_eq)
    then show "fmlookup (fmupd x os m ++\<^sub>f fmap_of_list rest) i = fmlookup (m ++\<^sub>f fmupd x os (fmap_of_list rest)) i"
      by auto
  qed
  have "filter (\<lambda>(out, _). fmlookup (fmupd x os m) out = None) rest = filter (\<lambda>(out, _). fmlookup m out = None) rest"
    using "2.prems" by (intro filter_cong) (force split: prod.splits)+
  with 2 m show ?case by (auto simp: Let_def split: option.splits)
qed simp

lemma fmdom_fold_fmdrop: "fmdom (fold fmdrop xs m) = fmdom m |-| fset_of_list xs"
  by (induction xs arbitrary: m) (auto simp: fset_eq_iff)

lemma fmlookup_fold_fmdrop: "fmlookup (fold fmdrop xs m) i = (if i \<in> set xs then None else fmlookup m i)"
  by (induction xs arbitrary: m) auto

lemma sorted_list_of_fmap_keys: "map fst (sorted_list_of_fmap m) = sorted_list_of_fset (fmdom m)"
  by (simp add: sorted_list_of_fmap_def comp_def)

text \<open>What \<open>set_modifiers\<close> leaves: the wanted modifiers, and of the rest what is no modifier.\<close>

lemma fmlookup_set_modifiers:
  "fmlookup (kr_owners (fst (set_modifiers consumed mods key_mods key k))) output =
     (case fmlookup (wanted_modifiers consumed mods key_mods key k) output of
        Some os \<Rightarrow> Some os
      | None \<Rightarrow> if is_modifier output then None else fmlookup (kr_owners k) output)"
  by (auto simp: set_modifiers_def Let_def case_prod_beta insert_wanted_eq sorted_list_of_fmap_keys
      fmlookup_fold_fmdrop fmlookup_dom_iff split: option.splits)

lemma set_modifiers_simps [simp]:
  "kr_mode (fst (set_modifiers consumed mods key_mods key k)) = kr_mode k"
  "kr_terminal (fst (set_modifiers consumed mods key_mods key k)) = kr_terminal k"
  "kr_physical (fst (set_modifiers consumed mods key_mods key k)) = kr_physical k"
  "kr_deferred (fst (set_modifiers consumed mods key_mods key k)) = {||}"
  "kr_bound (fst (set_modifiers consumed mods key_mods key k)) = kr_bound k"
  by (simp_all add: set_modifiers_def Let_def case_prod_beta)

lemma replay_mono_press:
  assumes "distinct xs"
  shows "replay_edges (map (\<lambda>x. (x, True)) (filter (\<lambda>x. x |\<notin>| B) xs)) B = Some (fset_of_list xs |\<union>| B)"
proof -
  have "replay_edges (map (\<lambda>x. (x, True)) (filter (\<lambda>x. x |\<notin>| B) xs)) B =
      Some (fset_of_list (filter (\<lambda>x. x |\<notin>| B) xs) |\<union>| B)"
    using assms by (intro replay_presses) auto
  also have "fset_of_list (filter (\<lambda>x. x |\<notin>| B) xs) |\<union>| B = fset_of_list xs |\<union>| B"
    by (auto simp: fset_eq_iff fset_of_list.rep_eq)
  finally show ?thesis .
qed

lemma emits_set_modifiers: "emits k (set_modifiers consumed mods key_mods key k)"
proof -
  define w where "w = wanted_modifiers consumed mods key_mods key k"
  define u where "u = filter (\<lambda>out. is_modifier out \<and> fmlookup w out = None) (sorted_list_of_fset (fmdom (kr_owners k)))"
  define B where "B = fmdom (kr_owners k) |-| fset_of_list u"
  have 1: "replay_edges (map (\<lambda>x. (x, False)) u) (fmdom (kr_owners k)) = Some B"
    unfolding B_def by (intro replay_releases) (auto simp: u_def)
  have 2: "map (\<lambda>(out, _). (out, True))
      (filter (\<lambda>(out, _). fmlookup (fold fmdrop u (kr_owners k)) out = None) (sorted_list_of_fmap w)) =
     map (\<lambda>x. (x, True)) (filter (\<lambda>x. x |\<notin>| B) (sorted_list_of_fset (fmdom w)))"
    unfolding sorted_list_of_fmap_def
    by (auto simp: filter_map comp_def B_def fmlookup_fold_fmdrop fmlookup_dom_iff fset_of_list.rep_eq
        intro!: arg_cong [where f = "map _"] filter_cong)
  have "set_modifiers consumed mods key_mods key k =
      (k\<lparr>kr_deferred := {||}, kr_owners := fold fmdrop u (kr_owners k) ++\<^sub>f w\<rparr>,
       map (\<lambda>x. (x, False)) u @ map (\<lambda>x. (x, True)) (filter (\<lambda>x. x |\<notin>| B) (sorted_list_of_fset (fmdom w))))"
    unfolding 2 [symmetric]
    by (simp add: set_modifiers_def Let_def insert_wanted_eq sorted_list_of_fmap_keys u_def w_def)
  then show ?thesis
    by (simp add: emits_def injected_def replay_append 1 replay_mono_press fmdom_fold_fmdrop)
      (auto simp: B_def fset_eq_iff)
qed

lemma emits_chord: "emits k (chord consumed mods key_mods out key k)"
proof -
  obtain k1 e1 where s: "set_modifiers consumed mods key_mods key k = (k1, e1)"
    by (cases "set_modifiers consumed mods key_mods key k")
  obtain k2 e2 where o: "own out key k1 = (k2, e2)" by (cases "own out key k1")
  from emits_set_modifiers [of k consumed mods key_mods key] emits_own [of k1 out key] s o show ?thesis
    by (auto simp: chord_def intro: emits_trans)
qed

lemma set_freed_by:
  "set (freed_by key m) = {output. \<exists>os. fmlookup m output = Some os \<and> os |-| {|key|} = {||}}"
  by (auto simp: freed_by_def fmlookup_dom_iff split: option.splits)

lemma emits_release: "emits k (release key k)"
proof -
  let ?f = "sort_key is_modifier (freed_by key (kr_owners k))"
  have "distinct ?f" by (simp add: freed_by_def)
  moreover have "set ?f \<subseteq> fset (fmdom (kr_owners k))" by (auto simp: set_freed_by fmlookup_dom_iff)
  ultimately have "replay_edges (map (\<lambda>output. (output, False)) ?f) (fmdom (kr_owners k)) =
      Some (fmdom (kr_owners k) |-| fset_of_list ?f)" by (rule replay_releases)
  then show ?thesis
    by (auto simp: emits_def release_def Let_def injected_def fset_eq_iff fmlookup_dom_iff fset_of_list.rep_eq)
qed

lemma emits_press_key: "emits k (remap_press_key key k)"
proof (cases "kr_bound k")
  case (Some b)
  let ?idle = "filter (\<lambda>held. is_modifier held \<and> \<not> owns_any held k) (sorted_list_of_fset (kr_physical k))"
  obtain k1 e1 where d: "own_defaults ?idle k = (k1, e1)" by (cases "own_defaults ?idle k")
  with emits_own_defaults [of k ?idle] have "emits k (k1, e1)" by simp
  moreover have "emits k1 (own key key (k1\<lparr>kr_deferred := {||}\<rparr>))"
    by (rule emits_cong(1) [OF _ emits_own]) simp
  ultimately show ?thesis
    using Some d by (auto simp: remap_press_key_def Let_def split: prod.splits intro: emits_trans)
next
  case None
  show ?thesis
  proof (cases "lookup key k")
    case (Some r)
    show ?thesis
    proof (cases "ru_action r")
      case (Tap out)
      obtain k1 e1 where s: "set_modifiers (ru_held r) [] [] key k = (k1, e1)"
        by (cases "set_modifiers (ru_held r) [] [] key k")
      with emits_set_modifiers [of k "ru_held r" "[]" "[]" key] have "emits k (k1, e1)" by simp
      moreover have "emits k1 (k1, if fmlookup (kr_owners k1) out = None
                               then [(out, True), (out, False)] else [])"
        by (auto simp: emits_def injected_def fmlookup_dom_iff fset_eq_iff)
      ultimately show ?thesis
        using None Some Tap s by (simp add: remap_press_key_def emits_trans)
    next
      case (Hold mods out)
      with None Some emits_chord [of k "ru_held r" mods "[]" "resolve out key" key] show ?thesis
        by (auto simp: remap_press_key_def Let_def emits_def injected_def split: prod.splits)
    qed (use None Some emits_chord in \<open>simp_all add: remap_press_key_def emits_same\<close>)
  qed (use None emits_chord in \<open>simp add: remap_press_key_def\<close>)
qed

lemma emits_step: "emits k (remap_step op k)"
proof (cases op)
  case (RemapKey u pressed)
  have "emits k (release u (k\<lparr>kr_physical := P\<rparr>))" "emits k (remap_press_key u (k\<lparr>kr_physical := P\<rparr>))"
    "emits k (own out u (k\<lparr>kr_physical := P\<rparr>))" for P out
    by (rule emits_cong(1) [OF _ emits_release] emits_cong(1) [OF _ emits_press_key] emits_cong(1) [OF _ emits_own], simp)+
  then show ?thesis
    by (auto simp: RemapKey remap_key_def press_modifier_def Let_def emits_same split: option.splits)
next
  case (RemapPointer busy)
  have "emits k (own_defaults (sorted_list_of_fset (kr_deferred k)) (k\<lparr>kr_deferred := {||}\<rparr>))"
    by (rule emits_cong(1) [OF _ emits_own_defaults]) simp
  then show ?thesis
    by (auto simp: RemapPointer pointer_def Let_def emits_def injected_def split: prod.splits)
qed (simp_all add: emits_same pointer_released_def set_terminal_def)

section \<open>The invariant\<close>

lemma output_usages_iff: "x |\<in>| output_usages \<longleftrightarrow> (\<exists>r \<in> set RULES. x \<in> set (rule_outputs r))"
proof -
  have "x |\<in>| fold (\<lambda>r outputs. outputs |\<union>| fset_of_list (rule_outputs r)) rs A \<longleftrightarrow>
      x |\<in>| A \<or> (\<exists>r \<in> set rs. x \<in> set (rule_outputs r))" for rs A
    by (induction rs arbitrary: A) (auto simp: fset_of_list.rep_eq)
  then show ?thesis by (simp add: output_usages_def)
qed

text \<open>Why a physical key may keep an injected key down.\<close>

definition justified :: "KeyboardMode \<Rightarrow> HidUsage \<Rightarrow> HidUsage \<Rightarrow> bool" where
  "justified mode out owner \<longleftrightarrow> out = owner \<or> out = default_output mode owner \<or> out |\<in>| output_usages"

definition owners_ok :: "KeyboardMode \<Rightarrow> HidUsage fset \<Rightarrow> owners \<Rightarrow> bool" where
  "owners_ok mode held m \<longleftrightarrow>
     (\<forall>out os. fmlookup m out = Some os \<longrightarrow> os \<noteq> {||} \<and> os |\<subseteq>| held \<and> (\<forall>owner. owner |\<in>| os \<longrightarrow> justified mode out owner))"

definition remap_wf :: "KeyRemap \<Rightarrow> bool" where
  "remap_wf k \<longleftrightarrow>
     owners_ok (kr_mode k) (kr_physical k) (kr_owners k) \<and>
     kr_deferred k |\<subseteq>| kr_physical k \<and>
     (\<forall>b. kr_bound k = Some b \<longrightarrow> b \<noteq> {||} \<and> b |\<subseteq>| fmdom (kr_owners k))"

lemma remap_new_wf: "remap_wf (remap_new mode)"
  by (simp add: remap_wf_def remap_new_def owners_ok_def)

lemma owners_ok_add:
  "owners_ok mode P m \<Longrightarrow> owner |\<in>| P \<Longrightarrow> justified mode out owner \<Longrightarrow> owners_ok mode P (add_owner out owner m)"
  by (auto simp: owners_ok_def add_owner_def split: option.splits if_splits)

lemma owners_ok_fold_add:
  "owners_ok mode P m \<Longrightarrow> owner |\<in>| P \<Longrightarrow> (\<And>out. out \<in> set outs \<Longrightarrow> justified mode out owner) \<Longrightarrow>
     owners_ok mode P (fold (\<lambda>out. add_owner out owner) outs m)"
  by (induction outs arbitrary: m) (auto intro: owners_ok_add)

lemma owners_ok_wanted_fold:
  assumes "\<And>out owner. out \<in> set mods \<Longrightarrow> justified mode out owner"
  shows "owners_ok mode P m \<Longrightarrow> set xs \<subseteq> fset P \<Longrightarrow> owners_ok mode P (fold (wanted_for mode consumed mods) xs m)"
proof (induction xs arbitrary: m)
  case (Cons x xs)
  have "owners_ok mode P (wanted_for mode consumed mods x m)"
    using Cons.prems assms
    by (auto simp: wanted_for_def justified_def split: option.splits intro!: owners_ok_add owners_ok_fold_add)
  with Cons show ?case by simp
qed simp

lemma owners_ok_wanted:
  assumes "\<And>out owner. out \<in> set mods \<union> set key_mods \<Longrightarrow> justified (kr_mode k) out owner" and "key |\<in>| kr_physical k"
  shows "owners_ok (kr_mode k) (kr_physical k) (wanted_modifiers consumed mods key_mods key k)"
  unfolding wanted_modifiers_def
  using assms by (intro owners_ok_fold_add owners_ok_wanted_fold) (auto simp: owners_ok_def)

lemma owners_ok_set_modifiers:
  assumes "owners_ok (kr_mode k) (kr_physical k) (kr_owners k)" and "key |\<in>| kr_physical k"
    and "\<And>out owner. out \<in> set mods \<union> set key_mods \<Longrightarrow> justified (kr_mode k) out owner"
  shows "owners_ok (kr_mode k) (kr_physical k) (kr_owners (fst (set_modifiers consumed mods key_mods key k)))"
  using assms(1) owners_ok_wanted [of mods key_mods k key consumed, OF assms(3,2)]
  by (auto simp: owners_ok_def fmlookup_set_modifiers split: option.splits if_splits)

lemma own_simps [simp]:
  "kr_mode (fst (own out owner k)) = kr_mode k" "kr_physical (fst (own out owner k)) = kr_physical k"
  "kr_deferred (fst (own out owner k)) = kr_deferred k" "kr_bound (fst (own out owner k)) = kr_bound k"
  "kr_terminal (fst (own out owner k)) = kr_terminal k"
  "kr_owners (fst (own out owner k)) = add_owner out owner (kr_owners k)"
  by (simp_all add: own_def)

lemma remap_wf_own:
  assumes "remap_wf k" and "owner |\<in>| kr_physical k" and "justified (kr_mode k) out owner"
  shows "remap_wf (fst (own out owner k))"
  using assms owners_ok_add [of "kr_mode k" "kr_physical k" "kr_owners k" owner out] by (auto simp: remap_wf_def)

lemma own_defaults_simps [simp]:
  "kr_mode (fst (own_defaults ms k)) = kr_mode k" "kr_physical (fst (own_defaults ms k)) = kr_physical k"
  by (induction ms arbitrary: k) (auto simp: case_prod_beta Let_def)

lemma remap_wf_own_defaults:
  "remap_wf k \<Longrightarrow> set ms \<subseteq> fset (kr_physical k) \<Longrightarrow> remap_wf (fst (own_defaults ms k))"
proof (induction ms arbitrary: k)
  case (Cons m ms)
  then have "remap_wf (fst (own (default_output (kr_mode k) m) m k))"
    by (intro remap_wf_own) (auto simp: justified_def)
  with Cons show ?case by (simp add: case_prod_beta Let_def)
qed simp

lemma remap_wf_no_deferred: "remap_wf k \<Longrightarrow> remap_wf (k\<lparr>kr_deferred := {||}\<rparr>)"
  by (simp add: remap_wf_def)

lemma chord_simps [simp]:
  "kr_mode (fst (chord consumed mods key_mods out key k)) = kr_mode k"
  "kr_physical (fst (chord consumed mods key_mods out key k)) = kr_physical k"
  "kr_bound (fst (chord consumed mods key_mods out key k)) = kr_bound k"
  by (simp_all add: chord_def Let_def case_prod_beta)

lemma remap_wf_set_modifiers:
  assumes "remap_wf k" and "kr_bound k = None" and "key |\<in>| kr_physical k"
    and "\<And>out owner. out \<in> set mods \<union> set key_mods \<Longrightarrow> justified (kr_mode k) out owner"
  shows "remap_wf (fst (set_modifiers consumed mods key_mods key k))"
  using assms owners_ok_set_modifiers [of k key mods key_mods consumed] by (auto simp: remap_wf_def)

lemma remap_wf_chord:
  assumes "remap_wf k" and "kr_bound k = None" and "key |\<in>| kr_physical k"
    and "\<And>out owner. out \<in> set mods \<union> set key_mods \<Longrightarrow> justified (kr_mode k) out owner"
    and "justified (kr_mode k) out key"
  shows "remap_wf (fst (chord consumed mods key_mods out key k))"
  using remap_wf_own [OF remap_wf_set_modifiers [of k key mods key_mods consumed, OF assms(1-4)], of key out] assms(3,5)
  by (simp add: chord_def Let_def case_prod_beta)

lemma lookup_Some: "lookup key k = Some r \<Longrightarrow>
    r \<in> set RULES \<and> rule_matches r (kr_terminal k) (held_classes k) key \<and> kr_mode k = Mac"
  by (auto simp: lookup_def find_Some_iff split: if_splits)

lemma rule_justified:
  assumes "r \<in> set RULES"
  shows "ru_action r = Press mods out \<Longrightarrow> x \<in> set mods \<Longrightarrow> justified mode x owner"
    and "ru_action r = Hold mods out \<Longrightarrow> x \<in> set mods \<Longrightarrow> justified mode x owner"
    and "ru_action r = PressWith mods key_mods out \<Longrightarrow> x \<in> set mods \<union> set key_mods \<Longrightarrow> justified mode x owner"
    and "ru_action r = Press mods out \<or> ru_action r = Hold mods out \<or> ru_action r = PressWith mods key_mods out \<Longrightarrow>
           justified mode (resolve out key) key"
    and "ru_action r = Tap x \<Longrightarrow> x |\<in>| output_usages"
  using assms
  by (cases out; force simp: justified_def output_usages_iff rule_outputs_def)+

lemma remap_wf_press_key:
  assumes "remap_wf k" and "key |\<in>| kr_physical k"
  shows "remap_wf (fst (remap_press_key key k))"
proof (cases "kr_bound k")
  case (Some b)
  let ?idle = "filter (\<lambda>held. is_modifier held \<and> \<not> owns_any held k) (sorted_list_of_fset (kr_physical k))"
  have "remap_wf (fst (own_defaults ?idle k))" using assms(1) by (intro remap_wf_own_defaults) auto
  from remap_wf_own [OF remap_wf_no_deferred [OF this], of key key] assms(2) Some show ?thesis
    by (simp add: remap_press_key_def Let_def case_prod_beta justified_def)
next
  case None
  show ?thesis
  proof (cases "lookup key k")
    case None': None
    with None remap_wf_chord [OF assms(1) None assms(2), of "[]" "[]" key 0] show ?thesis
      by (simp add: remap_press_key_def justified_def)
  next
    case (Some r)
    then have r: "r \<in> set RULES" using lookup_Some by blast
    show ?thesis
    proof (cases "ru_action r")
      case (Press mods out)
      with None Some remap_wf_chord [OF assms(1) None assms(2), of mods "[]" "resolve out key" "ru_held r"]
        rule_justified(1,4) [OF r] show ?thesis by (simp add: remap_press_key_def)
    next
      case (PressWith mods key_mods out)
      with None Some remap_wf_chord [OF assms(1) None assms(2), of mods key_mods "resolve out key" "ru_held r"]
        rule_justified(3,4) [OF r] show ?thesis by (simp add: remap_press_key_def)
    next
      case (Hold mods out)
      with None Some remap_wf_chord [OF assms(1) None assms(2), of mods "[]" "resolve out key" "ru_held r"]
        rule_justified(2,4) [OF r] show ?thesis
        by (auto simp: remap_press_key_def Let_def case_prod_beta remap_wf_def fmlookup_dom_iff fset_of_list.rep_eq)
    next
      case (Tap out)
      with None Some remap_wf_set_modifiers [OF assms(1) None assms(2), of "[]" "[]" "ru_held r"] show ?thesis
        by (simp add: remap_press_key_def Let_def case_prod_beta)
    qed (use None Some assms(1) in \<open>simp add: remap_press_key_def\<close>)
  qed
qed

lemma fold_bound:
  "fold (\<lambda>out bound. case bound of Some b \<Rightarrow> if out |\<in>| b then None else bound | None \<Rightarrow> None) xs bd =
     (case bd of None \<Rightarrow> None | Some b \<Rightarrow> if \<exists>out \<in> set xs. out |\<in>| b then None else Some b)"
  by (induction xs arbitrary: bd) (auto split: option.splits)

lemma remap_wf_release:
  assumes "remap_wf k"
  shows "remap_wf (fst (release key (k\<lparr>kr_physical := kr_physical k |-| {|key|}\<rparr>)))"
proof -
  have "owners_ok (kr_mode k) (kr_physical k |-| {|key|}) (kr_owners (fst (release key k)))"
    using assms
    by (fastforce simp: remap_wf_def owners_ok_def release_def Let_def set_freed_by split: if_splits)
  moreover have "b \<noteq> {||} \<and> b |\<subseteq>| fmdom (kr_owners (fst (release key k)))"
    if "kr_bound (fst (release key k)) = Some b" for b
    using assms that
    by (auto simp: remap_wf_def release_def Let_def fold_bound split: option.splits if_splits)
  ultimately show ?thesis
    using assms by (auto simp: remap_wf_def release_def Let_def cong del: fmfilter_cong)
qed

lemma remap_wf_physical: "remap_wf k \<Longrightarrow> remap_wf (k\<lparr>kr_physical := finsert u (kr_physical k)\<rparr>)"
  by (auto simp: remap_wf_def owners_ok_def)

lemma remap_step_wf: "remap_wf k \<Longrightarrow> remap_wf (fst (remap_step op k))"
proof (cases op)
  case (RemapKey u pressed)
  assume wf: "remap_wf k"
  let ?k = "k\<lparr>kr_physical := finsert u (kr_physical k)\<rparr>"
  have own: "remap_wf (fst (own (default_output (kr_mode ?k) u) u ?k))"
    using remap_wf_physical [OF wf] by (intro remap_wf_own) (auto simp: justified_def)
  have "remap_wf (?k\<lparr>kr_deferred := finsert u (kr_deferred k)\<rparr>)"
    using remap_wf_physical [OF wf, of u] by (auto simp: remap_wf_def)
  with own wf remap_wf_release [OF wf, of u] remap_wf_press_key [OF remap_wf_physical [OF wf], of u u]
  show ?thesis
    by (auto simp: RemapKey remap_key_def press_modifier_def Let_def split: option.splits)
next
  case (RemapPointer busy)
  assume wf: "remap_wf k"
  have "remap_wf (fst (own_defaults (sorted_list_of_fset (kr_deferred k)) (k\<lparr>kr_deferred := {||}\<rparr>)))"
    using wf remap_wf_no_deferred [OF wf] by (intro remap_wf_own_defaults) (auto simp: remap_wf_def)
  then show ?thesis by (simp add: RemapPointer pointer_def Let_def case_prod_beta remap_wf_def)
qed (simp_all add: remap_wf_def pointer_released_def set_terminal_def)

interpretation remap_keys: edge_machine injected remap_step remap_wf
  using remap_step_wf emits_step by unfold_locales (auto simp: emits_def)

text \<open>
  C27: What the remap injects is always accounted for. In every mode and over every sequence of calls
  (key edges, pointer events, changes of the focused app), the emitted edges replay legally from
  nothing to the keys the remap believes injected, and once every physical key is up nothing is
  left down and every injected press was matched by a release.
\<close>

theorem remap_releases_everything:
  assumes "run_steps remap_step ops (remap_new mode) = (k, edges)"
  shows "replay_edges edges {||} = Some (injected k) \<and>
         (kr_physical k = {||} \<longrightarrow>
            injected k = {||} \<and> (\<forall>out. count_list edges (out, True) = count_list edges (out, False)))"
proof -
  have start: "remap_wf (remap_new mode)" "injected (remap_new mode) = {||}"
    using remap_new_wf by (simp_all add: injected_def remap_new_def)
  have wf: "remap_wf k" using remap_keys.run_invar [OF start(1), of ops] assms by simp
  have none: "injected k = {||}" if "kr_physical k = {||}"
  proof -
    have "fmlookup (kr_owners k) out = None" for out
      using wf that by (cases "fmlookup (kr_owners k) out") (auto simp: remap_wf_def owners_ok_def)
    then show ?thesis by (simp add: injected_def fset_eq_iff fmlookup_dom_iff)
  qed
  from remap_keys.run_replay [OF start(1), of ops] remap_keys.run_balance [OF start, of ops] none assms start(2)
  show ?thesis by auto
qed

text \<open>
  A physical release only ever releases. Whatever the mode, releasing a key injects no press;
  it lifts exactly the injected keys that no other physical key keeps down, ordinary keys before
  modifiers, and everything else stays injected.
\<close>

theorem release_only_releases:
  "(let (k', edges) = remap_key u False k in
      list_all (\<lambda>(out, pressed). \<not> pressed) edges \<and>
      sorted (map (is_modifier \<circ> fst) edges) \<and>
      set (map fst edges) =
        {out. u |\<in>| kr_physical k \<and> (\<exists>os. fmlookup (kr_owners k) out = Some os \<and> os |\<subseteq>| {|u|})} \<and>
      fset (injected k') = fset (injected k) - set (map fst edges))"
proof -
  have sub: "os |-| {|u|} = {||} \<longleftrightarrow> os |\<subseteq>| {|u|}" for os :: "HidUsage fset" by auto
  show ?thesis
    by (auto simp: remap_key_def release_def Let_def list_all_iff comp_def sort_key_bool sorted_append
        set_freed_by sub injected_def fmlookup_dom_iff image_Un image_image cong del: fmfilter_cong
        intro: sorted_map_const [where c = True] sorted_map_const [where c = False])
qed

section \<open>The modes without rules\<close>

lemma default_output_involution: "mode \<noteq> Mac \<Longrightarrow> default_output mode (default_output mode u) = u"
  by (auto simp: default_output_def)

lemma is_modifier_default: "is_modifier (default_output mode u) = is_modifier u"
  by (auto simp: default_output_def is_modifier_def modifier_class_def)

lemma default_output_plain: "\<not> is_modifier u \<Longrightarrow> default_output mode u = u"
  by (auto simp: default_output_def is_modifier_def modifier_class_def split: if_splits)

definition plain :: "KeyRemap \<Rightarrow> bool" where
  "plain k \<longleftrightarrow>
     kr_mode k \<noteq> Mac \<and> kr_deferred k = {||} \<and> kr_bound k = None \<and>
     (\<forall>out. fmlookup (kr_owners k) out =
        (let u = default_output (kr_mode k) out in if u |\<in>| kr_physical k then Some {|u|} else None))"

lemma plain_own:
  assumes "plain k" and "u |\<notin>| kr_physical k"
  shows "snd (own (default_output (kr_mode k) u) u (k\<lparr>kr_physical := finsert u (kr_physical k)\<rparr>)) =
      [(default_output (kr_mode k) u, True)]"
    and "plain (fst (own (default_output (kr_mode k) u) u (k\<lparr>kr_physical := finsert u (kr_physical k)\<rparr>)))"
  using assms
  by (auto simp: plain_def own_def add_owner_def default_output_involution Let_def)

lemma wanted_plain:
  assumes "mode \<noteq> Mac"
  shows "fmlookup (fold (wanted_for mode 0 []) xs m) out =
    (let u = default_output mode out in
     if u \<in> set xs \<and> is_modifier u
     then Some (finsert u (case fmlookup m out of None \<Rightarrow> {||} | Some os \<Rightarrow> os)) else fmlookup m out)"
proof (induction xs arbitrary: m)
  case (Cons x xs)
  have "default_output mode out = x \<longleftrightarrow> out = default_output mode x"
    using default_output_involution [OF assms] by metis
  with Cons show ?case
    by (auto simp: wanted_for_def add_owner_def is_modifier_def Let_def split: option.splits)
qed simp

lemma set_modifiers_plain:
  assumes "plain k" and "\<not> is_modifier u"
  shows "set_modifiers 0 [] [] u (k\<lparr>kr_physical := finsert u (kr_physical k)\<rparr>) =
     (k\<lparr>kr_physical := finsert u (kr_physical k)\<rparr>, [])"
proof -
  let ?k = "k\<lparr>kr_physical := finsert u (kr_physical k)\<rparr>"
  let ?w = "wanted_modifiers 0 [] [] u ?k"
  have mode: "kr_mode k \<noteq> Mac" and def: "kr_deferred k = {||}" using assms(1) by (auto simp: plain_def)
  have w: "fmlookup ?w out = (if is_modifier out then fmlookup (kr_owners k) out else None)" for out
    using assms
    by (auto simp: wanted_modifiers_def wanted_plain [OF mode] plain_def Let_def is_modifier_default)
  have u: "filter (\<lambda>out. is_modifier out \<and> fmlookup ?w out = None) (sorted_list_of_fset (fmdom (kr_owners k))) = []"
    by (auto simp: filter_empty_conv w fmlookup_dom_iff)
  have p: "filter (\<lambda>(out, _). fmlookup (kr_owners k) out = None) (sorted_list_of_fmap ?w) = []"
    by (auto simp: filter_empty_conv set_sorted_list_of_fmap w split: if_splits)
  have "kr_owners k ++\<^sub>f ?w = kr_owners k" by (rule fmap_ext) (auto simp: w fmlookup_dom_iff split: if_splits)
  with u p show ?thesis
    by (simp add: set_modifiers_def Let_def insert_wanted_eq sorted_list_of_fmap_keys def)
qed

lemma plain_press:
  assumes "plain k" and "u |\<notin>| kr_physical k"
  shows "snd (remap_key u True k) = [(default_output (kr_mode k) u, True)]"
    and "plain (fst (remap_key u True k))"
proof -
  have "snd (remap_key u True k) = [(default_output (kr_mode k) u, True)] \<and> plain (fst (remap_key u True k))"
  proof (cases "modifier_class u")
    case (Some c)
    with plain_own [OF assms] assms(1,2) show ?thesis
      by (auto simp: remap_key_def press_modifier_def plain_def)
  next
    case None
    then have "default_output (kr_mode k) u = u" by (intro default_output_plain) (simp add: is_modifier_def)
    with None plain_own [OF assms] assms set_modifiers_plain [OF assms(1), of u] show ?thesis
      by (auto simp: remap_key_def remap_press_key_def chord_def lookup_def is_modifier_def plain_def case_prod_beta)
  qed
  then show "snd (remap_key u True k) = [(default_output (kr_mode k) u, True)]"
    and "plain (fst (remap_key u True k))" by simp_all
qed

lemma plain_release:
  assumes "plain k" and "u |\<in>| kr_physical k"
  shows "snd (remap_key u False k) = [(default_output (kr_mode k) u, False)]"
    and "plain (fst (remap_key u False k))"
proof -
  have mode: "kr_mode k \<noteq> Mac" using assms(1) by (simp add: plain_def)
  have "set (freed_by u (kr_owners k)) = {default_output (kr_mode k) u}"
    using assms default_output_involution [OF mode]
    by (force simp: set_freed_by plain_def Let_def split: if_splits)
  moreover have "distinct (freed_by u (kr_owners k))" by (simp add: freed_by_def)
  ultimately have f: "freed_by u (kr_owners k) = [default_output (kr_mode k) u]"
    by (rule distinct_singleton_list)
  show "snd (remap_key u False k) = [(default_output (kr_mode k) u, False)]"
    using assms(2) f by (simp add: remap_key_def release_def)
  show "plain (fst (remap_key u False k))"
    using assms f default_output_involution [OF mode]
    by (auto simp: remap_key_def release_def plain_def Let_def cong del: fmfilter_cong)
qed

lemma remap_press_key_mode [simp]: "kr_mode (fst (remap_press_key u k)) = kr_mode k"
  by (auto simp: remap_press_key_def Let_def case_prod_beta split: option.splits Action.splits)

lemma remap_step_mode: "kr_mode (fst (remap_step op k)) = kr_mode k"
  by (cases op) (auto simp: remap_key_def release_def press_modifier_def pointer_def pointer_released_def
      set_terminal_def Let_def case_prod_beta split: option.splits)

lemma plain_step: "plain k \<Longrightarrow> plain (fst (remap_step op k))"
proof (cases op)
  case (RemapKey u pressed)
  assume "plain k"
  with plain_press [of k u] plain_release [of k u] show ?thesis
    by (cases pressed; cases "u |\<in>| kr_physical k") (auto simp: RemapKey remap_key_def)
qed (auto simp: pointer_def pointer_released_def set_terminal_def plain_def Let_def)

text \<open>
  Outside Mac mode the remap is transparent. In Standard mode and with PC positions, after any
  sequence of calls, exactly the mapped physical keys are injected (a key stands for itself; with
  PC positions Option and Cmd trade places), every physical edge that changes a key injects exactly
  the mapped edge, a repeated edge injects nothing, and pointer events inject nothing.
\<close>

theorem plain_modes_transparent:
  assumes "mode \<noteq> Mac" and "k = fst (run_steps remap_step ops (remap_new mode))"
  shows "injected k = default_output mode |`| kr_physical k \<and>
         (\<forall>u pressed. snd (remap_key u pressed k) =
            (if pressed = (u |\<in>| kr_physical k) then [] else [(default_output mode u, pressed)])) \<and>
         (\<forall>busy. snd (pointer busy k) = [])"
proof -
  have "plain k \<and> kr_mode k = mode" if "plain k0" "kr_mode k0 = mode" "k = fst (run_steps remap_step ops k0)" for k0 k
    using that
  proof (induction ops arbitrary: k0)
    case (Cons op ops)
    have "kr_mode (fst (remap_step op k0)) = mode" using remap_step_mode [of op k0] Cons.prems(2) by simp
    with Cons.IH [OF plain_step [OF Cons.prems(1), of op]] Cons.prems(3) show ?case
      by (simp add: case_prod_beta Let_def)
  qed simp
  moreover have "plain (remap_new mode)" "kr_mode (remap_new mode) = mode"
    using assms(1) by (simp_all add: plain_def remap_new_def)
  ultimately have k: "plain k" "kr_mode k = mode" using assms(2) by blast+
  have "injected k = default_output mode |`| kr_physical k"
  proof (rule fset_eqI)
    fix out
    show "out |\<in>| injected k \<longleftrightarrow> out |\<in>| default_output mode |`| kr_physical k"
      using k default_output_involution [OF assms(1)]
      by (auto simp: injected_def fmlookup_dom_iff plain_def Let_def image_iff) metis
  qed
  moreover have "snd (remap_key u pressed k) =
      (if pressed = (u |\<in>| kr_physical k) then [] else [(default_output mode u, pressed)])" for u pressed
    using plain_press(1) [OF k(1), of u] plain_release(1) [OF k(1), of u] k(2)
    by (cases pressed) (auto simp: remap_key_def)
  moreover have "snd (pointer busy k) = []" for busy
    using k(1) by (simp add: pointer_def plain_def)
  ultimately show ?thesis by blast
qed

section \<open>Command chords in a terminal\<close>

lemma bit_fold_classes:
  "bit (fold (\<lambda>held classes. case modifier_class held of None \<Rightarrow> classes | Some c \<Rightarrow> classes OR c) xs a) n \<longleftrightarrow>
     bit a n \<or> (\<exists>x \<in> set xs. \<exists>c. modifier_class x = Some c \<and> bit c n)" for a :: u8
  by (induction xs arbitrary: a) (auto simp: bit_or_iff split: option.splits)

lemma bit_held_classes:
  "bit (held_classes k) n \<longleftrightarrow> (\<exists>x c. x |\<in>| kr_physical k \<and> modifier_class x = Some c \<and> bit c n)"
  by (auto simp: held_classes_def bit_fold_classes)

lemma exact_classes:
  "(w :: u8) AND (CMD OR OPT OR CTRL) =
     (if bit w 0 then CMD else 0) OR (if bit w 1 then OPT else 0) OR (if bit w 2 then CTRL else 0)"
proof -
  have "w AND 7 = (if bit w 0 then 1 else 0) OR (if bit w 1 then 2 else 0) OR (if bit w 2 then 4 else 0)"
  proof (rule bit_word_eqI)
    fix n
    assume "n < LENGTH(8)"
    then have "n \<in> {0, 1, 2, 3, 4, 5, 6, 7}" by auto
    then show "bit (w AND 7) n = bit ((if bit w 0 then 1 else 0) OR (if bit w 1 then 2 else 0) OR (if bit w 2 then 4 else 0) :: u8) n"
      by (auto simp: bit_and_iff bit_or_iff bit_numeral_rec bit_1_iff)
  qed
  then show ?thesis by (simp add: class_bits)
qed

lemma any_key_rules_block: "list_all (\<lambda>r. ru_keys r = [] \<longrightarrow> ru_action r = Block) RULES"
  by (simp add: RULES_def rule_def ANY_KEY_def)

text \<open>The catch-all rows: with Cmd held in a terminal, some row matches every key.\<close>

lemma terminal_cmd_matches:
  assumes "bit (held :: u8) 0"
  shows "\<exists>r \<in> set RULES. rule_matches r True held key"
proof -
  let ?rows = "[rule AnyApp (CTRL OR CMD) ANY_KEY Block, rule AnyApp (CTRL OR CMD OR OPT) ANY_KEY Block,
     rule InTerminal CMD ANY_KEY Block, rule InTerminal (CMD OR OPT) ANY_KEY Block]"
  have "list_ex (\<lambda>r. rule_matches r True held key) ?rows"
    using assms unfolding rule_matches_def exact_classes
    by (cases "bit held 1"; cases "bit held 2")
      (simp_all add: rule_def ANY_KEY_def class_bits)
  moreover have "set ?rows \<subseteq> set RULES" by (simp add: RULES_def)
  ultimately show ?thesis by (auto simp: list_ex_iff)
qed

text \<open>
  In a terminal no stray Cmd chord gets through. With Mac mode, a focused terminal, Cmd held and
  no app switcher open, pressing a key that no Cmd row of the table names for terminals injects
  nothing at all and changes nothing but the set of physical keys: Cmd+D is not end-of-file and
  Cmd+Z does not suspend.
\<close>

theorem terminal_blocks_unnamed_cmd_chords:
  assumes "kr_mode k = Mac" and "kr_terminal k" and "kr_bound k = None"
    and "LGUI |\<in>| kr_physical k \<or> RGUI |\<in>| kr_physical k"
    and "u |\<notin>| kr_physical k" and "\<not> is_modifier u"
    and "list_all (\<lambda>r. ru_context r \<noteq> Gui \<and> ru_held r AND CMD \<noteq> 0 \<longrightarrow> u \<notin> set (ru_keys r)) RULES"
  shows "remap_key u True k = (k\<lparr>kr_physical := finsert u (kr_physical k)\<rparr>, [])"
proof -
  let ?k = "k\<lparr>kr_physical := finsert u (kr_physical k)\<rparr>"
  have "modifier_class LGUI = Some CMD" "modifier_class RGUI = Some CMD" "bit CMD 0"
    by (simp_all add: modifier_class_def class_bits)
  then have cmd: "bit (held_classes ?k) 0"
    unfolding bit_held_classes using assms(4) by auto
  have "find (\<lambda>r. rule_matches r True (held_classes ?k) u) RULES \<noteq> None"
    using terminal_cmd_matches [OF cmd, of u] by (auto simp: find_None_iff)
  then obtain r where r: "lookup u ?k = Some r" using assms(1,2) by (auto simp: lookup_def)
  then have mem: "r \<in> set RULES" and m: "rule_matches r True (held_classes ?k) u"
    using lookup_Some [OF r] assms(2) by auto
  have ctx: "ru_context r \<noteq> Gui" using m by (auto simp: rule_matches_def)
  have same: "held_classes ?k AND (CMD OR OPT OR CTRL) = ru_held r AND (CMD OR OPT OR CTRL)"
    using m by (simp add: rule_matches_def)
  have "bit (ru_held r AND (CMD OR OPT OR CTRL)) 0"
    unfolding same [symmetric] using cmd by (simp add: bit_and_iff bit_or_iff class_bits)
  then have "bit (ru_held r AND CMD) 0" by (simp add: bit_and_iff class_bits)
  then have "ru_held r AND CMD \<noteq> 0" by auto
  with ctx assms(7) mem m have "ru_keys r = []" by (auto simp: list_all_iff rule_matches_def)
  with any_key_rules_block mem have "ru_action r = Block" by (simp add: list_all_iff)
  with r assms(3,5,6) show ?thesis
    by (simp add: remap_key_def remap_press_key_def is_modifier_def)
qed

section \<open>What can be injected\<close>

lemma injected_update [simp]:
  "injected (k\<lparr>kr_deferred := d\<rparr>) = injected k" "injected (k\<lparr>kr_bound := b\<rparr>) = injected k"
  "injected (k\<lparr>kr_pointer_busy := busy\<rparr>) = injected k"
  by (simp_all add: injected_def)

lemma own_pressed: "(out, True) \<in> set (snd (own out' owner k)) \<Longrightarrow> out |\<in>| injected (fst (own out' owner k))"
  by (auto simp: own_def injected_def split: option.splits)

lemma injected_own [simp]: "injected (fst (own out' owner k)) = finsert out' (injected k)"
  by (simp add: injected_def)

lemma own_defaults_grows: "out |\<in>| injected k \<Longrightarrow> out |\<in>| injected (fst (own_defaults ms k))"
  by (induction ms arbitrary: k) (auto simp: case_prod_beta Let_def)

lemma own_defaults_pressed:
  "(out, True) \<in> set (snd (own_defaults ms k)) \<Longrightarrow> out |\<in>| injected (fst (own_defaults ms k))"
  by (induction ms arbitrary: k) (auto simp: case_prod_beta Let_def dest: own_pressed intro: own_defaults_grows)

lemma set_modifiers_pressed:
  "(out, True) \<in> set (snd (set_modifiers consumed mods key_mods key k)) \<Longrightarrow>
     out |\<in>| injected (fst (set_modifiers consumed mods key_mods key k))"
  by (auto simp: set_modifiers_def Let_def insert_wanted_eq sorted_list_of_fmap_keys injected_def
      set_sorted_list_of_fmap fmlookup_dom_iff)

lemma chord_pressed:
  "(out, True) \<in> set (snd (chord consumed mods key_mods out' key k)) \<Longrightarrow>
     out |\<in>| injected (fst (chord consumed mods key_mods out' key k))"
  by (auto simp: chord_def Let_def case_prod_beta dest: set_modifiers_pressed own_pressed)

lemma press_key_pressed:
  assumes "(out, True) \<in> set (snd (remap_press_key key k))"
  shows "out |\<in>| injected (fst (remap_press_key key k)) \<or> out |\<in>| output_usages"
proof (cases "kr_bound k")
  case (Some b)
  with assms show ?thesis
    by (auto simp: remap_press_key_def Let_def case_prod_beta dest: own_defaults_pressed own_pressed)
next
  case None
  show ?thesis
  proof (cases "lookup key k")
    case (Some r)
    with None assms lookup_Some [OF Some] show ?thesis
      by (cases "ru_action r")
        (auto simp: remap_press_key_def Let_def case_prod_beta
          dest: chord_pressed set_modifiers_pressed rule_justified(5) split: if_splits)
  qed (use None assms in \<open>auto simp: remap_press_key_def dest: chord_pressed\<close>)
qed

lemma step_pressed:
  assumes "(out, True) \<in> set (snd (remap_step op k))"
  shows "out |\<in>| injected (fst (remap_step op k)) \<or> out |\<in>| output_usages"
  using assms
  by (cases op)
    (auto simp: remap_key_def release_def press_modifier_def pointer_def Let_def case_prod_beta
      split: if_splits option.splits dest: press_key_pressed own_pressed own_defaults_pressed)

text \<open>
  \<open>output_usages\<close> is complete. After any sequence of calls, a key that the remap presses is
  either in \<open>output_usages\<close>, or a physical key that is down, or the default output of one: a
  backend that can type these can type everything the remap injects.
\<close>

theorem output_usages_complete:
  assumes "k = fst (run_steps remap_step ops (remap_new mode))"
    and "(out, True) \<in> set (snd (remap_step op k))"
  shows "out |\<in>| output_usages \<or>
    (\<exists>u. u |\<in>| kr_physical (fst (remap_step op k)) \<and>
       (out = u \<or> out = default_output (kr_mode (fst (remap_step op k))) u))"
proof -
  have "remap_wf (fst (remap_step op k))"
    using remap_keys.run_invar [OF remap_new_wf] assms(1) remap_step_wf by blast
  moreover have "out |\<in>| output_usages \<or> (\<exists>os. fmlookup (kr_owners (fst (remap_step op k))) out = Some os)"
    using step_pressed [OF assms(2)] by (auto simp: injected_def fmlookup_dom_iff)
  moreover have "\<exists>owner. owner |\<in>| os" if "os \<noteq> {||}" for os :: "HidUsage fset" using that by auto
  ultimately show ?thesis
    unfolding remap_wf_def owners_ok_def justified_def by (meson fsubsetD)
qed

section \<open>Sample runs, at which the theorems above apply\<close>

lemmas remap_eval = remap_new_def remap_key_def release_def freed_by_def own_def add_owner_def press_modifier_def
  modifier_class_def default_output_def is_modifier_def injected_def Let_def

definition sample_cmd :: KeyRemap where
  "sample_cmd = fst (run_steps remap_step [RemapTerminal True, RemapKey LGUI True] (remap_new Mac))"

lemma sample_cmd_eq:
  "sample_cmd =
     \<lparr>kr_mode = Mac, kr_terminal = True, kr_pointer_busy = False, kr_physical = {|LGUI|}, kr_deferred = {||},
      kr_owners = fmupd LCTRL {|LGUI|} fmempty, kr_bound = None\<rparr>"
  by (simp add: sample_cmd_def remap_eval set_terminal_def class_bits)

theorem remap_releases_everything_witness:
  "\<exists>k edges. run_steps remap_step [RemapKey LGUI True, RemapKey LGUI False] (remap_new Mac) = (k, edges) \<and>
     kr_physical k = {||} \<and> injected k = {||}"
proof -
  obtain k edges where run: "run_steps remap_step [RemapKey LGUI True, RemapKey LGUI False] (remap_new Mac) = (k, edges)"
    by (cases "run_steps remap_step [RemapKey LGUI True, RemapKey LGUI False] (remap_new Mac)")
  have "kr_physical (fst (run_steps remap_step [RemapKey LGUI True, RemapKey LGUI False] (remap_new Mac))) = {||}"
    by (simp add: remap_eval class_bits)
  with remap_releases_everything [OF run] run show ?thesis by auto
qed

theorem plain_modes_transparent_witness:
  "snd (remap_key LALT True (remap_new PcPositions)) = [(LGUI, True)]"
  using plain_modes_transparent [of PcPositions "remap_new PcPositions" "[]"]
  by (simp add: remap_new_def default_output_def)

theorem terminal_blocks_unnamed_cmd_chords_witness:
  "snd (remap_key KEY_D True sample_cmd) = []"
proof -
  have "list_all (\<lambda>r. ru_context r \<noteq> Gui \<and> ru_held r AND CMD \<noteq> 0 \<longrightarrow> KEY_D \<notin> set (ru_keys r)) RULES"
    by (simp add: RULES_def rule_def ANY_KEY_def class_bits)
  then show ?thesis
    using terminal_blocks_unnamed_cmd_chords [of sample_cmd KEY_D]
    by (simp add: sample_cmd_eq is_modifier_def modifier_class_def)
qed

theorem output_usages_complete_witness:
  "LCTRL |\<in>| output_usages \<or> (\<exists>u. u |\<in>| {|LGUI|} \<and> (LCTRL = u \<or> LCTRL = default_output Mac u))"
proof -
  have "(LCTRL, True) \<in> set (snd (remap_step (RemapKey LGUI True) (remap_new Mac)))"
    "kr_physical (fst (remap_step (RemapKey LGUI True) (remap_new Mac))) = {|LGUI|}"
    "kr_mode (fst (remap_step (RemapKey LGUI True) (remap_new Mac))) = Mac"
    by (simp_all add: remap_eval class_bits)
  with output_usages_complete [of "remap_new Mac" "[]" Mac LCTRL "RemapKey LGUI True"] show ?thesis by simp
qed

end
