(* ===== verification/Uinput.thy ===== *)
theory Uinput
  imports Keymap Evdev Capture_Select "HOL-Library.Signed_Division"
begin

text \<open>
  The virtual keyboard and pointer of a Linux target (\<open>src/src/linux/uinput.rs\<close>).

  A virtual device takes reports; whether the kernel accepts the next one is the argument \<open>dev\<close>, by the number
  of the attempt, and \<open>vd_reports\<close> is the log of the reports that it accepted. \<open>VirtualKeyboard\<close> sends the edges
  that the remap makes of the peer's keys, \<open>VirtualPointer\<close> buttons and relative motion, with the legacy wheel
  detents next to the high-resolution units. The remainder of a wheel, an \<open>i64\<close> below one click, is an integer.
\<close>

section \<open>Devices\<close>

datatype InjectionError =
    UnsupportedInput MappingError
  | CreateFailed VirtualDeviceRole
  | EmitFailed VirtualDeviceRole
  | TooManyTouchContacts nat nat
  | TouchpadDisabled

record VirtualDevice =
  vd_reports :: "InputEvent list list"
  vd_attempts :: nat

definition device_new :: VirtualDevice where
  "device_new = \<lparr>vd_reports = [], vd_attempts = 0\<rparr>"

type_synonym device_answer = "nat \<Rightarrow> bool"

definition device_emit ::
  "device_answer \<Rightarrow> VirtualDeviceRole \<Rightarrow> InputEvent list \<Rightarrow> VirtualDevice \<Rightarrow> (InjectionError + unit) \<times> VirtualDevice"
where
  "device_emit dev role events d =
     (if dev (vd_attempts d)
      then (Inr (), d\<lparr>vd_attempts := vd_attempts d + 1, vd_reports := vd_reports d @ [events]\<rparr>)
      else (Inl (EmitFailed role), d\<lparr>vd_attempts := vd_attempts d + 1\<rparr>))"

definition key_event :: "KeyCode \<Rightarrow> bool \<Rightarrow> InputEvent" where
  "key_event key pressed = \<lparr>ie_type = KEY, ie_code = key, ie_value = (if pressed then 1 else 0)\<rparr>"

section \<open>The keyboard\<close>

record VirtualKeyboard =
  vk_device :: VirtualDevice
  vk_remap :: KeyRemap
  vk_held :: "HidUsage fset"

definition keyboard_create :: VirtualKeyboard where
  "keyboard_create = \<lparr>vk_device = device_new, vk_remap = remap_new Standard, vk_held = {||}\<rparr>"

definition keyboard_emit ::
  "device_answer \<Rightarrow> InputEvent list \<Rightarrow> VirtualKeyboard \<Rightarrow> (InjectionError + unit) \<times> VirtualKeyboard"
where
  "keyboard_emit dev events vk =
     (let (r, d) = device_emit dev RoleKeyboard events (vk_device vk) in (r, vk\<lparr>vk_device := d\<rparr>))"

definition inject_key ::
  "device_answer \<Rightarrow> HidUsage \<Rightarrow> bool \<Rightarrow> VirtualKeyboard \<Rightarrow> (InjectionError + unit) \<times> VirtualKeyboard"
where
  "inject_key dev hid pressed =
     try_then (\<lambda>vk. (map_err UnsupportedInput (hid_to_evdev_key hid), vk)) (\<lambda>key vk.
       if (hid |\<in>| vk_held vk) = pressed then (Inr (), vk)
       else try_then (keyboard_emit dev [key_event key pressed]) (\<lambda>_ vk1.
         (Inr (), vk1\<lparr>vk_held := (if pressed then finsert hid (vk_held vk1) else vk_held vk1 |-| {|hid|})\<rparr>)) vk)"

fun inject_all ::
  "device_answer \<Rightarrow> (HidUsage \<times> bool) list \<Rightarrow> VirtualKeyboard \<Rightarrow> (InjectionError + unit) \<times> VirtualKeyboard"
where
  "inject_all dev [] vk = (Inr (), vk)"
| "inject_all dev ((hid, pressed) # edges) vk =
     try_then (inject_key dev hid pressed) (\<lambda>_. inject_all dev edges) vk"

definition keyboard_set_key ::
  "device_answer \<Rightarrow> HidUsage \<Rightarrow> bool \<Rightarrow> VirtualKeyboard \<Rightarrow> (InjectionError + unit) \<times> VirtualKeyboard"
where
  "keyboard_set_key dev hid pressed =
     try_then (\<lambda>vk. (map_err UnsupportedInput (hid_to_evdev_key hid), vk)) (\<lambda>_ vk.
       (let (remap, edges) = remap_key hid pressed (vk_remap vk) in inject_all dev edges (vk\<lparr>vk_remap := remap\<rparr>)))"

definition keyboard_pointer ::
  "device_answer \<Rightarrow> bool \<Rightarrow> VirtualKeyboard \<Rightarrow> (InjectionError + unit) \<times> VirtualKeyboard"
where
  "keyboard_pointer dev busy vk =
     (let (remap, edges) = Keymap.pointer busy (vk_remap vk) in inject_all dev edges (vk\<lparr>vk_remap := remap\<rparr>))"

definition keyboard_pointer_released :: "bool \<Rightarrow> VirtualKeyboard \<Rightarrow> VirtualKeyboard" where
  "keyboard_pointer_released busy vk = vk\<lparr>vk_remap := pointer_released busy (vk_remap vk)\<rparr>"

definition keyboard_set_terminal :: "bool \<Rightarrow> VirtualKeyboard \<Rightarrow> VirtualKeyboard" where
  "keyboard_set_terminal terminal vk = vk\<lparr>vk_remap := set_terminal terminal (vk_remap vk)\<rparr>"

definition keyboard_mode :: "VirtualKeyboard \<Rightarrow> KeyboardMode" where
  "keyboard_mode vk = kr_mode (vk_remap vk)"

definition key_releases :: "HidUsage fset \<Rightarrow> InjectionError + InputEvent list" where
  "key_releases held =
     collect_results (map (\<lambda>hid. result_then (map_err UnsupportedInput (hid_to_evdev_key hid)) (\<lambda>key. Inr (key_event key False)))
       (sorted_list_of_fset held))"

definition keyboard_release_all ::
  "device_answer \<Rightarrow> VirtualKeyboard \<Rightarrow> (InjectionError + unit) \<times> VirtualKeyboard"
where
  "keyboard_release_all dev vk =
     (let vk1 = vk\<lparr>vk_remap := reset (kr_mode (vk_remap vk)) (vk_remap vk)\<rparr>
      in if vk_held vk1 = {||} then (Inr (), vk1)
         else try_then (\<lambda>v. (key_releases (vk_held v), v)) (\<lambda>events.
              try_then (keyboard_emit dev events) (\<lambda>_ v. (Inr (), v\<lparr>vk_held := {||}\<rparr>))) vk1)"

definition keyboard_begin ::
  "device_answer \<Rightarrow> KeyboardMode \<Rightarrow> VirtualKeyboard \<Rightarrow> (InjectionError + unit) \<times> VirtualKeyboard"
where
  "keyboard_begin dev mode =
     try_then (keyboard_release_all dev) (\<lambda>_ vk. (Inr (), vk\<lparr>vk_remap := reset mode (vk_remap vk)\<rparr>))"

section \<open>The pointer\<close>

record VirtualPointer =
  vp_device :: VirtualDevice
  vp_held :: "PointerButton fset"
  vp_legacy_wheel_remainder :: int
  vp_legacy_hwheel_remainder :: int

definition pointer_create :: VirtualPointer where
  "pointer_create =
     \<lparr>vp_device = device_new, vp_held = {||}, vp_legacy_wheel_remainder = 0, vp_legacy_hwheel_remainder = 0\<rparr>"

definition pointer_emit ::
  "device_answer \<Rightarrow> InputEvent list \<Rightarrow> VirtualPointer \<Rightarrow> (InjectionError + unit) \<times> VirtualPointer"
where
  "pointer_emit dev events vp =
     (let (r, d) = device_emit dev RolePointer events (vp_device vp) in (r, vp\<lparr>vp_device := d\<rparr>))"

definition set_button ::
  "device_answer \<Rightarrow> PointerButton \<Rightarrow> bool \<Rightarrow> VirtualPointer \<Rightarrow> (InjectionError + unit) \<times> VirtualPointer"
where
  "set_button dev button pressed =
     try_then (\<lambda>vp. (map_err UnsupportedInput (pointer_button_to_evdev button), vp)) (\<lambda>key vp.
       if (button |\<in>| vp_held vp) = pressed then (Inr (), vp)
       else try_then (pointer_emit dev [key_event key pressed]) (\<lambda>_ vp1.
         (Inr (), vp1\<lparr>vp_held := (if pressed then finsert button (vp_held vp1) else vp_held vp1 |-| {|button|})\<rparr>)) vp)"

definition relative_value :: "i64 \<Rightarrow> int" where
  "relative_value v = max (- (2 ^ 31)) (min (2 ^ 31 - 1) (sint v))"

definition relative_events :: "u16 \<Rightarrow> int \<Rightarrow> InputEvent list" where
  "relative_events code v = (if v \<noteq> 0 then [\<lparr>ie_type = RELATIVE, ie_code = code, ie_value = of_int v\<rparr>] else [])"

text \<open>The new remainder and the detents; \<open>%\<close> and \<open>/\<close> round towards zero.\<close>

definition legacy_wheel_delta :: "int \<Rightarrow> int \<Rightarrow> int \<times> int" where
  "legacy_wheel_delta remainder fine =
     (let total = remainder + fine in (total smod 120, total sdiv 120))"

definition motion_events :: "MotionDelta \<Rightarrow> VirtualPointer \<Rightarrow> InputEvent list \<times> VirtualPointer" where
  "motion_events motion vp =
     (let horizontal = relative_value (scroll_x motion); vertical = relative_value (scroll_y motion);
          (rest_x, legacy_x) = legacy_wheel_delta (vp_legacy_hwheel_remainder vp) horizontal;
          (rest_y, legacy_y) = legacy_wheel_delta (vp_legacy_wheel_remainder vp) vertical
      in (relative_events REL_X (relative_value (dx motion)) @ relative_events REL_Y (relative_value (dy motion)) @
          relative_events REL_HWHEEL_HI_RES horizontal @ relative_events REL_WHEEL_HI_RES vertical @
          relative_events REL_HWHEEL legacy_x @ relative_events REL_WHEEL legacy_y,
          vp\<lparr>vp_legacy_hwheel_remainder := rest_x, vp_legacy_wheel_remainder := rest_y\<rparr>))"

definition pointer_motion_emit ::
  "device_answer \<Rightarrow> MotionDelta \<Rightarrow> VirtualPointer \<Rightarrow> (InjectionError + unit) \<times> VirtualPointer"
where
  "pointer_motion_emit dev motion vp =
     (let (events, vp1) = motion_events motion vp
      in if events = [] then (Inr (), vp1) else pointer_emit dev events vp1)"

definition button_releases :: "PointerButton fset \<Rightarrow> InjectionError + InputEvent list" where
  "button_releases held =
     collect_results (map (\<lambda>button. result_then (map_err UnsupportedInput (pointer_button_to_evdev button))
         (\<lambda>key. Inr (key_event key False))) (sorted_list_of_fset held))"

definition pointer_release_all ::
  "device_answer \<Rightarrow> VirtualPointer \<Rightarrow> (InjectionError + unit) \<times> VirtualPointer"
where
  "pointer_release_all dev vp =
     (if vp_held vp = {||} then (Inr (), vp)
      else try_then (\<lambda>v. (button_releases (vp_held v), v)) (\<lambda>events.
           try_then (pointer_emit dev events) (\<lambda>_ v. (Inr (), v\<lparr>vp_held := {||}\<rparr>))) vp)"

section \<open>What the kernel has down\<close>

definition event_edges :: "InputEvent list \<Rightarrow> (KeyCode \<times> bool) list" where
  "event_edges events =
     List.map_filter (\<lambda>e. if ie_type e = KEY then Some (ie_code e, ie_value e \<noteq> 0) else None) events"

definition down_keys :: "VirtualDevice \<Rightarrow> KeyCode fset option" where
  "down_keys d = replay_edges (event_edges (concat (vd_reports d))) {||}"

lemma event_edges_append [simp]: "event_edges (es @ fs) = event_edges es @ event_edges fs"
  by (simp add: event_edges_def List.map_filter_def)

lemma event_edges_simps [simp]:
  "event_edges [] = []"
  "event_edges (key_event key pressed # es) = (key, pressed) # event_edges es"
  "event_edges (relative_events code v) = []"
  by (simp_all add: event_edges_def List.map_filter_simps key_event_def relative_events_def)

lemma device_emit_down:
  assumes "device_emit dev role events d = (r, d')" "down_keys d = Some A" "replay_edges (event_edges events) A = Some B"
  shows "down_keys d' = Some (if is_ok r then B else A)"
  using assms by (auto simp: device_emit_def down_keys_def replay_append is_ok_def split: if_splits)

definition typable :: "HidUsage \<Rightarrow> bool" where
  "typable hid \<longleftrightarrow> is_ok (hid_to_evdev_key hid)"

definition code_of :: "HidUsage \<Rightarrow> KeyCode" where
  "code_of hid = projr (hid_to_evdev_key hid)"

lemma typable_Inr: "typable hid \<longleftrightarrow> hid_to_evdev_key hid = Inr (code_of hid)"
  by (cases "hid_to_evdev_key hid") (auto simp: typable_def is_ok_def code_of_def)

lemma code_of_inject: "typable a \<Longrightarrow> typable b \<Longrightarrow> code_of a = code_of b \<longleftrightarrow> a = b"
  using key_to_hid_iff hid_to_key_iff by (metis Inr_inject typable_Inr)

definition keyboard_ok :: "VirtualKeyboard \<Rightarrow> bool" where
  "keyboard_ok vk \<longleftrightarrow>
     (\<forall>hid. hid |\<in>| vk_held vk \<longrightarrow> typable hid) \<and> down_keys (vk_device vk) = Some (code_of |`| vk_held vk)"

text \<open>The error of a write that the kernel refused.\<close>

definition write_failed :: "device_answer \<Rightarrow> InjectionError \<Rightarrow> bool" where
  "write_failed dev e \<longleftrightarrow> e = EmitFailed RoleKeyboard \<and> (\<exists>n. \<not> dev n)"

lemma inject_key_ok:
  assumes "inject_key dev hid pressed vk = (r, vk')" "keyboard_ok vk"
  shows "keyboard_ok vk' \<and> vk_remap vk' = vk_remap vk \<and>
    (r = Inr () \<longrightarrow> vk_held vk' = (if pressed then finsert hid (vk_held vk) else vk_held vk |-| {|hid|})) \<and>
    (\<forall>e. r = Inl e \<longrightarrow> vk_held vk' = vk_held vk \<and> (typable hid \<longrightarrow> write_failed dev e))"
proof (cases "typable hid \<and> (hid |\<in>| vk_held vk) \<noteq> pressed")
  case True
  then have key: "hid_to_evdev_key hid = Inr (code_of hid)" by (simp add: typable_Inr)
  have codes: "code_of hid |\<in>| code_of |`| vk_held vk \<longleftrightarrow> hid |\<in>| vk_held vk"
    using assms(2) True code_of_inject [of hid] by (auto simp: keyboard_ok_def)
  obtain r1 d where emit: "device_emit dev RoleKeyboard [key_event (code_of hid) pressed] (vk_device vk) = (r1, d)"
    by force
  have edge: "replay_edges (event_edges [key_event (code_of hid) pressed]) (code_of |`| vk_held vk) =
      Some (if pressed then finsert (code_of hid) (code_of |`| vk_held vk) else code_of |`| vk_held vk |-| {|code_of hid|})"
    using True codes by auto
  have down: "down_keys d = Some (if is_ok r1 then (if pressed then finsert (code_of hid) (code_of |`| vk_held vk)
      else code_of |`| vk_held vk |-| {|code_of hid|}) else code_of |`| vk_held vk)"
    using device_emit_down [OF emit _ edge] assms(2) by (simp add: keyboard_ok_def)
  have minus: "code_of |`| vk_held vk |-| {|code_of hid|} = code_of |`| (vk_held vk |-| {|hid|})"
    using assms(2) True code_of_inject by (fastforce simp: keyboard_ok_def)
  have "r1 = Inr () \<or> (\<exists>e. r1 = Inl e \<and> write_failed dev e)"
    using emit by (auto simp: device_emit_def write_failed_def split: if_splits)
  then show ?thesis
    using assms True key emit down minus
    by (auto simp: inject_key_def try_then_def map_err_def keyboard_emit_def keyboard_ok_def is_ok_def)
next
  case False
  then show ?thesis
    using assms
    by (cases "hid_to_evdev_key hid")
      (auto simp: inject_key_def try_then_def map_err_def typable_def is_ok_def)
qed

lemma inject_all_ok:
  assumes "inject_all dev edges vk = (r, vk')" "keyboard_ok vk"
  shows "keyboard_ok vk' \<and> vk_remap vk' = vk_remap vk \<and>
    (\<forall>B. r = Inr () \<and> replay_edges edges (vk_held vk) = Some B \<longrightarrow> vk_held vk' = B) \<and>
    (\<forall>e. r = Inl e \<and> (\<forall>(hid, pressed) \<in> set edges. typable hid) \<longrightarrow> write_failed dev e)"
  using assms
proof (induction edges arbitrary: vk)
  case (Cons edge edges)
  obtain hid pressed where edge: "edge = (hid, pressed)" by force
  obtain r1 vk1 where one: "inject_key dev hid pressed vk = (r1, vk1)" by force
  note step = inject_key_ok [OF one Cons.prems(2)]
  show ?case
  proof (cases r1)
    case (Inl e)
    then show ?thesis using Cons.prems(1) one step by (auto simp: edge try_then_def)
  next
    case (Inr u)
    then have "inject_all dev edges vk1 = (r, vk')"
      using Cons.prems(1) one by (simp add: edge try_then_def)
    from Cons.IH [OF this] step Inr show ?thesis
      by (auto simp: edge split: if_splits)
  qed
qed auto

lemma key_releases_typable:
  assumes "\<forall>hid. hid |\<in>| A \<longrightarrow> typable hid"
  shows "key_releases A = Inr (map (\<lambda>hid. key_event (code_of hid) False) (sorted_list_of_fset A))"
proof -
  have "map (\<lambda>hid. result_then (map_err UnsupportedInput (hid_to_evdev_key hid)) (\<lambda>key. Inr (key_event key False)))
      (sorted_list_of_fset A) = map Inr (map (\<lambda>hid. key_event (code_of hid) False) (sorted_list_of_fset A))"
    using assms by (auto simp: typable_Inr result_then_def map_err_def)
  then show ?thesis by (simp only: key_releases_def collect_results_map)
qed

lemma event_edges_releases: "event_edges (map (\<lambda>x. key_event (f x) False) xs) = map (\<lambda>x. (f x, False)) xs"
  by (induction xs) simp_all

lemma keyboard_release_all_ok:
  assumes "keyboard_release_all dev vk = (r, vk')" "keyboard_ok vk"
  shows "keyboard_ok vk' \<and> vk_remap vk' = reset (kr_mode (vk_remap vk)) (vk_remap vk) \<and>
    (r = Inr () \<longrightarrow> vk_held vk' = {||}) \<and> (\<forall>e. r = Inl e \<longrightarrow> write_failed dev e \<and> vk_held vk' = vk_held vk)"
proof (cases "vk_held vk = {||}")
  case False
  define events where "events = map (\<lambda>hid. key_event (code_of hid) False) (sorted_list_of_fset (vk_held vk))"
  have rel: "key_releases (vk_held vk) = Inr events"
    using key_releases_typable assms(2) by (simp add: keyboard_ok_def events_def)
  obtain r1 d where emit: "device_emit dev RoleKeyboard events (vk_device vk) = (r1, d)" by force
  have inj: "inj_on code_of (fset (vk_held vk))"
    using assms(2) code_of_inject by (auto simp: keyboard_ok_def intro: inj_onI)
  have "replay_edges (map (\<lambda>k. (k, False)) (map code_of (sorted_list_of_fset (vk_held vk)))) (code_of |`| vk_held vk) =
      Some (code_of |`| vk_held vk |-| fset_of_list (map code_of (sorted_list_of_fset (vk_held vk))))"
    using inj by (intro replay_releases) (simp_all add: distinct_map)
  moreover have "code_of |`| vk_held vk |-| fset_of_list (map code_of (sorted_list_of_fset (vk_held vk))) = {||}"
    by (auto simp: fset_of_list.rep_eq)
  ultimately have "replay_edges (event_edges events) (code_of |`| vk_held vk) = Some {||}"
    by (simp add: events_def event_edges_releases comp_def)
  then have "down_keys d = Some (if is_ok r1 then {||} else code_of |`| vk_held vk)"
    using device_emit_down [OF emit] assms(2) by (simp add: keyboard_ok_def)
  moreover have "r1 = Inr () \<or> (\<exists>e. r1 = Inl e \<and> write_failed dev e)"
    using emit by (auto simp: device_emit_def write_failed_def split: if_splits)
  ultimately show ?thesis
    using assms False rel emit
    by (auto simp: keyboard_release_all_def try_then_def keyboard_emit_def keyboard_ok_def is_ok_def Let_def)
qed (use assms in \<open>auto simp: keyboard_release_all_def keyboard_ok_def\<close>)


section \<open>Every output can be typed\<close>

definition usage_number :: "HidUsage \<Rightarrow> int" where
  "usage_number hid = 65536 * uint (page hid) + uint (HidUsage.usage hid)"

lemma usage_number_inject: "usage_number a = usage_number b \<longleftrightarrow> a = b"
proof
  have small: "0 \<le> uint (HidUsage.usage h) \<and> uint (HidUsage.usage h) < 65536" for h
    using uint_lt2p [of "HidUsage.usage h"] by simp
  have "usage_number h div 65536 = uint (page h)" "usage_number h mod 65536 = uint (HidUsage.usage h)" for h
    using small [of h] by (simp_all add: usage_number_def)
  moreover assume "usage_number a = usage_number b"
  ultimately have "uint (page a) = uint (page b) \<and> uint (HidUsage.usage a) = uint (HidUsage.usage b)"
    by metis
  then show "a = b" by (cases a; cases b) (simp add: word_uint_eq_iff)
qed simp

lemma typable_iff: "typable hid \<longleftrightarrow> usage_number hid \<in> set (map (\<lambda>m. usage_number (mapping_hid m)) KEY_MAP)"
proof -
  have "typable hid \<longleftrightarrow> (\<exists>key. hid_to_evdev_key hid = Inr key)"
    by (cases "hid_to_evdev_key hid") (auto simp: typable_def is_ok_def)
  also have "\<dots> \<longleftrightarrow> (\<exists>m \<in> set KEY_MAP. mapping_hid m = hid)" by (auto simp: hid_to_key_iff)
  also have "\<dots> \<longleftrightarrow> usage_number hid \<in> (\<lambda>m. usage_number (mapping_hid m)) ` set KEY_MAP"
    by (auto simp: usage_number_inject image_iff)
  finally show ?thesis by simp
qed

lemmas typable_eval = typable_iff usage_number_def mapping_hid_def KEY_MAP_def KeyMapping_keyboard_def
  KeyMapping_consumer_def HID_KEYBOARD_def HID_CONSUMER_def keyboard_def KEYBOARD_KEYPAD_def

lemma modifiers_typable: "typable LALT" "typable LGUI" "typable RALT" "typable RGUI" "typable LCTRL" "typable RCTRL"
  by (simp_all add: typable_eval)

lemma default_output_typable: "typable hid \<Longrightarrow> typable (default_output mode hid)"
  by (simp add: default_output_def modifiers_typable)

lemma rule_outputs_listed:
  "set (map usage_number (concat (map rule_outputs RULES))) \<subseteq> set (map (\<lambda>m. usage_number (mapping_hid m)) KEY_MAP)"
  by (simp add: RULES_def rule_def rule_outputs_def ANY_KEY_def typable_eval)

lemma output_usages_typable: "out |\<in>| output_usages \<Longrightarrow> typable out"
  using rule_outputs_listed unfolding typable_iff output_usages_iff by (force simp only: set_map set_concat)

text \<open>The invariant: what the kernel has down is what the keyboard holds, and every key that it follows can be typed.\<close>

definition keyboard_inv :: "VirtualKeyboard \<Rightarrow> bool" where
  "keyboard_inv vk \<longleftrightarrow>
     keyboard_ok vk \<and> remap_wf (vk_remap vk) \<and> (\<forall>hid. hid |\<in>| kr_physical (vk_remap vk) \<longrightarrow> typable hid)"

lemma injected_typable:
  assumes "remap_wf k" "\<forall>hid. hid |\<in>| kr_physical k \<longrightarrow> typable hid" "out |\<in>| injected k"
  shows "typable out"
proof -
  obtain os where os: "fmlookup (kr_owners k) out = Some os"
    using assms(3) by (auto simp: injected_def fmlookup_dom_iff)
  then have "os \<noteq> {||}" "os |\<subseteq>| kr_physical k" "\<forall>owner. owner |\<in>| os \<longrightarrow> justified (kr_mode k) out owner"
    using assms(1) unfolding remap_wf_def owners_ok_def by blast+
  then obtain owner where "owner |\<in>| kr_physical k" "justified (kr_mode k) out owner" by auto
  then show ?thesis
    using assms(2) default_output_typable output_usages_typable by (auto simp: justified_def)
qed

lemma press_key_physical [simp]: "kr_physical (fst (remap_press_key u k)) = kr_physical k"
  by (auto simp: remap_press_key_def Let_def case_prod_beta split: option.splits Action.splits)

lemma physical_step:
  "kr_physical (fst (remap_step op k)) |\<subseteq>|
     (case op of RemapKey u _ \<Rightarrow> finsert u (kr_physical k) | _ \<Rightarrow> kr_physical k)"
  by (cases op)
    (auto simp: remap_key_def release_def press_modifier_def pointer_def pointer_released_def set_terminal_def Let_def
      case_prod_beta split: option.splits)

lemma replay_released: "replay_edges edges A = Some B \<Longrightarrow> (k, False) \<in> set edges \<Longrightarrow> k |\<in>| A \<or> (k, True) \<in> set edges"
  by (induction edges A rule: replay_edges.induct) (auto split: if_splits)

lemma step_typable:
  assumes "remap_wf k" "\<forall>hid. hid |\<in>| kr_physical k \<longrightarrow> typable hid" "\<forall>u p. op = RemapKey u p \<longrightarrow> typable u"
    and "remap_step op k = (k', edges)"
  shows "remap_wf k'" "\<forall>hid. hid |\<in>| kr_physical k' \<longrightarrow> typable hid" "\<forall>(hid, pressed) \<in> set edges. typable hid"
proof -
  show wf: "remap_wf k'" using remap_step_wf [OF assms(1), of op] assms(4) by simp
  show phys: "\<forall>hid. hid |\<in>| kr_physical k' \<longrightarrow> typable hid"
    using physical_step [of op k] assms(2-4) by (cases op) auto
  have press: "typable out" if "(out, True) \<in> set edges" for out
    using step_pressed [of out op k] that assms(4) injected_typable [OF wf phys, of out] output_usages_typable [of out]
    by simp metis
  have replay: "replay_edges edges (injected k) = Some (injected k')"
    using emits_step [of k op] assms(4) by (simp add: emits_def)
  have release: "typable out" if "(out, False) \<in> set edges" for out
    using replay_released [OF replay that] press [of out] injected_typable [OF assms(1,2), of out] by metis
  show "\<forall>(hid, pressed) \<in> set edges. typable hid"
  proof (intro ballI, clarify)
    fix hid pressed
    assume "(hid, pressed) \<in> set edges"
    then show "typable hid" using press [of hid] release [of hid] by (cases pressed) simp_all
  qed
qed

section \<open>Runs of the keyboard\<close>

datatype KeyboardOp =
    KbdBegin KeyboardMode
  | KbdSetKey HidUsage bool
  | KbdPointer bool
  | KbdPointerReleased bool
  | KbdTerminal bool
  | KbdReleaseAll

fun keyboard_apply ::
  "device_answer \<Rightarrow> KeyboardOp \<Rightarrow> VirtualKeyboard \<Rightarrow> (InjectionError + unit) \<times> VirtualKeyboard"
where
  "keyboard_apply dev (KbdBegin mode) vk = keyboard_begin dev mode vk"
| "keyboard_apply dev (KbdSetKey hid pressed) vk = keyboard_set_key dev hid pressed vk"
| "keyboard_apply dev (KbdPointer busy) vk = keyboard_pointer dev busy vk"
| "keyboard_apply dev (KbdPointerReleased busy) vk = (Inr (), keyboard_pointer_released busy vk)"
| "keyboard_apply dev (KbdTerminal terminal) vk = (Inr (), keyboard_set_terminal terminal vk)"
| "keyboard_apply dev KbdReleaseAll vk = keyboard_release_all dev vk"

fun keyboard_run ::
  "device_answer \<Rightarrow> KeyboardOp list \<Rightarrow> VirtualKeyboard \<Rightarrow> (InjectionError + unit) list \<times> VirtualKeyboard"
where
  "keyboard_run dev [] vk = ([], vk)"
| "keyboard_run dev (op # ops) vk =
     (let (r, vk1) = keyboard_apply dev op vk; (rs, vk2) = keyboard_run dev ops vk1 in (r # rs, vk2))"

text \<open>What an operation may answer: a failed write, or that this key cannot be typed.\<close>

definition answer_ok :: "KeyboardOp \<Rightarrow> InjectionError + unit \<Rightarrow> bool" where
  "answer_ok op r \<longleftrightarrow>
     (case r of
        Inr _ \<Rightarrow> True
      | Inl e \<Rightarrow> e = EmitFailed RoleKeyboard \<or> (case op of KbdSetKey hid _ \<Rightarrow> \<not> typable hid | _ \<Rightarrow> False))"

definition synced :: "VirtualKeyboard \<Rightarrow> bool" where
  "synced vk \<longleftrightarrow> vk_held vk = injected (vk_remap vk)"

lemma inject_step_ok:
  assumes "keyboard_inv vk" "remap_step op (vk_remap vk) = (k, edges)" "\<forall>u p. op = RemapKey u p \<longrightarrow> typable u"
    and "inject_all dev edges (vk\<lparr>vk_remap := k\<rparr>) = (r, vk')"
  shows "keyboard_inv vk'" "\<forall>e. r = Inl e \<longrightarrow> write_failed dev e" "synced vk \<Longrightarrow> r = Inr () \<Longrightarrow> synced vk'"
proof -
  have start: "keyboard_ok (vk\<lparr>vk_remap := k\<rparr>)" using assms(1) by (simp add: keyboard_inv_def keyboard_ok_def)
  have old: "remap_wf (vk_remap vk)" "\<forall>hid. hid |\<in>| kr_physical (vk_remap vk) \<longrightarrow> typable hid"
    using assms(1) by (simp_all add: keyboard_inv_def)
  note step = step_typable [OF old assms(3,2)]
  note all = inject_all_ok [OF assms(4) start]
  have replay: "replay_edges edges (injected (vk_remap vk)) = Some (injected k)"
    using emits_step [of "vk_remap vk" op] assms(2) by (simp add: emits_def)
  show "keyboard_inv vk'" using all step(1,2) by (simp add: keyboard_inv_def)
  show "\<forall>e. r = Inl e \<longrightarrow> write_failed dev e" using all step(3) by blast
  show "synced vk'" if "synced vk" "r = Inr ()"
    using all that replay by (simp add: synced_def)
qed

lemma reset_wf: "remap_wf (reset mode k)" "kr_physical (reset mode k) = {||}" "injected (reset mode k) = {||}"
  using remap_new_wf [of mode] by (simp_all add: reset_def remap_wf_def remap_new_def injected_def)

lemma release_all_inv:
  assumes "keyboard_release_all dev vk = (r, vk')" "keyboard_inv vk"
  shows "keyboard_inv vk' \<and> (\<forall>e. r = Inl e \<longrightarrow> write_failed dev e) \<and> (r = Inr () \<longrightarrow> synced vk' \<and> vk_held vk' = {||})"
  using keyboard_release_all_ok [OF assms(1)] assms(2)
  by (auto simp: keyboard_inv_def synced_def reset_wf)


text \<open>One operation keeps the invariant and answers as it may; in a device that takes every report it stays in step.\<close>

definition apply_ok :: "device_answer \<Rightarrow> KeyboardOp \<Rightarrow> VirtualKeyboard \<Rightarrow> (InjectionError + unit) \<times> VirtualKeyboard \<Rightarrow> bool"
where
  "apply_ok dev op vk res \<longleftrightarrow>
     keyboard_inv (snd res) \<and> answer_ok op (fst res) \<and> ((\<forall>n. dev n) \<longrightarrow> synced vk \<longrightarrow> synced (snd res))"

lemma apply_ok_inject:
  assumes "keyboard_inv vk" "remap_step op (vk_remap vk) = (k, edges)" "\<forall>u p. op = RemapKey u p \<longrightarrow> typable u"
  shows "apply_ok dev kop vk (inject_all dev edges (vk\<lparr>vk_remap := k\<rparr>))"
proof -
  obtain r vk' where all: "inject_all dev edges (vk\<lparr>vk_remap := k\<rparr>) = (r, vk')" by force
  note ok = inject_step_ok [OF assms all]
  then show ?thesis
    by (cases r) (auto simp: apply_ok_def all answer_ok_def write_failed_def)
qed

lemma apply_ok_release: "keyboard_inv vk \<Longrightarrow> apply_ok dev op vk (keyboard_release_all dev vk)"
  using release_all_inv [of dev vk]
  by (cases "keyboard_release_all dev vk"; cases "fst (keyboard_release_all dev vk)")
    (auto simp: apply_ok_def answer_ok_def write_failed_def)

lemma apply_ok_begin:
  assumes "keyboard_inv vk"
  shows "apply_ok dev op vk (keyboard_begin dev mode vk)"
proof -
  obtain r vk' where rel: "keyboard_release_all dev vk = (r, vk')" by force
  note ok = release_all_inv [OF rel assms]
  then show ?thesis
    by (cases r)
      (auto simp: apply_ok_def answer_ok_def write_failed_def keyboard_begin_def try_then_def rel keyboard_inv_def
        keyboard_ok_def synced_def reset_wf)
qed

lemma keyboard_apply_ok:
  assumes "keyboard_inv vk"
  shows "apply_ok dev op vk (keyboard_apply dev op vk)"
proof (cases op)
  case (KbdSetKey hid pressed)
  obtain k edges where step: "remap_key hid pressed (vk_remap vk) = (k, edges)" by force
  show ?thesis
  proof (cases "typable hid")
    case True
    have "apply_ok dev op vk (inject_all dev edges (vk\<lparr>vk_remap := k\<rparr>))"
      by (rule apply_ok_inject [of _ "RemapKey hid pressed"]) (use assms step True in simp_all)
    then show ?thesis
      using True by (simp add: KbdSetKey keyboard_set_key_def try_then_def typable_Inr map_err_def step)
  next
    case False
    then obtain e where "hid_to_evdev_key hid = Inl e"
      by (cases "hid_to_evdev_key hid") (auto simp: typable_def is_ok_def)
    then show ?thesis
      using assms False
      by (auto simp: KbdSetKey keyboard_set_key_def try_then_def map_err_def apply_ok_def answer_ok_def)
  qed
next
  case (KbdPointer busy)
  obtain k edges where step: "Keymap.pointer busy (vk_remap vk) = (k, edges)" by force
  have "apply_ok dev op vk (inject_all dev edges (vk\<lparr>vk_remap := k\<rparr>))"
    by (rule apply_ok_inject [of _ "RemapPointer busy"]) (use assms step in simp_all)
  then show ?thesis by (simp add: KbdPointer keyboard_pointer_def step)
next
  case (KbdPointerReleased busy)
  show ?thesis
    using apply_ok_inject [OF assms, of "RemapPointerReleased busy" _ "[]"]
    by (simp add: KbdPointerReleased keyboard_pointer_released_def)
next
  case (KbdTerminal terminal)
  show ?thesis
    using apply_ok_inject [OF assms, of "RemapTerminal terminal" _ "[]"] by (simp add: KbdTerminal keyboard_set_terminal_def)
qed (use assms in \<open>simp_all add: apply_ok_release apply_ok_begin\<close>)

lemma keyboard_run_ok:
  assumes "keyboard_run dev ops vk = (rs, vk')" "keyboard_inv vk"
  shows "keyboard_inv vk' \<and> list_all2 answer_ok ops rs \<and> ((\<forall>n. dev n) \<longrightarrow> synced vk \<longrightarrow> synced vk')"
  using assms
proof (induction ops arbitrary: vk rs)
  case (Cons op ops)
  obtain r vk1 where one: "keyboard_apply dev op vk = (r, vk1)" by force
  then obtain rs1 where rest: "keyboard_run dev ops vk1 = (rs1, vk')" "rs = r # rs1"
    using Cons.prems(1) by (auto split: prod.splits)
  have "apply_ok dev op vk (r, vk1)" using keyboard_apply_ok [OF Cons.prems(2), of dev op] one by simp
  with Cons.IH [OF rest(1)] rest(2) show ?case by (auto simp: apply_ok_def)
qed auto

lemma keyboard_create_ok: "keyboard_inv keyboard_create" "synced keyboard_create"
  by (simp_all add: keyboard_inv_def keyboard_ok_def keyboard_create_def device_new_def down_keys_def remap_new_wf
      synced_def injected_def) (simp_all add: remap_new_def)

text \<open>
  C38: The virtual keyboard presses only what it can account for. Over any sequence of operations and any
  answers of the kernel, the accepted reports press and release legally, and what they leave down is the code
  of every usage that the keyboard holds and of no other. An operation fails only because a write was
  refused, or because the peer's key cannot be typed, which is found before the remap records it: no key
  that the remap chooses is one that the device cannot type. When every write is accepted the held keys are
  those that the remap injects, and when the final release succeeds nothing is down.
\<close>

theorem keyboard_accounts_for_its_keys:
  assumes "keyboard_run dev ops keyboard_create = (rs, vk)"
  shows "down_keys (vk_device vk) = Some (code_of |`| vk_held vk) \<and>
    list_all2 answer_ok ops rs \<and>
    ((\<forall>n. dev n) \<longrightarrow> vk_held vk = injected (vk_remap vk)) \<and>
    (fst (keyboard_release_all dev vk) = Inr () \<longrightarrow>
       down_keys (vk_device (snd (keyboard_release_all dev vk))) = Some {||})"
proof -
  note run = keyboard_run_ok [OF assms keyboard_create_ok(1)]
  obtain r vk' where rel: "keyboard_release_all dev vk = (r, vk')" by force
  have "keyboard_inv vk' \<and> (r = Inr () \<longrightarrow> vk_held vk' = {||})"
    using release_all_inv [OF rel] run by blast
  with run keyboard_create_ok(2) show ?thesis
    by (auto simp: rel keyboard_inv_def keyboard_ok_def synced_def)
qed


section \<open>The wheel\<close>

lemma relative_value_bounds: "- (2 ^ 31) \<le> relative_value v" "relative_value v < 2 ^ 31"
  by (auto simp: relative_value_def)

lemma rel_total_append [simp]: "rel_total code (es @ fs) = rel_total code es + rel_total code fs"
  by (simp add: rel_total_def)

lemma rel_total_events:
  assumes "- (2 ^ 31) \<le> v" "v < 2 ^ 31"
  shows "rel_total code (relative_events code' v) = (if code = code' then v else 0)"
  using assms by (simp add: relative_events_def on_code_def sint_sbintrunc' signed_take_bit_int_eq_self)

lemma legacy_wheel_delta_sum:
  assumes "legacy_wheel_delta remainder fine = (remainder', detents)"
  shows "120 * detents + remainder' = remainder + fine" "\<bar>remainder'\<bar> < 120"
proof -
  have d: "detents = (remainder + fine) sdiv 120" "remainder' = (remainder + fine) smod 120"
    using assms by (auto simp: legacy_wheel_delta_def Let_def)
  show "120 * detents + remainder' = remainder + fine"
    unfolding d using mult_sdiv_smod_eq [of 120 "remainder + fine"] by (simp add: mult.commute)
  show "\<bar>remainder'\<bar> < 120" unfolding d by (auto simp: smod_int_alt_def sgn_if abs_if)
qed

lemma legacy_wheel_delta_bound:
  assumes "legacy_wheel_delta remainder fine = (remainder', detents)" "\<bar>remainder\<bar> < 120" "- (2 ^ 31) \<le> fine" "fine < 2 ^ 31"
  shows "- (2 ^ 31) \<le> detents" "detents < 2 ^ 31"
  using legacy_wheel_delta_sum [OF assms(1)] assms(2-4) by (auto simp: abs_less_iff)

lemma legacy_wheel_delta_still: "\<bar>remainder\<bar> < 120 \<Longrightarrow> legacy_wheel_delta remainder 0 = (remainder, 0)"
  by (auto simp: legacy_wheel_delta_def Let_def signed_divide_int_def smod_int_alt_def abs_mult_sgn mult.commute)

definition wheels_ok :: "VirtualPointer \<Rightarrow> bool" where
  "wheels_ok vp \<longleftrightarrow> \<bar>vp_legacy_wheel_remainder vp\<bar> < 120 \<and> \<bar>vp_legacy_hwheel_remainder vp\<bar> < 120"

lemma relative_events_on: "list_ex (on_code code) (relative_events code' v) \<longleftrightarrow> code = code' \<and> v \<noteq> 0"
  by (auto simp: relative_events_def on_code_def)

lemma relative_events_report:
  "event \<in> set (relative_events code v) \<Longrightarrow> report_event event"
  "List.map_filter event_transition (relative_events code v) = []"
  by (auto simp: relative_events_def report_event_def event_transition_def List.map_filter_simps split: if_splits)

lemma transitions_append: "List.map_filter f (xs @ ys) = List.map_filter f xs @ List.map_filter f ys"
  by (simp add: List.map_filter_def)

text \<open>What a report of the pointer holds.\<close>

lemma motion_events_ok:
  assumes "motion_events motion vp = (events, vp')" "wheels_ok vp"
  shows "wheels_ok vp' \<and> (\<forall>event \<in> set events. report_event event) \<and> length events \<le> 6 \<and>
    List.map_filter event_transition events = [] \<and>
    rel_total REL_X events = relative_value (dx motion) \<and> rel_total REL_Y events = relative_value (dy motion) \<and>
    wheel_total REL_HWHEEL_HI_RES REL_HWHEEL events = relative_value (scroll_x motion) \<and>
    wheel_total REL_WHEEL_HI_RES REL_WHEEL events = relative_value (scroll_y motion)"
    (is "_ \<and> _ \<and> _ \<and> _ \<and> ?totals")
    and "120 * rel_total REL_HWHEEL events + vp_legacy_hwheel_remainder vp' =
      vp_legacy_hwheel_remainder vp + rel_total REL_HWHEEL_HI_RES events"
    and "120 * rel_total REL_WHEEL events + vp_legacy_wheel_remainder vp' =
      vp_legacy_wheel_remainder vp + rel_total REL_WHEEL_HI_RES events"
proof -
  define h v where "h = relative_value (scroll_x motion)" and "v = relative_value (scroll_y motion)"
  obtain rx lx where x: "legacy_wheel_delta (vp_legacy_hwheel_remainder vp) h = (rx, lx)" by force
  obtain ry ly where y: "legacy_wheel_delta (vp_legacy_wheel_remainder vp) v = (ry, ly)" by force
  have events: "events = relative_events REL_X (relative_value (dx motion)) @ relative_events REL_Y (relative_value (dy motion)) @
      relative_events REL_HWHEEL_HI_RES h @ relative_events REL_WHEEL_HI_RES v @
      relative_events REL_HWHEEL lx @ relative_events REL_WHEEL ly"
    and vp': "vp' = vp\<lparr>vp_legacy_hwheel_remainder := rx, vp_legacy_wheel_remainder := ry\<rparr>"
    using assms(1) x y by (auto simp: motion_events_def h_def v_def)
  have small: "\<bar>vp_legacy_hwheel_remainder vp\<bar> < 120" "\<bar>vp_legacy_wheel_remainder vp\<bar> < 120"
    using assms(2) by (simp_all add: wheels_ok_def)
  have hv: "- (2 ^ 31) \<le> h" "h < 2 ^ 31" "- (2 ^ 31) \<le> v" "v < 2 ^ 31"
    unfolding h_def v_def by (rule relative_value_bounds)+
  note sums = legacy_wheel_delta_sum [OF x] legacy_wheel_delta_sum [OF y]
  note total = rel_total_events [OF hv(1,2)] rel_total_events [OF hv(3,4)] rel_total_events [OF relative_value_bounds]
    rel_total_events [OF legacy_wheel_delta_bound [OF x small(1) hv(1,2)]]
    rel_total_events [OF legacy_wheel_delta_bound [OF y small(2) hv(3,4)]]
  have totals: "rel_total REL_X events = relative_value (dx motion)" "rel_total REL_Y events = relative_value (dy motion)"
    "rel_total REL_HWHEEL_HI_RES events = h" "rel_total REL_WHEEL_HI_RES events = v"
    "rel_total REL_HWHEEL events = lx" "rel_total REL_WHEEL events = ly"
    unfolding events by (simp_all add: total)
  have still: "h = 0 \<Longrightarrow> lx = 0" "v = 0 \<Longrightarrow> ly = 0"
    using legacy_wheel_delta_still small x y by auto
  have on: "list_ex (on_code REL_HWHEEL_HI_RES) events \<longleftrightarrow> h \<noteq> 0" "list_ex (on_code REL_WHEEL_HI_RES) events \<longleftrightarrow> v \<noteq> 0"
    unfolding events by (simp_all add: relative_events_on)
  have ?totals using totals still on by (auto simp: wheel_total_def h_def v_def)
  moreover have "\<forall>event \<in> set events. report_event event" unfolding events by (auto dest: relative_events_report(1))
  moreover have "List.map_filter event_transition events = []"
    unfolding events by (simp add: transitions_append relative_events_report(2))
  moreover have "length events \<le> 6" unfolding events by (simp add: relative_events_def)
  moreover have "wheels_ok vp'" using sums by (simp add: wheels_ok_def vp')
  ultimately show "wheels_ok vp' \<and> (\<forall>event \<in> set events. report_event event) \<and> length events \<le> 6 \<and>
    List.map_filter event_transition events = [] \<and> ?totals" by blast
  show "120 * rel_total REL_HWHEEL events + vp_legacy_hwheel_remainder vp' =
      vp_legacy_hwheel_remainder vp + rel_total REL_HWHEEL_HI_RES events"
    "120 * rel_total REL_WHEEL events + vp_legacy_wheel_remainder vp' =
      vp_legacy_wheel_remainder vp + rel_total REL_WHEEL_HI_RES events"
    using sums totals by (simp_all add: vp')
qed

fun motion_reports :: "MotionDelta list \<Rightarrow> VirtualPointer \<Rightarrow> InputEvent list list \<times> VirtualPointer" where
  "motion_reports [] vp = ([], vp)"
| "motion_reports (motion # motions) vp =
     (let (events, vp1) = motion_events motion vp; (reports, vp2) = motion_reports motions vp1 in (events # reports, vp2))"

definition fits_i32 :: "MotionDelta \<Rightarrow> bool" where
  "fits_i32 motion \<longleftrightarrow> (\<forall>v \<in> {dx motion, dy motion, scroll_x motion, scroll_y motion}. - (2 ^ 31) \<le> sint v \<and> sint v < 2 ^ 31)"

definition captures_as :: "InputEvent list \<Rightarrow> MotionDelta \<Rightarrow> bool" where
  "captures_as report motion \<longleftrightarrow>
     (\<exists>f. push_frames (report @ [report_end]) accumulator_default = (Inr [f], accumulator_default) \<and>
        cf_transitions f = [] \<and> cf_motion f = motion)"

lemma motion_captured:
  assumes "motion_events motion vp = (events, vp')" "wheels_ok vp" "fits_i32 motion"
  shows "captures_as events motion"
proof -
  note ok = motion_events_ok(1) [OF assms(1,2)]
  then obtain f where f: "push_frames (events @ [report_end]) accumulator_default = (Inr [f], accumulator_default)"
      "cf_transitions f = []" "sint (dx (cf_motion f)) = relative_value (dx motion)"
      "sint (dy (cf_motion f)) = relative_value (dy motion)"
      "sint (scroll_x (cf_motion f)) = relative_value (scroll_x motion)"
      "sint (scroll_y (cf_motion f)) = relative_value (scroll_y motion)"
    using report_becomes_frame [of events] by auto
  have "relative_value v = sint v" if "v \<in> {dx motion, dy motion, scroll_x motion, scroll_y motion}" for v
    using assms(3) that unfolding fits_i32_def relative_value_def by fastforce
  with f have "cf_motion f = motion"
    by (intro MotionDelta.equality) (simp_all add: signed_word_eqI)
  with f show ?thesis by (auto simp: captures_as_def)
qed

text \<open>
  C39: A motion that the pointer injects is the motion that a capture of the report gives. For any motions within 32
  bits, in their order, each report is one frame with that motion and no transition, though it also
  carries the legacy detents; and over the whole run the detents of each wheel lag its
  high-resolution units by less than one click, with nothing lost.
\<close>

theorem injected_motion_is_captured:
  assumes "motion_reports motions pointer_create = (reports, vp)" "list_all fits_i32 motions"
  shows "list_all2 captures_as reports motions \<and>
    120 * rel_total REL_WHEEL (concat reports) + vp_legacy_wheel_remainder vp = rel_total REL_WHEEL_HI_RES (concat reports) \<and>
    120 * rel_total REL_HWHEEL (concat reports) + vp_legacy_hwheel_remainder vp =
      rel_total REL_HWHEEL_HI_RES (concat reports) \<and>
    \<bar>vp_legacy_wheel_remainder vp\<bar> < 120 \<and> \<bar>vp_legacy_hwheel_remainder vp\<bar> < 120"
proof -
  have "list_all2 captures_as reports motions \<and> wheels_ok vp \<and>
      120 * rel_total REL_WHEEL (concat reports) + vp_legacy_wheel_remainder vp =
        vp_legacy_wheel_remainder vp0 + rel_total REL_WHEEL_HI_RES (concat reports) \<and>
      120 * rel_total REL_HWHEEL (concat reports) + vp_legacy_hwheel_remainder vp =
        vp_legacy_hwheel_remainder vp0 + rel_total REL_HWHEEL_HI_RES (concat reports)"
    if "motion_reports motions vp0 = (reports, vp)" "list_all fits_i32 motions" "wheels_ok vp0" for vp0
    using that
  proof (induction motions arbitrary: reports vp0)
    case (Cons motion motions)
    obtain events vp1 where one: "motion_events motion vp0 = (events, vp1)" by force
    then obtain reports1 where rest: "motion_reports motions vp1 = (reports1, vp)" "reports = events # reports1"
      using Cons.prems(1) by (auto split: prod.splits)
    have fits: "fits_i32 motion" "list_all fits_i32 motions" using Cons.prems(2) by simp_all
    note ok = motion_events_ok [OF one Cons.prems(3)]
    have "wheels_ok vp1" using ok(1) by blast
    from Cons.IH [OF rest(1) fits(2) this] ok(2,3) motion_captured [OF one Cons.prems(3) fits(1)]
    show ?case by (simp add: rest(2) algebra_simps)
  qed simp
  from this [OF assms] show ?thesis
    by (simp add: wheels_ok_def pointer_create_def)
qed

lemma injected_motion_is_captured_witness:
  "list_all2 captures_as
     [[sample_event RELATIVE REL_X 5, sample_event RELATIVE REL_WHEEL_HI_RES 90],
      [sample_event RELATIVE REL_WHEEL_HI_RES 40, sample_event RELATIVE REL_WHEEL 1]]
     [\<lparr>dx = 5, dy = 0, scroll_x = 0, scroll_y = 90\<rparr>, \<lparr>dx = 0, dy = 0, scroll_x = 0, scroll_y = 40\<rparr>]"
  using injected_motion_is_captured
    [of "[\<lparr>dx = 5, dy = 0, scroll_x = 0, scroll_y = 90\<rparr>, \<lparr>dx = 0, dy = 0, scroll_x = 0, scroll_y = 40\<rparr>]"]
  by (simp add: motion_events_def pointer_create_def relative_events_def relative_value_def legacy_wheel_delta_def Let_def
      signed_divide_int_def smod_int_alt_def fits_i32_def sample_event_def)

section \<open>A sample run of the keyboard\<close>

lemma key_a_code: "hid_to_evdev_key KEY_A = Inr 30" "code_of KEY_A = 30"
  by (simp_all add: code_of_def hid_to_evdev_key_def keyboard_def KEY_MAP_def KeyMapping_keyboard_def
      KeyMapping_consumer_def HID_KEYBOARD_def HID_CONSUMER_def KEYBOARD_KEYPAD_def ok_or_def)

lemma key_a_plain: "modifier_class KEY_A = None" "default_output Standard KEY_A = KEY_A"
  by (simp_all add: modifier_class_def default_output_def keyboard_def)

lemma sorted_fset_single: "sorted_list_of_fset {|x|} = [x]"
  by (simp add: sorted_list_of_fset.rep_eq)

lemma sample_keyboard_run:
  "keyboard_run (\<lambda>n. n \<noteq> 1) [KbdSetKey KEY_A True, KbdSetKey KEY_A False] keyboard_create =
     ([Inr (), Inl (EmitFailed RoleKeyboard)],
      \<lparr>vk_device = \<lparr>vd_reports = [[key_event 30 True]], vd_attempts = 2\<rparr>, vk_remap = remap_new Standard, vk_held = {|KEY_A|}\<rparr>)"
proof -
  have press: "remap_key KEY_A True (remap_new Standard) =
      ((remap_new Standard)\<lparr>kr_physical := {|KEY_A|}, kr_owners := fmupd KEY_A {|KEY_A|} fmempty\<rparr>, [(KEY_A, True)])"
    by (simp add: remap_key_def key_a_plain remap_press_key_def lookup_def remap_new_def chord_def set_modifiers_def
        wanted_modifiers_def wanted_for_def own_def add_owner_def sorted_list_of_fmap_def sorted_fset_single Let_def)
  have release: "remap_key KEY_A False
      ((remap_new Standard)\<lparr>kr_physical := {|KEY_A|}, kr_owners := fmupd KEY_A {|KEY_A|} fmempty\<rparr>) =
      (remap_new Standard, [(KEY_A, False)])"
    by (simp add: remap_key_def release_def freed_by_def remap_new_def Let_def sorted_fset_single cong del: fmfilter_cong)
  show ?thesis
    by (simp add: keyboard_create_def keyboard_set_key_def try_then_def map_err_def key_a_code press release inject_key_def
        keyboard_emit_def device_emit_def device_new_def)
qed

lemma keyboard_accounts_for_its_keys_witness:
  "down_keys (vk_device (snd (keyboard_run (\<lambda>n. n \<noteq> 1) [KbdSetKey KEY_A True, KbdSetKey KEY_A False] keyboard_create))) =
     Some {|30|}"
  unfolding sample_keyboard_run
  using keyboard_accounts_for_its_keys [OF sample_keyboard_run] by (simp add: key_a_code)

end
