(* ===== verification/Uinput_Touch.thy ===== *)
theory Uinput_Touch
  imports Uinput Touch_Slots Ownership
begin

text \<open>
  The virtual touchpad of a Linux target and the three virtual devices together
  (\<open>src/src/linux/uinput.rs\<close>).

  \<open>plan_touchpad_events\<close> turns a complete contact state into reports of the slot protocol: a contact keeps its slot and
  tracking id, a new one takes a free slot, and when the free slots do not suffice a first report lifts the
  contacts that end. Coordinates are placed by millimetres on a pad of 200 by 150 mm. The clock readings
  and the age of the capture are arguments by the number of the report; durations are nanoseconds. A panic of
  the planner (a slot out of range, no free slot) is the value \<open>None\<close>.
\<close>

section \<open>Contacts on the pad\<close>

definition TOUCHPAD_MAX_X :: int where
  "TOUCHPAD_MAX_X = 5999"

definition TOUCHPAD_MAX_Y :: int where
  "TOUCHPAD_MAX_Y = 4499"

definition TOUCHPAD_RESOLUTION :: int where
  "TOUCHPAD_RESOLUTION = 30"

definition UNSIZED_SOURCE :: SourceDimensions where
  "UNSIZED_SOURCE = \<lparr>dim_width = 10000, dim_height = 7300\<rparr>"

record TargetContact =
  tt_slot :: nat
  tt_tracking_id :: i32
  tt_x :: i32
  tt_y :: i32

record UinputTouchState =
  us_contacts :: "(ContactId, TargetContact) fmap"
  us_next_tracking_id :: i32

definition us_default :: UinputTouchState where
  "us_default = \<lparr>us_contacts = fmempty, us_next_tracking_id = 1\<rparr>"

definition touch_axis :: "TouchContact \<Rightarrow> bool \<Rightarrow> i32" where
  "touch_axis contact horizontal =
     (let source = (case tc_source_dimensions contact of None \<Rightarrow> UNSIZED_SOURCE | Some d \<Rightarrow> d);
          (v, ext, maximum) =
            (if horizontal then (sint (tc_x contact), uint (dim_width source), TOUCHPAD_MAX_X)
             else (sint (tc_y contact), uint (dim_height source), TOUCHPAD_MAX_Y));
          doubled = maximum * 100 + (2 * v - ext) * TOUCHPAD_RESOLUTION
      in of_int (max 0 (min maximum ((doubled + 100) div 200))))"

definition touch_tool_key :: "nat \<Rightarrow> KeyCode option" where
  "touch_tool_key count =
     (if count = 0 then None
      else if count = 1 then Some BTN_TOOL_FINGER
      else if count = 2 then Some BTN_TOOL_DOUBLETAP
      else if count = 3 then Some BTN_TOOL_TRIPLETAP
      else Some BTN_TOOL_QUADTAP)"

definition absolute_event :: "u16 \<Rightarrow> i32 \<Rightarrow> InputEvent" where
  "absolute_event code v = \<lparr>ie_type = ABSOLUTE, ie_code = code, ie_value = v\<rparr>"

section \<open>Planning a report\<close>

text \<open>The slots that are in use, and the loop that gives each contact its place; \<open>expect\<close> panics without a free slot.\<close>

definition used_slots :: "UinputTouchState \<Rightarrow> bool list" where
  "used_slots previous =
     fold (\<lambda>existing used. used[tt_slot existing := True]) (fm_values (us_contacts previous))
       (replicate MAX_TOUCHPAD_CONTACTS False)"

fun place_contacts ::
  "UinputTouchState \<Rightarrow> TouchContact list \<Rightarrow> bool list \<Rightarrow> UinputTouchState \<Rightarrow> UinputTouchState option"
where
  "place_contacts previous [] used following = Some following"
| "place_contacts previous (contact # contacts) used following =
     (let px = touch_axis contact True; py = touch_axis contact False in
      case fmlookup (us_contacts previous) (tc_id contact) of
        Some existing \<Rightarrow>
          place_contacts previous contacts used
            (following\<lparr>us_contacts := fmupd (tc_id contact) (existing\<lparr>tt_x := px, tt_y := py\<rparr>) (us_contacts following)\<rparr>)
      | None \<Rightarrow>
          (case position (\<lambda>u. \<not> u) used of
             None \<Rightarrow> None
           | Some slot \<Rightarrow>
               (let tracking_id = us_next_tracking_id following
                in place_contacts previous contacts (used[slot := True])
                     \<lparr>us_contacts = fmupd (tc_id contact)
                        \<lparr>tt_slot = slot, tt_tracking_id = tracking_id, tt_x = px, tt_y = py\<rparr> (us_contacts following),
                      us_next_tracking_id = (if tracking_id = 65535 then 1 else tracking_id + 1)\<rparr>)))"

definition released_events :: "UinputTouchState \<Rightarrow> UinputTouchState \<Rightarrow> InputEvent list" where
  "released_events previous following =
     concat (map (\<lambda>(i, old). if fmlookup (us_contacts following) i = None
         then [absolute_event ABS_MT_SLOT (of_nat (tt_slot old)), absolute_event ABS_MT_TRACKING_ID (- 1)] else [])
       (sorted_list_of_fmap (us_contacts previous)))"

definition contact_events :: "TargetContact option \<Rightarrow> TargetContact \<Rightarrow> InputEvent list" where
  "contact_events old current =
     (if old = Some current then []
      else [absolute_event ABS_MT_SLOT (of_nat (tt_slot current))] @
        (if old = None then [absolute_event ABS_MT_TRACKING_ID (tt_tracking_id current)] else []) @
        (if old = None \<or> tt_x (the old) \<noteq> tt_x current then [absolute_event ABS_MT_POSITION_X (tt_x current)] else []) @
        (if old = None \<or> tt_y (the old) \<noteq> tt_y current then [absolute_event ABS_MT_POSITION_Y (tt_y current)] else []))"

definition tool_events :: "nat \<Rightarrow> nat \<Rightarrow> InputEvent list" where
  "tool_events old_count new_count =
     (let old_tool = touch_tool_key old_count; new_tool = touch_tool_key new_count
      in (if old_tool \<noteq> new_tool
          then (case old_tool of None \<Rightarrow> [] | Some key \<Rightarrow> [key_event key False]) @
               (case new_tool of None \<Rightarrow> [] | Some key \<Rightarrow> [key_event key True])
          else []) @
         (if (old_count = 0) \<noteq> (new_count = 0) then [key_event BTN_TOUCH (new_count \<noteq> 0)] else []))"

text \<open>\<open>min_by_key\<close> keeps the first contact of the lowest slot.\<close>

definition primary_events :: "TargetContact list \<Rightarrow> InputEvent list" where
  "primary_events contacts =
     (case find (\<lambda>c. tt_slot c = Min (tt_slot ` set contacts)) contacts of
        None \<Rightarrow> []
      | Some primary \<Rightarrow> [absolute_event ABS_X (tt_x primary), absolute_event ABS_Y (tt_y primary)])"

definition plan_touchpad_report ::
  "UinputTouchState \<Rightarrow> TouchState \<Rightarrow> (InputEvent list \<times> UinputTouchState) option"
where
  "plan_touchpad_report previous touches =
     (if \<not> list_all (\<lambda>existing. tt_slot existing < MAX_TOUCHPAD_CONTACTS) (fm_values (us_contacts previous)) then None
      else map_option (\<lambda>following.
       (if us_contacts following = us_contacts previous then []
        else released_events previous following @
          concat (map (\<lambda>(i, current). contact_events (fmlookup (us_contacts previous) i) current)
            (sorted_list_of_fmap (us_contacts following))) @
          tool_events (fcard (fmdom (us_contacts previous))) (fcard (fmdom (us_contacts following))) @
          primary_events (fm_values (us_contacts following)),
        following))
     (place_contacts previous (touch_iter touches) (used_slots previous)
        \<lparr>us_contacts = fmempty, us_next_tracking_id = us_next_tracking_id previous\<rparr>))"

definition surviving_touch :: "UinputTouchState \<Rightarrow> TouchState \<Rightarrow> ContactId + TouchState" where
  "surviving_touch previous touches =
     touch_new (filter (\<lambda>contact. fmlookup (us_contacts previous) (tc_id contact) \<noteq> None) (touch_iter touches))"

definition plan_touchpad_events ::
  "UinputTouchState \<Rightarrow> TouchState \<Rightarrow> (InjectionError + (InputEvent list \<times> UinputTouchState) list) option"
where
  "plan_touchpad_events previous touches =
     (if touch_len touches > MAX_TOUCHPAD_CONTACTS
      then Some (Inl (TooManyTouchContacts (touch_len touches) MAX_TOUCHPAD_CONTACTS))
      else if fcard (fmdom (us_contacts previous)) > MAX_TOUCHPAD_CONTACTS then None
      else
        (let new_contacts = length (filter (\<lambda>contact. fmlookup (us_contacts previous) (tc_id contact) = None) (touch_iter touches));
             unused_slots = MAX_TOUCHPAD_CONTACTS - fcard (fmdom (us_contacts previous))
         in if new_contacts \<le> unused_slots then map_option (\<lambda>report. Inr [report]) (plan_touchpad_report previous touches)
            else
              (case surviving_touch previous touches of
                 Inl _ \<Rightarrow> None
               | Inr survivors \<Rightarrow>
                   Option.bind (plan_touchpad_report previous survivors) (\<lambda>(release_events, released).
                     map_option (\<lambda>landing. Inr [(release_events, released), landing])
                       (plan_touchpad_report released touches)))))"

section \<open>The touchpad\<close>

record VirtualTouchpad =
  vt_device :: VirtualDevice
  vt_state :: UinputTouchState
  vt_last_report_time :: duration
  vt_stamps :: "nat list"
  vt_reads :: nat

definition touchpad_create :: VirtualTouchpad where
  "touchpad_create =
     \<lparr>vt_device = device_new, vt_state = us_default, vt_last_report_time = 0, vt_stamps = [], vt_reads = 0\<rparr>"

definition touch_report_time :: "duration \<Rightarrow> duration option \<Rightarrow> duration \<Rightarrow> duration" where
  "touch_report_time now age previous =
     (let capture = (case age of None \<Rightarrow> now | Some a \<Rightarrow> if a < from_secs 10 then now - a else now)
      in min (max capture previous) now)"

text \<open>
  One report. \<open>now n\<close> is the \<open>n\<close>-th reading of the monotonic clock, which may fail, and \<open>elapsed n\<close> the age of the
  capture then; \<open>vt_stamps\<close> logs the time of each accepted report, in microseconds.
\<close>

definition touchpad_emit ::
  "device_answer \<Rightarrow> (nat \<Rightarrow> duration option) \<Rightarrow> (nat \<Rightarrow> duration) option \<Rightarrow> InputEvent list \<Rightarrow> VirtualTouchpad \<Rightarrow>
     (InjectionError + unit) \<times> VirtualTouchpad"
where
  "touchpad_emit dev now elapsed events vt =
     (let n = vt_reads vt; vt1 = vt\<lparr>vt_reads := n + 1\<rparr> in
      case now n of
        None \<Rightarrow> (Inl (EmitFailed RoleTouchpad), vt1)
      | Some t \<Rightarrow>
          (let timestamp = touch_report_time t (map_option (\<lambda>age. age n) elapsed) (vt_last_report_time vt1);
               (r, d) = device_emit dev RoleTouchpad events (vt_device vt1)
           in case r of
                Inl e \<Rightarrow> (Inl e, vt1\<lparr>vt_device := d\<rparr>)
              | Inr _ \<Rightarrow>
                  (Inr (), vt1\<lparr>vt_device := d, vt_last_report_time := timestamp,
                     vt_stamps := vt_stamps vt1 @ [as_micros timestamp]\<rparr>)))"

fun replace_reports ::
  "device_answer \<Rightarrow> (nat \<Rightarrow> duration option) \<Rightarrow> (nat \<Rightarrow> duration) option \<Rightarrow> (InputEvent list \<times> UinputTouchState) list \<Rightarrow>
     VirtualTouchpad \<Rightarrow> (InjectionError + unit) \<times> VirtualTouchpad"
where
  "replace_reports dev now elapsed [] vt = (Inr (), vt)"
| "replace_reports dev now elapsed ((events, following) # reports) vt =
     try_then (\<lambda>v. if events = [] then (Inr (), v) else touchpad_emit dev now elapsed events v)
       (\<lambda>_ v. replace_reports dev now elapsed reports (v\<lparr>vt_state := following\<rparr>)) vt"

definition replace_at ::
  "device_answer \<Rightarrow> (nat \<Rightarrow> duration option) \<Rightarrow> TouchState \<Rightarrow> (nat \<Rightarrow> duration) option \<Rightarrow> VirtualTouchpad \<Rightarrow>
     ((InjectionError + unit) \<times> VirtualTouchpad) option"
where
  "replace_at dev now touches captured_at vt =
     map_option (\<lambda>plan. case plan of
         Inl e \<Rightarrow> (Inl e, vt)
       | Inr reports \<Rightarrow>
           replace_reports dev now (if touch_is_empty touches then None else captured_at) reports vt)
       (plan_touchpad_events (vt_state vt) touches)"

definition touchpad_release_all ::
  "device_answer \<Rightarrow> (nat \<Rightarrow> duration option) \<Rightarrow> VirtualTouchpad \<Rightarrow> ((InjectionError + unit) \<times> VirtualTouchpad) option"
where
  "touchpad_release_all dev now = replace_at dev now touch_default None"

section \<open>The three devices\<close>

record VirtualInput =
  vi_keyboard :: VirtualKeyboard
  vi_pointer :: VirtualPointer
  vi_touchpad :: "VirtualTouchpad option"

text \<open>Whether the kernel builds the device of a role is the argument \<open>built\<close>.\<close>

definition input_create :: "(VirtualDeviceRole \<Rightarrow> bool) \<Rightarrow> bool \<Rightarrow> InjectionError + VirtualInput" where
  "input_create built experimental =
     (let build = (\<lambda>role. if built role then Inr () else Inl (CreateFailed role)) in
      result_then (build RoleKeyboard) (\<lambda>_.
      result_then (build RolePointer) (\<lambda>_.
      result_then (if experimental then build RoleTouchpad else Inr ()) (\<lambda>_.
        Inr \<lparr>vi_keyboard = keyboard_create, vi_pointer = pointer_create,
             vi_touchpad = (if experimental then Some touchpad_create else None)\<rparr>))))"

definition touching :: "VirtualInput \<Rightarrow> bool" where
  "touching vi \<longleftrightarrow> (case vi_touchpad vi of None \<Rightarrow> False | Some vt \<Rightarrow> us_contacts (vt_state vt) \<noteq> fmempty)"

definition replace_touch_at ::
  "device_answer \<Rightarrow> (nat \<Rightarrow> duration option) \<Rightarrow> TouchState \<Rightarrow> (nat \<Rightarrow> duration) option \<Rightarrow> VirtualInput \<Rightarrow>
     ((InjectionError + unit) \<times> VirtualInput) option"
where
  "replace_touch_at dev now touches captured_at vi =
     (case vi_touchpad vi of
        Some vt \<Rightarrow> map_option (\<lambda>(r, v). (r, vi\<lparr>vi_touchpad := Some v\<rparr>)) (replace_at dev now touches captured_at vt)
      | None \<Rightarrow> Some (if touch_is_empty touches then Inr () else Inl TouchpadDisabled, vi))"

definition failure_of :: "'e + unit \<Rightarrow> 'e list" where
  "failure_of r = (case r of Inl e \<Rightarrow> [e] | Inr _ \<Rightarrow> [])"

definition input_release_all ::
  "device_answer \<Rightarrow> device_answer \<Rightarrow> device_answer \<Rightarrow> (nat \<Rightarrow> duration option) \<Rightarrow> VirtualInput \<Rightarrow>
     ((InjectionError list + unit) \<times> VirtualInput) option"
where
  "input_release_all kdev pdev tdev now vi =
     (let (rk, k) = keyboard_release_all kdev (vi_keyboard vi);
          (rp, p) = pointer_release_all pdev (vi_pointer vi);
          vi1 = vi\<lparr>vi_keyboard := k, vi_pointer := p\<rparr>
      in map_option (\<lambda>(rt, t).
           (let failures = failure_of rk @ failure_of rp @ failure_of rt
            in (if failures = [] then Inr () else Inl failures, vi1\<lparr>vi_touchpad := t\<rparr>)))
           (case vi_touchpad vi1 of
              None \<Rightarrow> Some (Inr (), None)
            | Some vt \<Rightarrow> map_option (\<lambda>(r, v). (r, Some v)) (touchpad_release_all tdev now vt)))"

section \<open>Every contact has a place\<close>

definition slots_of :: "UinputTouchState \<Rightarrow> nat set" where
  "slots_of us = tt_slot ` fmran' (us_contacts us)"

lemma slots_of_iff: "s \<in> slots_of us \<longleftrightarrow> (\<exists>i t. fmlookup (us_contacts us) i = Some t \<and> tt_slot t = s)"
  by (force simp: slots_of_def fmlookup_ran'_iff image_iff)

text \<open>The invariant of the planner: slots below five, one contact each, and tracking ids that a device can report.\<close>

definition contact_ok :: "TargetContact \<Rightarrow> bool" where
  "contact_ok t \<longleftrightarrow>
     tt_slot t < MAX_TOUCHPAD_CONTACTS \<and> 1 \<le> sint (tt_tracking_id t) \<and> sint (tt_tracking_id t) \<le> 65535 \<and>
     0 \<le> sint (tt_x t) \<and> sint (tt_x t) \<le> TOUCHPAD_MAX_X \<and> 0 \<le> sint (tt_y t) \<and> sint (tt_y t) \<le> TOUCHPAD_MAX_Y"

definition us_ok :: "UinputTouchState \<Rightarrow> bool" where
  "us_ok us \<longleftrightarrow>
     (\<forall>i t. fmlookup (us_contacts us) i = Some t \<longrightarrow> contact_ok t) \<and>
     (\<forall>i j t u. fmlookup (us_contacts us) i = Some t \<and> fmlookup (us_contacts us) j = Some u \<and> tt_slot t = tt_slot u \<longrightarrow>
        i = j) \<and>
     1 \<le> sint (us_next_tracking_id us) \<and> sint (us_next_tracking_id us) \<le> 65535"

definition shows_contact :: "UinputTouchState \<Rightarrow> TouchContact \<Rightarrow> bool" where
  "shows_contact us c \<longleftrightarrow>
     (\<exists>t. fmlookup (us_contacts us) (tc_id c) = Some t \<and> tt_x t = touch_axis c True \<and> tt_y t = touch_axis c False)"

text \<open>A contact that stays keeps its slot and tracking id, a new one has a slot that was free.\<close>

definition keeps_place :: "UinputTouchState \<Rightarrow> UinputTouchState \<Rightarrow> bool" where
  "keeps_place previous us \<longleftrightarrow>
     (\<forall>i t. fmlookup (us_contacts us) i = Some t \<longrightarrow>
        (case fmlookup (us_contacts previous) i of
           Some old \<Rightarrow> tt_slot t = tt_slot old \<and> tt_tracking_id t = tt_tracking_id old
         | None \<Rightarrow> tt_slot t \<notin> slots_of previous))"

lemma touch_axis_range:
  "0 \<le> sint (touch_axis c h)" "sint (touch_axis c True) \<le> TOUCHPAD_MAX_X" "sint (touch_axis c False) \<le> TOUCHPAD_MAX_Y"
proof -
  have clamp: "sint (of_int (max 0 (min m v)) :: i32) = max 0 (min m v)" if "0 \<le> m" "m < 2 ^ 31" for m v :: int
    using that by (simp add: sint_sbintrunc' signed_take_bit_int_eq_self)
  show "0 \<le> sint (touch_axis c h)" "sint (touch_axis c True) \<le> TOUCHPAD_MAX_X" "sint (touch_axis c False) \<le> TOUCHPAD_MAX_Y"
    by (cases h) (simp_all add: touch_axis_def Let_def clamp TOUCHPAD_MAX_X_def TOUCHPAD_MAX_Y_def)
qed

lemma position_free:
  assumes "length (filter (\<lambda>u. \<not> u) used) > 0"
  shows "\<exists>slot. position (\<lambda>u. \<not> u) used = Some slot \<and> slot < length used \<and> \<not> used ! slot"
  using assms by (induction used) auto

lemma free_after_use:
  "slot < length used \<Longrightarrow> \<not> used ! slot \<Longrightarrow>
     length (filter (\<lambda>u. \<not> u) (used[slot := True])) = length (filter (\<lambda>u. \<not> u) used) - 1"
proof (induction used arbitrary: slot)
  case (Cons u used)
  show ?case
  proof (cases slot)
    case (Suc n)
    then have "0 < length (filter (\<lambda>u. \<not> u) used)"
      using Cons.prems by (auto simp: length_greater_0_conv filter_empty_conv intro!: bexI [of _ "used ! n"] nth_mem)
    with Cons Suc show ?thesis by auto
  qed (use Cons.prems in simp)
qed simp

definition next_tid :: "i32 \<Rightarrow> i32" where
  "next_tid tid = (if tid = 65535 then 1 else tid + 1)"

lemma next_tid_range: "1 \<le> sint tid \<Longrightarrow> sint tid \<le> 65535 \<Longrightarrow> 1 \<le> sint (next_tid tid) \<and> sint (next_tid tid) \<le> 65535"
proof -
  assume tid: "1 \<le> sint tid" "sint tid \<le> 65535"
  show ?thesis
  proof (cases "tid = 65535")
    case False
    then have "sint tid \<noteq> 65535" using signed_word_eqI [of tid 65535] by auto
    with tid have "sint (tid + 1) = sint tid + 1"
      by (simp add: sint_word_ariths signed_take_bit_int_eq_self)
    with tid False \<open>sint tid \<noteq> 65535\<close> show ?thesis by (simp add: next_tid_def)
  qed (simp add: next_tid_def)
qed

text \<open>The loop: \<open>used\<close> marks the slots of the old contacts and of the new ones placed so far.\<close>

definition marks :: "bool list \<Rightarrow> nat set \<Rightarrow> bool" where
  "marks used S \<longleftrightarrow> length used = MAX_TOUCHPAD_CONTACTS \<and> (\<forall>s < MAX_TOUCHPAD_CONTACTS. used ! s \<longleftrightarrow> s \<in> S)"

lemma marks_update: "marks used S \<Longrightarrow> marks (used[slot := True]) (insert slot S)"
  unfolding marks_def by (metis insert_iff length_list_update nth_list_update_eq nth_list_update_neq)

lemma marks_used_slots:
  assumes "us_ok previous"
  shows "marks (used_slots previous) (slots_of previous)"
proof -
  have "marks (fold (\<lambda>existing used. used[tt_slot existing := True]) ts used) (S \<union> tt_slot ` set ts)"
    if "marks used S" for ts used S
    using that
  proof (induction ts arbitrary: used S)
    case (Cons t ts)
    from Cons.IH [OF marks_update [OF Cons.prems, of "tt_slot t"]] show ?case by simp
  qed simp
  moreover have "marks (replicate MAX_TOUCHPAD_CONTACTS False) {}" by (simp add: marks_def)
  ultimately have "marks (used_slots previous) ({} \<union> tt_slot ` set (fm_values (us_contacts previous)))"
    unfolding used_slots_def by blast
  moreover have "tt_slot ` set (fm_values (us_contacts previous)) = slots_of previous"
    by (force simp: slots_of_iff fm_values_def set_sorted_list_of_fmap image_iff)
  ultimately show ?thesis by simp
qed

lemma position_here: "P (xs ! k) \<Longrightarrow> k < length xs \<Longrightarrow> \<exists>j. position P xs = Some j \<and> j < length xs \<and> P (xs ! j)"
  by (induction xs arbitrary: k) (auto simp: nth_Cons split: nat.splits)

lemma card_marks: "marks used S \<Longrightarrow> S \<subseteq> {..<MAX_TOUCHPAD_CONTACTS} \<Longrightarrow> card S < MAX_TOUCHPAD_CONTACTS \<Longrightarrow>
    \<exists>slot. position (\<lambda>u. \<not> u) used = Some slot \<and> slot < MAX_TOUCHPAD_CONTACTS \<and> slot \<notin> S"
proof -
  assume m: "marks used S" and sub: "S \<subseteq> {..<MAX_TOUCHPAD_CONTACTS}" and few: "card S < MAX_TOUCHPAD_CONTACTS"
  from sub few have "S \<noteq> {..<MAX_TOUCHPAD_CONTACTS}" by (metis card_lessThan nat_less_le)
  with sub obtain k where "k < MAX_TOUCHPAD_CONTACTS" "k \<notin> S" by auto
  with m position_here [of "\<lambda>u. \<not> u" used k] show ?thesis by (auto simp: marks_def)
qed

text \<open>The places given so far, for the contacts \<open>seen\<close>.\<close>

definition placed :: "UinputTouchState \<Rightarrow> TouchContact list \<Rightarrow> UinputTouchState \<Rightarrow> bool" where
  "placed previous seen us \<longleftrightarrow>
     us_ok us \<and> keeps_place previous us \<and> fset (fmdom (us_contacts us)) = tc_id ` set seen \<and>
     list_all (shows_contact us) seen"

lemma placed_step:
  assumes ok: "us_ok previous" "placed previous seen us" and fresh: "tc_id c \<notin> tc_id ` set seen"
    and t: "contact_ok t" "tt_x t = touch_axis c True" "tt_y t = touch_axis c False"
    and keep: "case fmlookup (us_contacts previous) (tc_id c) of
      Some old \<Rightarrow> tt_slot t = tt_slot old \<and> tt_tracking_id t = tt_tracking_id old | None \<Rightarrow> tt_slot t \<notin> slots_of previous \<union> slots_of us"
    and tid: "1 \<le> sint tid" "sint tid \<le> 65535"
  shows "placed previous (seen @ [c]) \<lparr>us_contacts = fmupd (tc_id c) t (us_contacts us), us_next_tracking_id = tid\<rparr>"
proof -
  let ?us = "\<lparr>us_contacts = fmupd (tc_id c) t (us_contacts us), us_next_tracking_id = tid\<rparr>"
  note us = ok(2) [unfolded placed_def]
  have none: "fmlookup (us_contacts us) (tc_id c) = None"
    using us fresh by (metis fmdom_notD)
  have other: "tt_slot u \<noteq> tt_slot t" if "fmlookup (us_contacts us) i = Some u" for i u
  proof (cases "fmlookup (us_contacts previous) (tc_id c)")
    case None
    then show ?thesis using keep that by (auto simp: slots_of_iff)
  next
    case (Some old)
    then have old: "tt_slot t = tt_slot old" using keep by simp
    have "i \<noteq> tc_id c" using that none by auto
    have place: "case fmlookup (us_contacts previous) i of
        Some o' \<Rightarrow> tt_slot u = tt_slot o' \<and> tt_tracking_id u = tt_tracking_id o' | None \<Rightarrow> tt_slot u \<notin> slots_of previous"
      using us that by (simp add: keeps_place_def)
    have "\<forall>o'. fmlookup (us_contacts previous) i = Some o' \<longrightarrow> tt_slot o' \<noteq> tt_slot old"
      using ok(1) Some \<open>i \<noteq> tc_id c\<close> unfolding us_ok_def by metis
    moreover have "tt_slot old \<in> slots_of previous" using Some by (auto simp: slots_of_iff)
    ultimately show ?thesis using place old by (auto split: option.splits)
  qed
  have "us_ok ?us"
    using us t(1) tid other by (auto simp: us_ok_def split: if_splits) (metis other)+
  moreover have "keeps_place previous ?us"
    using us keep by (auto simp: keeps_place_def split: option.splits)
  moreover have "list_all (shows_contact ?us) (seen @ [c])"
    using us fresh t(2,3) by (auto simp: list_all_iff shows_contact_def)
  ultimately show ?thesis using us by (auto simp: placed_def)
qed

text \<open>The loop never panics while the new contacts fit into the free slots.\<close>

definition fresh_contacts :: "UinputTouchState \<Rightarrow> TouchContact list \<Rightarrow> nat" where
  "fresh_contacts previous contacts = length (filter (\<lambda>c. fmlookup (us_contacts previous) (tc_id c) = None) contacts)"

lemma place_contacts_ok:
  assumes "us_ok previous" "placed previous seen us" "distinct (map tc_id (seen @ contacts))"
    and "marks used (slots_of previous \<union> slots_of us)"
    and "card (slots_of previous \<union> slots_of us) + fresh_contacts previous contacts \<le> MAX_TOUCHPAD_CONTACTS"
  shows "\<exists>us'. place_contacts previous contacts used us = Some us' \<and> placed previous (seen @ contacts) us'"
  using assms(2-)
proof (induction contacts arbitrary: seen used us)
  case (Cons c contacts)
  have fresh: "tc_id c \<notin> tc_id ` set seen" using Cons.prems(2) by simp
  have slots: "slots_of previous \<union> slots_of us \<subseteq> {..<MAX_TOUCHPAD_CONTACTS}"
    using assms(1) Cons.prems(1) by (auto simp: slots_of_iff placed_def us_ok_def contact_ok_def)
  have new_slots: "slots_of \<lparr>us_contacts = fmupd (tc_id c) t (us_contacts us), us_next_tracking_id = tid\<rparr> =
      insert (tt_slot t) (slots_of us)" for t tid
  proof -
    have "fmlookup (us_contacts us) (tc_id c) = None"
      using Cons.prems(1) fresh unfolding placed_def by (metis fmdom_notD)
    then show ?thesis by (auto simp: slots_of_iff set_eq_iff split: if_splits) (metis option.distinct(1))+
  qed
  show ?case
  proof (cases "fmlookup (us_contacts previous) (tc_id c)")
    case (Some existing)
    define t where "t = existing\<lparr>tt_x := touch_axis c True, tt_y := touch_axis c False\<rparr>"
    define us1 where "us1 = \<lparr>us_contacts = fmupd (tc_id c) t (us_contacts us), us_next_tracking_id = us_next_tracking_id us\<rparr>"
    have "contact_ok t"
      using assms(1) Some touch_axis_range [of c] by (auto simp: t_def us_ok_def contact_ok_def)
    then have "placed previous (seen @ [c]) us1"
      unfolding us1_def using Cons.prems(1) Some assms(1) fresh
      by (intro placed_step) (auto simp: t_def placed_def us_ok_def)
    moreover have "tt_slot existing \<in> slots_of previous" using Some by (auto simp: slots_of_iff)
    then have "slots_of previous \<union> slots_of us1 = slots_of previous \<union> slots_of us"
      by (auto simp: us1_def new_slots t_def)
    moreover have "fresh_contacts previous (c # contacts) = fresh_contacts previous contacts"
      using Some by (simp add: fresh_contacts_def)
    ultimately obtain us' where "place_contacts previous contacts used us1 = Some us'" "placed previous (seen @ c # contacts) us'"
      using Cons.IH [of "seen @ [c]" us1 used] Cons.prems by auto
    moreover have "us1 = us\<lparr>us_contacts := fmupd (tc_id c) t (us_contacts us)\<rparr>" by (cases us) (simp add: us1_def)
    then have "place_contacts previous (c # contacts) used us = place_contacts previous contacts used us1"
      using Some by (simp add: t_def)
    ultimately show ?thesis by auto
  next
    case None
    then have count: "fresh_contacts previous (c # contacts) = Suc (fresh_contacts previous contacts)"
      by (simp add: fresh_contacts_def)
    then obtain slot where slot: "position (\<lambda>u. \<not> u) used = Some slot" "slot < MAX_TOUCHPAD_CONTACTS"
        "slot \<notin> slots_of previous \<union> slots_of us"
      using card_marks [OF Cons.prems(3) slots] Cons.prems(4) by auto
    define t where "t = \<lparr>tt_slot = slot, tt_tracking_id = us_next_tracking_id us, tt_x = touch_axis c True, tt_y = touch_axis c False\<rparr>"
    define us1 where "us1 = \<lparr>us_contacts = fmupd (tc_id c) t (us_contacts us),
      us_next_tracking_id = (if us_next_tracking_id us = 65535 then 1 else us_next_tracking_id us + 1)\<rparr>"
    have tids: "1 \<le> sint (us_next_tracking_id us)" "sint (us_next_tracking_id us) \<le> 65535"
      using Cons.prems(1) by (simp_all add: placed_def us_ok_def)
    then have "contact_ok t"
      using slot touch_axis_range [of c] by (auto simp: t_def contact_ok_def)
    then have "placed previous (seen @ [c]) us1"
      unfolding us1_def using Cons.prems(1) None assms(1) fresh slot(3) next_tid_range [OF tids]
      by (intro placed_step) (auto simp: t_def next_tid_def)
    moreover have union: "slots_of previous \<union> slots_of us1 = insert slot (slots_of previous \<union> slots_of us)"
      by (auto simp: us1_def new_slots t_def)
    moreover have "card (insert slot (slots_of previous \<union> slots_of us)) = Suc (card (slots_of previous \<union> slots_of us))"
      using slot(3) finite_subset [OF slots] by simp
    ultimately obtain us' where "place_contacts previous contacts (used[slot := True]) us1 = Some us'"
        "placed previous (seen @ c # contacts) us'"
      using Cons.IH [of "seen @ [c]" us1 "used[slot := True]"] Cons.prems count marks_update [OF Cons.prems(3), of slot]
      by auto
    moreover have "place_contacts previous (c # contacts) used us = place_contacts previous contacts (used[slot := True]) us1"
      using None slot by (simp add: us1_def t_def Let_def)
    ultimately show ?thesis by auto
  qed
qed simp

lemma card_slots: "us_ok us \<Longrightarrow> card (slots_of us) = fcard (fmdom (us_contacts us))"
proof -
  assume ok: "us_ok us"
  let ?slot = "\<lambda>i. tt_slot (the (fmlookup (us_contacts us) i))"
  have "slots_of us = ?slot ` fset (fmdom (us_contacts us))"
    by (force simp: slots_of_iff fmlookup_dom_iff image_iff)
  moreover have "inj_on ?slot (fset (fmdom (us_contacts us)))"
    using ok by (auto simp: inj_on_def us_ok_def fmlookup_dom_iff)
  ultimately show ?thesis by (simp add: card_image fcard.rep_eq)
qed

lemma iter_ids:
  assumes "touch_wf touches"
  shows "map tc_id (touch_iter touches) = sorted_list_of_fset (fmdom touches)"
    and "c \<in> set (touch_iter touches) \<longleftrightarrow> fmlookup touches (tc_id c) = Some c"
proof -
  have "map tc_id (touch_iter touches) = map fst (sorted_list_of_fmap touches)"
    using assms by (auto simp: touch_iter_def touch_wf_def set_sorted_list_of_fmap)
  then show "map tc_id (touch_iter touches) = sorted_list_of_fset (fmdom touches)"
    by (simp add: sorted_list_of_fmap_keys)
  show "c \<in> set (touch_iter touches) \<longleftrightarrow> fmlookup touches (tc_id c) = Some c"
    using assms by (force simp: touch_iter_def touch_wf_def set_sorted_list_of_fmap image_iff)
qed

text \<open>A planned state shows the contacts: their ids, their places on the pad, and what stays in place.\<close>

definition planned :: "UinputTouchState \<Rightarrow> TouchState \<Rightarrow> UinputTouchState \<Rightarrow> bool" where
  "planned previous touches us \<longleftrightarrow>
     us_ok us \<and> keeps_place previous us \<and> fmdom (us_contacts us) = fmdom touches \<and>
     (\<forall>i c. fmlookup touches i = Some c \<longrightarrow> shows_contact us c)"

lemma plan_report_ok:
  assumes "us_ok previous" "touch_wf touches"
    and "fcard (fmdom (us_contacts previous)) + fresh_contacts previous (touch_iter touches) \<le> MAX_TOUCHPAD_CONTACTS"
  shows "\<exists>es us. plan_touchpad_report previous touches = Some (es, us) \<and> planned previous touches us"
proof -
  let ?start = "\<lparr>us_contacts = fmempty, us_next_tracking_id = us_next_tracking_id previous\<rparr>"
  have none: "slots_of ?start = {}" by (auto simp: slots_of_iff)
  have "placed previous [] ?start"
    using assms(1) by (simp add: placed_def us_ok_def keeps_place_def)
  then obtain us where us: "place_contacts previous (touch_iter touches) (used_slots previous) ?start = Some us"
      "placed previous (touch_iter touches) us"
    using place_contacts_ok [OF assms(1), of "[]" ?start "touch_iter touches" "used_slots previous"]
      marks_used_slots [OF assms(1)] assms(3) card_slots [OF assms(1)]
    by (auto simp: none iter_ids(1) [OF assms(2)])
  have "fset (fmdom (us_contacts us)) = set (map tc_id (touch_iter touches))"
    using us(2) by (simp add: placed_def)
  then have "fmdom (us_contacts us) = fmdom touches"
    by (simp only: iter_ids(1) [OF assms(2)] sorted_list_of_fset_simps fset_inject)
  moreover have "shows_contact us c" if "fmlookup touches i = Some c" for i c
  proof -
    have "tc_id c = i" using that assms(2) by (simp add: touch_wf_def)
    then show ?thesis
      using us(2) that iter_ids(2) [OF assms(2), of c] by (simp add: placed_def list_all_iff)
  qed
  moreover have "list_all (\<lambda>existing. tt_slot existing < MAX_TOUCHPAD_CONTACTS) (fm_values (us_contacts previous))"
    using assms(1) by (auto simp: list_all_iff fm_values_def set_sorted_list_of_fmap us_ok_def contact_ok_def)
  ultimately show ?thesis
    using us by (auto simp: plan_touchpad_report_def planned_def placed_def)
qed

section \<open>What the reports do to a multitouch device\<close>

text \<open>The axes of the device that \<open>VirtualTouchpad::create\<close> builds, and its slots.\<close>

definition pad_x_axis :: TouchAxisRange where
  "pad_x_axis = \<lparr>ax_minimum = 0, ax_maximum = of_int TOUCHPAD_MAX_X, ax_resolution = of_int TOUCHPAD_RESOLUTION\<rparr>"

definition pad_y_axis :: TouchAxisRange where
  "pad_y_axis = \<lparr>ax_minimum = 0, ax_maximum = of_int TOUCHPAD_MAX_Y, ax_resolution = of_int TOUCHPAD_RESOLUTION\<rparr>"

definition pad_absorb :: "InputEvent list \<Rightarrow> TouchAccumulator \<Rightarrow> TouchAccumulator" where
  "pad_absorb events a = fold (\<lambda>event a. snd (touch_push event a)) events a"

definition pad_ready :: "TouchAccumulator \<Rightarrow> bool" where
  "pad_ready a \<longleftrightarrow> ta_x a = pad_x_axis \<and> ta_y a = pad_y_axis \<and> length (ta_slots a) = MAX_TOUCHPAD_CONTACTS"

definition slot_view :: "SlotState \<Rightarrow> ContactId option \<times> i32 \<times> i32" where
  "slot_view s = (sl_tracking_id s, sl_x s, sl_y s)"

text \<open>The slots of the device are the contacts: each in its slot, and no other slot is in use.\<close>

definition pad_shows :: "TouchAccumulator \<Rightarrow> UinputTouchState \<Rightarrow> bool" where
  "pad_shows a us \<longleftrightarrow>
     pad_ready a \<and>
     (\<forall>i t. fmlookup (us_contacts us) i = Some t \<longrightarrow>
        slot_view (ta_slots a ! tt_slot t) = (Some (tt_tracking_id t), tt_x t, tt_y t)) \<and>
     (\<forall>s < MAX_TOUCHPAD_CONTACTS. s \<notin> slots_of us \<longrightarrow> sl_tracking_id (ta_slots a ! s) = None)"

lemma pad_absorb_simps [simp]:
  "pad_absorb [] a = a"
  "pad_absorb (event # events) a = pad_absorb events (snd (touch_push event a))"
  "pad_absorb (es @ fs) a = pad_absorb fs (pad_absorb es a)"
  by (simp_all add: pad_absorb_def)

lemma push_absolute_event: "snd (touch_push (absolute_event code v) a) = touch_absolute code v a"
  by (simp add: touch_push_def absolute_event_def)

lemma push_key_event: "snd (touch_push (key_event key pressed) a) = touch_tool key (if pressed then 1 else 0) a"
  by (simp add: touch_push_def key_event_def)

lemma touch_tool_keeps:
  "ta_slots (touch_tool code v a) = ta_slots a" "ta_x (touch_tool code v a) = ta_x a" "ta_y (touch_tool code v a) = ta_y a"
  by (simp_all add: touch_tool_def split: option.split)

lemma normalize_pad:
  "0 \<le> sint v \<Longrightarrow> sint v \<le> TOUCHPAD_MAX_X \<Longrightarrow> normalize pad_x_axis v = v"
  "0 \<le> sint v \<Longrightarrow> sint v \<le> TOUCHPAD_MAX_Y \<Longrightarrow> normalize pad_y_axis v = v"
  by (simp_all add: normalize_def pad_x_axis_def pad_y_axis_def TOUCHPAD_MAX_X_def TOUCHPAD_MAX_Y_def)

lemma slot_number: "s < MAX_TOUCHPAD_CONTACTS \<Longrightarrow> sint (of_nat s :: i32) = int s"
proof -
  assume "s < MAX_TOUCHPAD_CONTACTS"
  then have "s = 0 \<or> s = 1 \<or> s = 2 \<or> s = 3 \<or> s = 4" by (auto simp: MAX_TOUCHPAD_CONTACTS_def)
  then show ?thesis by (elim disjE) simp_all
qed

text \<open>The effect of the events of one contact on its slot.\<close>

definition slot_after :: "TargetContact option \<Rightarrow> TargetContact \<Rightarrow> SlotState \<Rightarrow> SlotState" where
  "slot_after old current s =
     (if old = Some current then s
      else s\<lparr>sl_tracking_id := (if old = None then Some (tt_tracking_id current) else sl_tracking_id s),
             sl_x := (if old = None \<or> tt_x (the old) \<noteq> tt_x current then tt_x current else sl_x s),
             sl_y := (if old = None \<or> tt_y (the old) \<noteq> tt_y current then tt_y current else sl_y s)\<rparr>)"

text \<open>An accumulator that is at a slot, after each of the events.\<close>

definition at_slot :: "nat \<Rightarrow> SlotState list \<Rightarrow> TouchAccumulator \<Rightarrow> bool" where
  "at_slot s slots a \<longleftrightarrow> pad_ready a \<and> ta_current_slot a = Some s \<and> ta_slots a = slots"

lemma at_slot_start:
  "pad_ready a \<Longrightarrow> s < MAX_TOUCHPAD_CONTACTS \<Longrightarrow> at_slot s (ta_slots a) (touch_absolute ABS_MT_SLOT (of_nat s) a)"
  by (simp add: touch_absolute_def mapped_def at_slot_def pad_ready_def slot_number)

lemma at_slot_lift:
  "at_slot s slots a \<Longrightarrow> at_slot s (slots[s := (slots ! s)\<lparr>sl_tracking_id := None\<rparr>]) (touch_absolute ABS_MT_TRACKING_ID (- 1) a)"
  by (auto simp: touch_absolute_def mapped_def at_slot_def pad_ready_def on_slot_def)

lemma at_slot_land:
  "at_slot s slots a \<Longrightarrow> 0 \<le> sint tid \<Longrightarrow>
     at_slot s (slots[s := (slots ! s)\<lparr>sl_tracking_id := Some tid\<rparr>]) (touch_absolute ABS_MT_TRACKING_ID tid a)"
  by (auto simp: touch_absolute_def mapped_def at_slot_def pad_ready_def on_slot_def)

lemma at_slot_x:
  "at_slot s slots a \<Longrightarrow> 0 \<le> sint v \<Longrightarrow> sint v \<le> TOUCHPAD_MAX_X \<Longrightarrow>
     at_slot s (slots[s := (slots ! s)\<lparr>sl_x := v\<rparr>]) (touch_absolute ABS_MT_POSITION_X v a)"
  by (auto simp: touch_absolute_def mapped_def at_slot_def pad_ready_def on_slot_def normalize_pad(1))

lemma at_slot_y:
  "at_slot s slots a \<Longrightarrow> 0 \<le> sint v \<Longrightarrow> sint v \<le> TOUCHPAD_MAX_Y \<Longrightarrow>
     at_slot s (slots[s := (slots ! s)\<lparr>sl_y := v\<rparr>]) (touch_absolute ABS_MT_POSITION_Y v a)"
  by (auto simp: touch_absolute_def mapped_def at_slot_def pad_ready_def on_slot_def normalize_pad(2))

lemma absorb_contact:
  assumes "pad_ready a" "contact_ok current"
  shows "pad_ready (pad_absorb (contact_events old current) a)"
    and "ta_slots (pad_absorb (contact_events old current) a) =
      (ta_slots a)[tt_slot current := slot_after old current (ta_slots a ! tt_slot current)]"
proof -
  let ?s = "tt_slot current" and ?slots = "ta_slots a"
  have c: "?s < MAX_TOUCHPAD_CONTACTS" "0 \<le> sint (tt_tracking_id current)" "0 \<le> sint (tt_x current)"
      "sint (tt_x current) \<le> TOUCHPAD_MAX_X" "0 \<le> sint (tt_y current)" "sint (tt_y current) \<le> TOUCHPAD_MAX_Y"
      and len: "?s < length ?slots"
    using assms by (auto simp: contact_ok_def pad_ready_def)
  note start = at_slot_start [OF assms(1) c(1)]
  have "at_slot ?s (?slots[?s := slot_after old current (?slots ! ?s)]) (pad_absorb (contact_events old current) a)"
    if moved: "old \<noteq> Some current"
  proof (cases old)
    case None
    show ?thesis
      using at_slot_y [OF at_slot_x [OF at_slot_land [OF start c(2)] c(3,4)] c(5,6)] len
      by (simp add: None contact_events_def push_absolute_event slot_after_def)
  next
    case (Some o')
    show ?thesis
      using at_slot_x [OF start c(3,4)] at_slot_y [OF start c(5,6)] at_slot_y [OF at_slot_x [OF start c(3,4)] c(5,6)]
        start len moved
      by (simp add: Some contact_events_def push_absolute_event slot_after_def)
  qed
  then show "pad_ready (pad_absorb (contact_events old current) a)"
    "ta_slots (pad_absorb (contact_events old current) a) =
      (ta_slots a)[tt_slot current := slot_after old current (ta_slots a ! tt_slot current)]"
    using assms(1) by (cases "old = Some current"; simp add: at_slot_def contact_events_def slot_after_def)+
qed

text \<open>Updates at distinct positions of a list.\<close>

definition update_at :: "('x \<Rightarrow> nat) \<Rightarrow> ('x \<Rightarrow> 'a \<Rightarrow> 'a) \<Rightarrow> 'x list \<Rightarrow> 'a list \<Rightarrow> 'a list" where
  "update_at f g xs l = fold (\<lambda>x l. l[f x := g x (l ! f x)]) xs l"

lemma update_at_simps [simp]:
  "update_at f g [] l = l" "update_at f g (x # xs) l = update_at f g xs (l[f x := g x (l ! f x)])"
  by (simp_all add: update_at_def)

lemma update_at_other: "s \<notin> f ` set xs \<Longrightarrow> update_at f g xs l ! s = l ! s"
  by (induction xs arbitrary: l) auto

lemma update_at_here:
  "distinct (map f xs) \<Longrightarrow> x \<in> set xs \<Longrightarrow> f x < length l \<Longrightarrow> update_at f g xs l ! f x = g x (l ! f x)"
proof (induction xs arbitrary: l)
  case (Cons y xs)
  show ?case
  proof (cases "x = y")
    case True
    then have "f x \<notin> f ` set xs" using Cons.prems(1) by auto
    with True Cons.prems(3) show ?thesis by (simp add: update_at_other)
  next
    case False
    then have "x \<in> set xs" "f y \<noteq> f x" using Cons.prems by (auto simp: image_iff)
    with Cons show ?thesis by simp
  qed
qed simp

lemma absorb_contacts:
  assumes "pad_ready a" "\<forall>(i, c) \<in> set cs. contact_ok c"
  shows "pad_ready (pad_absorb (concat (map (\<lambda>(i, c). contact_events (old i) c) cs)) a) \<and>
    ta_slots (pad_absorb (concat (map (\<lambda>(i, c). contact_events (old i) c) cs)) a) =
      update_at (\<lambda>(i, c). tt_slot c) (\<lambda>(i, c). slot_after (old i) c) cs (ta_slots a)"
  using assms
proof (induction cs arbitrary: a)
  case (Cons ic cs)
  obtain i c where ic: "ic = (i, c)" by force
  have c: "contact_ok c" using Cons.prems(2) by (simp add: ic)
  note one = absorb_contact [OF Cons.prems(1) c, of "old i"]
  show ?case using Cons.IH [OF one(1)] Cons.prems(2) by (simp add: ic one(2))
qed simp

definition lift_events :: "TargetContact \<Rightarrow> InputEvent list" where
  "lift_events c = [absolute_event ABS_MT_SLOT (of_nat (tt_slot c)), absolute_event ABS_MT_TRACKING_ID (- 1)]"

lemma absorb_lifted:
  assumes "pad_ready a" "\<forall>(i, c) \<in> set cs. contact_ok c"
  shows "pad_ready (pad_absorb (concat (map (\<lambda>(i, c). lift_events c) cs)) a) \<and>
    ta_slots (pad_absorb (concat (map (\<lambda>(i, c). lift_events c) cs)) a) =
      update_at (\<lambda>(i, c). tt_slot c) (\<lambda>_ s. s\<lparr>sl_tracking_id := None\<rparr>) cs (ta_slots a)"
  using assms
proof (induction cs arbitrary: a)
  case (Cons ic cs)
  obtain i c where ic: "ic = (i, c)" by force
  have c: "tt_slot c < MAX_TOUCHPAD_CONTACTS" using Cons.prems(2) by (simp add: ic contact_ok_def)
  have "at_slot (tt_slot c) ((ta_slots a)[tt_slot c := (ta_slots a ! tt_slot c)\<lparr>sl_tracking_id := None\<rparr>])
      (pad_absorb (lift_events c) a)"
    using at_slot_lift [OF at_slot_start [OF Cons.prems(1) c]] by (simp add: lift_events_def push_absolute_event)
  then have "pad_ready (pad_absorb (lift_events c) a)"
    "ta_slots (pad_absorb (lift_events c) a) = (ta_slots a)[tt_slot c := (ta_slots a ! tt_slot c)\<lparr>sl_tracking_id := None\<rparr>]"
    by (simp_all add: at_slot_def)
  then show ?case using Cons.IH [of "pad_absorb (lift_events c) a"] Cons.prems(2) by (simp add: ic)
qed simp

lemma released_events_lifted:
  "released_events previous following =
     concat (map (\<lambda>(i, c). lift_events c)
       (filter (\<lambda>(i, c). fmlookup (us_contacts following) i = None) (sorted_list_of_fmap (us_contacts previous))))"
proof -
  have "concat (map (\<lambda>(i, old). if fmlookup (us_contacts following) i = None
         then [absolute_event ABS_MT_SLOT (of_nat (tt_slot old)), absolute_event ABS_MT_TRACKING_ID (- 1)] else []) l) =
     concat (map (\<lambda>(i, c). lift_events c) (filter (\<lambda>(i, c). fmlookup (us_contacts following) i = None) l))" for l
    by (induction l) (auto simp: lift_events_def)
  then show ?thesis by (simp add: released_events_def)
qed

text \<open>Tool keys and the single-touch axes leave the slots.\<close>

lemma absorb_tools:
  "pad_ready (pad_absorb (tool_events m n) a) = pad_ready a" "ta_slots (pad_absorb (tool_events m n) a) = ta_slots a"
  by (simp_all add: tool_events_def Let_def push_key_event touch_tool_keeps pad_ready_def split: option.split)

lemma absorb_primary:
  "pad_ready (pad_absorb (primary_events cs) a) = pad_ready a" "ta_slots (pad_absorb (primary_events cs) a) = ta_slots a"
  by (simp_all add: primary_events_def push_absolute_event touch_absolute_def pad_ready_def split: option.split)

lemma sorted_fmap_slots:
  assumes "us_ok us"
  shows "distinct (map (\<lambda>(i, c). tt_slot c) (sorted_list_of_fmap (us_contacts us)))"
    and "\<forall>(i, c) \<in> set (sorted_list_of_fmap (us_contacts us)). contact_ok c"
    and "(\<lambda>(i, c). tt_slot c) ` set (sorted_list_of_fmap (us_contacts us)) = slots_of us"
proof -
  have "distinct (map fst (sorted_list_of_fmap (us_contacts us)))" by (simp add: sorted_list_of_fmap_keys)
  then have "distinct (sorted_list_of_fmap (us_contacts us))" by (simp add: distinct_map)
  moreover have "inj_on (\<lambda>(i, c). tt_slot c) (set (sorted_list_of_fmap (us_contacts us)))"
    using assms by (auto simp: inj_on_def set_sorted_list_of_fmap us_ok_def) (metis option.inject)+
  ultimately show "distinct (map (\<lambda>(i, c). tt_slot c) (sorted_list_of_fmap (us_contacts us)))"
    by (simp add: distinct_map)
  show "\<forall>(i, c) \<in> set (sorted_list_of_fmap (us_contacts us)). contact_ok c"
    using assms by (auto simp: set_sorted_list_of_fmap us_ok_def)
  show "(\<lambda>(i, c). tt_slot c) ` set (sorted_list_of_fmap (us_contacts us)) = slots_of us"
    by (force simp: set_sorted_list_of_fmap slots_of_iff)
qed

lemma lifted_slots:
  fixes us :: UinputTouchState
  assumes "us_ok previous" "pad_ready a"
  defines "a1 \<equiv> pad_absorb (released_events previous us) a"
  shows "pad_ready a1"
    and "fmlookup (us_contacts previous) i = Some t \<Longrightarrow> fmlookup (us_contacts us) i = None \<Longrightarrow>
      sl_tracking_id (ta_slots a1 ! tt_slot t) = None"
    and "(\<And>i t. fmlookup (us_contacts previous) i = Some t \<Longrightarrow> fmlookup (us_contacts us) i = None \<Longrightarrow> tt_slot t \<noteq> s) \<Longrightarrow>
      ta_slots a1 ! s = ta_slots a ! s"
proof -
  let ?cs = "filter (\<lambda>(i, c). fmlookup (us_contacts us) i = None) (sorted_list_of_fmap (us_contacts previous))"
  have ok: "\<forall>(i, c) \<in> set ?cs. contact_ok c" using sorted_fmap_slots(2) [OF assms(1)] by auto
  note lifted = absorb_lifted [OF assms(2) ok]
  show "pad_ready a1" using lifted by (simp add: a1_def released_events_lifted)
  have slots: "ta_slots a1 = update_at (\<lambda>(i, c). tt_slot c) (\<lambda>_ s. s\<lparr>sl_tracking_id := None\<rparr>) ?cs (ta_slots a)"
    using lifted by (simp add: a1_def released_events_lifted)
  have dist: "distinct (map (\<lambda>(i, c). tt_slot c) ?cs)"
    by (rule distinct_map_filter [OF sorted_fmap_slots(1) [OF assms(1)]])
  show "sl_tracking_id (ta_slots a1 ! tt_slot t) = None"
    if "fmlookup (us_contacts previous) i = Some t" "fmlookup (us_contacts us) i = None"
  proof -
    have "(i, t) \<in> set ?cs" using that by (simp add: set_sorted_list_of_fmap)
    moreover from this ok assms(2) have "tt_slot t < length (ta_slots a)" by (auto simp: contact_ok_def pad_ready_def)
    ultimately show ?thesis
      using update_at_here [OF dist, of "(i, t)" "ta_slots a" "\<lambda>_ s. s\<lparr>sl_tracking_id := None\<rparr>"] by (simp add: slots)
  qed
  show "ta_slots a1 ! s = ta_slots a ! s"
    if "\<And>i t. fmlookup (us_contacts previous) i = Some t \<Longrightarrow> fmlookup (us_contacts us) i = None \<Longrightarrow> tt_slot t \<noteq> s"
    unfolding slots using that by (intro update_at_other) (auto simp: set_sorted_list_of_fmap)
qed

lemma landed_slots:
  fixes previous :: UinputTouchState
  assumes "us_ok us" "pad_ready a"
  defines "a2 \<equiv> pad_absorb (concat (map (\<lambda>(i, current). contact_events (fmlookup (us_contacts previous) i) current)
      (sorted_list_of_fmap (us_contacts us)))) a"
  shows "pad_ready a2"
    and "fmlookup (us_contacts us) i = Some t \<Longrightarrow>
      ta_slots a2 ! tt_slot t = slot_after (fmlookup (us_contacts previous) i) t (ta_slots a ! tt_slot t)"
    and "s \<notin> slots_of us \<Longrightarrow> ta_slots a2 ! s = ta_slots a ! s"
proof -
  let ?cs = "sorted_list_of_fmap (us_contacts us)"
  note sorted = sorted_fmap_slots [OF assms(1)]
  note landed = absorb_contacts [OF assms(2) sorted(2), of "fmlookup (us_contacts previous)"]
  show "pad_ready a2" using landed by (simp add: a2_def)
  have slots: "ta_slots a2 = update_at (\<lambda>(i, c). tt_slot c)
      (\<lambda>(i, c). slot_after (fmlookup (us_contacts previous) i) c) ?cs (ta_slots a)"
    using landed by (simp add: a2_def)
  show "ta_slots a2 ! tt_slot t = slot_after (fmlookup (us_contacts previous) i) t (ta_slots a ! tt_slot t)"
    if "fmlookup (us_contacts us) i = Some t"
  proof -
    have "(i, t) \<in> set ?cs" using that by (simp add: set_sorted_list_of_fmap)
    moreover from this sorted(2) assms(2) have "tt_slot t < length (ta_slots a)"
      by (auto simp: contact_ok_def pad_ready_def)
    ultimately show ?thesis
      using update_at_here [OF sorted(1), of "(i, t)" "ta_slots a" "\<lambda>(i, c). slot_after (fmlookup (us_contacts previous) i) c"]
      by (simp add: slots)
  qed
  show "ta_slots a2 ! s = ta_slots a ! s" if "s \<notin> slots_of us"
    unfolding slots using that sorted(3) by (intro update_at_other) simp
qed

lemma pad_shows_cong:
  "us_contacts us = us_contacts us' \<Longrightarrow> pad_ready a = pad_ready a' \<Longrightarrow> ta_slots a = ta_slots a' \<Longrightarrow>
     pad_shows a us = pad_shows a' us'"
  by (simp add: pad_shows_def slots_of_def)

lemma slot_after_view:
  assumes "slot_view s = (Some (tt_tracking_id old), tt_x old, tt_y old)" "tt_tracking_id t = tt_tracking_id old"
  shows "slot_view (slot_after (Some old) t s) = (Some (tt_tracking_id t), tt_x t, tt_y t)"
proof (cases "old = t")
  case False
  have "sl_tracking_id s = Some (tt_tracking_id old)" "sl_x s = tt_x old" "sl_y s = tt_y old"
    using assms(1) by (simp_all add: slot_view_def)
  with False assms(2) show ?thesis
    by (cases "tt_x old = tt_x t"; cases "tt_y old = tt_y t") (simp_all add: slot_view_def slot_after_def)
qed (use assms(1) in \<open>simp add: slot_after_def\<close>)

lemma slot_after_new: "slot_view (slot_after None t s) = (Some (tt_tracking_id t), tt_x t, tt_y t)"
  by (simp add: slot_view_def slot_after_def)

lemma report_shows:
  assumes prev: "us_ok previous" and plan: "plan_touchpad_report previous touches = Some (es, us)"
    and us: "planned previous touches us" and before: "pad_shows a previous"
  shows "pad_shows (pad_absorb es a) us"
proof (cases "us_contacts us = us_contacts previous")
  case True
  then have "es = []" using plan by (auto simp: plan_touchpad_report_def split: if_splits)
  with before pad_shows_cong [OF True, of a a] show ?thesis by simp
next
  case False
  define a1 where "a1 = pad_absorb (released_events previous us) a"
  define a2 where "a2 = pad_absorb (concat (map (\<lambda>(i, current). contact_events (fmlookup (us_contacts previous) i) current)
      (sorted_list_of_fmap (us_contacts us)))) a1"
  have ok: "us_ok us" and keep: "keeps_place previous us" using us unfolding planned_def by blast+
  have ready: "pad_ready a" using before unfolding pad_shows_def by blast
  note lifted = lifted_slots [where us = us, OF prev ready, folded a1_def]
  note landed = landed_slots [where previous = previous, OF ok lifted(1), folded a2_def]
  have "pad_shows (pad_absorb es a) us = pad_shows a2 us"
    using plan False by (intro pad_shows_cong)
      (auto simp: plan_touchpad_report_def a1_def a2_def absorb_tools absorb_primary split: if_splits)
  moreover have "slot_view (ta_slots a2 ! tt_slot t) = (Some (tt_tracking_id t), tt_x t, tt_y t)"
    if t: "fmlookup (us_contacts us) i = Some t" for i t
  proof -
    have gone: "tt_slot o' \<noteq> tt_slot t"
      if o': "fmlookup (us_contacts previous) j = Some o'" "fmlookup (us_contacts us) j = None" for j o'
    proof
      assume eq: "tt_slot o' = tt_slot t"
      have place: "case fmlookup (us_contacts previous) i of
          Some old \<Rightarrow> tt_slot t = tt_slot old \<and> tt_tracking_id t = tt_tracking_id old | None \<Rightarrow> tt_slot t \<notin> slots_of previous"
        using keep t by (simp add: keeps_place_def)
      have "tt_slot t \<in> slots_of previous" using o'(1) eq by (auto simp: slots_of_iff)
      with place obtain old where "fmlookup (us_contacts previous) i = Some old" "tt_slot t = tt_slot old"
        by (auto split: option.splits)
      with prev o'(1) eq have "i = j" unfolding us_ok_def by metis
      with t o'(2) show False by simp
    qed
    have same: "ta_slots a1 ! tt_slot t = ta_slots a ! tt_slot t" by (rule lifted(3)) (rule gone, assumption+)
    show ?thesis
    proof (cases "fmlookup (us_contacts previous) i")
      case (Some old)
      then have "tt_slot t = tt_slot old" "tt_tracking_id t = tt_tracking_id old"
        using keep t by (auto simp: keeps_place_def split: option.splits)
      moreover have "slot_view (ta_slots a ! tt_slot old) = (Some (tt_tracking_id old), tt_x old, tt_y old)"
        using before Some by (simp add: pad_shows_def)
      ultimately show ?thesis
        unfolding landed(2) [OF t] Some same by (intro slot_after_view) simp_all
    next
      case None
      show ?thesis unfolding landed(2) [OF t] None by (rule slot_after_new)
    qed
  qed
  moreover have "sl_tracking_id (ta_slots a2 ! s) = None" if s: "s < MAX_TOUCHPAD_CONTACTS" "s \<notin> slots_of us" for s
  proof (cases "\<exists>j o'. fmlookup (us_contacts previous) j = Some o' \<and> fmlookup (us_contacts us) j = None \<and> tt_slot o' = s")
    case True
    then show ?thesis using lifted(2) landed(3) [OF s(2)] by auto
  next
    case none: False
    have "s \<notin> slots_of previous"
    proof
      assume "s \<in> slots_of previous"
      then obtain j o' where j: "fmlookup (us_contacts previous) j = Some o'" "tt_slot o' = s" by (auto simp: slots_of_iff)
      with none obtain t where t: "fmlookup (us_contacts us) j = Some t" by auto
      with keep j have "tt_slot t = s" by (auto simp: keeps_place_def split: option.splits)
      with t s(2) show False by (auto simp: slots_of_iff)
    qed
    moreover have "ta_slots a1 ! s = ta_slots a ! s" by (rule lifted(3)) (use none in blast)
    ultimately show ?thesis using before s landed(3) [OF s(2)] by (simp add: pad_shows_def)
  qed
  ultimately show ?thesis using landed(1) by (simp add: pad_shows_def)
qed

text \<open>The keys that tell how many fingers are on the pad.\<close>

definition tool_keys :: "nat \<Rightarrow> KeyCode fset" where
  "tool_keys n = (case touch_tool_key n of None \<Rightarrow> {||} | Some key \<Rightarrow> {|key, BTN_TOUCH|})"

lemma event_edges_absolute [simp]: "event_edges (absolute_event code v # es) = event_edges es"
  by (simp add: event_edges_def List.map_filter_simps absolute_event_def)

lemma event_edges_concat: "(\<And>x. x \<in> set xs \<Longrightarrow> event_edges (f x) = []) \<Longrightarrow> event_edges (concat (map f xs)) = []"
  by (induction xs) simp_all

lemma tool_events_replay: "replay_edges (event_edges (tool_events m n)) (tool_keys m) = Some (tool_keys n)"
  by (simp add: tool_events_def tool_keys_def touch_tool_key_def) auto

lemma report_keys:
  assumes "plan_touchpad_report previous touches = Some (es, us)"
  shows "replay_edges (event_edges es) (tool_keys (fcard (fmdom (us_contacts previous)))) =
    Some (tool_keys (fcard (fmdom (us_contacts us))))"
proof (cases "us_contacts us = us_contacts previous")
  case True
  then have "es = []" using assms by (auto simp: plan_touchpad_report_def split: if_splits)
  with True show ?thesis by simp
next
  case False
  have none: "event_edges (released_events previous us) = []"
    "event_edges (concat (map (\<lambda>(i, current). contact_events (fmlookup (us_contacts previous) i) current)
       (sorted_list_of_fmap (us_contacts us)))) = []"
    "event_edges (primary_events cs) = []" for cs
    unfolding released_events_lifted
    by (auto intro!: event_edges_concat simp: lift_events_def contact_events_def primary_events_def split: option.split)
  have "event_edges es = event_edges (tool_events (fcard (fmdom (us_contacts previous))) (fcard (fmdom (us_contacts us))))"
    using assms False none by (auto simp: plan_touchpad_report_def split: if_splits)
  then show ?thesis by (simp add: tool_events_replay)
qed

section \<open>Plans\<close>

definition shows_touch :: "UinputTouchState \<Rightarrow> TouchState \<Rightarrow> bool" where
  "shows_touch us touches \<longleftrightarrow>
     fmdom (us_contacts us) = fmdom touches \<and> (\<forall>i c. fmlookup touches i = Some c \<longrightarrow> shows_contact us c)"

text \<open>Reports that follow each other, and the state after the last.\<close>

fun chain :: "UinputTouchState \<Rightarrow> (InputEvent list \<times> UinputTouchState) list \<Rightarrow> bool" where
  "chain previous [] = True"
| "chain previous ((es, us) # reports) =
     ((\<exists>touches. plan_touchpad_report previous touches = Some (es, us) \<and> planned previous touches us) \<and> chain us reports)"

lemma touch_len_iter: "length (touch_iter touches) = touch_len touches"
  by (simp add: touch_iter_def touch_len_def sorted_list_of_fmap_def fcard.rep_eq sorted_list_of_fset.rep_eq)

lemma surviving_ok:
  assumes "touch_wf touches"
  shows "\<exists>survivors. surviving_touch previous touches = Inr survivors \<and> touch_wf survivors \<and>
    (\<forall>i c. fmlookup survivors i = Some c \<longleftrightarrow> fmlookup touches i = Some c \<and> fmlookup (us_contacts previous) i \<noteq> None)"
proof -
  let ?cs = "filter (\<lambda>contact. fmlookup (us_contacts previous) (tc_id contact) \<noteq> None) (touch_iter touches)"
  have dist: "distinct (map tc_id ?cs)"
    by (rule distinct_map_filter) (simp add: iter_ids(1) [OF assms])
  have "\<exists>survivors. touch_new ?cs = Inr survivors"
    using dist touch_new_from_error [of fmempty ?cs] by (cases "touch_new ?cs") (auto simp: touch_new_def)
  then obtain survivors where s: "touch_new ?cs = Inr survivors" by blast
  have "fmlookup survivors i = Some c \<longleftrightarrow> fmlookup touches i = Some c \<and> fmlookup (us_contacts previous) i \<noteq> None" for i c
    using touch_new_Inr(2) [OF s, of i c] iter_ids(2) [OF assms, of c] assms by (auto simp: touch_wf_def)
  moreover from this have "touch_wf survivors" using assms by (simp add: touch_wf_def)
  ultimately show ?thesis using s by (auto simp: surviving_touch_def)
qed

lemma fresh_contacts_card:
  assumes "touch_wf touches"
  shows "fresh_contacts previous (touch_iter touches) = fcard (fmdom touches |-| fmdom (us_contacts previous))"
proof -
  let ?new = "filter (\<lambda>c. fmlookup (us_contacts previous) (tc_id c) = None) (touch_iter touches)"
  have "distinct (map tc_id ?new)" by (rule distinct_map_filter) (simp add: iter_ids(1) [OF assms])
  then have "length ?new = card (tc_id ` set ?new)" by (metis distinct_card length_map list.set_map)
  also have "tc_id ` set ?new = set (map tc_id (touch_iter touches)) - fset (fmdom (us_contacts previous))"
    by (auto simp: fmdom_notI fmlookup_dom_iff)
  finally show ?thesis by (simp only: fresh_contacts_def iter_ids(1) [OF assms] fcard.rep_eq minus_fset.rep_eq
        sorted_list_of_fset_simps)
qed

lemma planned_shows: "planned previous touches us \<Longrightarrow> us_ok us \<and> shows_touch us touches"
  by (auto simp: planned_def shows_touch_def)

text \<open>A plan never panics. It fails only for more than five contacts, and its last state shows the contacts.\<close>

lemma plan_events_ok:
  assumes ok: "us_ok previous" and wf: "touch_wf touches" and few: "fcard (fmdom (us_contacts previous)) \<le> MAX_TOUCHPAD_CONTACTS"
  shows "if touch_len touches > MAX_TOUCHPAD_CONTACTS
    then plan_touchpad_events previous touches = Some (Inl (TooManyTouchContacts (touch_len touches) MAX_TOUCHPAD_CONTACTS))
    else \<exists>reports. plan_touchpad_events previous touches = Some (Inr reports) \<and> reports \<noteq> [] \<and>
      chain previous reports \<and> shows_touch (snd (last reports)) touches"
proof (cases "touch_len touches > MAX_TOUCHPAD_CONTACTS")
  case len: False
  let ?new = "fresh_contacts previous (touch_iter touches)"
  show ?thesis
  proof (cases "?new \<le> MAX_TOUCHPAD_CONTACTS - fcard (fmdom (us_contacts previous))")
    case True
    with few have "fcard (fmdom (us_contacts previous)) + ?new \<le> MAX_TOUCHPAD_CONTACTS" by linarith
    then obtain es us where "plan_touchpad_report previous touches = Some (es, us)" "planned previous touches us"
      using plan_report_ok [OF ok wf] by blast
    moreover from this(1) have "plan_touchpad_events previous touches = Some (Inr [(es, us)])"
      using True len few by (simp add: plan_touchpad_events_def fresh_contacts_def)
    ultimately show ?thesis using len planned_shows by auto
  next
    case False
    obtain survivors where s: "surviving_touch previous touches = Inr survivors" "touch_wf survivors"
        "\<And>i c. fmlookup survivors i = Some c \<longleftrightarrow> fmlookup touches i = Some c \<and> fmlookup (us_contacts previous) i \<noteq> None"
      using surviving_ok [OF wf, of previous] by blast
    have dom: "fmdom survivors = fmdom touches |\<inter>| fmdom (us_contacts previous)"
      by (auto simp: fset_eq_iff fmlookup_dom_iff s(3))
    then have "fmdom survivors |-| fmdom (us_contacts previous) = {||}" by auto
    then have "fresh_contacts previous (touch_iter survivors) = 0"
      by (simp only: fresh_contacts_card [OF s(2)] fcard_fempty)
    then obtain es us1 where one: "plan_touchpad_report previous survivors = Some (es, us1)" "planned previous survivors us1"
      using plan_report_ok [OF ok s(2)] few by auto
    have us1: "us_ok us1" "fmdom (us_contacts us1) = fmdom touches |\<inter>| fmdom (us_contacts previous)"
      using one(2) dom by (simp_all add: planned_def)
    have "fmdom touches |-| (fmdom touches |\<inter>| fmdom (us_contacts previous)) = fmdom touches |-| fmdom (us_contacts previous)"
      by auto
    moreover have "fcard (fmdom touches |\<inter>| fmdom (us_contacts previous)) + fcard (fmdom touches |-| fmdom (us_contacts previous)) =
        fcard (fmdom touches)"
      using card_Diff_subset_Int [of "fset (fmdom touches)" "fset (fmdom (us_contacts previous))"]
        card_mono [of "fset (fmdom touches)" "fset (fmdom touches) \<inter> fset (fmdom (us_contacts previous))"]
      by (simp add: fcard.rep_eq)
    ultimately have "fcard (fmdom (us_contacts us1)) + fresh_contacts us1 (touch_iter touches) \<le> MAX_TOUCHPAD_CONTACTS"
      using len by (simp add: fresh_contacts_card [OF wf] us1(2) touch_len_def)
    then obtain es2 us2 where two: "plan_touchpad_report us1 touches = Some (es2, us2)" "planned us1 touches us2"
      using plan_report_ok [OF us1(1) wf] by auto
    have "plan_touchpad_events previous touches = Some (Inr [(es, us1), (es2, us2)])"
      using False len few one(1) two(1) by (simp add: plan_touchpad_events_def fresh_contacts_def s(1))
    then show ?thesis using len one two planned_shows by auto
  qed
qed (simp add: plan_touchpad_events_def)

section \<open>The device shows the contacts\<close>

text \<open>The device before the first report, and the invariant: its slots and keys, from the log, are the planned state.\<close>

definition empty_pad :: TouchAccumulator where
  "empty_pad =
     \<lparr>ta_x = pad_x_axis, ta_y = pad_y_axis, ta_units_per_100mm = (3000, 3000),
      ta_slots = replicate MAX_TOUCHPAD_CONTACTS slot_default, ta_current_slot = Some 0, ta_tools = 0, ta_dirty = False,
      ta_event_count = 0\<rparr>"

definition pad_log :: "VirtualTouchpad \<Rightarrow> InputEvent list" where
  "pad_log vt = concat (vd_reports (vt_device vt))"

definition touchpad_inv :: "VirtualTouchpad \<Rightarrow> bool" where
  "touchpad_inv vt \<longleftrightarrow>
     us_ok (vt_state vt) \<and> fcard (fmdom (us_contacts (vt_state vt))) \<le> MAX_TOUCHPAD_CONTACTS \<and>
     pad_shows (pad_absorb (pad_log vt) empty_pad) (vt_state vt) \<and>
     replay_edges (event_edges (pad_log vt)) {||} = Some (tool_keys (fcard (fmdom (us_contacts (vt_state vt)))))"

lemma touchpad_create_inv: "touchpad_inv touchpad_create"
  by (simp add: touchpad_inv_def touchpad_create_def us_ok_def us_default_def pad_log_def device_new_def pad_shows_def
      pad_ready_def empty_pad_def slot_default_def tool_keys_def touch_tool_key_def)

lemma slots_few: "us_ok us \<Longrightarrow> fcard (fmdom (us_contacts us)) \<le> MAX_TOUCHPAD_CONTACTS"
proof -
  assume ok: "us_ok us"
  then have "slots_of us \<subseteq> {..<MAX_TOUCHPAD_CONTACTS}" by (auto simp: slots_of_iff us_ok_def contact_ok_def)
  then have "card (slots_of us) \<le> MAX_TOUCHPAD_CONTACTS" using card_mono [of "{..<MAX_TOUCHPAD_CONTACTS}"] by simp
  then show ?thesis by (simp add: card_slots [OF ok])
qed

lemma report_inv:
  assumes inv: "touchpad_inv vt" and plan: "plan_touchpad_report (vt_state vt) touches = Some (es, us)"
    "planned (vt_state vt) touches us"
    and log: "pad_log vt' = pad_log vt @ es" "vt_state vt' = us"
  shows "touchpad_inv vt'"
proof -
  note inv' = inv [unfolded touchpad_inv_def]
  have ok: "us_ok us" using plan(2) by (simp add: planned_def)
  moreover have "pad_shows (pad_absorb (pad_log vt') empty_pad) us"
    using report_shows [OF _ plan] inv' by (simp add: log(1))
  moreover have "replay_edges (event_edges (pad_log vt')) {||} = Some (tool_keys (fcard (fmdom (us_contacts us))))"
    using report_keys [OF plan(1)] inv' by (simp add: log(1) replay_append)
  ultimately show ?thesis by (simp add: touchpad_inv_def log(2) slots_few)
qed

definition pad_write_failed :: "device_answer \<Rightarrow> (nat \<Rightarrow> duration option) \<Rightarrow> InjectionError \<Rightarrow> bool" where
  "pad_write_failed dev now e \<longleftrightarrow> e = EmitFailed RoleTouchpad \<and> ((\<exists>n. \<not> dev n) \<or> (\<exists>n. now n = None))"

lemma touchpad_emit_log:
  assumes "touchpad_emit dev now elapsed events vt = (r, vt')"
  shows "vt_state vt' = vt_state vt"
    and "r = Inr () \<Longrightarrow> pad_log vt' = pad_log vt @ events"
    and "r = Inl e \<Longrightarrow> pad_log vt' = pad_log vt \<and> pad_write_failed dev now e"
  using assms
  by (auto simp: touchpad_emit_def device_emit_def pad_log_def pad_write_failed_def Let_def split: option.splits if_splits)

lemma replace_reports_inv:
  assumes "touchpad_inv vt" "chain (vt_state vt) reports" "replace_reports dev now elapsed reports vt = (r, vt')"
  shows "touchpad_inv vt' \<and> (\<forall>e. r = Inl e \<longrightarrow> pad_write_failed dev now e) \<and>
    (r = Inr () \<longrightarrow> reports \<noteq> [] \<longrightarrow> vt_state vt' = snd (last reports))"
  using assms
proof (induction reports arbitrary: vt)
  case (Cons report reports)
  obtain es us where report: "report = (es, us)" by force
  obtain touches where plan: "plan_touchpad_report (vt_state vt) touches = Some (es, us)" "planned (vt_state vt) touches us"
    using Cons.prems(2) by (auto simp: report)
  obtain r1 vt1 where emit: "(if es = [] then (Inr (), vt) else touchpad_emit dev now elapsed es vt) = (r1, vt1)" by force
  show ?case
  proof (cases r1)
    case (Inl e)
    then have failed: "touchpad_emit dev now elapsed es vt = (Inl e, vt1)" "r = Inl e" "vt' = vt1"
      using emit Cons.prems(3) by (auto simp: report try_then_def split: if_splits)
    note log = touchpad_emit_log [OF failed(1)]
    then show ?thesis using failed Cons.prems(1) by (auto simp: touchpad_inv_def)
  next
    case (Inr u)
    have "pad_log vt1 = pad_log vt @ es"
      using emit Inr touchpad_emit_log(2) [of dev now elapsed es vt r1 vt1] by (auto split: if_splits)
    then have "touchpad_inv (vt1\<lparr>vt_state := us\<rparr>)"
      by (intro report_inv [OF Cons.prems(1) plan]) (simp_all add: pad_log_def)
    moreover have "replace_reports dev now elapsed reports (vt1\<lparr>vt_state := us\<rparr>) = (r, vt')"
      using Cons.prems(3) emit Inr by (simp add: report try_then_def)
    moreover have "chain (vt_state (vt1\<lparr>vt_state := us\<rparr>)) reports" using Cons.prems(2) by (simp add: report)
    ultimately have ih: "touchpad_inv vt' \<and> (\<forall>e. r = Inl e \<longrightarrow> pad_write_failed dev now e) \<and>
        (r = Inr () \<longrightarrow> reports \<noteq> [] \<longrightarrow> vt_state vt' = snd (last reports))"
      and last: "reports = [] \<Longrightarrow> vt_state vt' = us"
      using Cons.IH [of "vt1\<lparr>vt_state := us\<rparr>"] by auto
    have "snd (last (report # reports)) = (if reports = [] then us else snd (last reports))" by (simp add: report)
    with ih last show ?thesis by presburger
  qed
qed auto

text \<open>A run: complete contact states in their order, with the age of the capture that each one may have.\<close>

type_synonym replacement = "TouchState \<times> (nat \<Rightarrow> duration) option"

fun touchpad_run ::
  "device_answer \<Rightarrow> (nat \<Rightarrow> duration option) \<Rightarrow> replacement list \<Rightarrow> VirtualTouchpad \<Rightarrow>
     ((InjectionError + unit) list \<times> VirtualTouchpad) option"
where
  "touchpad_run dev now [] vt = Some ([], vt)"
| "touchpad_run dev now ((touches, captured_at) # rest) vt =
     Option.bind (replace_at dev now touches captured_at vt) (\<lambda>(r, vt1).
       map_option (\<lambda>(rs, vt2). (r # rs, vt2)) (touchpad_run dev now rest vt1))"

definition replaced :: "device_answer \<Rightarrow> (nat \<Rightarrow> duration option) \<Rightarrow> replacement \<Rightarrow> InjectionError + unit \<Rightarrow> bool" where
  "replaced dev now replacement r \<longleftrightarrow>
     (case r of
        Inr _ \<Rightarrow> touch_len (fst replacement) \<le> MAX_TOUCHPAD_CONTACTS
      | Inl e \<Rightarrow> pad_write_failed dev now e \<or>
          touch_len (fst replacement) > MAX_TOUCHPAD_CONTACTS \<and>
          e = TooManyTouchContacts (touch_len (fst replacement)) MAX_TOUCHPAD_CONTACTS)"

lemma replace_at_ok:
  assumes inv: "touchpad_inv vt" and wf: "touch_wf touches"
  shows "\<exists>r vt'. replace_at dev now touches captured_at vt = Some (r, vt') \<and> touchpad_inv vt' \<and>
    replaced dev now (touches, captured_at) r \<and> (r = Inr () \<longrightarrow> shows_touch (vt_state vt') touches)"
proof (cases "touch_len touches > MAX_TOUCHPAD_CONTACTS")
  case True
  then have "plan_touchpad_events (vt_state vt) touches = Some (Inl (TooManyTouchContacts (touch_len touches) MAX_TOUCHPAD_CONTACTS))"
    by (simp add: plan_touchpad_events_def)
  with True inv show ?thesis by (simp add: replace_at_def replaced_def)
next
  case False
  have "us_ok (vt_state vt)" "fcard (fmdom (us_contacts (vt_state vt))) \<le> MAX_TOUCHPAD_CONTACTS"
    using inv by (simp_all add: touchpad_inv_def)
  from plan_events_ok [OF this(1) wf this(2)] False
  obtain reports where plan: "plan_touchpad_events (vt_state vt) touches = Some (Inr reports)" "reports \<noteq> []"
      "chain (vt_state vt) reports" "shows_touch (snd (last reports)) touches"
    by auto
  obtain r vt' where run: "replace_reports dev now (if touch_is_empty touches then None else captured_at) reports vt = (r, vt')"
    by force
  note ok = replace_reports_inv [OF inv plan(3) run]
  have "replace_at dev now touches captured_at vt = Some (r, vt')" using plan(1) run by (simp add: replace_at_def)
  moreover have "replaced dev now (touches, captured_at) r"
    using ok False by (cases r) (simp_all add: replaced_def)
  moreover have "r = Inr () \<longrightarrow> shows_touch (vt_state vt') touches" using ok plan(2,4) by auto
  ultimately show ?thesis using ok by blast
qed

lemma touchpad_run_ok:
  assumes "touchpad_inv vt" "\<forall>(touches, _) \<in> set ops. touch_wf touches"
  shows "\<exists>rs vt'. touchpad_run dev now ops vt = Some (rs, vt') \<and> touchpad_inv vt' \<and> list_all2 (replaced dev now) ops rs \<and>
    (ops \<noteq> [] \<and> last rs = Inr () \<longrightarrow> shows_touch (vt_state vt') (fst (last ops)))"
  using assms
proof (induction ops arbitrary: vt)
  case (Cons op ops)
  obtain touches captured_at where op: "op = (touches, captured_at)" by force
  then obtain r vt1 where one: "replace_at dev now touches captured_at vt = Some (r, vt1)" "touchpad_inv vt1"
      "replaced dev now op r" "r = Inr () \<longrightarrow> shows_touch (vt_state vt1) touches"
    using replace_at_ok [OF Cons.prems(1), of touches dev now captured_at] Cons.prems(2) by auto
  obtain rs vt2 where rest: "touchpad_run dev now ops vt1 = Some (rs, vt2)" "touchpad_inv vt2"
      "list_all2 (replaced dev now) ops rs" "ops \<noteq> [] \<and> last rs = Inr () \<longrightarrow> shows_touch (vt_state vt2) (fst (last ops))"
    using Cons.IH [OF one(2)] Cons.prems(2) by auto
  have "touchpad_run dev now (op # ops) vt = Some (r # rs, vt2)" using one(1) rest(1) by (simp add: op)
  moreover have "ops = [] \<longleftrightarrow> rs = []" using rest(3) by auto
  moreover have "ops = [] \<Longrightarrow> vt2 = vt1" using rest(1) by auto
  ultimately show ?case using one rest by (auto simp: op)
qed simp

text \<open>
  C40: The virtual touchpad shows the contacts. For any sequence of contact states, whatever writes or clock readings
  fail, the planner never panics; a state is refused only for more than five contacts, before anything is written.
  Replayed on a multitouch device, the accepted reports leave exactly the planned contacts in the slots, each with
  its tracking id and place, and the tool keys of that many fingers; and after a replacement that succeeds
  those are the contacts of the state, every one placed by its millimetres.
\<close>

theorem virtual_touchpad_shows_the_contacts:
  assumes "\<forall>(touches, captured_at) \<in> set ops. touch_wf touches"
  shows "\<exists>rs vt. touchpad_run dev now ops touchpad_create = Some (rs, vt) \<and> list_all2 (replaced dev now) ops rs \<and>
    pad_shows (pad_absorb (pad_log vt) empty_pad) (vt_state vt) \<and>
    replay_edges (event_edges (pad_log vt)) {||} = Some (tool_keys (fcard (fmdom (us_contacts (vt_state vt))))) \<and>
    (ops \<noteq> [] \<and> last rs = Inr () \<longrightarrow> shows_touch (vt_state vt) (fst (last ops)))"
  using touchpad_run_ok [OF touchpad_create_inv, of ops dev now] assms by (auto simp: touchpad_inv_def)

section \<open>The time of a report\<close>

text \<open>
  A report is never stamped in the future, never ten seconds old, and with a clock that does not go back never
  before the report before it.
\<close>

theorem touch_report_time_accepted:
  assumes "previous \<le> now"
  shows "touch_report_time now age previous \<le> now \<and> previous \<le> touch_report_time now age previous \<and>
    now < touch_report_time now age previous + from_secs 10"
  using assms by (auto simp: touch_report_time_def from_secs_def Let_def split: option.split)

section \<open>Releasing everything\<close>

lemma pointer_release_all_held: "pointer_release_all dev vp = (Inr u, vp') \<Longrightarrow> vp_held vp' = {||}"
  by (auto simp: pointer_release_all_def try_then_def pointer_emit_def device_emit_def split: if_splits sum.splits prod.splits)

text \<open>
  Releasing all the devices tries each of them whatever the others answer, and succeeds only when no key, button or
  contact is left.
\<close>

theorem release_all_leaves_nothing:
  assumes "keyboard_inv (vi_keyboard vi)" "\<forall>vt. vi_touchpad vi = Some vt \<longrightarrow> touchpad_inv vt"
  shows "\<exists>r vi'. input_release_all kdev pdev tdev now vi = Some (r, vi') \<and>
    vi_keyboard vi' = snd (keyboard_release_all kdev (vi_keyboard vi)) \<and>
    vi_pointer vi' = snd (pointer_release_all pdev (vi_pointer vi)) \<and>
    (r = Inr () \<longrightarrow> vk_held (vi_keyboard vi') = {||} \<and> vp_held (vi_pointer vi') = {||} \<and> \<not> touching vi')"
proof -
  obtain rk k where k: "keyboard_release_all kdev (vi_keyboard vi) = (rk, k)" by force
  obtain rp p where p: "pointer_release_all pdev (vi_pointer vi) = (rp, p)" by force
  have keys: "rk = Inr () \<longrightarrow> vk_held k = {||}" using release_all_inv [OF k assms(1)] by blast
  have buttons: "rp = Inr () \<longrightarrow> vp_held p = {||}" using p pointer_release_all_held by auto
  have fail: "failure_of x = [] \<longleftrightarrow> x = Inr ()" for x :: "InjectionError + unit"
    by (auto simp: failure_of_def split: sum.split)
  show ?thesis
  proof (cases "vi_touchpad vi")
    case None
    with k p keys buttons show ?thesis by (auto simp: input_release_all_def fail touching_def)
  next
    case (Some vt)
    obtain rt vt' where t: "replace_at tdev now touch_default None vt = Some (rt, vt')"
        "rt = Inr () \<longrightarrow> shows_touch (vt_state vt') touch_default"
      using replace_at_ok [of vt touch_default tdev now None] assms(2) Some by (auto simp: touch_wf_def)
    have "shows_touch us touch_default \<Longrightarrow> us_contacts us = fmempty" for us
      unfolding shows_touch_def by (intro fmap_ext) (metis fempty_iff fmdom_empty fmdom_notD fmempty_lookup)
    with Some k p keys buttons t show ?thesis
      by (auto simp: input_release_all_def touchpad_release_all_def fail touching_def)
  qed
qed

section \<open>Sample runs, at which the theorems above apply\<close>

definition sample_touch :: "u32 \<Rightarrow> i32 \<Rightarrow> i32 \<Rightarrow> TouchContact" where
  "sample_touch i x y =
     \<lparr>tc_id = i, tc_x = x, tc_y = y, tc_pressure = None, tc_major = None, tc_minor = None,
      tc_orientation_millidegrees = None, tc_tool = Finger, tc_source_dimensions = None\<rparr>"

definition sample_replacements :: "replacement list" where
  "sample_replacements = [(fmupd 7 (sample_touch 7 5000 3650) fmempty, None), (fmempty, None)]"

lemma virtual_touchpad_shows_the_contacts_witness:
  "\<exists>rs vt. touchpad_run (\<lambda>n. n \<noteq> 1) (\<lambda>n. Some n) sample_replacements touchpad_create = Some (rs, vt) \<and>
     pad_shows (pad_absorb (pad_log vt) empty_pad) (vt_state vt)"
proof -
  have "\<forall>(touches, captured_at) \<in> set sample_replacements. touch_wf touches"
    by (auto simp: sample_replacements_def touch_wf_def sample_touch_def split: if_splits)
  from virtual_touchpad_shows_the_contacts [OF this, of "\<lambda>n. n \<noteq> 1" "\<lambda>n. Some n"] show ?thesis by blast
qed

lemma touch_report_time_accepted_witness: "touch_report_time 5000000000 (Some 7000000000) 3000000000 = 3000000000"
  using touch_report_time_accepted [of 3000000000 5000000000 "Some 7000000000"]
  by (simp add: touch_report_time_def from_secs_def)

lemma release_all_leaves_nothing_witness:
  "\<exists>r vi'. input_release_all (\<lambda>_. False) (\<lambda>_. True) (\<lambda>_. True) (\<lambda>n. Some n)
     \<lparr>vi_keyboard = keyboard_create, vi_pointer = pointer_create, vi_touchpad = Some touchpad_create\<rparr> = Some (r, vi')"
  using release_all_leaves_nothing
    [of "\<lparr>vi_keyboard = keyboard_create, vi_pointer = pointer_create, vi_touchpad = Some touchpad_create\<rparr>"
      "\<lambda>_. False" "\<lambda>_. True" "\<lambda>_. True" "\<lambda>n. Some n"]
  by (auto simp: keyboard_create_ok touchpad_create_inv)

end
