(* ===== verification/Linux_Inject.thy ===== *)
theory Linux_Inject
  imports Uinput_Touch Receiver
begin

text \<open>
  The effects of a receiver on the virtual devices of a Linux target (\<open>apply_receiver_effect\<close> and \<open>inject\<close> of
  \<open>src/src/runtime/linux.rs\<close>).

  Whether the kernel takes the reports of a device is part of \<open>DeviceAnswers\<close>. A panic of the touch planner is
  \<open>None\<close>.
\<close>

section \<open>Applying an effect\<close>

datatype RuntimeDiagnostic =
    CaptureSelectionIncomplete
  | CaptureOpenFailed
  | CaptureReadFailed
  | CaptureMappingLost
  | DiagGrabFailed
  | UngrabRequiredDescriptorClose
  | CapturedFrameQueueFull
  | InjectionFailed
  | InjectionRejected
  | ReadinessProbeFailed
  | ServiceNotificationFailed

record DeviceAnswers =
  da_keyboard :: device_answer
  da_pointer :: device_answer
  da_touchpad :: device_answer
  da_now :: "nat \<Rightarrow> duration option"

definition injection_diagnostic :: "InjectionError \<Rightarrow> RuntimeDiagnostic" where
  "injection_diagnostic e = (case e of EmitFailed _ \<Rightarrow> InjectionFailed | CreateFailed _ \<Rightarrow> InjectionFailed | _ \<Rightarrow> InjectionRejected)"

definition on_keyboard ::
  "(VirtualKeyboard \<Rightarrow> (InjectionError + unit) \<times> VirtualKeyboard) \<Rightarrow> VirtualInput \<Rightarrow> (InjectionError + unit) \<times> VirtualInput"
where
  "on_keyboard f vi = (let (r, k) = f (vi_keyboard vi) in (r, vi\<lparr>vi_keyboard := k\<rparr>))"

definition on_pointer ::
  "(VirtualPointer \<Rightarrow> (InjectionError + unit) \<times> VirtualPointer) \<Rightarrow> VirtualInput \<Rightarrow> (InjectionError + unit) \<times> VirtualInput"
where
  "on_pointer f vi = (let (r, p) = f (vi_pointer vi) in (r, vi\<lparr>vi_pointer := p\<rparr>))"

text \<open>Whether the effect presses something with the pointer, and whether a button or contact is down after it.\<close>

definition pointer_activity :: "VirtualInput \<Rightarrow> ReceiverEffect \<Rightarrow> (bool \<times> bool) option" where
  "pointer_activity vi e =
     (case e of
        EffButton button pressed _ \<Rightarrow>
          Some (pressed, pressed \<or> \<not> fBall (vp_held (vi_pointer vi)) (\<lambda>held. held = button) \<or> touching vi)
      | EffMotion delta _ \<Rightarrow>
          if scroll_x delta \<noteq> 0 \<or> scroll_y delta \<noteq> 0
          then Some (True, vp_held (vi_pointer vi) \<noteq> {||} \<or> touching vi) else None
      | EffTouchReplaced state _ \<Rightarrow>
          Some (\<not> touch_is_empty state, \<not> touch_is_empty state \<or> vp_held (vi_pointer vi) \<noteq> {||})
      | _ \<Rightarrow> None)"

definition before_effect :: "DeviceAnswers \<Rightarrow> ReceiverEffect \<Rightarrow> VirtualInput \<Rightarrow> (InjectionError + unit) \<times> VirtualInput" where
  "before_effect os e vi =
     (case pointer_activity vi e of
        Some (True, busy) \<Rightarrow> on_keyboard (keyboard_pointer (da_keyboard os) busy) vi
      | Some (False, busy) \<Rightarrow> (Inr (), vi\<lparr>vi_keyboard := keyboard_pointer_released busy (vi_keyboard vi)\<rparr>)
      | None \<Rightarrow> (Inr (), vi))"

definition main_effect ::
  "DeviceAnswers \<Rightarrow> (nat \<Rightarrow> duration) option \<Rightarrow> KeyboardMode \<Rightarrow> ReceiverEffect \<Rightarrow> VirtualInput \<Rightarrow>
     ((RuntimeDiagnostic + unit) \<times> VirtualInput) option"
where
  "main_effect os captured_at mode e vi =
     (let diagnosed = (\<lambda>(r, v). Some (map_err injection_diagnostic r, v)) in
      case e of
        EffMotion delta _ \<Rightarrow> diagnosed (on_pointer (pointer_motion_emit (da_pointer os) delta) vi)
      | EffKey key pressed _ \<Rightarrow> diagnosed (on_keyboard (keyboard_set_key (da_keyboard os) key pressed) vi)
      | EffButton button pressed _ \<Rightarrow> diagnosed (on_pointer (set_button (da_pointer os) button pressed) vi)
      | EffTouchReplaced state synthetic \<Rightarrow>
          map_option (\<lambda>(r, v). (map_err injection_diagnostic r, v))
            (replace_touch_at (da_touchpad os) (da_now os) state (if synthetic then None else captured_at) vi)
      | ActivationClosed _ _ \<Rightarrow>
          map_option (\<lambda>(r, v). (map_err (\<lambda>_. InjectionFailed) r, v))
            (input_release_all (da_keyboard os) (da_pointer os) (da_touchpad os) (da_now os) vi)
      | ActivationOpened _ \<Rightarrow> diagnosed (on_keyboard (keyboard_begin (da_keyboard os) mode) vi)
      | EffSnapshotAck _ _ \<Rightarrow> Some (Inr (), vi)
      | Rejected _ _ \<Rightarrow> Some (Inr (), vi))"

definition apply_receiver_effect ::
  "DeviceAnswers \<Rightarrow> (nat \<Rightarrow> duration) option \<Rightarrow> KeyboardMode \<Rightarrow> ReceiverEffect \<Rightarrow> VirtualInput \<Rightarrow>
     ((RuntimeDiagnostic + unit) \<times> VirtualInput) option"
where
  "apply_receiver_effect os captured_at mode e vi =
     (case before_effect os e vi of
        (Inl err, vi1) \<Rightarrow> Some (Inl (injection_diagnostic err), vi1)
      | (Inr _, vi1) \<Rightarrow> main_effect os captured_at mode e vi1)"

text \<open>The loop of \<open>inject\<close> up to the first effect that fails.\<close>

fun apply_effects ::
  "DeviceAnswers \<Rightarrow> (nat \<Rightarrow> duration) option \<Rightarrow> KeyboardMode \<Rightarrow> ReceiverEffect list \<Rightarrow> VirtualInput \<Rightarrow>
     ((RuntimeDiagnostic + unit) \<times> VirtualInput) option"
where
  "apply_effects os captured_at mode [] vi = Some (Inr (), vi)"
| "apply_effects os captured_at mode (e # es) vi =
     (case apply_receiver_effect os captured_at mode e vi of
        None \<Rightarrow> None
      | Some (Inl d, vi1) \<Rightarrow> Some (Inl d, vi1)
      | Some (Inr _, vi1) \<Rightarrow> apply_effects os captured_at mode es vi1)"

section \<open>Keyboards that take every report\<close>

lemma remap_physical:
  "kr_physical (fst (remap_step (RemapKey u pressed) k)) =
     (if pressed then finsert u (kr_physical k) else kr_physical k |-| {|u|})"
  "kr_physical (fst (remap_step (RemapPointer busy) k)) = kr_physical k"
  "kr_physical (pointer_released busy k) = kr_physical k"
  by (auto simp: remap_key_def release_def press_modifier_def pointer_def pointer_released_def Let_def case_prod_beta
      split: option.splits)

definition keyboard_shows :: "VirtualKeyboard \<Rightarrow> HidUsage fset \<Rightarrow> bool" where
  "keyboard_shows vk keys \<longleftrightarrow>
     keyboard_inv vk \<and> synced vk \<and> kr_physical (vk_remap vk) = keys \<and>
     (kr_mode (vk_remap vk) \<noteq> Mac \<longrightarrow> plain (vk_remap vk))"

lemma accepted_remap:
  assumes "keyboard_shows vk keys" "remap_step op (vk_remap vk) = (k, edges)" "\<forall>u p. op = RemapKey u p \<longrightarrow> typable u"
    and "\<forall>n. dev n"
  shows "\<exists>vk'. inject_all dev edges (vk\<lparr>vk_remap := k\<rparr>) = (Inr (), vk') \<and> keyboard_shows vk' (kr_physical k)"
proof -
  note vk = assms(1) [unfolded keyboard_shows_def]
  obtain r vk' where run: "inject_all dev edges (vk\<lparr>vk_remap := k\<rparr>) = (r, vk')" by force
  have inv: "keyboard_inv vk" using vk by blast
  note ok = inject_step_ok [OF inv assms(2,3) run]
  have r: "r = Inr ()" using ok(2) assms(4) by (cases r) (auto simp: write_failed_def)
  have "keyboard_ok (vk\<lparr>vk_remap := k\<rparr>)" using inv by (simp add: keyboard_inv_def keyboard_ok_def)
  then have remap: "vk_remap vk' = k" using inject_all_ok [OF run] by simp
  have "kr_mode k = kr_mode (vk_remap vk)" "plain (vk_remap vk) \<Longrightarrow> plain k"
    using remap_step_mode [of op "vk_remap vk"] plain_step [of "vk_remap vk" op] assms(2) by simp_all
  then have "keyboard_shows vk' (kr_physical k)"
    using ok(1) ok(3) vk r remap by (simp add: keyboard_shows_def)
  with run r show ?thesis by blast
qed

lemma accepted_key:
  assumes "keyboard_shows vk keys" "typable key" "\<forall>n. dev n"
  shows "\<exists>vk'. keyboard_set_key dev key pressed vk = (Inr (), vk') \<and>
    keyboard_shows vk' (if pressed then finsert key keys else keys |-| {|key|})"
proof -
  obtain k edges where step: "remap_step (RemapKey key pressed) (vk_remap vk) = (k, edges)" by force
  have "kr_physical k = (if pressed then finsert key keys else keys |-| {|key|})"
    using remap_physical(1) [of key pressed "vk_remap vk"] step assms(1) by (simp add: keyboard_shows_def)
  with accepted_remap [OF assms(1) step _ assms(3)] assms(2) step show ?thesis
    by (auto simp: keyboard_set_key_def try_then_def map_err_def typable_Inr)
qed

lemma accepted_pointer:
  assumes "keyboard_shows vk keys" "\<forall>n. dev n"
  shows "\<exists>vk'. keyboard_pointer dev busy vk = (Inr (), vk') \<and> keyboard_shows vk' keys"
proof -
  obtain k edges where step: "remap_step (RemapPointer busy) (vk_remap vk) = (k, edges)" by force
  have "kr_physical k = keys"
    using remap_physical(2) [of busy "vk_remap vk"] step assms(1) by (simp add: keyboard_shows_def)
  with accepted_remap [OF assms(1) step _ assms(2)] step show ?thesis by (auto simp: keyboard_pointer_def)
qed

lemma pointer_released_shows: "keyboard_shows vk keys \<Longrightarrow> keyboard_shows (keyboard_pointer_released busy vk) keys"
  by (auto simp: keyboard_shows_def keyboard_inv_def keyboard_ok_def synced_def keyboard_pointer_released_def
      pointer_released_def remap_wf_def injected_def plain_def)

lemma plain_reset: "mode \<noteq> Mac \<Longrightarrow> plain (reset mode k)"
  by (auto simp: plain_def reset_def remap_new_def Let_def)

lemma accepted_release_all:
  assumes "keyboard_shows vk keys" "\<forall>n. dev n"
  shows "\<exists>vk'. keyboard_release_all dev vk = (Inr (), vk') \<and> keyboard_shows vk' {||} \<and> vk_held vk' = {||}"
proof -
  obtain r vk' where run: "keyboard_release_all dev vk = (r, vk')" by force
  have inv: "keyboard_inv vk" "keyboard_ok vk" using assms(1) by (simp_all add: keyboard_shows_def keyboard_inv_def)
  note ok = release_all_inv [OF run inv(1)] keyboard_release_all_ok [OF run inv(2)]
  have "r = Inr ()" using ok assms(2) by (cases r) (auto simp: write_failed_def)
  moreover have "kr_mode (reset mode k) = mode" for mode k by (simp add: reset_def remap_new_def)
  ultimately show ?thesis using ok run by (simp add: keyboard_shows_def reset_wf plain_reset)
qed

lemma accepted_begin:
  assumes "keyboard_shows vk keys" "\<forall>n. dev n"
  shows "\<exists>vk'. keyboard_begin dev mode vk = (Inr (), vk') \<and> keyboard_shows vk' {||}"
proof -
  obtain vk1 where rel: "keyboard_release_all dev vk = (Inr (), vk1)" "keyboard_shows vk1 {||}" "vk_held vk1 = {||}"
    using accepted_release_all [OF assms] by blast
  have "kr_mode (reset mode k) = mode" for mode k by (simp add: reset_def remap_new_def)
  then have "keyboard_shows (vk1\<lparr>vk_remap := reset mode (vk_remap vk1)\<rparr>) {||}"
    using rel(2,3) by (simp add: keyboard_shows_def keyboard_inv_def keyboard_ok_def synced_def reset_wf plain_reset)
  with rel(1) show ?thesis by (simp add: keyboard_begin_def try_then_def)
qed

section \<open>The devices follow the receiver\<close>

text \<open>
  What an effect makes of what is held: the abstract backend of the receiver, but the end of an activation releases
  everything and the beginning releases the keys.
\<close>

fun linux_apply :: "ReceiverEffect \<Rightarrow> HeldState \<Rightarrow> HeldState option" where
  "linux_apply (ActivationClosed _ _) h = Some held_default"
| "linux_apply (ActivationOpened _) h = Some (h\<lparr>pressed_keys := {||}\<rparr>)"
| "linux_apply (EffMotion delta through) h = backend_apply (EffMotion delta through) h"
| "linux_apply (EffKey key pressed synthetic) h = backend_apply (EffKey key pressed synthetic) h"
| "linux_apply (EffButton button pressed synthetic) h = backend_apply (EffButton button pressed synthetic) h"
| "linux_apply (EffTouchReplaced touches synthetic) h = backend_apply (EffTouchReplaced touches synthetic) h"
| "linux_apply (EffSnapshotAck session ack) h = Some h"
| "linux_apply (Rejected session reason) h = Some h"

fun linux_run :: "ReceiverEffect list \<Rightarrow> HeldState \<Rightarrow> HeldState option" where
  "linux_run [] h = Some h"
| "linux_run (e # es) h = Option.bind (linux_apply e h) (linux_run es)"

text \<open>What these devices can represent: keys and buttons in the tables, and contacts that fit the touchpad.\<close>

definition representable :: "bool \<Rightarrow> ReceiverEffect \<Rightarrow> bool" where
  "representable touchpad e \<longleftrightarrow>
     (case e of
        EffKey key _ _ \<Rightarrow> typable key
      | EffButton button _ _ \<Rightarrow> is_ok (pointer_button_to_evdev button)
      | EffTouchReplaced touches _ \<Rightarrow>
          touch_wf touches \<and> touch_len touches \<le> MAX_TOUCHPAD_CONTACTS \<and> (touchpad \<or> touches = fmempty)
      | _ \<Rightarrow> True)"

definition accepts_all :: "DeviceAnswers \<Rightarrow> bool" where
  "accepts_all os \<longleftrightarrow>
     (\<forall>n. da_keyboard os n) \<and> (\<forall>n. da_pointer os n) \<and> (\<forall>n. da_touchpad os n) \<and> (\<forall>n. da_now os n \<noteq> None)"

definition pad_shows_touch :: "VirtualTouchpad option \<Rightarrow> TouchState \<Rightarrow> bool" where
  "pad_shows_touch pad touches \<longleftrightarrow>
     (case pad of None \<Rightarrow> touches = fmempty | Some vt \<Rightarrow> touchpad_inv vt \<and> shows_touch (vt_state vt) touches)"

definition devices_show :: "VirtualInput \<Rightarrow> HeldState \<Rightarrow> bool" where
  "devices_show vi h \<longleftrightarrow>
     keyboard_shows (vi_keyboard vi) (pressed_keys h) \<and>
     vp_held (vi_pointer vi) = pressed_buttons h \<and>
     (\<forall>button. button |\<in>| pressed_buttons h \<longrightarrow> is_ok (pointer_button_to_evdev button)) \<and>
     pad_shows_touch (vi_touchpad vi) (active_touch h)"

lemma accepted_motion:
  assumes "\<forall>n. dev n"
  shows "\<exists>vp'. pointer_motion_emit dev delta vp = (Inr (), vp') \<and> vp_held vp' = vp_held vp"
  using assms
  by (auto simp: pointer_motion_emit_def pointer_emit_def device_emit_def motion_events_def Let_def split: prod.split)

lemma accepted_button:
  assumes "\<forall>n. dev n" "is_ok (pointer_button_to_evdev button)" "pressed \<noteq> (button |\<in>| vp_held vp)"
  shows "\<exists>vp'. set_button dev button pressed vp = (Inr (), vp') \<and>
    vp_held vp' = (if pressed then finsert button (vp_held vp) else vp_held vp |-| {|button|})"
  using assms
  by (auto simp: set_button_def try_then_def map_err_def pointer_emit_def device_emit_def is_ok_def split: sum.splits)

lemma accepted_button_releases:
  assumes "\<forall>n. dev n" "\<forall>button. button |\<in>| vp_held vp \<longrightarrow> is_ok (pointer_button_to_evdev button)"
  shows "\<exists>vp'. pointer_release_all dev vp = (Inr (), vp') \<and> vp_held vp' = {||}"
proof -
  have "\<exists>es. button_releases (vp_held vp) = Inr es"
  proof -
    have "map (\<lambda>button. result_then (map_err UnsupportedInput (pointer_button_to_evdev button)) (\<lambda>key. Inr (key_event key False)))
        (sorted_list_of_fset (vp_held vp)) =
        map Inr (map (\<lambda>button. key_event (projr (pointer_button_to_evdev button)) False) (sorted_list_of_fset (vp_held vp)))"
      using assms(2) by (auto simp: is_ok_def result_then_def map_err_def split: sum.splits)
    then show ?thesis by (simp only: button_releases_def collect_results_map) blast
  qed
  then show ?thesis
    using assms(1) by (auto simp: pointer_release_all_def try_then_def pointer_emit_def device_emit_def)
qed

lemma accepted_touch:
  assumes "pad_shows_touch pad t0" "accepts_all os" "touch_wf touches" "touch_len touches \<le> MAX_TOUCHPAD_CONTACTS"
    and "pad \<noteq> None \<or> touches = fmempty"
  shows "\<exists>vi'. replace_touch_at (da_touchpad os) (da_now os) touches captured_at (vi\<lparr>vi_touchpad := pad\<rparr>) = Some (Inr (), vi') \<and>
    vi_keyboard vi' = vi_keyboard vi \<and> vi_pointer vi' = vi_pointer vi \<and> (vi_touchpad vi' = None \<longleftrightarrow> pad = None) \<and>
    pad_shows_touch (vi_touchpad vi') touches"
proof (cases pad)
  case None
  with assms(5) show ?thesis by (simp add: replace_touch_at_def touch_is_empty_def pad_shows_touch_def)
next
  case (Some vt)
  then have inv: "touchpad_inv vt" using assms(1) by (simp add: pad_shows_touch_def)
  obtain r vt' where run: "replace_at (da_touchpad os) (da_now os) touches captured_at vt = Some (r, vt')" "touchpad_inv vt'"
      "replaced (da_touchpad os) (da_now os) (touches, captured_at) r" "r = Inr () \<longrightarrow> shows_touch (vt_state vt') touches"
    using replace_at_ok [OF inv assms(3), of "da_touchpad os" "da_now os" captured_at] by blast
  have "\<not> pad_write_failed (da_touchpad os) (da_now os) e" for e
    using assms(2) unfolding pad_write_failed_def accepts_all_def by blast
  then have "r = Inr ()" using run(3) assms(4) by (cases r) (auto simp: replaced_def)
  with run Some show ?thesis by (auto simp: replace_touch_at_def pad_shows_touch_def)
qed

lemma before_effect_shows:
  assumes "devices_show vi h" "accepts_all os"
  shows "\<exists>k. before_effect os e vi = (Inr (), vi\<lparr>vi_keyboard := k\<rparr>) \<and> keyboard_shows k (pressed_keys h)"
proof -
  have kb: "keyboard_shows (vi_keyboard vi) (pressed_keys h)" using assms(1) by (simp add: devices_show_def)
  show ?thesis
  proof (cases "pointer_activity vi e")
    case None
    have "before_effect os e vi = (Inr (), vi\<lparr>vi_keyboard := vi_keyboard vi\<rparr>)" by (simp add: before_effect_def None)
    with kb show ?thesis by blast
  next
    case (Some a)
    obtain pressed busy where a: "a = (pressed, busy)" by force
    show ?thesis
    proof (cases pressed)
      case True
      obtain k where "keyboard_pointer (da_keyboard os) busy (vi_keyboard vi) = (Inr (), k)" "keyboard_shows k (pressed_keys h)"
        using accepted_pointer [OF kb, of "da_keyboard os" busy] assms(2) by (auto simp: accepts_all_def)
      with True Some a show ?thesis by (auto simp: before_effect_def on_keyboard_def)
    next
      case False
      with Some a pointer_released_shows [OF kb] show ?thesis by (auto simp: before_effect_def)
    qed
  qed
qed

lemma main_effect_shows:
  assumes "devices_show vi h" "accepts_all os" "linux_apply e h = Some h'" "representable (vi_touchpad vi \<noteq> None) e"
  shows "\<exists>vi'. main_effect os captured_at mode e vi = Some (Inr (), vi') \<and> devices_show vi' h' \<and>
    (vi_touchpad vi' = None \<longleftrightarrow> vi_touchpad vi = None)"
proof -
  have kb: "keyboard_shows (vi_keyboard vi) (pressed_keys h)" and vp: "vp_held (vi_pointer vi) = pressed_buttons h"
    and ok: "\<forall>button. button |\<in>| pressed_buttons h \<longrightarrow> is_ok (pointer_button_to_evdev button)"
    and pad: "pad_shows_touch (vi_touchpad vi) (active_touch h)"
    using assms(1) by (simp_all add: devices_show_def)
  have devs: "\<forall>n. da_keyboard os n" "\<forall>n. da_pointer os n" using assms(2) by (simp_all add: accepts_all_def)
  show ?thesis
  proof (cases e)
    case (EffMotion delta through)
    obtain p where "pointer_motion_emit (da_pointer os) delta (vi_pointer vi) = (Inr (), p)" "vp_held p = vp_held (vi_pointer vi)"
      using accepted_motion [OF devs(2)] by blast
    then show ?thesis
      using assms(1,3) by (auto simp: EffMotion main_effect_def on_pointer_def map_err_def devices_show_def)
  next
    case (EffKey key pressed synthetic)
    have "typable key" using assms(4) by (simp add: EffKey representable_def)
    then obtain k where "keyboard_set_key (da_keyboard os) key pressed (vi_keyboard vi) = (Inr (), k)"
        "keyboard_shows k (if pressed then finsert key (pressed_keys h) else pressed_keys h |-| {|key|})"
      using accepted_key [OF kb _ devs(1)] by blast
    moreover have "h' = h\<lparr>pressed_keys := (if pressed then finsert key (pressed_keys h) else pressed_keys h |-| {|key|})\<rparr>"
      using assms(3) by (simp add: EffKey split: if_splits)
    ultimately show ?thesis
      using vp ok pad by (simp add: EffKey main_effect_def on_keyboard_def map_err_def devices_show_def)
  next
    case (EffButton button pressed synthetic)
    have button: "is_ok (pointer_button_to_evdev button)" "pressed \<noteq> (button |\<in>| vp_held (vi_pointer vi))"
      using assms(3,4) vp by (auto simp: EffButton representable_def split: if_splits)
    then obtain p where "set_button (da_pointer os) button pressed (vi_pointer vi) = (Inr (), p)"
        "vp_held p = (if pressed then finsert button (pressed_buttons h) else pressed_buttons h |-| {|button|})"
      using accepted_button [OF devs(2) button] vp by auto
    moreover have "h' = h\<lparr>pressed_buttons :=
        (if pressed then finsert button (pressed_buttons h) else pressed_buttons h |-| {|button|})\<rparr>"
      using assms(3) by (simp add: EffButton split: if_splits)
    moreover have "\<forall>b. b |\<in>| (if pressed then finsert button (pressed_buttons h) else pressed_buttons h |-| {|button|}) \<longrightarrow>
        is_ok (pointer_button_to_evdev b)"
      using ok button(1) by (cases pressed) auto
    ultimately show ?thesis
      using kb pad by (simp add: EffButton main_effect_def on_pointer_def map_err_def devices_show_def)
  next
    case (EffTouchReplaced touches synthetic)
    have t: "touch_wf touches" "touch_len touches \<le> MAX_TOUCHPAD_CONTACTS" "vi_touchpad vi \<noteq> None \<or> touches = fmempty"
      using assms(4) by (auto simp: EffTouchReplaced representable_def)
    have "vi\<lparr>vi_touchpad := vi_touchpad vi\<rparr> = vi" by simp
    then obtain vi' where "replace_touch_at (da_touchpad os) (da_now os) touches (if synthetic then None else captured_at) vi =
          Some (Inr (), vi')" "vi_keyboard vi' = vi_keyboard vi" "vi_pointer vi' = vi_pointer vi"
        "vi_touchpad vi' = None \<longleftrightarrow> vi_touchpad vi = None" "pad_shows_touch (vi_touchpad vi') touches"
      using accepted_touch [OF pad assms(2) t, of "if synthetic then None else captured_at" vi] by metis
    then show ?thesis
      using assms(3) kb vp ok
      by (auto simp: EffTouchReplaced main_effect_def map_err_def devices_show_def)
  next
    case (ActivationClosed session reason)
    obtain k where k: "keyboard_release_all (da_keyboard os) (vi_keyboard vi) = (Inr (), k)" "keyboard_shows k {||}"
      using accepted_release_all [OF kb devs(1)] by blast
    obtain p where p: "pointer_release_all (da_pointer os) (vi_pointer vi) = (Inr (), p)" "vp_held p = {||}"
      using accepted_button_releases [OF devs(2), of "vi_pointer vi"] vp ok by auto
    have empty: "touch_wf touch_default" "touch_len touch_default \<le> MAX_TOUCHPAD_CONTACTS"
      "vi_touchpad vi \<noteq> None \<or> touch_default = fmempty"
      by (simp_all add: touch_wf_def touch_len_def)
    obtain t where "(case vi_touchpad vi of None \<Rightarrow> Some (Inr (), None)
        | Some vt \<Rightarrow> map_option (\<lambda>(r, v). (r, Some v)) (touchpad_release_all (da_touchpad os) (da_now os) vt)) =
          Some (Inr (), t)" "pad_shows_touch t touch_default" "t = None \<longleftrightarrow> vi_touchpad vi = None"
      using accepted_touch [OF pad assms(2) empty, of None vi]
      by (auto simp: replace_touch_at_def touchpad_release_all_def touch_is_empty_def split: option.splits)
    then show ?thesis
      using assms(3) k p
      by (auto simp: ActivationClosed main_effect_def input_release_all_def failure_of_def map_err_def devices_show_def
          held_default_def)
  next
    case (ActivationOpened session)
    obtain k where "keyboard_begin (da_keyboard os) mode (vi_keyboard vi) = (Inr (), k)" "keyboard_shows k {||}"
      using accepted_begin [OF kb devs(1)] by blast
    then show ?thesis
      using assms(3) vp ok pad
      by (auto simp: ActivationOpened main_effect_def on_keyboard_def map_err_def devices_show_def)
  qed (use assms(1,3) in \<open>auto simp: main_effect_def\<close>)
qed

lemma apply_effect_shows:
  assumes "devices_show vi h" "accepts_all os" "linux_apply e h = Some h'" "representable (vi_touchpad vi \<noteq> None) e"
  shows "\<exists>vi'. apply_receiver_effect os captured_at mode e vi = Some (Inr (), vi') \<and> devices_show vi' h' \<and>
    (vi_touchpad vi' = None \<longleftrightarrow> vi_touchpad vi = None)"
proof -
  obtain k where before: "before_effect os e vi = (Inr (), vi\<lparr>vi_keyboard := k\<rparr>)" "keyboard_shows k (pressed_keys h)"
    using before_effect_shows [OF assms(1,2)] by blast
  have "devices_show (vi\<lparr>vi_keyboard := k\<rparr>) h" using assms(1) before(2) by (simp add: devices_show_def)
  from main_effect_shows [OF this assms(2,3)] assms(4) before(1) show ?thesis
    by (simp add: apply_receiver_effect_def)
qed

lemma plain_injected:
  assumes "plain k"
  shows "injected k = default_output (kr_mode k) |`| kr_physical k"
proof (rule fset_eqI)
  fix out
  have twice: "default_output (kr_mode k) (default_output (kr_mode k) u) = u" for u
    using assms default_output_involution [of "kr_mode k"] by (simp add: plain_def)
  have "out |\<in>| injected k \<longleftrightarrow> default_output (kr_mode k) out |\<in>| kr_physical k"
    using assms by (simp add: plain_def injected_def fmlookup_dom_iff Let_def)
  also have "\<dots> \<longleftrightarrow> out |\<in>| default_output (kr_mode k) |`| kr_physical k"
    using twice by (metis fimageE fimageI)
  finally show "out |\<in>| injected k \<longleftrightarrow> out |\<in>| default_output (kr_mode k) |`| kr_physical k" .
qed

text \<open>
  The devices hold what the peer holds. For any effects that take the abstract backend from one state to another
  and that the devices can represent, in a kernel that takes every report, all the effects are applied and
  afterwards the virtual devices hold the keys, buttons and contacts of that state; the keyboard has down exactly
  the keys that the mode makes of them.
\<close>

theorem virtual_devices_follow_receiver:
  assumes "devices_show vi h" "accepts_all os" "linux_run es h = Some h'"
    and "list_all (representable (vi_touchpad vi \<noteq> None)) es"
  shows "\<exists>vi'. apply_effects os captured_at mode es vi = Some (Inr (), vi') \<and> devices_show vi' h' \<and>
    (kr_mode (vk_remap (vi_keyboard vi')) \<noteq> Mac \<longrightarrow>
       down_keys (vk_device (vi_keyboard vi')) =
         Some ((\<lambda>key. code_of (default_output (kr_mode (vk_remap (vi_keyboard vi'))) key)) |`| pressed_keys h'))"
proof -
  have "\<exists>vi'. apply_effects os captured_at mode es vi = Some (Inr (), vi') \<and> devices_show vi' h'"
    using assms
  proof (induction es arbitrary: vi h)
    case (Cons e es)
    obtain h1 where h1: "linux_apply e h = Some h1" "linux_run es h1 = Some h'"
      using Cons.prems(3) by (auto split: bind_splits)
    have rep: "representable (vi_touchpad vi \<noteq> None) e" using Cons.prems(4) by simp
    obtain vi1 where vi1: "apply_receiver_effect os captured_at mode e vi = Some (Inr (), vi1)" "devices_show vi1 h1"
        "vi_touchpad vi1 = None \<longleftrightarrow> vi_touchpad vi = None"
      using apply_effect_shows [OF Cons.prems(1,2) h1(1) rep, where captured_at = captured_at and mode = mode] by auto
    then show ?case using Cons.IH [OF vi1(2) Cons.prems(2) h1(2)] Cons.prems(4) by simp
  qed simp
  then obtain vi' where vi': "apply_effects os captured_at mode es vi = Some (Inr (), vi')" "devices_show vi' h'" by blast
  let ?k = "vi_keyboard vi'"
  have "keyboard_inv ?k" "synced ?k" "kr_physical (vk_remap ?k) = pressed_keys h'"
    "kr_mode (vk_remap ?k) \<noteq> Mac \<Longrightarrow> plain (vk_remap ?k)"
    using vi'(2) by (auto simp: devices_show_def keyboard_shows_def)
  then have "kr_mode (vk_remap ?k) \<noteq> Mac \<Longrightarrow>
      down_keys (vk_device ?k) = Some (code_of |`| (default_output (kr_mode (vk_remap ?k)) |`| pressed_keys h'))"
    by (simp add: keyboard_inv_def keyboard_ok_def synced_def plain_injected)
  with vi' show ?thesis by (auto simp: fimage_fimage)
qed

text \<open>The end of an activation, as the receiver reports it, is the same for both backends.\<close>

lemma linux_run_append: "linux_run (es @ fs) h = Option.bind (linux_run es h) (linux_run fs)"
  by (induction es arbitrary: h) (auto split: bind_splits)

lemma linux_run_injections: "list_all is_injection es \<Longrightarrow> linux_run es h = backend_run es h"
proof (induction es arbitrary: h)
  case (Cons e es)
  have "linux_apply e h = backend_apply e h" using Cons.prems by (cases e) simp_all
  with Cons show ?case by (cases "backend_apply e h") simp_all
qed simp

lemma reconcile_effects_inject: "list_all is_injection (reconcile_effects h h')"
  by (auto simp: reconcile_effects_def list_all_iff)

lemma linux_close_activation:
  "linux_run (reconcile_effects h held_default @ [ActivationClosed session reason]) h = Some held_default"
  by (simp add: linux_run_append linux_run_injections reconcile_effects_inject backend_run_reconcile)

section \<open>Failures\<close>

text \<open>
  With any answers: no panic, the invariants of the devices stay, and \<open>InjectionFailed\<close> is only ever the answer to
  a write or a clock that failed.
\<close>

definition devices_inv :: "VirtualInput \<Rightarrow> bool" where
  "devices_inv vi \<longleftrightarrow> keyboard_inv (vi_keyboard vi) \<and> (\<forall>vt. vi_touchpad vi = Some vt \<longrightarrow> touchpad_inv vt)"

definition effect_wf :: "ReceiverEffect \<Rightarrow> bool" where
  "effect_wf e \<longleftrightarrow> (case e of EffTouchReplaced touches _ \<Rightarrow> touch_wf touches | _ \<Rightarrow> True)"

lemma keyboard_op_inv: "keyboard_inv vk \<Longrightarrow> keyboard_inv (snd (keyboard_apply dev op vk))"
  using keyboard_apply_ok [of vk dev op] by (simp add: apply_ok_def)

lemma devices_inv_keyboard: "devices_inv vi \<Longrightarrow> keyboard_inv k \<Longrightarrow> devices_inv (vi\<lparr>vi_keyboard := k\<rparr>)"
  by (simp add: devices_inv_def)

lemma devices_inv_pointer: "devices_inv vi \<Longrightarrow> devices_inv (vi\<lparr>vi_pointer := p\<rparr>)"
  by (simp add: devices_inv_def)

lemma before_effect_inv:
  assumes "devices_inv vi"
  shows "devices_inv (snd (before_effect os e vi))"
proof -
  have "keyboard_inv (snd (keyboard_pointer (da_keyboard os) busy (vi_keyboard vi)))"
    "keyboard_inv (keyboard_pointer_released busy (vi_keyboard vi))" for busy
    using assms keyboard_op_inv [of "vi_keyboard vi" "da_keyboard os" "KbdPointer busy"]
      keyboard_op_inv [of "vi_keyboard vi" "da_keyboard os" "KbdPointerReleased busy"]
    by (simp_all add: devices_inv_def)
  with assms show ?thesis
    by (auto simp: before_effect_def on_keyboard_def case_prod_beta Let_def devices_inv_keyboard split: option.split bool.split)
qed

lemma touch_effect_inv:
  assumes "devices_inv vi" "touch_wf touches"
  shows "\<exists>r vi'. replace_touch_at dev now touches captured_at vi = Some (r, vi') \<and> devices_inv vi'"
proof (cases "vi_touchpad vi")
  case None
  with assms show ?thesis by (simp add: replace_touch_at_def)
next
  case (Some vt)
  then obtain r vt' where "replace_at dev now touches captured_at vt = Some (r, vt')" "touchpad_inv vt'"
    using replace_at_ok [of vt touches dev now captured_at] assms by (auto simp: devices_inv_def)
  with assms Some show ?thesis by (auto simp: replace_touch_at_def devices_inv_def)
qed

lemma release_effect_inv:
  assumes "devices_inv vi"
  shows "\<exists>r vi'. input_release_all kdev pdev tdev now vi = Some (r, vi') \<and> devices_inv vi'"
proof -
  have k: "keyboard_inv (snd (keyboard_release_all kdev (vi_keyboard vi)))"
    using assms keyboard_op_inv [of "vi_keyboard vi" kdev KbdReleaseAll] by (simp add: devices_inv_def)
  show ?thesis
  proof (cases "vi_touchpad vi")
    case None
    with k show ?thesis by (auto simp: input_release_all_def Let_def case_prod_beta devices_inv_def)
  next
    case (Some vt)
    then obtain r vt' where "replace_at tdev now touch_default None vt = Some (r, vt')" "touchpad_inv vt'"
      using replace_at_ok [of vt touch_default tdev now None] assms by (auto simp: devices_inv_def touch_wf_def)
    with k Some show ?thesis
      by (auto simp: input_release_all_def touchpad_release_all_def Let_def case_prod_beta devices_inv_def)
  qed
qed

lemma apply_effect_inv:
  assumes "devices_inv vi" "effect_wf e"
  shows "\<exists>r vi'. apply_receiver_effect os captured_at mode e vi = Some (r, vi') \<and> devices_inv vi'"
proof -
  obtain r1 vi1 where before: "before_effect os e vi = (r1, vi1)" by force
  have inv: "devices_inv vi1" using before_effect_inv [OF assms(1), of os e] before by simp
  have key: "keyboard_inv (snd (keyboard_set_key (da_keyboard os) key pressed (vi_keyboard vi1)))"
    and start: "keyboard_inv (snd (keyboard_begin (da_keyboard os) mode (vi_keyboard vi1)))" for key pressed
    using inv keyboard_op_inv [of "vi_keyboard vi1" "da_keyboard os" "KbdSetKey key pressed"]
      keyboard_op_inv [of "vi_keyboard vi1" "da_keyboard os" "KbdBegin mode"]
    by (simp_all add: devices_inv_def)
  have "\<exists>r vi'. main_effect os captured_at mode e vi1 = Some (r, vi') \<and> devices_inv vi'"
  proof (cases e)
    case (EffTouchReplaced touches synthetic)
    with touch_effect_inv [OF inv, of touches] assms(2) show ?thesis
      by (fastforce simp: main_effect_def effect_wf_def)
  next
    case (ActivationClosed session reason)
    with release_effect_inv [OF inv] show ?thesis by (fastforce simp: main_effect_def)
  qed (use inv key start in \<open>simp_all add: main_effect_def on_keyboard_def on_pointer_def Let_def case_prod_beta
      devices_inv_keyboard devices_inv_pointer\<close>)
  with before inv show ?thesis by (cases r1) (auto simp: apply_receiver_effect_def)
qed

theorem apply_effects_never_panics:
  assumes "devices_inv vi" "list_all effect_wf es"
  shows "\<exists>r vi'. apply_effects os captured_at mode es vi = Some (r, vi') \<and> devices_inv vi'"
  using assms
proof (induction es arbitrary: vi)
  case (Cons e es)
  then obtain r vi1 where "apply_receiver_effect os captured_at mode e vi = Some (r, vi1)" "devices_inv vi1"
    using apply_effect_inv [of vi e os captured_at mode] by auto
  then show ?case using Cons.IH [of vi1] Cons.prems(2) by (cases r) auto
qed simp

section \<open>A sample run, at which the theorem above applies\<close>

definition sample_input :: VirtualInput where
  "sample_input = \<lparr>vi_keyboard = keyboard_create, vi_pointer = pointer_create, vi_touchpad = None\<rparr>"

definition sample_accepting :: DeviceAnswers where
  "sample_accepting = \<lparr>da_keyboard = \<lambda>_. True, da_pointer = \<lambda>_. True, da_touchpad = \<lambda>_. True, da_now = \<lambda>n. Some n\<rparr>"

lemma sample_input_shows: "devices_show sample_input held_default"
  by (simp add: devices_show_def sample_input_def held_default_def pad_shows_touch_def pointer_create_def
      keyboard_shows_def keyboard_create_ok)
    (simp add: keyboard_create_def remap_new_def plain_def Let_def)

lemma virtual_devices_follow_receiver_witness:
  "\<exists>vi'. apply_effects sample_accepting None Standard [EffButton 1 True False, EffButton 3 True False, EffButton 1 False False]
     sample_input = Some (Inr (), vi') \<and> vp_held (vi_pointer vi') = {|3|}"
proof -
  have run: "linux_run [EffButton 1 True False, EffButton 3 True False, EffButton 1 False False] held_default =
      Some (held_default\<lparr>pressed_buttons := {|3|}\<rparr>)"
    by (simp add: held_default_def) auto
  have "list_all (representable (vi_touchpad sample_input \<noteq> None))
      [EffButton 1 True False, EffButton 3 True False, EffButton 1 False False]"
    by (simp add: representable_def is_ok_def pointer_button_to_evdev_def)
  moreover have "accepts_all sample_accepting" by (simp add: accepts_all_def sample_accepting_def)
  ultimately show ?thesis
    using virtual_devices_follow_receiver [OF sample_input_shows _ run, of sample_accepting None Standard]
    by (auto simp: devices_show_def)
qed

end
