(* ===== verification/Spec2Isabelle.thy ===== *)
theory Spec2Isabelle
  imports Link_Run Session Layout Wire Pairing Capture_Set Linux_Inject
begin

text \<open>
  ZFlow shares one keyboard, mouse and touchpad between computers. The computer that has the devices is the
  source: it captures input, numbers it and sends it over an authenticated connection. The target plays it
  into its own input backend. This development models the parts that decide what is sent, what is injected
  and who may connect, and proves what makes them correct.

  \<^bold>\<open>The parts and the theories that model them.\<close> Every definition has the name of the Rust item it models, or that
  name with a prefix where several components use it; the fields of the records are prefixed per record.

  \<^item> \<open>Prelude\<close>: results as sums (\<open>result_then\<close>, \<open>map_err\<close>, \<open>ok_or\<close>), methods that take \<open>&mut self\<close> and may fail as
    functions from a state to a result and a state (\<open>try_then\<close>, \<open>reading\<close>), checked and saturating arithmetic on
    words, ordered maps, and the interfaces: \<open>edge_machine\<close> (presses and releases of a set) and a component
    driven by a monotonic clock.
  \<^item> \<open>Model\<close> (\<open>src/src/core/model.rs\<close>): identifiers, held state, touch, cumulative motion, messages, negotiation.
  \<^item> \<open>Sender\<close> (\<open>core/sender.rs\<close>) and \<open>Receiver\<close>, \<open>Receiver_Safety\<close> (\<open>core/receiver.rs\<close>): the two ends of an activation.
  \<^item> \<open>F64\<close>: the doubles that the code computes with, as rationals that are rounded after every operation, the infinities and not-a-number.
    \<open>Clock\<close> (\<open>core/clock.rs\<close>): the fit that maps the sender's clock. \<open>Playout\<close>, \<open>Playout_Motion\<close> (\<open>core/playout.rs\<close>): the
    jitter buffer.
  \<^item> \<open>Inbound\<close>, \<open>Inbound_Sync\<close>, \<open>Inbound_Run\<close> (\<open>session/receive.rs\<close>): the receive side of a session, which drives the
    receiver, the playout and the clock and hands effects to the backend.
  \<^item> \<open>Outbound\<close> (\<open>session.rs\<close>, \<open>capture.rs\<close>): the send side, which merges the devices and drives the sender.
  \<^item> \<open>Link\<close>, \<open>Link_Run\<close>: the two ends composed. One step relation joins the sender and the receiver of an activation
    over a control stream that keeps its order and motion frames that may be lost or come in any order; when a
    frame is played is the rule \<open>plays\<close>, which abstracts the maturity rule of the playout. A call of the sender that
    fails is no step of it, because the session then ends.
  \<^item> \<open>Negotiate\<close> (\<open>session/negotiate.rs\<close>, \<open>SessionOptions\<close> of \<open>session.rs\<close>): the offers, the selection of a session, and
    the checks of what a peer may send in it.
  \<^item> \<open>Inbound_Backend\<close>: what the backend holds while the receive side runs and after it has closed.
  \<^item> \<open>Relay\<close> (\<open>session/desktop.rs\<close>): the desktop requests that travel on the control stream.
  \<^item> \<open>Session\<close> (\<open>run_session\<close> of \<open>session.rs\<close>): the loop that joins the send side, the receive side and the relay.
  \<^item> \<open>Mac_Keys\<close> (the tables of \<open>macos/keys.rs\<close>) and \<open>Backend_Support\<close> (\<open>backend_supports\<close> of \<open>session/receive.rs\<close>): which
    effects the backend of each operating system can inject.
  \<^item> \<open>Keymap\<close> (\<open>core/keymap.rs\<close>): the keyboard remap with its rule table.
  \<^item> \<open>Evdev\<close> (\<open>linux/mapping.rs\<close>), \<open>Touch_Slots\<close> (\<open>linux/touch.rs\<close>), \<open>Touchpad\<close> (\<open>linux/touchpad.rs\<close>): from the events of
    a Linux device to captured frames, from touchpad slots to contacts, and from contacts to a pointer.
  \<^item> \<open>Ownership\<close> (\<open>linux/ownership.rs\<close>), \<open>Capture_Select\<close> (\<open>linux/devices.rs\<close> and the selection of \<open>runtime/linux.rs\<close>),
    \<open>Capture_Set\<close> (\<open>linux/capture.rs\<close>): who owns the input, which devices are captured, and the open nodes with their
    grabs, reads and reconciliation.
  \<^item> \<open>Uinput\<close>, \<open>Uinput_Touch\<close> (\<open>linux/uinput.rs\<close>): the virtual keyboard, pointer and touchpad of a Linux target.
    \<open>Linux_Inject\<close> (\<open>apply_receiver_effect\<close> and \<open>inject\<close> of \<open>runtime/linux.rs\<close>): the effects of a receiver on them.
  \<^item> \<open>Desktop\<close>, \<open>Layout\<close> (\<open>desktop.rs\<close>, \<open>desktop/monitors.rs\<close>, part of \<open>daemon.rs\<close>): geometry, desktop messages and the
    layout that all computers share, with its edits.
  \<^item> \<open>Wire\<close> (\<open>wire/\<close>, \<open>lens/wire.rs\<close>): framing, size limits and validation of messages.
  \<^item> \<open>Pairing\<close> (\<open>pairing_window.rs\<close>): the one-time window in which a new computer may join.

  \<^bold>\<open>How they interact.\<close> A captured frame goes through \<open>Outbound.capture\<close> to the sender; its controls and motion
  frames go to the wire and, on the other side, to \<open>Inbound.in_receive_control\<close> and \<open>Inbound.receive_motion\<close>. A
  control with a motion anchor waits until the playout delay has passed, and the playout may not play a frame
  before the controls that were sent before it. The effects of the receiver go to the backend in one batch per
  call, and only then is the peer answered. On Linux, \<open>Capture_Set\<close> reads the frames from the grabbed nodes by way of
  \<open>Evdev\<close>, \<open>Touch_Slots\<close> and \<open>Touchpad\<close>, and \<open>Linux_Inject\<close> applies a batch of effects, the keys by way of \<open>Keymap\<close>.

  \<^bold>\<open>What is proved.\<close> For the sender: consecutive numbers, exact motion, deadlines, acknowledgements. For the
  receiver: it refines an abstract backend that only holds what was pressed, held state ends with the lease,
  controls apply at most once, closed activations stay closed, injected motion is exact, a snapshot reconciles.
  For the playout: its totals are exact, it plays the newest mature frame, its backlog drains, its queues and
  delays stay bounded. For the clock: the mapping is monotone. For the receive side: receiver and playout stay in
  step, every playout step is accepted, queues are bounded, answers follow the backend, a quiet session may sleep
  until its deadline; and one path on which the releases are lost. For the send side: the sender holds the union
  of all devices. For the two ends together: once all controls have arrived, the target holds exactly what the
  source holds, and it never refuses what an honest source sends. For negotiation: two ends that finish agree, whatever
  is lost on the way, the session is usable and honest traffic passes its checks. For the loop of a session, with the
  backend of any operating system: when it has ended, and not with one of the lossy errors that \<open>Inbound_Backend\<close> names,
  nothing stays held, a \<open>Finish\<close> waits for the release, every desktop
  request is answered once. For the remap: everything pressed is released. For the layout: no edit makes connected
  screens overlap and the newest layout wins everywhere. For the wire: round trips and bounds. For pairing: the
  hold-off and at most one opening. For Linux capture: the key tables are inverse, the contacts are those of the pad,
  a clickpad's presses and releases alternate, a grab takes all devices or none, what is captured is bounded and fits a session for five contacts. For
  the virtual devices: the keyboard's log, held keys and remap agree whatever writes fail, injected motion is captured
  exactly, the touchpad shows the contacts. Every property stands below its \<open>C\<close> number, with a witness where it has
  hypotheses; theorems without a number complete them.

  \<^bold>\<open>Bounds.\<close> Sequence numbers, times and totals are words of the width of the code, with the wrap, check or
  saturation that the code names. Loops are structural recursions or have a termination proof; the development
  uses no fuel. The capacity of a queue (\<open>usize\<close>) and durations are natural numbers.

  \<^bold>\<open>Parameters.\<close> \<open>hypot\<close> of the math library is an argument of the playout, the payload codecs (postcard and
  serde_json) are arguments of the wire format, and the answers of the backend, the channels and the wall clock are
  arguments of the session (\<open>World\<close>), as is the largest datagram of the path. The events of the kernel, its answers to grabs, reads and writes, and the axis
  ranges of devices are arguments of the Linux theories.

  \<^bold>\<open>Not modelled.\<close> Metrics, logging and error texts. The async tasks, QUIC and TLS (\<open>transport/\<close>), discovery, the
  daemon's orchestration, configuration and identity files, the application and the screen lens, which are
  calls into libraries and the operating system. Of the Linux backend the directory scan, the seats and the loop of
  \<open>runtime/linux.rs\<close> around the modelled parts; of the macOS backend all but the key tables; the Windows backend.
  \<open>ReturnMapping\<close> of the desktop and the table of neighbours.
\<close>

end
